(* ===== verification/Prelude.thy ===== *)
theory Prelude
  imports Main "HOL-Library.Word"
begin

text \<open>
  Shared vocabulary of the development: the machine integer types of \<^verbatim>\<open>inc/types.h\<close>,
  the state monad in which the stateful code is written, its loops, its triples, and the
  word and list lemmas the component theories share.

  A computation of type \<open>('s, 'a) prog\<close> runs on a state and either returns a value or
  stops for good: the kernel's \<open>panic\<close>, a jump to user mode that never comes back, a halt, an
  endless monitor loop, or an access the C language leaves undefined. Each of these is a
  value of \<open>stop\<close>, and the state reached is kept in every case.
\<close>

unbundle bit_operations_syntax

type_synonym u8 = "8 word"
type_synonym u16 = "16 word"
type_synonym u32 = "32 word"
type_synonym u64 = "64 word"

section \<open>Computations\<close>

datatype stop =
    Panic string      \<comment> \<open>\<^verbatim>\<open>panic(...)\<close> or a failed \<^verbatim>\<open>assert\<close>\<close>
  | UserMode          \<comment> \<open>\<^verbatim>\<open>env_pop_tf\<close>: \<^verbatim>\<open>iret\<close> into user mode\<close>
  | Halted            \<comment> \<open>the \<^verbatim>\<open>hlt\<close> loop of \<^verbatim>\<open>sched_halt\<close>\<close>
  | MonitorLoop       \<comment> \<open>\<^verbatim>\<open>while (1) monitor(NULL)\<close>\<close>
  | BadAccess         \<comment> \<open>null dereference or out-of-bounds access\<close>
  | Entered u32       \<comment> \<open>the boot loader's jump to the kernel's entry point\<close>
  | Spinning          \<comment> \<open>an endless empty loop, or a polling loop that ran out of its fuel\<close>

datatype 'a outcome = Ret 'a | Stop stop

type_synonym ('s, 'a) prog = "'s \<Rightarrow> 'a outcome \<times> 's"

named_theorems prog_simps "equations that run a computation on a state"

definition ret :: "'a \<Rightarrow> ('s, 'a) prog" where
  "ret a s = (Ret a, s)"

definition stop :: "stop \<Rightarrow> ('s, 'a) prog" where
  "stop e s = (Stop e, s)"

definition bindP :: "('s, 'a) prog \<Rightarrow> ('a \<Rightarrow> ('s, 'b) prog) \<Rightarrow> ('s, 'b) prog" where
  "bindP m f s = (case m s of (Ret a, t) \<Rightarrow> f a t | (Stop e, t) \<Rightarrow> (Stop e, t))"

definition thenP :: "('s, 'a) prog \<Rightarrow> ('s, 'b) prog \<Rightarrow> ('s, 'b) prog" where
  "thenP m n = bindP m (\<lambda>_. n)"

definition gets :: "('s \<Rightarrow> 'a) \<Rightarrow> ('s, 'a) prog" where
  "gets f s = (Ret (f s), s)"

definition modify :: "('s \<Rightarrow> 's) \<Rightarrow> ('s, unit) prog" where
  "modify f s = (Ret (), f s)"

definition assertP :: "string \<Rightarrow> bool \<Rightarrow> ('s, unit) prog" where
  "assertP msg b = (if b then ret () else stop (Panic msg))"

definition whenP :: "bool \<Rightarrow> ('s, unit) prog \<Rightarrow> ('s, unit) prog" where
  "whenP b m = (if b then m else ret ())"

text \<open>Dereferencing a pointer that may be null.\<close>

definition deref :: "'a option \<Rightarrow> ('s, 'a) prog" where
  "deref p = (case p of None \<Rightarrow> stop BadAccess | Some a \<Rightarrow> ret a)"

primrec forP :: "'i list \<Rightarrow> ('i \<Rightarrow> ('s, unit) prog) \<Rightarrow> ('s, unit) prog" where
  "forP [] body = ret ()"
| "forP (i # is) body = bindP (body i) (\<lambda>_. forP is body)"

text \<open>Statements one after the other.\<close>

primrec seqP :: "('s, unit) prog list \<Rightarrow> ('s, unit) prog" where
  "seqP [] = ret ()"
| "seqP (m # ms) = thenP m (seqP ms)"

text \<open>A loop whose body may \<^verbatim>\<open>return\<close> from the enclosing function.\<close>

primrec searchP :: "'i list \<Rightarrow> ('i \<Rightarrow> ('s, 'r option) prog) \<Rightarrow> ('s, 'r option) prog" where
  "searchP [] body = ret None"
| "searchP (i # is) body =
     bindP (body i) (\<lambda>r. case r of None \<Rightarrow> searchP is body | Some v \<Rightarrow> ret (Some v))"

text \<open>The same with a carried value, for counters that live across iterations.\<close>

primrec foldP :: "'i list \<Rightarrow> ('i \<Rightarrow> 'a \<Rightarrow> ('s, 'a) prog) \<Rightarrow> 'a \<Rightarrow> ('s, 'a) prog" where
  "foldP [] body a = ret a"
| "foldP (i # is) body a = bindP (body i a) (\<lambda>b. foldP is body b)"

text \<open>
  \<open>run m s\<close> is \<open>m s\<close>, kept as a constant so that the simplifier evaluates a computation from
  the outside: the sequencing operators reduce only once the step before them has returned.
\<close>

definition run :: "('s, 'a) prog \<Rightarrow> 's \<Rightarrow> 'a outcome \<times> 's" where
  "run m s = m s"

lemma run_ret [prog_simps]: "run (ret a) s = (Ret a, s)"
  by (simp add: run_def ret_def)

lemma run_stop [prog_simps]: "run (stop e) s = (Stop e, s)"
  by (simp add: run_def stop_def)

lemma run_gets [prog_simps]: "run (gets f) s = (Ret (f s), s)"
  by (simp add: run_def gets_def)

lemma run_modify [prog_simps]: "run (modify f) s = (Ret (), f s)"
  by (simp add: run_def modify_def)

lemma run_bindP [prog_simps]:
  "run (bindP m f) s = (case run m s of (Ret a, t) \<Rightarrow> run (f a) t | (Stop e, t) \<Rightarrow> (Stop e, t))"
  by (simp add: run_def bindP_def split: prod.splits outcome.splits)

lemma run_thenP [prog_simps]:
  "run (thenP m n) s = (case run m s of (Ret a, t) \<Rightarrow> run n t | (Stop e, t) \<Rightarrow> (Stop e, t))"
  by (simp add: thenP_def run_bindP)

lemma run_if [prog_simps]: "run (if b then m else n) s = (if b then run m s else run n s)"
  by simp

lemma run_option [prog_simps]:
  "run (case x of None \<Rightarrow> m | Some a \<Rightarrow> n a) s =
     (case x of None \<Rightarrow> run m s | Some a \<Rightarrow> run (n a) s)"
  by (simp split: option.splits)

lemma run_prod [prog_simps]: "run (case x of (a, b) \<Rightarrow> n a b) s = run (n (fst x) (snd x)) s"
  by (simp split: prod.splits)

lemma run_assertP [prog_simps]:
  "run (assertP msg b) s = (if b then (Ret (), s) else (Stop (Panic msg), s))"
  by (simp add: assertP_def prog_simps)

lemma run_whenP [prog_simps]: "run (whenP b m) s = (if b then run m s else (Ret (), s))"
  by (simp add: whenP_def prog_simps)

lemma run_deref [prog_simps]:
  "run (deref p) s = (case p of None \<Rightarrow> (Stop BadAccess, s) | Some a \<Rightarrow> (Ret a, s))"
  by (simp add: deref_def prog_simps split: option.splits)

lemma run_bindP_Ret: "run m s = (Ret a, t) \<Longrightarrow> run (bindP m f) s = run (f a) t"
  by (simp add: prog_simps)

lemma run_thenP_Ret: "run m s = (Ret a, t) \<Longrightarrow> run (thenP m n) s = run n t"
  by (simp add: prog_simps)

lemma run_bindP_cases [consumes 1, case_names Ret Stop]:
  assumes "run (bindP m f) s = r"
  obtains a t where "run m s = (Ret a, t)" "run (f a) t = r"
    | e t where "run m s = (Stop e, t)" "r = (Stop e, t)"
  using assms by (auto simp: prog_simps split: prod.splits outcome.splits)

lemma run_for_append [prog_simps]:
  "run (forP (xs @ ys) body) s = run (thenP (forP xs body) (forP ys body)) s"
proof (induction xs arbitrary: s)
  case Nil
  then show ?case by (simp add: prog_simps)
next
  case (Cons x xs)
  then show ?case by (simp add: prog_simps split: prod.splits outcome.splits)
qed

section \<open>Triples\<close>

text \<open>
  \<open>triple P m Q E\<close>: from a state satisfying \<open>P\<close>, a normal return of \<open>m\<close> satisfies \<open>Q\<close> and
  every way of stopping satisfies \<open>E\<close>.
\<close>

definition triple ::
  "('s \<Rightarrow> bool) \<Rightarrow> ('s, 'a) prog \<Rightarrow> ('a \<Rightarrow> 's \<Rightarrow> bool) \<Rightarrow> (stop \<Rightarrow> 's \<Rightarrow> bool) \<Rightarrow> bool" where
  "triple P m Q E \<longleftrightarrow>
     (\<forall>s. P s \<longrightarrow> (case run m s of (Ret a, t) \<Rightarrow> Q a t | (Stop e, t) \<Rightarrow> E e t))"

lemma triple_ret: "(\<And>s. P s \<Longrightarrow> Q a s) \<Longrightarrow> triple P (ret a) Q E"
  by (simp add: triple_def prog_simps)

lemma triple_stop: "(\<And>s. P s \<Longrightarrow> E e s) \<Longrightarrow> triple P (stop e) Q E"
  by (simp add: triple_def prog_simps)

lemma triple_gets: "(\<And>s. P s \<Longrightarrow> Q (f s) s) \<Longrightarrow> triple P (gets f) Q E"
  by (simp add: triple_def prog_simps)

lemma triple_modify: "(\<And>s. P s \<Longrightarrow> Q () (f s)) \<Longrightarrow> triple P (modify f) Q E"
  by (simp add: triple_def prog_simps)

lemma triple_bind:
  assumes "triple P m R E" and "\<And>a. triple (R a) (f a) Q E"
  shows "triple P (bindP m f) Q E"
  using assms
  by (fastforce simp: triple_def prog_simps split: prod.splits outcome.splits)

lemma triple_then:
  assumes "triple P m (\<lambda>_. R) E" and "triple R n Q E"
  shows "triple P (thenP m n) Q E"
  unfolding thenP_def by (rule triple_bind [OF assms(1)]) (rule assms(2))

lemma triple_conseq:
  assumes "triple P' m Q' E'" and "\<And>s. P s \<Longrightarrow> P' s"
    and "\<And>a s. Q' a s \<Longrightarrow> Q a s" and "\<And>e s. E' e s \<Longrightarrow> E e s"
  shows "triple P m Q E"
  using assms by (fastforce simp: triple_def split: prod.splits outcome.splits)

lemma triple_for:
  assumes "\<And>i. i \<in> set is \<Longrightarrow> triple I (body i) (\<lambda>_. I) E"
  shows "triple I (forP is body) (\<lambda>_. I) E"
  using assms
proof (induction "is")
  case Nil
  then show ?case by (simp add: triple_ret)
next
  case (Cons i "is")
  have "triple I (body i) (\<lambda>_. I) E" by (rule Cons.prems) simp
  moreover have "triple I (forP is body) (\<lambda>_. I) E"
    by (rule Cons.IH) (rule Cons.prems, simp)
  ultimately show ?case by (auto intro: triple_bind)
qed

lemma triple_if:
  assumes "b \<Longrightarrow> triple P m Q E" and "\<not> b \<Longrightarrow> triple P n Q E"
  shows "triple P (if b then m else n) Q E"
  using assms by simp

lemma triple_Ret:
  assumes "triple P m Q E" and "P s" and "run m s = (Ret a, t)"
  shows "Q a t"
  using assms by (force simp: triple_def)

lemma triple_Stop:
  assumes "triple P m Q E" and "P s" and "run m s = (Stop e, t)"
  shows "E e t"
  using assms by (force simp: triple_def)

section \<open>Computations that never return\<close>

definition never_returns :: "('s, 'a) prog \<Rightarrow> bool" where
  "never_returns m \<longleftrightarrow> (\<forall>s a t. run m s \<noteq> (Ret a, t))"

lemma never_returns_stop [simp]: "never_returns (stop e)"
  by (simp add: never_returns_def prog_simps)

lemma never_returns_bind: "(\<And>a. never_returns (f a)) \<Longrightarrow> never_returns (bindP m f)"
  by (auto simp: never_returns_def prog_simps split: prod.splits outcome.splits)

lemma never_returns_then: "never_returns n \<Longrightarrow> never_returns (thenP m n)"
  unfolding thenP_def by (rule never_returns_bind)

lemma never_returns_if: "never_returns m \<Longrightarrow> never_returns n \<Longrightarrow> never_returns (if b then m else n)"
  by simp

lemma never_returns_stops: "never_returns m \<Longrightarrow> \<exists>e t. run m s = (Stop e, t)"
  by (cases "run m s", cases "fst (run m s)") (auto simp: never_returns_def)

section \<open>What a computation leaves alone\<close>

text \<open>\<open>keeps f m\<close>: the part \<open>f\<close> of the state is the same after \<open>m\<close>, however it ends.\<close>

definition keeps :: "('s \<Rightarrow> 'b) \<Rightarrow> ('s, 'a) prog \<Rightarrow> bool" where
  "keeps f m \<longleftrightarrow> (\<forall>s. f (snd (run m s)) = f s)"

named_theorems keeps_rules "computations that keep a part of the state"

lemma keeps_pure [keeps_rules]:
  "keeps f (ret a)" "keeps f (stop e)" "keeps f (gets g)" "keeps f (assertP msg b)" "keeps f (deref p)"
  by (simp_all add: keeps_def prog_simps split: option.splits)

lemma keeps_modify: "(\<And>s. f (g s) = f s) \<Longrightarrow> keeps f (modify g)"
  by (simp add: keeps_def prog_simps)

lemma keeps_bindP [keeps_rules]: "keeps f m \<Longrightarrow> (\<And>a. keeps f (n a)) \<Longrightarrow> keeps f (bindP m n)"
  by (auto simp: keeps_def prog_simps split: prod.splits outcome.splits) (metis snd_conv)+

lemma keeps_thenP [keeps_rules]: "keeps f m \<Longrightarrow> keeps f n \<Longrightarrow> keeps f (thenP m n)"
  unfolding thenP_def by (rule keeps_bindP)

lemma keeps_if [keeps_rules]: "keeps f m \<Longrightarrow> keeps f n \<Longrightarrow> keeps f (if b then m else n)"
  by simp

lemma keeps_whenP [keeps_rules]: "keeps f m \<Longrightarrow> keeps f (whenP b m)"
  by (simp add: whenP_def keeps_pure)

lemma keeps_option [keeps_rules]:
  "keeps f m \<Longrightarrow> (\<And>a. keeps f (n a)) \<Longrightarrow> keeps f (case x of None \<Rightarrow> m | Some a \<Rightarrow> n a)"
  by (simp split: option.splits)

lemma keeps_prod [keeps_rules]: "(\<And>a b. keeps f (n a b)) \<Longrightarrow> keeps f (case x of (a, b) \<Rightarrow> n a b)"
  by (simp split: prod.splits)

lemma keeps_forP [keeps_rules]: "(\<And>i. keeps f (body i)) \<Longrightarrow> keeps f (forP is body)"
  by (induction "is") (auto intro: keeps_rules)

lemma keeps_searchP [keeps_rules]: "(\<And>i. keeps f (body i)) \<Longrightarrow> keeps f (searchP is body)"
  by (induction "is") (auto intro!: keeps_rules)

lemma keeps_foldP [keeps_rules]: "(\<And>i a. keeps f (body i a)) \<Longrightarrow> keeps f (foldP is body a)"
  by (induction "is" arbitrary: a) (auto intro: keeps_rules)

lemma keepsD: "keeps f m \<Longrightarrow> run m s = (r, t) \<Longrightarrow> f t = f s"
  by (metis keeps_def snd_conv)

section \<open>Linked lists\<close>

text \<open>\<open>linked nxt p xs\<close>: following \<open>nxt\<close> from the head pointer \<open>p\<close> visits \<open>xs\<close>.\<close>

primrec linked :: "(nat \<Rightarrow> nat option) \<Rightarrow> nat option \<Rightarrow> nat list \<Rightarrow> bool" where
  "linked nxt p [] \<longleftrightarrow> p = None"
| "linked nxt p (x # xs) \<longleftrightarrow> p = Some x \<and> linked nxt (nxt x) xs"

lemma linked_unique: "linked nxt p xs \<Longrightarrow> linked nxt p ys \<Longrightarrow> xs = ys"
proof (induction xs arbitrary: p ys)
  case Nil
  then show ?case by (cases ys) auto
next
  case (Cons x xs)
  then show ?case by (cases ys) auto
qed

lemma linked_append_tail: "linked nxt p (xs @ x # ys) \<Longrightarrow> linked nxt (Some x) (x # ys)"
  by (induction xs arbitrary: p) auto

lemma linked_distinct: "linked nxt p xs \<Longrightarrow> distinct xs"
proof (induction xs arbitrary: p)
  case Nil
  then show ?case by simp
next
  case (Cons x xs)
  have "x \<notin> set xs"
  proof
    assume "x \<in> set xs"
    then obtain as bs where xs: "xs = as @ x # bs" by (auto simp: in_set_conv_decomp)
    then have "linked nxt (Some x) (x # bs)"
      using Cons.prems linked_append_tail [of nxt "nxt x" as x bs] by simp
    then have "x # bs = x # xs" using Cons.prems linked_unique [of nxt "Some x" "x # bs" "x # xs"]
      by simp
    then show False using xs by simp
  qed
  with Cons show ?case by auto
qed

lemma linked_cong:
  "(\<And>x. x \<in> set xs \<Longrightarrow> nxt' x = nxt x) \<Longrightarrow> linked nxt' p xs = linked nxt p xs"
  by (induction xs arbitrary: p) auto

section \<open>Words\<close>

lemma unat_of_nat32: "n < 2 ^ 32 \<Longrightarrow> unat (of_nat n :: u32) = n"
  by (simp add: unat_of_nat)

lemma unat_less_32 [simp]: "unat (x :: u32) < 2 ^ 32"
  using unsigned_less [of x] by simp

lemma unat_diff32:
  fixes x y :: u32
  shows "unat (x - y) = (if unat y \<le> unat x then unat x - unat y else unat x + 2 ^ 32 - unat y)"
  by (simp add: unat_sub_if')

lemma unat_add_small32:
  fixes x y :: u32
  shows "unat x + unat y < 2 ^ 32 \<Longrightarrow> unat (x + y) = unat x + unat y"
  by (simp add: unat_word_ariths)

end
