(* ===== verification/Layout.thy ===== *)
theory Layout
  imports Prelude
begin

text \<open>
  \<^verbatim>\<open>inc/mmu.h\<close>, \<^verbatim>\<open>inc/memlayout.h\<close>, \<^verbatim>\<open>inc/types.h\<close> and \<^verbatim>\<open>inc/error.h\<close>: the constants
  of the address space, the decomposition of linear addresses, rounding, page table entry
  flags, segment and gate descriptors, and the error codes. Addresses are 32-bit words.
\<close>

section \<open>Rounding (\<^verbatim>\<open>inc/types.h\<close>)\<close>

definition ROUNDDOWN :: "u32 \<Rightarrow> u32 \<Rightarrow> u32" where
  "ROUNDDOWN a n = a - a mod n"

definition ROUNDUP :: "u32 \<Rightarrow> u32 \<Rightarrow> u32" where
  "ROUNDUP a n = ROUNDDOWN (a + n - 1) n"

definition MIN_u32 :: "u32 \<Rightarrow> u32 \<Rightarrow> u32" where
  "MIN_u32 a b = (if a \<le> b then a else b)"

definition MAX_u32 :: "u32 \<Rightarrow> u32 \<Rightarrow> u32" where
  "MAX_u32 a b = (if a \<ge> b then a else b)"

section \<open>Paging constants (\<^verbatim>\<open>inc/mmu.h\<close>)\<close>

abbreviation (input) NPDENTRIES :: nat where "NPDENTRIES \<equiv> 1024"
abbreviation (input) NPTENTRIES :: nat where "NPTENTRIES \<equiv> 1024"
abbreviation (input) PGSIZE :: u32 where "PGSIZE \<equiv> 4096"
abbreviation (input) PGSHIFT :: nat where "PGSHIFT \<equiv> 12"
abbreviation (input) PTSIZE :: u32 where "PTSIZE \<equiv> 0x400000"
abbreviation (input) PTXSHIFT :: nat where "PTXSHIFT \<equiv> 12"
abbreviation (input) PDXSHIFT :: nat where "PDXSHIFT \<equiv> 22"

abbreviation (input) PTE_P :: u32 where "PTE_P \<equiv> 0x001"
abbreviation (input) PTE_W :: u32 where "PTE_W \<equiv> 0x002"
abbreviation (input) PTE_U :: u32 where "PTE_U \<equiv> 0x004"
abbreviation (input) PTE_PWT :: u32 where "PTE_PWT \<equiv> 0x008"
abbreviation (input) PTE_PCD :: u32 where "PTE_PCD \<equiv> 0x010"
abbreviation (input) PTE_AVAIL :: u32 where "PTE_AVAIL \<equiv> 0xE00"

definition PTE_SYSCALL :: u32 where
  "PTE_SYSCALL = (PTE_AVAIL OR PTE_P OR PTE_W OR PTE_U)"

definition PGNUM :: "u32 \<Rightarrow> u32" where
  "PGNUM la = drop_bit PTXSHIFT la"

definition PDX :: "u32 \<Rightarrow> u32" where
  "PDX la = drop_bit PDXSHIFT la AND 0x3FF"

definition PTX :: "u32 \<Rightarrow> u32" where
  "PTX la = drop_bit PTXSHIFT la AND 0x3FF"

definition PGOFF :: "u32 \<Rightarrow> u32" where
  "PGOFF la = la AND 0xFFF"

definition PGADDR :: "u32 \<Rightarrow> u32 \<Rightarrow> u32 \<Rightarrow> u32" where
  "PGADDR d t off = (push_bit PDXSHIFT d OR push_bit PTXSHIFT t OR off)"

definition PTE_ADDR :: "u32 \<Rightarrow> u32" where
  "PTE_ADDR pte = pte AND NOT 0xFFF"

abbreviation (input) CR0_PE :: u32 where "CR0_PE \<equiv> 0x00000001"
abbreviation (input) CR0_MP :: u32 where "CR0_MP \<equiv> 0x00000002"
abbreviation (input) CR0_EM :: u32 where "CR0_EM \<equiv> 0x00000004"
abbreviation (input) CR0_TS :: u32 where "CR0_TS \<equiv> 0x00000008"
abbreviation (input) CR0_NE :: u32 where "CR0_NE \<equiv> 0x00000020"
abbreviation (input) CR0_WP :: u32 where "CR0_WP \<equiv> 0x00010000"
abbreviation (input) CR0_AM :: u32 where "CR0_AM \<equiv> 0x00040000"
abbreviation (input) CR0_PG :: u32 where "CR0_PG \<equiv> 0x80000000"

abbreviation (input) FL_IF :: u32 where "FL_IF \<equiv> 0x00000200"

section \<open>The memory map (\<^verbatim>\<open>inc/memlayout.h\<close>)\<close>

abbreviation (input) GD_KT :: u16 where "GD_KT \<equiv> 0x08"
abbreviation (input) GD_KD :: u16 where "GD_KD \<equiv> 0x10"
abbreviation (input) GD_UT :: u16 where "GD_UT \<equiv> 0x18"
abbreviation (input) GD_UD :: u16 where "GD_UD \<equiv> 0x20"
abbreviation (input) GD_TSS0 :: u16 where "GD_TSS0 \<equiv> 0x28"

abbreviation (input) KERNBASE :: u32 where "KERNBASE \<equiv> 0xF0000000"
abbreviation (input) IOPHYSMEM :: u32 where "IOPHYSMEM \<equiv> 0x0A0000"
abbreviation (input) EXTPHYSMEM :: u32 where "EXTPHYSMEM \<equiv> 0x100000"
abbreviation (input) KSTACKTOP :: u32 where "KSTACKTOP \<equiv> KERNBASE"
abbreviation (input) KSTKSIZE :: u32 where "KSTKSIZE \<equiv> 0x8000"
abbreviation (input) KSTKGAP :: u32 where "KSTKGAP \<equiv> 0x8000"
abbreviation (input) MMIOLIM :: u32 where "MMIOLIM \<equiv> 0xefc00000"
abbreviation (input) MMIOBASE :: u32 where "MMIOBASE \<equiv> 0xef800000"
abbreviation (input) ULIM :: u32 where "ULIM \<equiv> MMIOBASE"
abbreviation (input) UVPT :: u32 where "UVPT \<equiv> 0xef400000"
abbreviation (input) UPAGES :: u32 where "UPAGES \<equiv> 0xef000000"
abbreviation (input) UENVS :: u32 where "UENVS \<equiv> 0xeec00000"
abbreviation (input) UTOP :: u32 where "UTOP \<equiv> UENVS"
abbreviation (input) UXSTACKTOP :: u32 where "UXSTACKTOP \<equiv> UTOP"
abbreviation (input) USTACKTOP :: u32 where "USTACKTOP \<equiv> 0xeebfe000"
abbreviation (input) UTEXT :: u32 where "UTEXT \<equiv> 0x800000"
abbreviation (input) UTEMP :: u32 where "UTEMP \<equiv> PTSIZE"
abbreviation (input) PFTEMP :: u32 where "PFTEMP \<equiv> 0x7ff000"
abbreviation (input) USTABDATA :: u32 where "USTABDATA \<equiv> 0x200000"
abbreviation (input) MPENTRY_PADDR :: u32 where "MPENTRY_PADDR \<equiv> 0x7000"

text \<open>The derived constants are those of the header's expressions.\<close>

lemma layout_derived:
  "PTSIZE = PGSIZE * of_nat NPTENTRIES"
  "KSTKSIZE = 8 * PGSIZE" "KSTKGAP = 8 * PGSIZE"
  "MMIOLIM = KSTACKTOP - PTSIZE" "MMIOBASE = MMIOLIM - PTSIZE"
  "UVPT = ULIM - PTSIZE" "UPAGES = UVPT - PTSIZE" "UENVS = UPAGES - PTSIZE"
  "USTACKTOP = UTOP - 2 * PGSIZE" "UTEXT = 2 * PTSIZE"
  "PFTEMP = UTEMP + PTSIZE - PGSIZE" "USTABDATA = PTSIZE div 2"
  by simp_all

section \<open>Error codes (\<^verbatim>\<open>inc/error.h\<close>)\<close>

abbreviation (input) E_UNSPECIFIED :: u32 where "E_UNSPECIFIED \<equiv> 1"
abbreviation (input) E_BAD_ENV :: u32 where "E_BAD_ENV \<equiv> 2"
abbreviation (input) E_INVAL :: u32 where "E_INVAL \<equiv> 3"
abbreviation (input) E_NO_MEM :: u32 where "E_NO_MEM \<equiv> 4"
abbreviation (input) E_NO_FREE_ENV :: u32 where "E_NO_FREE_ENV \<equiv> 5"
abbreviation (input) E_FAULT :: u32 where "E_FAULT \<equiv> 6"
abbreviation (input) E_IPC_NOT_RECV :: u32 where "E_IPC_NOT_RECV \<equiv> 7"
abbreviation (input) E_EOF :: u32 where "E_EOF \<equiv> 8"
abbreviation (input) MAXERROR :: u32 where "MAXERROR \<equiv> 9"

section \<open>Segment and gate descriptors (\<^verbatim>\<open>inc/mmu.h\<close>)\<close>

abbreviation (input) STA_X :: u8 where "STA_X \<equiv> 0x8"
abbreviation (input) STA_W :: u8 where "STA_W \<equiv> 0x2"
abbreviation (input) STA_R :: u8 where "STA_R \<equiv> 0x2"
abbreviation (input) STS_T32A :: u8 where "STS_T32A \<equiv> 0x9"
abbreviation (input) STS_CG32 :: u8 where "STS_CG32 \<equiv> 0xC"
abbreviation (input) STS_IG32 :: u8 where "STS_IG32 \<equiv> 0xE"
abbreviation (input) STS_TG32 :: u8 where "STS_TG32 \<equiv> 0xF"

record Segdesc =
  sd_lim_15_0 :: u16
  sd_base_15_0 :: u16
  sd_base_23_16 :: u8
  sd_type :: "4 word"
  sd_s :: "1 word"
  sd_dpl :: "2 word"
  sd_p :: "1 word"
  sd_lim_19_16 :: "4 word"
  sd_avl :: "1 word"
  sd_rsv1 :: "1 word"
  sd_db :: "1 word"
  sd_g :: "1 word"
  sd_base_31_24 :: u8

definition SEG_NULL :: Segdesc where
  "SEG_NULL = \<lparr>sd_lim_15_0 = 0, sd_base_15_0 = 0, sd_base_23_16 = 0, sd_type = 0, sd_s = 0,
     sd_dpl = 0, sd_p = 0, sd_lim_19_16 = 0, sd_avl = 0, sd_rsv1 = 0, sd_db = 0, sd_g = 0,
     sd_base_31_24 = 0\<rparr>"

definition SEG :: "u8 \<Rightarrow> u32 \<Rightarrow> u32 \<Rightarrow> u8 \<Rightarrow> Segdesc" where
  "SEG type base lim dpl =
     \<lparr>sd_lim_15_0 = ucast (drop_bit 12 lim AND 0xffff), sd_base_15_0 = ucast (base AND 0xffff),
      sd_base_23_16 = ucast (drop_bit 16 base AND 0xff), sd_type = ucast type, sd_s = 1,
      sd_dpl = ucast dpl, sd_p = 1, sd_lim_19_16 = ucast (drop_bit 28 lim), sd_avl = 0,
      sd_rsv1 = 0, sd_db = 1, sd_g = 1, sd_base_31_24 = ucast (drop_bit 24 base)\<rparr>"

definition SEG16 :: "u8 \<Rightarrow> u32 \<Rightarrow> u32 \<Rightarrow> u8 \<Rightarrow> Segdesc" where
  "SEG16 type base lim dpl =
     \<lparr>sd_lim_15_0 = ucast (lim AND 0xffff), sd_base_15_0 = ucast (base AND 0xffff),
      sd_base_23_16 = ucast (drop_bit 16 base AND 0xff), sd_type = ucast type, sd_s = 1,
      sd_dpl = ucast dpl, sd_p = 1, sd_lim_19_16 = ucast (drop_bit 16 lim), sd_avl = 0,
      sd_rsv1 = 0, sd_db = 1, sd_g = 0, sd_base_31_24 = ucast (drop_bit 24 base)\<rparr>"

record Gatedesc =
  gd_off_15_0 :: u16
  gd_sel :: u16
  gd_args :: "5 word"
  gd_rsv1 :: "3 word"
  gd_type :: "4 word"
  gd_s :: "1 word"
  gd_dpl :: "2 word"
  gd_p :: "1 word"
  gd_off_31_16 :: u16

definition GATE_ZERO :: Gatedesc where
  "GATE_ZERO = \<lparr>gd_off_15_0 = 0, gd_sel = 0, gd_args = 0, gd_rsv1 = 0, gd_type = 0, gd_s = 0,
     gd_dpl = 0, gd_p = 0, gd_off_31_16 = 0\<rparr>"

definition SETGATE :: "bool \<Rightarrow> u16 \<Rightarrow> u32 \<Rightarrow> u8 \<Rightarrow> Gatedesc" where
  "SETGATE istrap sel off dpl =
     \<lparr>gd_off_15_0 = ucast (off AND 0xffff), gd_sel = sel, gd_args = 0, gd_rsv1 = 0,
      gd_type = ucast (if istrap then STS_TG32 else STS_IG32), gd_s = 0, gd_dpl = ucast dpl,
      gd_p = 1, gd_off_31_16 = ucast (drop_bit 16 off)\<rparr>"

definition SETCALLGATE :: "u16 \<Rightarrow> u32 \<Rightarrow> u8 \<Rightarrow> Gatedesc" where
  "SETCALLGATE sel off dpl =
     \<lparr>gd_off_15_0 = ucast (off AND 0xffff), gd_sel = sel, gd_args = 0, gd_rsv1 = 0,
      gd_type = ucast STS_CG32, gd_s = 0, gd_dpl = ucast dpl, gd_p = 1,
      gd_off_31_16 = ucast (drop_bit 16 off)\<rparr>"

text \<open>The handler address a gate encodes, and the 32-bit base of a segment.\<close>

definition gate_offset :: "Gatedesc \<Rightarrow> u32" where
  "gate_offset g = (push_bit 16 (ucast (gd_off_31_16 g)) OR ucast (gd_off_15_0 g))"

definition seg_base :: "Segdesc \<Rightarrow> u32" where
  "seg_base d = (push_bit 24 (ucast (sd_base_31_24 d)) OR push_bit 16 (ucast (sd_base_23_16 d))
     OR ucast (sd_base_15_0 d))"

section \<open>Arithmetic of addresses\<close>

lemma mask_numerals:
  "(0xFFF :: u32) = mask 12" "(0x3FF :: u32) = mask 10" "(0xffff :: u32) = mask 16"
  "(0xff :: u32) = mask 8"
  by (simp_all add: mask_eq_exp_minus_1)

text \<open>The masked shifts of the macros as \<open>take_bit\<close>, on which bit-level automation works.\<close>

lemma PDX_alt: "PDX la = take_bit 10 (drop_bit 22 la)"
  unfolding PDX_def mask_numerals by (simp add: take_bit_eq_mask)

lemma PTX_alt: "PTX la = take_bit 10 (drop_bit 12 la)"
  unfolding PTX_def mask_numerals by (simp add: take_bit_eq_mask)

lemma PGOFF_alt: "PGOFF la = take_bit 12 la"
  unfolding PGOFF_def mask_numerals by (simp add: take_bit_eq_mask)

lemma PTE_ADDR_alt: "PTE_ADDR pte = push_bit 12 (drop_bit 12 pte)"
  unfolding PTE_ADDR_def mask_numerals
  by (rule bit_word_eqI) (auto simp: bit_simps dest: bit_imp_le_length)

lemma unat_take_bit_less: "unat (take_bit n (x :: u32)) < 2 ^ n"
  by (simp only: unsigned_take_bit_eq) simp

lemma unat_PTX_less [simp]: "unat (PTX va) < 1024"
  using unat_take_bit_less [of 10 "drop_bit 12 va"] by (simp add: PTX_alt)

lemma unat_PDX_less [simp]: "unat (PDX va) < 1024"
  using unat_take_bit_less [of 10 "drop_bit 22 va"] by (simp add: PDX_alt)

lemma PGADDR_take_bit:
  "PDX (PGADDR (take_bit 10 d) (take_bit 10 t) (take_bit 12 off)) = take_bit 10 d"
  "PTX (PGADDR (take_bit 10 d) (take_bit 10 t) (take_bit 12 off)) = take_bit 10 t"
  "PGOFF (PGADDR (take_bit 10 d) (take_bit 10 t) (take_bit 12 off)) = take_bit 12 off"
  by (rule bit_word_eqI, auto simp: PDX_alt PTX_alt PGOFF_alt PGADDR_def bit_simps)+

lemma take_bit_below:
  fixes x :: u32
  assumes "unat x < 2 ^ n"
  shows "take_bit n x = x"
proof (rule unsigned_word_eqI)
  show "unat (take_bit n x) = unat x"
    using assms by (simp only: unsigned_take_bit_eq take_bit_nat_eq_self)
qed

lemma PGADDR_parts:
  assumes "unat d < 1024" and "unat t < 1024" and "unat off < 4096"
  shows "PDX (PGADDR d t off) = d" and "PTX (PGADDR d t off) = t"
    and "PGOFF (PGADDR d t off) = off"
proof -
  have "take_bit 10 d = d" "take_bit 10 t = t" "take_bit 12 off = off"
    using assms by (simp_all add: take_bit_below)
  with PGADDR_take_bit [of d t off]
  show "PDX (PGADDR d t off) = d" and "PTX (PGADDR d t off) = t"
    and "PGOFF (PGADDR d t off) = off"
    by simp_all
qed

lemma PGADDR_split: "PGADDR (PDX la) (PTX la) (PGOFF la) = la"
proof (rule bit_word_eqI)
  fix n
  assume "n < LENGTH(32)"
  consider "n < 12" | "12 \<le> n" "n < 22" | "22 \<le> n" by linarith
  then show "bit (PGADDR (PDX la) (PTX la) (PGOFF la)) n = bit la n"
    using \<open>n < LENGTH(32)\<close>
    by cases (auto simp: PDX_alt PTX_alt PGOFF_alt PGADDR_def bit_simps)
qed

lemma PGNUM_split: "PGNUM la = push_bit 10 (PDX la) OR PTX la"
proof (rule bit_word_eqI)
  fix n
  assume n: "n < LENGTH(32)"
  show "bit (PGNUM la) n = bit (push_bit 10 (PDX la) OR PTX la) n"
    using n by (auto simp: PGNUM_def PDX_alt PTX_alt bit_simps dest: bit_imp_le_length)
qed

lemma SETGATE_offset: "gate_offset (SETGATE istrap sel off dpl) = off"
  unfolding gate_offset_def SETGATE_def mask_numerals
  by (rule bit_word_eqI) (auto simp: bit_simps)

lemma SEG_base: "seg_base (SEG type base lim dpl) = base"
proof (rule bit_word_eqI)
  fix n
  assume n: "n < LENGTH(32)"
  then consider "n < 16" | "16 \<le> n" "n < 24" | "24 \<le> n" by linarith
  then show "bit (seg_base (SEG type base lim dpl)) n = bit base n"
    unfolding seg_base_def SEG_def mask_numerals
    using n by cases (auto simp: bit_simps)
qed

lemma unat_PDX: "unat (PDX va) = unat va div 4194304"
proof -
  have "unat va < 4294967296" using unat_less_32 [of va] by simp
  then have "unat va div 4194304 < 1024" by (simp add: less_mult_imp_div_less)
  then show ?thesis by (simp add: PDX_alt take_bit_eq_mod drop_bit_eq_div unat_div unat_mod)
qed

lemma unat_PTX: "unat (PTX va) = unat va div 4096 mod 1024"
  by (simp add: PTX_alt take_bit_eq_mod drop_bit_eq_div unat_div unat_mod)

end
