(* ===== verification/PrintFmt.thy ===== *)
theory PrintFmt
  imports Prelude
begin

text \<open>
  \<^verbatim>\<open>lib/printfmt.c\<close>, with \<^verbatim>\<open>kern/printf.c\<close> and \<^verbatim>\<open>lib/printf.c\<close>: formatted output.

  \<open>putch\<close> receives an \<open>int\<close> per character, so output is a list of 32-bit words. A format is
  the character list up to its terminating zero. A variable argument is one of the shapes
  \<open>va_arg\<close> reads: a 32-bit value, a 64-bit value, or a pointer to a string. Reading an
  argument of another shape, or past the last one, is undefined in C and is the value
  \<open>None\<close> here. The widths and precisions are mathematical integers: the C code leaves their
  overflow undefined.
\<close>

datatype vararg = VInt u32 | VLong u64 | VStr "string option"

text \<open>A character read through \<^verbatim>\<open>unsigned char *\<close>, and one through plain (signed) \<^verbatim>\<open>char *\<close>.\<close>

definition uchar :: "char \<Rightarrow> u32" where
  "uchar c = of_nat (of_char c)"

definition schar :: "char \<Rightarrow> u32" where
  "schar c = scast (of_nat (of_char c) :: u8)"

abbreviation (input) text_out :: "string \<Rightarrow> u32 list" where
  "text_out s \<equiv> map schar s"

definition error_string :: "nat \<Rightarrow> string option" where
  "error_string e =
     (if e = 1 then Some ''unspecified error''
      else if e = 2 then Some ''bad environment''
      else if e = 3 then Some ''invalid parameter''
      else if e = 4 then Some ''out of memory''
      else if e = 5 then Some ''out of environments''
      else if e = 6 then Some ''segmentation fault''
      else if e = 7 then Some ''env is not recving''
      else if e = 8 then Some ''unexpected end of file''
      else None)"

definition digit_char :: "nat \<Rightarrow> u32" where
  "digit_char d = uchar (''0123456789abcdef'' ! d)"

text \<open>
  The bases in use are 8, 10 and 16. A base below 2 would divide by zero or recurse for
  ever in C; the guard \<open>2 \<le> base\<close> makes the function total.
\<close>

function printnum :: "nat \<Rightarrow> nat \<Rightarrow> int \<Rightarrow> u32 \<Rightarrow> u32 list" where
  "printnum num base width padc =
     (if num \<ge> base \<and> 2 \<le> base
      then printnum (num div base) base (width - 1) padc
      else replicate (nat (width - 1)) padc)
     @ [digit_char (num mod base)]"
  by pat_completeness auto
termination
  by (relation "measure (\<lambda>(num, base, width, padc). num)") auto

declare printnum.simps [simp del]

text \<open>\<open>va_arg\<close>.\<close>

fun va_int :: "vararg list \<Rightarrow> (u32 \<times> vararg list) option" where
  "va_int (VInt w # ap) = Some (w, ap)"
| "va_int _ = None"

fun va_long :: "vararg list \<Rightarrow> (u64 \<times> vararg list) option" where
  "va_long (VLong w # ap) = Some (w, ap)"
| "va_long _ = None"

fun va_str :: "vararg list \<Rightarrow> (string option \<times> vararg list) option" where
  "va_str (VStr p # ap) = Some (p, ap)"
| "va_str _ = None"

definition getuint :: "vararg list \<Rightarrow> nat \<Rightarrow> (u64 \<times> vararg list) option" where
  "getuint ap lflag =
     (if lflag \<ge> 2 then va_long ap
      else map_option (\<lambda>(w, ap). (ucast w, ap)) (va_int ap))"

definition getint :: "vararg list \<Rightarrow> nat \<Rightarrow> (u64 \<times> vararg list) option" where
  "getint ap lflag =
     (if lflag \<ge> 2 then va_long ap
      else map_option (\<lambda>(w, ap). (scast w, ap)) (va_int ap))"

text \<open>The state of one \<open>%\<close> escape.\<close>

record fmt_state =
  fs_padc :: u32
  fs_width :: int
  fs_precision :: int
  fs_lflag :: nat
  fs_altflag :: bool

definition fmt_init :: fmt_state where
  "fmt_init = \<lparr>fs_padc = 0x20, fs_width = -1, fs_precision = -1, fs_lflag = 0, fs_altflag = False\<rparr>"

text \<open>The label \<open>process_precision\<close>.\<close>

definition process_precision :: "fmt_state \<Rightarrow> fmt_state" where
  "process_precision st =
     (if fs_width st < 0 then st\<lparr>fs_width := fs_precision st, fs_precision := -1\<rparr> else st)"

definition is_digit_char :: "char \<Rightarrow> bool" where
  "is_digit_char c \<longleftrightarrow> 0x30 \<le> (of_char c :: nat) \<and> (of_char c :: nat) \<le> 0x39"

text \<open>The digit loop of the width field: the digit already read, then those that follow.\<close>

definition width_digits :: "char \<Rightarrow> string \<Rightarrow> int" where
  "width_digits ch cs =
     foldl (\<lambda>prec c. prec * 10 + (of_char c - 0x30)) (of_char ch - 0x30) (takeWhile is_digit_char cs)"

lemma length_dropWhile_Suc [termination_simp]: "length (dropWhile P xs) < Suc (length xs)"
  by (induction xs) auto

text \<open>
  The case \<open>'s'\<close>. The first loop pads on the left and leaves \<open>width\<close> not positive; the second
  prints at most \<open>precision\<close> characters and counts \<open>width\<close> down; the third pads on the right.
  A negative \<open>precision\<close> means no limit; \<open>strnlen\<close> then sees it as a huge \<open>size_t\<close>.
\<close>

primrec fmt_chars :: "string \<Rightarrow> int \<Rightarrow> int \<Rightarrow> bool \<Rightarrow> u32 list \<times> int" where
  "fmt_chars [] prec w alt = ([], w)"
| "fmt_chars (c # cs) prec w alt =
     (if prec < 0 \<or> prec - 1 \<ge> 0
      then (let (out, w') = fmt_chars cs (if prec < 0 then prec else prec - 1) (w - 1) alt
            in ((if alt \<and> (schar c <s 0x20 \<or> 0x7E <s schar c) then uchar CHR ''?'' else schar c)
                  # out, w'))
      else ([], w))"

definition strnlen_int :: "string \<Rightarrow> int \<Rightarrow> int" where
  "strnlen_int p prec = (if prec < 0 then int (length p) else min prec (int (length p)))"

definition fmt_string :: "fmt_state \<Rightarrow> string option \<Rightarrow> u32 list" where
  "fmt_string st arg =
     (let p = (case arg of None \<Rightarrow> ''(null)'' | Some p \<Rightarrow> p);
          padding = fs_width st > 0 \<and> fs_padc st \<noteq> 0x2D;
          w1 = (if padding then fs_width st - strnlen_int p (fs_precision st) else fs_width st);
          left = (if padding then replicate (nat w1) (fs_padc st) else []);
          w2 = (if padding then min w1 0 else w1);
          (body, w3) = fmt_chars p (fs_precision st) w2 (fs_altflag st)
      in left @ body @ replicate (nat w3) 0x20)"

text \<open>The case \<open>'d'\<close>: a sign, then the magnitude as an unsigned 64-bit number.\<close>

definition fmt_signed :: "fmt_state \<Rightarrow> u64 \<Rightarrow> u32 list" where
  "fmt_signed st num =
     (if num <s 0 then uchar CHR ''-'' # printnum (unat (- num)) 10 (fs_width st) (fs_padc st)
      else printnum (unat num) 10 (fs_width st) (fs_padc st))"

text \<open>
  The case \<open>'e'\<close>: \<open>printfmt(..., "error %d", err)\<close> or \<open>printfmt(..., "%s", p)\<close>, whose own
  escapes start from fresh flags. \<open>-err\<close> on the least integer is undefined in C.
\<close>

definition fmt_error :: "u32 \<Rightarrow> u32 list option" where
  "fmt_error err =
     (if sint err = - (2 ^ 31) then None
      else (let e = nat \<bar>sint err\<bar>
            in Some (case error_string e of
                 None \<Rightarrow> map uchar ''error '' @ fmt_signed fmt_init (scast (word_of_nat e :: u32))
               | Some p \<Rightarrow> fmt_string fmt_init (Some p))))"

text \<open>
  One escape. \<open>start\<close> is the text right after the \<open>%\<close>: the default case prints \<open>%\<close> and rewinds
  to it (\<^verbatim>\<open>for (fmt--; fmt[-1] != '%'; fmt--)\<close>: no character read since is a \<open>%\<close>). The result
  is the output, the text to go on with, and the remaining arguments. The end of the format
  is the character zero, an unrecognised escape.
\<close>

fun fmt_escape ::
  "string \<Rightarrow> string \<Rightarrow> vararg list \<Rightarrow> fmt_state \<Rightarrow> (u32 list \<times> string \<times> vararg list) option" where
  "fmt_escape start [] ap st = Some ([uchar CHR ''%''], start, ap)"
| "fmt_escape start (ch # cs) ap st =
     (if ch = CHR ''-'' then fmt_escape start cs ap (st\<lparr>fs_padc := 0x2D\<rparr>)
      else if ch = CHR ''0'' then fmt_escape start cs ap (st\<lparr>fs_padc := 0x30\<rparr>)
      else if is_digit_char ch
      then fmt_escape start (dropWhile is_digit_char cs) ap
             (process_precision (st\<lparr>fs_precision := width_digits ch cs\<rparr>))
      else if ch = CHR ''*''
      then Option.bind (va_int ap) (\<lambda>(w, ap).
             fmt_escape start cs ap (process_precision (st\<lparr>fs_precision := sint w\<rparr>)))
      else if ch = CHR ''.''
      then fmt_escape start cs ap (if fs_width st < 0 then st\<lparr>fs_width := 0\<rparr> else st)
      else if ch = CHR ''#'' then fmt_escape start cs ap (st\<lparr>fs_altflag := True\<rparr>)
      else if ch = CHR ''l'' then fmt_escape start cs ap (st\<lparr>fs_lflag := fs_lflag st + 1\<rparr>)
      else if ch = CHR ''c'' then map_option (\<lambda>(w, ap). ([w], cs, ap)) (va_int ap)
      else if ch = CHR ''e''
      then Option.bind (va_int ap) (\<lambda>(w, ap).
             map_option (\<lambda>out. (out, cs, ap)) (fmt_error w))
      else if ch = CHR ''s'' then map_option (\<lambda>(p, ap). (fmt_string st p, cs, ap)) (va_str ap)
      else if ch = CHR ''d''
      then map_option (\<lambda>(num, ap). (fmt_signed st num, cs, ap)) (getint ap (fs_lflag st))
      else if ch = CHR ''u''
      then map_option (\<lambda>(num, ap). (printnum (unat num) 10 (fs_width st) (fs_padc st), cs, ap))
             (getuint ap (fs_lflag st))
      else if ch = CHR ''o''
      then map_option (\<lambda>(num, ap). (printnum (unat num) 8 (fs_width st) (fs_padc st), cs, ap))
             (getuint ap (fs_lflag st))
      else if ch = CHR ''p''
      then map_option (\<lambda>(w, ap). (map uchar ''0x'' @ printnum (unat w) 16 (fs_width st) (fs_padc st), cs, ap))
             (va_int ap)
      else if ch = CHR ''x''
      then map_option (\<lambda>(num, ap). (printnum (unat num) 16 (fs_width st) (fs_padc st), cs, ap))
             (getuint ap (fs_lflag st))
      else if ch = CHR ''%'' then Some ([uchar CHR ''%''], cs, ap)
      else Some ([uchar CHR ''%''], start, ap))"

declare fmt_escape.simps [simp del]

lemma fmt_escape_length:
  "fmt_escape start cs ap st = Some (out, rest, ap') \<Longrightarrow> length cs \<le> length start \<Longrightarrow>
     length rest \<le> length start"
proof (induction start cs ap st arbitrary: out rest ap' rule: fmt_escape.induct)
  case (1 start ap st)
  then show ?case by (simp add: fmt_escape.simps)
next
  case (2 start ch cs ap st)
  have "length cs \<le> length start" and "length (dropWhile is_digit_char cs) \<le> length start"
    using "2.prems"(2) length_dropWhile_Suc [of is_digit_char cs] by auto
  with "2.prems"(1) "2.IH" show ?case
    by (auto simp: fmt_escape.simps(2) bind_eq_Some_conv split: if_split_asm)
qed

function vprintfmt :: "string \<Rightarrow> vararg list \<Rightarrow> u32 list option" where
  "vprintfmt fmt ap =
     (case fmt of
        [] \<Rightarrow> Some []
      | c # cs \<Rightarrow>
          if c \<noteq> CHR ''%'' then map_option (\<lambda>out. uchar c # out) (vprintfmt cs ap)
          else (case fmt_escape cs cs ap fmt_init of
                  None \<Rightarrow> None
                | Some (out, rest, ap') \<Rightarrow> map_option (\<lambda>out'. out @ out') (vprintfmt rest ap')))"
  by pat_completeness auto
termination
proof (relation "measure (\<lambda>(fmt, ap). length fmt)", goal_cases)
  case 1
  show ?case by simp
next
  case (2 fmt ap c cs)
  then show ?case by simp
next
  case (3 fmt ap c cs x out y rest ap')
  then show ?case using fmt_escape_length [of cs cs ap fmt_init out rest ap'] by auto
qed

declare vprintfmt.simps [simp del]

end
