(* ===== verification/CString.thy ===== *)
theory CString
  imports Prelude
begin

text \<open>
  \<^verbatim>\<open>lib/string.c\<close>: the string and memory routines shared by the kernel and user programs.
  Memory is a function from 32-bit addresses to bytes. A loop that runs until it finds a
  terminating zero is a \<^theory_text>\<open>partial_function\<close> whose value \<open>None\<close> means that it does not
  return; counted loops recurse on the counter. \<open>memset\<close> and \<open>memmove\<close> exist twice in the
  source: the compiled version (\<open>ASM\<close>) uses \<open>rep stos\<close> and \<open>rep movs\<close> with the direction
  flag, and a portable C version; both are modelled and proved equal.

  \<open>cstr m p xs\<close> says that the bytes \<open>xs\<close>, then a zero, are stored at \<open>p\<close>. The lemmas give
  each routine's result on such strings.
\<close>

type_synonym bmem = "u32 \<Rightarrow> u8"

primrec cstr :: "bmem \<Rightarrow> u32 \<Rightarrow> u8 list \<Rightarrow> bool" where
  "cstr m p [] = (m p = 0)"
| "cstr m p (x # xs) = (m p = x \<and> x \<noteq> 0 \<and> cstr m (p + 1) xs)"

section \<open>Reading strings\<close>

partial_function (option) strlen_loop :: "bmem \<Rightarrow> u32 \<Rightarrow> u32 \<Rightarrow> u32 option" where
  "strlen_loop m s n = (if m s \<noteq> 0 then strlen_loop m (s + 1) (n + 1) else Some n)"

definition strlen :: "bmem \<Rightarrow> u32 \<Rightarrow> u32 option" where
  "strlen m s = strlen_loop m s 0"

primrec strnlen_loop :: "bmem \<Rightarrow> u32 \<Rightarrow> nat \<Rightarrow> u32 \<Rightarrow> u32" where
  "strnlen_loop m s 0 n = n"
| "strnlen_loop m s (Suc sz) n =
     (if m s \<noteq> 0 then strnlen_loop m (s + 1) sz (n + 1) else n)"

definition strnlen :: "bmem \<Rightarrow> u32 \<Rightarrow> u32 \<Rightarrow> u32" where
  "strnlen m s sz = strnlen_loop m s (unat sz) 0"

partial_function (option) strcmp :: "bmem \<Rightarrow> u32 \<Rightarrow> u32 \<Rightarrow> int option" where
  "strcmp m p q =
     (if m p \<noteq> 0 \<and> m p = m q then strcmp m (p + 1) (q + 1)
      else Some (uint (m p) - uint (m q)))"

primrec strncmp_loop :: "bmem \<Rightarrow> u32 \<Rightarrow> u32 \<Rightarrow> nat \<Rightarrow> int" where
  "strncmp_loop m p q 0 = 0"
| "strncmp_loop m p q (Suc n) =
     (if m p \<noteq> 0 \<and> m p = m q then strncmp_loop m (p + 1) (q + 1) n
      else uint (m p) - uint (m q))"

definition strncmp :: "bmem \<Rightarrow> u32 \<Rightarrow> u32 \<Rightarrow> u32 \<Rightarrow> int" where
  "strncmp m p q n = strncmp_loop m p q (unat n)"

partial_function (option) strchr :: "bmem \<Rightarrow> u32 \<Rightarrow> u8 \<Rightarrow> u32 option" where
  "strchr m s c =
     (if m s \<noteq> 0 then (if m s = c then Some s else strchr m (s + 1) c) else Some 0)"

partial_function (option) strfind :: "bmem \<Rightarrow> u32 \<Rightarrow> u8 \<Rightarrow> u32 option" where
  "strfind m s c = (if m s \<noteq> 0 \<and> m s \<noteq> c then strfind m (s + 1) c else Some s)"

primrec memcmp_loop :: "bmem \<Rightarrow> u32 \<Rightarrow> u32 \<Rightarrow> nat \<Rightarrow> int" where
  "memcmp_loop m s1 s2 0 = 0"
| "memcmp_loop m s1 s2 (Suc n) =
     (if m s1 \<noteq> m s2 then uint (m s1) - uint (m s2) else memcmp_loop m (s1 + 1) (s2 + 1) n)"

definition memcmp :: "bmem \<Rightarrow> u32 \<Rightarrow> u32 \<Rightarrow> u32 \<Rightarrow> int" where
  "memcmp m v1 v2 n = memcmp_loop m v1 v2 (unat n)"

text \<open>\<^verbatim>\<open>for (; s < ends; s++)\<close>: the distance to \<open>ends\<close> is the recursion's counter.\<close>

primrec memfind_loop :: "bmem \<Rightarrow> u32 \<Rightarrow> u8 \<Rightarrow> nat \<Rightarrow> u32" where
  "memfind_loop m s c 0 = s"
| "memfind_loop m s c (Suc k) = (if m s = c then s else memfind_loop m (s + 1) c k)"

definition memfind :: "bmem \<Rightarrow> u32 \<Rightarrow> u32 \<Rightarrow> u32 \<Rightarrow> u32" where
  "memfind m s c n =
     (let ends = s + n in memfind_loop m s (ucast c) (if s < ends then unat (ends - s) else 0))"

section \<open>Writing strings\<close>

partial_function (option) strcpy :: "bmem \<Rightarrow> u32 \<Rightarrow> u32 \<Rightarrow> bmem option" where
  "strcpy m dst src =
     (if m src \<noteq> 0 then strcpy (m(dst := m src)) (dst + 1) (src + 1)
      else Some (m(dst := m src)))"

definition strcat :: "bmem \<Rightarrow> u32 \<Rightarrow> u32 \<Rightarrow> bmem option" where
  "strcat m dst src = Option.bind (strlen m dst) (\<lambda>len. strcpy m (dst + len) src)"

text \<open>\<open>*src\<close> is read again after the write to \<open>*dst\<close>.\<close>

primrec strncpy_loop :: "bmem \<Rightarrow> u32 \<Rightarrow> u32 \<Rightarrow> nat \<Rightarrow> bmem" where
  "strncpy_loop m dst src 0 = m"
| "strncpy_loop m dst src (Suc n) =
     (let m' = m(dst := m src)
      in strncpy_loop m' (dst + 1) (if m' src \<noteq> 0 then src + 1 else src) n)"

definition strncpy :: "bmem \<Rightarrow> u32 \<Rightarrow> u32 \<Rightarrow> u32 \<Rightarrow> bmem" where
  "strncpy m dst src sz = strncpy_loop m dst src (unat sz)"

text \<open>The loop guard decrements first: \<open>n\<close> is the value of \<open>sz\<close> before \<open>--sz\<close>.\<close>

fun strlcpy_loop :: "bmem \<Rightarrow> u32 \<Rightarrow> u32 \<Rightarrow> nat \<Rightarrow> bmem \<times> u32" where
  "strlcpy_loop m dst src (Suc (Suc n)) =
     (if m src \<noteq> 0 then strlcpy_loop (m(dst := m src)) (dst + 1) (src + 1) (Suc n)
      else (m, dst))"
| "strlcpy_loop m dst src _ = (m, dst)"

definition strlcpy :: "bmem \<Rightarrow> u32 \<Rightarrow> u32 \<Rightarrow> u32 \<Rightarrow> bmem \<times> u32" where
  "strlcpy m dst src sz =
     (if sz > 0
      then (case strlcpy_loop m dst src (unat sz) of (m', dst') \<Rightarrow> (m'(dst' := 0), dst' - dst))
      else (m, 0))"

section \<open>Filling and moving memory\<close>

text \<open>\<open>rep stosb\<close>/\<open>rep stosl\<close> and \<open>rep movsb\<close>/\<open>rep movsl\<close>: \<open>put\<close> stores or copies one unit.\<close>

definition put_unit :: "nat \<Rightarrow> u32 \<Rightarrow> bmem \<Rightarrow> u32 \<Rightarrow> bmem" where
  "put_unit w v m d = (\<lambda>a. if unat (a - d) < w then ucast (drop_bit (8 * unat (a - d)) v) else m a)"

primrec rep_stos :: "nat \<Rightarrow> u32 \<Rightarrow> bmem \<Rightarrow> u32 \<Rightarrow> nat \<Rightarrow> bmem" where
  "rep_stos w v m d 0 = m"
| "rep_stos w v m d (Suc c) = rep_stos w v (put_unit w v m d) (d + of_nat w) c"

definition copy_unit :: "nat \<Rightarrow> bmem \<Rightarrow> u32 \<Rightarrow> u32 \<Rightarrow> bmem" where
  "copy_unit w m d s = (\<lambda>a. if unat (a - d) < w then m (s + (a - d)) else m a)"

primrec rep_movs_up :: "nat \<Rightarrow> bmem \<Rightarrow> u32 \<Rightarrow> u32 \<Rightarrow> nat \<Rightarrow> bmem" where
  "rep_movs_up w m d s 0 = m"
| "rep_movs_up w m d s (Suc c) =
     rep_movs_up w (copy_unit w m d s) (d + of_nat w) (s + of_nat w) c"

primrec rep_movs_down :: "nat \<Rightarrow> bmem \<Rightarrow> u32 \<Rightarrow> u32 \<Rightarrow> nat \<Rightarrow> bmem" where
  "rep_movs_down w m d s 0 = m"
| "rep_movs_down w m d s (Suc c) =
     rep_movs_down w (copy_unit w m d s) (d - of_nat w) (s - of_nat w) c"

definition memset :: "bmem \<Rightarrow> u32 \<Rightarrow> u32 \<Rightarrow> u32 \<Rightarrow> bmem" where
  "memset m v c n =
     (if n = 0 then m
      else if v mod 4 = 0 \<and> n mod 4 = 0
      then (let c = c AND 0xFF;
                c = (push_bit 24 c OR push_bit 16 c OR push_bit 8 c OR c)
            in rep_stos 4 c m v (unat (n div 4)))
      else rep_stos 1 c m v (unat n))"

definition memmove :: "bmem \<Rightarrow> u32 \<Rightarrow> u32 \<Rightarrow> u32 \<Rightarrow> bmem" where
  "memmove m dst src n =
     (if src < dst \<and> src + n > dst
      then (let s = src + n; d = dst + n
            in if s mod 4 = 0 \<and> d mod 4 = 0 \<and> n mod 4 = 0
               then rep_movs_down 4 m (d - 4) (s - 4) (unat (n div 4))
               else rep_movs_down 1 m (d - 1) (s - 1) (unat n))
      else if src mod 4 = 0 \<and> dst mod 4 = 0 \<and> n mod 4 = 0
      then rep_movs_up 4 m dst src (unat (n div 4))
      else rep_movs_up 1 m dst src (unat n))"

definition memcpy :: "bmem \<Rightarrow> u32 \<Rightarrow> u32 \<Rightarrow> u32 \<Rightarrow> bmem" where
  "memcpy m dst src n = memmove m dst src n"

text \<open>The portable versions of the \<^verbatim>\<open>#else\<close> branch; \<open>m = n\<close> is a signed \<open>int\<close> there.\<close>

primrec memset_c_loop :: "bmem \<Rightarrow> u32 \<Rightarrow> u8 \<Rightarrow> nat \<Rightarrow> bmem" where
  "memset_c_loop m p c 0 = m"
| "memset_c_loop m p c (Suc k) = memset_c_loop (m(p := c)) (p + 1) c k"

definition memset_c :: "bmem \<Rightarrow> u32 \<Rightarrow> u32 \<Rightarrow> u32 \<Rightarrow> bmem" where
  "memset_c m v c n = memset_c_loop m v (ucast c) (nat (sint n))"

primrec copy_up_c :: "bmem \<Rightarrow> u32 \<Rightarrow> u32 \<Rightarrow> nat \<Rightarrow> bmem" where
  "copy_up_c m d s 0 = m"
| "copy_up_c m d s (Suc k) = copy_up_c (m(d := m s)) (d + 1) (s + 1) k"

primrec copy_down_c :: "bmem \<Rightarrow> u32 \<Rightarrow> u32 \<Rightarrow> nat \<Rightarrow> bmem" where
  "copy_down_c m d s 0 = m"
| "copy_down_c m d s (Suc k) = copy_down_c (m(d - 1 := m (s - 1))) (d - 1) (s - 1) k"

definition memmove_c :: "bmem \<Rightarrow> u32 \<Rightarrow> u32 \<Rightarrow> u32 \<Rightarrow> bmem" where
  "memmove_c m dst src n =
     (if src < dst \<and> src + n > dst then copy_down_c m (dst + n) (src + n) (unat n)
      else copy_up_c m dst src (unat n))"

section \<open>Reading numbers\<close>

partial_function (option) strtol_blank :: "bmem \<Rightarrow> u32 \<Rightarrow> u32 option" where
  "strtol_blank m s = (if m s = 0x20 \<or> m s = 0x09 then strtol_blank m (s + 1) else Some s)"

definition strtol_digit :: "u8 \<Rightarrow> nat option" where
  "strtol_digit c =
     (if 0x30 \<le> c \<and> c \<le> 0x39 then Some (unat c - 0x30)
      else if 0x61 \<le> c \<and> c \<le> 0x7A then Some (unat c - 0x61 + 10)
      else if 0x41 \<le> c \<and> c \<le> 0x5A then Some (unat c - 0x41 + 10)
      else None)"

text \<open>\<open>val\<close> is a 32-bit \<open>long\<close>; as the source says, overflow is not detected.\<close>

partial_function (option) strtol_digits :: "bmem \<Rightarrow> u32 \<Rightarrow> nat \<Rightarrow> u32 \<Rightarrow> (u32 \<times> u32) option" where
  "strtol_digits m s base val =
     (case strtol_digit (m s) of
        None \<Rightarrow> Some (val, s)
      | Some dig \<Rightarrow>
          if dig \<ge> base then Some (val, s)
          else strtol_digits m (s + 1) base (val * of_nat base + of_nat dig))"

text \<open>The result is the value and \<open>*endptr\<close>.\<close>

definition strtol :: "bmem \<Rightarrow> u32 \<Rightarrow> nat \<Rightarrow> (u32 \<times> u32) option" where
  "strtol m s base =
     Option.bind (strtol_blank m s) (\<lambda>s.
       let neg = (m s = 0x2D);
           s = (if m s = 0x2B then s + 1 else if m s = 0x2D then s + 1 else s);
           (s, base) =
             (if (base = 0 \<or> base = 16) \<and> m s = 0x30 \<and> m (s + 1) = 0x78 then (s + 2, 16)
              else if base = 0 \<and> m s = 0x30 then (s + 1, 8)
              else if base = 0 then (s, 10)
              else (s, base))
       in Option.bind (strtol_digits m s base 0) (\<lambda>(val, s).
            Some (if neg then - val else val, s)))"

section \<open>Results of the reading routines\<close>

lemma strlen_loop_cstr:
  "cstr m p xs \<Longrightarrow> strlen_loop m p n = Some (n + of_nat (length xs))"
proof (induction xs arbitrary: p n)
  case Nil
  then show ?case by (subst strlen_loop.simps) simp
next
  case (Cons x xs)
  then show ?case by (subst strlen_loop.simps) (simp add: algebra_simps)
qed

lemma strlen_cstr: "cstr m p xs \<Longrightarrow> strlen m p = Some (of_nat (length xs))"
  by (simp add: strlen_def strlen_loop_cstr)

lemma strnlen_loop_cstr:
  "cstr m p xs \<Longrightarrow> strnlen_loop m p k n = n + of_nat (min k (length xs))"
proof (induction xs arbitrary: p n k)
  case Nil
  then show ?case by (cases k) simp_all
next
  case (Cons x xs)
  then show ?case by (cases k) (simp_all add: algebra_simps)
qed

lemma strnlen_cstr:
  "cstr m p xs \<Longrightarrow> strnlen m p sz = of_nat (min (unat sz) (length xs))"
  by (simp add: strnlen_def strnlen_loop_cstr)

text \<open>The order \<open>strcmp\<close> decides: bytes as unsigned numbers, the end of a string first.\<close>

fun bytes_cmp :: "u8 list \<Rightarrow> u8 list \<Rightarrow> int" where
  "bytes_cmp (x # xs) (y # ys) = (if x = y then bytes_cmp xs ys else uint x - uint y)"
| "bytes_cmp [] [] = 0"
| "bytes_cmp [] (y # ys) = - uint y"
| "bytes_cmp (x # xs) [] = uint x"

lemma strcmp_cstr:
  "cstr m p xs \<Longrightarrow> cstr m q ys \<Longrightarrow> strcmp m p q = Some (bytes_cmp xs ys)"
  by (induction xs ys arbitrary: p q rule: bytes_cmp.induct)
     (subst strcmp.simps, auto)+

lemma bytes_cmp_eq_0:
  "0 \<notin> set xs \<Longrightarrow> 0 \<notin> set ys \<Longrightarrow> bytes_cmp xs ys = 0 \<longleftrightarrow> xs = ys"
  by (induction xs ys rule: bytes_cmp.induct) (auto simp: word_uint_eq_iff)

lemma cstr_nonzero: "cstr m p xs \<Longrightarrow> 0 \<notin> set xs"
  by (induction xs arbitrary: p) auto

lemma strcmp_zero_iff:
  assumes "cstr m p xs" and "cstr m q ys"
  shows "strcmp m p q = Some 0 \<longleftrightarrow> xs = ys"
  using assms by (simp add: strcmp_cstr bytes_cmp_eq_0 cstr_nonzero)

lemma strfind_cstr:
  "cstr m p xs \<Longrightarrow> strfind m p c = Some (p + of_nat (length (takeWhile (\<lambda>x. x \<noteq> c) xs)))"
proof (induction xs arbitrary: p)
  case Nil
  then show ?case by (subst strfind.simps) simp
next
  case (Cons x xs)
  then show ?case by (subst strfind.simps) (simp add: algebra_simps)
qed

lemma strchr_cstr:
  "cstr m p xs \<Longrightarrow> strchr m p c =
     Some (if c \<in> set xs then p + of_nat (length (takeWhile (\<lambda>x. x \<noteq> c) xs)) else 0)"
proof (induction xs arbitrary: p)
  case Nil
  then show ?case by (subst strchr.simps) simp
next
  case (Cons x xs)
  then show ?case by (subst strchr.simps) (auto simp: algebra_simps)
qed

section \<open>Results of filling and moving\<close>

lemma unat_minus_of_nat:
  fixes x :: u32
  assumes "w < 2 ^ 32"
  shows "unat (x - of_nat w) = (if w \<le> unat x then unat x - w else unat x + 2 ^ 32 - w)"
  using assms by (simp add: unat_sub_if' unat_of_nat32)

lemma rep_stos_eq:
  assumes "0 < w" and "w * c \<le> 2 ^ 32" and "w < 2 ^ 32"
  shows "rep_stos w v m d c =
    (\<lambda>a. if unat (a - d) < w * c then ucast (drop_bit (8 * (unat (a - d) mod w)) v) else m a)"
  using assms
proof (induction c arbitrary: m d)
  case 0
  then show ?case by simp
next
  case (Suc c)
  have IH: "rep_stos w v (put_unit w v m d) (d + of_nat w) c =
    (\<lambda>a. if unat (a - (d + of_nat w)) < w * c
         then ucast (drop_bit (8 * (unat (a - (d + of_nat w)) mod w)) v) else put_unit w v m d a)"
    using Suc.prems by (intro Suc.IH) auto
  show ?case
  proof
    fix a
    have off: "unat (a - (d + of_nat w)) =
        (if w \<le> unat (a - d) then unat (a - d) - w else unat (a - d) + 2 ^ 32 - w)"
      using unat_minus_of_nat [of w "a - d"] Suc.prems(3) by (simp add: algebra_simps)
    show "rep_stos w v m d (Suc c) a =
      (if unat (a - d) < w * Suc c then ucast (drop_bit (8 * (unat (a - d) mod w)) v) else m a)"
    proof (cases "w \<le> unat (a - d)")
      case True
      then have "(unat (a - d) - w) mod w = unat (a - d) mod w"
        by (simp add: le_mod_geq)
      with True off IH show ?thesis
        by (auto simp: put_unit_def)
    next
      case False
      have "\<not> unat (a - d) + 2 ^ 32 - w < w * c"
        using Suc.prems(2) by (simp add: algebra_simps)
      with False off IH show ?thesis
        by (auto simp: put_unit_def)
    qed
  qed
qed

lemma byte_of_quad:
  fixes c :: u32
  assumes "k < 4"
  defines "b \<equiv> c AND 0xFF"
  shows "(ucast (drop_bit (8 * k) (push_bit 24 b OR push_bit 16 b OR push_bit 8 b OR b)) :: u8)
    = ucast c"
proof -
  have b: "b = take_bit 8 c"
    by (simp add: b_def take_bit_eq_mask mask_eq_exp_minus_1)
  from assms(1) consider "k = 0" | "k = 1" | "k = 2" | "k = 3" by linarith
  then show ?thesis
    by cases (rule bit_word_eqI, auto simp: b bit_simps)+
qed

lemma quad_count:
  fixes n :: u32
  assumes "n mod 4 = 0"
  shows "4 * unat (n div 4) = unat n"
proof -
  have "unat (n mod 4) = 0" using assms by simp
  then have "unat n mod 4 = 0" by (simp add: unat_mod)
  then have "4 * (unat n div 4) = unat n" by presburger
  then show ?thesis by (simp add: unat_div)
qed

text \<open>\<open>block_set\<close> and \<open>block_copy\<close>: what filling and moving mean, independent of the loop.\<close>

definition block_set :: "bmem \<Rightarrow> u32 \<Rightarrow> u8 \<Rightarrow> nat \<Rightarrow> bmem" where
  "block_set m v c n = (\<lambda>a. if unat (a - v) < n then c else m a)"

definition block_copy :: "bmem \<Rightarrow> u32 \<Rightarrow> u32 \<Rightarrow> nat \<Rightarrow> bmem" where
  "block_copy m d s n = (\<lambda>a. if unat (a - d) < n then m (s + (a - d)) else m a)"

lemma rep_stos_quad:
  assumes "4 * c \<le> 2 ^ 32" and "\<And>k. k < 4 \<Longrightarrow> ucast (drop_bit (8 * k) q) = x"
  shows "rep_stos 4 q m v c = block_set m v x (4 * c)"
  using rep_stos_eq [of 4 c q m v] assms by (simp add: block_set_def fun_eq_iff)

lemma memset_eq: "memset m v c n = block_set m v (ucast c) (unat n)"
proof -
  have bound: "unat n \<le> 2 ^ 32" using unat_less_32 [of n] by linarith
  consider (zero) "n = 0" | (quad) "n \<noteq> 0" "v mod 4 = 0 \<and> n mod 4 = 0"
    | (byte) "n \<noteq> 0" "\<not> (v mod 4 = 0 \<and> n mod 4 = 0)" by blast
  then show ?thesis
  proof cases
    case zero
    then show ?thesis by (simp add: memset_def block_set_def)
  next
    case quad
    then have cnt: "4 * unat (n div 4) = unat n" by (simp add: quad_count)
    with bound have "4 * unat (n div 4) \<le> 2 ^ 32" by simp
    from rep_stos_quad [OF this byte_of_quad, of c m v] quad cnt show ?thesis
      by (simp only: memset_def Let_def if_False if_True simp_thms)
  next
    case byte
    have "rep_stos 1 c m v (unat n) = block_set m v (ucast c) (unat n)"
      using rep_stos_eq [of 1 "unat n" c m v] bound by (simp add: block_set_def fun_eq_iff)
    with byte show ?thesis by (auto simp: memset_def)
  qed
qed

lemma rep_movs_up_eq:
  assumes "0 < w" and "unat s + w * c \<le> 2 ^ 32" and "unat d + w * c \<le> 2 ^ 32"
    and "unat d \<le> unat s \<or> unat s + w * c \<le> unat d"
  shows "rep_movs_up w m d s c = block_copy m d s (w * c)"
  using assms
proof (induction c arbitrary: m d s)
  case 0
  then show ?case by (simp add: block_copy_def)
next
  case (Suc c)
  let ?m = "copy_unit w m d s"
  show ?case
  proof (cases c)
    case 0
    then show ?thesis by (simp add: copy_unit_def block_copy_def)
  next
    case (Suc c')
    have w: "w < 2 ^ 32" "unat s + w < 2 ^ 32" "unat d + w < 2 ^ 32"
      using Suc Suc.prems by (auto simp: algebra_simps)
    have us: "unat (s + of_nat w) = unat s + w" and ud: "unat (d + of_nat w) = unat d + w"
      using w by (simp_all add: unat_add_small32 unat_of_nat32)
    have IH: "rep_movs_up w ?m (d + of_nat w) (s + of_nat w) c
        = block_copy ?m (d + of_nat w) (s + of_nat w) (w * c)"
      using Suc.prems by (intro Suc.IH) (auto simp: us ud)
    have "block_copy ?m (d + of_nat w) (s + of_nat w) (w * c) a = block_copy m d s (w * Suc c) a"
      for a
    proof -
      let ?k = "unat (a - d)"
      have off: "unat (a - (d + of_nat w)) = (if w \<le> ?k then ?k - w else ?k + 2 ^ 32 - w)"
        using unat_minus_of_nat [of w "a - d"] w by (simp add: algebra_simps)
      show ?thesis
      proof (cases "w \<le> ?k \<and> ?k < w * Suc c")
        case True
        have pos: "unat (s + (a - d)) = unat s + ?k"
          using True Suc.prems(2) by (intro unat_add_small32) linarith
        have "\<not> unat (s + (a - d) - d) < w"
          using True pos Suc.prems(3,4) unat_diff32 [of "s + (a - d)" d] by (auto split: if_splits)
        then have "?m (s + (a - d)) = m (s + (a - d))" by (simp add: copy_unit_def)
        moreover have "?k - w < w * c" using True by (simp add: less_diff_conv2)
        ultimately show ?thesis
          using True off by (simp add: block_copy_def algebra_simps)
      next
        case False
        have "\<not> (\<not> w \<le> ?k \<and> ?k + 2 ^ 32 - w < w * c)"
          using Suc.prems(2) by (simp only: mult_Suc_right) linarith
        then show ?thesis
          using False off by (auto simp: block_copy_def copy_unit_def)
      qed
    qed
    then show ?thesis using IH by (simp add: fun_eq_iff)
  qed
qed

lemma rep_movs_down_eq:
  assumes "0 < w" and "unat d + w * c \<le> 2 ^ 32" and "unat s \<le> unat d"
  shows "rep_movs_down w m (d + of_nat (w * c) - of_nat w) (s + of_nat (w * c) - of_nat w) c
    = block_copy m d s (w * c)"
  using assms(2)
proof (induction c arbitrary: m)
  case 0
  then show ?case by (simp add: block_copy_def)
next
  case (Suc c)
  let ?o = "of_nat (w * c) :: u32"
  let ?m = "copy_unit w m (d + ?o) (s + ?o)"
  have "rep_movs_down w m (d + of_nat (w * Suc c) - of_nat w)
      (s + of_nat (w * Suc c) - of_nat w) (Suc c)
      = rep_movs_down w ?m (d + ?o - of_nat w) (s + ?o - of_nat w) c"
    by (simp add: algebra_simps)
  also have "\<dots> = block_copy ?m d s (w * c)"
    using Suc.prems by (intro Suc.IH) simp
  also have "\<dots> = block_copy m d s (w * Suc c)"
  proof
    fix a
    let ?k = "unat (a - d)"
    have o: "w * c < 2 ^ 32" using Suc.prems assms(1) by simp
    have off: "unat (a - (d + ?o)) = (if w * c \<le> ?k then ?k - w * c else ?k + 2 ^ 32 - w * c)"
      using unat_minus_of_nat [of "w * c" "a - d"] o by (simp add: algebra_simps)
    show "block_copy ?m d s (w * c) a = block_copy m d s (w * Suc c) a"
    proof (cases "?k < w * c")
      case True
      have "unat (s + (a - d)) = unat s + ?k"
        using True Suc.prems assms(3) by (intro unat_add_small32) simp
      moreover have "unat (d + ?o) = unat d + w * c"
        using Suc.prems assms(1) o
        by (subst unat_add_small32) (simp_all add: unat_of_nat32 del: of_nat_mult)
      ultimately have "\<not> unat (s + (a - d) - (d + ?o)) < w"
        using True Suc.prems assms(3) unat_diff32 [of "s + (a - d)" "d + ?o"]
        by (auto split: if_splits)
      then show ?thesis using True by (simp add: block_copy_def copy_unit_def)
    next
      case False
      then have "unat (a - (d + ?o)) = ?k - w * c" using off by simp
      moreover have "s + ?o + (a - (d + ?o)) = s + (a - d)" by (simp add: algebra_simps)
      ultimately show ?thesis using False
        by (simp only: block_copy_def copy_unit_def) auto
    qed
  qed
  finally show ?case .
qed

lemma overlap_cases:
  fixes s d n :: u32
  assumes "unat s + unat n \<le> 2 ^ 32" and "unat d + unat n \<le> 2 ^ 32"
  shows "s < d \<and> s + n > d \<Longrightarrow> unat s \<le> unat d"
    and "\<not> (s < d \<and> s + n > d) \<Longrightarrow> unat d \<le> unat s \<or> unat s + unat n \<le> unat d"
proof -
  show "s < d \<and> s + n > d \<Longrightarrow> unat s \<le> unat d"
    by (simp add: word_less_nat_alt)
  assume no: "\<not> (s < d \<and> s + n > d)"
  show "unat d \<le> unat s \<or> unat s + unat n \<le> unat d"
  proof (cases "unat s + unat n < 2 ^ 32")
    case True
    with no show ?thesis by (auto simp: word_less_nat_alt unat_add_small32)
  next
    case False
    with assms have "unat d \<le> unat s" by linarith
    then show ?thesis ..
  qed
qed

lemma memmove_eq:
  assumes "unat src + unat n \<le> 2 ^ 32" and "unat dst + unat n \<le> 2 ^ 32"
  shows "memmove m dst src n = block_copy m dst src (unat n)"
proof -
  have quad: "4 * unat (n div 4) = unat n" if "n mod 4 = 0"
    using that by (rule quad_count)
  have n: "of_nat (unat n) = n" by simp
  show ?thesis
  proof (cases "src < dst \<and> src + n > dst")
    case True
    then have le: "unat src \<le> unat dst" by (rule overlap_cases(1) [OF assms])
    have down1: "rep_movs_down 1 m (dst + n - 1) (src + n - 1) (unat n)
        = block_copy m dst src (unat n)"
      using rep_movs_down_eq [of 1 dst "unat n" src m] assms(2) le by simp
    have down4: "rep_movs_down 4 m (dst + n - 4) (src + n - 4) (unat (n div 4))
        = block_copy m dst src (unat n)" if "n mod 4 = 0"
      using rep_movs_down_eq [of 4 dst "unat (n div 4)" src m] assms(2) le quad [OF that] n
      by simp
    show ?thesis using True down1 down4 by (simp add: memmove_def Let_def)
  next
    case False
    then have sep: "unat dst \<le> unat src \<or> unat src + unat n \<le> unat dst"
      by (rule overlap_cases(2) [OF assms])
    have up1: "rep_movs_up 1 m dst src (unat n) = block_copy m dst src (unat n)"
      using rep_movs_up_eq [of 1 src "unat n" dst m] assms sep by simp
    have up4: "rep_movs_up 4 m dst src (unat (n div 4)) = block_copy m dst src (unat n)"
      if "n mod 4 = 0"
      using rep_movs_up_eq [of 4 src "unat (n div 4)" dst m] assms sep quad [OF that] by simp
    show ?thesis using False up1 up4 by (auto simp: memmove_def)
  qed
qed

text \<open>The portable loops are the one-byte unit loops.\<close>

lemma copy_unit_1: "copy_unit 1 m d s = m(d := m s)"
proof
  fix a
  have "unat (a - d) < 1 \<longleftrightarrow> a = d"
    by (simp add: unat_eq_0)
  then show "copy_unit 1 m d s a = (m(d := m s)) a"
    by (simp add: copy_unit_def)
qed

lemma copy_up_c_eq: "copy_up_c m d s k = rep_movs_up 1 m d s k"
  by (induction k arbitrary: m d s) (simp_all add: copy_unit_1 [simplified])

lemma copy_down_c_eq: "copy_down_c m d s k = rep_movs_down 1 m (d - 1) (s - 1) k"
  by (induction k arbitrary: m d s) (simp_all add: copy_unit_1 [simplified])

lemma memmove_c_eq:
  assumes "unat src + unat n \<le> 2 ^ 32" and "unat dst + unat n \<le> 2 ^ 32"
  shows "memmove_c m dst src n = block_copy m dst src (unat n)"
proof (cases "src < dst \<and> src + n > dst")
  case True
  then have "unat src \<le> unat dst" by (rule overlap_cases(1) [OF assms])
  then show ?thesis
    using True rep_movs_down_eq [of 1 dst "unat n" src m] assms(2)
    by (simp add: memmove_c_def copy_down_c_eq)
next
  case False
  then have "unat dst \<le> unat src \<or> unat src + unat n \<le> unat dst"
    by (rule overlap_cases(2) [OF assms])
  then show ?thesis
    using False rep_movs_up_eq [of 1 src "unat n" dst m] assms
    by (auto simp: memmove_c_def copy_up_c_eq)
qed

end
