(* ===== verification/Printf.thy ===== *)
theory Printf
  imports PrintFmt CString
begin

text \<open>
  The sinks behind \<open>vprintfmt\<close>: \<open>snprintf\<close> (\<^verbatim>\<open>lib/printfmt.c\<close>), the kernel's \<open>cprintf\<close>
  (\<^verbatim>\<open>kern/printf.c\<close>) and the user library's buffered \<open>cprintf\<close> (\<^verbatim>\<open>lib/printf.c\<close>); and what
  the number printer prints, against a reference list of digits, with \<open>strtol\<close> reading it
  back.
\<close>

section \<open>What \<open>printnum\<close> prints\<close>

function digits_of :: "nat \<Rightarrow> nat \<Rightarrow> nat list" where
  "digits_of base n =
     (if base \<le> n \<and> 2 \<le> base then digits_of base (n div base) else []) @ [n mod base]"
  by pat_completeness auto
termination
  by (relation "measure (\<lambda>(base, n). n)") auto

declare digits_of.simps [simp del]

lemma digits_of_nonempty [simp]: "digits_of base n \<noteq> []"
  by (subst digits_of.simps) simp

lemma length_digits_of_pos [simp]: "0 < length (digits_of base n)"
  by simp

lemma printnum_eq:
  "printnum num base width padc =
     replicate (nat (width - int (length (digits_of base num)))) padc
     @ map digit_char (digits_of base num)"
proof (induction num base width padc rule: printnum.induct)
  case (1 num base width padc)
  show ?case
  proof (cases "base \<le> num \<and> 2 \<le> base")
    case True
    have len: "length (digits_of base num) = Suc (length (digits_of base (num div base)))"
      using True by (subst digits_of.simps) simp
    have "printnum num base width padc
        = printnum (num div base) base (width - 1) padc @ [digit_char (num mod base)]"
      using True by (subst printnum.simps) simp
    also have "\<dots> = replicate (nat (width - 1 - int (length (digits_of base (num div base))))) padc
        @ map digit_char (digits_of base (num div base)) @ [digit_char (num mod base)]"
      using 1 True by simp
    also have "map digit_char (digits_of base (num div base)) @ [digit_char (num mod base)]
        = map digit_char (digits_of base num)"
      using True by (subst (2) digits_of.simps) simp
    finally show ?thesis using len by (simp add: algebra_simps)
  next
    case False
    then have "digits_of base num = [num mod base]" by (subst digits_of.simps) auto
    with False show ?thesis by (subst printnum.simps) auto
  qed
qed

definition digits_value :: "nat \<Rightarrow> nat list \<Rightarrow> nat" where
  "digits_value base ds = foldl (\<lambda>v d. v * base + d) 0 ds"

lemma digits_value_snoc: "digits_value base (ds @ [d]) = digits_value base ds * base + d"
  by (simp add: digits_value_def)

lemma digits_value_digits_of:
  "2 \<le> base \<Longrightarrow> digits_value base (digits_of base n) = n"
proof (induction base n rule: digits_of.induct)
  case (1 base n)
  show ?case
  proof (cases "base \<le> n")
    case True
    then show ?thesis
      using 1 by (subst digits_of.simps) (simp add: digits_value_snoc)
  next
    case False
    with 1 have "digits_of base n = [n]" by (subst digits_of.simps) simp
    then show ?thesis by (simp add: digits_value_def)
  qed
qed

lemma digits_of_less: "2 \<le> base \<Longrightarrow> d \<in> set (digits_of base n) \<Longrightarrow> d < base"
proof (induction base n rule: digits_of.induct)
  case (1 base n)
  then show ?case
    by (subst (asm) (2) digits_of.simps) (auto split: if_splits)
qed

lemma length_printnum:
  "int (length (printnum num base width padc)) = max width (int (length (digits_of base num)))"
  by (simp add: printnum_eq)

section \<open>\<open>strtol\<close> reads what \<open>printnum\<close> prints\<close>

lemma digit_char_cases:
  assumes "d < 16"
  shows "strtol_digit (ucast (digit_char d)) = Some d" and "(ucast (digit_char d) :: u8) \<noteq> 0"
    and "(ucast (digit_char d) :: u8) \<notin> {0x20, 0x09, 0x2B, 0x2D, 0x78}"
    and "(ucast (digit_char d) :: u8) = 0x30 \<longleftrightarrow> d = 0"
proof -
  have "d = 0 \<or> d = 1 \<or> d = 2 \<or> d = 3 \<or> d = 4 \<or> d = 5 \<or> d = 6 \<or> d = 7 \<or> d = 8 \<or>
      d = 9 \<or> d = 10 \<or> d = 11 \<or> d = 12 \<or> d = 13 \<or> d = 14 \<or> d = 15"
    using assms by presburger
  then show "strtol_digit (ucast (digit_char d)) = Some d"
    and "(ucast (digit_char d) :: u8) \<noteq> 0"
    and "(ucast (digit_char d) :: u8) \<notin> {0x20, 0x09, 0x2B, 0x2D, 0x78}"
    and "(ucast (digit_char d) :: u8) = 0x30 \<longleftrightarrow> d = 0"
    by (elim disjE; simp add: strtol_digit_def digit_char_def uchar_def)+
qed

lemma strtol_digits_eq:
  assumes "base \<le> 16" and "\<forall>d \<in> set ds. d < base"
    and "cstr m p (map (\<lambda>d. ucast (digit_char d)) ds)"
  shows "strtol_digits m p base (of_nat v)
    = Some (of_nat (foldl (\<lambda>v d. v * base + d) v ds), p + of_nat (length ds))"
  using assms(2,3)
proof (induction ds arbitrary: p v)
  case Nil
  then show ?case by (subst strtol_digits.simps) (simp add: strtol_digit_def)
next
  case (Cons d ds)
  have "d < 16" using Cons.prems(1) assms(1) by simp
  then have "strtol_digits m p base (of_nat v)
      = strtol_digits m (p + 1) base (of_nat (v * base + d))"
    using Cons.prems by (subst strtol_digits.simps) (simp add: digit_char_cases)
  also have "\<dots> = Some (of_nat (foldl (\<lambda>v d. v * base + d) (v * base + d) ds),
      p + 1 + of_nat (length ds))"
    using Cons.prems by (intro Cons.IH) auto
  finally show ?case by (simp add: algebra_simps)
qed

text \<open>
  Digits in base 8, 10 or 16, leading zeros included: no blank, sign or base prefix (the
  second character of a hexadecimal prefix, \<open>x\<close>, is no digit).
\<close>

lemma strtol_digit_text:
  assumes "base \<in> {8, 10, 16}" and less: "\<forall>d \<in> set ds. d < base" and "ds \<noteq> []"
    and str: "cstr m p (map (\<lambda>d. ucast (digit_char d)) ds)"
  shows "strtol m p base = Some (of_nat (digits_value base ds), p + of_nat (length ds))"
proof -
  have base: "2 \<le> base" "base \<le> 16" using assms(1) by auto
  obtain d es where ds: "ds = d # es" using assms(3) by (cases ds) auto
  have d: "d < 16" using less base ds by auto
  have m0: "m p = ucast (digit_char d)" using str ds by simp
  have m1: "m (p + 1) \<noteq> 0x78"
  proof (cases es)
    case Nil
    then show ?thesis using str ds by simp
  next
    case (Cons e fs)
    then have "e < 16" using less base ds by auto
    then show ?thesis using str ds Cons digit_char_cases(3) [of e] by simp
  qed
  have blank: "strtol_blank m p = Some p"
    using digit_char_cases(3) [OF d] m0 by (subst strtol_blank.simps) auto
  have sign: "m p \<noteq> 0x2B" "m p \<noteq> 0x2D" using digit_char_cases(3) [OF d] m0 by auto
  have "strtol_digits m p base 0 = Some (of_nat (digits_value base ds), p + of_nat (length ds))"
    using strtol_digits_eq [OF base(2) less str, of 0] by (simp add: digits_value_def)
  then show ?thesis using blank sign m1 assms(1) by (auto simp: strtol_def Let_def)
qed

text \<open>Leading blanks are skipped, and leading zeros do not count.\<close>

lemma strtol_blanks:
  "cstr m p (replicate k 0x20 @ xs) \<Longrightarrow> strtol m p base = strtol m (p + of_nat k) base \<and> cstr m (p + of_nat k) xs"
proof (induction k arbitrary: p)
  case 0
  then show ?case by simp
next
  case (Suc k)
  then have "m p = 0x20" and rest: "cstr m (p + 1) (replicate k 0x20 @ xs)" by simp_all
  then have "strtol_blank m p = strtol_blank m (p + 1)" by (subst strtol_blank.simps) simp
  then have "strtol m p base = strtol m (p + 1) base" by (simp add: strtol_def)
  then show ?case using Suc.IH [OF rest] by (simp add: algebra_simps)
qed

lemma digits_value_zeros: "digits_value base (replicate k 0 @ ds) = digits_value base ds"
  by (induction k) (simp_all add: digits_value_def)

lemma strtol_printnum:
  assumes base: "base \<in> {8, 10, 16}" and str: "cstr m p (map ucast (printnum n base w padc))"
    and pad: "padc \<in> {0x20, 0x30}"
  shows "strtol m p base = Some (of_nat n, p + of_nat (length (printnum n base w padc)))"
proof -
  define ds k where "ds = digits_of base n" and "k = nat (w - int (length ds))"
  have out: "printnum n base w padc = replicate k padc @ map digit_char ds"
    by (simp add: printnum_eq ds_def k_def)
  have less: "\<forall>d \<in> set ds. d < base" using base digits_of_less [of base _ n] by (auto simp: ds_def)
  have val: "digits_value base ds = n" using base digits_value_digits_of [of base n] by (auto simp: ds_def)
  have "ds \<noteq> []" by (simp add: ds_def)
  show ?thesis
  proof (cases "padc = 0x20")
    case True
    then have "cstr m p (replicate k 0x20 @ map (\<lambda>d. ucast (digit_char d)) ds)" using str unfolding out by (simp add: comp_def)
    note skip = strtol_blanks [OF this, of base]
    have "strtol m (p + of_nat k) base = Some (of_nat n, p + of_nat k + of_nat (length ds))"
      using strtol_digit_text [OF base less \<open>ds \<noteq> []\<close>] skip val by simp
    then show ?thesis using skip unfolding out by (simp add: algebra_simps)
  next
    case False
    then have "printnum n base w padc = map digit_char (replicate k 0 @ ds)"
      using pad unfolding out by (simp add: digit_char_def uchar_def)
    moreover have "\<forall>d \<in> set (replicate k 0 @ ds). d < base" using less base by auto
    ultimately show ?thesis
      using strtol_digit_text [OF base, of "replicate k 0 @ ds" m p] str \<open>ds \<noteq> []\<close> val
      by (simp add: digits_value_zeros comp_def)
  qed
qed

section \<open>\<open>snprintf\<close>\<close>

text \<open>\<open>buf\<close> and \<open>ebuf\<close> are counted from the buffer's start; \<open>data\<close> holds the bytes stored.\<close>

record sprintbuf =
  sb_buf :: nat
  sb_ebuf :: nat
  sb_data :: "u8 list"
  sb_cnt :: u32

definition sprintputch :: "u32 \<Rightarrow> sprintbuf \<Rightarrow> sprintbuf" where
  "sprintputch ch b =
     (let b = b\<lparr>sb_cnt := sb_cnt b + 1\<rparr>
      in if sb_buf b < sb_ebuf b then b\<lparr>sb_data := sb_data b @ [ucast ch], sb_buf := sb_buf b + 1\<rparr> else b)"

text \<open>
  The result is the return value and the bytes written to the buffer, the terminating zero
  included; \<open>None\<close> stands for a null buffer in the argument.
\<close>

definition vsnprintf ::
  "bool \<Rightarrow> u32 \<Rightarrow> string \<Rightarrow> vararg list \<Rightarrow> (int \<times> u8 list) option" where
  "vsnprintf isnull n fmt ap =
     (if isnull \<or> sint n < 1 then Some (- 3, [])
      else map_option (\<lambda>out.
             let b = fold sprintputch out \<lparr>sb_buf = 0, sb_ebuf = nat (sint n) - 1, sb_data = [], sb_cnt = 0\<rparr>
             in (sint (sb_cnt b), sb_data b @ [0])) (vprintfmt fmt ap))"

lemma fold_sprintputch:
  "fold sprintputch out b =
     b\<lparr>sb_cnt := sb_cnt b + of_nat (length out),
       sb_data := sb_data b @ map ucast (take (sb_ebuf b - sb_buf b) out),
       sb_buf := sb_buf b + min (length out) (sb_ebuf b - sb_buf b)\<rparr>"
proof (induction out arbitrary: b)
  case Nil
  then show ?case by simp
next
  case (Cons ch out)
  show ?case
  proof (cases "sb_buf b < sb_ebuf b")
    case True
    then have "sb_ebuf b - sb_buf b = Suc (sb_ebuf b - Suc (sb_buf b))" by simp
    moreover have "sprintputch ch b = b\<lparr>sb_cnt := sb_cnt b + 1,
        sb_data := sb_data b @ [ucast ch], sb_buf := sb_buf b + 1\<rparr>"
      using True by (simp add: sprintputch_def)
    ultimately show ?thesis
      using True by (simp add: Cons algebra_simps)
  next
    case False
    then have "sprintputch ch b = b\<lparr>sb_cnt := sb_cnt b + 1\<rparr>"
      by (simp add: sprintputch_def)
    with False show ?thesis by (simp add: Cons algebra_simps)
  qed
qed

lemma vsnprintf_eq:
  assumes "0 < sint n" and "vprintfmt fmt ap = Some out"
  shows "vsnprintf False n fmt ap =
    Some (sint (of_nat (length out) :: u32), map ucast (take (nat (sint n) - 1) out) @ [0])"
  using assms by (simp add: vsnprintf_def fold_sprintputch Let_def)

section \<open>The kernel's \<open>cprintf\<close>\<close>

text \<open>
  \<^verbatim>\<open>*cnt++\<close> in \<open>putch\<close> increments the local pointer, not the counter it points to: the count
  never changes. The state is the counter and the characters handed to \<open>cputchar\<close>.
\<close>

definition kputch :: "u32 \<Rightarrow> int \<times> u32 list \<Rightarrow> int \<times> u32 list" where
  "kputch ch = (\<lambda>(cnt, out). (cnt, out @ [ch]))"

definition kvcprintf :: "string \<Rightarrow> vararg list \<Rightarrow> (int \<times> u32 list) option" where
  "kvcprintf fmt ap = map_option (\<lambda>chs. fold kputch chs (0, [])) (vprintfmt fmt ap)"

lemma fold_kputch: "fold kputch chs (n, out) = (n, out @ chs)"
  by (induction chs arbitrary: out) (simp_all add: kputch_def)

lemma kvcprintf_eq: "kvcprintf fmt ap = map_option (\<lambda>chs. (0, chs)) (vprintfmt fmt ap)"
  by (simp add: kvcprintf_def fold_kputch)

section \<open>The user library's \<open>cprintf\<close>\<close>

text \<open>\<open>sent\<close> lists the buffers passed to \<open>sys_cputs\<close>, oldest first.\<close>

record printbuf =
  pb_buf :: "u32 list"   \<comment> \<open>the first \<open>idx\<close> characters of \<open>buf\<close>\<close>
  pb_cnt :: nat
  pb_sent :: "u32 list list"

definition uputch :: "u32 \<Rightarrow> printbuf \<Rightarrow> printbuf" where
  "uputch ch b =
     (let b = b\<lparr>pb_buf := pb_buf b @ [ch]\<rparr>;
          b = (if length (pb_buf b) = 256 - 1
               then b\<lparr>pb_sent := pb_sent b @ [pb_buf b], pb_buf := []\<rparr> else b)
      in b\<lparr>pb_cnt := pb_cnt b + 1\<rparr>)"

definition uvcprintf :: "string \<Rightarrow> vararg list \<Rightarrow> (nat \<times> u32 list list) option" where
  "uvcprintf fmt ap =
     map_option (\<lambda>chs.
       let b = fold uputch chs \<lparr>pb_buf = [], pb_cnt = 0, pb_sent = []\<rparr>
       in (pb_cnt b, pb_sent b @ [pb_buf b])) (vprintfmt fmt ap)"

definition printbuf_ok :: "printbuf \<Rightarrow> bool" where
  "printbuf_ok b \<longleftrightarrow> length (pb_buf b) < 255 \<and> (\<forall>c \<in> set (pb_sent b). length c = 255)"

lemma uputch_step:
  "printbuf_ok b \<Longrightarrow> printbuf_ok (uputch ch b)
     \<and> concat (pb_sent (uputch ch b)) @ pb_buf (uputch ch b)
       = concat (pb_sent b) @ pb_buf b @ [ch]
     \<and> pb_cnt (uputch ch b) = Suc (pb_cnt b)"
  by (auto simp: uputch_def printbuf_ok_def Let_def)

lemma fold_uputch:
  "printbuf_ok b \<Longrightarrow> printbuf_ok (fold uputch chs b)
     \<and> concat (pb_sent (fold uputch chs b)) @ pb_buf (fold uputch chs b)
       = concat (pb_sent b) @ pb_buf b @ chs
     \<and> pb_cnt (fold uputch chs b) = pb_cnt b + length chs"
proof (induction chs arbitrary: b)
  case Nil
  then show ?case by simp
next
  case (Cons ch chs)
  from uputch_step [OF Cons.prems, of ch] Cons.IH [of "uputch ch b"]
  show ?case by (metis append.assoc append_Cons append_Nil fold_simps(2) length_Cons add_Suc_shift)
qed

lemma uvcprintf_eq:
  assumes "uvcprintf fmt ap = Some (n, chunks)"
  shows "vprintfmt fmt ap = Some (concat chunks)" and "n = length (concat chunks)"
    and "\<forall>c \<in> set chunks. length c \<le> 255"
proof -
  let ?b = "\<lparr>pb_buf = [], pb_cnt = 0, pb_sent = []\<rparr> :: printbuf"
  obtain chs where fmt: "vprintfmt fmt ap = Some chs"
    and n: "n = pb_cnt (fold uputch chs ?b)"
    and chunks: "chunks = pb_sent (fold uputch chs ?b) @ [pb_buf (fold uputch chs ?b)]"
    using assms by (auto simp: uvcprintf_def Let_def)
  have "printbuf_ok ?b" by (simp add: printbuf_ok_def)
  from fold_uputch [OF this, of chs] have ok: "printbuf_ok (fold uputch chs ?b)"
    and cat: "concat chunks = chs" and cnt: "n = length chs"
    using n chunks by simp_all
  show "vprintfmt fmt ap = Some (concat chunks)" using fmt cat by simp
  show "n = length (concat chunks)" using cnt cat by simp
  show "\<forall>c \<in> set chunks. length c \<le> 255"
    using ok chunks by (auto simp: printbuf_ok_def)
qed

text \<open>Short output is one chunk.\<close>

lemma fold_uputch_short:
  "length (pb_buf b) + length chs < 255 \<Longrightarrow> fold uputch chs b = b\<lparr>pb_buf := pb_buf b @ chs, pb_cnt := pb_cnt b + length chs\<rparr>"
  by (induction chs arbitrary: b) (simp_all add: uputch_def)

lemma uvcprintf_short:
  "vprintfmt fmt ap = Some out \<Longrightarrow> length out < 255 \<Longrightarrow> uvcprintf fmt ap = Some (length out, [out])"
  by (simp add: uvcprintf_def fold_uputch_short)

end
