(* ===== verification/KState.thy ===== *)
theory KState
  imports Layout Printf
begin

text \<open>
  The kernel's data: \<^verbatim>\<open>struct PageInfo\<close> (\<^verbatim>\<open>inc/memlayout.h\<close>), the trap frame
  (\<^verbatim>\<open>inc/trap.h\<close>), \<^verbatim>\<open>struct Env\<close> (\<^verbatim>\<open>inc/env.h\<close>), the per-CPU record
  (\<^verbatim>\<open>kern/cpu.h\<close>), the big kernel lock (\<^verbatim>\<open>kern/spinlock.h\<close>), and the state all kernel
  functions run on: the globals of \<^verbatim>\<open>kern/pmap.c\<close> and \<^verbatim>\<open>kern/env.c\<close>, physical memory, the
  registers the code reads and writes, and the characters sent to the console.

  Physical memory is an array of 4096-byte frames of 1024 words: \<open>pmem s f i\<close> is word \<open>i\<close> of
  frame \<open>f\<close>. A pointer to a page directory or page table is the number of its frame, a
  \<^verbatim>\<open>pte_t *\<close> a frame and an index, a \<^verbatim>\<open>struct PageInfo *\<close> or \<^verbatim>\<open>struct Env *\<close> an index
  into \<open>pages\<close> or \<open>envs\<close>; a null pointer is \<open>None\<close>. Virtual and physical addresses and table
  entries are words.
\<close>

record PageInfo =
  pp_link :: "nat option"
  pp_ref :: u16

record PushRegs =
  reg_edi :: u32
  reg_esi :: u32
  reg_ebp :: u32
  reg_oesp :: u32
  reg_ebx :: u32
  reg_edx :: u32
  reg_ecx :: u32
  reg_eax :: u32

record Trapframe =
  tf_regs :: PushRegs
  tf_es :: u16
  tf_ds :: u16
  tf_trapno :: u32
  tf_err :: u32
  tf_eip :: u32
  tf_cs :: u16
  tf_eflags :: u32
  tf_esp :: u32
  tf_ss :: u16

definition zero_regs :: PushRegs where
  "zero_regs = \<lparr>reg_edi = 0, reg_esi = 0, reg_ebp = 0, reg_oesp = 0, reg_ebx = 0, reg_edx = 0,
     reg_ecx = 0, reg_eax = 0\<rparr>"

definition zero_tf :: Trapframe where
  "zero_tf = \<lparr>tf_regs = zero_regs, tf_es = 0, tf_ds = 0, tf_trapno = 0, tf_err = 0, tf_eip = 0,
     tf_cs = 0, tf_eflags = 0, tf_esp = 0, tf_ss = 0\<rparr>"

abbreviation (input) NENV :: nat where "NENV \<equiv> 1024"
abbreviation (input) ENVGENSHIFT :: nat where "ENVGENSHIFT \<equiv> 12"

definition ENVX :: "u32 \<Rightarrow> nat" where
  "ENVX envid = unat (envid AND (of_nat NENV - 1))"

datatype env_status =
  ENV_FREE | ENV_DYING | ENV_RUNNABLE | ENV_RUNNING | ENV_NOT_RUNNABLE

datatype EnvType = ENV_TYPE_USER

record Env =
  env_tf :: Trapframe
  env_link :: "nat option"
  env_id :: u32
  env_parent_id :: u32
  env_type :: EnvType
  env_status :: env_status
  env_runs :: u32
  env_cpunum :: u32
  env_pgdir :: "nat option"
  env_pgfault_upcall :: u32
  env_ipc_recving :: bool
  env_ipc_dstva :: u32
  env_ipc_value :: u32
  env_ipc_from :: u32
  env_ipc_perm :: u32

text \<open>What \<open>memset(envs, 0, ...)\<close> leaves in a slot.\<close>

definition zero_env :: Env where
  "zero_env = \<lparr>env_tf = zero_tf, env_link = None, env_id = 0, env_parent_id = 0,
     env_type = ENV_TYPE_USER, env_status = ENV_FREE, env_runs = 0, env_cpunum = 0,
     env_pgdir = None, env_pgfault_upcall = 0, env_ipc_recving = False, env_ipc_dstva = 0,
     env_ipc_value = 0, env_ipc_from = 0, env_ipc_perm = 0\<rparr>"

abbreviation (input) NCPU :: nat where "NCPU \<equiv> 8"

datatype cpu_status = CPU_UNUSED | CPU_STARTED | CPU_HALTED

record CpuInfo =
  cpu_id :: u8
  cpu_status :: cpu_status
  cpu_env :: "nat option"

record spinlock =
  locked :: u32
  lk_cpu :: "nat option"
  lk_pcs :: "u32 list"

text \<open>Addresses the linker and the assembler files provide.\<close>

record ksyms =
  sym_start :: u32
  sym_entry :: u32
  sym_etext :: u32
  sym_edata :: u32
  sym_end :: u32
  sym_bootstack :: u32
  sym_percpu_kstacks :: u32
  sym_stab_begin :: u32
  sym_stab_end :: u32
  sym_stabstr_begin :: u32
  sym_stabstr_end :: u32
  sym_ts :: u32
  sym_trap_label :: "nat \<Rightarrow> u32"         \<comment> \<open>the handlers of \<^verbatim>\<open>trapentry.S\<close>, by vector\<close>

record kstate =
  ksym :: ksyms
  pmem :: "nat \<Rightarrow> nat \<Rightarrow> u32"
  cr3 :: u32
  cr0 :: u32
  invlpgs :: "u32 list"                \<comment> \<open>operands of \<open>invlpg\<close>, oldest first\<close>
  npages :: nat
  npages_basemem :: nat
  kern_pgdir :: nat
  pages :: "nat \<Rightarrow> PageInfo"
  page_free_list :: "nat option"
  nextfree :: u32
  pages_left :: u32
  user_mem_check_addr :: u32
  envs :: "nat \<Rightarrow> Env"
  env_free_list :: "nat option"
  cpus :: "nat \<Rightarrow> CpuInfo"
  cpunum :: nat                        \<comment> \<open>the CPU the code runs on\<close>
  kernel_lock :: spinlock
  cr2 :: u32
  ebp :: u32                           \<comment> \<open>what \<open>read_ebp()\<close> returns\<close>
  eflags :: u32                        \<comment> \<open>what \<open>read_eflags()\<close> returns\<close>
  gdt :: "nat \<Rightarrow> Segdesc"
  idt :: "nat \<Rightarrow> Gatedesc"
  ts_esp0 :: u32
  ts_ss0 :: u16
  ts_iomb :: u16
  task_reg :: u16                      \<comment> \<open>the selector loaded by \<open>ltr\<close>\<close>
  idt_loaded :: bool                   \<comment> \<open>\<open>lidt(&idt_pd)\<close> was executed\<close>
  last_tf :: "u32"                     \<comment> \<open>\<^verbatim>\<open>last_tf\<close>, an address\<close>
  pages_kva :: u32                     \<comment> \<open>the addresses the arrays \<open>pages\<close> and \<open>envs\<close> start at\<close>
  envs_kva :: u32
  panicstr :: bool                     \<comment> \<open>some CPU has panicked\<close>
  ismp :: bool
  ncpu :: nat
  bootcpu :: nat
  lapicaddr :: u32
  lapic :: u32                         \<comment> \<open>where the local APIC is mapped, zero before that\<close>
  lapic_in :: "nat \<Rightarrow> nat \<Rightarrow> u32"        \<comment> \<open>the \<open>n\<close>-th read of a register\<close>
  lapic_count :: nat
  lapic_log :: "(nat \<times> u32) list"      \<comment> \<open>register writes, oldest first\<close>
  port_log :: "(u32 \<times> u8) list"        \<comment> \<open>\<open>outb\<close> by kernel code outside the drivers\<close>
  console :: "u32 list"                \<comment> \<open>characters printed, oldest first\<close>
  con_in :: "u32 list"                 \<comment> \<open>characters \<open>cons_getc\<close> will return, next first\<close>

text \<open>
  A trap frame is on the kernel stack, at some address, or in an environment. \<^verbatim>\<open>struct Env\<close>
  takes 124 bytes (96 in the older trees) and starts with its trap frame.
\<close>

datatype tf_ptr = OnStack u32 Trapframe | InEnv nat

definition tf_addr :: "tf_ptr \<Rightarrow> kstate \<Rightarrow> u32" where
  "tf_addr p s = (case p of OnStack a tf \<Rightarrow> a | InEnv e \<Rightarrow> envs_kva s + 124 * of_nat e)"

definition read_tf :: "tf_ptr \<Rightarrow> kstate \<Rightarrow> Trapframe" where
  "read_tf p s = (case p of OnStack a tf \<Rightarrow> tf | InEnv e \<Rightarrow> env_tf (envs s e))"

type_synonym 'a km = "(kstate, 'a) prog"

abbreviation (input) curenv :: "kstate \<Rightarrow> nat option" where
  "curenv s \<equiv> cpu_env (cpus s (cpunum s))"

definition set_curenv :: "nat option \<Rightarrow> kstate \<Rightarrow> kstate" where
  "set_curenv e s = s\<lparr>cpus := (cpus s)(cpunum s := (cpus s (cpunum s))\<lparr>cpu_env := e\<rparr>)\<rparr>"

definition upd_page :: "nat \<Rightarrow> (PageInfo \<Rightarrow> PageInfo) \<Rightarrow> kstate \<Rightarrow> kstate" where
  "upd_page pp f s = s\<lparr>pages := (pages s)(pp := f (pages s pp))\<rparr>"

definition upd_env :: "nat \<Rightarrow> (Env \<Rightarrow> Env) \<Rightarrow> kstate \<Rightarrow> kstate" where
  "upd_env e f s = s\<lparr>envs := (envs s)(e := f (envs s e))\<rparr>"

text \<open>A store to a page table entry, and filling a whole frame with one word.\<close>

definition store_word :: "nat \<Rightarrow> nat \<Rightarrow> u32 \<Rightarrow> kstate \<Rightarrow> kstate" where
  "store_word f i w s = s\<lparr>pmem := (pmem s)(f := (pmem s f)(i := w))\<rparr>"

definition fill_frame :: "nat \<Rightarrow> u32 \<Rightarrow> kstate \<Rightarrow> kstate" where
  "fill_frame f w s = s\<lparr>pmem := (pmem s)(f := (\<lambda>_. w))\<rparr>"

definition copy_frame :: "nat \<Rightarrow> nat \<Rightarrow> kstate \<Rightarrow> kstate" where
  "copy_frame dst src s = s\<lparr>pmem := (pmem s)(dst := pmem s src)\<rparr>"

definition lcr3 :: "u32 \<Rightarrow> unit km" where
  "lcr3 pa = modify (\<lambda>s. s\<lparr>cr3 := pa\<rparr>)"

definition invlpg :: "u32 \<Rightarrow> unit km" where
  "invlpg va = modify (\<lambda>s. s\<lparr>invlpgs := invlpgs s @ [va]\<rparr>)"

section \<open>\<open>cprintf\<close> on the kernel state\<close>

definition cprintf :: "string \<Rightarrow> vararg list \<Rightarrow> int km" where
  "cprintf fmt ap s =
     (case kvcprintf fmt ap of
        None \<Rightarrow> (Stop BadAccess, s)
      | Some (n, out) \<Rightarrow> (Ret n, s\<lparr>console := console s @ out\<rparr>))"

text \<open>What a format prints when its arguments have the right shapes.\<close>

definition render :: "string \<Rightarrow> vararg list \<Rightarrow> u32 list" where
  "render fmt ap = (case vprintfmt fmt ap of None \<Rightarrow> [] | Some out \<Rightarrow> out)"

named_theorems formats "formats whose arguments have the right shapes"

lemma run_cprintf:
  "vprintfmt fmt ap \<noteq> None \<Longrightarrow>
     run (cprintf fmt ap) s = (Ret 0, s\<lparr>console := console s @ render fmt ap\<rparr>)"
  by (auto simp: run_def cprintf_def kvcprintf_eq render_def)

text \<open>The shapes decide whether a format is well used: a symbolic evaluation of the format.\<close>

lemmas fmt_eval = fmt_init_def process_precision_def vprintfmt.simps fmt_escape.simps is_digit_char_def getint_def getuint_def

section \<open>Frames of state updates\<close>

lemma curenv_set_curenv [simp]: "curenv (set_curenv e s) = e"
  by (simp add: set_curenv_def)

lemma upd_page_sel [simp]:
  "pages (upd_page p f s) = (pages s)(p := f (pages s p))"
  "pmem (upd_page p f s) = pmem s" "ksym (upd_page p f s) = ksym s" "cr3 (upd_page p f s) = cr3 s" "cr0 (upd_page p f s) = cr0 s"
  "invlpgs (upd_page p f s) = invlpgs s" "npages (upd_page p f s) = npages s"
  "npages_basemem (upd_page p f s) = npages_basemem s"
  "kern_pgdir (upd_page p f s) = kern_pgdir s"
  "page_free_list (upd_page p f s) = page_free_list s" "nextfree (upd_page p f s) = nextfree s"
  "pages_left (upd_page p f s) = pages_left s"
  "user_mem_check_addr (upd_page p f s) = user_mem_check_addr s"
  "envs (upd_page p f s) = envs s" "env_free_list (upd_page p f s) = env_free_list s"
  "cpus (upd_page p f s) = cpus s" "cpunum (upd_page p f s) = cpunum s"
  "kernel_lock (upd_page p f s) = kernel_lock s" "cr2 (upd_page p f s) = cr2 s"
  "ebp (upd_page p f s) = ebp s" "eflags (upd_page p f s) = eflags s"
  "gdt (upd_page p f s) = gdt s" "idt (upd_page p f s) = idt s"
  "ts_esp0 (upd_page p f s) = ts_esp0 s" "ts_ss0 (upd_page p f s) = ts_ss0 s"
  "ts_iomb (upd_page p f s) = ts_iomb s" "task_reg (upd_page p f s) = task_reg s"
  "idt_loaded (upd_page p f s) = idt_loaded s" "last_tf (upd_page p f s) = last_tf s"
  "pages_kva (upd_page p f s) = pages_kva s" "envs_kva (upd_page p f s) = envs_kva s"
  "panicstr (upd_page p f s) = panicstr s" "console (upd_page p f s) = console s"
  "con_in (upd_page p f s) = con_in s"
  by (simp_all add: upd_page_def)

lemma upd_env_sel [simp]:
  "envs (upd_env e f s) = (envs s)(e := f (envs s e))"
  "ksym (upd_env e f s) = ksym s" "pmem (upd_env e f s) = pmem s" "cr3 (upd_env e f s) = cr3 s" "cr0 (upd_env e f s) = cr0 s"
  "invlpgs (upd_env e f s) = invlpgs s" "npages (upd_env e f s) = npages s"
  "npages_basemem (upd_env e f s) = npages_basemem s"
  "kern_pgdir (upd_env e f s) = kern_pgdir s" "pages (upd_env e f s) = pages s"
  "page_free_list (upd_env e f s) = page_free_list s" "nextfree (upd_env e f s) = nextfree s"
  "pages_left (upd_env e f s) = pages_left s"
  "user_mem_check_addr (upd_env e f s) = user_mem_check_addr s"
  "env_free_list (upd_env e f s) = env_free_list s" "cpus (upd_env e f s) = cpus s"
  "cpunum (upd_env e f s) = cpunum s" "kernel_lock (upd_env e f s) = kernel_lock s"
  "cr2 (upd_env e f s) = cr2 s" "ebp (upd_env e f s) = ebp s"
  "eflags (upd_env e f s) = eflags s" "gdt (upd_env e f s) = gdt s"
  "idt (upd_env e f s) = idt s" "ts_esp0 (upd_env e f s) = ts_esp0 s"
  "ts_ss0 (upd_env e f s) = ts_ss0 s" "ts_iomb (upd_env e f s) = ts_iomb s"
  "task_reg (upd_env e f s) = task_reg s" "idt_loaded (upd_env e f s) = idt_loaded s"
  "last_tf (upd_env e f s) = last_tf s"
  "pages_kva (upd_env e f s) = pages_kva s" "envs_kva (upd_env e f s) = envs_kva s" "panicstr (upd_env e f s) = panicstr s"
  "console (upd_env e f s) = console s" "con_in (upd_env e f s) = con_in s"
  by (simp_all add: upd_env_def)

lemma store_word_sel [simp]:
  "pmem (store_word f i w s) = (pmem s)(f := (pmem s f)(i := w))"
  "ksym (store_word f i w s) = ksym s" "cr3 (store_word f i w s) = cr3 s" "cr0 (store_word f i w s) = cr0 s"
  "invlpgs (store_word f i w s) = invlpgs s" "npages (store_word f i w s) = npages s"
  "npages_basemem (store_word f i w s) = npages_basemem s"
  "kern_pgdir (store_word f i w s) = kern_pgdir s" "pages (store_word f i w s) = pages s"
  "page_free_list (store_word f i w s) = page_free_list s"
  "nextfree (store_word f i w s) = nextfree s" "pages_left (store_word f i w s) = pages_left s"
  "user_mem_check_addr (store_word f i w s) = user_mem_check_addr s"
  "envs (store_word f i w s) = envs s" "env_free_list (store_word f i w s) = env_free_list s"
  "cpus (store_word f i w s) = cpus s" "cpunum (store_word f i w s) = cpunum s"
  "kernel_lock (store_word f i w s) = kernel_lock s" "cr2 (store_word f i w s) = cr2 s"
  "ebp (store_word f i w s) = ebp s" "eflags (store_word f i w s) = eflags s"
  "gdt (store_word f i w s) = gdt s" "idt (store_word f i w s) = idt s"
  "ts_esp0 (store_word f i w s) = ts_esp0 s" "ts_ss0 (store_word f i w s) = ts_ss0 s"
  "ts_iomb (store_word f i w s) = ts_iomb s" "task_reg (store_word f i w s) = task_reg s"
  "idt_loaded (store_word f i w s) = idt_loaded s" "last_tf (store_word f i w s) = last_tf s"
  "pages_kva (store_word f i w s) = pages_kva s" "envs_kva (store_word f i w s) = envs_kva s"
  "panicstr (store_word f i w s) = panicstr s" "console (store_word f i w s) = console s"
  "con_in (store_word f i w s) = con_in s"
  by (simp_all add: store_word_def)

lemma fill_frame_sel [simp]:
  "pmem (fill_frame f w s) = (pmem s)(f := (\<lambda>_. w))"
  "ksym (fill_frame f w s) = ksym s" "cr3 (fill_frame f w s) = cr3 s" "cr0 (fill_frame f w s) = cr0 s"
  "invlpgs (fill_frame f w s) = invlpgs s" "npages (fill_frame f w s) = npages s"
  "npages_basemem (fill_frame f w s) = npages_basemem s"
  "kern_pgdir (fill_frame f w s) = kern_pgdir s" "pages (fill_frame f w s) = pages s"
  "page_free_list (fill_frame f w s) = page_free_list s"
  "nextfree (fill_frame f w s) = nextfree s" "pages_left (fill_frame f w s) = pages_left s"
  "user_mem_check_addr (fill_frame f w s) = user_mem_check_addr s"
  "envs (fill_frame f w s) = envs s" "env_free_list (fill_frame f w s) = env_free_list s"
  "cpus (fill_frame f w s) = cpus s" "cpunum (fill_frame f w s) = cpunum s"
  "kernel_lock (fill_frame f w s) = kernel_lock s" "cr2 (fill_frame f w s) = cr2 s"
  "ebp (fill_frame f w s) = ebp s" "eflags (fill_frame f w s) = eflags s"
  "gdt (fill_frame f w s) = gdt s" "idt (fill_frame f w s) = idt s"
  "ts_esp0 (fill_frame f w s) = ts_esp0 s" "ts_ss0 (fill_frame f w s) = ts_ss0 s"
  "ts_iomb (fill_frame f w s) = ts_iomb s" "task_reg (fill_frame f w s) = task_reg s"
  "idt_loaded (fill_frame f w s) = idt_loaded s" "last_tf (fill_frame f w s) = last_tf s"
  "pages_kva (fill_frame f w s) = pages_kva s" "envs_kva (fill_frame f w s) = envs_kva s"
  "panicstr (fill_frame f w s) = panicstr s" "console (fill_frame f w s) = console s"
  "con_in (fill_frame f w s) = con_in s"
  by (simp_all add: fill_frame_def)

lemma copy_frame_sel [simp]:
  "pmem (copy_frame d f s) = (pmem s)(d := pmem s f)"
  "ksym (copy_frame d f s) = ksym s" "cr3 (copy_frame d f s) = cr3 s" "cr0 (copy_frame d f s) = cr0 s"
  "invlpgs (copy_frame d f s) = invlpgs s" "npages (copy_frame d f s) = npages s"
  "npages_basemem (copy_frame d f s) = npages_basemem s"
  "kern_pgdir (copy_frame d f s) = kern_pgdir s" "pages (copy_frame d f s) = pages s"
  "page_free_list (copy_frame d f s) = page_free_list s"
  "nextfree (copy_frame d f s) = nextfree s" "pages_left (copy_frame d f s) = pages_left s"
  "user_mem_check_addr (copy_frame d f s) = user_mem_check_addr s"
  "envs (copy_frame d f s) = envs s" "env_free_list (copy_frame d f s) = env_free_list s"
  "cpus (copy_frame d f s) = cpus s" "cpunum (copy_frame d f s) = cpunum s"
  "kernel_lock (copy_frame d f s) = kernel_lock s" "cr2 (copy_frame d f s) = cr2 s"
  "ebp (copy_frame d f s) = ebp s" "eflags (copy_frame d f s) = eflags s"
  "gdt (copy_frame d f s) = gdt s" "idt (copy_frame d f s) = idt s"
  "ts_esp0 (copy_frame d f s) = ts_esp0 s" "ts_ss0 (copy_frame d f s) = ts_ss0 s"
  "ts_iomb (copy_frame d f s) = ts_iomb s" "task_reg (copy_frame d f s) = task_reg s"
  "idt_loaded (copy_frame d f s) = idt_loaded s" "last_tf (copy_frame d f s) = last_tf s"
  "pages_kva (copy_frame d f s) = pages_kva s" "envs_kva (copy_frame d f s) = envs_kva s"
  "panicstr (copy_frame d f s) = panicstr s" "console (copy_frame d f s) = console s"
  "con_in (copy_frame d f s) = con_in s"
  by (simp_all add: copy_frame_def)

lemma set_curenv_sel [simp]:
  "cpus (set_curenv e s) = (cpus s)(cpunum s := (cpus s (cpunum s))\<lparr>cpu_env := e\<rparr>)"
  "pmem (set_curenv e s) = pmem s" "ksym (set_curenv e s) = ksym s" "cr3 (set_curenv e s) = cr3 s" "cr0 (set_curenv e s) = cr0 s"
  "invlpgs (set_curenv e s) = invlpgs s" "npages (set_curenv e s) = npages s"
  "npages_basemem (set_curenv e s) = npages_basemem s"
  "kern_pgdir (set_curenv e s) = kern_pgdir s" "pages (set_curenv e s) = pages s"
  "page_free_list (set_curenv e s) = page_free_list s" "nextfree (set_curenv e s) = nextfree s"
  "pages_left (set_curenv e s) = pages_left s"
  "user_mem_check_addr (set_curenv e s) = user_mem_check_addr s"
  "envs (set_curenv e s) = envs s" "env_free_list (set_curenv e s) = env_free_list s"
  "cpunum (set_curenv e s) = cpunum s" "kernel_lock (set_curenv e s) = kernel_lock s"
  "cr2 (set_curenv e s) = cr2 s" "ebp (set_curenv e s) = ebp s"
  "eflags (set_curenv e s) = eflags s" "gdt (set_curenv e s) = gdt s"
  "idt (set_curenv e s) = idt s" "ts_esp0 (set_curenv e s) = ts_esp0 s"
  "ts_ss0 (set_curenv e s) = ts_ss0 s" "ts_iomb (set_curenv e s) = ts_iomb s"
  "task_reg (set_curenv e s) = task_reg s" "idt_loaded (set_curenv e s) = idt_loaded s"
  "last_tf (set_curenv e s) = last_tf s"
  "pages_kva (set_curenv e s) = pages_kva s" "envs_kva (set_curenv e s) = envs_kva s" "panicstr (set_curenv e s) = panicstr s"
  "console (set_curenv e s) = console s" "con_in (set_curenv e s) = con_in s"
  by (simp_all add: set_curenv_def)

end
