(* ===== verification/Pmap.thy ===== *)
theory Pmap
  imports KState
begin

text \<open>
  \<^verbatim>\<open>kern/pmap.c\<close> and \<^verbatim>\<open>kern/pmap.h\<close>: memory detection, the boot allocator, the page
  allocator, the two-level page tables and the user memory check. Only definitions; their
  properties are in \<open>PmapAlloc\<close> and \<open>PmapTables\<close>.

  Link-time addresses (\<^verbatim>\<open>end\<close>, \<^verbatim>\<open>bootstack\<close>) and the contents of the CMOS memory are
  arguments. \<open>pmap.h\<close> says that the machine has at most 256 MB of physical memory, all of it
  mapped at \<open>KERNBASE\<close>; the frame behind a kernel virtual address is therefore
  \<open>(kva - KERNBASE) / 4096\<close>.
\<close>

section \<open>Addresses\<close>

definition PADDR :: "u32 \<Rightarrow> u32 km" where
  "PADDR kva =
     (if kva < KERNBASE then stop (Panic ''PADDR called with invalid kva'')
      else ret (kva - KERNBASE))"

definition KADDR :: "u32 \<Rightarrow> u32 km" where
  "KADDR pa =
     bindP (gets npages) (\<lambda>np.
     if unat (PGNUM pa) \<ge> np then stop (Panic ''KADDR called with invalid pa'')
     else ret (pa + KERNBASE))"

definition page2pa :: "nat \<Rightarrow> u32" where
  "page2pa pp = push_bit PGSHIFT (of_nat pp)"

definition pa2page :: "u32 \<Rightarrow> nat km" where
  "pa2page pa =
     bindP (gets npages) (\<lambda>np.
     if unat (PGNUM pa) \<ge> np then stop (Panic ''pa2page called with invalid pa'')
     else ret (unat (PGNUM pa)))"

definition page2kva :: "nat \<Rightarrow> u32 km" where
  "page2kva pp = KADDR (page2pa pp)"

text \<open>The frame a kernel virtual address lies in, and the address of a frame.\<close>

definition kva_frame :: "u32 \<Rightarrow> nat" where
  "kva_frame kva = unat (PGNUM (kva - KERNBASE))"

definition frame_kva :: "nat \<Rightarrow> u32" where
  "frame_kva f = page2pa f + KERNBASE"

section \<open>Memory detection and the boot allocator\<close>

abbreviation (input) NVRAM_BASELO :: u32 where "NVRAM_BASELO \<equiv> 0x15"
abbreviation (input) NVRAM_EXTLO :: u32 where "NVRAM_EXTLO \<equiv> 0x17"
abbreviation (input) NVRAM_EXT16LO :: u32 where "NVRAM_EXT16LO \<equiv> 0x34"

definition nvram_read :: "(u32 \<Rightarrow> u8) \<Rightarrow> u32 \<Rightarrow> u32" where
  "nvram_read cmos r = (ucast (cmos r) OR push_bit 8 (ucast (cmos (r + 1))))"

definition i386_detect_memory :: "(u32 \<Rightarrow> u8) \<Rightarrow> unit km" where
  "i386_detect_memory cmos =
     (let basemem = nvram_read cmos NVRAM_BASELO;
          extmem = nvram_read cmos NVRAM_EXTLO;
          ext16mem = nvram_read cmos NVRAM_EXT16LO * 64;
          totalmem = (if ext16mem \<noteq> 0 then 16 * 1024 + ext16mem
                      else if extmem \<noteq> 0 then 1 * 1024 + extmem
                      else basemem)
      in thenP (modify (\<lambda>s. s\<lparr>npages := unat (totalmem div (PGSIZE div 1024)),
                              npages_basemem := unat (basemem div (PGSIZE div 1024))\<rparr>))
         (thenP (cprintf ''Physical memory: %uK available, base = %uK, extended = %uK\<newline>''
                   [VInt totalmem, VInt basemem, VInt (totalmem - basemem)])
         (ret ())))"

text \<open>
  \<open>end_sym\<close> is the linker's \<^verbatim>\<open>end\<close>; \<open>nextfree = 0\<close> is the null pointer. The number of pages
  used is a difference of pointers, hence a signed division (of a multiple of 4096).
\<close>

definition boot_alloc :: "u32 \<Rightarrow> u32 \<Rightarrow> u32 km" where
  "boot_alloc end_sym n =
     thenP (modify (\<lambda>s. if nextfree s = 0
                        then s\<lparr>nextfree := ROUNDUP end_sym PGSIZE, pages_left := of_nat (npages s)\<rparr>
                        else s))
     (bindP (gets nextfree) (\<lambda>result.
      bindP (gets pages_left) (\<lambda>left.
      if n = 0 then ret result
      else if left = 0 then stop (Panic ''no more free pages left! n > 0'')
      else (let total_bytes_left = left * PGSIZE
            in if n \<le> total_bytes_left
               then (let next' = result + ROUNDUP n PGSIZE;
                         pages_used = word_of_int (sint (next' - result) div 4096)
                     in thenP (modify (\<lambda>s. s\<lparr>nextfree := next', pages_left := left - pages_used\<rparr>))
                        (thenP (cprintf ''total pages left: %u\<newline>'' [VInt (left - pages_used)])
                        (ret result)))
               else stop (Panic ''pages left, but 'n' tried allocating too much!'')))))"

section \<open>The page allocator\<close>

definition push_free :: "nat \<Rightarrow> kstate \<Rightarrow> kstate" where
  "push_free i s =
     (upd_page i (\<lambda>p. p\<lparr>pp_ref := 0, pp_link := page_free_list s\<rparr>) s)\<lparr>page_free_list := Some i\<rparr>"

definition mark_used :: "nat \<Rightarrow> kstate \<Rightarrow> kstate" where
  "mark_used i s = upd_page i (\<lambda>p. p\<lparr>pp_ref := 1, pp_link := None\<rparr>) s"

definition page_init_body :: "u32 \<Rightarrow> nat \<Rightarrow> unit km" where
  "page_init_body end_sym i =
     (let pa = PGSIZE * of_nat i
      in bindP (gets npages_basemem) (\<lambda>nb.
         if i < nb then modify (push_free i)
         else if 0xA0000 \<le> pa \<and> pa < 0x100000 then modify (mark_used i)
         else bindP (boot_alloc end_sym 0) (\<lambda>kva. bindP (PADDR kva) (\<lambda>first.
              if pa < first then modify (mark_used i) else modify (push_free i)))))"

definition page_init :: "u32 \<Rightarrow> unit km" where
  "page_init end_sym =
     thenP (modify (mark_used 0))
     (bindP (gets npages) (\<lambda>np. forP [1..<np] (page_init_body end_sym)))"

abbreviation (input) ALLOC_ZERO :: u32 where "ALLOC_ZERO \<equiv> 1"

definition page_alloc :: "u32 \<Rightarrow> nat option km" where
  "page_alloc alloc_flags =
     bindP (gets page_free_list) (\<lambda>head.
     case head of
       None \<Rightarrow> ret None
     | Some pp \<Rightarrow>
         thenP (modify (\<lambda>s. s\<lparr>page_free_list := pp_link (pages s pp)\<rparr>))
         (thenP (modify (upd_page pp (\<lambda>p. p\<lparr>pp_link := None\<rparr>)))
         (thenP (if alloc_flags AND ALLOC_ZERO \<noteq> 0
                 then bindP (page2kva pp) (\<lambda>kva. modify (fill_frame (kva_frame kva) 0))
                 else ret ())
         (ret (Some pp)))))"

definition page_free :: "nat \<Rightarrow> unit km" where
  "page_free pp =
     bindP (gets (\<lambda>s. pages s pp)) (\<lambda>p.
     if pp_ref p \<noteq> 0
     then stop (Panic ''inside page_free() -> there are references to this page, so cannot free!!'')
     else if pp_link p \<noteq> None
     then stop (Panic ''inside page_free -> pp->pp_link is NOT NULL!'')
     else modify (push_free pp))"

definition page_decref :: "nat \<Rightarrow> unit km" where
  "page_decref pp =
     thenP (modify (upd_page pp (\<lambda>p. p\<lparr>pp_ref := pp_ref p - 1\<rparr>)))
     (bindP (gets (\<lambda>s. pp_ref (pages s pp))) (\<lambda>r.
      if r = 0 then page_free pp else ret ()))"

section \<open>Page tables\<close>

definition pde_of :: "nat \<Rightarrow> u32 \<Rightarrow> kstate \<Rightarrow> u32" where
  "pde_of pgdir va s = pmem s pgdir (unat (PDX va))"

text \<open>\<^verbatim>\<open>&(((pte_t *) KADDR(pgdir[PDX(va)] & ~0xFFF))[PTX(va)])\<close>\<close>

definition pte_ptr :: "nat \<Rightarrow> u32 \<Rightarrow> (nat \<times> nat) option km" where
  "pte_ptr pgdir va =
     bindP (gets (pde_of pgdir va)) (\<lambda>pde.
     bindP (KADDR (pde AND NOT 0xFFF)) (\<lambda>kva.
     ret (Some (kva_frame kva, unat (PTX va)))))"

definition pgdir_walk :: "nat \<Rightarrow> u32 \<Rightarrow> u32 \<Rightarrow> (nat \<times> nat) option km" where
  "pgdir_walk pgdir va create =
     bindP (gets (pde_of pgdir va)) (\<lambda>pde.
     if pde AND PTE_P = 0 \<and> create = 0 then ret None
     else if pde AND PTE_P = 0 \<and> create = 1
     then bindP (page_alloc ALLOC_ZERO) (\<lambda>newPage.
          case newPage of
            None \<Rightarrow> ret None
          | Some pp \<Rightarrow>
              thenP (modify (upd_page pp (\<lambda>p. p\<lparr>pp_ref := pp_ref p + 1\<rparr>)))
              (thenP (modify (store_word pgdir (unat (PDX va))
                                (page2pa pp OR PTE_P OR PTE_W OR PTE_U)))
              (pte_ptr pgdir va)))
     else if pde AND PTE_P = 1 then pte_ptr pgdir va
     else pte_ptr pgdir va)"

definition load_pte :: "nat \<times> nat \<Rightarrow> u32 km" where
  "load_pte p = gets (\<lambda>s. pmem s (fst p) (snd p))"

definition store_pte :: "nat \<times> nat \<Rightarrow> u32 \<Rightarrow> unit km" where
  "store_pte p w = modify (store_word (fst p) (snd p) w)"

definition boot_map_page :: "nat \<Rightarrow> u32 \<Rightarrow> u32 \<Rightarrow> u32 \<Rightarrow> nat \<Rightarrow> unit km" where
  "boot_map_page pgdir va pa perm i =
     bindP (pgdir_walk pgdir (va + of_nat i * PGSIZE) 1) (\<lambda>p.
     bindP (deref p) (\<lambda>pte. store_pte pte ((pa + of_nat i * PGSIZE) OR perm OR PTE_P)))"

definition boot_map_region :: "nat \<Rightarrow> u32 \<Rightarrow> u32 \<Rightarrow> u32 \<Rightarrow> u32 \<Rightarrow> unit km" where
  "boot_map_region pgdir va sz pa perm =
     forP [0..<unat (sz div PGSIZE)] (boot_map_page pgdir va pa perm)"

text \<open>The result is the page and the entry that maps it.\<close>

definition page_lookup :: "nat \<Rightarrow> u32 \<Rightarrow> (nat \<times> (nat \<times> nat)) option km" where
  "page_lookup pgdir va =
     bindP (pgdir_walk pgdir va 0) (\<lambda>p.
     case p of
       None \<Rightarrow> ret None
     | Some ptep \<Rightarrow>
         bindP (load_pte ptep) (\<lambda>pte.
         if pte AND PTE_P = 0 then ret None
         else bindP (pa2page pte) (\<lambda>pp. ret (Some (pp, ptep)))))"

definition tlb_invalidate :: "nat \<Rightarrow> u32 \<Rightarrow> unit km" where
  "tlb_invalidate pgdir va =
     bindP (gets (\<lambda>s. case curenv s of
                        None \<Rightarrow> True
                      | Some e \<Rightarrow> env_pgdir (envs s e) = Some pgdir)) (\<lambda>current.
     if current then invlpg va else ret ())"

definition page_remove :: "nat \<Rightarrow> u32 \<Rightarrow> unit km" where
  "page_remove pgdir va =
     bindP (page_lookup pgdir va) (\<lambda>r.
     case r of
       None \<Rightarrow> ret ()
     | Some (pp, ptep) \<Rightarrow>
         thenP (store_pte ptep 0) (thenP (page_decref pp) (tlb_invalidate pgdir va)))"

definition page_insert :: "nat \<Rightarrow> nat \<Rightarrow> u32 \<Rightarrow> u32 \<Rightarrow> u32 km" where
  "page_insert pgdir pp va perm =
     bindP (pgdir_walk pgdir va 1) (\<lambda>p.
     case p of
       None \<Rightarrow> ret (- E_NO_MEM)
     | Some ptep \<Rightarrow>
         thenP (modify (upd_page pp (\<lambda>p. p\<lparr>pp_ref := pp_ref p + 1\<rparr>)))
         (bindP (load_pte ptep) (\<lambda>pte.
          if pte AND PTE_P = 1
          then thenP (page_remove pgdir va)
               (thenP (store_pte ptep (page2pa pp OR perm OR PTE_P)) (ret 0))
          else if pte AND PTE_P = 0
          then thenP (store_pte ptep (page2pa pp OR perm OR PTE_P)) (ret 0)
          else ret (- E_NO_MEM))))"

text \<open>Not implemented in this tree: the body is a \<open>panic\<close>.\<close>

definition mmio_map_region :: "u32 \<Rightarrow> u32 \<Rightarrow> u32 km" where
  "mmio_map_region pa sz = stop (Panic ''mmio_map_region not implemented'')"

section \<open>Checking user pointers\<close>

definition user_mem_check_page :: "nat option \<Rightarrow> u32 \<Rightarrow> u32 \<Rightarrow> nat \<Rightarrow> u32 option km" where
  "user_mem_check_page env va perm i =
     (let cur = va + of_nat i * PGSIZE;
          bad = thenP (modify (\<lambda>s. s\<lparr>user_mem_check_addr := cur\<rparr>)) (ret (Some (- E_FAULT)))
      in if cur \<ge> ULIM then bad
         else bindP (deref env) (\<lambda>e.
              bindP (gets (\<lambda>s. env_pgdir (envs s e))) (\<lambda>pd.
              bindP (deref pd) (\<lambda>pgdir.
              bindP (pgdir_walk pgdir cur 0) (\<lambda>p.
              case p of
                None \<Rightarrow> bad
              | Some ptep \<Rightarrow>
                  bindP (load_pte ptep) (\<lambda>pte.
                  if pte AND perm \<noteq> perm then bad else ret None))))))"

definition user_mem_check :: "nat option \<Rightarrow> u32 \<Rightarrow> u32 \<Rightarrow> u32 \<Rightarrow> u32 km" where
  "user_mem_check env va len perm =
     (let raw_range = ROUNDUP (va + len) PGSIZE - ROUNDDOWN va PGSIZE;
          num_of_pages = raw_range div PGSIZE
      in bindP (searchP [0..<unat num_of_pages] (user_mem_check_page env va perm)) (\<lambda>r.
         case r of None \<Rightarrow> ret 0 | Some e \<Rightarrow> ret e))"

end
