(* ===== verification/PmapAlloc.thy ===== *)
theory PmapAlloc
  imports Pmap
begin

text \<open>
  The page allocator of \<^verbatim>\<open>kern/pmap.c\<close> against its specification: \<open>page_free_list\<close> and the
  \<open>pp_link\<close> fields represent a list of page numbers. \<open>page_alloc\<close> pops it, \<open>page_free\<close> pushes
  onto it, \<open>page_decref\<close> pushes when the last reference goes away, and \<open>page_init\<close> builds it
  from the memory map. \<open>free_pages\<close> is the representation invariant, and the locale
  \<open>page_pool\<close> is the interface clients of the allocator use.
\<close>

section \<open>The list behind \<open>page_free_list\<close>\<close>

abbreviation chain :: "(nat \<Rightarrow> PageInfo) \<Rightarrow> nat option \<Rightarrow> nat list \<Rightarrow> bool" where
  "chain pg \<equiv> linked (\<lambda>x. pp_link (pg x))"

text \<open>
  The representation invariant: the chain lists \<open>xs\<close>, its pages exist and are unreferenced, and
  a page that is not listed has a null link (so \<open>page_free\<close> accepts it).
\<close>

definition free_pages :: "kstate \<Rightarrow> nat list \<Rightarrow> bool" where
  "free_pages s xs \<longleftrightarrow>
     chain (pages s) (page_free_list s) xs \<and>
     (\<forall>x \<in> set xs. x < npages s \<and> pp_ref (pages s x) = 0) \<and>
     (\<forall>x. x \<notin> set xs \<longrightarrow> pp_link (pages s x) = None)"

lemma free_pages_distinct: "free_pages s xs \<Longrightarrow> distinct xs"
  by (auto simp: free_pages_def dest: linked_distinct)

lemma free_pages_unique: "free_pages s xs \<Longrightarrow> free_pages s ys \<Longrightarrow> xs = ys"
  by (auto simp: free_pages_def dest: linked_unique)

lemma free_pages_cong:
  assumes "pages t = pages s" "npages t = npages s" "page_free_list t = page_free_list s"
  shows "free_pages t xs = free_pages s xs"
  by (simp add: free_pages_def assms)

section \<open>Addresses of pages\<close>

lemma unat_PGNUM: "unat (PGNUM pa) = unat pa div 4096"
  unfolding PGNUM_def by (simp only: unsigned_drop_bit_eq) (simp add: drop_bit_eq_div take_bit_nat_eq_self [OF unat_less_32])

lemma unat_PGNUM_less [simp]: "unat (PGNUM pa) < 1048576"
  unfolding unat_PGNUM using unat_less_32 [of pa] by simp

lemma unat_page2pa: "pp < 1048576 \<Longrightarrow> unat (page2pa pp) = 4096 * pp"
proof -
  assume pp: "pp < 1048576"
  have "page2pa pp = of_nat (4096 * pp)" by (simp add: page2pa_def push_bit_eq_mult)
  also have "unat \<dots> = 4096 * pp" using pp by (intro unat_of_nat32) simp
  finally show ?thesis .
qed

lemma PGNUM_page2pa: "pp < 1048576 \<Longrightarrow> unat (PGNUM (page2pa pp)) = pp"
  by (simp add: unat_PGNUM unat_page2pa)

lemma kva_frame_KADDR: "kva_frame (pa + KERNBASE) = unat (PGNUM pa)"
  by (simp add: kva_frame_def)

definition machine_ok :: "kstate \<Rightarrow> bool" where
  "machine_ok s \<longleftrightarrow> npages s \<le> 65536"

lemma run_KADDR [prog_simps]:
  "run (KADDR pa) s =
     (if unat (PGNUM pa) \<ge> npages s then (Stop (Panic ''KADDR called with invalid pa''), s)
      else (Ret (pa + KERNBASE), s))"
  by (simp add: KADDR_def prog_simps)

lemma run_pa2page [prog_simps]:
  "run (pa2page pa) s =
     (if unat (PGNUM pa) \<ge> npages s then (Stop (Panic ''pa2page called with invalid pa''), s)
      else (Ret (unat (PGNUM pa)), s))"
  by (simp add: pa2page_def prog_simps)

lemma run_page2kva:
  "machine_ok s \<Longrightarrow> pp < npages s \<Longrightarrow> run (page2kva pp) s = (Ret (frame_kva pp), s)"
  by (simp add: page2kva_def prog_simps frame_kva_def machine_ok_def PGNUM_page2pa)

lemma kva_frame_frame_kva: "pp < 1048576 \<Longrightarrow> kva_frame (frame_kva pp) = pp"
  by (simp add: frame_kva_def kva_frame_KADDR PGNUM_page2pa)

section \<open>\<open>page_alloc\<close>, \<open>page_free\<close>, \<open>page_decref\<close>\<close>

lemma page_alloc_empty:
  "free_pages s [] \<Longrightarrow> run (page_alloc flags) s = (Ret None, s)"
  by (simp add: page_alloc_def prog_simps free_pages_def)

text \<open>The state after a page was taken off the list.\<close>

definition taken :: "nat \<Rightarrow> bool \<Rightarrow> kstate \<Rightarrow> kstate" where
  "taken pp zero s =
     (let t = upd_page pp (\<lambda>p. p\<lparr>pp_link := None\<rparr>) (s\<lparr>page_free_list := pp_link (pages s pp)\<rparr>)
      in if zero then fill_frame pp 0 t else t)"

lemma taken_sel [simp]:
  "pages (taken pp z s) = (pages s)(pp := (pages s pp)\<lparr>pp_link := None\<rparr>)"
  "npages (taken pp z s) = npages s" "page_free_list (taken pp z s) = pp_link (pages s pp)"
  "pmem (taken pp z s) = (if z then (pmem s)(pp := (\<lambda>_. 0)) else pmem s)"
  "envs (taken pp z s) = envs s" "cpus (taken pp z s) = cpus s" "cpunum (taken pp z s) = cpunum s"
  "kern_pgdir (taken pp z s) = kern_pgdir s" "env_free_list (taken pp z s) = env_free_list s"
  by (simp_all add: taken_def Let_def)

lemma page_alloc_run:
  assumes "free_pages s (x # xs)" and "machine_ok s"
  shows "run (page_alloc flags) s = (Ret (Some x), taken x (flags AND ALLOC_ZERO \<noteq> 0) s)"
proof -
  have head: "page_free_list s = Some x" and x: "x < npages s" "x < 1048576"
    using assms by (auto simp: free_pages_def machine_ok_def)
  let ?t = "upd_page x (\<lambda>p. p\<lparr>pp_link := None\<rparr>) (s\<lparr>page_free_list := pp_link (pages s x)\<rparr>)"
  have kva: "run (page2kva x) ?t = (Ret (frame_kva x), ?t)"
    using assms(2) x by (intro run_page2kva) (simp_all add: machine_ok_def)
  show ?thesis
    using head kva x
    by (simp add: page_alloc_def prog_simps taken_def Let_def kva_frame_frame_kva)
qed

lemma taken_free_pages:
  assumes "free_pages s (x # xs)"
  shows "free_pages (taken x z s) xs"
proof -
  have nin: "x \<notin> set xs" using free_pages_distinct [OF assms] by simp
  have "chain ((pages s)(x := (pages s x)\<lparr>pp_link := None\<rparr>)) (pp_link (pages s x)) xs
      = chain (pages s) (pp_link (pages s x)) xs"
    using nin by (intro linked_cong) auto
  then show ?thesis using assms nin by (auto simp: free_pages_def)
qed

lemma push_free_sel [simp]:
  "pages (push_free x s) = (pages s)(x := (pages s x)\<lparr>pp_ref := 0, pp_link := page_free_list s\<rparr>)"
  "npages (push_free x s) = npages s" "page_free_list (push_free x s) = Some x"
  "pmem (push_free x s) = pmem s" "envs (push_free x s) = envs s" "cpus (push_free x s) = cpus s"
  "cpunum (push_free x s) = cpunum s" "kern_pgdir (push_free x s) = kern_pgdir s"
  "env_free_list (push_free x s) = env_free_list s"
  "npages_basemem (push_free x s) = npages_basemem s" "nextfree (push_free x s) = nextfree s"
  by (simp_all add: push_free_def upd_page_def)

lemma push_free_pages:
  assumes "free_pages s xs" and "x \<notin> set xs" and "x < npages s"
  shows "free_pages (push_free x s) (x # xs)"
proof -
  have "chain ((pages s)(x := (pages s x)\<lparr>pp_ref := 0, pp_link := page_free_list s\<rparr>))
      (page_free_list s) xs = chain (pages s) (page_free_list s) xs"
    using assms(2) by (intro linked_cong) auto
  then show ?thesis using assms by (auto simp: free_pages_def)
qed

lemma page_free_run:
  assumes "free_pages s xs" and "x \<notin> set xs" and "pp_ref (pages s x) = 0"
  shows "run (page_free x) s = (Ret (), push_free x s)"
  using assms by (simp add: page_free_def prog_simps free_pages_def)

lemma page_free_referenced:
  "pp_ref (pages s x) \<noteq> 0 \<Longrightarrow> \<exists>msg. run (page_free x) s = (Stop (Panic msg), s)"
  by (simp add: page_free_def prog_simps)

text \<open>Freeing a listed page again is caught, unless it is the last of the list.\<close>

lemma page_free_twice:
  assumes "free_pages s xs" and "x \<in> set xs" and "x \<noteq> last xs"
  shows "\<exists>msg. run (page_free x) s = (Stop (Panic msg), s)"
proof -
  obtain as bs where xs: "xs = as @ x # bs" using assms(2) by (auto simp: in_set_conv_decomp)
  then have "bs \<noteq> []" using assms(3) by auto
  have "chain (pages s) (page_free_list s) (as @ x # bs)"
    using assms(1) xs by (simp add: free_pages_def)
  then have "chain (pages s) (Some x) (x # bs)" by (rule linked_append_tail)
  then have "pp_link (pages s x) \<noteq> None" using \<open>bs \<noteq> []\<close> by (cases bs) auto
  moreover have "pp_ref (pages s x) = 0" using assms(1,2) by (auto simp: free_pages_def)
  ultimately show ?thesis by (simp add: page_free_def prog_simps)
qed

definition decref :: "nat \<Rightarrow> kstate \<Rightarrow> kstate" where
  "decref x s =
     (let t = upd_page x (\<lambda>p. p\<lparr>pp_ref := pp_ref p - 1\<rparr>) s
      in if pp_ref (pages s x) = 1 then push_free x t else t)"

lemma decref_sel [simp]:
  "npages (decref x s) = npages s" "pmem (decref x s) = pmem s" "envs (decref x s) = envs s"
  "cpus (decref x s) = cpus s" "cpunum (decref x s) = cpunum s"
  "kern_pgdir (decref x s) = kern_pgdir s" "env_free_list (decref x s) = env_free_list s"
  by (simp_all add: decref_def Let_def)

lemma pp_ref_decref: "pp_ref (pages (decref x s) y) =
    (if y = x then pp_ref (pages s x) - 1 else pp_ref (pages s y))"
  by (simp add: decref_def Let_def)

lemma free_pages_ref:
  assumes "free_pages s xs" and "x \<notin> set xs" and "\<And>p. pp_link (f p) = pp_link p"
  shows "free_pages (upd_page x f s) xs"
proof -
  have "chain ((pages s)(x := f (pages s x))) (page_free_list s) xs
      = chain (pages s) (page_free_list s) xs"
    using assms(2) by (intro linked_cong) auto
  then show ?thesis using assms by (auto simp: free_pages_def)
qed

lemma page_decref_run:
  assumes "free_pages s xs" and "x \<notin> set xs"
  shows "run (page_decref x) s = (Ret (), decref x s)"
proof -
  let ?t = "upd_page x (\<lambda>p. p\<lparr>pp_ref := pp_ref p - 1\<rparr>) s"
  have "free_pages ?t xs" using assms(1,2) by (rule free_pages_ref) simp
  then have "pp_ref (pages s x) = 1 \<Longrightarrow> run (page_free x) ?t = (Ret (), push_free x ?t)"
    using assms(2) by (intro page_free_run) auto
  then show ?thesis
    by (auto simp: page_decref_def prog_simps decref_def Let_def)
qed

lemma decref_free_pages:
  assumes "free_pages s xs" and "x \<notin> set xs" and "x < npages s"
  shows "free_pages (decref x s) (if pp_ref (pages s x) = 1 then x # xs else xs)"
proof -
  let ?t = "upd_page x (\<lambda>p. p\<lparr>pp_ref := pp_ref p - 1\<rparr>) s"
  have "free_pages ?t xs" using assms(1,2) by (rule free_pages_ref) simp
  then show ?thesis
    using assms push_free_pages [of ?t xs x] by (simp add: decref_def Let_def)
qed

section \<open>The allocator as an interface\<close>

text \<open>
  What the clients of the allocator rely on. \<open>pool s xs\<close> says that the pages \<open>xs\<close> can be handed
  out, in this order, and \<open>idle s x\<close> that \<open>x\<close> may be given back.
\<close>

locale page_pool =
  fixes alloc :: "u32 \<Rightarrow> ('s, nat option) prog"
    and give_back :: "nat \<Rightarrow> ('s, unit) prog"
    and pool :: "'s \<Rightarrow> nat list \<Rightarrow> bool"
    and idle :: "'s \<Rightarrow> nat \<Rightarrow> bool"
  assumes alloc_empty: "pool s [] \<Longrightarrow> run (alloc flags) s = (Ret None, s)"
    and alloc_next: "pool s (x # xs) \<Longrightarrow>
      \<exists>t. run (alloc flags) s = (Ret (Some x), t) \<and> pool t xs \<and> idle t x"
    and give_back_idle: "pool s xs \<Longrightarrow> idle s x \<Longrightarrow> x \<notin> set xs \<Longrightarrow>
      \<exists>t. run (give_back x) s = (Ret (), t) \<and> pool t (x # xs)"
    and pool_distinct: "pool s xs \<Longrightarrow> distinct xs"
begin

text \<open>\<open>n\<close> allocations in a row, collecting what they return.\<close>

lemma alloc_outcome:
  assumes "pool s xs"
  shows "\<exists>t. run (alloc flags) s = (Ret (case xs of [] \<Rightarrow> None | x # _ \<Rightarrow> Some x), t) \<and> pool t (tl xs)"
proof (cases xs)
  case Nil
  then show ?thesis using assms alloc_empty by auto
next
  case (Cons x ys)
  then show ?thesis using assms alloc_next by fastforce
qed

lemma alloc_sequence:
  assumes "pool s xs"
  shows "\<exists>t. run (foldP fs (\<lambda>f acc. bindP (alloc f) (\<lambda>p. ret (acc @ [p]))) acc) s
           = (Ret (acc @ map (\<lambda>i. if i < length xs then Some (xs ! i) else None) [0..<length fs]), t)
         \<and> pool t (drop (length fs) xs)"
  using assms
proof (induction fs arbitrary: s xs acc)
  case Nil
  then show ?case by (simp add: prog_simps)
next
  case (Cons f fs)
  obtain u where u: "run (alloc f) s = (Ret (case xs of [] \<Rightarrow> None | x # _ \<Rightarrow> Some x), u)"
      "pool u (tl xs)"
    using alloc_outcome [OF Cons.prems] by blast
  have "[0..<length (f # fs)] = 0 # map Suc [0..<length fs]" by (simp add: map_Suc_upt upt_conv_Cons del: upt_Suc)
  then have list: "(case xs of [] \<Rightarrow> None | x # _ \<Rightarrow> Some x)
      # map (\<lambda>i. if i < length (tl xs) then Some (tl xs ! i) else None) [0..<length fs]
      = map (\<lambda>i. if i < length xs then Some (xs ! i) else None) [0..<length (f # fs)]"
    by (cases xs) (auto simp: comp_def)
  show ?case
    using Cons.IH [OF u(2), of "acc @ [case xs of [] \<Rightarrow> None | x # _ \<Rightarrow> Some x]"] u(1) list
    by (simp add: prog_simps drop_Suc)
qed

text \<open>The pool is a stack: a page given back is the next one handed out.\<close>

lemma give_back_alloc:
  assumes "pool s xs" and "idle s x" and "x \<notin> set xs"
  shows "\<exists>t. run (thenP (give_back x) (alloc flags)) s = (Ret (Some x), t) \<and> pool t xs"
  using give_back_idle [OF assms] alloc_next by (fastforce simp: prog_simps)

end

definition idle_page :: "kstate \<Rightarrow> nat \<Rightarrow> bool" where
  "idle_page s x \<longleftrightarrow> x < npages s \<and> pp_ref (pages s x) = 0"

interpretation pool: page_pool page_alloc page_free "\<lambda>s xs. free_pages s xs \<and> machine_ok s" idle_page
proof
  fix s :: kstate and x xs and flags :: u32
  show "free_pages s [] \<and> machine_ok s \<Longrightarrow> run (page_alloc flags) s = (Ret None, s)"
    by (simp add: page_alloc_empty)
  show "free_pages s xs \<and> machine_ok s \<Longrightarrow> distinct xs"
    using free_pages_distinct by blast
  show "\<exists>t. run (page_alloc flags) s = (Ret (Some x), t) \<and> (free_pages t xs \<and> machine_ok t) \<and> idle_page t x"
    if "free_pages s (x # xs) \<and> machine_ok s"
    using that page_alloc_run [of s x xs flags] taken_free_pages [of s x xs]
    by (auto simp: machine_ok_def idle_page_def free_pages_def)
  show "\<exists>t. run (page_free x) s = (Ret (), t) \<and> (free_pages t (x # xs) \<and> machine_ok t)"
    if "free_pages s xs \<and> machine_ok s" "idle_page s x" "x \<notin> set xs"
    using that page_free_run [of s xs x] push_free_pages [of s xs x]
    by (auto simp: machine_ok_def idle_page_def)
qed

text \<open>\<open>n\<close> calls of \<open>page_alloc(0)\<close>, as the self tests of \<^verbatim>\<open>pmap.c\<close> make them.\<close>

definition alloc_pages :: "nat \<Rightarrow> nat option list km" where
  "alloc_pages n = foldP (replicate n 0) (\<lambda>f acc. bindP (page_alloc f) (\<lambda>p. ret (acc @ [p]))) []"

lemma alloc_pages_run:
  assumes "free_pages s xs" and "machine_ok s"
  shows "\<exists>t. run (alloc_pages n) s
           = (Ret (map (\<lambda>i. if i < length xs then Some (xs ! i) else None) [0..<n]), t)
         \<and> free_pages t (drop n xs) \<and> machine_ok t"
  using pool.alloc_sequence [of s xs "replicate n 0" "[]"] assms by (simp add: alloc_pages_def)

end
