(* ===== verification/PmapInit.thy ===== *)
theory PmapInit
  imports PmapAlloc
begin

text \<open>
  Start-up of the memory manager: \<open>boot_alloc\<close> hands out page-aligned memory and accounts for
  it, \<open>page_init\<close> builds the free list the memory map prescribes.
\<close>

section \<open>\<open>boot_alloc\<close>\<close>

lemma sint_small:
  fixes x :: u32
  assumes "unat x < 2147483648"
  shows "sint x = int (unat x)"
proof -
  have "uint x < 2147483648" using assms unfolding unat_eq_nat_uint by linarith
  moreover have "- (2 ^ 31) \<le> uint x" by (rule order_trans [OF _ uint_ge_0]) simp
  ultimately have "signed_take_bit 31 (uint x) = uint x"
    by (intro signed_take_bit_int_eq_self) (assumption, simp)
  then show ?thesis by (simp add: sint_uint)
qed

lemma ROUNDUP_page:
  assumes "unat n + 4095 < 2 ^ 32"
  shows "unat (ROUNDUP n 4096) = 4096 * ((unat n + 4095) div 4096)"
proof -
  have sum: "unat (n + 4095) = unat n + 4095"
    using assms by (simp add: unat_add_small32)
  have "ROUNDUP n 4096 = (n + 4095) - (n + 4095) mod 4096"
    by (simp add: ROUNDUP_def ROUNDDOWN_def algebra_simps)
  also have "unat \<dots> = unat (n + 4095) - unat ((n + 4095) mod 4096)"
    by (rule unat_sub) (simp add: word_le_nat_alt unat_mod)
  also have "\<dots> = 4096 * ((unat n + 4095) div 4096)"
    by (simp add: sum unat_mod minus_mod_eq_mult_div)
  finally show ?thesis .
qed

lemma boot_alloc_zero:
  "nextfree s \<noteq> 0 \<Longrightarrow> run (boot_alloc end_sym 0) s = (Ret (nextfree s), s)"
  by (simp add: boot_alloc_def prog_simps)

lemma boot_alloc_formats [formats]: "vprintfmt ''total pages left: %u\<newline>'' [VInt w] \<noteq> None"
  by (simp add: fmt_eval fmt_init_def)

definition kept_total :: "kstate \<Rightarrow> nat" where
  "kept_total s = unat (nextfree s) + 4096 * unat (pages_left s)"

text \<open>The state \<open>boot_alloc\<close> leaves when it returns memory.\<close>

definition boot_taken :: "u32 \<Rightarrow> kstate \<Rightarrow> kstate" where
  "boot_taken n s =
     (let left = pages_left s - of_nat ((unat n + 4095) div 4096)
      in s\<lparr>nextfree := nextfree s + ROUNDUP n 4096, pages_left := left,
           console := console s @ render ''total pages left: %u\<newline>'' [VInt left]\<rparr>)"

lemma boot_taken_sel [simp]:
  "pages (boot_taken n s) = pages s" "page_free_list (boot_taken n s) = page_free_list s" "npages (boot_taken n s) = npages s"
  "pmem (boot_taken n s) = pmem s" "npages_basemem (boot_taken n s) = npages_basemem s" "ksym (boot_taken n s) = ksym s"
  "nextfree (boot_taken n s) = nextfree s + ROUNDUP n 4096"
  "pages_left (boot_taken n s) = pages_left s - of_nat ((unat n + 4095) div 4096)"
  by (simp_all add: boot_taken_def Let_def)

lemma boot_alloc_exact:
  assumes start: "nextfree s \<noteq> 0" and n: "n \<noteq> 0"
    and fits: "unat n \<le> 4096 * unat (pages_left s)" and few: "unat (pages_left s) \<le> 262144"
  shows "run (boot_alloc end_sym n) s = (Ret (nextfree s), boot_taken n s)"
    and "unat (ROUNDUP n 4096) = 4096 * ((unat n + 4095) div 4096)"
    and "unat (pages_left (boot_taken n s)) = unat (pages_left s) - (unat n + 4095) div 4096"
proof -
  let ?k = "(unat n + 4095) div 4096"
  have k: "?k \<le> unat (pages_left s)" using fits by linarith
  show r: "unat (ROUNDUP n 4096) = 4096 * ?k"
    by (rule ROUNDUP_page) (use fits few in simp)
  have left: "unat (pages_left s * 4096) = 4096 * unat (pages_left s)"
    using few by (simp add: unat_word_ariths)
  have "unat (ROUNDUP n 4096) < 2147483648" using r k few by simp
  then have "sint (ROUNDUP n 4096) = int (4096 * ?k)" using r by (simp only: sint_small)
  then have used: "(word_of_int (sint (ROUNDUP n 4096) div 4096) :: u32) = of_nat ?k" by simp
  have pos: "pages_left s \<noteq> 0" using fits n by (auto simp: unsigned_eq_0_iff)
  have le: "n \<le> pages_left s * 4096" using fits left by (simp add: word_le_nat_alt)
  show "run (boot_alloc end_sym n) s = (Ret (nextfree s), boot_taken n s)"
    using start n pos le by (simp add: boot_alloc_def prog_simps Let_def used run_cprintf formats boot_taken_def)
  show "unat (pages_left (boot_taken n s)) = unat (pages_left s) - ?k"
    using k few by (simp add: unat_diff32 unat_of_nat32)
qed

lemma boot_alloc_run:
  assumes start: "nextfree s \<noteq> 0" and n: "n \<noteq> 0"
    and fits: "unat n \<le> 4096 * unat (pages_left s)" and few: "unat (pages_left s) \<le> 262144"
    and room: "kept_total s < 2 ^ 32"
  shows "\<exists>t. run (boot_alloc end_sym n) s = (Ret (nextfree s), t)
    \<and> unat (nextfree t) = unat (nextfree s) + 4096 * ((unat n + 4095) div 4096)
    \<and> kept_total t = kept_total s \<and> unat (pages_left t) \<le> unat (pages_left s)
    \<and> pages t = pages s \<and> page_free_list t = page_free_list s \<and> npages t = npages s
    \<and> pmem t = pmem s"
proof -
  let ?k = "(unat n + 4095) div 4096"
  note B = boot_alloc_exact [OF start n fits few]
  have k: "?k \<le> unat (pages_left s)" using fits by linarith
  have "unat (nextfree s + ROUNDUP n 4096) = unat (nextfree s) + 4096 * ?k"
    using room k B(2) by (subst unat_add_small32) (simp_all add: kept_total_def)
  then show ?thesis using B k by (intro exI [of _ "boot_taken n s"]) (simp add: kept_total_def)
qed

lemma boot_alloc_too_much:
  assumes "nextfree s \<noteq> 0" and "n \<noteq> 0" and "4096 * unat (pages_left s) < unat n"
  shows "\<exists>msg. run (boot_alloc end_sym n) s = (Stop (Panic msg), s)"
proof (cases "pages_left s = 0")
  case True
  then show ?thesis using assms by (simp add: boot_alloc_def prog_simps Let_def)
next
  case False
  have "4096 * unat (pages_left s) < 2 ^ 32" using assms(3) unat_less_32 [of n] by linarith
  then have "unat (pages_left s * 4096) = 4096 * unat (pages_left s)"
    by (simp add: unat_word_ariths)
  then have "\<not> n \<le> pages_left s * 4096" using assms(3) by (simp add: word_le_nat_alt)
  then show ?thesis using False assms by (simp add: boot_alloc_def prog_simps Let_def)
qed

section \<open>\<open>page_init\<close>\<close>

text \<open>
  The pages that may be handed out: not page 0, below the base memory limit, or outside the IO
  hole and at or above the first byte the boot allocator has not given out.
\<close>

definition page_usable :: "nat \<Rightarrow> u32 \<Rightarrow> nat \<Rightarrow> bool" where
  "page_usable nb next i \<longleftrightarrow>
     (let pa = 4096 * of_nat i
      in i \<noteq> 0 \<and> (i < nb \<or> \<not> (IOPHYSMEM \<le> pa \<and> pa < EXTPHYSMEM) \<and> next - KERNBASE \<le> pa))"

lemma run_PADDR [prog_simps]:
  "run (PADDR kva) s =
     (if kva < KERNBASE then (Stop (Panic ''PADDR called with invalid kva''), s)
      else (Ret (kva - KERNBASE), s))"
  by (simp add: PADDR_def prog_simps)

lemma page_init_body_run:
  assumes "nextfree s \<noteq> 0" and "KERNBASE \<le> nextfree s" and "i \<noteq> 0"
  shows "run (page_init_body end_sym i) s =
     (Ret (), if page_usable (npages_basemem s) (nextfree s) i then push_free i s else mark_used i s)"
  using assms
  by (auto simp: page_init_body_def prog_simps Let_def boot_alloc_zero page_usable_def not_less
      split: if_splits)

lemma mark_used_sel [simp]:
  "pages (mark_used i s) = (pages s)(i := (pages s i)\<lparr>pp_ref := 1, pp_link := None\<rparr>)"
  "npages (mark_used i s) = npages s" "page_free_list (mark_used i s) = page_free_list s"
  "npages_basemem (mark_used i s) = npages_basemem s" "nextfree (mark_used i s) = nextfree s"
  "pmem (mark_used i s) = pmem s"
  by (simp_all add: mark_used_def upd_page_def)

lemma mark_used_free_pages:
  assumes "free_pages s xs" and "x \<notin> set xs"
  shows "free_pages (mark_used x s) xs"
proof -
  have "chain ((pages s)(x := (pages s x)\<lparr>pp_ref := 1, pp_link := None\<rparr>)) (page_free_list s) xs
      = chain (pages s) (page_free_list s) xs"
    using assms(2) by (intro linked_cong) auto
  then show ?thesis using assms by (auto simp: free_pages_def)
qed

definition usable_below :: "kstate \<Rightarrow> nat \<Rightarrow> nat list" where
  "usable_below s n = rev (filter (page_usable (npages_basemem s) (nextfree s)) [0..<n])"

definition init_upto :: "kstate \<Rightarrow> nat \<Rightarrow> kstate \<Rightarrow> bool" where
  "init_upto s n t \<longleftrightarrow>
     free_pages t (usable_below s n) \<and> npages t = npages s \<and>
     npages_basemem t = npages_basemem s \<and> nextfree t = nextfree s \<and> pmem t = pmem s \<and>
     (\<forall>i < n. pp_ref (pages t i) = (if i \<in> set (usable_below s n) then 0 else 1))"

lemma init_upto_step:
  assumes "init_upto s n t" and "n < npages s" and "n \<noteq> 0"
    and "nextfree s \<noteq> 0" and "KERNBASE \<le> nextfree s"
  shows "\<exists>u. run (page_init_body end_sym n) t = (Ret (), u) \<and> init_upto s (Suc n) u"
proof -
  have nin: "n \<notin> set (usable_below s n)" by (simp add: usable_below_def)
  show ?thesis
  proof (cases "page_usable (npages_basemem s) (nextfree s) n")
    case True
    have "init_upto s (Suc n) (push_free n t)"
      using assms(1,2) True nin push_free_pages [of t "usable_below s n" n]
      by (auto simp: init_upto_def usable_below_def less_Suc_eq)
    then show ?thesis
      using assms True by (simp add: init_upto_def page_init_body_run)
  next
    case False
    have "init_upto s (Suc n) (mark_used n t)"
      using assms(1,2) False nin mark_used_free_pages [of t "usable_below s n" n]
      by (auto simp: init_upto_def usable_below_def less_Suc_eq)
    then show ?thesis
      using assms False by (simp add: init_upto_def page_init_body_run)
  qed
qed

lemma init_loop:
  assumes "init_upto s 1 t" and "nextfree s \<noteq> 0" and "KERNBASE \<le> nextfree s" and "n \<noteq> 0"
    and "n \<le> npages s"
  shows "\<exists>u. run (forP [1..<n] (page_init_body end_sym)) t = (Ret (), u) \<and> init_upto s n u"
  using assms(4,5)
proof (induction n)
  case (Suc n)
  show ?case
  proof (cases "n = 0")
    case True
    then show ?thesis using assms(1) by (simp add: prog_simps)
  next
    case False
    then obtain u where u: "run (forP [1..<n] (page_init_body end_sym)) t = (Ret (), u)"
        "init_upto s n u"
      using Suc by auto
    moreover obtain v where "run (page_init_body end_sym n) u = (Ret (), v)" "init_upto s (Suc n) v"
      using init_upto_step [OF u(2)] Suc.prems False assms(2,3) by auto
    ultimately show ?thesis using False by (simp add: prog_simps)
  qed
qed simp

text \<open>A state in which no page is on the free list yet: what \<open>memset(pages, 0, ...)\<close> leaves.\<close>

definition fresh_pages :: "kstate \<Rightarrow> bool" where
  "fresh_pages s \<longleftrightarrow> page_free_list s = None \<and> (\<forall>i. pp_link (pages s i) = None)"

lemma page_init_run:
  assumes "fresh_pages s" and "nextfree s \<noteq> 0" and "KERNBASE \<le> nextfree s" and "npages s \<noteq> 0"
  shows "\<exists>t. run (page_init end_sym) s = (Ret (), t) \<and> init_upto s (npages s) t"
proof -
  have "init_upto s 1 (mark_used 0 s)"
    using assms(1)
    by (simp add: init_upto_def usable_below_def page_usable_def free_pages_def fresh_pages_def)
  from init_loop [OF this assms(2,3,4), of end_sym] show ?thesis
    by (auto simp: page_init_def prog_simps)
qed

end
