(* ===== verification/PmapTables.thy ===== *)
theory PmapTables
  imports PmapInit
begin

text \<open>
  The two-level page tables of \<^verbatim>\<open>kern/pmap.c\<close> against an abstract address space. The view of
  a page directory is the function \<open>entry s pd\<close> that gives, for a virtual address, the page
  table entry the hardware would use. \<open>pgdir_walk\<close> finds that entry and may add an empty table
  without changing the view, \<open>page_insert\<close>, \<open>page_remove\<close> and \<open>boot_map_region\<close> change the view
  at the pages they name and nowhere else, and \<open>user_mem_check\<close> decides a property of it.
\<close>

section \<open>Page table entries\<close>

abbreviation (input) present :: "u32 \<Rightarrow> bool" where
  "present pte \<equiv> pte AND PTE_P \<noteq> 0"

abbreviation (input) frame_of :: "u32 \<Rightarrow> nat" where
  "frame_of pte \<equiv> unat (PGNUM pte)"

abbreviation (input) UVPT_index :: nat where "UVPT_index \<equiv> 957"

lemma UVPT_index: "unat (PDX UVPT) = UVPT_index"
  by (simp add: PDX_def)

lemma and_one_cases: "(w :: u32) AND 1 = 0 \<or> w AND 1 = 1"
  by (simp add: and_one_eq mod_2_eq_odd)

lemma present_iff: "present (w :: u32) \<longleftrightarrow> w AND 1 = 1"
  using and_one_cases [of w] by auto

lemma PGNUM_or_flags: "PGNUM (page2pa pp OR flags) = PGNUM (page2pa pp) OR drop_bit 12 flags"
  by (simp add: PGNUM_def drop_bit_or)

lemma frame_of_entry:
  assumes "pp < 1048576" and "drop_bit 12 flags = 0"
  shows "frame_of (page2pa pp OR flags) = pp"
  using assms by (simp add: PGNUM_or_flags PGNUM_page2pa)

lemma PGNUM_clear_flags: "PGNUM (pte AND NOT 0xFFF) = PGNUM pte"
  unfolding mask_numerals PGNUM_def by (rule bit_word_eqI) (auto simp: bit_simps dest: bit_imp_le_length)

lemma PGNUM_clear_flags_neg [simp]: "PGNUM (pte AND - 4096) = PGNUM pte"
  using PGNUM_clear_flags [of pte] by simp

lemma and_one_odd: "(w :: u32) AND 1 = of_bool (odd w)"
  by (simp add: and_one_eq mod_2_eq_odd)

lemma odd_or_word: "odd (v OR w) \<longleftrightarrow> odd v \<or> odd (w :: u32)"
  by (simp add: even_or_iff)

lemma present_or_P: "present (w OR perm OR PTE_P)" "present (w OR PTE_P OR PTE_W OR PTE_U)"
  by (simp_all add: and_one_odd odd_or_word)

lemma PGNUM_page_index:
  "PGNUM va = PGNUM va' \<longleftrightarrow> unat (PDX va) = unat (PDX va') \<and> unat (PTX va) = unat (PTX va')"
proof -
  have "PDX va = take_bit 10 (drop_bit 10 (PGNUM va))" "PTX va = take_bit 10 (PGNUM va)" for va :: u32
    by (simp_all add: PDX_alt PTX_alt PGNUM_def)
  then show ?thesis by (metis PGNUM_split word_unat_eq_iff)
qed

section \<open>The view of a page directory\<close>

definition pde_at :: "kstate \<Rightarrow> nat \<Rightarrow> u32 \<Rightarrow> u32" where
  "pde_at s pd va = pmem s pd (unat (PDX va))"

definition entry :: "kstate \<Rightarrow> nat \<Rightarrow> u32 \<Rightarrow> u32" where
  "entry s pd va =
     (if present (pde_at s pd va) then pmem s (frame_of (pde_at s pd va)) (unat (PTX va)) else 0)"

definition table_slots :: "kstate \<Rightarrow> nat \<Rightarrow> nat set" where
  "table_slots s pd = {i. i < 1024 \<and> i \<noteq> UVPT_index \<and> present (pmem s pd i)}"

definition tables :: "kstate \<Rightarrow> nat \<Rightarrow> nat set" where
  "tables s pd = (\<lambda>i. frame_of (pmem s pd i)) ` table_slots s pd"

text \<open>
  \<open>pgdir_ok s pd xs\<close>: \<open>xs\<close> is the free list, the directory and its tables are pages of the
  machine that are not free, no two slots share a table, and the slot of \<open>UVPT\<close>, when used, holds
  the directory itself.
\<close>

definition pgdir_ok :: "kstate \<Rightarrow> nat \<Rightarrow> nat list \<Rightarrow> bool" where
  "pgdir_ok s pd xs \<longleftrightarrow>
     free_pages s xs \<and> machine_ok s \<and> pd < npages s \<and> pd \<notin> set xs \<and>
     (\<forall>f \<in> tables s pd. f < npages s \<and> f \<notin> set xs \<and> f \<noteq> pd) \<and>
     inj_on (\<lambda>i. frame_of (pmem s pd i)) (table_slots s pd) \<and>
     (present (pmem s pd UVPT_index) \<longrightarrow> frame_of (pmem s pd UVPT_index) = pd)"

lemma pgdir_okD:
  assumes "pgdir_ok s pd xs"
  shows "free_pages s xs" "machine_ok s" "pd < npages s" "pd \<notin> set xs" "npages s \<le> 1048576"
    and "\<And>f. f \<in> tables s pd \<Longrightarrow> f < npages s \<and> f \<notin> set xs \<and> f \<noteq> pd"
    and "inj_on (\<lambda>i. frame_of (pmem s pd i)) (table_slots s pd)"
    and "present (pmem s pd UVPT_index) \<Longrightarrow> frame_of (pmem s pd UVPT_index) = pd"
  using assms by (auto simp: pgdir_ok_def machine_ok_def)

lemma pde_frame:
  assumes "pgdir_ok s pd xs" and "present (pde_at s pd va)"
  shows "frame_of (pde_at s pd va) < npages s" "frame_of (pde_at s pd va) \<notin> set xs"
    and "unat (PDX va) \<noteq> UVPT_index \<Longrightarrow> frame_of (pde_at s pd va) \<in> tables s pd"
proof -
  show t: "unat (PDX va) \<noteq> UVPT_index \<Longrightarrow> frame_of (pde_at s pd va) \<in> tables s pd"
    using assms(2) by (auto simp: tables_def table_slots_def pde_at_def)
  show "frame_of (pde_at s pd va) < npages s" "frame_of (pde_at s pd va) \<notin> set xs"
    using t pgdir_okD [OF assms(1)] assms(2) by (cases "unat (PDX va) = UVPT_index", auto simp: pde_at_def)+
qed

lemma pte_ptr_run:
  assumes "frame_of (pde_at s pd va) < npages s"
  shows "run (pte_ptr pd va) s = (Ret (Some (frame_of (pde_at s pd va), unat (PTX va))), s)"
  using assms
  by (simp add: pte_ptr_def prog_simps pde_of_def pde_at_def PGNUM_clear_flags kva_frame_def)

lemma walk_present:
  assumes "pgdir_ok s pd xs" and "present (pde_at s pd va)"
  shows "run (pgdir_walk pd va create) s
           = (Ret (Some (frame_of (pde_at s pd va), unat (PTX va))), s)"
  using assms pte_ptr_run [of s pd va] pde_frame(1) [OF assms]
  by (simp add: pgdir_walk_def prog_simps pde_of_def pde_at_def)

lemma walk_lookup:
  assumes "pgdir_ok s pd xs"
  shows "run (pgdir_walk pd va 0) s
           = (Ret (if present (pde_at s pd va)
                   then Some (frame_of (pde_at s pd va), unat (PTX va)) else None), s)"
proof (cases "present (pde_at s pd va)")
  case False
  then show ?thesis by (simp add: pgdir_walk_def prog_simps pde_of_def pde_at_def)
qed (use walk_present [OF assms] in simp)

lemma walk_full:
  assumes "pgdir_ok s pd []" and "\<not> present (pde_at s pd va)"
  shows "run (pgdir_walk pd va 1) s = (Ret None, s)"
  using assms page_alloc_empty [of s 1]
  by (simp add: pgdir_walk_def prog_simps pde_of_def pde_at_def pgdir_ok_def)

section \<open>A new table\<close>

definition table_pde :: "nat \<Rightarrow> u32" where
  "table_pde x = (page2pa x OR PTE_P OR PTE_W OR PTE_U)"

lemma present_table_pde [simp]: "table_pde x AND 1 \<noteq> 0"
  unfolding table_pde_def by (rule present_or_P)

lemma frame_of_table_pde [simp]:
  assumes "x < 1048576"
  shows "frame_of (table_pde x) = x"
proof -
  have "drop_bit 12 (PTE_P OR PTE_W OR PTE_U) = (0 :: u32)" by simp
  from frame_of_entry [OF assms this] show ?thesis by (simp add: table_pde_def or.assoc)
qed

definition new_table :: "nat \<Rightarrow> nat \<Rightarrow> u32 \<Rightarrow> kstate \<Rightarrow> kstate" where
  "new_table x pd va s =
     store_word pd (unat (PDX va)) (table_pde x)
       (upd_page x (\<lambda>p. p\<lparr>pp_ref := pp_ref p + 1\<rparr>) (taken x True s))"

lemma walk_create:
  assumes ok: "pgdir_ok s pd (x # xs)" and np: "\<not> present (pde_at s pd va)"
  shows "run (pgdir_walk pd va 1) s
           = (Ret (Some (x, unat (PTX va))), new_table x pd va s)"
proof -
  let ?u = "new_table x pd va s"
  have x: "x < npages s" "x < 1048576" "x \<noteq> pd"
    using pgdir_okD [OF ok] by (auto simp: free_pages_def)
  have alloc: "run (page_alloc 1) s = (Ret (Some x), taken x True s)"
    using page_alloc_run [of s x xs 1] pgdir_okD [OF ok] by simp
  have pde: "pde_at ?u pd va = table_pde x"
    by (simp add: pde_at_def new_table_def)
  then have f: "frame_of (pde_at ?u pd va) = x"
    using x(2) by simp
  have "npages ?u = npages s" by (simp add: new_table_def)
  then have "run (pte_ptr pd va) ?u = (Ret (Some (x, unat (PTX va))), ?u)"
    using pte_ptr_run [of ?u pd va] f x(1) by simp
  then show ?thesis
    using alloc np by (simp add: pgdir_walk_def prog_simps pde_of_def pde_at_def new_table_def
        table_pde_def)
qed

lemma new_table_sel [simp]:
  "npages (new_table x pd va s) = npages s" "envs (new_table x pd va s) = envs s"
  "cpus (new_table x pd va s) = cpus s" "cpunum (new_table x pd va s) = cpunum s"
  "kern_pgdir (new_table x pd va s) = kern_pgdir s"
  "pp_ref (pages (new_table x pd va s) y)
     = (if y = x then pp_ref (pages s y) + 1 else pp_ref (pages s y))"
  by (simp_all add: new_table_def)

lemma new_table_pmem:
  "x \<noteq> pd \<Longrightarrow> pmem (new_table x pd va s) f
     = (if f = pd then (pmem s pd)(unat (PDX va) := table_pde x)
        else if f = x then (\<lambda>_. 0) else pmem s f)"
  by (simp add: new_table_def)

text \<open>Slots, tables and the view after the new table was entered.\<close>

lemma new_table_slot:
  "x \<noteq> pd \<Longrightarrow> pmem (new_table x pd va s) pd i
     = (if i = unat (PDX va) then table_pde x else pmem s pd i)"
  by (simp add: new_table_pmem)

lemma new_table_old_slot:
  "x \<noteq> pd \<Longrightarrow> i \<noteq> unat (PDX va) \<Longrightarrow> pmem (new_table x pd va s) pd i = pmem s pd i"
  by (simp add: new_table_pmem)

lemma new_table_slots:
  assumes "x \<noteq> pd" and "x < 1048576" and "unat (PDX va) \<noteq> UVPT_index"
  shows "table_slots (new_table x pd va s) pd = insert (unat (PDX va)) (table_slots s pd)"
  using assms by (auto simp: table_slots_def new_table_slot)

lemma new_table_tables:
  assumes "x \<noteq> pd" and "x < 1048576" and "unat (PDX va) \<noteq> UVPT_index"
    and "\<not> present (pde_at s pd va)"
  shows "tables (new_table x pd va s) pd = insert x (tables s pd)"
proof -
  have "unat (PDX va) \<notin> table_slots s pd"
    using assms(4) by (simp add: table_slots_def pde_at_def)
  then have "(\<lambda>i. frame_of (pmem (new_table x pd va s) pd i)) ` table_slots s pd = tables s pd"
    unfolding tables_def
    by (intro image_cong refl) (metis new_table_old_slot assms(1))
  then show ?thesis
    using assms by (simp add: tables_def new_table_slots new_table_slot)
qed

lemma new_table_free:
  assumes "free_pages s (x # xs)"
  shows "free_pages (new_table x pd va s) xs"
proof -
  have "x \<notin> set xs" using free_pages_distinct [OF assms] by simp
  then have "free_pages (upd_page x (\<lambda>p. p\<lparr>pp_ref := pp_ref p + 1\<rparr>) (taken x True s)) xs"
    by (intro free_pages_ref taken_free_pages assms) simp_all
  then show ?thesis by (subst free_pages_cong [rotated 3]) (simp_all add: new_table_def)
qed

lemma new_table_ok:
  assumes ok: "pgdir_ok s pd (x # xs)" and np: "\<not> present (pde_at s pd va)"
    and uvpt: "unat (PDX va) \<noteq> UVPT_index"
  shows "pgdir_ok (new_table x pd va s) pd xs"
proof -
  have x: "x < npages s" "x < 1048576" "x \<noteq> pd" "x \<notin> set xs" "x \<notin> tables s pd"
    using pgdir_okD [OF ok] free_pages_distinct [of s "x # xs"] by (auto simp: free_pages_def)
  have new: "unat (PDX va) \<notin> table_slots s pd"
    using np by (simp add: table_slots_def pde_at_def)
  have old: "frame_of (pmem (new_table x pd va s) pd i) = frame_of (pmem s pd i)"
    if "i \<in> table_slots s pd" for i
    using that new x by (metis new_table_old_slot)
  then have "inj_on (\<lambda>i. frame_of (pmem (new_table x pd va s) pd i)) (table_slots s pd)"
    using pgdir_okD(7) [OF ok] by (simp cong: inj_on_cong)
  moreover have fx: "frame_of (pmem (new_table x pd va s) pd (unat (PDX va))) = x"
    using x by (simp add: new_table_slot)
  moreover have "x \<noteq> frame_of (pmem (new_table x pd va s) pd i)" if "i \<in> table_slots s pd" for i
    using that old x by (auto simp: tables_def)
  ultimately have "inj_on (\<lambda>i. frame_of (pmem (new_table x pd va s) pd i))
      (insert (unat (PDX va)) (table_slots s pd))"
    using fx by (auto simp: inj_on_insert)
  then show ?thesis
    using pgdir_okD [OF ok] x uvpt np new_table_free [of s x xs pd va]
    by (auto simp: pgdir_ok_def machine_ok_def new_table_tables new_table_slots new_table_slot)
qed

lemma new_table_entry:
  assumes ok: "pgdir_ok s pd (x # xs)" and np: "\<not> present (pde_at s pd va)"
    and uvpt: "unat (PDX va) \<noteq> UVPT_index" "unat (PDX va') \<noteq> UVPT_index"
  shows "entry (new_table x pd va s) pd va' = entry s pd va'"
proof (cases "unat (PDX va') = unat (PDX va)")
  case True
  have x: "x < 1048576" "x \<noteq> pd" using pgdir_okD [OF ok] by (auto simp: free_pages_def)
  then show ?thesis
    using np True by (simp add: entry_def pde_at_def new_table_slot new_table_pmem)
next
  case False
  have x: "x < 1048576" "x \<noteq> pd" "x \<notin> tables s pd"
    using pgdir_okD [OF ok] by (auto simp: free_pages_def)
  have "present (pde_at s pd va') \<Longrightarrow>
      frame_of (pde_at s pd va') \<noteq> x \<and> frame_of (pde_at s pd va') \<noteq> pd"
    using pde_frame(3) [OF ok _ uvpt(2)] pgdir_okD(6) [OF ok] x by metis
  then show ?thesis
    using False x by (simp add: entry_def pde_at_def new_table_slot new_table_pmem)
qed

section \<open>Writing an entry\<close>

lemma store_entry_ok:
  assumes ok: "pgdir_ok s pd xs" and P: "present (pde_at s pd va)"
    and uvpt: "unat (PDX va) \<noteq> UVPT_index"
  shows "pgdir_ok (store_word (frame_of (pde_at s pd va)) j w s) pd xs"
proof -
  have "frame_of (pde_at s pd va) \<noteq> pd"
    using pde_frame(3) [OF ok P uvpt] pgdir_okD(6) [OF ok] by blast
  then have row: "pmem (store_word (frame_of (pde_at s pd va)) j w s) pd = pmem s pd" by simp
  have "free_pages (store_word (frame_of (pde_at s pd va)) j w s) xs"
    using pgdir_okD(1) [OF ok] by (subst free_pages_cong [of _ s]) simp_all
  then show ?thesis
    using ok row by (simp add: pgdir_ok_def tables_def table_slots_def machine_ok_def)
qed

lemma store_entry_view:
  assumes ok: "pgdir_ok s pd xs" and P: "present (pde_at s pd va)"
    and uvpt: "unat (PDX va) \<noteq> UVPT_index" "unat (PDX va') \<noteq> UVPT_index"
  shows "entry (store_word (frame_of (pde_at s pd va)) (unat (PTX va)) w s) pd va'
           = (if PGNUM va' = PGNUM va then w else entry s pd va')"
proof -
  let ?f = "frame_of (pde_at s pd va)"
  have "?f \<noteq> pd" using pde_frame(3) [OF ok P uvpt(1)] pgdir_okD(6) [OF ok] by blast
  then have row: "pde_at (store_word ?f (unat (PTX va)) w s) pd va' = pde_at s pd va'"
    by (simp add: pde_at_def)
  show ?thesis
  proof (cases "present (pde_at s pd va') \<and> frame_of (pde_at s pd va') = ?f")
    case True
    then have "unat (PDX va') = unat (PDX va)"
      using inj_onD [OF pgdir_okD(7) [OF ok]] P uvpt by (simp add: pde_at_def table_slots_def)
    then show ?thesis using True row
      by (auto simp: entry_def PGNUM_page_index pde_at_def)
  next
    case False
    then have "PGNUM va' \<noteq> PGNUM va" using P by (auto simp: PGNUM_page_index pde_at_def)
    then show ?thesis using False row by (auto simp: entry_def)
  qed
qed

section \<open>\<open>page_lookup\<close> and \<open>page_remove\<close>\<close>

definition data_page :: "kstate \<Rightarrow> nat \<Rightarrow> nat list \<Rightarrow> nat \<Rightarrow> bool" where
  "data_page s pd xs pp \<longleftrightarrow> pp < npages s \<and> pp \<notin> set xs \<and> pp \<noteq> pd \<and> pp \<notin> tables s pd"

text \<open>The page mapped at \<open>va\<close>, if any, is a data page.\<close>

definition mapped_ok :: "kstate \<Rightarrow> nat \<Rightarrow> nat list \<Rightarrow> u32 \<Rightarrow> bool" where
  "mapped_ok s pd xs va \<longleftrightarrow>
     (present (entry s pd va) \<longrightarrow> data_page s pd xs (frame_of (entry s pd va)))"

lemma lookup_run:
  assumes "pgdir_ok s pd xs" and "present (entry s pd va) \<Longrightarrow> frame_of (entry s pd va) < npages s"
  shows "run (page_lookup pd va) s
     = (Ret (if present (entry s pd va)
             then Some (frame_of (entry s pd va), (frame_of (pde_at s pd va), unat (PTX va)))
             else None), s)"
proof (cases "present (entry s pd va)")
  case True
  then have P: "present (pde_at s pd va)" by (auto simp: entry_def split: if_splits)
  then have e: "pmem s (frame_of (pde_at s pd va)) (unat (PTX va)) = entry s pd va"
    by (simp add: entry_def)
  show ?thesis
    using walk_lookup [OF assms(1), of va] assms(2) P e True
    by (simp add: page_lookup_def prog_simps load_pte_def)
next
  case False
  then show ?thesis
    using walk_lookup [OF assms(1), of va]
    by (auto simp: page_lookup_def prog_simps load_pte_def entry_def split: if_splits)
qed

lemma decref_ok:
  assumes ok: "pgdir_ok s pd xs" and x: "data_page s pd xs x"
  shows "pgdir_ok (decref x s) pd (if pp_ref (pages s x) = 1 then x # xs else xs)"
  using ok x decref_free_pages [of s xs x]
  by (auto simp: pgdir_ok_def data_page_def tables_def table_slots_def machine_ok_def)

lemma same_memory_view:
  assumes "pmem t = pmem s"
  shows "entry t pd va = entry s pd va" "pde_at t pd va = pde_at s pd va"
    and "tables t pd = tables s pd" "table_slots t pd = table_slots s pd"
  by (simp_all add: entry_def pde_at_def tables_def table_slots_def assms)

lemma same_ok:
  assumes "pmem t = pmem s" "pages t = pages s" "npages t = npages s"
    and "page_free_list t = page_free_list s"
  shows "pgdir_ok t pd xs = pgdir_ok s pd xs"
  using assms by (simp add: pgdir_ok_def free_pages_def machine_ok_def tables_def table_slots_def)

lemma tlb_invalidate_run:
  "\<exists>l. run (tlb_invalidate pd va) s = (Ret (), s\<lparr>invlpgs := l\<rparr>)"
proof (cases "case curenv s of None \<Rightarrow> True | Some e \<Rightarrow> env_pgdir (envs s e) = Some pd")
  case True
  then show ?thesis
    by (intro exI [of _ "invlpgs s @ [va]"]) (simp add: tlb_invalidate_def prog_simps invlpg_def)
next
  case False
  have "s\<lparr>invlpgs := invlpgs s\<rparr> = s" by simp
  then show ?thesis using False
    by (intro exI [of _ "invlpgs s"]) (simp add: tlb_invalidate_def prog_simps)
qed

lemma remove_absent:
  assumes "pgdir_ok s pd xs" and "\<not> present (entry s pd va)"
  shows "run (page_remove pd va) s = (Ret (), s)"
  using lookup_run [OF assms(1), of va] assms(2) by (simp add: page_remove_def prog_simps)

lemma store_entry_tables:
  assumes ok: "pgdir_ok s pd xs" and P: "present (pde_at s pd va)"
    and uvpt: "unat (PDX va) \<noteq> UVPT_index"
  shows "pde_at (store_word (frame_of (pde_at s pd va)) j w s) pd va' = pde_at s pd va'"
    and "tables (store_word (frame_of (pde_at s pd va)) j w s) pd = tables s pd"
    and "table_slots (store_word (frame_of (pde_at s pd va)) j w s) pd = table_slots s pd"
proof -
  have "frame_of (pde_at s pd va) \<noteq> pd"
    using pde_frame(3) [OF ok P uvpt] pgdir_okD(6) [OF ok] by blast
  then show "pde_at (store_word (frame_of (pde_at s pd va)) j w s) pd va' = pde_at s pd va'"
    and "tables (store_word (frame_of (pde_at s pd va)) j w s) pd = tables s pd"
    and "table_slots (store_word (frame_of (pde_at s pd va)) j w s) pd = table_slots s pd"
    by (simp_all add: pde_at_def tables_def table_slots_def)
qed

lemma entry_present_pde: "present (entry s pd va) \<Longrightarrow> present (pde_at s pd va)"
  by (auto simp: entry_def split: if_splits)

lemma remove_present:
  assumes ok: "pgdir_ok s pd xs" and uvpt: "unat (PDX va) \<noteq> UVPT_index"
    and m: "mapped_ok s pd xs va" and P: "present (entry s pd va)"
  defines "old \<equiv> frame_of (entry s pd va)"
  shows "\<exists>l. run (page_remove pd va) s
    = (Ret (), (decref old (store_word (frame_of (pde_at s pd va)) (unat (PTX va)) 0 s))\<lparr>invlpgs := l\<rparr>)"
proof -
  let ?t = "store_word (frame_of (pde_at s pd va)) (unat (PTX va)) 0 s"
  have old: "data_page s pd xs old" using m P by (simp add: mapped_ok_def old_def)
  have "run (page_lookup pd va) s = (Ret (Some (old, (frame_of (pde_at s pd va), unat (PTX va)))), s)"
    using lookup_run [OF ok, of va] old P by (simp add: data_page_def old_def)
  moreover have "free_pages ?t xs"
    using pgdir_okD(1) [OF ok] by (subst free_pages_cong [of _ s]) simp_all
  then have "run (page_decref old) ?t = (Ret (), decref old ?t)"
    using old page_decref_run [of ?t xs old] by (simp add: data_page_def)
  ultimately show ?thesis
    using tlb_invalidate_run [of pd va "decref old ?t"]
    by (auto simp: page_remove_def prog_simps store_pte_def)
qed

text \<open>\<open>page_remove\<close> on the view, the free list and the reference counts.\<close>

lemma remove_spec:
  assumes ok: "pgdir_ok s pd xs" and uvpt: "unat (PDX va) \<noteq> UVPT_index"
    and m: "mapped_ok s pd xs va" and P: "present (entry s pd va)"
  defines "old \<equiv> frame_of (entry s pd va)"
  shows "\<exists>t. run (page_remove pd va) s = (Ret (), t)
    \<and> pgdir_ok t pd (if pp_ref (pages s old) = 1 then old # xs else xs)
    \<and> (\<forall>va'. unat (PDX va') \<noteq> UVPT_index \<longrightarrow>
         entry t pd va' = (if PGNUM va' = PGNUM va then 0 else entry s pd va'))
    \<and> (\<forall>y. pp_ref (pages t y) = (if y = old then pp_ref (pages s y) - 1 else pp_ref (pages s y)))
    \<and> pde_at t pd va = pde_at s pd va \<and> tables t pd = tables s pd \<and> table_slots t pd = table_slots s pd
    \<and> npages t = npages s \<and> envs t = envs s \<and> cpus t = cpus s \<and> cpunum t = cpunum s"
proof -
  let ?u = "store_word (frame_of (pde_at s pd va)) (unat (PTX va)) 0 s"
  obtain l where run: "run (page_remove pd va) s = (Ret (), (decref old ?u)\<lparr>invlpgs := l\<rparr>)"
    using remove_present [OF ok uvpt m P] unfolding old_def by blast
  have Pd: "present (pde_at s pd va)" by (rule entry_present_pde [OF P])
  have uok: "pgdir_ok ?u pd xs" by (rule store_entry_ok [OF ok Pd uvpt])
  have "data_page ?u pd xs old"
    using m P store_entry_tables(2) [OF ok Pd uvpt] by (simp add: mapped_ok_def data_page_def old_def)
  then have "pgdir_ok (decref old ?u) pd (if pp_ref (pages s old) = 1 then old # xs else xs)"
    using decref_ok [OF uok] by simp
  then have "pgdir_ok ((decref old ?u)\<lparr>invlpgs := l\<rparr>) pd (if pp_ref (pages s old) = 1 then old # xs else xs)"
    by (subst same_ok [of _ "decref old ?u"]) simp_all
  moreover have pm: "pmem ((decref old ?u)\<lparr>invlpgs := l\<rparr>) = pmem ?u" by simp
  note view = same_memory_view [OF pm]
  have "entry ((decref old ?u)\<lparr>invlpgs := l\<rparr>) pd va'
      = (if PGNUM va' = PGNUM va then 0 else entry s pd va')" if "unat (PDX va') \<noteq> UVPT_index" for va'
    unfolding view by (rule store_entry_view [OF ok Pd uvpt that])
  moreover have "pp_ref (pages ((decref old ?u)\<lparr>invlpgs := l\<rparr>) y)
      = (if y = old then pp_ref (pages s y) - 1 else pp_ref (pages s y))" for y
    by (simp add: pp_ref_decref)
  moreover have "pde_at ((decref old ?u)\<lparr>invlpgs := l\<rparr>) pd va = pde_at s pd va"
      "tables ((decref old ?u)\<lparr>invlpgs := l\<rparr>) pd = tables s pd"
      "table_slots ((decref old ?u)\<lparr>invlpgs := l\<rparr>) pd = table_slots s pd"
    unfolding view by (rule store_entry_tables [OF ok Pd uvpt])+
  moreover have "npages ((decref old ?u)\<lparr>invlpgs := l\<rparr>) = npages s"
      "envs ((decref old ?u)\<lparr>invlpgs := l\<rparr>) = envs s" "cpus ((decref old ?u)\<lparr>invlpgs := l\<rparr>) = cpus s"
      "cpunum ((decref old ?u)\<lparr>invlpgs := l\<rparr>) = cpunum s"
    by simp_all
  ultimately show ?thesis using run by blast
qed

end
