(* ===== verification/PmapSpace.thy ===== *)
theory PmapSpace
  imports PmapTables
begin

text \<open>
  The operations of \<^verbatim>\<open>kern/pmap.c\<close> that change or inspect a whole address space, over the
  view of \<open>PmapTables\<close>: \<open>page_insert\<close>, \<open>boot_map_region\<close> and \<open>user_mem_check\<close>.
\<close>

section \<open>\<open>page_insert\<close>\<close>

text \<open>
  The slots without a table: as long as there are that many free pages, no walk fails. Slots of
  \<open>UVPT\<close> are left out: nothing is ever mapped there one page at a time.
\<close>

definition missing_tables :: "kstate \<Rightarrow> nat \<Rightarrow> nat" where
  "missing_tables s pd = card ({i. i < 1024 \<and> i \<noteq> UVPT_index} - table_slots s pd)"

lemma missing_tables_pos:
  assumes "\<not> present (pde_at s pd va)" and "unat (PDX va) \<noteq> UVPT_index"
  shows "0 < missing_tables s pd"
proof -
  have "unat (PDX va) \<in> {i. i < 1024 \<and> i \<noteq> UVPT_index} - table_slots s pd"
    using assms by (simp add: table_slots_def pde_at_def)
  moreover have "finite ({i. i < 1024 \<and> i \<noteq> UVPT_index} - table_slots s pd)" by simp
  ultimately show ?thesis unfolding missing_tables_def by (metis card_gt_0_iff empty_iff)
qed

lemma missing_tables_new:
  assumes "x \<noteq> pd" and "x < 1048576" and "unat (PDX va) \<noteq> UVPT_index"
    and "\<not> present (pde_at s pd va)"
  shows "missing_tables (new_table x pd va s) pd = missing_tables s pd - 1"
proof -
  have "unat (PDX va) \<in> {i. i < 1024 \<and> i \<noteq> UVPT_index} - table_slots s pd"
    using assms by (simp add: table_slots_def pde_at_def)
  then show ?thesis
    unfolding missing_tables_def new_table_slots [OF assms(1-3)]
    by (subst Diff_insert) (simp add: card_Diff_singleton)
qed

text \<open>What a walk that may create a table leaves behind, whichever way it went.\<close>

definition walked :: "kstate \<Rightarrow> nat \<Rightarrow> nat list \<Rightarrow> u32 \<Rightarrow> kstate \<Rightarrow> nat list \<Rightarrow> bool" where
  "walked s pd xs va t ys \<longleftrightarrow>
     pgdir_ok t pd ys \<and> present (pde_at t pd va) \<and>
     (\<forall>va'. unat (PDX va') \<noteq> UVPT_index \<longrightarrow> entry t pd va' = entry s pd va') \<and>
     (\<forall>y. y \<notin> set xs \<longrightarrow> pp_ref (pages t y) = pp_ref (pages s y)) \<and>
     (missing_tables s pd \<le> length xs \<longrightarrow> missing_tables t pd \<le> length ys) \<and>
     set ys \<subseteq> set xs \<and> tables s pd \<subseteq> tables t pd \<and> tables t pd \<subseteq> tables s pd \<union> set xs \<and>
     npages t = npages s \<and> envs t = envs s \<and> cpus t = cpus s \<and> cpunum t = cpunum s"

lemma walk_create_spec:
  assumes ok: "pgdir_ok s pd xs" and uvpt: "unat (PDX va) \<noteq> UVPT_index"
    and avail: "present (pde_at s pd va) \<or> xs \<noteq> []"
  shows "\<exists>t ys. run (pgdir_walk pd va 1) s
           = (Ret (Some (frame_of (pde_at t pd va), unat (PTX va))), t) \<and> walked s pd xs va t ys"
proof (cases "present (pde_at s pd va)")
  case True
  then show ?thesis
    using walk_present [OF ok True] ok by (intro exI [of _ s] exI [of _ xs]) (simp add: walked_def)
next
  case False
  then obtain x ys where xs: "xs = x # ys" using avail by (cases xs) auto
  note ok' = ok [unfolded xs]
  have x: "x < 1048576" "x \<noteq> pd" using pgdir_okD [OF ok'] by (auto simp: free_pages_def)
  have pde: "pde_at (new_table x pd va s) pd va = table_pde x"
    using x by (simp add: pde_at_def new_table_slot)
  have "walked s pd xs va (new_table x pd va s) ys"
    using new_table_ok [OF ok' False uvpt] new_table_entry [OF ok' False uvpt]
      new_table_tables [OF x(2,1) uvpt False] x pde xs
      missing_tables_new [OF x(2,1) uvpt False]
    by (auto simp: walked_def)
  then show ?thesis
    using walk_create [OF ok' False] x pde by (intro exI [of _ "new_table x pd va s"] exI [of _ ys]) simp
qed

lemma walked_mapped_ok:
  assumes "walked s pd xs va t ys" and "mapped_ok s pd xs va" and "unat (PDX va) \<noteq> UVPT_index"
  shows "mapped_ok t pd ys va"
  using assms unfolding walked_def mapped_ok_def data_page_def by (auto simp: subset_iff)

lemma walked_data_page:
  assumes "walked s pd xs va t ys" and "data_page s pd xs pp"
  shows "data_page t pd ys pp"
  using assms unfolding walked_def data_page_def by (auto simp: subset_iff)

text \<open>Raising the reference count of a page in use changes nothing the tables depend on.\<close>

lemma raise_ref:
  assumes ok: "pgdir_ok s pd xs" and pp: "pp \<notin> set xs"
  defines "t \<equiv> upd_page pp (\<lambda>p. p\<lparr>pp_ref := pp_ref p + 1\<rparr>) s"
  shows "pgdir_ok t pd xs" "entry t pd va = entry s pd va" "pde_at t pd va = pde_at s pd va"
    and "tables t pd = tables s pd"
    and "pp_ref (pages t y) = (if y = pp then pp_ref (pages s y) + 1 else pp_ref (pages s y))"
    and "table_slots t pd = table_slots s pd"
proof -
  have "free_pages t xs"
    unfolding t_def using pgdir_okD(1) [OF ok] pp by (intro free_pages_ref) simp_all
  then show "pgdir_ok t pd xs"
    using ok by (simp add: t_def pgdir_ok_def machine_ok_def tables_def table_slots_def)
  show "entry t pd va = entry s pd va" "pde_at t pd va = pde_at s pd va" "tables t pd = tables s pd"
      "table_slots t pd = table_slots s pd"
    by (simp_all add: t_def entry_def pde_at_def tables_def table_slots_def)
  show "pp_ref (pages t y) = (if y = pp then pp_ref (pages s y) + 1 else pp_ref (pages s y))"
    by (simp add: t_def)
qed

definition insert_post :: "kstate \<Rightarrow> nat \<Rightarrow> nat \<Rightarrow> u32 \<Rightarrow> u32 \<Rightarrow> kstate \<Rightarrow> nat list \<Rightarrow> bool" where
  "insert_post s pd pp va perm t zs \<longleftrightarrow>
     pgdir_ok t pd zs \<and> data_page t pd zs pp \<and>
     (\<forall>va'. unat (PDX va') \<noteq> UVPT_index \<longrightarrow>
        entry t pd va' = (if PGNUM va' = PGNUM va then page2pa pp OR perm OR PTE_P
                          else entry s pd va')) \<and>
     (\<forall>y. pp_ref (pages t y) =
        pp_ref (pages s y) + (if y = pp then 1 else 0)
        - (if present (entry s pd va) \<and> y = frame_of (entry s pd va) then 1 else 0)) \<and>
     tables t pd = tables s pd \<and> missing_tables t pd = missing_tables s pd \<and>
     npages t = npages s \<and> envs t = envs s \<and> cpus t = cpus s \<and> cpunum t = cpunum s"

text \<open>The part of \<open>page_insert\<close> after the walk.\<close>

definition insert_tail :: "nat \<Rightarrow> nat \<Rightarrow> u32 \<Rightarrow> u32 \<Rightarrow> nat \<times> nat \<Rightarrow> u32 km" where
  "insert_tail pgdir pp va perm ptep =
     thenP (modify (upd_page pp (\<lambda>p. p\<lparr>pp_ref := pp_ref p + 1\<rparr>)))
     (bindP (load_pte ptep) (\<lambda>pte.
      if pte AND PTE_P = 1
      then thenP (page_remove pgdir va)
           (thenP (store_pte ptep (page2pa pp OR perm OR PTE_P)) (ret 0))
      else if pte AND PTE_P = 0
      then thenP (store_pte ptep (page2pa pp OR perm OR PTE_P)) (ret 0)
      else ret (- E_NO_MEM)))"

lemma page_insert_tail:
  "run (page_insert pd pp va perm) s =
     (case run (pgdir_walk pd va 1) s of
        (Ret None, t) \<Rightarrow> (Ret (- E_NO_MEM), t)
      | (Ret (Some p), t) \<Rightarrow> run (insert_tail pd pp va perm p) t
      | (Stop e, t) \<Rightarrow> (Stop e, t))"
  by (simp add: page_insert_def insert_tail_def run_bindP run_option run_ret
      split: prod.splits outcome.splits option.splits)

lemma insert_tail_spec:
  assumes ok: "pgdir_ok s pd xs" and uvpt: "unat (PDX va) \<noteq> UVPT_index"
    and Pd: "present (pde_at s pd va)" and m: "mapped_ok s pd xs va" and pp: "data_page s pd xs pp"
    and ref: "present (entry s pd va) \<Longrightarrow> frame_of (entry s pd va) = pp \<Longrightarrow> pp_ref (pages s pp) \<noteq> 0"
  shows "\<exists>t zs. run (insert_tail pd pp va perm (frame_of (pde_at s pd va), unat (PTX va))) s
            = (Ret 0, t) \<and> insert_post s pd pp va perm t zs \<and> length xs \<le> length zs"
proof -
  let ?ptep = "(frame_of (pde_at s pd va), unat (PTX va))"
  let ?w = "page2pa pp OR perm OR PTE_P"
  define r where "r = upd_page pp (\<lambda>p. p\<lparr>pp_ref := pp_ref p + 1\<rparr>) s"
  let ?old = "frame_of (entry s pd va)"
  have ppx: "pp \<notin> set xs" using pp by (simp add: data_page_def)
  note R = raise_ref [OF ok ppx, folded r_def]
  have rsel: "npages r = npages s" "envs r = envs s" "cpus r = cpus s" "cpunum r = cpunum s"
      "pmem r = pmem s"
    by (simp_all add: r_def)
  have e: "pmem r (fst ?ptep) (snd ?ptep) = entry s pd va" using Pd rsel by (simp add: entry_def)
  show ?thesis
  proof (cases "present (entry s pd va)")
    case False
    let ?t = "store_word (fst ?ptep) (snd ?ptep) ?w r"
    have run: "run (insert_tail pd pp va perm ?ptep) s = (Ret 0, ?t)"
      using e False by (simp add: insert_tail_def prog_simps load_pte_def store_pte_def flip: r_def)
    have Pr: "present (pde_at r pd va)" using Pd R by simp
    have "insert_post s pd pp va perm ?t xs"
      using store_entry_ok [OF R(1) Pr uvpt, of "unat (PTX va)" ?w]
        store_entry_view [OF R(1) Pr uvpt, of _ ?w]
        store_entry_tables [OF R(1) Pr uvpt, of "unat (PTX va)" ?w] pp R False rsel
      by (simp add: insert_post_def data_page_def missing_tables_def)
    then show ?thesis using run by blast
  next
    case True
    have Pr: "present (entry r pd va)" using True R by simp
    have mr: "mapped_ok r pd xs va"
      using m R rsel by (simp add: mapped_ok_def data_page_def)
    let ?zs = "if pp_ref (pages r ?old) = 1 then ?old # xs else xs"
    obtain u where u: "run (page_remove pd va) r = (Ret (), u)" "pgdir_ok u pd ?zs"
      "\<And>va'. unat (PDX va') \<noteq> UVPT_index \<Longrightarrow>
         entry u pd va' = (if PGNUM va' = PGNUM va then 0 else entry s pd va')"
      "\<And>y. pp_ref (pages u y) = (if y = ?old then pp_ref (pages r y) - 1 else pp_ref (pages r y))"
      "pde_at u pd va = pde_at s pd va" "tables u pd = tables s pd" "table_slots u pd = table_slots s pd"
      "npages u = npages s" "envs u = envs s" "cpus u = cpus s" "cpunum u = cpunum s"
      using remove_spec [OF R(1) uvpt mr Pr] unfolding R(2,3,4,6) rsel by blast
    have Pu: "present (pde_at u pd va)" using Pd u(5) by simp
    let ?t = "store_word (fst ?ptep) (snd ?ptep) ?w u"
    have pte: "present (entry s pd va) \<longleftrightarrow> entry s pd va AND 1 = 1" by (rule present_iff)
    have run: "run (insert_tail pd pp va perm ?ptep) s = (Ret 0, ?t)"
      using e True u(1) pte by (simp add: insert_tail_def prog_simps load_pte_def store_pte_def flip: r_def)
    have "pp \<notin> set ?zs"
    proof (cases "?old = pp")
      case True
      then have "pp_ref (pages s pp) \<noteq> 0" using ref Pr R(2) by simp
      then have "pp_ref (pages r pp) \<noteq> 1" using R(5) [of pp] by simp
      then show ?thesis using True ppx by simp
    qed (use ppx in simp)
    then have "data_page u pd ?zs pp" using pp u(6,8) by (auto simp: data_page_def)
    moreover note store_entry_tables(2,3) [OF u(2) Pu uvpt, of "unat (PTX va)" ?w]
    moreover note store_entry_ok [OF u(2) Pu uvpt, of "unat (PTX va)" ?w]
    moreover have "entry ?t pd va' = (if PGNUM va' = PGNUM va then ?w else entry s pd va')"
      if "unat (PDX va') \<noteq> UVPT_index" for va'
      using store_entry_view [OF u(2) Pu uvpt that, of ?w] u(3) [OF that] u(5) by simp
    moreover have "pp_ref (pages ?t y) = pp_ref (pages s y) + (if y = pp then 1 else 0)
        - (if present (entry s pd va) \<and> y = ?old then 1 else 0)" for y
      using u(4) True R(5) by simp
    ultimately have "insert_post s pd pp va perm ?t ?zs"
      using u by (simp add: insert_post_def data_page_def missing_tables_def)
    then show ?thesis using run by (intro exI conjI) (assumption | simp)+
  qed
qed

text \<open>The whole of \<open>page_insert\<close>.\<close>

lemma page_insert_full:
  assumes "pgdir_ok s pd []" and "\<not> present (pde_at s pd va)"
  shows "run (page_insert pd pp va perm) s = (Ret (- E_NO_MEM), s)"
  using walk_full [OF assms] by (simp add: page_insert_tail)

lemma page_insert_spec:
  assumes ok: "pgdir_ok s pd xs" and uvpt: "unat (PDX va) \<noteq> UVPT_index"
    and avail: "present (pde_at s pd va) \<or> xs \<noteq> []"
    and m: "mapped_ok s pd xs va" and pp: "data_page s pd xs pp"
    and ref: "present (entry s pd va) \<Longrightarrow> frame_of (entry s pd va) = pp \<Longrightarrow> pp_ref (pages s pp) \<noteq> 0"
  shows "\<exists>t zs. run (page_insert pd pp va perm) s = (Ret 0, t)
     \<and> pgdir_ok t pd zs \<and> data_page t pd zs pp
     \<and> (\<forall>va'. unat (PDX va') \<noteq> UVPT_index \<longrightarrow>
          entry t pd va' = (if PGNUM va' = PGNUM va then page2pa pp OR perm OR PTE_P
                            else entry s pd va'))
     \<and> (\<forall>y. y \<notin> set xs \<longrightarrow> pp_ref (pages t y) =
          pp_ref (pages s y) + (if y = pp then 1 else 0)
          - (if present (entry s pd va) \<and> y = frame_of (entry s pd va) then 1 else 0))
     \<and> tables t pd \<subseteq> tables s pd \<union> set xs
     \<and> (missing_tables s pd \<le> length xs \<longrightarrow> missing_tables t pd \<le> length zs)
     \<and> npages t = npages s \<and> envs t = envs s \<and> cpus t = cpus s \<and> cpunum t = cpunum s"
proof -
  obtain u ys where u: "run (pgdir_walk pd va 1) s
      = (Ret (Some (frame_of (pde_at u pd va), unat (PTX va))), u)" "walked s pd xs va u ys"
    using walk_create_spec [OF ok uvpt avail] by blast
  have W: "pgdir_ok u pd ys" "present (pde_at u pd va)"
      "\<And>va'. unat (PDX va') \<noteq> UVPT_index \<Longrightarrow> entry u pd va' = entry s pd va'"
      "\<And>y. y \<notin> set xs \<Longrightarrow> pp_ref (pages u y) = pp_ref (pages s y)"
      "npages u = npages s" "envs u = envs s" "cpus u = cpus s" "cpunum u = cpunum s"
      "tables u pd \<subseteq> tables s pd \<union> set xs"
      "missing_tables s pd \<le> length xs \<Longrightarrow> missing_tables u pd \<le> length ys"
    using u(2) by (simp_all add: walked_def)
  have ppx: "pp \<notin> set xs" using pp by (simp add: data_page_def)
  have ref': "present (entry u pd va) \<Longrightarrow> frame_of (entry u pd va) = pp \<Longrightarrow> pp_ref (pages u pp) \<noteq> 0"
    using ref W(3) [OF uvpt] W(4) [OF ppx] by simp
  obtain t zs where t: "run (insert_tail pd pp va perm (frame_of (pde_at u pd va), unat (PTX va))) u
      = (Ret 0, t)" "insert_post u pd pp va perm t zs" "length ys \<le> length zs"
    using insert_tail_spec [OF W(1) uvpt W(2) walked_mapped_ok [OF u(2) m uvpt]
      walked_data_page [OF u(2) pp] ref'] by blast
  have "run (page_insert pd pp va perm) s = (Ret 0, t)"
    using u(1) t(1) by (simp add: page_insert_tail)
  then show ?thesis
    using t(2,3) W uvpt by (intro exI [of _ t] exI [of _ zs]) (auto simp: insert_post_def)
qed

section \<open>Consecutive pages\<close>

lemma div_mod_page: "(m :: nat) mod 4294967296 div 4096 = (m div 4096) mod 1048576"
  using mod_mult2_eq [of m 4096 1048576] by simp

lemma PGNUM_step: "unat (PGNUM (va + of_nat i * 4096)) = (unat (PGNUM va) + i) mod 1048576"
proof -
  have "va + of_nat i * 4096 = of_nat (unat va + 4096 * i)" by (simp add: algebra_simps)
  then have "unat (va + of_nat i * 4096) = (unat va + 4096 * i) mod 4294967296"
    by (simp only: unat_of_nat) simp
  then show ?thesis unfolding unat_PGNUM by (simp only: div_mod_page) (simp add: add.commute)
qed

lemma add_mod_inj:
  assumes "i < m" and "j < m" and "(p + i) mod m = (p + j) mod (m :: nat)"
  shows "i = j"
proof -
  have "i = j" if "i \<le> j" "j < m" "(p + i) mod m = (p + j) mod m" for i j :: nat
  proof -
    have "m dvd j - i" using that mod_eq_dvd_iff_nat [of "p + i" "p + j" m] by simp
    then show ?thesis using that nat_dvd_not_less [of "j - i" m] by fastforce
  qed
  from this [of i j] this [of j i] show ?thesis using assms by (cases "i \<le> j") auto
qed

lemma PGNUM_step_inj:
  assumes "i < 1048576" and "j < 1048576"
    and "PGNUM (va + of_nat i * 4096) = PGNUM (va + of_nat j * 4096)"
  shows "i = j"
proof -
  let ?p = "unat (PGNUM va)"
  have "(?p + i) mod 1048576 = (?p + j) mod 1048576"
    using PGNUM_step assms(3) by metis
  with assms(1,2) show ?thesis by (rule add_mod_inj)
qed

section \<open>\<open>boot_map_region\<close>\<close>

definition region_entry :: "u32 \<Rightarrow> u32 \<Rightarrow> nat \<Rightarrow> u32" where
  "region_entry pa perm i = ((pa + of_nat i * PGSIZE) OR perm OR PTE_P)"

definition region_mapped :: "kstate \<Rightarrow> nat \<Rightarrow> u32 \<Rightarrow> u32 \<Rightarrow> u32 \<Rightarrow> nat \<Rightarrow> kstate \<Rightarrow> bool" where
  "region_mapped s pd va pa perm n t \<longleftrightarrow>
     (\<forall>va'. unat (PDX va') \<noteq> UVPT_index \<longrightarrow>
        (\<forall>i < n. PGNUM va' = PGNUM (va + of_nat i * PGSIZE) \<longrightarrow> entry t pd va' = region_entry pa perm i) \<and>
        ((\<forall>i < n. PGNUM va' \<noteq> PGNUM (va + of_nat i * PGSIZE)) \<longrightarrow> entry t pd va' = entry s pd va'))"

lemma boot_map_page_run:
  assumes ok: "pgdir_ok s pd xs" and enough: "missing_tables s pd \<le> length xs"
    and uvpt: "unat (PDX (va + of_nat i * PGSIZE)) \<noteq> UVPT_index"
  shows "\<exists>t ys. run (boot_map_page pd va pa perm i) s = (Ret (), t) \<and> pgdir_ok t pd ys
    \<and> missing_tables t pd \<le> length ys
    \<and> (\<forall>va'. unat (PDX va') \<noteq> UVPT_index \<longrightarrow> entry t pd va'
         = (if PGNUM va' = PGNUM (va + of_nat i * PGSIZE) then region_entry pa perm i
            else entry s pd va'))"
proof -
  let ?va = "va + of_nat i * PGSIZE"
  have "present (pde_at s pd ?va) \<or> xs \<noteq> []"
    using missing_tables_pos [OF _ uvpt, of s pd] enough by auto
  from walk_create_spec [OF ok uvpt this] obtain u ys where u:
      "run (pgdir_walk pd ?va 1) s = (Ret (Some (frame_of (pde_at u pd ?va), unat (PTX ?va))), u)"
      "walked s pd xs ?va u ys" by blast
  have W: "pgdir_ok u pd ys" "present (pde_at u pd ?va)" "missing_tables u pd \<le> length ys"
      "\<And>va'. unat (PDX va') \<noteq> UVPT_index \<Longrightarrow> entry u pd va' = entry s pd va'"
    using u(2) enough by (simp_all add: walked_def)
  let ?t = "store_word (frame_of (pde_at u pd ?va)) (unat (PTX ?va)) (region_entry pa perm i) u"
  have run: "run (boot_map_page pd va pa perm i) s = (Ret (), ?t)"
    using u(1) by (simp add: boot_map_page_def prog_simps store_pte_def region_entry_def)
  have "frame_of (pde_at u pd ?va) \<noteq> pd"
    using pde_frame(3) [OF W(1,2) uvpt] pgdir_okD(6) [OF W(1)] by blast
  then have "missing_tables ?t pd = missing_tables u pd"
    by (simp add: missing_tables_def table_slots_def)
  then show ?thesis
    using run store_entry_ok [OF W(1,2) uvpt] store_entry_view [OF W(1,2) uvpt] W(3,4)
    by (intro exI [of _ ?t] exI [of _ ys]) simp
qed

lemma boot_map_loop:
  assumes ok: "pgdir_ok s pd xs" and enough: "missing_tables s pd \<le> length xs"
    and uvpt: "\<forall>i < n. unat (PDX (va + of_nat i * PGSIZE)) \<noteq> UVPT_index" and n: "n \<le> 1048576"
  shows "\<exists>t ys. run (forP [0..<n] (boot_map_page pd va pa perm)) s = (Ret (), t)
    \<and> pgdir_ok t pd ys \<and> missing_tables t pd \<le> length ys \<and> region_mapped s pd va pa perm n t"
  using uvpt n
proof (induction n)
  case 0
  then show ?case
    using ok enough by (intro exI [of _ s] exI [of _ xs]) (simp add: prog_simps region_mapped_def)
next
  case (Suc n)
  then obtain u ys where u: "run (forP [0..<n] (boot_map_page pd va pa perm)) s = (Ret (), u)"
      "pgdir_ok u pd ys" "missing_tables u pd \<le> length ys" "region_mapped s pd va pa perm n u"
    by auto
  have "unat (PDX (va + of_nat n * PGSIZE)) \<noteq> UVPT_index" using Suc.prems(1) by blast
  from boot_map_page_run [OF u(2,3) this, of pa perm] obtain t zs where
    t: "run (boot_map_page pd va pa perm n) u = (Ret (), t)" "pgdir_ok t pd zs"
      "missing_tables t pd \<le> length zs"
      "\<And>va'. unat (PDX va') \<noteq> UVPT_index \<Longrightarrow> entry t pd va'
         = (if PGNUM va' = PGNUM (va + of_nat n * PGSIZE) then region_entry pa perm n
            else entry u pd va')" by blast
  have neq: "PGNUM (va + of_nat i * PGSIZE) \<noteq> PGNUM (va + of_nat n * PGSIZE)" if "i < n" for i
    using PGNUM_step_inj [of i n va] that Suc.prems(2) by auto
  have "region_mapped s pd va pa perm (Suc n) t"
    using u(4) t(4) neq unfolding region_mapped_def by (auto simp: less_Suc_eq)
  then show ?case
    using u(1) t by (intro exI [of _ t] exI [of _ zs]) (simp add: prog_simps)
qed

lemma boot_map_region_run:
  assumes "pgdir_ok s pd xs" and "missing_tables s pd \<le> length xs"
    and "\<forall>i < unat (sz div PGSIZE). unat (PDX (va + of_nat i * PGSIZE)) \<noteq> UVPT_index"
  shows "\<exists>t ys. run (boot_map_region pd va sz pa perm) s = (Ret (), t)
    \<and> pgdir_ok t pd ys \<and> missing_tables t pd \<le> length ys
    \<and> region_mapped s pd va pa perm (unat (sz div PGSIZE)) t"
proof -
  have "unat (sz div PGSIZE) \<le> 1048576"
    using unat_less_32 [of sz] by (simp add: unat_div)
  from boot_map_loop [OF assms this] show ?thesis by (simp add: boot_map_region_def)
qed

end
