(* ===== verification/PmapUser.thy ===== *)
theory PmapUser
  imports PmapSpace
begin

text \<open>
  \<open>user_mem_check\<close> of \<^verbatim>\<open>kern/pmap.c\<close>: with no wrap-around it accepts a range exactly when
  every address in it lies below \<open>ULIM\<close> and is mapped with the permissions asked for; a length
  that wraps makes it look at fewer pages.
\<close>

definition user_ok :: "kstate \<Rightarrow> nat \<Rightarrow> u32 \<Rightarrow> u32 \<Rightarrow> bool" where
  "user_ok s pd perm a \<longleftrightarrow>
     a < ULIM \<and> present (pde_at s pd a) \<and> entry s pd a AND perm = perm"

lemma check_page_run:
  assumes "pgdir_ok s pd xs" and "env_pgdir (envs s e) = Some pd"
  shows "run (user_mem_check_page (Some e) va perm i) s =
     (if user_ok s pd perm (va + of_nat i * PGSIZE) then (Ret None, s)
      else (Ret (Some (- E_FAULT)), s\<lparr>user_mem_check_addr := va + of_nat i * PGSIZE\<rparr>))"
  using assms(2) walk_lookup [OF assms(1), of "va + of_nat i * PGSIZE"]
  by (auto simp: user_mem_check_page_def prog_simps Let_def user_ok_def load_pte_def entry_def)

lemma search_first:
  assumes "\<And>i. run (body i) s = (if good i then (Ret None, s) else (Ret (Some e), f i))"
  shows "run (searchP is body) s =
     (case find (\<lambda>i. \<not> good i) is of None \<Rightarrow> (Ret None, s) | Some i \<Rightarrow> (Ret (Some e), f i))"
  by (induction "is") (simp_all add: prog_simps assms)

definition pages_touched :: "u32 \<Rightarrow> u32 \<Rightarrow> nat" where
  "pages_touched va len = unat ((ROUNDUP (va + len) PGSIZE - ROUNDDOWN va PGSIZE) div PGSIZE)"

lemma user_mem_check_run:
  assumes "pgdir_ok s pd xs" and "env_pgdir (envs s e) = Some pd"
  shows "run (user_mem_check (Some e) va len perm) s =
     (case find (\<lambda>i. \<not> user_ok s pd perm (va + of_nat i * PGSIZE)) [0..<pages_touched va len] of
        None \<Rightarrow> (Ret 0, s)
      | Some i \<Rightarrow> (Ret (- E_FAULT), s\<lparr>user_mem_check_addr := va + of_nat i * PGSIZE\<rparr>))"
  using search_first [of "user_mem_check_page (Some e) va perm" s
      "\<lambda>i. user_ok s pd perm (va + of_nat i * PGSIZE)", OF check_page_run [OF assms]]
  by (simp add: user_mem_check_def prog_simps Let_def pages_touched_def split: option.splits)

text \<open>The pages the loop visits, when \<open>va + len\<close> does not wrap.\<close>

lemma unat_ROUNDDOWN: "unat (ROUNDDOWN va 4096) = 4096 * (unat va div 4096)"
proof -
  have "unat (ROUNDDOWN va 4096) = unat va - unat (va mod 4096)"
    unfolding ROUNDDOWN_def by (rule unat_sub) (simp add: word_le_nat_alt unat_mod)
  then show ?thesis by (simp add: unat_mod minus_mod_eq_mult_div)
qed

lemma pages_touched_eq:
  assumes "unat va + unat len + 4095 < 2 ^ 32" and "len \<noteq> 0"
  shows "pages_touched va len = (unat va + unat len - 1) div 4096 + 1 - unat va div 4096"
proof -
  have pos: "0 < unat len" using assms(2) by (metis gr0I unsigned_eq_0_iff)
  have sum: "unat (va + len) = unat va + unat len" using assms(1) by (simp add: unat_add_small32)
  have up: "unat (ROUNDUP (va + len) 4096) = 4096 * ((unat va + unat len + 4095) div 4096)"
    using ROUNDUP_page [of "va + len"] assms(1) sum by simp
  have "unat va div 4096 \<le> (unat va + unat len + 4095) div 4096" by (rule div_le_mono) simp
  then have "unat (ROUNDUP (va + len) 4096 - ROUNDDOWN va 4096)
      = 4096 * ((unat va + unat len + 4095) div 4096 - unat va div 4096)"
    by (simp add: unat_diff32 up unat_ROUNDDOWN diff_mult_distrib2)
  then have "pages_touched va len = (unat va + unat len + 4095) div 4096 - unat va div 4096"
    by (simp add: pages_touched_def unat_div)
  also have "(unat va + unat len + 4095) div 4096 = (unat va + unat len - 1) div 4096 + 1"
    using pos by (simp add: div_add_self2 [of 4096 "unat va + unat len - 1", symmetric])
  finally show ?thesis .
qed

lemma same_page_user_ok:
  assumes "PGNUM a = PGNUM b" and "user_ok s pd perm b"
  shows "user_ok s pd perm a"
proof -
  have "unat (PDX a) = unat (PDX b)" "unat (PTX a) = unat (PTX b)"
    using assms(1) by (simp_all add: PGNUM_page_index)
  then have "entry s pd a = entry s pd b" "pde_at s pd a = pde_at s pd b"
    by (simp_all add: entry_def pde_at_def)
  moreover have "a < ULIM"
  proof -
    have "unat a div 4096 = unat b div 4096" using assms(1) by (metis unat_PGNUM)
    moreover have "unat b < 4018143232" using assms(2) by (simp add: user_ok_def word_less_nat_alt)
    then have "unat b div 4096 < 980992" by (simp add: div_less_iff_less_mult)
    ultimately have "unat a div 4096 < 980992" by (simp only:)
    then have "unat a < 4018143232" by (simp add: div_less_iff_less_mult)
    then show ?thesis by (simp add: word_less_nat_alt)
  qed
  ultimately show ?thesis using assms(2) by (simp add: user_ok_def)
qed

text \<open>Every address of the range lies in a page the loop visits, and every page visited has one.\<close>

lemma visited_pages:
  assumes "unat va + unat len + 4095 < 2 ^ 32" and "len \<noteq> 0"
  shows "(\<forall>i < pages_touched va len. user_ok s pd perm (va + of_nat i * PGSIZE)) \<longleftrightarrow>
         (\<forall>a. unat va \<le> unat a \<and> unat a < unat va + unat len \<longrightarrow> user_ok s pd perm a)"
    (is "?loop \<longleftrightarrow> ?all")
proof -
  let ?n = "pages_touched va len"
  note n = pages_touched_eq [OF assms]
  have pos: "0 < unat len" using assms(2) by (metis gr0I unsigned_eq_0_iff)
  have cur: "unat (PGNUM (va + of_nat i * 4096)) = unat va div 4096 + i" if "i < ?n" for i
  proof -
    have "unat va div 4096 + i \<le> (unat va + unat len - 1) div 4096" using that n by linarith
    also have "\<dots> < 1048576" using assms(1) by simp
    finally have "unat (PGNUM va) + i < 1048576" by (simp add: unat_PGNUM)
    then show ?thesis unfolding PGNUM_step by (simp add: unat_PGNUM)
  qed
  show ?thesis
  proof
    assume loop: ?loop
    show ?all
    proof (intro allI impI, elim conjE)
      fix a :: u32 assume a: "unat va \<le> unat a" "unat a < unat va + unat len"
      define i where "i = unat a div 4096 - unat va div 4096"
      have "unat va div 4096 \<le> unat a div 4096" using a(1) by (rule div_le_mono)
      moreover have "unat a div 4096 \<le> (unat va + unat len - 1) div 4096"
        using a(2) by (intro div_le_mono) simp
      ultimately have i: "i < ?n" "unat va div 4096 + i = unat a div 4096"
        unfolding n i_def by linarith+
      have "PGNUM a = PGNUM (va + of_nat i * 4096)"
        using cur [OF i(1)] i(2) by (simp add: word_unat_eq_iff unat_PGNUM)
      then show "user_ok s pd perm a" using same_page_user_ok loop i(1) by blast
    qed
  next
    assume all: ?all
    show ?loop
    proof (intro allI impI)
      fix i assume i: "i < ?n"
      define b where "b = max (unat va) (4096 * (unat va div 4096 + i))"
      have "unat va div 4096 + i \<le> (unat va + unat len - 1) div 4096" using i n by linarith
      then have le: "4096 * (unat va div 4096 + i) \<le> unat va + unat len - 1"
        by (simp only: less_eq_div_iff_mult_less_eq mult.commute [of 4096] zero_less_numeral)
      have b1: "unat va \<le> b" "b < unat va + unat len" using le pos by (auto simp: b_def)
      have "b div 4096 = unat va div 4096 + i"
      proof (cases "i = 0")
        case True
        then show ?thesis by (simp add: b_def max_def)
      next
        case False
        have "unat va < 4096 + unat va div 4096 * 4096" by (rule dividend_less_div_times) simp
        also have "\<dots> \<le> 4096 * (unat va div 4096 + i)" using False by (simp add: algebra_simps)
        finally have "unat va \<le> 4096 * (unat va div 4096 + i)" by simp
        then have "b = 4096 * (unat va div 4096 + i)" by (simp only: b_def max_def if_True)
        then show ?thesis by simp
      qed
      note b = b1 this
      have ub: "unat (of_nat b :: u32) = b" using b(2) assms(1) by (intro unat_of_nat32) simp
      have "user_ok s pd perm (of_nat b)" using all ub b(1,2) by simp
      moreover have "PGNUM (va + of_nat i * 4096) = PGNUM (of_nat b)"
        using cur [OF i] b(3) ub by (simp add: word_unat_eq_iff unat_PGNUM)
      ultimately show "user_ok s pd perm (va + of_nat i * PGSIZE)"
        using same_page_user_ok by blast
    qed
  qed
qed

lemma find_None_upt: "find (\<lambda>i. \<not> P i) [0..<n] = None \<longleftrightarrow> (\<forall>i < n. P i)"
  by (auto simp: find_None_iff)

lemma user_mem_check_decides:
  assumes "pgdir_ok s pd xs" and "env_pgdir (envs s e) = Some pd"
    and "unat va + unat len + 4095 < 2 ^ 32" and "len \<noteq> 0"
  shows "fst (run (user_mem_check (Some e) va len perm) s) =
     (if \<forall>a. unat va \<le> unat a \<and> unat a < unat va + unat len \<longrightarrow> user_ok s pd perm a
      then Ret 0 else Ret (- E_FAULT))"
  using user_mem_check_run [OF assms(1,2), of va len perm]
    visited_pages [OF assms(3,4), of s pd perm]
    find_None_upt [of "\<lambda>i. user_ok s pd perm (va + of_nat i * PGSIZE)" "pages_touched va len"]
  by (auto split: option.splits)

section \<open>A length that wraps\<close>

text \<open>
  When \<open>va + len\<close> wraps around to an address not below the page of \<open>va\<close>, only the pages from there
  to that address are looked at.
\<close>

lemma user_mem_check_wrapped:
  assumes ok: "pgdir_ok s pd xs" "env_pgdir (envs s e) = Some pd"
    and above: "ROUNDDOWN va PGSIZE \<le> va + len" and low: "unat (va + len) + 4095 < 2 ^ 32"
  shows "fst (run (user_mem_check (Some e) va len perm) s) =
     (if \<forall>a. ROUNDDOWN va PGSIZE \<le> a \<and> a < va + len \<longrightarrow> user_ok s pd perm a then Ret 0 else Ret (- E_FAULT))"
proof -
  define v l where "v = ROUNDDOWN va PGSIZE" and "l = va + len - v"
  have uv: "unat v = 4096 * (unat va div 4096)" unfolding v_def by (rule unat_ROUNDDOWN)
  have ul: "unat v + unat l = unat (va + len)" "v + l = va + len"
    using above by (simp_all add: l_def v_def unat_diff32 word_le_nat_alt)
  have "unat (ROUNDDOWN v PGSIZE) = unat v" unfolding unat_ROUNDDOWN uv by simp
  then have "ROUNDDOWN v PGSIZE = ROUNDDOWN va PGSIZE" by (simp add: v_def word_unat_eq_iff)
  then have same: "pages_touched v l = pages_touched va len" by (simp add: pages_touched_def ul(2))
  have "PGNUM v = PGNUM va" by (simp add: word_unat_eq_iff unat_PGNUM uv)
  then have pg: "PGNUM (v + of_nat i * 4096) = PGNUM (va + of_nat i * 4096)" for i
    unfolding word_unat_eq_iff PGNUM_step by simp
  have pages: "(\<forall>i < pages_touched va len. user_ok s pd perm (va + of_nat i * PGSIZE)) \<longleftrightarrow>
      (\<forall>i < pages_touched v l. user_ok s pd perm (v + of_nat i * PGSIZE))"
    unfolding same using same_page_user_ok [OF pg] same_page_user_ok [OF pg [symmetric]] by blast
  have all: "(\<forall>i < pages_touched v l. user_ok s pd perm (v + of_nat i * PGSIZE)) \<longleftrightarrow>
      (\<forall>a. v \<le> a \<and> a < va + len \<longrightarrow> user_ok s pd perm a)"
  proof (cases "l = 0")
    case True
    then have "va + len = v" using ul(2) by simp
    moreover have "unat (ROUNDUP v PGSIZE) = unat v"
      using ROUNDUP_page [of v] low uv ul True by simp
    then have "ROUNDUP v PGSIZE = v" by (simp add: word_unat_eq_iff)
    ultimately have "pages_touched va len = 0" unfolding pages_touched_def v_def by simp
    then show ?thesis using same \<open>va + len = v\<close> by auto
  next
    case False
    then show ?thesis
      using visited_pages [of v l s pd perm] low ul(1) by (simp add: word_le_nat_alt word_less_nat_alt)
  qed
  show ?thesis
    using user_mem_check_run [OF ok, of va len perm] pages all
      find_None_upt [of "\<lambda>i. user_ok s pd perm (va + of_nat i * PGSIZE)" "pages_touched va len"]
    unfolding v_def by (auto split: option.splits)
qed

end
