(* ===== verification/VMem.thy ===== *)
theory VMem
  imports PmapUser
begin

text \<open>
  Memory as the code running under the page directory in \<open>cr3\<close> sees it: every \<^verbatim>\<open>*p\<close> with a
  virtual address goes through the two-level translation. An access that the hardware refuses
  is a page fault taken in the kernel and stops the computation. \<open>memset\<close> and \<open>memcpy\<close> on
  virtual addresses are the byte loops they amount to (see \<open>CString\<close>).
\<close>

text \<open>
  With \<^verbatim>\<open>CR0_WP\<close> set, kernel writes need the writable bit in both levels, as user writes do.
\<close>

definition translate :: "bool \<Rightarrow> u32 \<Rightarrow> kstate \<Rightarrow> nat option" where
  "translate write va s =
     (let pde = pmem s (unat (PGNUM (cr3 s))) (unat (PDX va));
          pte = pmem s (unat (PGNUM pde)) (unat (PTX va));
          refused = (write \<and> cr0 s AND CR0_WP \<noteq> 0 \<and> (pde AND PTE_W = 0 \<or> pte AND PTE_W = 0))
      in if pde AND PTE_P = 0 \<or> pte AND PTE_P = 0 \<or> refused then None
         else Some (unat (PGNUM pte)))"

text \<open>Byte \<open>o\<close> of a little-endian word, and the word with that byte replaced.\<close>

definition byte_of :: "u32 \<Rightarrow> nat \<Rightarrow> u8" where
  "byte_of w n = ucast (drop_bit (8 * n) w)"

definition with_byte :: "u32 \<Rightarrow> nat \<Rightarrow> u8 \<Rightarrow> u32" where
  "with_byte w n b = ((w AND NOT (push_bit (8 * n) 0xFF)) OR push_bit (8 * n) (ucast b))"

definition peek8 :: "u32 \<Rightarrow> kstate \<Rightarrow> u8 option" where
  "peek8 va s =
     map_option (\<lambda>f. byte_of (pmem s f (unat (PGOFF va) div 4)) (unat (PGOFF va) mod 4))
       (translate False va s)"

definition peek16 :: "u32 \<Rightarrow> kstate \<Rightarrow> u16 option" where
  "peek16 va s =
     (case (peek8 va s, peek8 (va + 1) s) of
        (Some b0, Some b1) \<Rightarrow> Some (ucast b0 OR push_bit 8 (ucast b1))
      | _ \<Rightarrow> None)"

definition peek32 :: "u32 \<Rightarrow> kstate \<Rightarrow> u32 option" where
  "peek32 va s =
     (case (peek16 va s, peek16 (va + 2) s) of
        (Some h0, Some h1) \<Rightarrow> Some (ucast h0 OR push_bit 16 (ucast h1))
      | _ \<Rightarrow> None)"

definition load8 :: "u32 \<Rightarrow> u8 km" where
  "load8 va = bindP (gets (peek8 va)) deref"

definition load16 :: "u32 \<Rightarrow> u16 km" where
  "load16 va = bindP (gets (peek16 va)) deref"

definition load32 :: "u32 \<Rightarrow> u32 km" where
  "load32 va = bindP (gets (peek32 va)) deref"

definition store8 :: "u32 \<Rightarrow> u8 \<Rightarrow> unit km" where
  "store8 va b =
     bindP (gets (translate True va)) (\<lambda>f.
     bindP (deref f) (\<lambda>fr.
     modify (\<lambda>s. store_word fr (unat (PGOFF va) div 4)
       (with_byte (pmem s fr (unat (PGOFF va) div 4)) (unat (PGOFF va) mod 4) b) s)))"

definition store32 :: "u32 \<Rightarrow> u32 \<Rightarrow> unit km" where
  "store32 va w = forP [0..<4] (\<lambda>i. store8 (va + of_nat i) (byte_of w i))"

definition vmemset :: "u32 \<Rightarrow> u8 \<Rightarrow> u32 \<Rightarrow> unit km" where
  "vmemset va c n = forP [0..<unat n] (\<lambda>i. store8 (va + of_nat i) c)"

definition vmemcpy :: "u32 \<Rightarrow> u32 \<Rightarrow> u32 \<Rightarrow> unit km" where
  "vmemcpy dst src n =
     forP [0..<unat n] (\<lambda>i. bindP (load8 (src + of_nat i)) (\<lambda>b. store8 (dst + of_nat i) b))"

section \<open>A byte stored is the byte read back\<close>

lemma byte_with_byte:
  assumes "m < 4" and "n < 4"
  shows "byte_of (with_byte w n b) m = (if m = n then b else byte_of w m)"
proof (rule bit_word_eqI)
  fix k
  assume k: "k < LENGTH(8)"
  have ff: "(0xFF :: u32) = mask 8" by (simp add: mask_eq_exp_minus_1)
  have other: "\<not> bit b (8 * m + k - 8 * n)" if "m \<noteq> n" "8 * n \<le> 8 * m + k"
  proof
    assume "bit b (8 * m + k - 8 * n)"
    then have "8 * m + k - 8 * n < 8" using bit_imp_le_length by fastforce
    then show False using that k by simp
  qed
  show "bit (byte_of (with_byte w n b) m) k = bit (if m = n then b else byte_of w m) k"
    unfolding byte_of_def with_byte_def ff
    using assms k other by (auto simp: bit_simps)
qed

lemma word_bytes: "ucast (ucast (byte_of w 0) OR push_bit 8 (ucast (byte_of w (Suc 0))) :: u16) OR
    push_bit 16 (ucast (ucast (byte_of w 2) OR push_bit 8 (ucast (byte_of w 3)) :: u16)) = (w :: u32)"
proof (rule bit_word_eqI)
  fix k assume k: "k < LENGTH(32)"
  show "bit (ucast (ucast (byte_of w 0) OR push_bit 8 (ucast (byte_of w (Suc 0))) :: u16) OR
    push_bit 16 (ucast (ucast (byte_of w 2) OR push_bit 8 (ucast (byte_of w 3)) :: u16)) :: u32) k = bit w k"
    using k by (cases "k < 8"; cases "k < 16"; cases "k < 24") (auto simp: byte_of_def bit_simps)
qed

end
