(* ===== verification/Kdebug.thy ===== *)
theory Kdebug
  imports VMem
begin

text \<open>
  \<^verbatim>\<open>kern/kdebug.c\<close>: finding the function, file and line of an instruction in the STABS tables.
  The tables are read from memory, one field of one entry at a time; a read that faults is
  \<open>None\<close>. \<open>stab_binsearch\<close> is proved to find the last entry at or below the address, unless
  the table also has an entry one byte above it.
\<close>

abbreviation (input) N_FUN :: u8 where "N_FUN \<equiv> 0x24"
abbreviation (input) N_SLINE :: u8 where "N_SLINE \<equiv> 0x44"
abbreviation (input) N_SO :: u8 where "N_SO \<equiv> 0x64"
abbreviation (input) N_SOL :: u8 where "N_SOL \<equiv> 0x84"
abbreviation (input) N_PSYM :: u8 where "N_PSYM \<equiv> 0xa0"

section \<open>\<open>stab_binsearch\<close>\<close>

text \<open>
  \<^verbatim>\<open>while (m >= l && stabs[m].n_type != type) m--;\<close> with the final \<open>m\<close>; \<open>ty\<close> reads a type.
\<close>

function stab_scan :: "(int \<Rightarrow> u8 option) \<Rightarrow> u8 \<Rightarrow> int \<Rightarrow> int \<Rightarrow> int option" where
  "stab_scan ty type l m =
     (if m < l then Some m
      else case ty m of
             None \<Rightarrow> None
           | Some t \<Rightarrow> if t \<noteq> type then stab_scan ty type l (m - 1) else Some m)"
  by pat_completeness auto
termination
  by (relation "measure (\<lambda>(ty, type, l, m). nat (m - l + 1))") auto

declare stab_scan.simps [simp del]

lemma stab_scan_le: "stab_scan ty type l m = Some k \<Longrightarrow> k \<le> m"
proof (induction ty type l m rule: stab_scan.induct)
  case (1 ty type l m)
  show ?case
    using 1 by (subst (asm) (2) stab_scan.simps) (fastforce split: if_splits option.splits)
qed

text \<open>
  The main loop. The counters are nonnegative whenever it is entered with \<open>l \<le> r\<close>, so the C
  division is \<open>div\<close>. The result is \<open>*region_left\<close>, \<open>*region_right\<close> and \<open>any_matches\<close>.
\<close>

function stab_loop ::
  "(int \<Rightarrow> u8 option) \<Rightarrow> (int \<Rightarrow> u32 option) \<Rightarrow> u8 \<Rightarrow> int \<Rightarrow> int \<Rightarrow> u32 \<Rightarrow> int \<Rightarrow> int \<Rightarrow> bool
     \<Rightarrow> (int \<times> int \<times> bool) option" where
  "stab_loop ty val type l r addr left right any_matches =
     (if l > r then Some (left, right, any_matches)
      else let true_m = (l + r) div 2
      in case stab_scan ty type l true_m of
           None \<Rightarrow> None
         | Some m \<Rightarrow>
             if m < l then stab_loop ty val type (true_m + 1) r addr left right any_matches
             else case val m of
                    None \<Rightarrow> None
                  | Some v \<Rightarrow>
                      if v < addr then stab_loop ty val type (true_m + 1) r addr m right True
                      else if v > addr then stab_loop ty val type l (m - 1) addr left (m - 1) True
                      else stab_loop ty val type m r (addr + 1) m right True)"
  by pat_completeness auto

text \<open>
  On an exact match the interval may stay the same, but then the address has moved past the
  entry the next iteration looks at.
\<close>

definition stab_exact :: "(int \<Rightarrow> u8 option) \<Rightarrow> (int \<Rightarrow> u32 option) \<Rightarrow> u8 \<Rightarrow> int \<Rightarrow> int \<Rightarrow> u32 \<Rightarrow> nat" where
  "stab_exact ty val type l r addr =
     (case stab_scan ty type l ((l + r) div 2) of
        None \<Rightarrow> 0
      | Some m \<Rightarrow> if val m = Some addr then 1 else 0)"

termination stab_loop
proof (relation "measures [\<lambda>(ty, val, type, l, r, addr, left, right, any). nat (r - l + 1),
    \<lambda>(ty, val, type, l, r, addr, left, right, any). stab_exact ty val type l r addr]", goal_cases)
  case 1
  show ?case by simp
next
  case 2
  then show ?case by auto
next
  case 3
  then show ?case by auto
next
  case (4 ty val type l r addr left right any true_m m v)
  then show ?case using stab_scan_le [of ty type l true_m m] by auto
next
  case (5 ty val type l r addr left right any true_m m v)
  then have m: "l \<le> m" "m \<le> true_m" "true_m \<le> r" "v = addr"
    using stab_scan_le [of ty type l true_m m] by auto
  show ?case
  proof (cases "m = l")
    case True
    then show ?thesis using 5 m by (auto simp: stab_exact_def)
  next
    case False
    then show ?thesis using m by auto
  qed
qed

declare stab_loop.simps [simp del]

text \<open>The final scan starts at \<open>*region_right\<close> and stops at \<open>*region_left\<close>.\<close>

definition stab_binsearch ::
  "(int \<Rightarrow> u8 option) \<Rightarrow> (int \<Rightarrow> u32 option) \<Rightarrow> int \<Rightarrow> int \<Rightarrow> u8 \<Rightarrow> u32 \<Rightarrow> (int \<times> int) option" where
  "stab_binsearch ty val region_left region_right type addr =
     (case stab_loop ty val type region_left region_right addr region_left region_right False of
        None \<Rightarrow> None
      | Some (left, right, any_matches) \<Rightarrow>
          if \<not> any_matches then Some (left, left - 1)
          else map_option (\<lambda>l. (l, right)) (stab_scan ty type (left + 1) right))"

section \<open>What the search finds\<close>

lemma stab_scan_spec:
  assumes "stab_scan ty type l m = Some k"
  shows "k \<le> m \<and> (l - 1 \<le> m \<longrightarrow> l - 1 \<le> k) \<and> (l \<le> k \<longrightarrow> ty k = Some type)
    \<and> (\<forall>i. k < i \<and> i \<le> m \<and> l \<le> i \<longrightarrow> ty i \<noteq> Some type)"
  using assms
proof (induction ty type l m rule: stab_scan.induct)
  case (1 ty type l m)
  show ?case
  proof (cases "m < l")
    case True
    then show ?thesis using 1(2) by (subst (asm) stab_scan.simps) auto
  next
    case False
    then obtain t where t: "ty m = Some t" using 1(2) by (subst (asm) stab_scan.simps) (auto split: option.splits)
    show ?thesis
    proof (cases "t = type")
      case True
      then have "k = m" using 1(2) False t by (subst (asm) stab_scan.simps) auto
      then show ?thesis using True t by auto
    next
      case neq: False
      then have rec: "stab_scan ty type l (m - 1) = Some k"
        using 1(2) False t by (subst (asm) stab_scan.simps) auto
      have IH: "k \<le> m - 1 \<and> (l - 1 \<le> m - 1 \<longrightarrow> l - 1 \<le> k) \<and> (l \<le> k \<longrightarrow> ty k = Some type)
          \<and> (\<forall>i. k < i \<and> i \<le> m - 1 \<and> l \<le> i \<longrightarrow> ty i \<noteq> Some type)"
        using 1(1) [OF False t neq rec] .
      have "ty i \<noteq> Some type" if "k < i" "i \<le> m" "l \<le> i" for i
        using that IH t neq by (cases "i = m") auto
      then show ?thesis using IH False by auto
    qed
  qed
qed

lemma stab_scan_total:
  assumes "\<And>i. l \<le> i \<Longrightarrow> i \<le> m \<Longrightarrow> ty i \<noteq> None"
  shows "\<exists>k. stab_scan ty type l m = Some k"
  using assms
proof (induction ty type l m rule: stab_scan.induct)
  case (1 ty type l m)
  show ?case
  proof (cases "m < l")
    case False
    then obtain t where t: "ty m = Some t" using 1(2) [of m] by auto
    have "t \<noteq> type \<Longrightarrow> \<exists>k. stab_scan ty type l (m - 1) = Some k"
      using 1 False t by auto
    then show ?thesis using False t by (subst stab_scan.simps) auto
  qed (subst stab_scan.simps, simp)
qed

text \<open>
  A readable table region whose entries of one type are in order; \<open>K\<close> is the last entry of the
  type at or below \<open>a\<close>, and \<open>N\<close> the next entry of the type, or one past the end of the region.
\<close>

definition stabs_ok :: "(int \<Rightarrow> u8 option) \<Rightarrow> (int \<Rightarrow> u32 option) \<Rightarrow> u8 \<Rightarrow> int \<Rightarrow> int \<Rightarrow> bool" where
  "stabs_ok ty val type L R \<longleftrightarrow>
     (\<forall>i. L \<le> i \<and> i \<le> R \<longrightarrow> ty i \<noteq> None \<and> val i \<noteq> None) \<and>
     (\<forall>i j. L \<le> i \<and> i \<le> j \<and> j \<le> R \<and> ty i = Some type \<and> ty j = Some type \<longrightarrow>
        the (val i) \<le> the (val j))"

definition bracket :: "(int \<Rightarrow> u8 option) \<Rightarrow> (int \<Rightarrow> u32 option) \<Rightarrow> u8 \<Rightarrow> int \<Rightarrow> int \<Rightarrow> u32 \<Rightarrow> int \<Rightarrow> int \<Rightarrow> bool" where
  "bracket ty val type L R a K N \<longleftrightarrow>
     L \<le> K \<and> K < N \<and> N \<le> R + 1 \<and> ty K = Some type \<and> the (val K) \<le> a \<and>
     (\<forall>i. K < i \<and> i < N \<longrightarrow> ty i \<noteq> Some type) \<and>
     (N \<le> R \<longrightarrow> ty N = Some type \<and> a < the (val N))"

text \<open>Entries of the type lie at or below \<open>a\<close> exactly up to \<open>K\<close>.\<close>

lemma bracket_below:
  assumes "stabs_ok ty val type L R" and "bracket ty val type L R a K N"
    and "L \<le> m" "m \<le> R" "ty m = Some type"
  shows "the (val m) \<le> a \<longleftrightarrow> m \<le> K" "a < the (val m) \<longleftrightarrow> N \<le> m"
proof -
  have le: "m \<le> K \<Longrightarrow> the (val m) \<le> a"
    using assms unfolding stabs_ok_def bracket_def by (meson order_trans less_imp_le zle_add1_eq_le order.strict_trans2)
  have gt: "N \<le> m \<Longrightarrow> a < the (val m)"
    using assms unfolding stabs_ok_def bracket_def by (meson order_trans less_imp_le order.strict_trans2)
  have "m \<le> K \<or> N \<le> m" using assms(2,5) unfolding bracket_def by (meson not_le)
  then show "the (val m) \<le> a \<longleftrightarrow> m \<le> K" "a < the (val m) \<longleftrightarrow> N \<le> m"
    using le gt assms(2) unfolding bracket_def by (meson leD not_le order.strict_trans2)+
qed

lemma less_succ_word:
  fixes a v :: u32
  assumes "a < a + 1" and "v < a + 1"
  shows "v \<le> a"
proof -
  have "unat (a + 1) = Suc (unat a) mod 4294967296" by (simp add: unat_word_ariths)
  then have "unat (a + 1) = Suc (unat a)"
    using assms(1) by (simp add: word_less_nat_alt mod_Suc split: if_splits)
  then show ?thesis using assms(2) by (simp add: word_less_nat_alt word_le_nat_alt)
qed

lemma stab_loop_spec:
  assumes ok: "stabs_ok ty val type L R" and br: "bracket ty val type L R a K N"
    and nxt: "\<forall>i. L \<le> i \<and> i \<le> R \<and> ty i = Some type \<longrightarrow> the (val i) \<noteq> a + 1"
    and wrap: "a < a + 1"
    and "L \<le> l" "K \<le> r" "r \<le> R" "l \<le> N" "addr = a \<or> addr = a + 1"
    and "left = K \<and> any \<or> l \<le> K" "right = N - 1 \<or> N \<le> r"
  shows "stab_loop ty val type l r addr left right any = Some (K, N - 1, True)"
  using assms
proof (induction ty val type l r addr left right any rule: stab_loop.induct)
  case (1 ty val type l r addr left right any)
  note ok = "1.prems"(1) and br = "1.prems"(2) and nxt = "1.prems"(3) and wrap = "1.prems"(4)
  note prems = "1.prems"(5-)
  have B: "L \<le> K" "K < N" "N \<le> R + 1" "ty K = Some type"
    using br by (auto simp: bracket_def)
  have NT: "N \<le> R \<Longrightarrow> ty N = Some type" using br by (auto simp: bracket_def)
  show ?case
  proof (cases "l > r")
    case True
    then have "left = K \<and> any" "right = N - 1" using prems by auto
    then show ?thesis using True by (subst stab_loop.simps) simp
  next
    case False
    define true_m where "true_m = (l + r) div 2"
    have tm: "l \<le> true_m" "true_m \<le> r" using False by (auto simp: true_m_def)
    obtain m where m: "stab_scan ty type l true_m = Some m"
      using stab_scan_total [of l true_m ty type] ok tm prems by (auto simp: stabs_ok_def)
    have S: "m \<le> true_m" "l - 1 \<le> m" "l \<le> m \<Longrightarrow> ty m = Some type"
        "\<And>i. m < i \<Longrightarrow> i \<le> true_m \<Longrightarrow> l \<le> i \<Longrightarrow> ty i \<noteq> Some type"
      using stab_scan_spec [OF m] tm by auto
    have noK: "K \<le> m" if "l \<le> K" "K \<le> true_m" using S(4) [of K] B(4) that by force
    have upN: "true_m + 1 \<le> N" if "m < N" using S(4) [of N] that NT tm prems by force
    show ?thesis
    proof (cases "m < l")
      case True
      have "left = K \<and> any \<or> true_m + 1 \<le> K" using prems noK True by linarith
      moreover have "true_m + 1 \<le> N" using upN True prems by linarith
      ultimately have "stab_loop ty val type (true_m + 1) r addr left right any = Some (K, N - 1, True)"
        using prems tm ok br nxt wrap
        by (intro "1.IH"(1) [OF False true_m_def m True]) auto
      then show ?thesis using False True m
        by (subst stab_loop.simps) (simp add: Let_def flip: true_m_def)
    next
      case ml: False
      then have Lm: "L \<le> m" "m \<le> R" "ty m = Some type" using S tm prems by auto
      then obtain v where v: "val m = Some v" using ok unfolding stabs_ok_def by blast
      note mK = bracket_below [OF ok br Lm, unfolded v option.sel]
      have neq: "v \<noteq> a + 1" using nxt Lm v by auto
      consider "v < addr" | "\<not> v < addr" "addr < v" | "v = addr" by force
      then show ?thesis
      proof cases
        case 1
        have "v \<le> a" using 1 prems(5) less_succ_word [OF wrap] by auto
        then have "m \<le> K" using mK by simp
        then have "m = K \<and> True \<or> true_m + 1 \<le> K"
          using noK ml by (cases "K \<le> true_m") auto
        moreover have "true_m + 1 \<le> N" using upN \<open>m \<le> K\<close> B by linarith
        ultimately have "stab_loop ty val type (true_m + 1) r addr m right True = Some (K, N - 1, True)"
          using prems tm ok br nxt wrap
          by (intro "1.IH"(2) [OF False true_m_def m ml v 1]) auto
        then show ?thesis using False ml m v 1
          by (subst stab_loop.simps) (simp add: Let_def flip: true_m_def)
      next
        case 2
        have "a < v" using 2 prems(5) wrap by auto
        then have "N \<le> m" using mK by simp
        then have "stab_loop ty val type l (m - 1) addr left (m - 1) True = Some (K, N - 1, True)"
          using prems tm ok br nxt wrap B S
          by (intro "1.IH"(3) [OF False true_m_def m ml v 2]) auto
        then show ?thesis using False ml m v 2
          by (subst stab_loop.simps) (simp add: Let_def flip: true_m_def)
      next
        case 3
        then have "addr = a" "m \<le> K" using neq prems(5) mK by auto
        moreover have "m \<le> N" using \<open>m \<le> K\<close> B by simp
        ultimately have "stab_loop ty val type m r (addr + 1) m right True = Some (K, N - 1, True)"
          using prems tm ok br nxt wrap B Lm 3
          by (intro "1.IH"(4) [OF False true_m_def m ml v]) auto
        then show ?thesis using False ml m v 3
          by (subst stab_loop.simps) (simp add: Let_def flip: true_m_def)
      qed
    qed
  qed
qed

text \<open>The whole search: the bracket around \<open>a\<close>.\<close>

lemma stab_binsearch_spec:
  assumes ok: "stabs_ok ty val type L R" and br: "bracket ty val type L R a K N"
    and nxt: "\<forall>i. L \<le> i \<and> i \<le> R \<and> ty i = Some type \<longrightarrow> the (val i) \<noteq> a + 1"
    and wrap: "a < a + 1"
  shows "stab_binsearch ty val L R type a = Some (K, N - 1)"
proof -
  have B: "L \<le> K" "K < N" "N \<le> R + 1" "\<And>i. K < i \<Longrightarrow> i < N \<Longrightarrow> ty i \<noteq> Some type"
    using br by (auto simp: bracket_def)
  have loop: "stab_loop ty val type L R a L R False = Some (K, N - 1, True)"
    using B by (intro stab_loop_spec [OF ok br nxt wrap]) auto
  obtain k where k: "stab_scan ty type (K + 1) (N - 1) = Some k"
    using stab_scan_total [of "K + 1" "N - 1" ty type] ok B by (auto simp: stabs_ok_def)
  have "k = K" using stab_scan_spec [OF k] B by force
  then show ?thesis using loop k by (simp add: stab_binsearch_def)
qed

text \<open>
  With entries at \<open>5\<close> and at \<open>6\<close>, a search for \<open>5\<close> answers with the entry at \<open>6\<close>: after the
  exact match the loop looks for \<open>addr + 1\<close> and takes it for an exact match too.
\<close>

lemma stab_binsearch_adjacent:
  "stab_binsearch (\<lambda>_. Some N_SLINE) (\<lambda>i. if i = 0 then Some 5 else Some 6) 0 1 N_SLINE 5 = Some (1, 1)"
  by (simp add: stab_binsearch_def stab_loop.simps stab_scan.simps)

section \<open>\<open>debuginfo_eip\<close>\<close>

text \<open>A name is the literal \<^verbatim>\<open>"<unknown>"\<close> or points into a string table.\<close>

datatype name_ptr = Unknown | At u32

record Eipdebuginfo =
  eip_file :: name_ptr
  eip_line :: int
  eip_fn_name :: name_ptr
  eip_fn_namelen :: int
  eip_fn_addr :: u32
  eip_fn_narg :: int

text \<open>The fields of entry \<open>i\<close> of the table at \<open>stabs\<close>; an entry takes 12 bytes.\<close>

definition stab_addr :: "u32 \<Rightarrow> int \<Rightarrow> u32" where
  "stab_addr stabs i = stabs + word_of_int (12 * i)"

definition n_strx :: "u32 \<Rightarrow> kstate \<Rightarrow> int \<Rightarrow> u32 option" where
  "n_strx stabs s i = peek32 (stab_addr stabs i) s"

definition n_type :: "u32 \<Rightarrow> kstate \<Rightarrow> int \<Rightarrow> u8 option" where
  "n_type stabs s i = peek8 (stab_addr stabs i + 4) s"

definition n_desc :: "u32 \<Rightarrow> kstate \<Rightarrow> int \<Rightarrow> u16 option" where
  "n_desc stabs s i = peek16 (stab_addr stabs i + 6) s"

definition n_value :: "u32 \<Rightarrow> kstate \<Rightarrow> int \<Rightarrow> u32 option" where
  "n_value stabs s i = peek32 (stab_addr stabs i + 8) s"

text \<open>A difference of \<^verbatim>\<open>struct Stab\<close> pointers, as a number of entries.\<close>

definition stab_diff :: "u32 \<Rightarrow> u32 \<Rightarrow> int" where
  "stab_diff p q = sint (p - q) div 12"

text \<open>\<^verbatim>\<open>strfind(name, ':') - name\<close>; \<open>fuel\<close> is the room left in the string table.\<close>

primrec colon_pos :: "nat \<Rightarrow> u32 \<Rightarrow> int km" where
  "colon_pos 0 p = stop BadAccess"
| "colon_pos (Suc fuel) p =
     bindP (load8 p) (\<lambda>c.
     if c = 0 \<or> c = 0x3A then ret 0
     else bindP (colon_pos fuel (p + 1)) (\<lambda>n. ret (n + 1)))"

text \<open>The backward search for the line's file, with the final \<open>lline\<close>.\<close>

function file_scan :: "(int \<Rightarrow> u8 option) \<Rightarrow> (int \<Rightarrow> u32 option) \<Rightarrow> int \<Rightarrow> int \<Rightarrow> int option" where
  "file_scan ty val lfile lline =
     (if lline < lfile then Some lline
      else case ty lline of
        None \<Rightarrow> None
      | Some t \<Rightarrow>
          if t = N_SOL then Some lline
          else if t \<noteq> N_SO then file_scan ty val lfile (lline - 1)
          else case val lline of
                 None \<Rightarrow> None
               | Some v \<Rightarrow> if v = 0 then file_scan ty val lfile (lline - 1) else Some lline)"
  by pat_completeness auto
termination
  by (relation "measure (\<lambda>(ty, val, lfile, lline). nat (lline - lfile + 1))") auto

declare file_scan.simps [simp del]

text \<open>Counting the parameters that follow a function entry.\<close>

function count_args :: "(int \<Rightarrow> u8 option) \<Rightarrow> int \<Rightarrow> int \<Rightarrow> int option" where
  "count_args ty rfun lline =
     (if lline < rfun
      then (case ty lline of
              None \<Rightarrow> None
            | Some t \<Rightarrow> if t = N_PSYM then map_option (\<lambda>n. n + 1) (count_args ty rfun (lline + 1))
                        else Some 0)
      else Some 0)"
  by pat_completeness auto
termination
  by (relation "measure (\<lambda>(ty, rfun, lline). nat (rfun - lline))") auto

declare count_args.simps [simp del]

definition search_stabs :: "u32 \<Rightarrow> int \<Rightarrow> int \<Rightarrow> u8 \<Rightarrow> u32 \<Rightarrow> (int \<times> int) km" where
  "search_stabs stabs left right type addr =
     bindP (gets (\<lambda>s. stab_binsearch (n_type stabs s) (n_value stabs s) left right type addr)) deref"

text \<open>
  The part after the tables were chosen. The result is the return value and \<^verbatim>\<open>*info\<close>.
\<close>

definition debuginfo_search ::
  "u32 \<Rightarrow> u32 \<Rightarrow> u32 \<Rightarrow> u32 \<Rightarrow> u32 \<Rightarrow> Eipdebuginfo \<Rightarrow> (int \<times> Eipdebuginfo) km" where
  "debuginfo_search stabs stab_end stabstr stabstr_end addr info =
     bindP (search_stabs stabs 0 (stab_diff stab_end stabs - 1) N_SO addr) (\<lambda>(lfile, rfile).
     if lfile = 0 then ret (-1, info)
     else bindP (search_stabs stabs lfile rfile N_FUN addr) (\<lambda>(lfun, rfun).
     bindP (if lfun \<le> rfun
            then bindP (bindP (gets (\<lambda>s. n_strx stabs s lfun)) deref) (\<lambda>strx.
                 bindP (bindP (gets (\<lambda>s. n_value stabs s lfun)) deref) (\<lambda>v.
                 ret ((if strx < stabstr_end - stabstr then info\<lparr>eip_fn_name := At (stabstr + strx)\<rparr>
                       else info)\<lparr>eip_fn_addr := v\<rparr>, addr - v, lfun, rfun)))
            else ret (info\<lparr>eip_fn_addr := addr\<rparr>, addr, lfile, rfile))
       (\<lambda>(info, addr, lline, rline).
     bindP (case eip_fn_name info of
              Unknown \<Rightarrow> ret 9
            | At p \<Rightarrow> colon_pos (unat (stabstr_end - p)) p) (\<lambda>namelen.
     bindP (search_stabs stabs lline rline N_SLINE addr) (\<lambda>(lline, rline).
     if lline > rline then ret (-1, info\<lparr>eip_fn_namelen := namelen\<rparr>)
     else bindP (bindP (gets (\<lambda>s. n_desc stabs s rline)) deref) (\<lambda>desc.
     bindP (bindP (gets (\<lambda>s. file_scan (n_type stabs s) (n_value stabs s) lfile lline)) deref) (\<lambda>fl.
     bindP (if fl \<ge> lfile
            then bindP (bindP (gets (\<lambda>s. n_strx stabs s fl)) deref) (\<lambda>strx.
                 ret (if strx < stabstr_end - stabstr then At (stabstr + strx) else eip_file info))
            else ret (eip_file info)) (\<lambda>file.
     bindP (if lfun < rfun
            then bindP (gets (\<lambda>s. count_args (n_type stabs s) rfun (lfun + 1))) deref
            else ret 0) (\<lambda>narg.
     ret (0, info\<lparr>eip_fn_namelen := namelen, eip_line := uint desc, eip_file := file,
                  eip_fn_narg := eip_fn_narg info + narg\<rparr>))))))))))"

definition debuginfo_eip :: "u32 \<Rightarrow> (int \<times> Eipdebuginfo) km" where
  "debuginfo_eip addr =
     (let info = \<lparr>eip_file = Unknown, eip_line = 0, eip_fn_name = Unknown, eip_fn_namelen = 9,
                  eip_fn_addr = addr, eip_fn_narg = 0\<rparr>;
          finish = (\<lambda>stabs stab_end stabstr stabstr_end.
            if stabstr_end \<le> stabstr then ret (-1, info)
            else bindP (load8 (stabstr_end - 1)) (\<lambda>c.
                 if c \<noteq> 0 then ret (-1, info)
                 else debuginfo_search stabs stab_end stabstr stabstr_end addr info))
      in if addr \<ge> ULIM
         then bindP (gets ksym) (\<lambda>k.
              finish (sym_stab_begin k) (sym_stab_end k) (sym_stabstr_begin k) (sym_stabstr_end k))
         else bindP (load32 USTABDATA) (\<lambda>stabs.
              bindP (load32 (USTABDATA + 4)) (\<lambda>stab_end.
              bindP (load32 (USTABDATA + 8)) (\<lambda>stabstr.
              bindP (load32 (USTABDATA + 12)) (\<lambda>stabstr_end.
              bindP (gets curenv) (\<lambda>cur.
              bindP (user_mem_check cur stabs (word_of_int (stab_diff stabs stab_end)) PTE_U) (\<lambda>stab_val.
              bindP (user_mem_check cur stabstr (stabstr - stabstr_end) PTE_U) (\<lambda>stabstr_val.
              if stab_val <s 0 \<or> stabstr_val <s 0 then ret (-1, info)
              else finish stabs stab_end stabstr stabstr_end))))))))"

end
