(* ===== verification/Monitor.thy ===== *)
theory Monitor
  imports Kdebug
begin

text \<open>
  The kernel monitor: \<^verbatim>\<open>lib/readline.c\<close>, the printing of trap frames in \<^verbatim>\<open>kern/trap.c\<close>, and
  \<^verbatim>\<open>kern/monitor.c\<close>. The line editor is a function on the characters \<open>cons_getc\<close> delivers
  (\<open>0\<close> when nothing is waiting); when they run out it would poll for ever. The monitor has no
  command that leaves it, so it never returns.
\<close>

section \<open>\<open>readline\<close>\<close>

abbreviation (input) BUFLEN :: nat where "BUFLEN \<equiv> 1024"

datatype line_result =
    Line string                 \<comment> \<open>the buffer\<close>
  | ReadError u32               \<comment> \<open>a negative character\<close>
  | NoInput                     \<comment> \<open>\<open>getchar\<close> polls for ever\<close>

text \<open>The result, the characters left, and the characters echoed.\<close>

fun readline_loop :: "u32 list \<Rightarrow> string \<Rightarrow> u32 list \<Rightarrow> line_result \<times> u32 list \<times> u32 list" where
  "readline_loop [] buf out = (NoInput, [], out)"
| "readline_loop (c # cs) buf out =
     (if c = 0 then readline_loop cs buf out
      else if c <s 0 then (ReadError c, cs, out)
      else if (c = 8 \<or> c = 0x7f) \<and> buf \<noteq> [] then readline_loop cs (butlast buf) (out @ [8])
      else if 0x20 \<le>s c \<and> length buf < BUFLEN - 1
      then readline_loop cs (buf @ [char_of (unat (ucast c :: u8))]) (out @ [c])
      else if c = 10 \<or> c = 13 then (Line buf, cs, out @ [10])
      else readline_loop cs buf out)"

text \<open>
  What \<^verbatim>\<open>%e\<close> prints depends on the table of error messages, which is longer in \<^verbatim>\<open>lab4\<close> than in the
  older trees. So the line that reports a negative character is an argument.
\<close>

definition readline_with :: "(u32 \<Rightarrow> int km) \<Rightarrow> string option \<Rightarrow> string option km" where
  "readline_with report prompt =
     thenP (case prompt of None \<Rightarrow> ret () | Some p \<Rightarrow> thenP (cprintf ''%s'' [VStr (Some p)]) (ret ()))
     (bindP (gets con_in) (\<lambda>inp.
      let (r, rest, echo) = readline_loop inp [] []
      in thenP (modify (\<lambda>s. s\<lparr>con_in := rest, console := console s @ echo\<rparr>))
         (case r of
            NoInput \<Rightarrow> stop Spinning
          | ReadError c \<Rightarrow> thenP (report c) (ret None)
          | Line l \<Rightarrow> ret (Some l))))"

definition readline :: "string option \<Rightarrow> string option km" where
  "readline = readline_with (\<lambda>c. cprintf ''read error: %e\<newline>'' [VInt c])"

text \<open>
  The older trees: their table ends at \<^verbatim>\<open>E_FAULT\<close>, so two codes come out as numbers. \<open>%e\<close> prints with
  \<^verbatim>\<open>printfmt\<close> and the formats \<^verbatim>\<open>"%s"\<close> or \<^verbatim>\<open>"error %d"\<close>. No other format of these kernels has a \<open>%e\<close>.
\<close>

definition error_string_lab3 :: "nat \<Rightarrow> string option" where
  "error_string_lab3 e =
     (if e = 1 then Some ''unspecified error''
      else if e = 2 then Some ''bad environment''
      else if e = 3 then Some ''invalid parameter''
      else if e = 4 then Some ''out of memory''
      else if e = 5 then Some ''out of environments''
      else if e = 6 then Some ''segmentation fault''
      else None)"

definition read_error_lab3 :: "u32 \<Rightarrow> int km" where
  "read_error_lab3 c =
     (if sint c = - (2 ^ 31) then cprintf ''read error: %e\<newline>'' [VInt c]
      else (let e = nat \<bar>sint c\<bar>
            in case error_string_lab3 e of
                 Some p \<Rightarrow> cprintf ''read error: %s\<newline>'' [VStr (Some p)]
               | None \<Rightarrow> cprintf ''read error: error %d\<newline>'' [VInt (of_nat e)]))"

definition readline_lab3 :: "string option \<Rightarrow> string option km" where
  "readline_lab3 = readline_with read_error_lab3"

text \<open>The buffer never overflows.\<close>

lemma readline_bound:
  assumes "length buf \<le> BUFLEN - 1" and "readline_loop inp buf out = (Line l, rest, echo)"
  shows "length l \<le> BUFLEN - 1"
  using assms
  by (induction inp buf out rule: readline_loop.induct) (auto split: if_splits)

text \<open>Plain characters followed by a return give the line typed, echoed.\<close>

lemma readline_plain:
  assumes "\<forall>c \<in> set cs. 0x20 \<le>s c \<and> c \<noteq> 0x7f \<and> c \<noteq> 0" and "length buf + length cs \<le> BUFLEN - 1"
  shows "readline_loop (cs @ 13 # rest) buf out
    = (Line (buf @ map (\<lambda>c. char_of (unat (ucast c :: u8))) cs), rest, out @ cs @ [10])"
  using assms
proof (induction cs arbitrary: buf out)
  case Nil
  then show ?case by (simp add: word_sle_eq word_sless_alt)
next
  case (Cons c cs)
  then have "c \<noteq> 8" "\<not> c <s 0" by (auto simp: word_sle_eq word_sless_alt)
  then show ?case using Cons by simp
qed

lemma readline_consumes:
  "readline_loop inp buf out = (Line l, rest, echo) \<Longrightarrow> length rest < length inp"
  by (induction inp buf out rule: readline_loop.induct) (auto split: if_splits)

section \<open>Trap frames on the console\<close>

abbreviation (input) IRQ_OFFSET :: u32 where "IRQ_OFFSET \<equiv> 32"
abbreviation (input) T_PGFLT :: u32 where "T_PGFLT \<equiv> 14"
abbreviation (input) T_SYSCALL :: u32 where "T_SYSCALL \<equiv> 48"

definition excnames :: "string list" where
  "excnames = [''Divide error'', ''Debug'', ''Non-Maskable Interrupt'', ''Breakpoint'', ''Overflow'',
     ''BOUND Range Exceeded'', ''Invalid Opcode'', ''Device Not Available'', ''Double Fault'',
     ''Coprocessor Segment Overrun'', ''Invalid TSS'', ''Segment Not Present'', ''Stack Fault'',
     ''General Protection'', ''Page Fault'', ''(unknown trap)'', ''x87 FPU Floating-Point Error'',
     ''Alignment Check'', ''Machine-Check'', ''SIMD Floating-Point Exception'']"

text \<open>\<^verbatim>\<open>trapno\<close> is a signed \<^verbatim>\<open>int\<close>; the comparison with the size of the table is unsigned.\<close>

definition trapname :: "u32 \<Rightarrow> string" where
  "trapname trapno =
     (if unat trapno < length excnames then excnames ! unat trapno
      else if trapno = T_SYSCALL then ''System call''
      else if IRQ_OFFSET \<le>s trapno \<and> trapno <s IRQ_OFFSET + 16 then ''Hardware Interrupt''
      else ''(unknown trap)'')"

abbreviation (input) printP :: "string \<Rightarrow> vararg list \<Rightarrow> unit km" where
  "printP fmt ap \<equiv> thenP (cprintf fmt ap) (ret ())"

definition print_regs :: "PushRegs \<Rightarrow> unit km" where
  "print_regs regs =
     thenP (printP ''  edi  0x%08x\<newline>'' [VInt (reg_edi regs)])
     (thenP (printP ''  esi  0x%08x\<newline>'' [VInt (reg_esi regs)])
     (thenP (printP ''  ebp  0x%08x\<newline>'' [VInt (reg_ebp regs)])
     (thenP (printP ''  oesp 0x%08x\<newline>'' [VInt (reg_oesp regs)])
     (thenP (printP ''  ebx  0x%08x\<newline>'' [VInt (reg_ebx regs)])
     (thenP (printP ''  edx  0x%08x\<newline>'' [VInt (reg_edx regs)])
     (thenP (printP ''  ecx  0x%08x\<newline>'' [VInt (reg_ecx regs)])
     (printP ''  eax  0x%08x\<newline>'' [VInt (reg_eax regs)])))))))"

definition print_trapframe :: "tf_ptr \<Rightarrow> unit km" where
  "print_trapframe p =
     bindP (gets (\<lambda>s. (read_tf p s, tf_addr p s, cpunum s, last_tf s, cr2 s))) (\<lambda>(tf, addr, cpu, lst, fault).
     thenP (printP ''TRAP frame at %p from CPU %d\<newline>'' [VInt addr, VInt (of_nat cpu)])
     (thenP (print_regs (tf_regs tf))
     (thenP (printP ''  es   0x----%04x\<newline>'' [VInt (ucast (tf_es tf))])
     (thenP (printP ''  ds   0x----%04x\<newline>'' [VInt (ucast (tf_ds tf))])
     (thenP (printP ''  trap 0x%08x %s\<newline>'' [VInt (tf_trapno tf), VStr (Some (trapname (tf_trapno tf)))])
     (thenP (whenP (addr = lst \<and> tf_trapno tf = T_PGFLT) (printP ''  cr2  0x%08x\<newline>'' [VInt fault]))
     (thenP (printP ''  err  0x%08x'' [VInt (tf_err tf)])
     (thenP (if tf_trapno tf = T_PGFLT
             then printP '' [%s, %s, %s]\<newline>''
                    [VStr (Some (if tf_err tf AND 4 \<noteq> 0 then ''user'' else ''kernel'')),
                     VStr (Some (if tf_err tf AND 2 \<noteq> 0 then ''write'' else ''read'')),
                     VStr (Some (if tf_err tf AND 1 \<noteq> 0 then ''protection'' else ''not-present''))]
             else printP ''\<newline>'' [])
     (thenP (printP ''  eip  0x%08x\<newline>'' [VInt (tf_eip tf)])
     (thenP (printP ''  cs   0x----%04x\<newline>'' [VInt (ucast (tf_cs tf))])
     (thenP (printP ''  flag 0x%08x\<newline>'' [VInt (tf_eflags tf)])
     (whenP (tf_cs tf AND 3 \<noteq> 0)
       (thenP (printP ''  esp  0x%08x\<newline>'' [VInt (tf_esp tf)])
       (printP ''  ss   0x----%04x\<newline>'' [VInt (ucast (tf_ss tf))]))))))))))))))"

section \<open>The command interpreter\<close>

abbreviation (input) MAXARGS :: nat where "MAXARGS \<equiv> 16"

definition is_space :: "char \<Rightarrow> bool" where
  "is_space c \<longleftrightarrow> c \<in> set ''\<newline> '' \<or> of_char c = (9 :: nat) \<or> of_char c = (13 :: nat)"

text \<open>The words of the buffer, unless there are more than 15; \<open>n\<close> is \<open>argc\<close>.\<close>

function split_args :: "string \<Rightarrow> nat \<Rightarrow> string list option" where
  "split_args s n =
     (case dropWhile is_space s of
        [] \<Rightarrow> Some []
      | c # cs \<Rightarrow>
          if n = MAXARGS - 1 then None
          else map_option (\<lambda>ws. (c # takeWhile (\<lambda>c. \<not> is_space c) cs) # ws)
                 (split_args (dropWhile (\<lambda>c. \<not> is_space c) cs) (Suc n)))"
  by pat_completeness auto
termination
proof (relation "measure (\<lambda>(s, n). length s)", goal_cases)
  case 1
  show ?case by simp
next
  case (2 s n c cs)
  have "length (c # cs) \<le> length s" using 2(1) length_dropWhile_le by metis
  moreover have "length (dropWhile (\<lambda>c. \<not> is_space c) cs) \<le> length cs" by (rule length_dropWhile_le)
  ultimately show ?case by simp
qed

declare split_args.simps [simp del]

datatype command = Help | Kerninfo

text \<open>\<^verbatim>\<open>commands[]\<close>: names, descriptions and functions, in order.\<close>

definition commands :: "(string \<times> string \<times> command) list" where
  "commands = [(''help'', ''Display this list of commands'', Help),
     (''kerninfo'', ''Display information about the kernel'', Kerninfo)]"

definition mon_help :: "int km" where
  "mon_help =
     thenP (forP [0..<length commands] (\<lambda>i.
              printP ''%s - %s\<newline>'' [VStr (Some (fst (commands ! i))), VStr (Some (fst (snd (commands ! i))))]))
     (ret 0)"

definition mon_kerninfo :: "int km" where
  "mon_kerninfo =
     bindP (gets ksym) (\<lambda>k.
     thenP (printP ''Special kernel symbols:\<newline>'' [])
     (thenP (printP ''  _start                  %08x (phys)\<newline>'' [VInt (sym_start k)])
     (thenP (printP ''  entry  %08x (virt)  %08x (phys)\<newline>'' [VInt (sym_entry k), VInt (sym_entry k - KERNBASE)])
     (thenP (printP ''  etext  %08x (virt)  %08x (phys)\<newline>'' [VInt (sym_etext k), VInt (sym_etext k - KERNBASE)])
     (thenP (printP ''  edata  %08x (virt)  %08x (phys)\<newline>'' [VInt (sym_edata k), VInt (sym_edata k - KERNBASE)])
     (thenP (printP ''  end    %08x (virt)  %08x (phys)\<newline>'' [VInt (sym_end k), VInt (sym_end k - KERNBASE)])
     (thenP (printP ''Kernel executable memory footprint: %dKB\<newline>''
               [VInt (word_of_int (sint (ROUNDUP (sym_end k - sym_entry k) 1024) div 1024))])
     (ret 0))))))))"

text \<open>
  The chain of frame pointers may be cyclic: at most \<open>fuel\<close> frames are followed. No command
  and no other function calls \<open>mon_backtrace\<close>.
\<close>

primrec backtrace_loop :: "nat \<Rightarrow> u32 \<Rightarrow> unit km" where
  "backtrace_loop 0 fp = (if fp = 0 then ret () else stop Spinning)"
| "backtrace_loop (Suc fuel) fp =
     (if fp = 0 then ret ()
      else bindP (load32 (fp + 4)) (\<lambda>eip.
           bindP (load32 (fp + 8)) (\<lambda>arg1.
           bindP (load32 (fp + 12)) (\<lambda>arg2.
           bindP (load32 (fp + 16)) (\<lambda>arg3.
           bindP (load32 (fp + 20)) (\<lambda>arg4.
           bindP (load32 (fp + 24)) (\<lambda>arg5.
           thenP (printP ''  ebp %08x  eip %08x  args %08x %08x %08x %08x %08x\<newline>''
                    [VInt fp, VInt eip, VInt arg1, VInt arg2, VInt arg3, VInt arg4, VInt arg5])
           (bindP (load32 fp) (\<lambda>next_ebp. backtrace_loop fuel next_ebp)))))))))"

definition mon_backtrace :: "nat \<Rightarrow> int km" where
  "mon_backtrace fuel =
     thenP (printP ''stack backtrace:\<newline>'' [])
     (bindP (gets ebp) (\<lambda>b. thenP (backtrace_loop fuel b) (ret 0)))"

definition run_command :: "command \<Rightarrow> int km" where
  "run_command c = (case c of Help \<Rightarrow> mon_help | Kerninfo \<Rightarrow> mon_kerninfo)"

definition runcmd :: "string \<Rightarrow> int km" where
  "runcmd buf =
     (case split_args buf 0 of
        None \<Rightarrow> thenP (printP ''Too many arguments (max %d)\<newline>'' [VInt (of_nat MAXARGS)]) (ret 0)
      | Some [] \<Rightarrow> ret 0
      | Some (a # as) \<Rightarrow>
          (case find (\<lambda>(name, desc, f). a = name) commands of
             Some (name, desc, f) \<Rightarrow> run_command f
           | None \<Rightarrow> thenP (printP ''Unknown command '%s'\<newline>'' [VStr (Some a)]) (ret 0)))"

text \<open>Each turn of the loop reads a line, so the input bounds the number of turns.\<close>

primrec monitor_loop :: "nat \<Rightarrow> unit km" where
  "monitor_loop 0 = stop Spinning"
| "monitor_loop (Suc n) =
     bindP (readline (Some ''K> '')) (\<lambda>buf.
     case buf of
       None \<Rightarrow> monitor_loop n
     | Some b \<Rightarrow> bindP (runcmd b) (\<lambda>r. if r < 0 then ret () else monitor_loop n))"

definition monitor :: "tf_ptr option \<Rightarrow> unit km" where
  "monitor tf =
     thenP (printP ''Welcome to the JOS kernel monitor!\<newline>'' [])
     (thenP (printP ''Type 'help' for a list of commands.\<newline>'' [])
     (thenP (case tf of None \<Rightarrow> ret () | Some p \<Rightarrow> print_trapframe p)
     (bindP (gets (\<lambda>s. length (con_in s))) (\<lambda>n. monitor_loop (Suc n)))))"

section \<open>The monitor never returns\<close>

lemma triple_UNIV:
  assumes "\<And>s a t. run m s = (Ret a, t) \<Longrightarrow> Q a"
  shows "triple (\<lambda>_. True) m (\<lambda>a _. Q a) (\<lambda>_ _. True)"
  using assms by (auto simp: triple_def split: prod.splits outcome.splits)

lemma run_then_ret:
  "run (thenP m (ret v)) s = (Ret a, t) \<Longrightarrow> a = v"
  by (auto simp: prog_simps split: prod.splits outcome.splits)

text \<open>Every command returns zero.\<close>

lemma runcmd_zero:
  assumes "run (runcmd buf) s = (Ret a, t)"
  shows "a = 0"
proof -
  have hlp: "run mon_help s = (Ret a, t) \<Longrightarrow> a = 0" for s a t
    unfolding mon_help_def by (rule run_then_ret)
  have inf: "run mon_kerninfo s = (Ret a, t) \<Longrightarrow> a = 0" for s a t
    unfolding mon_kerninfo_def
    by (auto simp: prog_simps split: prod.splits outcome.splits)
  show ?thesis
  proof (cases "split_args buf 0")
    case None
    then show ?thesis using assms unfolding runcmd_def by (auto simp: run_thenP run_ret split: prod.splits outcome.splits)
  next
    case (Some ws)
    show ?thesis
    proof (cases ws)
      case Nil
      then show ?thesis using assms Some by (simp add: runcmd_def prog_simps)
    next
      case (Cons w ws')
      then show ?thesis
        using assms Some hlp inf unfolding runcmd_def run_command_def
        by (auto simp: run_thenP run_ret split: prod.splits outcome.splits option.splits command.splits)
    qed
  qed
qed

lemma monitor_loop_never_returns: "never_returns (monitor_loop n)"
proof (induction n)
  case 0
  then show ?case by simp
next
  case (Suc n)
  have "never_returns (bindP (runcmd b) (\<lambda>r. if r < 0 then ret () else monitor_loop n))" for b
    unfolding never_returns_def
  proof (intro allI notI)
    fix s a t
    assume "run (bindP (runcmd b) (\<lambda>r. if r < 0 then ret () else monitor_loop n)) s = (Ret a, t)"
    then obtain r u where r: "run (runcmd b) s = (Ret r, u)"
        "run (if r < 0 then ret () else monitor_loop n) u = (Ret a, t)"
      by (cases rule: run_bindP_cases) auto
    then have "run (monitor_loop n) u = (Ret a, t)" using runcmd_zero [OF r(1)] by simp
    then show False using Suc by (simp add: never_returns_def)
  qed
  then show ?case using Suc by (auto intro!: never_returns_bind split: option.split)
qed

lemma monitor_never_returns: "never_returns (monitor tf)"
  unfolding monitor_def
  by (intro never_returns_then never_returns_bind monitor_loop_never_returns)

end
