(* ===== verification/Spinlock.thy ===== *)
theory Spinlock
  imports Monitor
begin

text \<open>
  \<^verbatim>\<open>kern/spinlock.c\<close>: the lock operations as the CPU that executes them sees them, and the
  interleaved execution of several CPUs on one lock, one memory access per step. Mutual
  exclusion holds in every reachable state, and the debugging checks never fire for CPUs that
  lock only what they do not hold.
\<close>

section \<open>One CPU\<close>

definition holding :: "kstate \<Rightarrow> bool" where
  "holding s \<longleftrightarrow> locked (kernel_lock s) \<noteq> 0 \<and> lk_cpu (kernel_lock s) = Some (cpunum s)"

text \<open>The return addresses along the chain of frame pointers; \<open>n\<close> slots are left to fill.\<close>

primrec get_caller_pcs :: "nat \<Rightarrow> u32 \<Rightarrow> u32 list km" where
  "get_caller_pcs 0 fp = ret []"
| "get_caller_pcs (Suc n) fp =
     (if fp = 0 \<or> fp < ULIM then ret (replicate (Suc n) 0)
      else bindP (load32 (fp + 4)) (\<lambda>pc.
           bindP (load32 fp) (\<lambda>fp'.
           bindP (get_caller_pcs n fp') (\<lambda>pcs. ret (pc # pcs)))))"

definition spin_initlock :: "unit km" where
  "spin_initlock =
     modify (\<lambda>s. s\<lparr>kernel_lock := (kernel_lock s)\<lparr>locked := 0, lk_cpu := None\<rparr>\<rparr>)"

text \<open>
  \<open>spin_lock\<close> when no other CPU runs: if the lock is taken, the \<open>xchg\<close> loop never ends.
\<close>

definition spin_lock :: "unit km" where
  "spin_lock =
     bindP (gets (\<lambda>s. (holding s, cpunum s, locked (kernel_lock s)))) (\<lambda>(held, c, old).
     if held then stop (Panic ''CPU %d cannot acquire %s: already holding'')
     else thenP (modify (\<lambda>s. s\<lparr>kernel_lock := (kernel_lock s)\<lparr>locked := 1\<rparr>\<rparr>))
          (if old \<noteq> 0 then stop Spinning
           else thenP (modify (\<lambda>s. s\<lparr>kernel_lock := (kernel_lock s)\<lparr>lk_cpu := Some c\<rparr>\<rparr>))
                (bindP (gets ebp) (\<lambda>b.
                 bindP (get_caller_pcs 10 b) (\<lambda>pcs.
                 modify (\<lambda>s. s\<lparr>kernel_lock := (kernel_lock s)\<lparr>lk_pcs := pcs\<rparr>\<rparr>))))))"

definition name_string :: "name_ptr \<Rightarrow> string km" where
  "name_string p =
     (case p of
        Unknown \<Rightarrow> ret ''<unknown>''
      | At a \<Rightarrow> gets (\<lambda>s. map (\<lambda>b. char_of (unat b))
                  (takeWhile (\<lambda>b. b \<noteq> 0) (map (\<lambda>i. case peek8 (a + of_nat i) s of None \<Rightarrow> 0 | Some b \<Rightarrow> b)
                                                [0..<4096]))))"

definition print_pc :: "u32 \<Rightarrow> unit km" where
  "print_pc pc =
     bindP (debuginfo_eip pc) (\<lambda>(r, info).
     if r \<ge> 0
     then bindP (name_string (eip_file info)) (\<lambda>file.
          bindP (name_string (eip_fn_name info)) (\<lambda>fn.
          printP ''  %08x %s:%d: %.*s+%x\<newline>''
            [VInt pc, VStr (Some file), VInt (word_of_int (eip_line info)),
             VInt (word_of_int (eip_fn_namelen info)), VStr (Some fn), VInt (pc - eip_fn_addr info)]))
     else printP ''  %08x\<newline>'' [VInt pc])"

definition spin_unlock :: "unit km" where
  "spin_unlock =
     bindP (gets holding) (\<lambda>held.
     if \<not> held
     then bindP (gets (\<lambda>s. (cpunum s, kernel_lock s))) (\<lambda>(c, lk).
          bindP (deref (lk_cpu lk)) (\<lambda>owner.
          bindP (gets (\<lambda>s. CpuInfo.cpu_id (cpus s owner))) (\<lambda>oid.
          thenP (printP ''CPU %d cannot release %s: held by CPU %d\<newline>Acquired at:''
                   [VInt (of_nat c), VStr (Some ''kernel_lock''), VInt (ucast oid)])
          (thenP (forP (takeWhile (\<lambda>pc. pc \<noteq> 0) (take 10 (lk_pcs lk))) print_pc)
          (stop (Panic ''spin_unlock''))))))
     else thenP (modify (\<lambda>s. s\<lparr>kernel_lock := (kernel_lock s)\<lparr>lk_pcs := (lk_pcs (kernel_lock s))[0 := 0],
                                  lk_cpu := None\<rparr>\<rparr>))
          (modify (\<lambda>s. s\<lparr>kernel_lock := (kernel_lock s)\<lparr>locked := 0\<rparr>\<rparr>)))"

text \<open>Unlocking a lock nobody ever took dereferences the null \<open>lk->cpu\<close>.\<close>

lemma spin_unlock_free:
  assumes "locked (kernel_lock s) = 0" and "lk_cpu (kernel_lock s) = None"
  shows "run spin_unlock s = (Stop BadAccess, s)"
  using assms by (simp add: spin_unlock_def prog_simps holding_def)

lemma spin_unlock_held:
  assumes "holding s"
  shows "\<exists>t. run spin_unlock s = (Ret (), t) \<and> locked (kernel_lock t) = 0 \<and> lk_cpu (kernel_lock t) = None"
  using assms by (simp add: spin_unlock_def prog_simps)

section \<open>Systems and their invariants\<close>

text \<open>Reachable states of a step relation, and invariants that hold in all of them.\<close>

inductive reachable :: "('s \<Rightarrow> bool) \<Rightarrow> ('s \<Rightarrow> 's \<Rightarrow> bool) \<Rightarrow> 's \<Rightarrow> bool"
  for init :: "'s \<Rightarrow> bool" and step :: "'s \<Rightarrow> 's \<Rightarrow> bool" where
  start: "init s \<Longrightarrow> reachable init step s"
| more: "reachable init step s \<Longrightarrow> step s t \<Longrightarrow> reachable init step t"

locale invariant_system =
  fixes init :: "'s \<Rightarrow> bool" and step :: "'s \<Rightarrow> 's \<Rightarrow> bool" and inv :: "'s \<Rightarrow> bool"
  assumes init_inv: "init s \<Longrightarrow> inv s"
    and step_inv: "inv s \<Longrightarrow> step s t \<Longrightarrow> inv t"
begin

lemma always: "reachable init step s \<Longrightarrow> inv s"
  by (induction rule: reachable.induct) (blast intro: init_inv step_inv)+

lemma safe: "reachable init step s \<Longrightarrow> (\<And>s. inv s \<Longrightarrow> \<not> bad s) \<Longrightarrow> \<not> bad s"
  using always by blast

end

section \<open>Several CPUs\<close>

text \<open>Where a CPU is in \<open>spin_lock\<close> or \<open>spin_unlock\<close>.\<close>

datatype lock_pc =
    Outside       \<comment> \<open>not holding the lock\<close>
  | Checking      \<comment> \<open>in \<open>holding\<close>, \<open>lk->locked\<close> was nonzero\<close>
  | Trying        \<comment> \<open>at the \<open>xchg\<close>\<close>
  | Recording     \<comment> \<open>got the lock, before \<open>lk->cpu = thiscpu\<close>\<close>
  | Inside        \<comment> \<open>holding the lock\<close>
  | Unlocking     \<comment> \<open>in the \<open>holding\<close> of \<open>spin_unlock\<close>, \<open>lk->locked\<close> was nonzero\<close>
  | Releasing     \<comment> \<open>after \<open>lk->cpu = 0\<close>, before the \<open>xchg\<close>\<close>
  | Panicked

record lock_sys =
  lk_locked :: u32
  lk_owner :: "nat option"
  lk_pc :: "nat \<Rightarrow> lock_pc"

definition set_pc :: "nat \<Rightarrow> lock_pc \<Rightarrow> lock_sys \<Rightarrow> lock_sys" where
  "set_pc c p x = x\<lparr>lk_pc := (lk_pc x)(c := p)\<rparr>"

inductive lock_step :: "lock_sys \<Rightarrow> lock_sys \<Rightarrow> bool" where
  check_free: "lk_pc x c = Outside \<Longrightarrow> lk_locked x = 0 \<Longrightarrow> lock_step x (set_pc c Trying x)"
| check_taken: "lk_pc x c = Outside \<Longrightarrow> lk_locked x \<noteq> 0 \<Longrightarrow> lock_step x (set_pc c Checking x)"
| check_other: "lk_pc x c = Checking \<Longrightarrow> lk_owner x \<noteq> Some c \<Longrightarrow> lock_step x (set_pc c Trying x)"
| check_mine: "lk_pc x c = Checking \<Longrightarrow> lk_owner x = Some c \<Longrightarrow> lock_step x (set_pc c Panicked x)"
| xchg_fail: "lk_pc x c = Trying \<Longrightarrow> lk_locked x \<noteq> 0 \<Longrightarrow> lock_step x (x\<lparr>lk_locked := 1\<rparr>)"
| xchg_get: "lk_pc x c = Trying \<Longrightarrow> lk_locked x = 0 \<Longrightarrow>
    lock_step x (set_pc c Recording (x\<lparr>lk_locked := 1\<rparr>))"
| note_owner: "lk_pc x c = Recording \<Longrightarrow> lock_step x (set_pc c Inside (x\<lparr>lk_owner := Some c\<rparr>))"
| unlock_free: "lk_pc x c = Inside \<Longrightarrow> lk_locked x = 0 \<Longrightarrow> lock_step x (set_pc c Panicked x)"
| unlock_taken: "lk_pc x c = Inside \<Longrightarrow> lk_locked x \<noteq> 0 \<Longrightarrow> lock_step x (set_pc c Unlocking x)"
| unlock_other: "lk_pc x c = Unlocking \<Longrightarrow> lk_owner x \<noteq> Some c \<Longrightarrow> lock_step x (set_pc c Panicked x)"
| unlock_mine: "lk_pc x c = Unlocking \<Longrightarrow> lk_owner x = Some c \<Longrightarrow>
    lock_step x (set_pc c Releasing (x\<lparr>lk_owner := None\<rparr>))"
| release: "lk_pc x c = Releasing \<Longrightarrow> lock_step x (set_pc c Outside (x\<lparr>lk_locked := 0\<rparr>))"

inductive_cases lock_stepE: "lock_step x y"

definition lock_init :: "lock_sys \<Rightarrow> bool" where
  "lock_init x \<longleftrightarrow> lk_locked x = 0 \<and> lk_owner x = None \<and> (\<forall>c. lk_pc x c = Outside)"

definition owns :: "lock_pc \<Rightarrow> bool" where
  "owns p \<longleftrightarrow> p \<in> {Recording, Inside, Unlocking, Releasing}"

definition lock_inv :: "lock_sys \<Rightarrow> bool" where
  "lock_inv x \<longleftrightarrow>
     (\<forall>c d. owns (lk_pc x c) \<and> owns (lk_pc x d) \<longrightarrow> c = d) \<and>
     (lk_locked x \<noteq> 0 \<longleftrightarrow> (\<exists>c. owns (lk_pc x c))) \<and>
     (\<forall>c. lk_owner x = Some c \<longleftrightarrow> lk_pc x c = Inside \<or> lk_pc x c = Unlocking) \<and>
     (\<forall>c. lk_pc x c \<noteq> Panicked)"

lemma set_pc_sel [simp]:
  "lk_locked (set_pc c p x) = lk_locked x" "lk_owner (set_pc c p x) = lk_owner x"
  "lk_pc (set_pc c p x) = (lk_pc x)(c := p)"
  by (simp_all add: set_pc_def)

lemma owns_simps [simp]:
  "owns Recording" "owns Inside" "owns Unlocking" "owns Releasing"
  "\<not> owns Outside" "\<not> owns Checking" "\<not> owns Trying" "\<not> owns Panicked"
  by (simp_all add: owns_def)

lemma lock_init_inv: "lock_init x \<Longrightarrow> lock_inv x"
  by (simp add: lock_init_def lock_inv_def)

text \<open>A step from one place to another of the same kind.\<close>

lemma lock_inv_move:
  assumes inv: "lock_inv x" and "owns p = owns (lk_pc x c)" and "p \<noteq> Panicked"
    and "(p = Inside \<or> p = Unlocking) = (lk_pc x c = Inside \<or> lk_pc x c = Unlocking)"
  shows "lock_inv (set_pc c p x)"
proof -
  have "owns (lk_pc (set_pc c p x) d) = owns (lk_pc x d)" for d using assms(2) by simp
  moreover have "(lk_pc (set_pc c p x) d = Inside \<or> lk_pc (set_pc c p x) d = Unlocking)
      = (lk_pc x d = Inside \<or> lk_pc x d = Unlocking)" for d using assms(4) by auto
  moreover have "lk_pc (set_pc c p x) d \<noteq> Panicked" for d
    using assms(1,3) by (simp add: lock_inv_def)
  ultimately show ?thesis using inv unfolding lock_inv_def by simp
qed

lemma lock_step_inv:
  assumes "lock_inv x" and "lock_step x y"
  shows "lock_inv y"
  using assms(2)
proof cases
  case (check_free c)
  then show ?thesis using assms(1) by (simp add: lock_inv_move)
next
  case (check_taken c)
  then show ?thesis using assms(1) by (simp add: lock_inv_move)
next
  case (check_other c)
  then show ?thesis using assms(1) by (simp add: lock_inv_move)
next
  case (check_mine c)
  then show ?thesis using assms(1) unfolding lock_inv_def by auto
next
  case (xchg_fail c)
  then show ?thesis using assms(1) unfolding lock_inv_def by auto
next
  case (xchg_get c)
  then have "\<forall>d. \<not> owns (lk_pc x d)" "lk_owner x = None"
    using assms(1) unfolding lock_inv_def by (auto, metis not_None_eq owns_simps(2,3))
  then show ?thesis using xchg_get assms(1) unfolding lock_inv_def by (auto split: if_splits)
next
  case (note_owner c)
  then have o: "owns (lk_pc x c)" by simp
  then have one: "\<And>d. owns (lk_pc x d) \<Longrightarrow> d = c" and lkd: "lk_locked x \<noteq> 0"
    using assms(1) unfolding lock_inv_def by blast+
  have rest: "lk_pc x d \<noteq> Inside" "lk_pc x d \<noteq> Unlocking" for d
    using one [of d] note_owner by auto
  then show ?thesis using note_owner assms(1) one lkd unfolding lock_inv_def
    by (auto split: if_splits)
next
  case (unlock_free c)
  then show ?thesis using assms(1) unfolding lock_inv_def by (metis owns_simps(2))
next
  case (unlock_taken c)
  then show ?thesis using assms(1) by (simp add: lock_inv_move)
next
  case (unlock_other c)
  then show ?thesis using assms(1) unfolding lock_inv_def by auto
next
  case (unlock_mine c)
  then have o: "owns (lk_pc x c)" by simp
  then have one: "\<And>d. owns (lk_pc x d) \<Longrightarrow> d = c" and lkd: "lk_locked x \<noteq> 0"
    using assms(1) unfolding lock_inv_def by blast+
  have rest: "d \<noteq> c \<Longrightarrow> lk_pc x d \<noteq> Inside \<and> lk_pc x d \<noteq> Unlocking" for d
    using one [of d] by auto
  then show ?thesis using unlock_mine assms(1) one lkd unfolding lock_inv_def
    by (auto split: if_splits)
next
  case (release c)
  then have "\<forall>d. owns (lk_pc x d) \<longrightarrow> d = c" using assms(1) unfolding lock_inv_def by auto
  then show ?thesis using release assms(1) unfolding lock_inv_def
    by (auto split: if_splits)
qed

interpretation lock: invariant_system lock_init lock_step lock_inv
  by unfold_locales (blast intro: lock_init_inv lock_step_inv)+

end
