(* ===== verification/EnvC.thy ===== *)
theory EnvC
  imports VMem
begin

text \<open>
  \<^verbatim>\<open>kern/env.c\<close>: the environment table and its free list, the address space of a new
  environment, loading an ELF image, freeing an environment, and the switch to user mode.
  \<open>env_destroy\<close>, which calls the scheduler, is in \<open>Sched\<close>. Properties are in \<open>EnvTable\<close>.
\<close>

section \<open>Segments\<close>

definition gdt_init :: "nat \<Rightarrow> Segdesc" where
  "gdt_init i =
     (if i = unat (drop_bit 3 GD_KT) then SEG (STA_X OR STA_R) 0 0xffffffff 0
      else if i = unat (drop_bit 3 GD_KD) then SEG STA_W 0 0xffffffff 0
      else if i = unat (drop_bit 3 GD_UT) then SEG (STA_X OR STA_R) 0 0xffffffff 3
      else if i = unat (drop_bit 3 GD_UD) then SEG STA_W 0 0xffffffff 3
      else SEG_NULL)"

text \<open>
  \<open>env_init_percpu\<close> loads segment registers with \<open>lgdt\<close>, \<open>mov\<close>, \<open>ljmp\<close> and \<open>lldt\<close>; the state
  has no segment registers, so nothing of it shows.
\<close>

section \<open>Looking environments up\<close>

text \<open>The result code and the value stored through \<open>env_store\<close>.\<close>

definition envid2env :: "u32 \<Rightarrow> bool \<Rightarrow> (u32 \<times> nat option) km" where
  "envid2env envid checkperm =
     bindP (gets curenv) (\<lambda>cur.
     if envid = 0 then ret (0, cur)
     else (let e = ENVX envid
           in bindP (gets (\<lambda>s. envs s e)) (\<lambda>env.
              if env_status env = ENV_FREE \<or> env_id env \<noteq> envid then ret (- E_BAD_ENV, None)
              else if checkperm \<and> Some e \<noteq> cur
              then bindP (deref cur) (\<lambda>c.
                   bindP (gets (\<lambda>s. env_id (envs s c))) (\<lambda>cid.
                   if env_parent_id env \<noteq> cid then ret (- E_BAD_ENV, None)
                   else ret (0, Some e)))
              else ret (0, Some e))))"

text \<open>The end of the free list is searched from its head; \<open>fuel\<close> bounds the walk.\<close>

primrec append_env :: "nat \<Rightarrow> nat \<Rightarrow> nat \<Rightarrow> unit km" where
  "append_env 0 runner i = stop Spinning"
| "append_env (Suc fuel) runner i =
     bindP (gets (\<lambda>s. env_link (envs s runner))) (\<lambda>l.
     case l of
       None \<Rightarrow> modify (upd_env runner (\<lambda>e. e\<lparr>env_link := Some i\<rparr>))
     | Some r \<Rightarrow> append_env fuel r i)"

definition env_init_slot :: "nat \<Rightarrow> unit km" where
  "env_init_slot i =
     thenP (modify (upd_env i (\<lambda>e. e\<lparr>env_status := ENV_FREE, env_id := 0, env_link := None\<rparr>)))
     (if i = 0 then modify (\<lambda>s. s\<lparr>env_free_list := Some i\<rparr>)
      else bindP (gets env_free_list) (\<lambda>head.
           case head of None \<Rightarrow> ret () | Some r \<Rightarrow> append_env (NENV + 1) r i))"

definition env_init :: "unit km" where
  "env_init = forP [0..<NENV] env_init_slot"

section \<open>Allocating an environment\<close>

text \<open>\<^verbatim>\<open>curenv ? curenv->env_id : 0\<close>\<close>

definition cur_id :: "kstate \<Rightarrow> u32" where
  "cur_id s = (case curenv s of None \<Rightarrow> 0 | Some c \<Rightarrow> env_id (envs s c))"

definition env_setup_vm :: "nat \<Rightarrow> u32 km" where
  "env_setup_vm e =
     bindP (page_alloc ALLOC_ZERO) (\<lambda>p.
     case p of
       None \<Rightarrow> ret (- E_NO_MEM)
     | Some pp \<Rightarrow>
         thenP (modify (upd_page pp (\<lambda>q. q\<lparr>pp_ref := pp_ref q + 1\<rparr>)))
         (bindP (page2kva pp) (\<lambda>kva.
          thenP (modify (upd_env e (\<lambda>v. v\<lparr>env_pgdir := Some (kva_frame kva)\<rparr>)))
          (thenP (modify (\<lambda>s. copy_frame (kva_frame kva) (kern_pgdir s) s))
          (bindP (PADDR kva) (\<lambda>pa.
           thenP (modify (store_word (kva_frame kva) (unat (PDX UVPT)) (pa OR PTE_P OR PTE_U)))
           (ret 0)))))))"

definition new_env_id :: "u32 \<Rightarrow> nat \<Rightarrow> u32" where
  "new_env_id old e =
     (let generation = (old + push_bit ENVGENSHIFT 1) AND NOT (of_nat NENV - 1);
          generation' = (if generation \<le>s 0 then push_bit ENVGENSHIFT 1 else generation)
      in generation' OR of_nat e)"

definition new_env_tf :: Trapframe where
  "new_env_tf = zero_tf\<lparr>tf_ds := GD_UD OR 3, tf_es := GD_UD OR 3, tf_ss := GD_UD OR 3,
     tf_esp := USTACKTOP, tf_cs := GD_UT OR 3\<rparr>"

definition env_alloc :: "u32 \<Rightarrow> (u32 \<times> nat option) km" where
  "env_alloc parent_id =
     bindP (gets env_free_list) (\<lambda>head.
     case head of
       None \<Rightarrow> ret (- E_NO_FREE_ENV, None)
     | Some e \<Rightarrow>
         bindP (env_setup_vm e) (\<lambda>r.
         if r <s 0 then ret (r, None)
         else thenP (modify (upd_env e (\<lambda>v. v\<lparr>env_id := new_env_id (env_id v) e,
                       env_parent_id := parent_id, env_type := ENV_TYPE_USER,
                       env_status := ENV_RUNNABLE, env_runs := 0, env_tf := new_env_tf,
                       env_pgfault_upcall := 0, env_ipc_recving := False\<rparr>)))
              (thenP (modify (\<lambda>s. s\<lparr>env_free_list := env_link (envs s e)\<rparr>))
              (bindP (gets (\<lambda>s. (cur_id s, env_id (envs s e)))) (\<lambda>(c, i).
               thenP (cprintf ''[%08x] new env %08x\<newline>'' [VInt c, VInt i])
               (ret (0, Some e)))))))"

section \<open>Loading a program\<close>

definition region_alloc_page :: "nat \<Rightarrow> u32 \<Rightarrow> nat \<Rightarrow> unit km" where
  "region_alloc_page e start i =
     bindP (page_alloc 0) (\<lambda>newPage.
     case newPage of
       None \<Rightarrow> stop (Panic ''region_alloc tried to allocate space/pages, but there wasn't enough free!'')
     | Some pp \<Rightarrow>
         bindP (gets (\<lambda>s. env_pgdir (envs s e))) (\<lambda>pd.
         bindP (deref pd) (\<lambda>pgdir.
         bindP (page_insert pgdir pp (start + of_nat i * PGSIZE) (PTE_P OR PTE_W OR PTE_U)) (\<lambda>pass.
         if pass = 0 then ret ()
         else if pass < 0
         then stop (Panic ''page_insert in region_alloc() failed! you should be concerned'')
         else ret ()))))"

definition region_alloc :: "nat \<Rightarrow> u32 \<Rightarrow> u32 \<Rightarrow> unit km" where
  "region_alloc e va len =
     (if len = 0 then ret ()
      else (let up = ROUNDUP (va + len) PGSIZE; down = ROUNDDOWN va PGSIZE;
                totalPages = (up - down) div PGSIZE
            in forP [0..<unat totalPages] (region_alloc_page e down)))"

abbreviation (input) ELF_MAGIC :: u32 where "ELF_MAGIC \<equiv> 0x464C457F"
abbreviation (input) ELF_PROG_LOAD :: u32 where "ELF_PROG_LOAD \<equiv> 1"

text \<open>Offsets of the fields of \<^verbatim>\<open>struct Elf\<close> and \<^verbatim>\<open>struct Proghdr\<close> (\<^verbatim>\<open>inc/elf.h\<close>).\<close>

abbreviation (input) off_e_magic :: u32 where "off_e_magic \<equiv> 0"
abbreviation (input) off_e_entry :: u32 where "off_e_entry \<equiv> 24"
abbreviation (input) off_e_phoff :: u32 where "off_e_phoff \<equiv> 28"
abbreviation (input) off_e_phnum :: u32 where "off_e_phnum \<equiv> 44"
abbreviation (input) off_p_type :: u32 where "off_p_type \<equiv> 0"
abbreviation (input) off_p_offset :: u32 where "off_p_offset \<equiv> 4"
abbreviation (input) off_p_va :: u32 where "off_p_va \<equiv> 8"
abbreviation (input) off_p_filesz :: u32 where "off_p_filesz \<equiv> 16"
abbreviation (input) off_p_memsz :: u32 where "off_p_memsz \<equiv> 20"
abbreviation (input) sizeof_Proghdr :: u32 where "sizeof_Proghdr \<equiv> 32"

definition load_segment :: "nat \<Rightarrow> u32 \<Rightarrow> u32 \<Rightarrow> unit km" where
  "load_segment e binary ph =
     bindP (load32 (ph + off_p_type)) (\<lambda>type.
     if type = ELF_PROG_LOAD
     then bindP (load32 (ph + off_p_va)) (\<lambda>va.
          bindP (load32 (ph + off_p_memsz)) (\<lambda>memsz.
          thenP (region_alloc e va memsz)
          (bindP (load32 (ph + off_p_offset)) (\<lambda>off.
           thenP (vmemset va 0 memsz)
           (bindP (load32 (ph + off_p_filesz)) (\<lambda>filesz.
            vmemcpy va (binary + off) filesz))))))
     else ret ())"

text \<open>\<open>n\<close> is the number of headers left: \<^verbatim>\<open>endOfProgramHeader - mainProgramHeader\<close>.\<close>

primrec load_segments :: "nat \<Rightarrow> nat \<Rightarrow> u32 \<Rightarrow> u32 \<Rightarrow> u32 \<Rightarrow> unit km" where
  "load_segments 0 e binary ph eph = ret ()"
| "load_segments (Suc n) e binary ph eph =
     (if ph < eph
      then thenP (load_segment e binary ph) (load_segments n e binary (ph + sizeof_Proghdr) eph)
      else ret ())"

definition load_icode :: "nat \<Rightarrow> u32 \<Rightarrow> unit km" where
  "load_icode e binary =
     (if binary = 0 then stop (Panic ''incoming binary location NULL in load_icode() function'')
      else bindP (gets (\<lambda>s. env_pgdir (envs s e))) (\<lambda>pd.
      bindP (deref pd) (\<lambda>pgdir.
      bindP (PADDR (frame_kva pgdir)) (\<lambda>pa.
      thenP (lcr3 pa)
      (bindP (load32 (binary + off_e_magic)) (\<lambda>magic.
       if magic \<noteq> ELF_MAGIC then stop (Panic ''ELF_MAGIC error!'')
       else bindP (load32 (binary + off_e_phoff)) (\<lambda>phoff.
       bindP (load16 (binary + off_e_phnum)) (\<lambda>phnum.
       thenP (load_segments (unat phnum) e binary (binary + phoff)
                (binary + phoff + ucast phnum * sizeof_Proghdr))
       (bindP (page_alloc ALLOC_ZERO) (\<lambda>newPage.
        case newPage of
          None \<Rightarrow> stop (Panic ''allocated new page in second part of load_icode and it didn't work!'')
        | Some pp \<Rightarrow>
            bindP (page_insert pgdir pp (USTACKTOP - PGSIZE) (PTE_P OR PTE_U OR PTE_W)) (\<lambda>pass.
            if pass <s 0
            then stop (Panic ''page_insert() failed in load_icode() function after trying to insert a page for the program's initial stack!!'')
            else bindP (gets kern_pgdir) (\<lambda>kp.
                 bindP (PADDR (frame_kva kp)) (\<lambda>kpa.
                 thenP (lcr3 kpa)
                 (bindP (load32 (binary + off_e_entry)) (\<lambda>entry.
                  modify (upd_env e (\<lambda>v. v\<lparr>env_tf := (env_tf v)\<lparr>tf_eip := entry\<rparr>\<rparr>)))))))))))))))))"

definition env_create :: "u32 \<Rightarrow> EnvType \<Rightarrow> unit km" where
  "env_create binary type =
     bindP (env_alloc 0) (\<lambda>(pass, newEnv).
     if pass <s 0
     then (if pass = - E_NO_FREE_ENV
           then stop (Panic ''couldn't create a new enviornment in env_create(): -E_NO_FREE_ENV'')
           else stop (Panic ''coudln't create a new enviornment in env_create(): -E_NO_MEM''))
     else bindP (deref newEnv) (\<lambda>e.
          thenP (modify (upd_env e (\<lambda>v. v\<lparr>env_type := type\<rparr>)))
          (load_icode e binary)))"

section \<open>Freeing an environment\<close>

definition env_free_pte :: "nat \<Rightarrow> nat \<Rightarrow> nat \<Rightarrow> nat \<Rightarrow> unit km" where
  "env_free_pte pgdir pdeno pt pteno =
     bindP (gets (\<lambda>s. pmem s pt pteno)) (\<lambda>pte.
     if pte AND PTE_P \<noteq> 0 then page_remove pgdir (PGADDR (of_nat pdeno) (of_nat pteno) 0)
     else ret ())"

definition env_free_pde :: "nat \<Rightarrow> nat \<Rightarrow> unit km" where
  "env_free_pde pgdir pdeno =
     bindP (gets (\<lambda>s. pmem s pgdir pdeno)) (\<lambda>pde.
     if pde AND PTE_P = 0 then ret ()
     else (let pa = PTE_ADDR pde
           in bindP (KADDR pa) (\<lambda>kva.
              thenP (forP [0..<unat (PTX (NOT 0)) + 1] (env_free_pte pgdir pdeno (kva_frame kva)))
              (thenP (modify (store_word pgdir pdeno 0))
              (bindP (pa2page pa) page_decref)))))"

definition env_free :: "nat \<Rightarrow> unit km" where
  "env_free e =
     bindP (gets curenv) (\<lambda>cur.
     thenP (whenP (cur = Some e)
              (bindP (gets kern_pgdir) (\<lambda>kp. bindP (PADDR (frame_kva kp)) lcr3)))
     (bindP (gets (\<lambda>s. (cur_id s, env_id (envs s e)))) (\<lambda>(c, i).
      thenP (cprintf ''[%08x] free env %08x\<newline>'' [VInt c, VInt i])
      (bindP (gets (\<lambda>s. env_pgdir (envs s e))) (\<lambda>pd.
       bindP (deref pd) (\<lambda>pgdir.
       thenP (forP [0..<unat (PDX UTOP)] (env_free_pde pgdir))
       (bindP (PADDR (frame_kva pgdir)) (\<lambda>pa.
        thenP (modify (upd_env e (\<lambda>v. v\<lparr>env_pgdir := None\<rparr>)))
        (thenP (bindP (pa2page pa) page_decref)
        (modify (\<lambda>s. (upd_env e (\<lambda>v. v\<lparr>env_status := ENV_FREE, env_link := env_free_list s\<rparr>) s)
                       \<lparr>env_free_list := Some e\<rparr>)))))))))))"

section \<open>Running an environment\<close>

definition env_pop_tf :: "unit km" where
  "env_pop_tf =
     bindP (gets curenv) (\<lambda>cur.
     bindP (deref cur) (\<lambda>c.
     thenP (modify (\<lambda>s. upd_env c (\<lambda>v. v\<lparr>env_cpunum := of_nat (cpunum s)\<rparr>) s))
     (stop UserMode)))"

definition env_run :: "nat \<Rightarrow> unit km" where
  "env_run e =
     bindP (gets curenv) (\<lambda>cur.
     thenP (case cur of None \<Rightarrow> ret ()
            | Some c \<Rightarrow> modify (upd_env c (\<lambda>v. v\<lparr>env_status := ENV_RUNNABLE\<rparr>)))
     (thenP (modify (set_curenv (Some e)))
     (thenP (modify (upd_env e (\<lambda>v. v\<lparr>env_status := ENV_RUNNING, env_runs := env_runs v + 1\<rparr>)))
     (bindP (gets (\<lambda>s. env_pgdir (envs s e))) (\<lambda>pd.
      bindP (deref pd) (\<lambda>pgdir.
      bindP (PADDR (frame_kva pgdir)) (\<lambda>pa.
      thenP (lcr3 pa) env_pop_tf)))))))"

end
