(* ===== verification/EnvTable.thy ===== *)
theory EnvTable
  imports EnvC
begin

text \<open>
  The environment table of \<^verbatim>\<open>kern/env.c\<close>: \<open>env_init\<close> threads all environments on the free
  list in order, \<open>env_alloc\<close> takes the first one, gives it a fresh positive id from which
  \<open>envid2env\<close> finds its slot again, and an address space that is the kernel's above \<open>UTOP\<close>;
  \<open>env_run\<close> enters user mode in the address space of its argument.
\<close>

section \<open>The free list\<close>

abbreviation env_chain :: "kstate \<Rightarrow> nat list \<Rightarrow> bool" where
  "env_chain s xs \<equiv> linked (\<lambda>i. env_link (envs s i)) (env_free_list s) xs"

lemma linked_append_end:
  assumes "linked nxt p xs" and "xs \<noteq> []" and "i \<notin> set xs" and "nxt i = None"
  shows "linked (nxt(last xs := Some i)) p (xs @ [i])"
  using assms
proof (induction xs arbitrary: p)
  case (Cons x xs)
  show ?case
  proof (cases "xs = []")
    case True
    then show ?thesis using Cons.prems by auto
  next
    case False
    have "x \<noteq> last xs" using linked_distinct [OF Cons.prems(1)] False by auto
    then show ?thesis using Cons False by auto
  qed
qed simp

lemma append_env_run:
  assumes "linked (\<lambda>i. env_link (envs s i)) (Some r) xs" and "length xs \<le> fuel" and "xs \<noteq> []"
  shows "run (append_env fuel r i) s = (Ret (), upd_env (last xs) (\<lambda>e. e\<lparr>env_link := Some i\<rparr>) s)"
  using assms
proof (induction fuel arbitrary: r xs)
  case (Suc fuel)
  then obtain ys where xs: "xs = r # ys" by (cases xs) auto
  show ?case
  proof (cases ys)
    case Nil
    then show ?thesis using Suc.prems xs by (simp add: prog_simps)
  next
    case (Cons y zs)
    then show ?thesis using Suc.IH [of y ys] Suc.prems xs by (simp add: prog_simps)
  qed
qed simp

definition env_init_upto :: "kstate \<Rightarrow> nat \<Rightarrow> kstate \<Rightarrow> bool" where
  "env_init_upto s n t \<longleftrightarrow>
     env_chain t [0..<n] \<and> env_free_list t = Some 0 \<and>
     (\<forall>i < n. env_status (envs t i) = ENV_FREE \<and> env_id (envs t i) = 0)"

lemma env_init_first: "\<exists>t. run (env_init_slot 0) s = (Ret (), t) \<and> env_init_upto s 1 t"
  by (simp add: env_init_slot_def prog_simps env_init_upto_def)

lemma env_init_step:
  assumes "env_init_upto s n t" and "n \<noteq> 0" and "n \<le> NENV"
  shows "\<exists>u. run (env_init_slot n) t = (Ret (), u) \<and> env_init_upto s (Suc n) u"
proof -
  let ?t = "upd_env n (\<lambda>e. e\<lparr>env_status := ENV_FREE, env_id := 0, env_link := None\<rparr>) t"
  have same: "linked (\<lambda>i. env_link (envs ?t i)) (Some 0) [0..<n]"
  proof -
    have "linked (\<lambda>i. env_link (envs ?t i)) (Some 0) [0..<n]
        = linked (\<lambda>i. env_link (envs t i)) (Some 0) [0..<n]"
      by (intro linked_cong) simp
    then show ?thesis using assms(1) unfolding env_init_upto_def by metis
  qed
  have last: "last [0..<n] = n - 1" using assms(2) by (simp add: last_conv_nth)
  let ?u = "upd_env (n - 1) (\<lambda>e. e\<lparr>env_link := Some n\<rparr>) ?t"
  have run: "run (env_init_slot n) t = (Ret (), ?u)"
    using append_env_run [OF same, of "NENV + 1" n] assms last
    by (simp add: env_init_slot_def prog_simps env_init_upto_def del: append_env.simps)
  have "(\<lambda>i. env_link (envs ?u i)) = (\<lambda>i. env_link (envs ?t i))(n - 1 := Some n)"
    by (auto simp: fun_eq_iff)
  then have "linked (\<lambda>i. env_link (envs ?u i)) (Some 0) ([0..<n] @ [n])"
    using linked_append_end [OF same, of n] assms(2) last by simp
  then have "env_init_upto s (Suc n) ?u"
    using assms by (auto simp: env_init_upto_def less_Suc_eq)
  then show ?thesis using run by blast
qed

lemma env_init_loop:
  assumes "n \<le> NENV"
  shows "\<exists>t. run (forP [0..<Suc n] env_init_slot) s = (Ret (), t) \<and> env_init_upto s (Suc n) t"
  using assms
proof (induction n)
  case 0
  then show ?case using env_init_first [of s] by (auto simp: prog_simps)
next
  case (Suc n)
  then obtain t where t: "run (forP [0..<Suc n] env_init_slot) s = (Ret (), t)" "env_init_upto s (Suc n) t"
    by auto
  moreover obtain u where "run (env_init_slot (Suc n)) t = (Ret (), u)" "env_init_upto s (Suc (Suc n)) u"
    using env_init_step [OF t(2)] Suc.prems by auto
  moreover have "[0..<Suc (Suc n)] = [0..<Suc n] @ [Suc n]" by simp
  ultimately show ?case by (auto simp: run_for_append run_thenP prog_simps simp del: upt_Suc)
qed

lemma env_init_run: "\<exists>t. run env_init s = (Ret (), t) \<and> env_init_upto s NENV t"
  using env_init_loop [of 1023 s] by (simp add: env_init_def del: upt_Suc)

section \<open>Environment ids\<close>

lemma sgt0_iff: "(0 :: u32) <s x \<longleftrightarrow> \<not> bit x 31 \<and> x \<noteq> 0"
proof -
  have "0 <s x \<longleftrightarrow> 0 < sint x" by (simp add: word_sless_alt)
  also have "\<dots> \<longleftrightarrow> 0 \<le> sint x \<and> sint x \<noteq> 0" by auto
  also have "0 \<le> sint x \<longleftrightarrow> \<not> bit x 31" by (simp add: not_less [symmetric] sint_uint bit_uint_iff)
  also have "sint x \<noteq> 0 \<longleftrightarrow> x \<noteq> 0" by (simp add: signed_eq_0_iff)
  finally show ?thesis .
qed

lemma mask_1023: "(of_nat NENV - 1 :: u32) = mask 10"
  by (simp add: mask_eq_exp_minus_1)

definition generation :: "u32 \<Rightarrow> u32" where
  "generation old =
     (let g = (old + push_bit ENVGENSHIFT 1) AND NOT (of_nat NENV - 1)
      in if g \<le>s 0 then push_bit ENVGENSHIFT 1 else g)"

lemma new_env_id_generation: "new_env_id old e = generation old OR of_nat e"
  by (simp add: new_env_id_def generation_def Let_def)

lemma generation_low: "take_bit 10 (generation old) = 0"
proof -
  have "take_bit 10 (x AND NOT (mask 10)) = 0" for x :: u32
    by (rule bit_word_eqI) (auto simp: bit_simps)
  moreover have "take_bit 10 (push_bit 12 1 :: u32) = 0" by simp
  ultimately show ?thesis unfolding generation_def Let_def mask_1023 by (simp split: if_splits)
qed

lemma generation_pos: "0 <s generation old"
  by (auto simp: generation_def Let_def not_le_imp_less word_sle_eq word_sless_alt)

lemma small_env: "e < 1024 \<Longrightarrow> take_bit 10 (of_nat e :: u32) = of_nat e"
  by (rule take_bit_below) (simp add: unat_of_nat)

lemma ENVX_new_env_id:
  assumes "e < 1024"
  shows "ENVX (new_env_id old e) = e"
proof -
  have "take_bit 10 (new_env_id old e) = of_nat e"
    by (simp add: new_env_id_generation take_bit_or generation_low small_env assms)
  then show ?thesis
    unfolding ENVX_def mask_1023 take_bit_eq_mask [symmetric]
    using assms by (simp add: unat_of_nat)
qed

lemma new_env_id_pos:
  assumes "e < 1024"
  shows "0 <s new_env_id old e"
proof -
  have "\<not> bit (take_bit 10 (of_nat e :: u32)) 31" by (simp add: bit_take_bit_iff)
  then have "\<not> bit (of_nat e :: u32) 31" unfolding small_env [OF assms] .
  moreover have g: "\<not> bit (generation old) 31" "generation old \<noteq> 0"
    using generation_pos [of old] unfolding sgt0_iff by blast+
  moreover have "generation old OR of_nat e \<noteq> 0"
    using g(2) by (simp add: or_eq_0_iff)
  ultimately show ?thesis
    unfolding sgt0_iff new_env_id_generation bit_or_iff by blast
qed

text \<open>The id of a slot changes with every allocation, so old ids go stale.\<close>

lemma generation_new:
  assumes "drop_bit 10 old = drop_bit 10 (generation old)"
  shows False
proof -
  have mult: "drop_bit 10 (x AND NOT (mask 10)) = drop_bit 10 x" for x :: u32
    by (rule bit_word_eqI) (auto simp: bit_simps dest: bit_imp_le_length)
  have unat_drop: "unat (drop_bit 10 x) = unat x div 1024" for x :: u32
    by (simp only: unsigned_drop_bit_eq)
      (simp add: drop_bit_eq_div take_bit_nat_eq_self [OF unat_less_32])
  have step: "unat (drop_bit 10 (old + 4096)) = (unat old div 1024 + 4) mod 4194304"
  proof -
    have "unat (old + 4096) = (unat old + 4096) mod 4294967296" by (simp add: unat_word_ariths)
    moreover have "(m :: nat) mod 4294967296 div 1024 = (m div 1024) mod 4194304" for m
      using mod_mult2_eq [of m 1024 4194304] by simp
    moreover have "(unat old + 4096) div 1024 = unat old div 1024 + 4"
      using div_plus_div_distrib_dvd_right [of 1024 4096 "unat old"] by simp
    ultimately show ?thesis unfolding unat_drop by simp
  qed
  have small: "unat old div 1024 < 4194304" using unat_less_32 [of old] by simp
  show False
  proof (cases "(old + 4096) AND NOT (mask 10) \<le>s 0")
    case False
    then have "drop_bit 10 old = drop_bit 10 (old + 4096)"
      using assms mult unfolding generation_def Let_def mask_1023 by simp
    then have "unat old div 1024 = (unat old div 1024 + 4) mod 4194304"
      using step unat_drop by metis
    then show False using small by (simp add: mod_if split: if_splits)
  next
    case True
    then have "drop_bit 10 old = 4"
      using assms unfolding generation_def Let_def mask_1023 by simp
    then have "unat (drop_bit 10 (old + 4096)) = 8"
      using step unat_drop [of old] by simp
    then have "drop_bit 10 (old + 4096) = 8" by (simp add: word_unat_eq_iff)
    moreover have "(old + 4096) AND NOT (mask 10) = push_bit 10 (drop_bit 10 (old + 4096))"
      by (rule bit_word_eqI) (auto simp: bit_simps dest: bit_imp_le_length)
    ultimately have "(old + 4096) AND NOT (mask 10) = 8192" by simp
    then show False using True by (simp add: word_sle_eq)
  qed
qed

lemma new_env_id_fresh:
  assumes "e < 1024"
  shows "new_env_id old e \<noteq> old"
proof
  assume eq: "new_env_id old e = old"
  have "drop_bit 10 (of_nat e :: u32) = 0"
    using small_env [OF assms] by (metis drop_bit_take_bit diff_self_eq_0 take_bit_0)
  then have "drop_bit 10 (new_env_id old e) = drop_bit 10 (generation old)"
    by (simp add: new_env_id_generation drop_bit_or)
  then show False using eq generation_new by metis
qed

section \<open>\<open>envid2env\<close>\<close>

lemma envid2env_current: "run (envid2env 0 checkperm) s = (Ret (0, curenv s), s)"
  by (simp add: envid2env_def prog_simps)

text \<open>Every branch for a nonzero id, when some environment is current.\<close>

lemma envid2env_run:
  assumes "envid \<noteq> 0" and "curenv s = Some c"
  shows "run (envid2env envid checkperm) s =
    (let e = ENVX envid; v = envs s e
     in if env_status v \<noteq> ENV_FREE \<and> env_id v = envid
             \<and> (checkperm \<longrightarrow> e = c \<or> env_parent_id v = env_id (envs s c))
        then (Ret (0, Some e), s) else (Ret (- E_BAD_ENV, None), s))"
  using assms by (auto simp: envid2env_def prog_simps Let_def)

lemma envid2env_unchecked:
  assumes "envid \<noteq> 0"
  shows "run (envid2env envid False) s =
    (let v = envs s (ENVX envid)
     in if env_status v \<noteq> ENV_FREE \<and> env_id v = envid
        then (Ret (0, Some (ENVX envid)), s) else (Ret (- E_BAD_ENV, None), s))"
  using assms by (auto simp: envid2env_def prog_simps Let_def)

section \<open>\<open>env_setup_vm\<close> and \<open>env_alloc\<close>\<close>

lemma env_formats [formats]:
  "vprintfmt ''[%08x] new env %08x\<newline>'' [VInt a, VInt b] \<noteq> None"
  "vprintfmt ''[%08x] free env %08x\<newline>'' [VInt a, VInt b] \<noteq> None"
  by (simp_all add: fmt_eval)

lemma PADDR_frame:
  assumes "f < 65536"
  shows "run (PADDR (frame_kva f)) s = (Ret (page2pa f), s)"
proof -
  have u: "unat (page2pa f) = 4096 * f" using assms by (intro unat_page2pa) simp
  have "unat (frame_kva f) = 4096 * f + 4026531840"
    unfolding frame_kva_def using assms u by (subst unat_add_small32) simp_all
  then have "\<not> frame_kva f < KERNBASE" by (simp add: word_less_nat_alt)
  then show ?thesis by (simp add: prog_simps frame_kva_def)
qed

text \<open>The state after \<open>env_setup_vm\<close> gave page \<open>x\<close> to environment \<open>e\<close>.\<close>

definition vm_ready :: "nat \<Rightarrow> nat \<Rightarrow> kstate \<Rightarrow> kstate" where
  "vm_ready e x s =
     store_word x UVPT_index (page2pa x OR PTE_P OR PTE_U)
       (copy_frame x (kern_pgdir s)
         (upd_env e (\<lambda>v. v\<lparr>env_pgdir := Some x\<rparr>)
           (upd_page x (\<lambda>q. q\<lparr>pp_ref := pp_ref q + 1\<rparr>) (taken x True s))))"

lemma env_setup_vm_run:
  assumes free: "free_pages s (x # xs)" and m: "machine_ok s"
  shows "run (env_setup_vm e) s = (Ret 0, vm_ready e x s)"
proof -
  have x: "x < npages s" "x < 65536" "x < 1048576"
    using free m by (auto simp: free_pages_def machine_ok_def)
  have alloc: "run (page_alloc 1) s = (Ret (Some x), taken x True s)"
    using page_alloc_run [OF free m, of 1] by simp
  let ?t = "upd_page x (\<lambda>q. q\<lparr>pp_ref := pp_ref q + 1\<rparr>) (taken x True s)"
  have "run (page2kva x) ?t = (Ret (frame_kva x), ?t)"
    using m x by (intro run_page2kva) (simp_all add: machine_ok_def)
  moreover have "unat (PDX UVPT) = UVPT_index" by (rule UVPT_index)
  ultimately show ?thesis
    using alloc x PADDR_frame [OF x(2)] kva_frame_frame_kva [OF x(3)]
    by (simp add: env_setup_vm_def prog_simps vm_ready_def del: upd_page_sel(1))
qed

lemma vm_ready_sel [simp]:
  "npages (vm_ready e x s) = npages s" "page_free_list (vm_ready e x s) = pp_link (pages s x)"
  "env_free_list (vm_ready e x s) = env_free_list s" "cpus (vm_ready e x s) = cpus s"
  "cpunum (vm_ready e x s) = cpunum s" "kern_pgdir (vm_ready e x s) = kern_pgdir s"
  "envs (vm_ready e x s) = (envs s)(e := (envs s e)\<lparr>env_pgdir := Some x\<rparr>)"
  "pp_ref (pages (vm_ready e x s) y) = (if y = x then pp_ref (pages s y) + 1 else pp_ref (pages s y))"
  by (simp_all add: vm_ready_def)

lemma vm_ready_pmem:
  "kern_pgdir s \<noteq> x \<Longrightarrow> pmem (vm_ready e x s) f =
     (if f = x then (pmem s (kern_pgdir s))(UVPT_index := page2pa x OR PTE_P OR PTE_U) else pmem s f)"
  by (simp add: vm_ready_def)

lemma vm_ready_free:
  assumes "free_pages s (x # xs)"
  shows "free_pages (vm_ready e x s) xs"
proof -
  have "x \<notin> set xs" using free_pages_distinct [OF assms] by simp
  then have "free_pages (upd_page x (\<lambda>p. p\<lparr>pp_ref := pp_ref p + 1\<rparr>) (taken x True s)) xs"
    by (intro free_pages_ref taken_free_pages assms) simp_all
  then show ?thesis by (subst free_pages_cong [rotated 3]) (simp_all add: vm_ready_def)
qed

definition fresh_env :: "nat \<Rightarrow> u32 \<Rightarrow> nat \<Rightarrow> Env \<Rightarrow> Env" where
  "fresh_env e parent x v = v\<lparr>env_pgdir := Some x, env_id := new_env_id (env_id v) e,
     env_parent_id := parent, env_type := ENV_TYPE_USER, env_status := ENV_RUNNABLE,
     env_runs := 0, env_tf := new_env_tf, env_pgfault_upcall := 0, env_ipc_recving := False\<rparr>"

lemma env_alloc_run:
  assumes ef: "env_free_list s = Some e" and free: "free_pages s (x # xs)" and m: "machine_ok s"
  shows "\<exists>t. run (env_alloc parent) s = (Ret (0, Some e), t)
    \<and> envs t = (envs s)(e := fresh_env e parent x (envs s e))
    \<and> env_free_list t = env_link (envs s e) \<and> free_pages t xs
    \<and> pmem t = pmem (vm_ready e x s) \<and> npages t = npages s \<and> kern_pgdir t = kern_pgdir s
    \<and> (\<forall>y. pp_ref (pages t y) = (if y = x then pp_ref (pages s y) + 1 else pp_ref (pages s y)))"
proof -
  let ?u = "vm_ready e x s"
  let ?v = "upd_env e (\<lambda>v. v\<lparr>env_id := new_env_id (env_id v) e, env_parent_id := parent,
     env_type := ENV_TYPE_USER, env_status := ENV_RUNNABLE, env_runs := 0, env_tf := new_env_tf,
     env_pgfault_upcall := 0, env_ipc_recving := False\<rparr>) ?u"
  let ?w = "?v\<lparr>env_free_list := env_link (envs ?v e)\<rparr>"
  let ?t = "?w\<lparr>console := console ?w
     @ render ''[%08x] new env %08x\<newline>'' [VInt (cur_id ?w), VInt (env_id (envs ?w e))]\<rparr>"
  have run: "run (env_alloc parent) s = (Ret (0, Some e), ?t)"
    using ef env_setup_vm_run [OF free m, of e]
    by (simp add: env_alloc_def prog_simps run_cprintf formats del: upd_env_sel vm_ready_sel)
  have "free_pages ?t xs"
    using vm_ready_free [OF free, of e] by (subst free_pages_cong [of _ ?u]) simp_all
  then show ?thesis
    using run by (intro exI [of _ ?t]) (simp add: fresh_env_def)
qed

lemma env_alloc_none:
  "env_free_list s = None \<Longrightarrow> run (env_alloc parent) s = (Ret (- E_NO_FREE_ENV, None), s)"
  by (simp add: env_alloc_def prog_simps)

lemma env_alloc_no_memory:
  assumes "env_free_list s = Some e" and "free_pages s []"
  shows "run (env_alloc parent) s = (Ret (- E_NO_MEM, None), s)"
  using assms page_alloc_empty [of s 1]
  by (simp add: env_alloc_def env_setup_vm_def prog_simps word_sless_alt)

section \<open>\<open>env_run\<close>\<close>

text \<open>The environments after the switch: the old one is runnable, the new one runs.\<close>

definition switched :: "nat option \<Rightarrow> nat \<Rightarrow> nat \<Rightarrow> (nat \<Rightarrow> Env) \<Rightarrow> nat \<Rightarrow> Env" where
  "switched cur e cpu es =
     (let es' = (case cur of None \<Rightarrow> es | Some c \<Rightarrow> es(c := (es c)\<lparr>env_status := ENV_RUNNABLE\<rparr>))
      in es'(e := (es' e)\<lparr>env_status := ENV_RUNNING, env_runs := env_runs (es' e) + 1,
                          env_cpunum := of_nat cpu\<rparr>))"

lemma env_run_run:
  assumes pd: "env_pgdir (envs s e) = Some pd" and "pd < 65536"
  shows "\<exists>t. run (env_run e) s = (Stop UserMode, t) \<and> curenv t = Some e \<and> cr3 t = page2pa pd
    \<and> envs t = switched (curenv s) e (cpunum s) (envs s) \<and> pmem t = pmem s \<and> pages t = pages s
    \<and> cpunum t = cpunum s"
proof -
  let ?a = "case curenv s of None \<Rightarrow> s | Some c \<Rightarrow> upd_env c (\<lambda>v. v\<lparr>env_status := ENV_RUNNABLE\<rparr>) s"
  have pd': "env_pgdir (envs ?a e) = Some pd" using pd by (simp split: option.splits)
  show ?thesis
    using pd' PADDR_frame [OF assms(2)]
    by (cases "curenv s")
      (simp_all add: env_run_def env_pop_tf_def lcr3_def prog_simps switched_def Let_def)
qed

end
