(* ===== verification/Sched.thy ===== *)
theory Sched
  imports Spinlock EnvTable
begin

text \<open>
  \<^verbatim>\<open>kern/sched.c\<close>, and the two functions that give the CPU away: \<open>env_destroy\<close>
  (\<^verbatim>\<open>kern/env.c\<close>) and \<open>user_mem_assert\<close> (\<^verbatim>\<open>kern/pmap.c\<close>). \<open>sched_yield\<close> chooses no
  environment in this tree: it halts.
\<close>

definition alive :: "env_status \<Rightarrow> bool" where
  "alive st \<longleftrightarrow> st = ENV_RUNNABLE \<or> st = ENV_RUNNING \<or> st = ENV_DYING"

text \<open>
  After \<open>unlock_kernel\<close> the CPU executes \<open>hlt\<close> for ever. \<open>while (1) monitor(NULL)\<close> is one call,
  because \<open>monitor\<close> does not return.
\<close>

definition sched_halt :: "unit km" where
  "sched_halt =
     bindP (gets (\<lambda>s. \<exists>i \<in> set [0..<NENV]. alive (env_status (envs s i)))) (\<lambda>some_env.
     if \<not> some_env
     then thenP (printP ''No runnable environments in the system!\<newline>'' [])
          (thenP (monitor None) (stop MonitorLoop))
     else thenP (modify (set_curenv None))
          (bindP (gets kern_pgdir) (\<lambda>kp.
           bindP (PADDR (frame_kva kp)) (\<lambda>pa.
           thenP (lcr3 pa)
           (thenP (modify (\<lambda>s. s\<lparr>cpus := (cpus s)(cpunum s := (cpus s (cpunum s))\<lparr>cpu_status := CPU_HALTED\<rparr>)\<rparr>))
           (thenP spin_unlock
           (stop Halted)))))))"

definition sched_yield :: "unit km" where
  "sched_yield = sched_halt"

definition env_destroy :: "nat \<Rightarrow> unit km" where
  "env_destroy e =
     bindP (gets (\<lambda>s. (env_status (envs s e), curenv s))) (\<lambda>(st, cur).
     if st = ENV_RUNNING \<and> cur \<noteq> Some e
     then modify (upd_env e (\<lambda>v. v\<lparr>env_status := ENV_DYING\<rparr>))
     else thenP (env_free e)
          (bindP (gets curenv) (\<lambda>cur.
           if cur = Some e then thenP (modify (set_curenv None)) sched_yield
           else ret ())))"

definition user_mem_assert :: "nat option \<Rightarrow> u32 \<Rightarrow> u32 \<Rightarrow> u32 \<Rightarrow> unit km" where
  "user_mem_assert env va len perm =
     bindP (user_mem_check env va len (perm OR PTE_U)) (\<lambda>r.
     if r <s 0
     then bindP (deref env) (\<lambda>e.
          bindP (gets (\<lambda>s. (env_id (envs s e), user_mem_check_addr s))) (\<lambda>(i, a).
          thenP (printP ''[%08x] user_mem_check assertion failure for va %08x\<newline>'' [VInt i, VInt a])
          (env_destroy e)))
     else ret ())"

lemma sched_yield_never_returns: "never_returns sched_yield"
  unfolding sched_yield_def sched_halt_def
  by (intro never_returns_bind never_returns_if never_returns_then never_returns_stop)

section \<open>The current environment is kept by the memory manager\<close>

abbreviation (input) running_on :: "kstate \<Rightarrow> (nat \<Rightarrow> CpuInfo) \<times> nat \<times> bool \<times> u32 \<times> spinlock" where
  "running_on s \<equiv> (cpus s, cpunum s, panicstr s, eflags s, kernel_lock s)"

lemma cprintf_keeps_cpus [keeps_rules]: "keeps running_on (cprintf fmt ap)"
  by (auto simp: keeps_def run_def cprintf_def split: option.splits)

lemma upd_keeps_cpus [keeps_rules]:
  "keeps running_on (modify (upd_page p g))" "keeps running_on (modify (upd_env e h))"
  "keeps running_on (modify (store_word f i w))" "keeps running_on (modify (fill_frame f w))"
  "keeps running_on (lcr3 pa)" "keeps running_on (invlpg va)" "keeps running_on (modify (push_free p))"
  by (simp_all add: keeps_modify lcr3_def invlpg_def push_free_def)

lemma address_keeps [keeps_rules]:
  "keeps f (PADDR kva)" "keeps f (KADDR pa)" "keeps f (pa2page pa)" "keeps f (page2kva pp)"
  unfolding PADDR_def KADDR_def pa2page_def page2kva_def by (intro keeps_rules)+

lemma alloc_keeps_cpus [keeps_rules]:
  "keeps running_on (page_alloc flags)" "keeps running_on (page_free pp)"
  "keeps running_on (page_decref pp)"
  unfolding page_alloc_def page_decref_def page_free_def
  by (intro keeps_rules keeps_modify; simp)+

lemma walk_keeps_cpus [keeps_rules]:
  "keeps running_on (pgdir_walk pgdir va create)" "keeps running_on (page_lookup pgdir va)"
  "keeps running_on (tlb_invalidate pgdir va)"
  unfolding pgdir_walk_def pte_ptr_def page_lookup_def load_pte_def tlb_invalidate_def
  by (intro keeps_rules)+

lemma remove_keeps_cpus [keeps_rules]: "keeps running_on (page_remove pgdir va)"
  unfolding page_remove_def store_pte_def by (intro keeps_rules)

lemma env_free_keeps_cpus [keeps_rules]: "keeps running_on (env_free e)"
  unfolding env_free_def env_free_pde_def env_free_pte_def Let_def
  by (intro keeps_rules keeps_modify; simp)+

section \<open>Giving the CPU away\<close>

lemma env_destroy_current:
  assumes "curenv s = Some e"
  shows "\<exists>x t. run (env_destroy e) s = (Stop x, t)"
proof -
  obtain r t where free: "run (env_free e) s = (r, t)" by (cases "run (env_free e) s")
  have "curenv t = Some e"
    using keepsD [OF env_free_keeps_cpus free] assms by simp
  moreover obtain x u where "run sched_yield (set_curenv None t) = (Stop x, u)"
    using never_returns_stops [OF sched_yield_never_returns] by blast
  ultimately show ?thesis
    using free assms by (cases r) (auto simp: env_destroy_def prog_simps)
qed

text \<open>An environment running elsewhere is only marked.\<close>

lemma env_destroy_elsewhere:
  assumes "env_status (envs s e) = ENV_RUNNING" and "curenv s \<noteq> Some e"
  shows "run (env_destroy e) s = (Ret (), upd_env e (\<lambda>v. v\<lparr>env_status := ENV_DYING\<rparr>) s)"
  using assms by (simp add: env_destroy_def prog_simps)

section \<open>The scheduler\<close>

text \<open>The CPU before it releases the lock to halt.\<close>

definition about_to_halt :: "kstate \<Rightarrow> kstate" where
  "about_to_halt s =
     (let t = set_curenv None s
      in t\<lparr>cr3 := page2pa (kern_pgdir s),
           cpus := (cpus t)(cpunum s := (cpus t (cpunum s))\<lparr>cpu_status := CPU_HALTED\<rparr>)\<rparr>)"

text \<open>Releasing the lock this CPU holds lets it halt. If nobody holds it, \<open>lk->cpu\<close> is null.\<close>

lemma sched_yield_halts:
  assumes "i < NENV" and "alive (env_status (envs s i))" and "kern_pgdir s < 65536"
  shows "run sched_yield s =
    (case run spin_unlock (about_to_halt s) of (Ret _, t) \<Rightarrow> (Stop Halted, t) | (Stop e, t) \<Rightarrow> (Stop e, t))"
proof -
  have ex: "\<exists>i \<in> set [0..<NENV]. alive (env_status (envs s i))" using assms(1,2) by auto
  then show ?thesis
    using assms(3)
    by (simp add: sched_yield_def sched_halt_def about_to_halt_def prog_simps PADDR_frame lcr3_def Let_def del: run_PADDR split: prod.splits outcome.splits)
qed

end
