(* ===== verification/Syscall.thy ===== *)
theory Syscall
  imports Sched
begin

text \<open>
  \<^verbatim>\<open>kern/syscall.c\<close>: the system calls and their dispatch. The calls of the last assignment
  are stubs that panic in this tree and are not dispatched.
\<close>

abbreviation (input) SYS_cputs :: u32 where "SYS_cputs \<equiv> 0"
abbreviation (input) SYS_cgetc :: u32 where "SYS_cgetc \<equiv> 1"
abbreviation (input) SYS_getenvid :: u32 where "SYS_getenvid \<equiv> 2"
abbreviation (input) SYS_env_destroy :: u32 where "SYS_env_destroy \<equiv> 3"
abbreviation (input) NSYSCALLS :: u32 where "NSYSCALLS \<equiv> 13"

text \<open>
  What \<^verbatim>\<open>"%.*s"\<close> does with the user's string: \<open>vprintfmt\<close> fetches a character, compares
  the count with the precision and prints it before it fetches the next one. It touches one
  character more than it prints, and what it has printed when a fetch faults stays printed.
\<close>

primrec put_str :: "nat \<Rightarrow> u32 \<Rightarrow> unit km" where
  "put_str 0 va = thenP (load8 va) (ret ())"
| "put_str (Suc n) va =
     bindP (load8 va) (\<lambda>c.
     if c = 0 then ret ()
     else thenP (modify (\<lambda>s. s\<lparr>console := console s @ [scast c]\<rparr>)) (put_str n (va + 1)))"

text \<open>A negative precision is no limit. A null string is printed as \<^verbatim>\<open>"(null)"\<close>.\<close>

definition print_limit :: "u32 \<Rightarrow> nat" where
  "print_limit len = (if len <s 0 then 2 ^ 32 else unat len)"

definition sys_cputs :: "u32 \<Rightarrow> u32 \<Rightarrow> unit km" where
  "sys_cputs str len =
     bindP (gets curenv) (\<lambda>cur.
     thenP (user_mem_assert cur str len PTE_U)
     (if str = 0 then printP ''%.*s'' [VInt len, VStr None]
      else put_str (print_limit len) str))"

text \<open>\<open>cons_getc\<close>: what the devices have to offer, or zero.\<close>

definition cons_getc :: "u32 km" where
  "cons_getc =
     bindP (gets con_in) (\<lambda>inp.
     case inp of [] \<Rightarrow> ret 0 | c # cs \<Rightarrow> thenP (modify (\<lambda>s. s\<lparr>con_in := cs\<rparr>)) (ret c))"

definition sys_cgetc :: "u32 km" where
  "sys_cgetc = cons_getc"

definition sys_getenvid :: "u32 km" where
  "sys_getenvid =
     bindP (gets curenv) (\<lambda>cur. bindP (deref cur) (\<lambda>c. gets (\<lambda>s. env_id (envs s c))))"

definition sys_env_destroy :: "u32 \<Rightarrow> u32 km" where
  "sys_env_destroy envid =
     bindP (envid2env envid True) (\<lambda>(r, e).
     if r <s 0 then ret r
     else bindP (gets curenv) (\<lambda>cur.
          bindP (deref cur) (\<lambda>c.
          bindP (gets (\<lambda>s. env_id (envs s c))) (\<lambda>cid.
          bindP (deref e) (\<lambda>target.
          thenP (if e = cur then printP ''[%08x] exiting gracefully\<newline>'' [VInt cid]
                 else bindP (gets (\<lambda>s. env_id (envs s target))) (\<lambda>tid.
                      printP ''[%08x] destroying %08x\<newline>'' [VInt cid, VInt tid]))
          (thenP (env_destroy target) (ret 0)))))))"

definition sys_yield :: "unit km" where
  "sys_yield = sched_yield"

definition sys_exofork :: "u32 km" where
  "sys_exofork = stop (Panic ''sys_exofork not implemented'')"

definition sys_env_set_status :: "u32 \<Rightarrow> u32 \<Rightarrow> u32 km" where
  "sys_env_set_status envid status = stop (Panic ''sys_env_set_status not implemented'')"

definition sys_env_set_pgfault_upcall :: "u32 \<Rightarrow> u32 \<Rightarrow> u32 km" where
  "sys_env_set_pgfault_upcall envid func = stop (Panic ''sys_env_set_pgfault_upcall not implemented'')"

definition sys_page_alloc :: "u32 \<Rightarrow> u32 \<Rightarrow> u32 \<Rightarrow> u32 km" where
  "sys_page_alloc envid va perm = stop (Panic ''sys_page_alloc not implemented'')"

definition sys_page_map :: "u32 \<Rightarrow> u32 \<Rightarrow> u32 \<Rightarrow> u32 \<Rightarrow> u32 \<Rightarrow> u32 km" where
  "sys_page_map srcenvid srcva dstenvid dstva perm = stop (Panic ''sys_page_map not implemented'')"

definition sys_page_unmap :: "u32 \<Rightarrow> u32 \<Rightarrow> u32 km" where
  "sys_page_unmap envid va = stop (Panic ''sys_page_unmap not implemented'')"

definition sys_ipc_try_send :: "u32 \<Rightarrow> u32 \<Rightarrow> u32 \<Rightarrow> u32 \<Rightarrow> u32 km" where
  "sys_ipc_try_send envid value srcva perm = stop (Panic ''sys_ipc_try_send not implemented'')"

definition sys_ipc_recv :: "u32 \<Rightarrow> u32 km" where
  "sys_ipc_recv dstva = stop (Panic ''sys_ipc_recv not implemented'')"

definition syscall :: "u32 \<Rightarrow> u32 \<Rightarrow> u32 \<Rightarrow> u32 \<Rightarrow> u32 \<Rightarrow> u32 \<Rightarrow> u32 km" where
  "syscall syscallno a1 a2 a3 a4 a5 =
     (if syscallno = SYS_cputs then thenP (sys_cputs a1 a2) (ret 0)
      else if syscallno = SYS_cgetc then sys_cgetc
      else if syscallno = SYS_getenvid then sys_getenvid
      else if syscallno = SYS_env_destroy then sys_env_destroy a1
      else if syscallno = NSYSCALLS then thenP (printP ''NSYSCALLS was called'' []) (ret (-1))
      else ret (- E_INVAL))"

section \<open>The kernel reads one byte too many\<close>

lemma run_load8 [prog_simps]:
  "run (load8 va) s = (case peek8 va s of None \<Rightarrow> (Stop BadAccess, s) | Some b \<Rightarrow> (Ret b, s))"
  by (simp add: load8_def prog_simps)

text \<open>Printing a string whose first \<open>length bs\<close> bytes can be read.\<close>

lemma put_str_run:
  assumes "\<forall>i < length bs. peek8 (va + of_nat i) s = Some (bs ! i) \<and> bs ! i \<noteq> 0"
  shows "run (put_str (length bs) va) s =
     (if peek8 (va + of_nat (length bs)) s = None then (Stop BadAccess, s\<lparr>console := console s @ map scast bs\<rparr>)
      else (Ret (), s\<lparr>console := console s @ map scast bs\<rparr>))"
  using assms
proof (induction bs arbitrary: va s)
  case Nil
  then show ?case by (auto simp: prog_simps split: option.splits)
next
  case (Cons b bs)
  have b: "peek8 va s = Some b" "b \<noteq> 0" using Cons.prems [rule_format, of 0] by simp_all
  have peek: "peek8 a (s\<lparr>console := c\<rparr>) = peek8 a s" for a c by (simp add: peek8_def translate_def)
  have "\<forall>i < length bs. peek8 (va + 1 + of_nat i) s = Some (bs ! i) \<and> bs ! i \<noteq> 0"
  proof (intro allI impI)
    fix i
    assume "i < length bs"
    then have "peek8 (va + of_nat (Suc i)) s = Some ((b # bs) ! Suc i) \<and> (b # bs) ! Suc i \<noteq> 0" using Cons.prems [rule_format, of "Suc i"] by simp
    then show "peek8 (va + 1 + of_nat i) s = Some (bs ! i) \<and> bs ! i \<noteq> 0" by (simp add: algebra_simps)
  qed
  then show ?case
    using b Cons.IH [of "va + 1" "s\<lparr>console := console s @ [scast b]\<rparr>"] by (simp add: prog_simps peek algebra_simps)
qed

text \<open>
  A string the permission check accepts, without a terminator and ending where the mapping
  ends: it is printed to its last character, and then the kernel faults.
\<close>

lemma sys_cputs_overrun:
  assumes check: "run (user_mem_check (curenv s) str len PTE_U) s = (Ret 0, s)" and "0 \<le>s len" and "str \<noteq> 0"
    and len: "length bs = unat len" and "\<forall>i < unat len. peek8 (str + of_nat i) s = Some (bs ! i) \<and> bs ! i \<noteq> 0"
    and "peek8 (str + len) s = None"
  shows "run (sys_cputs str len) s = (Stop BadAccess, s\<lparr>console := console s @ map scast bs\<rparr>)"
proof -
  have "run (user_mem_assert (curenv s) str len PTE_U) s = (Ret (), s)"
    using check by (simp add: user_mem_assert_def prog_simps)
  moreover have "print_limit len = length bs" "of_nat (length bs) = len"
    using assms(2) len by (simp_all add: print_limit_def word_sle_eq word_sless_alt)
  ultimately show ?thesis using put_str_run [of bs str s] assms(3,5,6) len by (simp add: sys_cputs_def prog_simps)
qed

text \<open>Numbers that are not dispatched.\<close>

lemma syscall_invalid:
  assumes "4 \<le> unat syscallno" and "syscallno \<noteq> NSYSCALLS"
  shows "run (syscall syscallno a1 a2 a3 a4 a5) s = (Ret (- E_INVAL), s)"
  using assms by (auto simp: syscall_def prog_simps)

end
