(* ===== verification/Trap.thy ===== *)
theory Trap
  imports Syscall
begin

text \<open>
  \<^verbatim>\<open>kern/trap.c\<close>: the interrupt descriptor table, the dispatch of traps, page faults, and
  \<open>trap\<close> itself, which never returns.
\<close>

section \<open>Set-up\<close>

text \<open>The gates \<open>trap_init\<close> fills in: vector, trap gate or interrupt gate, privilege level.\<close>

definition trap_gates :: "(nat \<times> bool \<times> u8) list" where
  "trap_gates = [(0, True, 0), (1, True, 0), (2, False, 0), (3, True, 3), (4, True, 0), (5, True, 0),
     (6, True, 0), (7, True, 0), (8, False, 0), (10, True, 0), (11, True, 0), (12, True, 0),
     (13, True, 0), (14, True, 0), (16, True, 0), (17, True, 0), (18, False, 0), (19, True, 0),
     (48, True, 3)]"

definition set_gate :: "nat \<times> bool \<times> u8 \<Rightarrow> unit km" where
  "set_gate g = (case g of (v, istrap, dpl) \<Rightarrow>
     modify (\<lambda>s. s\<lparr>idt := (idt s)(v := SETGATE istrap GD_KT (sym_trap_label (ksym s) v) dpl)\<rparr>))"

abbreviation (input) sizeof_Taskstate :: u32 where "sizeof_Taskstate \<equiv> 104"

definition trap_init_percpu :: "unit km" where
  "trap_init_percpu =
     thenP (modify (\<lambda>s. s\<lparr>ts_esp0 := KSTACKTOP, ts_ss0 := GD_KD, ts_iomb := ucast sizeof_Taskstate\<rparr>))
     (thenP (modify (\<lambda>s. s\<lparr>gdt := (gdt s)(unat (drop_bit 3 GD_TSS0) :=
               (SEG16 STS_T32A (sym_ts (ksym s)) (sizeof_Taskstate - 1) 0)\<lparr>sd_s := 0\<rparr>)\<rparr>))
     (thenP (modify (\<lambda>s. s\<lparr>task_reg := GD_TSS0\<rparr>))
     (modify (\<lambda>s. s\<lparr>idt_loaded := True\<rparr>))))"

definition trap_init :: "unit km" where
  "trap_init = thenP (forP trap_gates set_gate) trap_init_percpu"

section \<open>Traps\<close>

abbreviation (input) IRQ_SPURIOUS :: u32 where "IRQ_SPURIOUS \<equiv> 7"

text \<open>The test for kernel mode compares the selector, not its privilege bits, with 3.\<close>

definition page_fault_handler :: "tf_ptr \<Rightarrow> unit km" where
  "page_fault_handler p =
     bindP (gets (\<lambda>s. (cr2 s, read_tf p s, curenv s))) (\<lambda>(fault_va, tf, cur).
     if tf_cs tf = 3
     then stop (Panic ''page fault happened in kernel mode!! in page_fault_handler() function in kern/trap.c'')
     else bindP (deref cur) (\<lambda>c.
          bindP (gets (\<lambda>s. env_id (envs s c))) (\<lambda>cid.
          thenP (printP ''[%08x] user fault va %08x ip %08x\<newline>'' [VInt cid, VInt fault_va, VInt (tf_eip tf)])
          (thenP (print_trapframe p)
          (env_destroy c)))))"

definition trap_dispatch :: "tf_ptr \<Rightarrow> unit km" where
  "trap_dispatch p =
     bindP (gets (read_tf p)) (\<lambda>tf.
     if tf_trapno tf = 14 then page_fault_handler p
     else if tf_trapno tf = 3 then monitor (Some p)
     else if tf_trapno tf = 48
     then (let r = tf_regs tf
           in bindP (syscall (reg_eax r) (reg_edx r) (reg_ecx r) (reg_ebx r) (reg_edi r) (reg_esi r)) (\<lambda>val.
              bindP (gets curenv) (\<lambda>cur.
              bindP (deref cur) (\<lambda>c.
              modify (upd_env c (\<lambda>v. v\<lparr>env_tf := (env_tf v)\<lparr>tf_regs := (tf_regs (env_tf v))\<lparr>reg_eax := val\<rparr>\<rparr>\<rparr>))))))
     else if tf_trapno tf = IRQ_OFFSET + IRQ_SPURIOUS
     then thenP (printP ''Spurious interrupt on irq 7\<newline>'' []) (print_trapframe p)
     else thenP (print_trapframe p)
          (if tf_cs tf = GD_KT then stop (Panic ''unhandled trap in kernel'')
           else bindP (gets curenv) (\<lambda>cur. bindP (deref cur) env_destroy)))"

text \<open>
  With interrupts off, the \<open>hlt\<close> of a panicked machine does not come back. The argument is the
  frame the assembly code built on the kernel stack.
\<close>

definition trap :: "u32 \<Rightarrow> Trapframe \<Rightarrow> unit km" where
  "trap addr tf =
     bindP (gets panicstr) (\<lambda>panicked.
     if panicked then stop Halted
     else bindP (gets (\<lambda>s. cpu_status (cpus s (cpunum s)))) (\<lambda>st.
     thenP (modify (\<lambda>s. s\<lparr>cpus := (cpus s)(cpunum s := (cpus s (cpunum s))\<lparr>cpu_status := CPU_STARTED\<rparr>)\<rparr>))
     (thenP (whenP (st = CPU_HALTED) spin_lock)
     (bindP (gets (\<lambda>s. eflags s AND FL_IF = 0)) (\<lambda>no_irq.
      thenP (assertP ''!(read_eflags() & FL_IF)'' no_irq)
      (bindP (if tf_cs tf AND 3 = 3
              then bindP (gets curenv) (\<lambda>cur.
                   thenP (assertP ''curenv'' (cur \<noteq> None))
                   (bindP (deref cur) (\<lambda>c.
                    bindP (gets (\<lambda>s. env_status (envs s c))) (\<lambda>est.
                    thenP (whenP (est = ENV_DYING)
                             (thenP (env_free c) (thenP (modify (set_curenv None)) sched_yield)))
                    (thenP (modify (upd_env c (\<lambda>v. v\<lparr>env_tf := tf\<rparr>)))
                    (ret (InEnv c)))))))
              else ret (OnStack addr tf)) (\<lambda>p.
       thenP (modify (\<lambda>s. s\<lparr>last_tf := tf_addr p s\<rparr>))
       (thenP (trap_dispatch p)
       (bindP (gets (\<lambda>s. (curenv s, case curenv s of None \<Rightarrow> False
                                     | Some c \<Rightarrow> env_status (envs s c) = ENV_RUNNING))) (\<lambda>(cur, running).
        if running then bindP (deref cur) env_run else sched_yield))))))))))"

section \<open>Properties\<close>

lemma env_run_never_returns: "never_returns (env_run e)"
  unfolding env_run_def env_pop_tf_def
  by (intro never_returns_bind never_returns_then never_returns_stop)

lemma trap_never_returns: "never_returns (trap addr tf)"
  unfolding trap_def
  by (intro never_returns_bind never_returns_then never_returns_stop allI)
    (simp_all add: never_returns_bind env_run_never_returns sched_yield_never_returns
      never_returns_then split: prod.splits)

end
