(* ===== verification/SyscallSpec.thy ===== *)
theory SyscallSpec
  imports Trap
begin

text \<open>
  System calls as the user sees them: what \<open>sys_cputs\<close> prints, and the whole way of a system
  call through \<open>trap\<close>, \<open>trap_dispatch\<close>, \<open>syscall\<close>, and back to user mode with the result in
  \<^verbatim>\<open>eax\<close>.
\<close>

section \<open>Printing a user string\<close>

lemma fmt_chars_all:
  assumes "int (length p) \<le> prec" and "p \<noteq> [] \<longrightarrow> 0 < prec"
  shows "fmt_chars p prec w False = (map schar p, w - int (length p))"
  using assms
proof (induction p arbitrary: prec w)
  case Nil
  then show ?case by simp
next
  case (Cons c p)
  have "fmt_chars p (prec - 1) (w - 1) False = (map schar p, w - 1 - int (length p))"
    by (rule Cons.IH) (use Cons.prems in \<open>cases p; simp\<close>)+
  then show ?case using Cons.prems by simp
qed

text \<open>\<^verbatim>\<open>"%.*s"\<close> with a string no longer than the precision prints the string.\<close>

lemma render_limited:
  assumes "length p \<le> unat len" and "unat len < 2147483648"
  shows "vprintfmt ''%.*s'' [VInt len, VStr (Some p)] = Some (map schar p)"
proof -
  have "fmt_chars p (sint len) 0 False = (map schar p, - int (length p))"
  proof (subst fmt_chars_all)
    show "int (length p) \<le> sint len" unfolding sint_small [OF assms(2)] using assms(1) by linarith
    then show "p \<noteq> [] \<longrightarrow> 0 < sint len" by (cases p) auto
  qed simp
  then show ?thesis by (simp add: fmt_eval fmt_string_def)
qed

text \<open>
  The bytes of the string, none of them zero; the kernel also reads the byte after them.
\<close>

definition bytes_ahead :: "u32 \<Rightarrow> u8 list \<Rightarrow> kstate \<Rightarrow> bool" where
  "bytes_ahead va bs s \<longleftrightarrow>
     0 \<notin> set bs \<and> (\<forall>i < length bs. peek8 (va + of_nat i) s = Some (bs ! i)) \<and>
     peek8 (va + of_nat (length bs)) s \<noteq> None"

lemma bytes_ahead_Cons:
  "bytes_ahead va (b # bs) s \<longleftrightarrow> b \<noteq> 0 \<and> peek8 va s = Some b \<and> bytes_ahead (va + 1) bs s"
proof -
  have "(\<forall>i < length (b # bs). peek8 (va + of_nat i) s = Some ((b # bs) ! i)) \<longleftrightarrow>
      peek8 va s = Some b \<and> (\<forall>i < length bs. peek8 (va + 1 + of_nat i) s = Some (bs ! i))"
    by (auto simp: less_Suc_eq_0_disj add_ac)
  then show ?thesis by (auto simp: bytes_ahead_def add_ac)
qed

lemma sys_cputs_run:
  assumes check: "run (user_mem_check (curenv s) str len PTE_U) s = (Ret 0, s)" and "str \<noteq> 0"
    and bytes: "bytes_ahead str bs s" "length bs = unat len" and "unat len < 2147483648"
  shows "run (sys_cputs str len) s = (Ret (), s\<lparr>console := console s @ map scast bs\<rparr>)"
proof -
  have "run (user_mem_assert (curenv s) str len PTE_U) s = (Ret (), s)"
    using check by (simp add: user_mem_assert_def prog_simps)
  moreover have "print_limit len = length bs"
    using assms(4,5) by (simp add: print_limit_def word_sless_alt sint_small)
  moreover have "\<forall>i < length bs. peek8 (str + of_nat i) s = Some (bs ! i) \<and> bs ! i \<noteq> 0"
    using bytes(1) nth_mem by (fastforce simp: bytes_ahead_def)
  ultimately show ?thesis
    using put_str_run [of bs str s] bytes assms(2) by (auto simp: sys_cputs_def bytes_ahead_def prog_simps)
qed

section \<open>The way through \<open>trap\<close>\<close>

text \<open>What \<open>trap\<close> does before it dispatches a trap from user mode.\<close>

definition trapped :: "nat \<Rightarrow> Trapframe \<Rightarrow> kstate \<Rightarrow> kstate" where
  "trapped c tf s =
     (let t = upd_env c (\<lambda>v. v\<lparr>env_tf := tf\<rparr>)
                (s\<lparr>cpus := (cpus s)(cpunum s := (cpus s (cpunum s))\<lparr>cpu_status := CPU_STARTED\<rparr>)\<rparr>)
      in t\<lparr>last_tf := tf_addr (InEnv c) t\<rparr>)"

text \<open>A machine on which environment \<open>c\<close> has just trapped out of user mode.\<close>

definition from_user :: "nat \<Rightarrow> Trapframe \<Rightarrow> kstate \<Rightarrow> bool" where
  "from_user c tf s \<longleftrightarrow>
     \<not> panicstr s \<and> cpu_status (cpus s (cpunum s)) \<noteq> CPU_HALTED \<and> eflags s AND FL_IF = 0 \<and>
     tf_cs tf AND 3 = 3 \<and> curenv s = Some c \<and> env_status (envs s c) = ENV_RUNNING"

lemma trapped_sel:
  "curenv (trapped c tf s) = curenv s" "env_tf (envs (trapped c tf s) c) = tf"
  "env_status (envs (trapped c tf s) c) = env_status (envs s c)"
  "env_id (envs (trapped c tf s) c) = env_id (envs s c)"
  "env_pgdir (envs (trapped c tf s) c) = env_pgdir (envs s c)" "cpunum (trapped c tf s) = cpunum s"
  by (simp_all add: trapped_def Let_def)

lemma trap_user_run:
  assumes "from_user c tf s"
  shows "run (trap addr tf) s =
    run (thenP (trap_dispatch (InEnv c))
      (bindP (gets (\<lambda>s. (curenv s, case curenv s of None \<Rightarrow> False
                                    | Some c \<Rightarrow> env_status (envs s c) = ENV_RUNNING))) (\<lambda>(cur, running).
       if running then bindP (deref cur) env_run else sched_yield))) (trapped c tf s)"
  using assms
  by (simp add: trap_def from_user_def prog_simps trapped_def Let_def cong: option.case_cong)

text \<open>The frame a system call returns to: only \<^verbatim>\<open>eax\<close> differs.\<close>

definition set_eax :: "u32 \<Rightarrow> Trapframe \<Rightarrow> Trapframe" where
  "set_eax r tf = tf\<lparr>tf_regs := (tf_regs tf)\<lparr>reg_eax := r\<rparr>\<rparr>"

lemma syscall_returns:
  assumes fu: "from_user c tf s" and no: "tf_trapno tf = 48"
    and call: "run (syscall (reg_eax (tf_regs tf)) (reg_edx (tf_regs tf)) (reg_ecx (tf_regs tf))
                     (reg_ebx (tf_regs tf)) (reg_edi (tf_regs tf)) (reg_esi (tf_regs tf))) (trapped c tf s)
               = (Ret r, t)"
    and kept: "curenv t = Some c" "env_status (envs t c) = ENV_RUNNING" "env_tf (envs t c) = tf"
      "env_pgdir (envs t c) = Some pd" "pd < 65536"
  shows "\<exists>u. run (trap addr tf) s = (Stop UserMode, u) \<and> curenv u = Some c
    \<and> env_tf (envs u c) = set_eax r tf \<and> cr3 u = page2pa pd \<and> pmem u = pmem t"
proof -
  let ?t = "upd_env c (\<lambda>v. v\<lparr>env_tf := set_eax r (env_tf v)\<rparr>) t"
  have tf: "read_tf (InEnv c) (trapped c tf s) = tf" by (simp add: read_tf_def trapped_sel)
  have disp: "run (trap_dispatch (InEnv c)) (trapped c tf s) = (Ret (), ?t)"
    using no call kept(1) tf
    by (simp add: trap_dispatch_def prog_simps Let_def set_eax_def)
  have pd: "env_pgdir (envs ?t c) = Some pd" and cur: "curenv ?t = Some c"
      and st: "env_status (envs ?t c) = ENV_RUNNING"
    using kept by simp_all
  obtain u where u: "run (env_run c) ?t = (Stop UserMode, u)" "curenv u = Some c" "cr3 u = page2pa pd"
      "envs u = switched (curenv ?t) c (cpunum ?t) (envs ?t)" "pmem u = pmem ?t"
    using env_run_run [OF pd kept(5)] by blast
  have "run (trap addr tf) s = (Stop UserMode, u)"
    unfolding trap_user_run [OF fu] run_thenP disp
    using cur st u(1) by (simp add: prog_simps)
  moreover have "env_tf (envs u c) = set_eax r tf"
    unfolding u(4) using kept(1,3) by (simp add: switched_def Let_def)
  ultimately show ?thesis using u by auto
qed

section \<open>The interrupt descriptor table\<close>

definition gate_of :: "ksyms \<Rightarrow> nat \<Rightarrow> Gatedesc option" where
  "gate_of k v =
     map_option (\<lambda>(istrap, dpl). SETGATE istrap GD_KT (sym_trap_label k v) dpl)
       (map_of trap_gates v)"

lemma set_gates_run:
  "distinct (map fst gs) \<Longrightarrow>
   run (forP gs set_gate) s =
     (Ret (), s\<lparr>idt := (\<lambda>v. case map_of gs v of
        None \<Rightarrow> idt s v
      | Some (istrap, dpl) \<Rightarrow> SETGATE istrap GD_KT (sym_trap_label (ksym s) v) dpl)\<rparr>)"
proof (induction gs arbitrary: s)
  case Nil
  then show ?case by (simp add: prog_simps)
next
  case (Cons g gs)
  obtain v i d where g: "g = (v, i, d)" by (cases g)
  have "map_of gs v = None" using Cons.prems g by (simp add: map_of_eq_None_iff)
  then show ?case
    using Cons g by (auto simp: prog_simps set_gate_def intro!: ext arg_cong [where f = "\<lambda>f. s\<lparr>idt := f\<rparr>"]
      split: option.splits)
qed

lemma trap_init_run:
  "\<exists>t. run trap_init s = (Ret (), t) \<and> idt_loaded t
    \<and> idt t = (\<lambda>v. case gate_of (ksym s) v of None \<Rightarrow> idt s v | Some g \<Rightarrow> g)"
proof -
  have d: "distinct (map fst trap_gates)" by (simp add: trap_gates_def)
  show ?thesis
    by (auto simp: trap_init_def trap_init_percpu_def run_thenP run_modify set_gates_run [OF d] gate_of_def
      split: option.splits intro!: ext)
qed

lemma gate_of_dpl:
  "gate_of k v = Some g \<Longrightarrow>
     gd_p g = 1 \<and> gate_offset g = sym_trap_label k v \<and> gd_sel g = GD_KT
     \<and> (gd_dpl g = 3 \<longleftrightarrow> v = 3 \<or> v = 48)"
  by (auto simp: gate_of_def trap_gates_def SETGATE_offset split: if_splits) (simp_all add: SETGATE_def)

section \<open>Page faults of the kernel\<close>

text \<open>The privilege bits of \<^verbatim>\<open>GD_KT\<close> are 0 and those of a user selector 3; neither selector is 3.\<close>

lemma page_fault_handler_kernel:
  assumes "tf_cs tf = GD_KT" and "curenv s = None"
  shows "run (page_fault_handler (OnStack a tf)) s = (Stop BadAccess, s)"
  using assms by (simp add: page_fault_handler_def prog_simps read_tf_def)

end
