(* ===== verification/EnvFree.thy ===== *)
theory EnvFree
  imports EnvTable PmapSpace
begin

text \<open>
  \<open>env_free\<close> of \<^verbatim>\<open>kern/env.c\<close> gives back what the environment has: every user mapping, the pages
  whose last reference that was, the page tables below \<open>UTOP\<close> and the page directory. The proof
  follows the two loops: over the entries of a table, and over the tables.
\<close>

section \<open>Slots\<close>

definition slot_va :: "nat \<Rightarrow> nat \<Rightarrow> u32" where
  "slot_va d i = PGADDR (of_nat d) (of_nat i) 0"

lemma slot_va_index:
  assumes "d < 1024" and "i < 1024"
  shows "unat (PDX (slot_va d i)) = d" "unat (PTX (slot_va d i)) = i"
proof -
  have t: "take_bit 10 (of_nat d :: u32) = of_nat d" "take_bit 10 (of_nat i :: u32) = of_nat i"
    using assms by (simp_all add: small_env)
  then have "PDX (slot_va d i) = of_nat d" "PTX (slot_va d i) = of_nat i"
    using PGADDR_take_bit(1,2) [of "of_nat d" "of_nat i" 0] by (simp_all add: slot_va_def)
  then show "unat (PDX (slot_va d i)) = d" "unat (PTX (slot_va d i)) = i"
    using assms by (simp_all add: unat_of_nat32)
qed

lemma slot_va_unique:
  assumes "d < 1024" and "i < 1024"
  shows "PGNUM va = PGNUM (slot_va d i) \<longleftrightarrow> unat (PDX va) = d \<and> unat (PTX va) = i"
  by (simp add: PGNUM_page_index slot_va_index [OF assms])

definition slot_entry :: "kstate \<Rightarrow> nat \<Rightarrow> nat \<Rightarrow> nat \<Rightarrow> u32" where
  "slot_entry s pd d i = entry s pd (slot_va d i)"

lemma slot_entry_alt:
  assumes "d < 1024" and "i < 1024"
  shows "slot_entry s pd d i = (if present (pmem s pd d) then pmem s (frame_of (pmem s pd d)) i else 0)"
  by (simp add: slot_entry_def entry_def pde_at_def slot_va_index [OF assms])

section \<open>Counting mappings\<close>

text \<open>How often page \<open>y\<close> is mapped in the first \<open>n\<close> entries of table \<open>d\<close>, and in the first \<open>m\<close> tables.\<close>

definition maps_to :: "kstate \<Rightarrow> nat \<Rightarrow> nat \<Rightarrow> nat \<Rightarrow> nat \<Rightarrow> nat" where
  "maps_to s pd y d i = of_bool (present (slot_entry s pd d i) \<and> frame_of (slot_entry s pd d i) = y)"

definition row_uses :: "kstate \<Rightarrow> nat \<Rightarrow> nat \<Rightarrow> nat \<Rightarrow> nat \<Rightarrow> nat" where
  "row_uses s pd d n y = (\<Sum>i<n. maps_to s pd y d i)"

definition space_uses :: "kstate \<Rightarrow> nat \<Rightarrow> nat \<Rightarrow> nat \<Rightarrow> nat" where
  "space_uses s pd m y = (\<Sum>d<m. row_uses s pd d 1024 y)"

lemma uses_simps [simp]:
  "row_uses s pd d 0 y = 0" "row_uses s pd d (Suc n) y = row_uses s pd d n y + maps_to s pd y d n"
  "space_uses s pd 0 y = 0" "space_uses s pd (Suc m) y = space_uses s pd m y + row_uses s pd m 1024 y"
  by (simp_all add: row_uses_def space_uses_def)

lemma row_uses_mono: "n \<le> n' \<Longrightarrow> row_uses s pd d n y \<le> row_uses s pd d n' y"
  unfolding row_uses_def by (rule sum_mono2) auto

lemma space_uses_mono: "m \<le> m' \<Longrightarrow> space_uses s pd m y \<le> space_uses s pd m' y"
  unfolding space_uses_def by (rule sum_mono2) auto

lemma row_uses_cong:
  "(\<And>i. i < n \<Longrightarrow> slot_entry t pd d i = slot_entry s pd d i) \<Longrightarrow> row_uses t pd d n y = row_uses s pd d n y"
  unfolding row_uses_def maps_to_def by (intro sum.cong) auto

lemma row_uses_zero:
  "(\<And>i. i < n \<Longrightarrow> present (slot_entry s pd d i) \<Longrightarrow> frame_of (slot_entry s pd d i) \<noteq> y) \<Longrightarrow> row_uses s pd d n y = 0"
  unfolding row_uses_def maps_to_def by (intro sum.neutral) auto

text \<open>
  What a list of references loses: \<open>c y\<close> references to \<open>y\<close> go away, and the pages freed are those that
  lose all they have.
\<close>

definition refs_dropped :: "(nat \<Rightarrow> nat) \<Rightarrow> kstate \<Rightarrow> nat list \<Rightarrow> kstate \<Rightarrow> nat list \<Rightarrow> bool" where
  "refs_dropped c s xs t zs \<longleftrightarrow>
     (\<forall>y. unat (pp_ref (pages t y)) = unat (pp_ref (pages s y)) - c y) \<and>
     set zs = set xs \<union> {y. 0 < c y \<and> c y = unat (pp_ref (pages s y))}"

lemma refs_dropped_same:
  assumes "refs_dropped c s xs t zs" and "c y = 0"
  shows "pp_ref (pages t y) = pp_ref (pages s y)"
proof -
  have "unat (pp_ref (pages t y)) = unat (pp_ref (pages s y))" using assms by (simp add: refs_dropped_def)
  then show ?thesis by (simp only: word_unat_eq_iff)
qed

lemma refs_dropped_step:
  assumes "refs_dropped c s xs t zs" and "c y < unat (pp_ref (pages s y))"
    and "\<And>z. pp_ref (pages u z) = (if z = y then pp_ref (pages t z) - 1 else pp_ref (pages t z))"
  shows "refs_dropped (\<lambda>z. c z + of_bool (z = y)) s xs u (if pp_ref (pages t y) = 1 then y # zs else zs)"
proof -
  have ty: "unat (pp_ref (pages t y)) = unat (pp_ref (pages s y)) - c y"
    using assms(1) by (simp add: refs_dropped_def)
  then have pos: "0 < unat (pp_ref (pages t y))" using assms(2) by simp
  then have "unat (pp_ref (pages t y) - 1) = unat (pp_ref (pages t y)) - 1"
    by (metis unat_gt_0 unat_minus_one)
  moreover have "pp_ref (pages t y) = 1 \<longleftrightarrow> unat (pp_ref (pages t y)) = 1"
    by (metis unat_1 word_unat_eq_iff)
  ultimately show ?thesis using assms ty pos
    by (auto simp: refs_dropped_def)
qed

section \<open>What the loops leave alone\<close>

definition env_part :: "kstate \<Rightarrow> nat option \<times> nat \<times> (nat \<Rightarrow> Env) \<times> (nat \<Rightarrow> CpuInfo) \<times> nat" where
  "env_part s = (env_free_list s, kern_pgdir s, envs s, cpus s, cpunum s)"

lemma env_part_updates [simp]:
  "env_part (upd_page p g s) = env_part s" "env_part (store_word f i w s) = env_part s"
  "env_part (push_free p s) = env_part s" "env_part (fill_frame f w s) = env_part s"
  "env_part (decref p s) = env_part s"
  "env_part (s\<lparr>invlpgs := l\<rparr>) = env_part s" "env_part (s\<lparr>cr3 := w\<rparr>) = env_part s"
  "env_part (s\<lparr>console := cs\<rparr>) = env_part s"
  by (simp_all add: env_part_def)

section \<open>Clearing a table\<close>

text \<open>After \<open>n\<close> entries of table \<open>d\<close>.\<close>

definition row_cleared :: "kstate \<Rightarrow> nat \<Rightarrow> nat list \<Rightarrow> nat \<Rightarrow> nat \<Rightarrow> kstate \<Rightarrow> bool" where
  "row_cleared s pd xs d n t \<longleftrightarrow>
     (\<exists>zs. pgdir_ok t pd zs \<and> refs_dropped (row_uses s pd d n) s xs t zs) \<and>
     tables t pd = tables s pd \<and> pmem t pd = pmem s pd \<and> npages t = npages s \<and> env_part t = env_part s \<and>
     (\<forall>f. f \<noteq> frame_of (pmem s pd d) \<longrightarrow> pmem t f = pmem s f) \<and>
     (\<forall>va. unat (PDX va) \<noteq> UVPT_index \<longrightarrow>
        entry t pd va = (if unat (PDX va) = d \<and> unat (PTX va) < n \<and> present (entry s pd va) then 0
                        else entry s pd va))"

text \<open>Each entry maps a data page, and the reference counts cover the mappings.\<close>

definition row_ok :: "kstate \<Rightarrow> nat \<Rightarrow> nat list \<Rightarrow> nat \<Rightarrow> bool" where
  "row_ok s pd xs d \<longleftrightarrow>
     (\<forall>i < 1024. mapped_ok s pd xs (slot_va d i)) \<and>
     (\<forall>y. row_uses s pd d 1024 y \<le> unat (pp_ref (pages s y)))"

lemma row_step:
  assumes t: "row_cleared s pd xs d n t" and ok: "pgdir_ok s pd xs" and row: "row_ok s pd xs d"
    and d: "d < 1024" "d \<noteq> UVPT_index" "present (pmem s pd d)" and n: "n < 1024"
  shows "\<exists>u. run (env_free_pte pd d (frame_of (pmem s pd d)) n) t = (Ret (), u) \<and> row_cleared s pd xs d (Suc n) u"
proof -
  let ?va = "slot_va d n" and ?y = "frame_of (slot_entry s pd d n)"
  have va: "unat (PDX ?va) = d" "unat (PTX ?va) = n" by (rule slot_va_index [OF d(1) n])+
  obtain zs where zs: "pgdir_ok t pd zs" "refs_dropped (row_uses s pd d n) s xs t zs"
    and keep: "tables t pd = tables s pd" "pmem t pd = pmem s pd" "npages t = npages s" "env_part t = env_part s"
      "\<forall>f. f \<noteq> frame_of (pmem s pd d) \<longrightarrow> pmem t f = pmem s f"
    and view: "\<And>va. unat (PDX va) \<noteq> UVPT_index \<Longrightarrow>
        entry t pd va = (if unat (PDX va) = d \<and> unat (PTX va) < n \<and> present (entry s pd va) then 0
                         else entry s pd va)"
    using t unfolding row_cleared_def by blast
  have e: "entry t pd ?va = slot_entry s pd d n" using view [of ?va] va d(2) by (simp add: slot_entry_def)
  have "pmem t (frame_of (pmem s pd d)) n = entry t pd ?va"
    using d(3) va keep(2) by (simp add: entry_def pde_at_def)
  then have pte: "pmem t (frame_of (pmem s pd d)) n = slot_entry s pd d n" using e by simp
  have count: "row_uses s pd d (Suc n) y = row_uses s pd d n y
      + of_bool (present (slot_entry s pd d n) \<and> y = ?y)" for y
    by (auto simp: maps_to_def)
  show ?thesis
  proof (cases "present (slot_entry s pd d n)")
    case False
    have c: "row_uses s pd d (Suc n) = row_uses s pd d n" using False count by (simp add: fun_eq_iff)
    have "row_cleared s pd xs d (Suc n) t"
      unfolding row_cleared_def c
    proof (intro conjI allI impI)
      show "\<exists>zs. pgdir_ok t pd zs \<and> refs_dropped (row_uses s pd d n) s xs t zs" using zs by blast
      fix va :: u32
      assume "unat (PDX va) \<noteq> UVPT_index"
      note v = view [OF this]
      show "entry t pd va = (if unat (PDX va) = d \<and> unat (PTX va) < Suc n \<and> present (entry s pd va) then 0
          else entry s pd va)"
      proof (cases "unat (PDX va) = d \<and> unat (PTX va) = n")
        case True
        then have "entry s pd va = slot_entry s pd d n"
          using slot_va_index [OF d(1) n] by (simp add: slot_entry_def entry_def pde_at_def)
        then show ?thesis using False v by simp
      next
        case False
        then show ?thesis using v by (auto simp: less_Suc_eq)
      qed
    qed (use keep in simp_all)
    then show ?thesis using False pte by (intro exI [of _ t]) (simp add: env_free_pte_def prog_simps)
  next
    case True
    have m: "mapped_ok s pd xs ?va" using row n by (simp add: row_ok_def)
    then have y: "data_page s pd xs ?y" using True by (simp add: mapped_ok_def slot_entry_def)
    have le: "row_uses s pd d (Suc n) ?y \<le> unat (pp_ref (pages s ?y))"
      using row row_uses_mono [of "Suc n" 1024 s pd d ?y] n unfolding row_ok_def by (meson Suc_leI le_trans)
    then have lt: "row_uses s pd d n ?y < unat (pp_ref (pages s ?y))" using count [of ?y] True by simp
    then have "?y \<notin> set zs" using zs(2) y by (auto simp: refs_dropped_def data_page_def)
    then have mt: "mapped_ok t pd zs ?va"
      using y e keep(1,3) by (simp add: mapped_ok_def data_page_def)
    have P: "present (entry t pd ?va)" using True e by simp
    have uv: "unat (PDX ?va) \<noteq> UVPT_index" using va d(2) by simp
    obtain u where u: "run (page_remove pd ?va) t = (Ret (), u)"
      "pgdir_ok u pd (if pp_ref (pages t ?y) = 1 then ?y # zs else zs)"
      "\<And>va'. unat (PDX va') \<noteq> UVPT_index \<Longrightarrow>
         entry u pd va' = (if PGNUM va' = PGNUM ?va then 0 else entry t pd va')"
      "\<And>y. pp_ref (pages u y) = (if y = ?y then pp_ref (pages t y) - 1 else pp_ref (pages t y))"
      "tables u pd = tables t pd" "npages u = npages t"
      using remove_spec [OF zs(1) uv mt P] unfolding e by blast
    have "refs_dropped (\<lambda>y. row_uses s pd d n y + of_bool (y = ?y)) s xs u
        (if pp_ref (pages t ?y) = 1 then ?y # zs else zs)"
      by (rule refs_dropped_step [OF zs(2) lt u(4)])
    moreover have "(\<lambda>y. row_uses s pd d n y + of_bool (y = ?y)) = row_uses s pd d (Suc n)"
      using count True by (simp add: fun_eq_iff)
    ultimately have refs: "refs_dropped (row_uses s pd d (Suc n)) s xs u
        (if pp_ref (pages t ?y) = 1 then ?y # zs else zs)" by simp
    have "frame_of (pde_at t pd ?va) \<noteq> pd"
      using pde_frame(3) [OF zs(1) entry_present_pde [OF P] uv] pgdir_okD(6) [OF zs(1)] by blast
    moreover have "pde_at t pd ?va = pmem s pd d" using va keep(2) by (simp add: pde_at_def)
    ultimately have part: "env_part u = env_part t" "pmem u pd = pmem t pd"
      "\<forall>f. f \<noteq> frame_of (pmem s pd d) \<longrightarrow> pmem u f = pmem t f"
      using remove_present [OF zs(1) uv mt P] u(1) by auto
    have "row_cleared s pd xs d (Suc n) u"
      unfolding row_cleared_def
    proof (intro conjI allI impI)
      show "\<exists>zs. pgdir_ok u pd zs \<and> refs_dropped (row_uses s pd d (Suc n)) s xs u zs" using u(2) refs by blast
      fix va :: u32
      assume uvpt: "unat (PDX va) \<noteq> UVPT_index"
      have same: "PGNUM va = PGNUM ?va \<longleftrightarrow> unat (PDX va) = d \<and> unat (PTX va) = n"
        by (rule slot_va_unique [OF d(1) n])
      have "entry s pd va = slot_entry s pd d n" if "PGNUM va = PGNUM ?va"
        using that same va by (simp add: slot_entry_def entry_def pde_at_def)
      then show "entry u pd va = (if unat (PDX va) = d \<and> unat (PTX va) < Suc n \<and> present (entry s pd va) then 0
          else entry s pd va)"
        using u(3) [OF uvpt] view [OF uvpt] same True by (auto simp: less_Suc_eq)
    qed (use keep part u(5,6) in simp_all)
    then show ?thesis using True pte u(1)
      by (intro exI [of _ u]) (simp add: env_free_pte_def prog_simps slot_va_def)
  qed
qed

lemma row_loop:
  assumes ok: "pgdir_ok s pd xs" and row: "row_ok s pd xs d"
    and d: "d < 1024" "d \<noteq> UVPT_index" "present (pmem s pd d)" and n: "n \<le> 1024"
  shows "\<exists>t. run (forP [0..<n] (env_free_pte pd d (frame_of (pmem s pd d)))) s = (Ret (), t) \<and> row_cleared s pd xs d n t"
  using n
proof (induction n)
  case 0
  then show ?case using ok by (auto simp: prog_simps row_cleared_def refs_dropped_def)
next
  case (Suc n)
  then obtain t where t: "run (forP [0..<n] (env_free_pte pd d (frame_of (pmem s pd d)))) s = (Ret (), t)"
      "row_cleared s pd xs d n t" by auto
  obtain u where "run (env_free_pte pd d (frame_of (pmem s pd d)) n) t = (Ret (), u)" "row_cleared s pd xs d (Suc n) u"
    using row_step [OF t(2) ok row d] Suc.prems by auto
  then show ?case using t(1) by (simp add: prog_simps)
qed

section \<open>Dropping a table\<close>

text \<open>The slot is cleared and the table, which nothing else refers to, is freed.\<close>

definition drop_table :: "nat \<Rightarrow> nat \<Rightarrow> kstate \<Rightarrow> kstate" where
  "drop_table pd d s = decref (frame_of (pmem s pd d)) (store_word pd d 0 s)"

lemma drop_table_view:
  assumes ok: "pgdir_ok s pd xs" and d: "d < 1024" "d \<noteq> UVPT_index" "present (pmem s pd d)"
  shows "table_slots (drop_table pd d s) pd = table_slots s pd - {d}"
    and "tables (drop_table pd d s) pd = tables s pd - {frame_of (pmem s pd d)}"
    and "\<And>va. unat (PDX va) \<noteq> UVPT_index \<Longrightarrow>
           entry (drop_table pd d s) pd va = (if unat (PDX va) = d then 0 else entry s pd va)"
proof -
  have row: "pmem (drop_table pd d s) pd = (pmem s pd)(d := 0)" by (simp add: drop_table_def)
  show slots: "table_slots (drop_table pd d s) pd = table_slots s pd - {d}"
    by (auto simp: table_slots_def row)
  have "d \<in> table_slots s pd" using d by (simp add: table_slots_def)
  moreover note inj = pgdir_okD(7) [OF ok]
  moreover have "tables (drop_table pd d s) pd = (\<lambda>i. frame_of (pmem s pd i)) ` (table_slots s pd - {d})"
    unfolding tables_def slots by (intro image_cong) (simp_all add: row)
  ultimately show "tables (drop_table pd d s) pd = tables s pd - {frame_of (pmem s pd d)}"
    unfolding tables_def by (auto dest: inj_onD)
  fix va :: u32
  assume uvpt: "unat (PDX va) \<noteq> UVPT_index"
  have "pmem (drop_table pd d s) f = pmem s f" if "f \<noteq> pd" for f using that by (simp add: drop_table_def)
  moreover have "frame_of (pmem s pd (unat (PDX va))) \<noteq> pd" if "present (pmem s pd (unat (PDX va)))"
    using pde_frame(3) [OF ok _ uvpt] pgdir_okD(6) [OF ok] that unfolding pde_at_def by blast
  ultimately show "entry (drop_table pd d s) pd va = (if unat (PDX va) = d then 0 else entry s pd va)"
    by (simp add: entry_def pde_at_def row)
qed

lemma drop_table_ok:
  assumes ok: "pgdir_ok s pd xs" and d: "d < 1024" "d \<noteq> UVPT_index" "present (pmem s pd d)"
    and one: "pp_ref (pages s (frame_of (pmem s pd d))) = 1"
  shows "pgdir_ok (drop_table pd d s) pd (frame_of (pmem s pd d) # xs)"
    and "run (page_decref (frame_of (pmem s pd d))) (store_word pd d 0 s) = (Ret (), drop_table pd d s)"
proof -
  let ?f = "frame_of (pmem s pd d)" and ?u = "store_word pd d 0 s"
  have f: "?f \<in> tables s pd" using d by (auto simp: tables_def table_slots_def)
  note fx = pgdir_okD(6) [OF ok f]
  have free: "free_pages ?u xs" using pgdir_okD(1) [OF ok] by (subst free_pages_cong [of _ s]) simp_all
  show "run (page_decref ?f) ?u = (Ret (), drop_table pd d s)"
    unfolding drop_table_def using fx by (intro page_decref_run [OF free]) simp
  have "free_pages (drop_table pd d s) (?f # xs)"
    using decref_free_pages [OF free, of ?f] fx one by (simp add: drop_table_def)
  moreover have "inj_on (\<lambda>i. frame_of (pmem (drop_table pd d s) pd i)) (table_slots s pd - {d})"
    using pgdir_okD(7) [OF ok] by (auto simp: inj_on_def drop_table_def)
  moreover have "pmem (drop_table pd d s) pd UVPT_index = pmem s pd UVPT_index"
    using d(2) by (simp add: drop_table_def)
  moreover have "npages (drop_table pd d s) = npages s" by (simp add: drop_table_def)
  ultimately show "pgdir_ok (drop_table pd d s) pd (?f # xs)"
    using pgdir_okD [OF ok] fx drop_table_view [OF ok d]
    by (auto simp: pgdir_ok_def machine_ok_def)
qed

section \<open>The user part of an address space\<close>

abbreviation (input) UTOP_index :: nat where "UTOP_index \<equiv> 955"

lemma UTOP_index: "unat (PDX UTOP) = UTOP_index"
  by (simp add: PDX_def)

definition user_tables :: "kstate \<Rightarrow> nat \<Rightarrow> nat \<Rightarrow> nat set" where
  "user_tables s pd m = (\<lambda>d. frame_of (pmem s pd d)) ` {d. d < m \<and> present (pmem s pd d)}"

lemma user_tables_Suc:
  "user_tables s pd (Suc m) =
     (if present (pmem s pd m) then insert (frame_of (pmem s pd m)) (user_tables s pd m) else user_tables s pd m)"
  by (auto simp: user_tables_def less_Suc_eq)

text \<open>
  Every entry below \<open>UTOP\<close> maps a data page, reference counts cover the mappings, and a table has one
  reference: its slot.
\<close>

definition space_ok :: "kstate \<Rightarrow> nat \<Rightarrow> nat list \<Rightarrow> bool" where
  "space_ok s pd xs \<longleftrightarrow>
     (\<forall>d < UTOP_index. \<forall>i < 1024. mapped_ok s pd xs (slot_va d i)) \<and>
     (\<forall>y. space_uses s pd UTOP_index y \<le> unat (pp_ref (pages s y))) \<and>
     (\<forall>y \<in> user_tables s pd UTOP_index. pp_ref (pages s y) = 1)"

definition space_drop :: "kstate \<Rightarrow> nat \<Rightarrow> nat \<Rightarrow> nat \<Rightarrow> nat" where
  "space_drop s pd m y = space_uses s pd m y + of_bool (y \<in> user_tables s pd m)"

definition space_cleared :: "kstate \<Rightarrow> nat \<Rightarrow> nat list \<Rightarrow> nat \<Rightarrow> kstate \<Rightarrow> bool" where
  "space_cleared s pd xs m t \<longleftrightarrow>
     (\<exists>zs. pgdir_ok t pd zs \<and> refs_dropped (space_drop s pd m) s xs t zs) \<and>
     tables t pd = tables s pd - user_tables s pd m \<and> (\<forall>d \<ge> m. pmem t pd d = pmem s pd d) \<and>
     npages t = npages s \<and> env_part t = env_part s \<and>
     (\<forall>f. f \<noteq> pd \<and> f \<notin> user_tables s pd m \<longrightarrow> pmem t f = pmem s f) \<and>
     (\<forall>va. unat (PDX va) \<noteq> UVPT_index \<longrightarrow>
        entry t pd va = (if unat (PDX va) < m then 0 else entry s pd va))"

lemma drop_split:
  fixes a b r :: nat
  assumes "a + b \<le> r"
  shows "(0 < a \<and> a = r) \<or> (0 < b \<and> b = r - a) \<longleftrightarrow> 0 < a + b \<and> a + b = r"
  using assms by (cases "b = 0") auto

lemma refs_dropped_trans:
  assumes "refs_dropped c s xs t zs" and "refs_dropped c' t zs u ws"
    and "\<And>y. c y + c' y \<le> unat (pp_ref (pages s y))"
  shows "refs_dropped (\<lambda>y. c y + c' y) s xs u ws"
proof -
  have "set ws = set xs \<union> {y. 0 < c y \<and> c y = unat (pp_ref (pages s y))}
      \<union> {y. 0 < c' y \<and> c' y = unat (pp_ref (pages s y)) - c y}"
    using assms(1,2) by (simp add: refs_dropped_def)
  also have "\<dots> = set xs \<union> {y. 0 < c y + c' y \<and> c y + c' y = unat (pp_ref (pages s y))}"
  proof -
    have "(0 < c y \<and> c y = unat (pp_ref (pages s y))) \<or> (0 < c' y \<and> c' y = unat (pp_ref (pages s y)) - c y)
        \<longleftrightarrow> 0 < c y + c' y \<and> c y + c' y = unat (pp_ref (pages s y))" for y
      by (rule drop_split [OF assms(3)])
    then show ?thesis by (simp only: Un_assoc Collect_disj_eq [symmetric])
  qed
  finally show ?thesis using assms(1,2) by (simp add: refs_dropped_def)
qed

lemma user_table_index:
  assumes "pgdir_ok s pd xs" and "m < UTOP_index" and "present (pmem s pd m)"
  shows "frame_of (pmem s pd m) \<in> tables s pd" "frame_of (pmem s pd m) \<notin> user_tables s pd m"
proof -
  have "m \<in> table_slots s pd" using assms(2,3) by (simp add: table_slots_def)
  then show "frame_of (pmem s pd m) \<in> tables s pd" by (auto simp: tables_def)
  show "frame_of (pmem s pd m) \<notin> user_tables s pd m"
  proof
    assume "frame_of (pmem s pd m) \<in> user_tables s pd m"
    then obtain d where "d < m" "present (pmem s pd d)" "frame_of (pmem s pd m) = frame_of (pmem s pd d)"
      by (auto simp: user_tables_def)
    then show False
      using assms inj_onD [OF pgdir_okD(7) [OF assms(1)], of m d] by (auto simp: table_slots_def)
  qed
qed

lemma user_tables_subset: "m \<le> UTOP_index \<Longrightarrow> user_tables s pd m \<subseteq> tables s pd"
  by (auto simp: user_tables_def tables_def table_slots_def)

text \<open>A page an entry maps is no table, so tables are mapped nowhere.\<close>

lemma tables_unmapped:
  assumes "space_ok s pd xs" and "y \<in> tables s pd" and "d < UTOP_index"
  shows "row_uses s pd d 1024 y = 0"
  using assms by (intro row_uses_zero) (auto simp: space_ok_def mapped_ok_def data_page_def slot_entry_def)

lemma space_uses_table:
  assumes "space_ok s pd xs" and "y \<in> tables s pd" and "m \<le> UTOP_index"
  shows "space_uses s pd m y = 0"
  unfolding space_uses_def using tables_unmapped [OF assms(1,2)] assms(3) by (intro sum.neutral) auto

lemma space_drop_bound:
  assumes sp: "space_ok s pd xs" and m: "m < UTOP_index"
  shows "space_drop s pd m y + row_uses s pd m 1024 y \<le> unat (pp_ref (pages s y))"
proof (cases "y \<in> user_tables s pd m")
  case True
  then have y: "y \<in> tables s pd" "y \<in> user_tables s pd UTOP_index"
    using user_tables_subset [of m s pd] m by (auto simp: user_tables_def)
  have "row_uses s pd m 1024 y = 0" "space_uses s pd m y = 0"
    using tables_unmapped [OF sp y(1) m] space_uses_table [OF sp y(1)] m by simp_all
  moreover have "pp_ref (pages s y) = 1" using sp y(2) by (simp add: space_ok_def)
  ultimately show ?thesis by (simp add: space_drop_def)
next
  case False
  have "space_uses s pd (Suc m) y \<le> space_uses s pd UTOP_index y" using m by (intro space_uses_mono) simp
  then show ?thesis using sp False by (auto simp: space_drop_def space_ok_def intro: le_trans)
qed

lemma row_ok_later:
  assumes t: "space_cleared s pd xs m t" and zs: "pgdir_ok t pd zs" "refs_dropped (space_drop s pd m) s xs t zs"
    and sp: "space_ok s pd xs" and m: "m < UTOP_index"
  shows "row_ok t pd zs m" "row_uses t pd m 1024 y = row_uses s pd m 1024 y"
proof -
  have same: "slot_entry t pd m i = slot_entry s pd m i" if "i < 1024" for i
    using t m that slot_va_index [of m i] unfolding space_cleared_def slot_entry_def by simp
  then show uses: "row_uses t pd m 1024 y = row_uses s pd m 1024 y" for y by (intro row_uses_cong)
  have "mapped_ok t pd zs (slot_va m i)" if i: "i < 1024" for i
    unfolding mapped_ok_def
  proof
    assume P: "present (entry t pd (slot_va m i))"
    let ?y = "frame_of (slot_entry s pd m i)"
    have e: "entry t pd (slot_va m i) = slot_entry s pd m i" using same [OF i] by (simp add: slot_entry_def)
    have y: "data_page s pd xs ?y"
      using sp m i P unfolding e space_ok_def mapped_ok_def slot_entry_def by blast
    have "1 = maps_to s pd ?y m i" using P e by (simp add: maps_to_def)
    also have "\<dots> \<le> row_uses s pd m 1024 ?y"
      unfolding row_uses_def using i by (intro member_le_sum) auto
    finally have "space_drop s pd m ?y < unat (pp_ref (pages s ?y))"
      using space_drop_bound [OF sp m, of ?y] by simp
    then have "?y \<notin> set zs" using zs(2) y by (auto simp: refs_dropped_def data_page_def)
    then show "data_page t pd zs (frame_of (entry t pd (slot_va m i)))"
      using y t unfolding e data_page_def space_cleared_def by simp
  qed
  moreover have "row_uses t pd m 1024 y \<le> unat (pp_ref (pages t y))" for y
    using space_drop_bound [OF sp m, of y] zs(2) unfolding uses refs_dropped_def by (metis add_le_imp_le_diff add.commute)
  ultimately show "row_ok t pd zs m" by (simp add: row_ok_def)
qed

lemma env_part_drop [simp]: "env_part (drop_table pd d s) = env_part s" "npages (drop_table pd d s) = npages s"
  by (simp_all add: drop_table_def)

lemma drop_table_ref:
  "pp_ref (pages (drop_table pd d s) y) =
     (if y = frame_of (pmem s pd d) then pp_ref (pages s y) - 1 else pp_ref (pages s y))"
  by (simp add: drop_table_def pp_ref_decref)

lemma PTX_last: "unat (PTX (- 1)) = 1023"
  by (simp add: unat_PTX unsigned_minus_1_eq_mask mask_eq_exp_minus_1)

lemma pde_present_run:
  assumes ok: "pgdir_ok t pd zs" and row: "row_ok t pd zs m" and m: "m < UTOP_index" and P: "present (pmem t pd m)"
    and one: "pp_ref (pages t (frame_of (pmem t pd m))) = 1"
  shows "\<exists>u ws. run (env_free_pde pd m) t = (Ret (), u) \<and> pgdir_ok u pd ws
    \<and> refs_dropped (\<lambda>y. row_uses t pd m 1024 y + of_bool (y = frame_of (pmem t pd m))) t zs u ws
    \<and> tables u pd = tables t pd - {frame_of (pmem t pd m)} \<and> pmem u pd = (pmem t pd)(m := 0)
    \<and> npages u = npages t \<and> env_part u = env_part t
    \<and> (\<forall>f. f \<noteq> pd \<and> f \<noteq> frame_of (pmem t pd m) \<longrightarrow> pmem u f = pmem t f)
    \<and> (\<forall>va. unat (PDX va) \<noteq> UVPT_index \<longrightarrow> entry u pd va = (if unat (PDX va) = m then 0 else entry t pd va))"
proof -
  let ?f = "frame_of (pmem t pd m)"
  have d: "m < 1024" "m \<noteq> UVPT_index" using m by simp_all
  have f: "?f \<in> tables t pd" by (rule user_table_index [OF ok m P])
  obtain v where v: "run (forP [0..<1024] (env_free_pte pd m ?f)) t = (Ret (), v)" "row_cleared t pd zs m 1024 v"
    using row_loop [OF ok row d P, of 1024] by auto
  obtain ws where ws: "pgdir_ok v pd ws" "refs_dropped (row_uses t pd m 1024) t zs v ws"
    and keep: "tables v pd = tables t pd" "pmem v pd = pmem t pd" "npages v = npages t" "env_part v = env_part t"
      "\<forall>f. f \<noteq> ?f \<longrightarrow> pmem v f = pmem t f"
    and view: "\<And>va. unat (PDX va) \<noteq> UVPT_index \<Longrightarrow> entry v pd va =
       (if unat (PDX va) = m \<and> unat (PTX va) < 1024 \<and> present (entry t pd va) then 0 else entry t pd va)"
    using v(2) unfolding row_cleared_def by blast
  have unmapped: "row_uses t pd m 1024 ?f = 0"
    using row f by (intro row_uses_zero) (auto simp: row_ok_def mapped_ok_def data_page_def slot_entry_def)
  have fv: "pp_ref (pages v ?f) = 1"
    using refs_dropped_same [OF ws(2) unmapped] one by simp
  have P': "present (pmem v pd m)" "pp_ref (pages v (frame_of (pmem v pd m))) = 1" using P fv keep(2) by simp_all
  let ?u = "drop_table pd m v"
  have drop: "pgdir_ok ?u pd (?f # ws)" "run (page_decref ?f) (store_word pd m 0 v) = (Ret (), ?u)"
    using drop_table_ok [OF ws(1) d P'] keep(2) by simp_all
  have np: "?f < npages t" using pgdir_okD(6) [OF ok f] by simp
  have "run (env_free_pde pd m) t = (Ret (), ?u)"
    using P v(1) np drop(2) keep(3)
    by (simp add: env_free_pde_def Let_def run_bindP run_thenP run_gets run_if run_modify run_KADDR run_pa2page
        PTE_ADDR_def PTX_last kva_frame_KADDR del: upt_rec_numeral)
  moreover have "refs_dropped (\<lambda>y. row_uses t pd m 1024 y + of_bool (y = ?f)) t zs ?u (?f # ws)"
    using refs_dropped_step [OF ws(2), of ?f ?u] drop_table_ref [of pd m v] fv one unmapped keep(2) by simp
  moreover note drop_table_view [OF ws(1) d P'(1), unfolded keep]
  moreover have "pmem ?u pd = (pmem t pd)(m := 0)" "\<forall>f. f \<noteq> pd \<and> f \<noteq> ?f \<longrightarrow> pmem ?u f = pmem t f"
    using keep(2,5) by (simp_all add: drop_table_def)
  ultimately show ?thesis
    using drop(1) keep view by (intro exI [of _ ?u] exI [of _ "?f # ws"]) auto
qed

lemma space_step:
  assumes ok: "pgdir_ok s pd xs" and sp: "space_ok s pd xs" and m: "m < UTOP_index"
    and t: "space_cleared s pd xs m t"
  shows "\<exists>u. run (env_free_pde pd m) t = (Ret (), u) \<and> space_cleared s pd xs (Suc m) u"
proof -
  obtain zs where zs: "pgdir_ok t pd zs" "refs_dropped (space_drop s pd m) s xs t zs"
    and keep: "tables t pd = tables s pd - user_tables s pd m" "\<And>d. m \<le> d \<Longrightarrow> pmem t pd d = pmem s pd d"
      "npages t = npages s" "env_part t = env_part s"
      "\<forall>f. f \<noteq> pd \<and> f \<notin> user_tables s pd m \<longrightarrow> pmem t f = pmem s f"
    and view: "\<And>va. unat (PDX va) \<noteq> UVPT_index \<Longrightarrow>
        entry t pd va = (if unat (PDX va) < m then 0 else entry s pd va)"
    using t unfolding space_cleared_def by blast
  have pde: "pmem t pd m = pmem s pd m" using keep(2) by simp
  show ?thesis
  proof (cases "present (pmem s pd m)")
    case False
    have "slot_entry s pd m i = 0" if "i < 1024" for i using False m that by (subst slot_entry_alt) simp_all
    then have "row_uses s pd m 1024 y = 0" for y by (intro row_uses_zero) simp
    then have c: "space_drop s pd (Suc m) = space_drop s pd m"
      using False by (simp add: fun_eq_iff space_drop_def user_tables_Suc)
    have absent: "entry s pd va = 0" if "unat (PDX va) = m" for va using False that by (simp add: entry_def pde_at_def)
    then have "space_cleared s pd xs (Suc m) t"
      unfolding space_cleared_def c
    proof (intro conjI allI impI)
      show "\<exists>zs. pgdir_ok t pd zs \<and> refs_dropped (space_drop s pd m) s xs t zs" using zs by blast
      show "tables t pd = tables s pd - user_tables s pd (Suc m)" using keep(1) False by (simp add: user_tables_Suc)
      fix va :: u32
      assume "unat (PDX va) \<noteq> UVPT_index"
      from view [OF this] show "entry t pd va = (if unat (PDX va) < Suc m then 0 else entry s pd va)"
        using absent [of va] by (simp add: less_Suc_eq)
    qed (use keep False in \<open>simp_all add: user_tables_Suc\<close>)
    then show ?thesis using False pde by (intro exI [of _ t]) (simp add: env_free_pde_def prog_simps)
  next
    case True
    let ?f = "frame_of (pmem s pd m)"
    have f: "?f \<in> user_tables s pd UTOP_index" "?f \<notin> user_tables s pd m"
      using True m user_table_index [OF ok m True] by (auto simp: user_tables_def)
    have "space_uses s pd m ?f = 0"
      using space_uses_table [OF sp user_table_index(1) [OF ok m True]] m by simp
    then have "space_drop s pd m ?f = 0" using f(2) by (simp add: space_drop_def)
    have "pp_ref (pages s ?f) = 1" using sp f(1) by (simp add: space_ok_def)
    then have one: "pp_ref (pages t ?f) = 1"
      using refs_dropped_same [OF zs(2) \<open>space_drop s pd m ?f = 0\<close>] by simp
    note row = row_ok_later [OF t zs sp m]
    obtain u ws where u: "run (env_free_pde pd m) t = (Ret (), u)" "pgdir_ok u pd ws"
      "refs_dropped (\<lambda>y. row_uses s pd m 1024 y + of_bool (y = ?f)) t zs u ws"
      "tables u pd = tables t pd - {?f}" "pmem u pd = (pmem t pd)(m := 0)" "npages u = npages t" "env_part u = env_part t"
      "\<forall>f. f \<noteq> pd \<and> f \<noteq> ?f \<longrightarrow> pmem u f = pmem t f"
      "\<And>va. unat (PDX va) \<noteq> UVPT_index \<Longrightarrow> entry u pd va = (if unat (PDX va) = m then 0 else entry t pd va)"
      using pde_present_run [OF zs(1) row(1) m] True one unfolding pde row(2) by blast
    have c: "(\<lambda>y. space_drop s pd m y + (row_uses s pd m 1024 y + of_bool (y = ?f))) = space_drop s pd (Suc m)"
      using True f(2) by (auto simp: fun_eq_iff space_drop_def user_tables_Suc)
    have bound: "space_drop s pd m y + (row_uses s pd m 1024 y + of_bool (y = ?f)) \<le> unat (pp_ref (pages s y))" for y
    proof (cases "y = ?f")
      case True
      then show ?thesis
        using \<open>space_drop s pd m ?f = 0\<close> \<open>pp_ref (pages s ?f) = 1\<close>
          tables_unmapped [OF sp user_table_index(1) [OF ok m \<open>present (pmem s pd m)\<close>] m] by simp
    next
      case False
      then show ?thesis using space_drop_bound [OF sp m, of y] by simp
    qed
    have "refs_dropped (space_drop s pd (Suc m)) s xs u ws"
      using refs_dropped_trans [OF zs(2) u(3) bound] unfolding c .
    moreover have "tables u pd = tables s pd - user_tables s pd (Suc m)"
      using True u(4) keep(1) by (auto simp: user_tables_Suc)
    moreover have "entry u pd va = (if unat (PDX va) < Suc m then 0 else entry s pd va)"
      if "unat (PDX va) \<noteq> UVPT_index" for va
      unfolding u(9) [OF that] view [OF that] by (simp add: less_Suc_eq)
    moreover have "\<forall>f. f \<noteq> pd \<and> f \<notin> user_tables s pd (Suc m) \<longrightarrow> pmem u f = pmem s f"
      using True u(8) keep(5) by (simp add: user_tables_Suc)
    ultimately have "space_cleared s pd xs (Suc m) u"
      unfolding space_cleared_def using u(2,5,6,7) keep(2,3,4) by (intro conjI) (blast, simp_all)
    then show ?thesis using u(1) by blast
  qed
qed

lemma space_loop:
  assumes ok: "pgdir_ok s pd xs" and sp: "space_ok s pd xs" and m: "m \<le> UTOP_index"
  shows "\<exists>t. run (forP [0..<m] (env_free_pde pd)) s = (Ret (), t) \<and> space_cleared s pd xs m t"
  using m
proof (induction m)
  case 0
  then show ?case using ok
    by (auto simp: prog_simps space_cleared_def refs_dropped_def space_drop_def user_tables_def)
next
  case (Suc m)
  then obtain t where t: "run (forP [0..<m] (env_free_pde pd)) s = (Ret (), t)" "space_cleared s pd xs m t" by auto
  obtain u where "run (env_free_pde pd m) t = (Ret (), u)" "space_cleared s pd xs (Suc m) u"
    using space_step [OF ok sp _ t(2)] Suc.prems by auto
  then show ?case using t(1) by (simp add: prog_simps)
qed

section \<open>The whole environment\<close>

lemma space_cong:
  assumes "pmem t = pmem s" and "pages t = pages s" and "npages t = npages s"
  shows "space_ok t pd xs = space_ok s pd xs" "space_drop t pd m = space_drop s pd m"
    "user_tables t pd m = user_tables s pd m"
proof -
  have e: "slot_entry t pd d i = slot_entry s pd d i" for d i
    by (simp add: slot_entry_def same_memory_view [OF assms(1)])
  then have u: "space_uses t pd m y = space_uses s pd m y" for m y
    unfolding space_uses_def by (intro sum.cong refl row_uses_cong)
  show ut: "user_tables t pd m = user_tables s pd m" for m by (simp add: user_tables_def assms(1))
  show "space_drop t pd m = space_drop s pd m" by (simp add: fun_eq_iff space_drop_def u ut)
  show "space_ok t pd xs = space_ok s pd xs"
    by (simp add: space_ok_def mapped_ok_def data_page_def same_memory_view [OF assms(1)] u ut assms(2,3))
qed

lemma free_format [formats]: "vprintfmt ''[%08x] free env %08x\<newline>'' [VInt a, VInt b] \<noteq> None"
  by (simp add: fmt_eval)

definition note_demise :: "nat \<Rightarrow> kstate \<Rightarrow> kstate" where
  "note_demise e s =
     (let u = (if curenv s = Some e then s\<lparr>cr3 := page2pa (kern_pgdir s)\<rparr> else s)
      in u\<lparr>console := console u @ render ''[%08x] free env %08x\<newline>'' [VInt (cur_id u), VInt (env_id (envs u e))]\<rparr>)"

lemma note_demise_sel [simp]:
  "pmem (note_demise e s) = pmem s" "pages (note_demise e s) = pages s" "npages (note_demise e s) = npages s"
  "page_free_list (note_demise e s) = page_free_list s" "env_part (note_demise e s) = env_part s"
  "envs (note_demise e s) = envs s"
  by (simp_all add: note_demise_def Let_def)

lemma env_free_start:
  assumes "env_pgdir (envs s e) = Some pd" and "kern_pgdir s < 65536" and "pd < 65536"
    and "run (forP [0..<UTOP_index] (env_free_pde pd)) (note_demise e s) = (Ret (), t)" and "npages t = npages s"
    and "pd < npages s" and "machine_ok s"
  shows "run (env_free e) s =
    run (thenP (modify (upd_env e (\<lambda>v. v\<lparr>env_pgdir := None\<rparr>)))
        (thenP (page_decref pd)
        (modify (\<lambda>s. (upd_env e (\<lambda>v. v\<lparr>env_status := ENV_FREE, env_link := env_free_list s\<rparr>) s)
                       \<lparr>env_free_list := Some e\<rparr>)))) t"
  using assms
  by (cases "curenv s = Some e")
    (simp_all add: env_free_def prog_simps PADDR_frame lcr3_def run_cprintf formats note_demise_def Let_def UTOP_index
      PGNUM_page2pa machine_ok_def del: upt_rec_numeral run_PADDR)

text \<open>
  \<open>env_free\<close> on memory and on the table: what is freed is the directory, the user tables, and every page
  that has lost all its references.
\<close>

lemma env_free_run:
  assumes ok: "pgdir_ok s pd xs" and sp: "space_ok s pd xs" and pd: "env_pgdir (envs s e) = Some pd"
    and one: "pp_ref (pages s pd) = 1" and k: "kern_pgdir s < 65536"
  shows "\<exists>t zs. run (env_free e) s = (Ret (), t) \<and> free_pages t (pd # zs)
    \<and> set zs = set xs \<union> {y. 0 < space_drop s pd UTOP_index y \<and> space_drop s pd UTOP_index y = unat (pp_ref (pages s y))}
    \<and> (\<forall>y. y \<noteq> pd \<longrightarrow> unat (pp_ref (pages t y)) = unat (pp_ref (pages s y)) - space_drop s pd UTOP_index y)
    \<and> pp_ref (pages t pd) = 0
    \<and> envs t = (envs s)(e := (envs s e)\<lparr>env_pgdir := None, env_status := ENV_FREE, env_link := env_free_list s\<rparr>)
    \<and> env_free_list t = Some e \<and> curenv t = curenv s
    \<and> npages t = npages s \<and> kern_pgdir t = kern_pgdir s
    \<and> (\<forall>f. f \<noteq> pd \<and> f \<notin> user_tables s pd UTOP_index \<longrightarrow> pmem t f = pmem s f)"
proof -
  let ?s = "note_demise e s"
  have ok': "pgdir_ok ?s pd xs" using ok by (subst same_ok [of _ s]) simp_all
  have cong: "space_ok ?s pd xs = space_ok s pd xs" "space_drop ?s pd m = space_drop s pd m"
      "user_tables ?s pd m = user_tables s pd m" for m
    by (rule space_cong; simp)+
  obtain t where t: "run (forP [0..<UTOP_index] (env_free_pde pd)) ?s = (Ret (), t)"
      "space_cleared ?s pd xs UTOP_index t"
    using space_loop [OF ok', of UTOP_index] sp cong(1) by auto
  then obtain zs where zs: "pgdir_ok t pd zs" "refs_dropped (space_drop s pd UTOP_index) s xs t zs"
      and np: "npages t = npages s" and part: "env_part t = env_part s"
      and mem: "\<forall>f. f \<noteq> pd \<and> f \<notin> user_tables s pd UTOP_index \<longrightarrow> pmem t f = pmem s f"
    unfolding space_cleared_def cong(2,3) by (auto simp: refs_dropped_def)
  have pds: "pd < npages s" "pd < 65536" "machine_ok s"
    using pgdir_okD [OF ok] by (auto simp: machine_ok_def)
  have "space_uses s pd UTOP_index pd = 0"
    using sp unfolding space_uses_def
    by (intro sum.neutral ballI row_uses_zero) (auto simp: space_ok_def mapped_ok_def data_page_def slot_entry_def)
  moreover have "pd \<notin> user_tables s pd UTOP_index"
    using user_tables_subset [of UTOP_index s pd] pgdir_okD(6) [OF ok] by auto
  ultimately have "space_drop s pd UTOP_index pd = 0" by (simp add: space_drop_def)
  then have one': "pp_ref (pages t pd) = 1" using refs_dropped_same [OF zs(2)] one by simp
  let ?u = "upd_env e (\<lambda>v. v\<lparr>env_pgdir := None\<rparr>) t"
  have free: "free_pages ?u zs" "pd \<notin> set zs"
    using pgdir_okD(1,4) [OF zs(1)] by (simp_all add: free_pages_def upd_env_def)
  have dec: "run (page_decref pd) ?u = (Ret (), decref pd ?u)" by (rule page_decref_run [OF free])
  have "free_pages (decref pd ?u) (pd # zs)"
    using decref_free_pages [OF free] one' pds(1) np by (simp add: upd_env_def)
  then have "free_pages ((upd_env e (\<lambda>v. v\<lparr>env_status := ENV_FREE, env_link := env_free_list (decref pd ?u)\<rparr>)
      (decref pd ?u))\<lparr>env_free_list := Some e\<rparr>) (pd # zs)"
    by (simp add: free_pages_def upd_env_def)
  moreover have "pp_ref (pages (decref pd ?u) y) = (if y = pd then 0 else pp_ref (pages t y))" for y
    using one' by (simp add: pp_ref_decref upd_env_def)
  moreover have "envs t = envs s" "env_free_list t = env_free_list s" "curenv t = curenv s"
      "kern_pgdir t = kern_pgdir s"
    using part by (simp_all add: env_part_def)
  ultimately show ?thesis
    using env_free_start [OF pd k pds(2) t(1) np pds(1,3)] dec zs(2) mem np
    by (intro exI [of _ "(upd_env e (\<lambda>v. v\<lparr>env_status := ENV_FREE, env_link := env_free_list (decref pd ?u)\<rparr>)
          (decref pd ?u))\<lparr>env_free_list := Some e\<rparr>"] exI [of _ zs])
      (simp add: prog_simps refs_dropped_def upd_env_def)
qed

lemma freed_pages:
  assumes "space_ok s pd xs"
  shows "{y. 0 < space_drop s pd UTOP_index y \<and> space_drop s pd UTOP_index y = unat (pp_ref (pages s y))}
    = user_tables s pd UTOP_index
      \<union> {y. 0 < space_uses s pd UTOP_index y \<and> space_uses s pd UTOP_index y = unat (pp_ref (pages s y))}"
proof -
  have "space_uses s pd UTOP_index y = 0 \<and> unat (pp_ref (pages s y)) = 1" if "y \<in> user_tables s pd UTOP_index" for y
    using that assms space_uses_table [OF assms, of y UTOP_index] user_tables_subset [of UTOP_index s pd]
    by (auto simp: space_ok_def)
  then show ?thesis by (auto simp: space_drop_def)
qed

end
