(* ===== verification/KernelInv.thy ===== *)
theory KernelInv
  imports EnvFree
begin

text \<open>
  The invariant of the whole memory: which page belongs to whom when several environments live
  side by side. Every address space has a directory and user tables of its own, shares the
  kernel's tables, and maps client pages only; the reference counts cover the mappings of all
  of them together. \<open>env_alloc\<close> adds a space and \<open>env_free\<close> takes one away.
\<close>

section \<open>Address spaces side by side\<close>

text \<open>The pages that make up an address space, and those that make up the kernel's.\<close>

definition own :: "kstate \<Rightarrow> nat \<Rightarrow> nat set" where
  "own s pd = insert pd (user_tables s pd UTOP_index)"

definition kernel_frames :: "kstate \<Rightarrow> nat set" where
  "kernel_frames s = insert (kern_pgdir s) (tables s (kern_pgdir s))"

text \<open>Above \<open>UTOP\<close> a directory is a copy of the kernel's, except that it maps itself at \<open>UVPT\<close>.\<close>

definition kernel_half :: "kstate \<Rightarrow> nat \<Rightarrow> bool" where
  "kernel_half s pd \<longleftrightarrow>
     (\<forall>d. UTOP_index \<le> d \<and> d < 1024 \<and> d \<noteq> UVPT_index \<longrightarrow> pmem s pd d = pmem s (kern_pgdir s) d) \<and>
     pmem s pd UVPT_index = page2pa pd OR PTE_P OR PTE_U"

definition client_page :: "kstate \<Rightarrow> nat set \<Rightarrow> nat \<Rightarrow> bool" where
  "client_page s D y \<longleftrightarrow> y < npages s \<and> y \<notin> kernel_frames s \<and> (\<forall>pd \<in> D. y \<notin> own s pd)"

definition total_uses :: "kstate \<Rightarrow> nat set \<Rightarrow> nat \<Rightarrow> nat" where
  "total_uses s D y = (\<Sum>pd \<in> D. space_uses s pd UTOP_index y)"

definition spaces_ok :: "kstate \<Rightarrow> nat list \<Rightarrow> nat set \<Rightarrow> bool" where
  "spaces_ok s xs D \<longleftrightarrow>
     finite D \<and> pgdir_ok s (kern_pgdir s) xs \<and> (\<forall>d < UTOP_index. \<not> present (pmem s (kern_pgdir s) d)) \<and>
     (\<forall>pd \<in> D. pgdir_ok s pd xs \<and> kernel_half s pd \<and> own s pd \<inter> kernel_frames s = {} \<and>
        (\<forall>y \<in> own s pd. pp_ref (pages s y) = 1)) \<and>
     (\<forall>pd \<in> D. \<forall>pd' \<in> D. pd \<noteq> pd' \<longrightarrow> own s pd \<inter> own s pd' = {}) \<and>
     (\<forall>pd \<in> D. \<forall>d < UTOP_index. \<forall>i < 1024. present (slot_entry s pd d i) \<longrightarrow>
        client_page s D (frame_of (slot_entry s pd d i))) \<and>
     (\<forall>y. total_uses s D y \<le> unat (pp_ref (pages s y)))"

lemma spaces_okD:
  assumes "spaces_ok s xs D"
  shows "finite D" "pgdir_ok s (kern_pgdir s) xs" "\<And>d. d < UTOP_index \<Longrightarrow> \<not> present (pmem s (kern_pgdir s) d)"
    and "\<And>pd. pd \<in> D \<Longrightarrow> pgdir_ok s pd xs" "\<And>pd. pd \<in> D \<Longrightarrow> kernel_half s pd"
    and "\<And>pd. pd \<in> D \<Longrightarrow> own s pd \<inter> kernel_frames s = {}"
    and "\<And>pd y. pd \<in> D \<Longrightarrow> y \<in> own s pd \<Longrightarrow> pp_ref (pages s y) = 1"
    and "\<And>pd pd'. pd \<in> D \<Longrightarrow> pd' \<in> D \<Longrightarrow> pd \<noteq> pd' \<Longrightarrow> own s pd \<inter> own s pd' = {}"
    and "\<And>pd d i. pd \<in> D \<Longrightarrow> d < UTOP_index \<Longrightarrow> i < 1024 \<Longrightarrow> present (slot_entry s pd d i) \<Longrightarrow>
           client_page s D (frame_of (slot_entry s pd d i))"
    and "\<And>y. total_uses s D y \<le> unat (pp_ref (pages s y))"
  using assms unfolding spaces_ok_def by blast+

text \<open>The tables of a space are its user tables and the kernel's.\<close>

lemma tables_split:
  assumes "kernel_half s pd" and "\<And>d. d < UTOP_index \<Longrightarrow> \<not> present (pmem s (kern_pgdir s) d)"
  shows "tables s pd = user_tables s pd UTOP_index \<union> tables s (kern_pgdir s)"
proof -
  have half: "pmem s pd d = pmem s (kern_pgdir s) d" if "UTOP_index \<le> d" "d < 1024" "d \<noteq> UVPT_index" for d
    using assms(1) that by (simp add: kernel_half_def)
  have "table_slots s pd = {d. d < UTOP_index \<and> present (pmem s pd d)} \<union> table_slots s (kern_pgdir s)"
    using half assms(2) by (auto simp: table_slots_def) (metis not_le_imp_less)+
  moreover have "frame_of (pmem s pd d) = frame_of (pmem s (kern_pgdir s) d)" if "d \<in> table_slots s (kern_pgdir s)" for d
    using that assms(2) half by (simp add: table_slots_def) (metis not_le_imp_less)
  ultimately show ?thesis by (simp add: tables_def user_tables_def image_Un)
qed

lemma own_frames:
  assumes "spaces_ok s xs D" and "pd \<in> D"
  shows "tables s pd = user_tables s pd UTOP_index \<union> tables s (kern_pgdir s)"
    and "\<And>f. f \<in> own s pd \<Longrightarrow> f < npages s \<and> f \<notin> set xs"
  using tables_split [OF spaces_okD(5,3) [OF assms(1)]] assms(2)
    pgdir_okD(3,4,6) [OF spaces_okD(4) [OF assms]] by (auto simp: own_def)

lemma kernel_frame_ok:
  "spaces_ok s xs D \<Longrightarrow> f \<in> kernel_frames s \<Longrightarrow> f < npages s \<and> f \<notin> set xs"
  using pgdir_okD(3,4,6) [OF spaces_okD(2)] by (auto simp: kernel_frames_def)

text \<open>A page with a mapping is not free.\<close>

lemma uses_total: "finite D \<Longrightarrow> pd \<in> D \<Longrightarrow> space_uses s pd UTOP_index y \<le> total_uses s D y"
  unfolding total_uses_def by (rule member_le_sum) auto

lemma mapped_uses:
  assumes "d < UTOP_index" and "i < 1024" and "present (slot_entry s pd d i)"
  shows "0 < space_uses s pd UTOP_index (frame_of (slot_entry s pd d i))"
proof -
  let ?y = "frame_of (slot_entry s pd d i)"
  have "1 = maps_to s pd ?y d i" using assms(3) by (simp add: maps_to_def)
  also have "\<dots> \<le> row_uses s pd d 1024 ?y" unfolding row_uses_def using assms(2) by (intro member_le_sum) auto
  also have "\<dots> \<le> space_uses s pd UTOP_index ?y"
    unfolding space_uses_def using assms(1) by (intro member_le_sum [where f = "\<lambda>d. row_uses s pd d 1024 ?y"]) auto
  finally show ?thesis by simp
qed

lemma used_page:
  assumes ok: "spaces_ok s xs D" and pd: "pd \<in> D" and use: "0 < space_uses s pd UTOP_index y"
  shows "client_page s D y" "y \<notin> set xs"
proof -
  obtain d where d: "d < UTOP_index" "0 < row_uses s pd d 1024 y"
    using use unfolding space_uses_def by (auto simp: sum_eq_0_iff [OF finite_lessThan] simp flip: neq0_conv)
  then obtain i where "i < 1024" "0 < maps_to s pd y d i"
    unfolding row_uses_def by (auto simp: sum_eq_0_iff [OF finite_lessThan] simp flip: neq0_conv)
  then have "present (slot_entry s pd d i)" "frame_of (slot_entry s pd d i) = y" "i < 1024"
    by (auto simp: maps_to_def split: if_splits)
  then show "client_page s D y" using spaces_okD(9) [OF ok pd d(1)] by blast
  have "0 < unat (pp_ref (pages s y))"
    using use uses_total [OF spaces_okD(1) [OF ok] pd, of s y] spaces_okD(10) [OF ok, of y] by linarith
  then show "y \<notin> set xs" using pgdir_okD(1) [OF spaces_okD(2) [OF ok]] by (auto simp: free_pages_def)
qed

lemma spaces_space_ok:
  assumes ok: "spaces_ok s xs D" and pd: "pd \<in> D"
  shows "space_ok s pd xs"
proof -
  have "mapped_ok s pd xs (slot_va d i)" if di: "d < UTOP_index" "i < 1024" for d i
    unfolding mapped_ok_def slot_entry_def [symmetric]
  proof
    assume P: "present (slot_entry s pd d i)"
    let ?y = "frame_of (slot_entry s pd d i)"
    have "?y \<notin> set xs" using used_page(2) [OF ok pd mapped_uses [OF di P]] .
    then show "data_page s pd xs ?y"
      using spaces_okD(9) [OF ok pd di P] own_frames(1) [OF ok pd] pd
      by (auto simp: data_page_def client_page_def own_def kernel_frames_def)
  qed
  moreover have "space_uses s pd UTOP_index y \<le> unat (pp_ref (pages s y))" for y
    using uses_total [OF spaces_okD(1) [OF ok] pd, of s y] spaces_okD(10) [OF ok, of y] by linarith
  ultimately show ?thesis
    using spaces_okD(7) [OF ok pd] by (auto simp: space_ok_def own_def)
qed

section \<open>Framing\<close>

lemma own_same:
  assumes "\<And>f. f \<in> own s pd \<Longrightarrow> pmem t f = pmem s f"
  shows "own t pd = own s pd" "user_tables t pd UTOP_index = user_tables s pd UTOP_index"
    and "\<And>d i. d < UTOP_index \<Longrightarrow> i < 1024 \<Longrightarrow> slot_entry t pd d i = slot_entry s pd d i"
    and "\<And>y. space_uses t pd UTOP_index y = space_uses s pd UTOP_index y"
proof -
  have pd: "pmem t pd = pmem s pd" using assms by (simp add: own_def)
  then show u: "user_tables t pd UTOP_index = user_tables s pd UTOP_index" by (simp add: user_tables_def)
  then show "own t pd = own s pd" by (simp add: own_def)
  show e: "slot_entry t pd d i = slot_entry s pd d i" if "d < UTOP_index" "i < 1024" for d i
  proof (cases "present (pmem s pd d)")
    case True
    then have "frame_of (pmem s pd d) \<in> own s pd" using that(1) by (auto simp: own_def user_tables_def)
    then show ?thesis using that by (simp add: slot_entry_alt pd assms)
  next
    case False
    then show ?thesis using that by (simp add: slot_entry_alt pd)
  qed
  show "space_uses t pd UTOP_index y = space_uses s pd UTOP_index y" for y
    unfolding space_uses_def by (intro sum.cong refl row_uses_cong) (simp add: e)
qed

lemma kernel_same:
  assumes "pmem t (kern_pgdir s) = pmem s (kern_pgdir s)" and "kern_pgdir t = kern_pgdir s"
  shows "kernel_frames t = kernel_frames s" "pmem t pd = pmem s pd \<Longrightarrow> kernel_half t pd = kernel_half s pd"
  using assms by (simp_all add: kernel_frames_def kernel_half_def tables_def table_slots_def)

lemma pgdir_ok_transfer:
  assumes "pgdir_ok s pd xs" and "pmem t pd = pmem s pd" and "npages t = npages s" and "free_pages t zs"
    and "\<And>f. f \<in> insert pd (tables s pd) \<Longrightarrow> f \<notin> set zs"
  shows "pgdir_ok t pd zs"
proof -
  have "table_slots t pd = table_slots s pd" "tables t pd = tables s pd"
    using assms(2) by (simp_all add: table_slots_def tables_def)
  then show ?thesis using assms pgdir_okD [OF assms(1)]
    by (auto simp: pgdir_ok_def machine_ok_def)
qed

section \<open>Taking a space away\<close>

text \<open>What \<open>env_free\<close> has done to memory when it returns.\<close>

definition space_freed :: "kstate \<Rightarrow> nat \<Rightarrow> nat list \<Rightarrow> kstate \<Rightarrow> nat list \<Rightarrow> bool" where
  "space_freed s pd xs t zs \<longleftrightarrow>
     free_pages t (pd # zs) \<and>
     set zs = set xs \<union> {y. 0 < space_drop s pd UTOP_index y \<and> space_drop s pd UTOP_index y = unat (pp_ref (pages s y))} \<and>
     (\<forall>y. y \<noteq> pd \<longrightarrow> unat (pp_ref (pages t y)) = unat (pp_ref (pages s y)) - space_drop s pd UTOP_index y) \<and>
     npages t = npages s \<and> kern_pgdir t = kern_pgdir s \<and> (\<forall>f. f \<notin> own s pd \<longrightarrow> pmem t f = pmem s f)"

lemma unused_drop:
  assumes ok: "spaces_ok s xs D" and pd: "pd \<in> D" and y: "\<not> client_page s D y" "y \<notin> own s pd"
  shows "space_drop s pd UTOP_index y = 0"
  using used_page(1) [OF ok pd] y by (auto simp: space_drop_def own_def simp flip: neq0_conv)

lemma space_freed_ok:
  assumes ok: "spaces_ok s xs D" and pd: "pd \<in> D" and freed: "space_freed s pd xs t zs"
  shows "spaces_ok t (pd # zs) (D - {pd})"
proof -
  note D = spaces_okD [OF ok]
  have free: "free_pages t (pd # zs)" and np: "npages t = npages s" and kp: "kern_pgdir t = kern_pgdir s"
    and zs: "set zs = set xs \<union> {y. 0 < space_drop s pd UTOP_index y \<and> space_drop s pd UTOP_index y = unat (pp_ref (pages s y))}"
    and ref: "\<And>y. y \<noteq> pd \<Longrightarrow> unat (pp_ref (pages t y)) = unat (pp_ref (pages s y)) - space_drop s pd UTOP_index y"
    and mem: "\<And>f. f \<notin> own s pd \<Longrightarrow> pmem t f = pmem s f"
    using freed unfolding space_freed_def by blast+
  have pdown: "pd \<in> own s pd" by (simp add: own_def)
  have kmem: "pmem t (kern_pgdir s) = pmem s (kern_pgdir s)"
    using D(6) [OF pd] by (intro mem) (auto simp: kernel_frames_def)
  note ksame = kernel_same [OF kmem kp]
  have stays: "f \<notin> set (pd # zs)" if "f \<notin> own s pd" "f \<notin> set xs" "\<not> client_page s D f" for f
    using unused_drop [OF ok pd that(3,1)] that pdown by (auto simp: zs)
  have K: "f \<notin> own s pd \<and> \<not> client_page s D f" if "f \<in> kernel_frames s" for f
    using that D(6) [OF pd] by (auto simp: client_page_def)
  have kok: "pgdir_ok t (kern_pgdir t) (pd # zs)"
    unfolding kp
  proof (rule pgdir_ok_transfer [OF D(2) kmem np free])
    fix f assume "f \<in> insert (kern_pgdir s) (tables s (kern_pgdir s))"
    then have f: "f \<in> kernel_frames s" by (simp add: kernel_frames_def)
    then show "f \<notin> set (pd # zs)" using stays K kernel_frame_ok [OF ok f] by blast
  qed
  have other: "pgdir_ok t pd' (pd # zs)" "kernel_half t pd'" "own t pd' = own s pd'"
      "\<And>d i. d < UTOP_index \<Longrightarrow> i < 1024 \<Longrightarrow> slot_entry t pd' d i = slot_entry s pd' d i"
      "\<And>y. space_uses t pd' UTOP_index y = space_uses s pd' UTOP_index y"
      "\<And>y. y \<in> own s pd' \<Longrightarrow> pp_ref (pages t y) = 1"
    if pd': "pd' \<in> D" "pd' \<noteq> pd" for pd'
  proof -
    have disj: "own s pd' \<inter> own s pd = {}" by (rule D(8) [OF pd'(1) pd pd'(2)])
    have own_mem: "pmem t f = pmem s f" if "f \<in> own s pd'" for f using that disj by (intro mem) blast
    note same = own_same [of s pd' t, OF own_mem]
    show "own t pd' = own s pd'"
      "\<And>d i. d < UTOP_index \<Longrightarrow> i < 1024 \<Longrightarrow> slot_entry t pd' d i = slot_entry s pd' d i"
      "\<And>y. space_uses t pd' UTOP_index y = space_uses s pd' UTOP_index y" using same by blast+
    have m: "pmem t pd' = pmem s pd'" by (rule own_mem) (simp add: own_def)
    show "kernel_half t pd'" using ksame(2) [OF m] D(5) [OF pd'(1)] by simp
    have O: "f \<notin> own s pd \<and> \<not> client_page s D f" if "f \<in> own s pd'" for f
      using that disj pd'(1) by (auto simp: client_page_def)
    show "pgdir_ok t pd' (pd # zs)"
    proof (rule pgdir_ok_transfer [OF D(4) [OF pd'(1)] m np free])
      fix f assume "f \<in> insert pd' (tables s pd')"
      then have f: "f \<in> own s pd' \<or> f \<in> kernel_frames s"
        using own_frames(1) [OF ok pd'(1)] by (auto simp: own_def kernel_frames_def)
      then have "f \<notin> set xs" using own_frames(2) [OF ok pd'(1)] kernel_frame_ok [OF ok] by blast
      then show "f \<notin> set (pd # zs)" using stays K O f by blast
    qed
    fix y assume y: "y \<in> own s pd'"
    have "space_drop s pd UTOP_index y = 0" using O [OF y] unused_drop [OF ok pd] by blast
    moreover have "y \<noteq> pd" using O [OF y] pdown by blast
    ultimately have "unat (pp_ref (pages t y)) = unat (pp_ref (pages s y))" using ref [of y] by simp
    then have "pp_ref (pages t y) = pp_ref (pages s y)" by (simp only: word_unat_eq_iff)
    then show "pp_ref (pages t y) = 1" using D(7) [OF pd'(1) y] by simp
  qed
  have client: "client_page t (D - {pd}) y" if "client_page s D y" for y
    using that np ksame(1) other(3) by (auto simp: client_page_def)
  have total: "total_uses t (D - {pd}) y \<le> unat (pp_ref (pages t y))" for y
  proof (cases "total_uses t (D - {pd}) y = 0")
    case False
    have sum: "total_uses t (D - {pd}) y = (\<Sum>pd' \<in> D - {pd}. space_uses s pd' UTOP_index y)"
      unfolding total_uses_def using other(5) by (intro sum.cong) auto
    then obtain pd' where "pd' \<in> D" "0 < space_uses s pd' UTOP_index y" using False D(1) by (auto simp flip: neq0_conv)
    then have y: "client_page s D y" using used_page(1) [OF ok] by blast
    then have "y \<notin> own s pd" using pd by (auto simp: client_page_def)
    then have "y \<noteq> pd" "space_drop s pd UTOP_index y = space_uses s pd UTOP_index y"
      using pdown by (auto simp: space_drop_def own_def)
    moreover have "total_uses s D y = space_uses s pd UTOP_index y + total_uses t (D - {pd}) y"
      unfolding sum unfolding total_uses_def by (rule sum.remove [OF D(1) pd])
    ultimately show ?thesis using ref [of y] D(10) [of y] by simp
  qed simp
  show ?thesis
    unfolding spaces_ok_def
  proof (intro conjI ballI allI impI)
    show "finite (D - {pd})" using D(1) by simp
    show "pgdir_ok t (kern_pgdir t) (pd # zs)" by (rule kok)
    show "\<not> present (pmem t (kern_pgdir t) d)" if "d < UTOP_index" for d using D(3) [OF that] kmem kp by simp
    show "total_uses t (D - {pd}) y \<le> unat (pp_ref (pages t y))" for y by (rule total)
  next
    fix pd' assume "pd' \<in> D - {pd}"
    then have p: "pd' \<in> D" "pd' \<noteq> pd" by auto
    note o = other [OF p]
    show "pgdir_ok t pd' (pd # zs)" "kernel_half t pd'" by (rule o)+
    show "own t pd' \<inter> kernel_frames t = {}" using o(3) ksame(1) D(6) [OF p(1)] by simp
    show "pp_ref (pages t y) = 1" if "y \<in> own t pd'" for y using that o(3,6) by simp
    show "own t pd' \<inter> own t pd'' = {}" if "pd'' \<in> D - {pd}" "pd' \<noteq> pd''" for pd''
      using that o(3) other(3) [of pd''] D(8) [of pd' pd''] p by simp
    show "client_page t (D - {pd}) (frame_of (slot_entry t pd' d i))"
      if "d < UTOP_index" "i < 1024" "present (slot_entry t pd' d i)" for d i
      using that o(4) D(9) [OF p(1)] client by simp
  qed
qed

section \<open>Adding a space\<close>

text \<open>A free page becomes a directory, with the kernel's half and nothing below \<open>UTOP\<close>.\<close>

definition space_added :: "kstate \<Rightarrow> nat \<Rightarrow> kstate \<Rightarrow> bool" where
  "space_added s x t \<longleftrightarrow>
     npages t = npages s \<and> kern_pgdir t = kern_pgdir s \<and>
     (\<forall>f. pmem t f = (if f = x then (pmem s (kern_pgdir s))(UVPT_index := page2pa x OR PTE_P OR PTE_U) else pmem s f)) \<and>
     (\<forall>y. pp_ref (pages t y) = (if y = x then pp_ref (pages s y) + 1 else pp_ref (pages s y)))"

lemma space_added_ok:
  assumes ok: "spaces_ok s (x # xs) D" and add: "space_added s x t" and free: "free_pages t xs"
  shows "spaces_ok t xs (insert x D)" "x \<notin> D"
proof -
  note D = spaces_okD [OF ok]
  have np: "npages t = npages s" and kp: "kern_pgdir t = kern_pgdir s"
    and memx: "pmem t x = (pmem s (kern_pgdir s))(UVPT_index := page2pa x OR PTE_P OR PTE_U)"
    and mem: "\<And>f. f \<noteq> x \<Longrightarrow> pmem t f = pmem s f"
    and ref: "\<And>y. pp_ref (pages t y) = (if y = x then pp_ref (pages s y) + 1 else pp_ref (pages s y))"
    using add unfolding space_added_def by auto
  have x: "x < npages s" "pp_ref (pages s x) = 0" "x \<notin> set xs"
    using pgdir_okD(1) [OF D(2)] free_pages_distinct [OF pgdir_okD(1) [OF D(2)]] by (auto simp: free_pages_def)
  have xK: "x \<notin> kernel_frames s" using kernel_frame_ok [OF ok, of x] by auto
  have xown: "x \<notin> own s pd" if "pd \<in> D" for pd using own_frames(2) [OF ok that, of x] by auto
  then show xD: "x \<notin> D" by (auto simp: own_def)
  have xunused: "space_uses s pd UTOP_index x = 0" if "pd \<in> D" for pd
    using used_page(2) [OF ok that, of x] by (auto simp flip: neq0_conv)
  have kmem: "pmem t (kern_pgdir s) = pmem s (kern_pgdir s)"
    using xK by (intro mem) (auto simp: kernel_frames_def)
  note ksame = kernel_same [OF kmem kp]
  have kok: "pgdir_ok t (kern_pgdir t) xs"
    unfolding kp using kernel_frame_ok [OF ok]
    by (intro pgdir_ok_transfer [OF D(2) kmem np free]) (auto simp: kernel_frames_def)
  have low: "\<not> present (pmem t x d)" if "d < UTOP_index" for d using D(3) [OF that] that memx by simp
  then have new: "own t x = {x}" "\<And>d i. d < UTOP_index \<Longrightarrow> i < 1024 \<Longrightarrow> slot_entry t x d i = 0"
    by (auto simp: own_def user_tables_def slot_entry_alt)
  have self: "frame_of (page2pa x OR PTE_P OR PTE_U) = x"
    using frame_of_entry [of x "PTE_P OR PTE_U"] x(1) pgdir_okD(5) [OF D(2)] by simp
  have slots: "table_slots t x = table_slots s (kern_pgdir s)"
    by (auto simp: table_slots_def memx split: if_splits)
  then have tabs: "tables t x = tables s (kern_pgdir s)"
    unfolding tables_def by (intro image_cong) (auto simp: memx table_slots_def)
  have xok: "pgdir_ok t x xs"
    unfolding pgdir_ok_def
  proof (intro conjI impI ballI)
    show "free_pages t xs" by (rule free)
    show "machine_ok t" using pgdir_okD(2) [OF D(2)] np by (simp add: machine_ok_def)
    show "x < npages t" "x \<notin> set xs" using x np by simp_all
    show "inj_on (\<lambda>i. frame_of (pmem t x i)) (table_slots t x)"
      using pgdir_okD(7) [OF D(2)] unfolding slots
      by (rule inj_on_cong [THEN iffD1, rotated]) (auto simp: memx table_slots_def)
    show "frame_of (pmem t x UVPT_index) = x" using memx self by simp
  next
    fix f assume "f \<in> tables t x"
    then have "f \<in> kernel_frames s" by (simp add: tabs kernel_frames_def)
    then show "f < npages t" "f \<notin> set xs" "f \<noteq> x" using kernel_frame_ok [OF ok] np xK by auto
  qed
  have xhalf: "kernel_half t x" using kmem kp memx by (simp add: kernel_half_def)
  have old: "pgdir_ok t pd xs" "kernel_half t pd" "own t pd = own s pd"
      "\<And>d i. d < UTOP_index \<Longrightarrow> i < 1024 \<Longrightarrow> slot_entry t pd d i = slot_entry s pd d i"
      "\<And>y. space_uses t pd UTOP_index y = space_uses s pd UTOP_index y"
      "\<And>y. y \<in> own s pd \<Longrightarrow> pp_ref (pages t y) = 1"
    if pd: "pd \<in> D" for pd
  proof -
    have own_mem: "pmem t f = pmem s f" if "f \<in> own s pd" for f using that xown [OF pd] by (intro mem) blast
    note same = own_same [of s pd t, OF own_mem]
    show "own t pd = own s pd"
      "\<And>d i. d < UTOP_index \<Longrightarrow> i < 1024 \<Longrightarrow> slot_entry t pd d i = slot_entry s pd d i"
      "\<And>y. space_uses t pd UTOP_index y = space_uses s pd UTOP_index y" using same by blast+
    have m: "pmem t pd = pmem s pd" by (rule own_mem) (simp add: own_def)
    show "kernel_half t pd" using ksame(2) [OF m] D(5) [OF pd] by simp
    show "pgdir_ok t pd xs"
      using pgdir_okD(4,6) [OF D(4) [OF pd]]
      by (intro pgdir_ok_transfer [OF D(4) [OF pd] m np free]) auto
    show "pp_ref (pages t y) = 1" if "y \<in> own s pd" for y using that D(7) [OF pd that] xown [OF pd] ref [of y] by auto
  qed
  have client: "client_page t (insert x D) y" if "client_page s D y" "y \<noteq> x" for y
    using that np ksame(1) old(3) new(1) by (auto simp: client_page_def)
  have "row_uses t x d 1024 y = 0" if "d < UTOP_index" for d y
    using that new(2) by (intro row_uses_zero) simp
  then have none: "space_uses t x UTOP_index y = 0" for y unfolding space_uses_def by simp
  have total: "total_uses t (insert x D) y \<le> unat (pp_ref (pages t y))" for y
  proof -
    have "total_uses t (insert x D) y = space_uses t x UTOP_index y + (\<Sum>pd \<in> D. space_uses t pd UTOP_index y)"
      unfolding total_uses_def by (rule sum.insert [OF D(1) xD])
    also have "\<dots> = total_uses s D y" unfolding none total_uses_def using old(5) by simp
    finally have "total_uses t (insert x D) y = total_uses s D y" .
    moreover have "total_uses s D x = 0" using xunused by (simp add: total_uses_def)
    ultimately show ?thesis using D(10) [of y] ref [of y] by (cases "y = x") simp_all
  qed
  have unmapped: "frame_of (slot_entry s pd d i) \<noteq> x" if "pd \<in> D" "d < UTOP_index" "i < 1024" "present (slot_entry s pd d i)" for pd d i
    using mapped_uses [OF that(2-4)] xunused [OF that(1)] by force
  show "spaces_ok t xs (insert x D)"
    unfolding spaces_ok_def
  proof (intro conjI ballI allI impI)
    show "finite (insert x D)" using D(1) by simp
    show "pgdir_ok t (kern_pgdir t) xs" by (rule kok)
    show "\<not> present (pmem t (kern_pgdir t) d)" if "d < UTOP_index" for d using D(3) [OF that] kmem kp by simp
    show "total_uses t (insert x D) y \<le> unat (pp_ref (pages t y))" for y by (rule total)
  next
    fix pd assume p: "pd \<in> insert x D"
    show "pgdir_ok t pd xs" "kernel_half t pd" using p xok xhalf old(1,2) by auto
    show "own t pd \<inter> kernel_frames t = {}" using p new(1) old(3) ksame(1) D(6) xK by (cases "pd = x") simp_all
    show "pp_ref (pages t y) = 1" if "y \<in> own t pd" for y
      using p that new(1) old(3,6) ref [of x] x(2) by (cases "pd = x") auto
    show "own t pd \<inter> own t pd' = {}" if "pd' \<in> insert x D" "pd \<noteq> pd'" for pd'
      using p that new(1) old(3) xown D(8) by (cases "pd = x"; cases "pd' = x") auto
    show "client_page t (insert x D) (frame_of (slot_entry t pd d i))"
      if s: "d < UTOP_index" "i < 1024" "present (slot_entry t pd d i)" for d i
    proof (cases "pd = x")
      case True
      then show ?thesis using s new(2) by simp
    next
      case False
      then have "pd \<in> D" using p by simp
      then show ?thesis using s old(4) D(9) client unmapped by simp
    qed
  qed
qed

section \<open>The kernel's invariant\<close>

text \<open>
  The free list of environments holds exactly the free ones, every other has an id of its own slot and
  a directory of its own, and the address spaces fit together.
\<close>

definition live :: "kstate \<Rightarrow> nat set" where
  "live s = {e. e < NENV \<and> env_status (envs s e) \<noteq> ENV_FREE}"

definition dir :: "kstate \<Rightarrow> nat \<Rightarrow> nat" where
  "dir s e = the (env_pgdir (envs s e))"

definition kernel_ok :: "kstate \<Rightarrow> nat list \<Rightarrow> nat list \<Rightarrow> bool" where
  "kernel_ok s xs es \<longleftrightarrow>
     linked (\<lambda>e. env_link (envs s e)) (env_free_list s) es \<and>
     set es = {e. e < NENV \<and> env_status (envs s e) = ENV_FREE} \<and>
     (\<forall>e \<in> live s. env_pgdir (envs s e) \<noteq> None \<and> 0 <s env_id (envs s e) \<and> ENVX (env_id (envs s e)) = e) \<and>
     inj_on (dir s) (live s) \<and> spaces_ok s xs (dir s ` live s)"

lemma kernel_okD:
  assumes "kernel_ok s xs es"
  shows "linked (\<lambda>e. env_link (envs s e)) (env_free_list s) es"
    and "set es = {e. e < NENV \<and> env_status (envs s e) = ENV_FREE}"
    and "\<And>e. e \<in> live s \<Longrightarrow> env_pgdir (envs s e) = Some (dir s e)"
    and "\<And>e. e \<in> live s \<Longrightarrow> 0 <s env_id (envs s e) \<and> ENVX (env_id (envs s e)) = e"
    and "inj_on (dir s) (live s)" "spaces_ok s xs (dir s ` live s)"
  using assms unfolding kernel_ok_def dir_def by auto

lemma kernel_ok_space:
  assumes "kernel_ok s xs es" and "e \<in> live s"
  shows "pgdir_ok s (dir s e) xs" "space_ok s (dir s e) xs" "env_pgdir (envs s e) = Some (dir s e)"
    and "pp_ref (pages s (dir s e)) = 1" "kern_pgdir s < 65536" "dir s e < 65536"
proof -
  have d: "dir s e \<in> dir s ` live s" using assms(2) by simp
  note ok = kernel_okD(6) [OF assms(1)]
  show p: "pgdir_ok s (dir s e) xs" by (rule spaces_okD(4) [OF ok d])
  show "space_ok s (dir s e) xs" by (rule spaces_space_ok [OF ok d])
  show "env_pgdir (envs s e) = Some (dir s e)" by (rule kernel_okD(3) [OF assms])
  show "pp_ref (pages s (dir s e)) = 1" by (rule spaces_okD(7) [OF ok d]) (simp add: own_def)
  show "kern_pgdir s < 65536" "dir s e < 65536"
    using pgdir_okD(2,3) [OF spaces_okD(2) [OF ok]] pgdir_okD(2,3) [OF p] by (auto simp: machine_ok_def)
qed

lemma kernel_free_env:
  assumes ok: "kernel_ok s xs es" and e: "e \<in> live s"
  shows "\<exists>t zs. run (env_free e) s = (Ret (), t) \<and> kernel_ok t (dir s e # zs) (e # es)
    \<and> live t = live s - {e} \<and> curenv t = curenv s \<and> (\<forall>i. i \<noteq> e \<longrightarrow> envs t i = envs s i)
    \<and> kern_pgdir t = kern_pgdir s \<and> (\<forall>f. f \<notin> own s (dir s e) \<longrightarrow> pmem t f = pmem s f)"
proof -
  let ?pd = "dir s e"
  note K = kernel_okD [OF ok] and S = kernel_ok_space [OF ok e]
  obtain t zs where t: "run (env_free e) s = (Ret (), t)" "free_pages t (?pd # zs)"
    "set zs = set xs \<union> {y. 0 < space_drop s ?pd UTOP_index y \<and> space_drop s ?pd UTOP_index y = unat (pp_ref (pages s y))}"
    "\<forall>y. y \<noteq> ?pd \<longrightarrow> unat (pp_ref (pages t y)) = unat (pp_ref (pages s y)) - space_drop s ?pd UTOP_index y"
    "envs t = (envs s)(e := (envs s e)\<lparr>env_pgdir := None, env_status := ENV_FREE, env_link := env_free_list s\<rparr>)"
    "env_free_list t = Some e" "curenv t = curenv s" "npages t = npages s" "kern_pgdir t = kern_pgdir s"
    "\<forall>f. f \<noteq> ?pd \<and> f \<notin> user_tables s ?pd UTOP_index \<longrightarrow> pmem t f = pmem s f"
    using env_free_run [OF S(1-5)] by blast
  then have freed: "space_freed s ?pd xs t zs" by (simp add: space_freed_def own_def)
  have el: "e < NENV" "env_status (envs s e) \<noteq> ENV_FREE" using e by (simp_all add: live_def)
  then have e_es: "e \<notin> set es" using K(2) by auto
  have live: "live t = live s - {e}" using t(5) by (auto simp: live_def)
  have same: "dir t i = dir s i" if "i \<in> live t" for i using that by (simp add: live dir_def t(5))
  then have dirs: "dir t ` live t = dir s ` live t" by simp
  also have "\<dots> = dir s ` live s - {?pd}"
    using K(5) e by (auto simp: live inj_on_def)
  finally have D: "dir t ` live t = dir s ` live s - {?pd}" .
  have "kernel_ok t (?pd # zs) (e # es)"
    unfolding kernel_ok_def
  proof (intro conjI ballI)
    have "linked (\<lambda>i. env_link (envs t i)) (env_free_list s) es = linked (\<lambda>i. env_link (envs s i)) (env_free_list s) es"
      using e_es by (intro linked_cong) (auto simp: t(5))
    then show "linked (\<lambda>i. env_link (envs t i)) (env_free_list t) (e # es)"
      using K(1) by (simp add: t(5,6))
    show "set (e # es) = {e. e < NENV \<and> env_status (envs t e) = ENV_FREE}" using K(2) el by (auto simp: t(5))
    show "inj_on (dir t) (live t)"
      using inj_on_subset [OF K(5), of "live t"] same by (auto simp: live inj_on_def)
    show "spaces_ok t (?pd # zs) (dir t ` live t)"
      unfolding D using e by (intro space_freed_ok [OF K(6) _ freed]) simp
  next
    fix i assume "i \<in> live t"
    then have i: "i \<in> live s" "i \<noteq> e" by (simp_all add: live)
    then show "env_pgdir (envs t i) \<noteq> None" "0 <s env_id (envs t i)" "ENVX (env_id (envs t i)) = i"
      using K(3,4) [OF i(1)] by (simp_all add: t(5))
  qed
  then show ?thesis using t(1,5,7,9,10) live by (auto simp: own_def)
qed

lemma kernel_alloc_env:
  assumes ok: "kernel_ok s (x # xs) (e # es)"
  shows "\<exists>t. run (env_alloc parent) s = (Ret (0, Some e), t) \<and> kernel_ok t xs es
    \<and> live t = insert e (live s) \<and> dir t e = x \<and> envs t = (envs s)(e := fresh_env e parent x (envs s e))
    \<and> pmem t = pmem (vm_ready e x s) \<and> kern_pgdir t = kern_pgdir s"
proof -
  note K = kernel_okD [OF ok]
  note S = spaces_okD [OF K(6)]
  have free: "free_pages s (x # xs)" and m: "machine_ok s" using pgdir_okD(1,2) [OF S(2)] by auto
  have ef: "env_free_list s = Some e" and el: "e < NENV" "e \<notin> live s" using K(1,2) by (auto simp: live_def)
  obtain t where t: "run (env_alloc parent) s = (Ret (0, Some e), t)"
    "envs t = (envs s)(e := fresh_env e parent x (envs s e))" "env_free_list t = env_link (envs s e)"
    "free_pages t xs" "pmem t = pmem (vm_ready e x s)" "npages t = npages s" "kern_pgdir t = kern_pgdir s"
    "\<forall>y. pp_ref (pages t y) = (if y = x then pp_ref (pages s y) + 1 else pp_ref (pages s y))"
    using env_alloc_run [OF ef free m] by blast
  have "x \<noteq> kern_pgdir s" using pgdir_okD(4) [OF S(2)] by auto
  then have add: "space_added s x t" using t(5-8) vm_ready_pmem [of s x e] by (simp add: space_added_def)
  note new = space_added_ok [OF K(6) add t(4)]
  have e_es: "e \<notin> set es" using linked_distinct [OF K(1)] by simp
  have live: "live t = insert e (live s)" using el(1) by (auto simp: live_def t(2) fresh_env_def)
  have same: "dir t i = dir s i" if "i \<in> live s" for i using that el(2) by (auto simp: dir_def t(2))
  have de: "dir t e = x" by (simp add: dir_def t(2) fresh_env_def)
  have D: "dir t ` live t = insert x (dir s ` live s)" using same de by (simp add: live)
  have "kernel_ok t xs es"
    unfolding kernel_ok_def
  proof (intro conjI ballI)
    have "linked (\<lambda>i. env_link (envs t i)) (env_link (envs s e)) es = linked (\<lambda>i. env_link (envs s i)) (env_link (envs s e)) es"
      using e_es by (intro linked_cong) (auto simp: t(2))
    then show "linked (\<lambda>i. env_link (envs t i)) (env_free_list t) es" using K(1) by (simp add: t(3))
    show "set es = {e. e < NENV \<and> env_status (envs t e) = ENV_FREE}"
      using K(2) e_es by (auto simp: t(2) fresh_env_def)
    have "inj_on (dir t) (live s)" using K(5) same by (simp add: inj_on_def)
    then show "inj_on (dir t) (live t)" using new(2) same de by (auto simp: live)
    show "spaces_ok t xs (dir t ` live t)" unfolding D by (rule new(1))
  next
    fix i assume i: "i \<in> live t"
    show "env_pgdir (envs t i) \<noteq> None" "0 <s env_id (envs t i)" "ENVX (env_id (envs t i)) = i"
      using i K(3,4) [of i] el(2) new_env_id_pos [OF el(1)] ENVX_new_env_id [OF el(1)]
      by (cases "i = e"; simp add: live t(2) fresh_env_def)+
  qed
  then show ?thesis using t(1,2,5,7) live de by auto
qed

section \<open>What the invariant does not see\<close>

lemma live_same: "(\<And>e. env_status (envs t e) = ENV_FREE \<longleftrightarrow> env_status (envs s e) = ENV_FREE) \<Longrightarrow> live t = live s"
  by (auto simp: live_def)

lemma spaces_ok_same:
  assumes "pmem t = pmem s" "pages t = pages s" "npages t = npages s" "page_free_list t = page_free_list s"
    and "kern_pgdir t = kern_pgdir s"
  shows "spaces_ok t xs D = spaces_ok s xs D"
proof -
  have "kernel_frames t = kernel_frames s" "\<And>pd. own t pd = own s pd" "\<And>pd. kernel_half t pd = kernel_half s pd"
    using assms by (simp_all add: kernel_frames_def own_def user_tables_def kernel_half_def tables_def table_slots_def)
  moreover have "slot_entry t pd d i = slot_entry s pd d i" for pd d i
    by (simp add: slot_entry_def same_memory_view [OF assms(1)])
  moreover from this have "total_uses t D y = total_uses s D y" for y
    unfolding total_uses_def space_uses_def by (intro sum.cong refl row_uses_cong) simp
  ultimately show ?thesis
    using same_ok [OF assms(1-4)] assms by (simp add: spaces_ok_def client_page_def)
qed

lemma kernel_ok_same:
  assumes "pmem t = pmem s" "pages t = pages s" "npages t = npages s" "page_free_list t = page_free_list s"
    and "kern_pgdir t = kern_pgdir s" "env_free_list t = env_free_list s"
    and e: "\<And>e. env_status (envs t e) = ENV_FREE \<longleftrightarrow> env_status (envs s e) = ENV_FREE"
      "\<And>e. env_pgdir (envs t e) = env_pgdir (envs s e)" "\<And>e. env_id (envs t e) = env_id (envs s e)"
      "\<And>e. env_link (envs t e) = env_link (envs s e)"
  shows "kernel_ok t xs es = kernel_ok s xs es" "live t = live s" "dir t = dir s"
proof -
  show l: "live t = live s" by (rule live_same [OF e(1)])
  show d: "dir t = dir s" by (simp add: fun_eq_iff dir_def e(2))
  show "kernel_ok t xs es = kernel_ok s xs es"
    unfolding kernel_ok_def l d spaces_ok_same [OF assms(1-5)] by (simp add: assms(6) e)
qed

text \<open>The contents of client pages do not matter.\<close>

lemma spaces_ok_frames:
  assumes ok: "spaces_ok s xs D" and mem: "\<And>f. \<not> client_page s D f \<Longrightarrow> pmem t f = pmem s f"
    and same: "pages t = pages s" "npages t = npages s" "page_free_list t = page_free_list s" "kern_pgdir t = kern_pgdir s"
  shows "spaces_ok t xs D" "client_page t D y = client_page s D y"
    and "pd \<in> D \<Longrightarrow> own t pd = own s pd" "kernel_frames t = kernel_frames s"
    and "pd \<in> D \<Longrightarrow> d < UTOP_index \<Longrightarrow> i < 1024 \<Longrightarrow> slot_entry t pd d i = slot_entry s pd d i"
    and "total_uses t D y = total_uses s D y"
proof -
  note D = spaces_okD [OF ok]
  have kmem: "pmem t (kern_pgdir s) = pmem s (kern_pgdir s)"
    by (rule mem) (simp add: client_page_def kernel_frames_def)
  note K = kernel_same [OF kmem same(4)]
  show "kernel_frames t = kernel_frames s" by (rule K(1))
  have ow: "pmem t g = pmem s g" if "pd \<in> D" "g \<in> own s pd" for pd g
    using that by (intro mem) (auto simp: client_page_def)
  have S: "own t pd = own s pd" "\<And>d i. d < UTOP_index \<Longrightarrow> i < 1024 \<Longrightarrow> slot_entry t pd d i = slot_entry s pd d i"
      "\<And>y. space_uses t pd UTOP_index y = space_uses s pd UTOP_index y" if "pd \<in> D" for pd
    using own_same [of s pd t, OF ow [OF that]] by blast+
  show "pd \<in> D \<Longrightarrow> own t pd = own s pd" by (rule S(1))
  show "pd \<in> D \<Longrightarrow> d < UTOP_index \<Longrightarrow> i < 1024 \<Longrightarrow> slot_entry t pd d i = slot_entry s pd d i" by (rule S(2))
  show client: "client_page t D y = client_page s D y" for y using K(1) S(1) same(2) by (simp add: client_page_def)
  have free: "free_pages t xs" using pgdir_okD(1) [OF D(2)] same by (subst free_pages_cong [of _ s]) simp_all
  have pd: "pmem t pd = pmem s pd" if "pd \<in> D" for pd using ow [OF that, of pd] by (simp add: own_def)
  have "pgdir_ok t pd xs" if "pd \<in> D" for pd
    using pgdir_okD(4,6) [OF D(4) [OF that]]
    by (intro pgdir_ok_transfer [OF D(4) [OF that] pd [OF that] same(2) free]) auto
  moreover have "pgdir_ok t (kern_pgdir s) xs"
    using kernel_frame_ok [OF ok]
    by (intro pgdir_ok_transfer [OF D(2) kmem same(2) free]) (auto simp: kernel_frames_def)
  moreover show total: "total_uses t D y = total_uses s D y" for y
    unfolding total_uses_def using S(3) by (intro sum.cong) auto
  ultimately show "spaces_ok t xs D"
    using ok K pd S(1,2) kmem same client unfolding spaces_ok_def by simp
qed

lemma kernel_ok_store:
  assumes ok: "kernel_ok s xs es" and f: "client_page s (dir s ` live s) f"
  shows "kernel_ok (store_word f i w s) xs es"
proof -
  have "live (store_word f i w s) = live s" "dir (store_word f i w s) = dir s"
    by (simp_all add: live_def dir_def fun_eq_iff)
  moreover have "spaces_ok (store_word f i w s) xs (dir s ` live s)"
    using f by (intro spaces_ok_frames(1) [OF kernel_okD(6) [OF ok]]) auto
  ultimately show ?thesis using ok by (simp add: kernel_ok_def)
qed

section \<open>What user code can write to\<close>

text \<open>A user store needs the present, writable and user bits in both levels.\<close>

abbreviation (input) user_bits :: "u32 \<Rightarrow> bool" where
  "user_bits w \<equiv> w AND (PTE_P OR PTE_W OR PTE_U) = PTE_P OR PTE_W OR PTE_U"

definition user_slot :: "kstate \<Rightarrow> u32 \<Rightarrow> nat option" where
  "user_slot s va =
     (let pde = pmem s (frame_of (cr3 s)) (unat (PDX va));
          pte = pmem s (frame_of pde) (unat (PTX va))
      in if user_bits pde \<and> user_bits pte then Some (frame_of pte) else None)"

text \<open>The kernel's tables open no page for user stores.\<close>

definition kernel_sealed :: "kstate \<Rightarrow> bool" where
  "kernel_sealed s \<longleftrightarrow>
     (\<forall>d \<in> table_slots s (kern_pgdir s). \<forall>i < 1024.
        user_bits (pmem s (kern_pgdir s) d) \<longrightarrow> \<not> user_bits (pmem s (frame_of (pmem s (kern_pgdir s) d)) i))"

lemma kernel_sealed_same:
  assumes "kern_pgdir t = kern_pgdir s" and "\<And>f. f \<in> kernel_frames s \<Longrightarrow> pmem t f = pmem s f"
  shows "kernel_sealed t = kernel_sealed s" "kernel_frames t = kernel_frames s"
proof -
  have k: "pmem t (kern_pgdir s) = pmem s (kern_pgdir s)" using assms(2) by (simp add: kernel_frames_def)
  show "kernel_frames t = kernel_frames s" using kernel_same(1) [OF k assms(1)] .
  have "table_slots t (kern_pgdir s) = table_slots s (kern_pgdir s)" using k by (simp add: table_slots_def)
  moreover have "pmem t (frame_of (pmem s (kern_pgdir s) d)) = pmem s (frame_of (pmem s (kern_pgdir s) d))"
    if "d \<in> table_slots s (kern_pgdir s)" for d
    using that assms(2) by (auto simp: kernel_frames_def tables_def)
  ultimately show "kernel_sealed t = kernel_sealed s" using k assms(1) by (simp add: kernel_sealed_def)
qed

lemma user_bits_present: "user_bits w \<Longrightarrow> present w"
proof
  assume "user_bits w" "w AND PTE_P = 0"
  then have "7 AND 1 = ((w AND 7) AND 1 :: u32)" "w AND 1 = 0" by simp_all
  then show False by (simp add: and.assoc)
qed

lemma page2pa_low: "page2pa pd AND 7 = 0"
proof -
  have "page2pa pd AND 7 = take_bit 3 (page2pa pd)" by (simp add: take_bit_eq_mask mask_eq_exp_minus_1)
  then show ?thesis by (simp add: page2pa_def take_bit_push_bit)
qed

lemma user_slot_client:
  assumes ok: "spaces_ok s xs D" and seal: "kernel_sealed s" and pd: "pd \<in> D" and cr3: "frame_of (cr3 s) = pd"
    and slot: "user_slot s va = Some f"
  shows "client_page s D f" "f \<notin> set xs"
proof -
  let ?d = "unat (PDX va)" and ?i = "unat (PTX va)"
  let ?pde = "pmem s pd (unat (PDX va))"
  note D = spaces_okD [OF ok]
  have b: "user_bits ?pde" "user_bits (pmem s (frame_of ?pde) ?i)" and f: "f = frame_of (pmem s (frame_of ?pde) ?i)"
    using slot cr3 by (auto simp: user_slot_def Let_def split: if_splits)
  have half: "\<And>d. UTOP_index \<le> d \<Longrightarrow> d < 1024 \<Longrightarrow> d \<noteq> UVPT_index \<Longrightarrow> pmem s pd d = pmem s (kern_pgdir s) d"
    and self: "pmem s pd UVPT_index = page2pa pd OR PTE_P OR PTE_U"
    using D(5) [OF pd] by (simp_all add: kernel_half_def)
  have "?d \<noteq> UVPT_index"
  proof
    assume "?d = UVPT_index"
    then have "(page2pa pd OR PTE_P OR PTE_U) AND 7 = 7" using b(1) self by simp
    moreover have "(page2pa pd OR PTE_P OR PTE_U) AND 7 = 5"
      using page2pa_low [of pd] by (simp add: bit.conj_disj_distrib2)
    ultimately show False by simp
  qed
  moreover have "\<not> UTOP_index \<le> ?d" if "?d \<noteq> UVPT_index"
  proof
    assume "UTOP_index \<le> ?d"
    then have k: "?pde = pmem s (kern_pgdir s) ?d" using half that by simp
    then have "?d \<in> table_slots s (kern_pgdir s)"
      using user_bits_present [OF b(1)] that by (simp add: table_slots_def)
    then show False using seal b k by (simp add: kernel_sealed_def)
  qed
  ultimately have d: "?d < UTOP_index" by simp
  have e: "slot_entry s pd ?d ?i = pmem s (frame_of ?pde) ?i"
    using user_bits_present [OF b(1)] by (subst slot_entry_alt) simp_all
  then have P: "present (slot_entry s pd ?d ?i)" using user_bits_present [OF b(2)] by simp
  show "client_page s D f" using D(9) [OF pd d _ P] f e by simp
  show "f \<notin> set xs" using used_page(2) [OF ok pd mapped_uses [OF d _ P]] f e by simp
qed

end
