(* ===== verification/AddrSpace.thy ===== *)
theory AddrSpace
  imports PmapSpace
begin

text \<open>
  A page directory as a finite map. The abstract address space sends a page number to the page
  mapped there and its permission bits; \<open>page_insert\<close>, \<open>page_remove\<close> and \<open>page_lookup\<close> are update,
  deletion and lookup, under an invariant that each of them keeps. The locale \<open>page_mapping\<close> is
  that contract; the directories of \<^verbatim>\<open>kern/pmap.c\<close> are its interpretation.
\<close>

section \<open>The contract\<close>

datatype 'p map_op = Map nat 'p u32 | Unmap nat

fun map_step :: "'p map_op \<Rightarrow> (nat \<Rightarrow> ('p \<times> u32) option) \<Rightarrow> nat \<Rightarrow> ('p \<times> u32) option" where
  "map_step (Map v p perm) m = m(v \<mapsto> (p, perm OR PTE_P))"
| "map_step (Unmap v) m = m(v := None)"

text \<open>How an operation is carried out, and when it may be.\<close>

fun perform :: "(nat \<Rightarrow> 'p \<Rightarrow> u32 \<Rightarrow> ('s, u32) prog) \<Rightarrow> (nat \<Rightarrow> ('s, unit) prog) \<Rightarrow> 'p map_op \<Rightarrow> ('s, unit) prog" where
  "perform ins rem (Map v p perm) = bindP (ins v p perm) (\<lambda>_. ret ())"
| "perform ins rem (Unmap v) = rem v"

fun allowed :: "(nat \<Rightarrow> bool) \<Rightarrow> ('p \<Rightarrow> bool) \<Rightarrow> (u32 \<Rightarrow> bool) \<Rightarrow> 'p map_op \<Rightarrow> bool" where
  "allowed valid held okperm (Map v p perm) \<longleftrightarrow> valid v \<and> held p \<and> okperm perm"
| "allowed valid held okperm (Unmap v) \<longleftrightarrow> valid v"

text \<open>
  \<open>inv s k\<close>: the state is good for \<open>k\<close> more insertions. The pages inserted are \<open>held\<close> by the client;
  \<open>valid\<close> says which page numbers the space has, and \<open>okperm\<close> which permissions.
\<close>

locale page_mapping =
  fixes inv :: "'s \<Rightarrow> nat \<Rightarrow> bool"
    and view :: "'s \<Rightarrow> nat \<Rightarrow> ('p \<times> u32) option"
    and held :: "'p \<Rightarrow> bool" and valid :: "nat \<Rightarrow> bool" and okperm :: "u32 \<Rightarrow> bool"
    and insert_at :: "nat \<Rightarrow> 'p \<Rightarrow> u32 \<Rightarrow> ('s, u32) prog"
    and remove_at :: "nat \<Rightarrow> ('s, unit) prog"
    and lookup_at :: "nat \<Rightarrow> ('s, 'p option) prog"
  assumes insert_law: "inv s (Suc k) \<Longrightarrow> valid v \<Longrightarrow> held p \<Longrightarrow> okperm perm \<Longrightarrow>
      \<exists>t. run (insert_at v p perm) s = (Ret 0, t) \<and> inv t k \<and> view t = (view s)(v \<mapsto> (p, perm OR PTE_P))"
    and remove_law: "inv s k \<Longrightarrow> valid v \<Longrightarrow>
      \<exists>t. run (remove_at v) s = (Ret (), t) \<and> inv t k \<and> view t = (view s)(v := None)"
    and lookup_law: "inv s k \<Longrightarrow> valid v \<Longrightarrow> run (lookup_at v) s = (Ret (map_option fst (view s v)), s)"
    and inv_less: "inv s (Suc k) \<Longrightarrow> inv s k"
begin

text \<open>Any sequence of operations has the effect of the sequence of map operations.\<close>

lemma simulation:
  assumes "inv s (length ops + k)" and "\<forall>op \<in> set ops. allowed valid held okperm op"
  shows "\<exists>t. run (forP ops (perform insert_at remove_at)) s = (Ret (), t) \<and> inv t k \<and> view t = fold map_step ops (view s)"
  using assms
proof (induction ops arbitrary: s)
  case Nil
  then show ?case by (simp add: prog_simps)
next
  case (Cons op ops)
  have i: "inv s (Suc (length ops + k))" using Cons.prems(1) by simp
  obtain u where u: "run (perform insert_at remove_at op) s = (Ret (), u)" "inv u (length ops + k)" "view u = map_step op (view s)"
  proof (cases op)
    case (Map v p perm)
    then show thesis using insert_law [OF i, of v p perm] Cons.prems(2) that by (auto simp: prog_simps)
  next
    case (Unmap v)
    then show thesis using remove_law [OF inv_less [OF i], of v] Cons.prems(2) that by auto
  qed
  then show ?case using Cons.IH [OF u(2)] Cons.prems(2) by (auto simp: prog_simps)
qed

lemma lookup_after:
  assumes "inv s (length ops + k)" and "\<forall>op \<in> set ops. allowed valid held okperm op" and "valid v"
  shows "\<exists>t. run (thenP (forP ops (perform insert_at remove_at)) (lookup_at v)) s
    = (Ret (map_option fst (fold map_step ops (view s) v)), t)"
  using simulation [OF assms(1,2)] lookup_law [OF _ assms(3)] by (fastforce simp: prog_simps)

end

section \<open>The abstract space of a directory\<close>

definition page_va :: "nat \<Rightarrow> u32" where
  "page_va v = of_nat (4096 * v)"

definition user_page :: "nat \<Rightarrow> bool" where
  "user_page v \<longleftrightarrow> v < 1048576 \<and> v div 1024 \<noteq> UVPT_index"

lemma page_va_index:
  assumes "v < 1048576"
  shows "unat (PGNUM (page_va v)) = v" "unat (PDX (page_va v)) = v div 1024"
proof -
  have u: "unat (page_va v) = 4096 * v" unfolding page_va_def using assms by (intro unat_of_nat32) simp
  show "unat (PGNUM (page_va v)) = v" by (simp add: unat_PGNUM u)
  show "unat (PDX (page_va v)) = v div 1024" by (simp add: unat_PDX u div_mult2_eq [of "4096 * v" 4096 1024, simplified])
qed

lemma PGNUM_page_va: "v < 1048576 \<Longrightarrow> PGNUM va = PGNUM (page_va v) \<longleftrightarrow> unat (PGNUM va) = v"
  using page_va_index(1) [of v] by (metis word_unat_eq_iff)

lemma PDX_PGNUM: "unat (PDX va) = unat (PGNUM va) div 1024"
  by (simp add: unat_PDX unat_PGNUM div_mult2_eq [of "unat va" 4096 1024, simplified])

lemma entry_page_va: "entry s pd (page_va (unat (PGNUM va))) = entry s pd va"
proof -
  have "PGNUM (page_va (unat (PGNUM va))) = PGNUM va" by (metis PGNUM_page_va unat_PGNUM_less)
  then have "unat (PDX (page_va (unat (PGNUM va)))) = unat (PDX va)"
    "unat (PTX (page_va (unat (PGNUM va)))) = unat (PTX va)" by (simp_all add: PGNUM_page_index)
  then show ?thesis by (simp add: entry_def pde_at_def)
qed

definition space :: "kstate \<Rightarrow> nat \<Rightarrow> nat \<Rightarrow> (nat \<times> u32) option" where
  "space s pd v =
     (let e = entry s pd (page_va v)
      in if user_page v \<and> present e then Some (frame_of e, e AND 0xFFF) else None)"

definition uses :: "kstate \<Rightarrow> nat \<Rightarrow> nat \<Rightarrow> nat" where
  "uses s pd y = card {v. user_page v \<and> present (entry s pd (page_va v)) \<and> frame_of (entry s pd (page_va v)) = y}"

lemma finite_user_pages [simp]: "finite {v. user_page v \<and> P v}"
  by (rule finite_subset [of _ "{..<1048576}"]) (auto simp: user_page_def)

lemma uses_cong:
  "(\<And>v. user_page v \<Longrightarrow> entry t pd (page_va v) = entry s pd (page_va v)) \<Longrightarrow> uses t pd y = uses s pd y"
  unfolding uses_def by (rule arg_cong [of _ _ card]) auto

text \<open>Changing one entry moves one mapping from the old page to the new one.\<close>

lemma uses_update:
  assumes v: "user_page v"
    and e: "\<And>v'. user_page v' \<Longrightarrow> entry t pd (page_va v') = (if v' = v then w else entry s pd (page_va v'))"
  shows "uses t pd y + of_bool (present (entry s pd (page_va v)) \<and> frame_of (entry s pd (page_va v)) = y)
    = uses s pd y + of_bool (present w \<and> frame_of w = y)"
proof -
  let ?S = "\<lambda>s. {v. user_page v \<and> present (entry s pd (page_va v)) \<and> frame_of (entry s pd (page_va v)) = y}"
  have rest: "?S t - {v} = ?S s - {v}" using e by auto
  have card: "card (?S u) = card (?S u - {v}) + of_bool (v \<in> ?S u)" for u
    using card.remove [of "?S u" v] by (cases "v \<in> ?S u") simp_all
  have "v \<in> ?S t \<longleftrightarrow> present w \<and> frame_of w = y" using v e by auto
  moreover have "v \<in> ?S s \<longleftrightarrow> present (entry s pd (page_va v)) \<and> frame_of (entry s pd (page_va v)) = y"
    using v by auto
  ultimately show ?thesis unfolding uses_def using card [of t] card [of s] rest by simp
qed

section \<open>The invariant\<close>

definition space_inv :: "nat \<Rightarrow> nat set \<Rightarrow> kstate \<Rightarrow> nat list \<Rightarrow> nat \<Rightarrow> bool" where
  "space_inv pd H s xs k \<longleftrightarrow>
     pgdir_ok s pd xs \<and> missing_tables s pd \<le> length xs \<and>
     (\<forall>y. y \<in> H \<or> 0 < uses s pd y \<longrightarrow> y < npages s \<and> y \<noteq> pd \<and> y \<notin> tables s pd) \<and>
     (\<forall>y. uses s pd y + of_bool (y \<in> H) \<le> unat (pp_ref (pages s y))) \<and>
     (\<forall>y \<in> H. unat (pp_ref (pages s y)) + k < 65536)"

lemma space_invD:
  assumes "space_inv pd H s xs k"
  shows "pgdir_ok s pd xs" "missing_tables s pd \<le> length xs"
    and "\<And>y. y \<in> H \<or> 0 < uses s pd y \<Longrightarrow> data_page s pd xs y"
    and "\<And>y. uses s pd y + of_bool (y \<in> H) \<le> unat (pp_ref (pages s y))"
    and "\<And>y. y \<in> H \<Longrightarrow> unat (pp_ref (pages s y)) + k < 65536"
proof -
  show ok: "pgdir_ok s pd xs" "missing_tables s pd \<le> length xs"
    and cover: "\<And>y. uses s pd y + of_bool (y \<in> H) \<le> unat (pp_ref (pages s y))"
    and "\<And>y. y \<in> H \<Longrightarrow> unat (pp_ref (pages s y)) + k < 65536"
    using assms by (auto simp: space_inv_def)
  fix y
  assume y: "y \<in> H \<or> 0 < uses s pd y"
  have "pp_ref (pages s y) \<noteq> 0" using cover [of y] y by (auto simp: unsigned_eq_0_iff)
  then have "y \<notin> set xs" using pgdir_okD(1) [OF ok(1)] by (auto simp: free_pages_def)
  then show "data_page s pd xs y" using assms y by (auto simp: space_inv_def data_page_def)
qed

lemma mapped_used:
  assumes "user_page v" and "present (entry s pd (page_va v))"
  shows "0 < uses s pd (frame_of (entry s pd (page_va v)))"
  unfolding uses_def using assms by (subst card_gt_0_iff) auto

lemma space_inv_mapped:
  assumes "space_inv pd H s xs k" and "user_page v"
  shows "mapped_ok s pd xs (page_va v)"
  unfolding mapped_ok_def using space_invD(3) [OF assms(1)] mapped_used [OF assms(2)] by blast

section \<open>The operations\<close>

definition map_page :: "nat \<Rightarrow> nat \<Rightarrow> nat \<Rightarrow> u32 \<Rightarrow> u32 km" where
  "map_page pd v pp perm = page_insert pd pp (page_va v) perm"

definition unmap_page :: "nat \<Rightarrow> nat \<Rightarrow> unit km" where
  "unmap_page pd v = page_remove pd (page_va v)"

definition mapped_page :: "nat \<Rightarrow> nat \<Rightarrow> nat option km" where
  "mapped_page pd v = bindP (page_lookup pd (page_va v)) (\<lambda>r. ret (map_option fst r))"

lemma entry_word:
  assumes "pp < 1048576" and "perm < 4096"
  shows "frame_of (page2pa pp OR perm OR PTE_P) = pp" "(page2pa pp OR perm OR PTE_P) AND 0xFFF = perm OR PTE_P"
proof -
  have p: "take_bit 12 perm = perm" using assms(2) by (intro take_bit_below) (simp add: word_less_nat_alt)
  have "drop_bit 12 (perm OR PTE_P) = 0"
    using p by (simp add: drop_bit_or) (metis drop_bit_take_bit take_bit_0 cancel_comm_monoid_add_class.diff_cancel)
  from frame_of_entry [OF assms(1) this] show "frame_of (page2pa pp OR perm OR PTE_P) = pp" by (simp add: or.assoc)
  have "(page2pa pp OR perm OR PTE_P) AND 0xFFF = take_bit 12 (page2pa pp OR perm OR PTE_P)"
    unfolding mask_numerals by (simp add: take_bit_eq_mask)
  also have "\<dots> = perm OR PTE_P" using p by (simp add: page2pa_def take_bit_or take_bit_push_bit)
  finally show "(page2pa pp OR perm OR PTE_P) AND 0xFFF = perm OR PTE_P" .
qed

lemma user_page_index:
  assumes "user_page v"
  shows "unat (PDX (page_va v)) \<noteq> UVPT_index" "\<And>va. PGNUM va = PGNUM (page_va v) \<longleftrightarrow> unat (PGNUM va) = v"
  using assms page_va_index [of v] PGNUM_page_va [of v] by (auto simp: user_page_def)

lemma view_at:
  assumes "user_page v" and "user_page v'"
    and "\<And>va'. unat (PDX va') \<noteq> UVPT_index \<Longrightarrow> entry t pd va' = (if PGNUM va' = PGNUM (page_va v) then w else entry s pd va')"
  shows "entry t pd (page_va v') = (if v' = v then w else entry s pd (page_va v'))"
  using assms(3) [OF user_page_index(1) [OF assms(2)]] user_page_index(2) [OF assms(1)] assms(2)
  by (simp add: page_va_index user_page_def)

lemma space_update:
  assumes "user_page v"
    and "\<And>va'. unat (PDX va') \<noteq> UVPT_index \<Longrightarrow> entry t pd va' = (if PGNUM va' = PGNUM (page_va v) then w else entry s pd va')"
  shows "space t pd = (space s pd)(v := (if present w then Some (frame_of w, w AND 0xFFF) else None))"
  using view_at [OF assms(1) _ assms(2)] assms(1) by (auto simp: space_def Let_def fun_eq_iff split: if_splits)

lemma ref_shift:
  fixes r :: u16
  assumes "a \<Longrightarrow> unat r + 1 < 65536" and "b \<Longrightarrow> 0 < unat r"
  shows "unat (r + (if a then 1 else 0) - (if b then 1 else 0)) = unat r + of_bool a - of_bool b"
proof -
  have up: "unat (r + 1) = unat r + 1" if "unat r + 1 < 65536" using that by (simp add: unat_word_ariths)
  have down: "unat (r - 1) = unat r - 1" if "0 < unat r" using that by (simp add: unat_minus_one unat_gt_0)
  show ?thesis using assms up down by auto
qed

lemma map_page_law:
  assumes inv: "space_inv pd H s xs (Suc k)" and v: "user_page v" and pp: "pp \<in> H" and perm: "perm < 4096"
  shows "\<exists>t ys. run (map_page pd v pp perm) s = (Ret 0, t) \<and> space_inv pd H t ys k
    \<and> space t pd = (space s pd)(v \<mapsto> (pp, perm OR PTE_P))"
proof -
  let ?va = "page_va v" and ?w = "page2pa pp OR perm OR PTE_P"
  let ?e = "entry s pd (page_va v)"
  note D = space_invD [OF inv]
  have avail: "present (pde_at s pd ?va) \<or> xs \<noteq> []"
    using missing_tables_pos [of s pd ?va] user_page_index(1) [OF v] D(2) by auto
  have dp: "data_page s pd xs pp" using D(3) pp by blast
  have ref: "unat (pp_ref (pages s y)) \<noteq> 0" if "y \<in> H \<or> 0 < uses s pd y" for y using D(4) [of y] that by auto
  then have nz: "pp_ref (pages s pp) \<noteq> 0" using pp by (metis unsigned_0)
  obtain t ys where t: "run (page_insert pd pp ?va perm) s = (Ret 0, t)" "pgdir_ok t pd ys"
    "\<And>va'. unat (PDX va') \<noteq> UVPT_index \<Longrightarrow> entry t pd va' = (if PGNUM va' = PGNUM ?va then ?w else entry s pd va')"
    "\<And>y. y \<notin> set xs \<Longrightarrow> pp_ref (pages t y) = pp_ref (pages s y) + (if y = pp then 1 else 0)
        - (if present ?e \<and> y = frame_of ?e then 1 else 0)"
    "tables t pd \<subseteq> tables s pd \<union> set xs" "missing_tables t pd \<le> length ys" "npages t = npages s"
    using page_insert_spec [OF D(1) user_page_index(1) [OF v] avail space_inv_mapped [OF inv v] dp] nz D(2) by blast
  have wp: "present ?w" "frame_of ?w = pp" "?w AND 0xFFF = perm OR PTE_P"
    using entry_word [of pp perm] perm dp pgdir_okD(5) [OF D(1)] present_or_P(1) by (auto simp: data_page_def)
  have view: "space t pd = (space s pd)(v \<mapsto> (pp, perm OR PTE_P))"
    using space_update [OF v t(3)] wp by simp
  have count: "uses t pd y + of_bool (present ?e \<and> frame_of ?e = y) = uses s pd y + of_bool (y = pp)" for y
    using uses_update [OF v view_at [OF v _ t(3)], of y] wp by auto
  have less: "unat (pp_ref (pages s pp)) + 1 < 65536" using D(5) [OF pp] by simp
  have "uses t pd y + of_bool (y \<in> H) \<le> unat (pp_ref (pages t y))
      \<and> (y \<in> H \<longrightarrow> unat (pp_ref (pages t y)) + k < 65536)" for y
  proof (cases "y \<in> set xs")
    case True
    then have "unat (pp_ref (pages s y)) = 0" using pgdir_okD(1) [OF D(1)] by (simp add: free_pages_def)
    then have "uses s pd y = 0" "y \<notin> H" using D(4) [of y] by auto
    moreover from this pp have "y \<noteq> pp" by blast
    ultimately show ?thesis using count [of y] by simp
  next
    case False
    have pos: "present ?e \<and> y = frame_of ?e \<Longrightarrow> 0 < unat (pp_ref (pages s y))"
      using mapped_used [OF v, of s pd] ref by blast
    have "unat (pp_ref (pages t y)) = unat (pp_ref (pages s y)) + of_bool (y = pp)
        - of_bool (present ?e \<and> y = frame_of ?e)"
      unfolding t(4) [OF False] using less pos by (intro ref_shift) auto
    then show ?thesis using D(4) [of y] D(5) [of y] count [of y] by auto
  qed
  moreover have "y < npages t \<and> y \<noteq> pd \<and> y \<notin> tables t pd" if "y \<in> H \<or> 0 < uses t pd y" for y
  proof -
    have "y \<in> H \<or> 0 < uses s pd y" using that count [of y] pp by (cases "y = pp") auto
    then show ?thesis using D(3) [of y] t(5,7) by (auto simp: data_page_def)
  qed
  ultimately have "space_inv pd H t ys k" using t(2,6) by (simp add: space_inv_def)
  then show ?thesis using t(1) view by (auto simp: map_page_def)
qed

lemma unmap_page_law:
  assumes inv: "space_inv pd H s xs k" and v: "user_page v"
  shows "\<exists>t ys. run (unmap_page pd v) s = (Ret (), t) \<and> space_inv pd H t ys k \<and> space t pd = (space s pd)(v := None)"
proof (cases "present (entry s pd (page_va v))")
  case False
  then have "space s pd v = None" by (simp add: space_def Let_def)
  then have "(space s pd)(v := None) = space s pd" by (simp add: fun_upd_idem)
  then show ?thesis using remove_absent [OF space_invD(1) [OF inv] False] inv by (auto simp: unmap_page_def)
next
  case P: True
  let ?va = "page_va v" and ?old = "frame_of (entry s pd (page_va v))"
  note D = space_invD [OF inv]
  let ?ys = "if pp_ref (pages s ?old) = 1 then ?old # xs else xs"
  obtain t where t: "run (page_remove pd ?va) s = (Ret (), t)" "pgdir_ok t pd ?ys"
    "\<And>va'. unat (PDX va') \<noteq> UVPT_index \<Longrightarrow> entry t pd va' = (if PGNUM va' = PGNUM ?va then 0 else entry s pd va')"
    "\<And>y. pp_ref (pages t y) = (if y = ?old then pp_ref (pages s y) - 1 else pp_ref (pages s y))"
    "tables t pd = tables s pd" "table_slots t pd = table_slots s pd" "npages t = npages s"
    using remove_spec [OF D(1) user_page_index(1) [OF v] space_inv_mapped [OF inv v] P] by blast
  have view: "space t pd = (space s pd)(v := None)" using space_update [OF v t(3)] by simp
  have count: "uses t pd y + of_bool (?old = y) = uses s pd y" for y
    using uses_update [OF v view_at [OF v _ t(3)], of y] P by simp
  have "unat (pp_ref (pages t y)) = unat (pp_ref (pages s y)) - of_bool (?old = y)" for y
    using ref_shift [of False "pp_ref (pages s y)" "?old = y"] D(4) [of y] count [of y] by (auto simp: t(4))
  then have "uses t pd y + of_bool (y \<in> H) \<le> unat (pp_ref (pages t y))
      \<and> (y \<in> H \<longrightarrow> unat (pp_ref (pages t y)) + k < 65536)" for y
    using D(4) [of y] D(5) [of y] count [of y] by auto
  moreover have "y < npages t \<and> y \<noteq> pd \<and> y \<notin> tables t pd" if "y \<in> H \<or> 0 < uses t pd y" for y
    using D(3) [of y] that count [of y] t(5,7) by (auto simp: data_page_def)
  moreover have "missing_tables t pd \<le> length ?ys" using D(2) by (simp add: missing_tables_def t(6))
  ultimately have "space_inv pd H t ?ys k" using t(2) by (simp add: space_inv_def)
  then show ?thesis using t(1) view by (auto simp: unmap_page_def)
qed

lemma mapped_page_law:
  assumes inv: "space_inv pd H s xs k" and v: "user_page v"
  shows "run (mapped_page pd v) s = (Ret (map_option fst (space s pd v)), s)"
proof -
  have "present (entry s pd (page_va v)) \<Longrightarrow> frame_of (entry s pd (page_va v)) < npages s"
    using space_invD(3) [OF inv] mapped_used [OF v] by (auto simp: data_page_def)
  then show ?thesis
    using lookup_run [OF space_invD(1) [OF inv], of "page_va v"] v
    by (simp add: mapped_page_def prog_simps space_def Let_def)
qed

interpretation vm: page_mapping "\<lambda>s k. \<exists>xs. space_inv pd H s xs k" "\<lambda>s. space s pd" "\<lambda>y. y \<in> H" user_page
    "\<lambda>perm. perm < 4096" "map_page pd" "unmap_page pd" "mapped_page pd" for pd H
proof unfold_locales
  fix s k v p and perm :: u32
  assume "\<exists>xs. space_inv pd H s xs (Suc k)" "user_page v" "p \<in> H" "perm < 4096"
  then show "\<exists>t. run (map_page pd v p perm) s = (Ret 0, t) \<and> (\<exists>xs. space_inv pd H t xs k)
      \<and> space t pd = (space s pd)(v \<mapsto> (p, perm OR PTE_P))"
    using map_page_law [of pd H s _ k v p perm] by blast
next
  fix s k v
  assume "\<exists>xs. space_inv pd H s xs k" "user_page v"
  then show "\<exists>t. run (unmap_page pd v) s = (Ret (), t) \<and> (\<exists>xs. space_inv pd H t xs k)
      \<and> space t pd = (space s pd)(v := None)"
    and "run (mapped_page pd v) s = (Ret (map_option fst (space s pd v)), s)"
    using unmap_page_law [of pd H s _ k v] mapped_page_law [of pd H s _ k v] by blast+
next
  fix s k
  assume "\<exists>xs. space_inv pd H s xs (Suc k)"
  then show "\<exists>xs. space_inv pd H s xs k" by (fastforce simp: space_inv_def)
qed

end
