(* ===== verification/SpaceOps.thy ===== *)
theory SpaceOps
  imports KernelInv AddrSpace
begin

text \<open>
  The memory manager among several address spaces: allocating a page, mapping it and unmapping it in
  one space keeps all spaces apart. The steps of \<open>page_insert\<close> (a new table, one more reference, the
  removal of an old mapping, the store of the entry) are taken one by one.
\<close>

section \<open>A change inside one space\<close>

text \<open>
  \<open>N\<close> are free pages that become tables of the space \<open>pd\<close>; pages may become free that are neither
  tables nor directories.
\<close>

lemma spaces_ok_update:
  assumes ok: "spaces_ok s xs D" and pd: "pd \<in> D"
    and np: "npages t = npages s" and kp: "kern_pgdir t = kern_pgdir s"
    and tok: "pgdir_ok t pd zs" and N: "N \<subseteq> set xs"
    and mem: "\<And>f. f \<notin> own s pd \<Longrightarrow> f \<notin> N \<Longrightarrow> pmem t f = pmem s f"
    and half: "\<And>d. UTOP_index \<le> d \<Longrightarrow> pmem t pd d = pmem s pd d"
    and own: "own t pd \<subseteq> own s pd \<union> N"
    and zs: "\<And>f. f \<in> set zs \<Longrightarrow> (f \<in> set xs \<and> f \<notin> N) \<or> client_page s D f"
    and one: "\<And>y. y \<in> own t pd \<Longrightarrow> pp_ref (pages t y) = 1"
    and others: "\<And>y pd'. pd' \<in> D \<Longrightarrow> pd' \<noteq> pd \<Longrightarrow> y \<in> own s pd' \<Longrightarrow> pp_ref (pages t y) = pp_ref (pages s y)"
    and maps: "\<And>d i. d < UTOP_index \<Longrightarrow> i < 1024 \<Longrightarrow> present (slot_entry t pd d i) \<Longrightarrow>
        client_page s D (frame_of (slot_entry t pd d i)) \<and> frame_of (slot_entry t pd d i) \<notin> N"
    and refs: "\<And>y. total_uses s D y + space_uses t pd UTOP_index y \<le> unat (pp_ref (pages t y)) + space_uses s pd UTOP_index y"
  shows "spaces_ok t zs D"
proof -
  note D = spaces_okD [OF ok]
  have free: "free_pages t zs" by (rule pgdir_okD(1) [OF tok])
  have Nout: "f \<notin> N" if "f \<in> kernel_frames s \<or> (\<exists>pd' \<in> D. f \<in> own s pd')" for f
    using that N kernel_frame_ok [OF ok] own_frames(2) [OF ok] by blast
  have kmem: "pmem t (kern_pgdir s) = pmem s (kern_pgdir s)"
    using D(6) [OF pd] Nout by (intro mem) (auto simp: kernel_frames_def)
  note ksame = kernel_same [OF kmem kp]
  have stays: "f \<notin> set zs" if "f \<notin> set xs" "\<not> client_page s D f" for f using zs that by blast
  have kok: "pgdir_ok t (kern_pgdir t) zs"
    unfolding kp
  proof (rule pgdir_ok_transfer [OF D(2) kmem np free])
    fix f assume "f \<in> insert (kern_pgdir s) (tables s (kern_pgdir s))"
    then have "f \<in> kernel_frames s" by (simp add: kernel_frames_def)
    then show "f \<notin> set zs" using kernel_frame_ok [OF ok] by (intro stays) (auto simp: client_page_def)
  qed
  have other: "pgdir_ok t pd' zs" "kernel_half t pd'" "own t pd' = own s pd'"
      "\<And>d i. d < UTOP_index \<Longrightarrow> i < 1024 \<Longrightarrow> slot_entry t pd' d i = slot_entry s pd' d i"
      "\<And>y. space_uses t pd' UTOP_index y = space_uses s pd' UTOP_index y"
    if pd': "pd' \<in> D" "pd' \<noteq> pd" for pd'
  proof -
    have own_mem: "pmem t f = pmem s f" if "f \<in> own s pd'" for f
      using that D(8) [OF pd'(1) pd pd'(2)] Nout pd'(1) by (intro mem) blast+
    note same = own_same [of s pd' t, OF own_mem]
    show "own t pd' = own s pd'"
      "\<And>d i. d < UTOP_index \<Longrightarrow> i < 1024 \<Longrightarrow> slot_entry t pd' d i = slot_entry s pd' d i"
      "\<And>y. space_uses t pd' UTOP_index y = space_uses s pd' UTOP_index y" using same by blast+
    have m: "pmem t pd' = pmem s pd'" by (rule own_mem) (simp add: own_def)
    show "kernel_half t pd'" using ksame(2) [OF m] D(5) [OF pd'(1)] by simp
    show "pgdir_ok t pd' zs"
    proof (rule pgdir_ok_transfer [OF D(4) [OF pd'(1)] m np free])
      fix f assume "f \<in> insert pd' (tables s pd')"
      then have f: "f \<in> own s pd' \<or> f \<in> kernel_frames s"
        using own_frames(1) [OF ok pd'(1)] by (auto simp: own_def kernel_frames_def)
      then have "f \<notin> set xs" using own_frames(2) [OF ok pd'(1)] kernel_frame_ok [OF ok] by blast
      then show "f \<notin> set zs" using f pd'(1) by (intro stays) (auto simp: client_page_def)
    qed
  qed
  have thalf: "kernel_half t pd"
    using D(5) [OF pd] half kmem kp by (simp add: kernel_half_def)
  have client: "client_page t D y" if "client_page s D y" "y \<notin> N" for y
  proof -
    have "y \<notin> own t pd'" if "pd' \<in> D" for pd'
      using that own other(3) [of pd'] \<open>client_page s D y\<close> \<open>y \<notin> N\<close> pd by (cases "pd' = pd") (auto simp: client_page_def)
    then show ?thesis using that np ksame(1) by (simp add: client_page_def)
  qed
  have total: "total_uses t D y \<le> unat (pp_ref (pages t y))" for y
  proof -
    have "total_uses s D y = space_uses s pd UTOP_index y + (\<Sum>pd' \<in> D - {pd}. space_uses s pd' UTOP_index y)"
      unfolding total_uses_def by (rule sum.remove [OF D(1) pd])
    moreover have "total_uses t D y = space_uses t pd UTOP_index y + (\<Sum>pd' \<in> D - {pd}. space_uses t pd' UTOP_index y)"
      unfolding total_uses_def by (rule sum.remove [OF D(1) pd])
    moreover have "(\<Sum>pd' \<in> D - {pd}. space_uses t pd' UTOP_index y) = (\<Sum>pd' \<in> D - {pd}. space_uses s pd' UTOP_index y)"
      using other(5) by (intro sum.cong) auto
    ultimately show ?thesis using refs [of y] by linarith
  qed
  have disj: "own t pd \<inter> kernel_frames t = {}" "\<And>pd'. pd' \<in> D \<Longrightarrow> pd' \<noteq> pd \<Longrightarrow> own t pd \<inter> own s pd' = {}"
  proof -
    show "own t pd \<inter> kernel_frames t = {}" using own D(6) [OF pd] Nout ksame(1) by blast
    show "own t pd \<inter> own s pd' = {}" if "pd' \<in> D" "pd' \<noteq> pd" for pd'
      using own D(8) [OF pd that(1)] Nout that by blast
  qed
  show ?thesis
    unfolding spaces_ok_def
  proof (intro conjI ballI allI impI)
    show "finite D" by (rule D(1))
    show "pgdir_ok t (kern_pgdir t) zs" by (rule kok)
    show "\<not> present (pmem t (kern_pgdir t) d)" if "d < UTOP_index" for d using D(3) [OF that] kmem kp by simp
    show "total_uses t D y \<le> unat (pp_ref (pages t y))" for y by (rule total)
  next
    fix pd' assume p: "pd' \<in> D"
    show "pgdir_ok t pd' zs" "kernel_half t pd'" using p tok thalf other(1,2) by (cases "pd' = pd"; simp)+
    show "own t pd' \<inter> kernel_frames t = {}"
      using p disj(1) other(3) [OF p] D(6) [OF p] ksame(1) by (cases "pd' = pd") auto
    show "pp_ref (pages t y) = 1" if "y \<in> own t pd'" for y
      using p that one others [OF p] other(3) [OF p] D(7) [OF p] by (cases "pd' = pd") auto
    show "own t pd' \<inter> own t pd'' = {}" if "pd'' \<in> D" "pd' \<noteq> pd''" for pd''
      using p that disj(2) other(3) D(8) [OF p] by (cases "pd' = pd"; cases "pd'' = pd") (auto simp: Int_commute)
    show "client_page t D (frame_of (slot_entry t pd' d i))"
      if e: "d < UTOP_index" "i < 1024" "present (slot_entry t pd' d i)" for d i
    proof (cases "pd' = pd")
      case True
      then show ?thesis using maps e client by simp
    next
      case False
      note o = other(4) [OF p False e(1,2)]
      have P: "present (slot_entry s pd' d i)" using e(3) o by simp
      have "frame_of (slot_entry s pd' d i) \<notin> N"
        using used_page(2) [OF ok p mapped_uses [OF e(1,2) P]] N by blast
      then show ?thesis using D(9) [OF p e(1,2) P] client o by simp
    qed
  qed
qed

text \<open>One entry changed.\<close>

lemma row_uses_update:
  assumes i: "i0 < 1024" and e: "\<And>i. i < 1024 \<Longrightarrow> slot_entry t pd d i = (if i = i0 then w else slot_entry s pd d i)"
  shows "row_uses t pd d 1024 y + of_bool (present (slot_entry s pd d i0) \<and> frame_of (slot_entry s pd d i0) = y)
    = row_uses s pd d 1024 y + of_bool (present w \<and> frame_of w = y)"
proof -
  have split: "row_uses u pd d 1024 y = maps_to u pd y d i0 + (\<Sum>i \<in> {..<1024} - {i0}. maps_to u pd y d i)" for u
    unfolding row_uses_def using i by (intro sum.remove) auto
  have "(\<Sum>i \<in> {..<1024} - {i0}. maps_to t pd y d i) = (\<Sum>i \<in> {..<1024} - {i0}. maps_to s pd y d i)"
    using e by (intro sum.cong) (auto simp: maps_to_def)
  then show ?thesis using split [of t] split [of s] e [OF i] by (simp add: maps_to_def)
qed

lemma space_uses_update:
  assumes d: "d0 < UTOP_index" and i: "i0 < 1024"
    and e: "\<And>d i. d < UTOP_index \<Longrightarrow> i < 1024 \<Longrightarrow>
      slot_entry t pd d i = (if d = d0 \<and> i = i0 then w else slot_entry s pd d i)"
  shows "space_uses t pd UTOP_index y + of_bool (present (slot_entry s pd d0 i0) \<and> frame_of (slot_entry s pd d0 i0) = y)
    = space_uses s pd UTOP_index y + of_bool (present w \<and> frame_of w = y)"
proof -
  have split: "space_uses u pd UTOP_index y = row_uses u pd d0 1024 y + (\<Sum>d \<in> {..<UTOP_index} - {d0}. row_uses u pd d 1024 y)" for u
    unfolding space_uses_def using d by (intro sum.remove) auto
  have "(\<Sum>d \<in> {..<UTOP_index} - {d0}. row_uses t pd d 1024 y) = (\<Sum>d \<in> {..<UTOP_index} - {d0}. row_uses s pd d 1024 y)"
    using e by (intro sum.cong refl row_uses_cong) auto
  moreover have "row_uses t pd d0 1024 y + of_bool (present (slot_entry s pd d0 i0) \<and> frame_of (slot_entry s pd d0 i0) = y)
    = row_uses s pd d0 1024 y + of_bool (present w \<and> frame_of w = y)"
    using e d by (intro row_uses_update [OF i]) auto
  ultimately show ?thesis using split [of t] split [of s] by linarith
qed

lemma space_uses_cong:
  "(\<And>d i. d < UTOP_index \<Longrightarrow> i < 1024 \<Longrightarrow> slot_entry t pd d i = slot_entry s pd d i) \<Longrightarrow>
     space_uses t pd UTOP_index y = space_uses s pd UTOP_index y"
  unfolding space_uses_def by (intro sum.cong refl row_uses_cong) auto

section \<open>Addresses below \<open>UTOP\<close>\<close>

abbreviation (input) user_va :: "u32 \<Rightarrow> bool" where
  "user_va va \<equiv> unat (PDX va) < UTOP_index"

abbreviation (input) entry_at :: "kstate \<Rightarrow> nat \<Rightarrow> u32 \<Rightarrow> u32" where
  "entry_at s pd va \<equiv> slot_entry s pd (unat (PDX va)) (unat (PTX va))"

lemma entry_slot: "entry s pd va = entry_at s pd va"
proof -
  have "PGNUM (slot_va (unat (PDX va)) (unat (PTX va))) = PGNUM va"
    using slot_va_unique [of "unat (PDX va)" "unat (PTX va)" va] by simp
  then show ?thesis
    unfolding slot_entry_def entry_def pde_at_def by (simp add: slot_va_index)
qed

lemma slot_update:
  assumes "d < UTOP_index" and "i < 1024"
    and "\<And>va'. unat (PDX va') \<noteq> UVPT_index \<Longrightarrow> entry t pd va' = (if PGNUM va' = PGNUM va then w else entry s pd va')"
  shows "slot_entry t pd d i = (if d = unat (PDX va) \<and> i = unat (PTX va) then w else slot_entry s pd d i)"
proof -
  have "unat (PDX (slot_va d i)) \<noteq> UVPT_index" using assms(1,2) by (simp add: slot_va_index)
  moreover have "PGNUM (slot_va d i) = PGNUM va \<longleftrightarrow> d = unat (PDX va) \<and> i = unat (PTX va)"
    using slot_va_unique [of d i va] assms(1,2) by auto
  ultimately show ?thesis using assms(3) [of "slot_va d i"] by (simp add: slot_entry_def)
qed

text \<open>The page of a table of the space, and what its entries are.\<close>

lemma user_table:
  assumes "user_va va" and "present (pde_at s pd va)"
  shows "frame_of (pde_at s pd va) \<in> own s pd"
  using assms by (auto simp: own_def user_tables_def pde_at_def)

lemma space_mapped:
  assumes ok: "spaces_ok s xs D" and pd: "pd \<in> D" and va: "user_va va" and P: "present (entry s pd va)"
  shows "client_page s D (frame_of (entry s pd va))" "frame_of (entry s pd va) \<notin> set xs"
    and "mapped_ok s pd xs va"
    and "space_uses s pd UTOP_index (frame_of (entry s pd va)) \<noteq> 0"
proof -
  have P': "present (entry_at s pd va)" using P by (simp add: entry_slot)
  show c: "client_page s D (frame_of (entry s pd va))"
    using spaces_okD(9) [OF ok pd va _ P'] by (simp add: entry_slot)
  show u: "space_uses s pd UTOP_index (frame_of (entry s pd va)) \<noteq> 0"
    using mapped_uses [OF va _ P'] by (simp add: entry_slot)
  then show x: "frame_of (entry s pd va) \<notin> set xs" using used_page(2) [OF ok pd] by simp
  show "mapped_ok s pd xs va"
    using c x own_frames(1) [OF ok pd] pd
    by (auto simp: mapped_ok_def data_page_def client_page_def own_def kernel_frames_def)
qed

lemma space_mapped_ok:
  assumes "spaces_ok s xs D" and "pd \<in> D" and "user_va va"
  shows "mapped_ok s pd xs va"
  using space_mapped(3) [OF assms] by (auto simp: mapped_ok_def)

section \<open>The steps of \<open>page_insert\<close>\<close>

lemma spaces_ok_new_table:
  assumes ok: "spaces_ok s (x # xs) D" and pd: "pd \<in> D" and va: "user_va va" and np: "\<not> present (pde_at s pd va)"
  shows "spaces_ok (new_table x pd va s) xs D"
    and "own (new_table x pd va s) pd \<subseteq> insert x (own s pd)"
    and "pd' \<in> D \<Longrightarrow> pd' \<noteq> pd \<Longrightarrow> own (new_table x pd va s) pd' = own s pd'"
    and "client_page s D y \<Longrightarrow> y \<noteq> x \<Longrightarrow> client_page (new_table x pd va s) D y"
    and "total_uses (new_table x pd va s) D y = total_uses s D y"
proof -
  let ?t = "new_table x pd va s"
  note D = spaces_okD [OF ok]
  have free: "free_pages s (x # xs)" by (rule pgdir_okD(1) [OF D(2)])
  then have x: "pp_ref (pages s x) = 0" "x \<notin> set xs" using free_pages_distinct [OF free] by (auto simp: free_pages_def)
  have xown: "x \<notin> own s pd'" if "pd' \<in> D" for pd' using own_frames(2) [OF ok that, of x] by auto
  then have xpd: "x \<noteq> pd" using pd by (auto simp: own_def)
  have x20: "x < 1048576" using free pgdir_okD(5) [OF D(2)] by (auto simp: free_pages_def)
  have uvpt: "unat (PDX va) \<noteq> UVPT_index" using va by simp
  note pok = D(4) [OF pd]
  have same: "slot_entry ?t pd d i = slot_entry s pd d i" if "d < UTOP_index" "i < 1024" for d i
    unfolding slot_entry_def using that by (intro new_table_entry [OF pok np uvpt]) (simp add: slot_va_index)
  show sub: "own ?t pd \<subseteq> insert x (own s pd)"
    using xpd x20 by (auto simp: own_def user_tables_def new_table_slot)
  have others: "pmem ?t f = pmem s f" if "pd' \<in> D" "pd' \<noteq> pd" "f \<in> own s pd'" for pd' f
    using that xown [OF that(1)] D(8) [OF that(1) pd that(2)] xpd by (auto simp: new_table_pmem own_def)
  have S: "own ?t pd' = own s pd'" "\<And>y. space_uses ?t pd' UTOP_index y = space_uses s pd' UTOP_index y"
    if "pd' \<in> D" "pd' \<noteq> pd" for pd'
    using own_same [of s pd' ?t, OF others [OF that]] by blast+
  show own': "own ?t pd' = own s pd'" if "pd' \<in> D" "pd' \<noteq> pd" for pd' by (rule S(1) [OF that])
  have "space_uses ?t pd' UTOP_index y = space_uses s pd' UTOP_index y" if "pd' \<in> D" for pd' y
    using that same S(2) by (cases "pd' = pd") (auto intro: space_uses_cong)
  then show "total_uses ?t D y = total_uses s D y" for y by (simp add: total_uses_def)
  have "kern_pgdir s \<noteq> x" "kern_pgdir s \<noteq> pd"
    using kernel_frame_ok [OF ok, of x] D(6) [OF pd] by (auto simp: kernel_frames_def own_def)
  then have "kernel_frames ?t = kernel_frames s" using xpd by (intro kernel_same(1)) (simp_all add: new_table_pmem)
  then show "client_page ?t D y" if "client_page s D y" "y \<noteq> x" for y
    using that sub own' unfolding client_page_def by (metis insertE new_table_sel(1) subsetD)
  show "spaces_ok ?t xs D"
  proof (rule spaces_ok_update [OF ok pd, of ?t xs "{x}"])
    show "pgdir_ok ?t pd xs" by (rule new_table_ok [OF pok np uvpt])
    show "pmem ?t f = pmem s f" if "f \<notin> own s pd" "f \<notin> {x}" for f
      using that xpd by (auto simp: new_table_pmem own_def)
    show "pmem ?t pd d = pmem s pd d" if "UTOP_index \<le> d" for d
      using that va xpd by (simp add: new_table_pmem)
    show "own ?t pd \<subseteq> own s pd \<union> {x}" using sub by simp
    then show "pp_ref (pages ?t y) = 1" if "y \<in> own ?t pd" for y
      using that D(7) [OF pd, of y] x(1) xown [OF pd] by auto
    show "pp_ref (pages ?t y) = pp_ref (pages s y)" if "pd' \<in> D" "pd' \<noteq> pd" "y \<in> own s pd'" for y pd'
      using that xown [OF that(1)] by auto
    show "client_page s D (frame_of (slot_entry ?t pd d i)) \<and> frame_of (slot_entry ?t pd d i) \<notin> {x}"
      if e: "d < UTOP_index" "i < 1024" "present (slot_entry ?t pd d i)" for d i
    proof -
      have P: "present (slot_entry s pd d i)" using e same by simp
      have "frame_of (slot_entry s pd d i) \<noteq> x" using used_page(2) [OF ok pd mapped_uses [OF e(1,2) P]] by auto
      then show ?thesis using D(9) [OF pd e(1,2) P] same e by simp
    qed
    show "total_uses s D y + space_uses ?t pd UTOP_index y \<le> unat (pp_ref (pages ?t y)) + space_uses s pd UTOP_index y" for y
      using D(10) [of y] x(1) space_uses_cong [of ?t pd s y] same by (cases "y = x") simp_all
  qed (use x in auto)
qed

lemma spaces_ok_same_memory:
  assumes ok: "spaces_ok s xs D" and mem: "pmem t = pmem s" and np: "npages t = npages s" and kp: "kern_pgdir t = kern_pgdir s"
    and free: "free_pages t zs" and zs: "\<And>f. f \<in> set zs \<Longrightarrow> f \<in> set xs \<or> client_page s D f"
    and own: "\<And>pd y. pd \<in> D \<Longrightarrow> y \<in> own s pd \<Longrightarrow> pp_ref (pages t y) = pp_ref (pages s y)"
    and refs: "\<And>y. total_uses s D y \<le> unat (pp_ref (pages t y))"
  shows "spaces_ok t zs D"
proof -
  note D = spaces_okD [OF ok]
  have o: "own t pd = own s pd" "kernel_half t pd = kernel_half s pd" "kernel_frames t = kernel_frames s"
    "slot_entry t pd d i = slot_entry s pd d i" "space_uses t pd UTOP_index y = space_uses s pd UTOP_index y" for pd d i y
    using mem kp
    by (simp_all add: own_def user_tables_def kernel_half_def kernel_frames_def tables_def table_slots_def
        slot_entry_def same_memory_view [OF mem] space_uses_def row_uses_def maps_to_def)
  have stays: "f \<notin> set zs" if "f \<notin> set xs" "\<not> client_page s D f" for f using zs that by blast
  have pok: "pgdir_ok t pd zs" if "pgdir_ok s pd xs" and c: "\<And>f. f \<in> insert pd (tables s pd) \<Longrightarrow> \<not> client_page s D f" for pd
    using pgdir_okD(4,6) [OF that(1)] c
    by (intro pgdir_ok_transfer [OF that(1) _ np free] stays) (auto simp: mem)
  have "pgdir_ok t (kern_pgdir s) zs"
    by (rule pok [OF D(2)]) (auto simp: client_page_def kernel_frames_def)
  moreover have "pgdir_ok t pd zs" if "pd \<in> D" for pd
    using own_frames(1) [OF ok that] that
    by (intro pok [OF D(4) [OF that]]) (auto simp: client_page_def own_def kernel_frames_def)
  ultimately show ?thesis
    using ok own refs unfolding spaces_ok_def total_uses_def o mem kp np client_page_def by simp
qed

lemma spaces_ok_raise:
  assumes ok: "spaces_ok s xs D" and y: "y \<notin> set xs" "client_page s D y" and small: "unat (pp_ref (pages s y)) + 1 < 65536"
  shows "spaces_ok (upd_page y (\<lambda>p. p\<lparr>pp_ref := pp_ref p + 1\<rparr>) s) xs D"
proof (rule spaces_ok_same_memory [OF ok])
  show "free_pages (upd_page y (\<lambda>p. p\<lparr>pp_ref := pp_ref p + 1\<rparr>) s) xs"
    using pgdir_okD(1) [OF spaces_okD(2) [OF ok]] y(1) by (intro free_pages_ref) simp_all
  have "unat (pp_ref (pages s y) + 1) = unat (pp_ref (pages s y)) + 1" using small by (simp add: unat_word_ariths)
  then show "total_uses s D z \<le> unat (pp_ref (pages (upd_page y (\<lambda>p. p\<lparr>pp_ref := pp_ref p + 1\<rparr>) s) z))" for z
    using spaces_okD(10) [OF ok, of z] by (cases "z = y") simp_all
qed (use y in \<open>auto simp: client_page_def\<close>)

text \<open>Dropping a reference that no mapping stands for.\<close>

lemma spaces_ok_decref:
  assumes ok: "spaces_ok s xs D" and y: "y \<notin> set xs" "client_page s D y" and slack: "total_uses s D y < unat (pp_ref (pages s y))"
  shows "spaces_ok (decref y s) (if pp_ref (pages s y) = 1 then y # xs else xs) D"
proof (rule spaces_ok_same_memory [OF ok])
  show "free_pages (decref y s) (if pp_ref (pages s y) = 1 then y # xs else xs)"
    using pgdir_okD(1) [OF spaces_okD(2) [OF ok]] y by (intro decref_free_pages) (auto simp: client_page_def)
  have "unat (pp_ref (pages s y) - 1) = unat (pp_ref (pages s y)) - 1"
    using slack by (intro unat_minus_one) (auto simp: unsigned_eq_0_iff)
  then show "total_uses s D z \<le> unat (pp_ref (pages (decref y s) z))" for z
    using spaces_okD(10) [OF ok, of z] slack by (cases "z = y") (simp_all add: pp_ref_decref)
qed (use y in \<open>auto simp: client_page_def pp_ref_decref split: if_splits\<close>)

text \<open>Storing an entry for a client page, or clearing one.\<close>

lemma spaces_ok_store_entry:
  assumes ok: "spaces_ok s xs D" and pd: "pd \<in> D" and va: "user_va va" and P: "present (pde_at s pd va)"
    and w: "present w \<Longrightarrow> client_page s D (frame_of w)"
    and slack: "present w \<Longrightarrow> \<not> present (entry s pd va) \<Longrightarrow> total_uses s D (frame_of w) < unat (pp_ref (pages s (frame_of w)))"
    and old: "present w \<Longrightarrow> present (entry s pd va) \<Longrightarrow> frame_of w = frame_of (entry s pd va)"
  shows "spaces_ok (store_word (frame_of (pde_at s pd va)) (unat (PTX va)) w s) xs D"
    and "\<And>y. total_uses (store_word (frame_of (pde_at s pd va)) (unat (PTX va)) w s) D y
          + of_bool (present (entry s pd va) \<and> frame_of (entry s pd va) = y)
        = total_uses s D y + of_bool (present w \<and> frame_of w = y)"
    and "\<And>y. client_page (store_word (frame_of (pde_at s pd va)) (unat (PTX va)) w s) D y = client_page s D y"
    and "\<And>pd'. pd' \<in> D \<Longrightarrow> own (store_word (frame_of (pde_at s pd va)) (unat (PTX va)) w s) pd' = own s pd'"
proof -
  let ?f = "frame_of (pde_at s pd va)"
  let ?t = "store_word ?f (unat (PTX va)) w s"
  note D = spaces_okD [OF ok]
  have uvpt: "unat (PDX va) \<noteq> UVPT_index" using va by simp
  note pok = D(4) [OF pd]
  have f: "?f \<in> own s pd" by (rule user_table [OF va P])
  have fpd: "?f \<noteq> pd" using pde_frame(3) [OF pok P uvpt] pgdir_okD(6) [OF pok] by blast
  have view: "slot_entry ?t pd d i = (if d = unat (PDX va) \<and> i = unat (PTX va) then w else slot_entry s pd d i)"
    if "d < UTOP_index" "i < 1024" for d i
    using that store_entry_view [OF pok P uvpt] by (rule slot_update)
  have count: "space_uses ?t pd UTOP_index y + of_bool (present (entry s pd va) \<and> frame_of (entry s pd va) = y)
      = space_uses s pd UTOP_index y + of_bool (present w \<and> frame_of w = y)" for y
    unfolding entry_slot using view va by (intro space_uses_update) simp_all
  have total: "total_uses ?t D y + space_uses s pd UTOP_index y = total_uses s D y + space_uses ?t pd UTOP_index y" for y
  proof -
    have "space_uses ?t pd' UTOP_index y = space_uses s pd' UTOP_index y" if "pd' \<in> D - {pd}" for pd'
      using that f D(8) [of pd' pd] pd by (intro own_same(4)) auto
    then have "(\<Sum>pd' \<in> D - {pd}. space_uses ?t pd' UTOP_index y) = (\<Sum>pd' \<in> D - {pd}. space_uses s pd' UTOP_index y)"
      by (intro sum.cong) auto
    then show ?thesis
      using sum.remove [OF D(1) pd, of "\<lambda>pd. space_uses ?t pd UTOP_index y"]
        sum.remove [OF D(1) pd, of "\<lambda>pd. space_uses s pd UTOP_index y"]
      unfolding total_uses_def by linarith
  qed
  show "total_uses ?t D y + of_bool (present (entry s pd va) \<and> frame_of (entry s pd va) = y)
      = total_uses s D y + of_bool (present w \<and> frame_of w = y)" for y
    using count [of y] total [of y] by linarith
  have fdir: "?f \<noteq> pd'" if "pd' \<in> D" for pd'
    using D(8) [OF pd that] f fpd by (cases "pd' = pd") (auto simp: own_def)
  show owns: "own ?t pd' = own s pd'" if "pd' \<in> D" for pd' using fdir [OF that] by (simp add: own_def user_tables_def)
  then have own: "own ?t pd = own s pd" using pd by simp
  have "kernel_frames ?t = kernel_frames s"
    using D(6) [OF pd] f by (intro kernel_same(1)) (auto simp: kernel_frames_def)
  then show "client_page ?t D y = client_page s D y" for y using owns by (simp add: client_page_def)
  show "spaces_ok ?t xs D"
  proof (rule spaces_ok_update [OF ok pd, of ?t xs "{}"])
    show "pgdir_ok ?t pd xs" by (rule store_entry_ok [OF pok P uvpt])
    show "pmem ?t g = pmem s g" if "g \<notin> own s pd" for g using that f by auto
    show "pp_ref (pages ?t y) = 1" if "y \<in> own ?t pd" for y using that own D(7) [OF pd] by simp
    show "client_page s D (frame_of (slot_entry ?t pd d i)) \<and> frame_of (slot_entry ?t pd d i) \<notin> {}"
      if e: "d < UTOP_index" "i < 1024" "present (slot_entry ?t pd d i)" for d i
      using e view [OF e(1,2)] w D(9) [OF pd e(1,2)] by (auto split: if_splits)
    show "total_uses s D y + space_uses ?t pd UTOP_index y \<le> unat (pp_ref (pages ?t y)) + space_uses s pd UTOP_index y" for y
    proof (cases "present w \<and> frame_of w = y")
      case False
      then have "of_bool (present w \<and> frame_of w = y) = (0 :: nat)" by simp
      then have "space_uses ?t pd UTOP_index y \<le> space_uses s pd UTOP_index y" using count [of y] by linarith
      then show ?thesis using D(10) [of y] by simp
    next
      case True
      then have w: "present w" "frame_of w = y" by simp_all
      show ?thesis
      proof (cases "present (entry s pd va)")
        case True
        then show ?thesis using count [of y] D(10) [of y] old w by simp
      next
        case False
        then show ?thesis using count [of y] slack [OF w(1) False] w by simp
      qed
    qed
  qed (use fpd own in simp_all)
qed

section \<open>The operations\<close>

lemma spaces_page_alloc:
  assumes ok: "spaces_ok s (x # xs) D"
  shows "run (page_alloc flags) s = (Ret (Some x), taken x (flags AND ALLOC_ZERO \<noteq> 0) s)"
    and "spaces_ok (taken x z s) xs D" "client_page (taken x z s) D x" "x \<notin> set xs" "pp_ref (pages s x) = 0"
    and "client_page (taken x z s) D y = client_page s D y" "total_uses (taken x z s) D y = total_uses s D y"
    and "pd \<in> D \<Longrightarrow> own (taken x z s) pd = own s pd"
    and "pd \<in> D \<Longrightarrow> d < UTOP_index \<Longrightarrow> i < 1024 \<Longrightarrow> slot_entry (taken x z s) pd d i = slot_entry s pd d i"
proof -
  note D = spaces_okD [OF ok]
  have free: "free_pages s (x # xs)" by (rule pgdir_okD(1) [OF D(2)])
  show "run (page_alloc flags) s = (Ret (Some x), taken x (flags AND ALLOC_ZERO \<noteq> 0) s)"
    by (rule page_alloc_run [OF free pgdir_okD(2) [OF D(2)]])
  show "x \<notin> set xs" using free_pages_distinct [OF free] by simp
  show "pp_ref (pages s x) = 0" using free by (simp add: free_pages_def)
  let ?u = "taken x False s"
  have cx: "client_page s D x"
    using free kernel_frame_ok [OF ok, of x] own_frames(2) [OF ok, of _ x] by (auto simp: client_page_def free_pages_def)
  have u: "spaces_ok ?u xs D"
    using taken_free_pages [OF free, of False]
    by (intro spaces_ok_same_memory [OF ok]) (simp_all add: D(10))
  have um: "pmem ?u = pmem s" by simp
  have o: "own ?u pd = own s pd" "kernel_frames ?u = kernel_frames s"
    "slot_entry ?u pd d i = slot_entry s pd d i" for pd d i
    by (simp_all add: own_def user_tables_def kernel_frames_def tables_def table_slots_def
        slot_entry_def same_memory_view [OF um])
  have cu: "client_page ?u D y = client_page s D y" for y by (simp add: client_page_def o)
  have tu: "total_uses ?u D y = total_uses s D y" for y
    by (simp add: total_uses_def space_uses_def row_uses_def maps_to_def o)
  have mem: "pmem (taken x z s) f = pmem ?u f" if "\<not> client_page ?u D f" for f
    using that cx by (auto simp: cu)
  have same: "pages (taken x z s) = pages ?u" "npages (taken x z s) = npages ?u"
    "page_free_list (taken x z s) = page_free_list ?u" "kern_pgdir (taken x z s) = kern_pgdir ?u" by simp_all
  note F = spaces_ok_frames [OF u mem same]
  show "spaces_ok (taken x z s) xs D" by (rule F(1))
  show "client_page (taken x z s) D y = client_page s D y" for y using F(2) cu by simp
  then show "client_page (taken x z s) D x" using cx by simp
  show "total_uses (taken x z s) D y = total_uses s D y" for y using F(6) tu by simp
  show "pd \<in> D \<Longrightarrow> own (taken x z s) pd = own s pd" using F(3) o(1) by simp
  show "pd \<in> D \<Longrightarrow> d < UTOP_index \<Longrightarrow> i < 1024 \<Longrightarrow> slot_entry (taken x z s) pd d i = slot_entry s pd d i"
    using F(5) o(3) by simp
qed

lemma spaces_page_remove:
  assumes ok: "spaces_ok s xs D" and pd: "pd \<in> D" and va: "user_va va" and P: "present (entry s pd va)"
  defines "y \<equiv> frame_of (entry s pd va)"
  shows "\<exists>t. run (page_remove pd va) s = (Ret (), t) \<and> spaces_ok t (if pp_ref (pages s y) = 1 then y # xs else xs) D
    \<and> (\<forall>z. total_uses t D z + of_bool (z = y) = total_uses s D z)
    \<and> (\<forall>z. pp_ref (pages t z) = (if z = y then pp_ref (pages s z) - 1 else pp_ref (pages s z)))
    \<and> (\<forall>z. client_page t D z = client_page s D z) \<and> (\<forall>pd' \<in> D. own t pd' = own s pd')
    \<and> pde_at t pd va = pde_at s pd va \<and> entry t pd va = 0
    \<and> (\<forall>f. f \<notin> own s pd \<longrightarrow> pmem t f = pmem s f) \<and> pmem t pd = pmem s pd"
proof -
  have uvpt: "unat (PDX va) \<noteq> UVPT_index" using va by simp
  note pok = spaces_okD(4) [OF ok pd] and m = space_mapped_ok [OF ok pd va]
  have Pd: "present (pde_at s pd va)" by (rule entry_present_pde [OF P])
  let ?f = "frame_of (pde_at s pd va)"
  let ?u = "store_word ?f (unat (PTX va)) 0 s"
  obtain l where run: "run (page_remove pd va) s = (Ret (), (decref y ?u)\<lparr>invlpgs := l\<rparr>)"
    using remove_present [OF pok uvpt m P] unfolding y_def by blast
  let ?t = "(decref y ?u)\<lparr>invlpgs := l\<rparr>"
  note U = spaces_ok_store_entry [OF ok pd va Pd, of 0, simplified]
  have count: "total_uses ?u D z + of_bool (z = y) = total_uses s D z" for z
    using U(2) [of z] P by (simp add: y_def eq_commute [of z])
  have yc: "y \<notin> set xs" "client_page s D y" using space_mapped(1,2) [OF ok pd va P] by (simp_all add: y_def)
  have slack: "total_uses ?u D y < unat (pp_ref (pages ?u y))"
    using count [of y] spaces_okD(10) [OF ok, of y] by simp
  have dec: "spaces_ok (decref y ?u) (if pp_ref (pages s y) = 1 then y # xs else xs) D"
    using spaces_ok_decref [OF U(1) yc(1) _ slack] yc(2) U(3) by simp
  have f: "?f \<in> own s pd" "?f \<noteq> pd"
    using user_table [OF va Pd] pde_frame(3) [OF pok Pd uvpt] pgdir_okD(6) [OF pok] by auto
  have mem: "pmem ?t = pmem ?u" by simp
  have o: "own ?t pd' = own ?u pd'" "kernel_frames ?t = kernel_frames ?u" "space_uses ?t pd' n z = space_uses ?u pd' n z" for pd' n z
    by (simp_all add: own_def user_tables_def kernel_frames_def tables_def table_slots_def
        slot_entry_def same_memory_view [OF mem] space_uses_def row_uses_def maps_to_def)
  have ct: "client_page ?t D z = client_page s D z" for z using U(3) [of z] by (simp add: client_page_def o)
  have tt: "total_uses ?t D z + of_bool (z = y) = total_uses s D z" for z using count [of z] by (simp add: total_uses_def o)
  have "entry ?t pd va = 0"
    unfolding same_memory_view [OF mem] using store_entry_view [OF pok Pd uvpt uvpt, of 0] by simp
  moreover have "pde_at ?t pd va = pde_at s pd va" using f(2) by (simp add: pde_at_def)
  moreover have "spaces_ok ?t (if pp_ref (pages s y) = 1 then y # xs else xs) D"
    using dec by (subst spaces_ok_same [of _ "decref y ?u"]) simp_all
  moreover have "pmem ?t f = pmem s f" if "f \<notin> own s pd" for f using that f(1) by auto
  moreover have "own ?t pd' = own s pd'" if "pd' \<in> D" for pd' using U(4) [OF that] by (simp add: o)
  moreover have "pmem ?t pd = pmem s pd" using f(2) by simp
  ultimately show ?thesis
    using run ct tt by (intro exI [of _ ?t]) (simp add: pp_ref_decref)
qed


text \<open>What \<open>page_insert\<close> does to the spaces; \<open>w\<close> is the new entry.\<close>

definition inserted :: "kstate \<Rightarrow> nat set \<Rightarrow> nat \<Rightarrow> nat list \<Rightarrow> u32 \<Rightarrow> u32 \<Rightarrow> kstate \<Rightarrow> nat list \<Rightarrow> bool" where
  "inserted s D pd xs va w t zs \<longleftrightarrow>
     spaces_ok t zs D \<and>
     (\<forall>va'. unat (PDX va') \<noteq> UVPT_index \<longrightarrow> entry t pd va' = (if PGNUM va' = PGNUM va then w else entry s pd va')) \<and>
     (\<forall>z. total_uses t D z + of_bool (present (entry s pd va) \<and> frame_of (entry s pd va) = z)
        = total_uses s D z + of_bool (frame_of w = z)) \<and>
     (\<forall>y. client_page s D y \<longrightarrow> y \<notin> set xs \<longrightarrow> client_page t D y) \<and>
     own t pd \<subseteq> own s pd \<union> set xs \<and> (\<forall>pd' \<in> D. pd' \<noteq> pd \<longrightarrow> own t pd' = own s pd') \<and>
     (\<forall>f. f \<notin> own s pd \<longrightarrow> f \<notin> set xs \<longrightarrow> pmem t f = pmem s f) \<and>
     set zs \<subseteq> set xs \<union> {y. present (entry s pd va) \<and> y = frame_of (entry s pd va)} \<and>
     length xs \<le> length zs + of_bool (\<not> present (pde_at s pd va)) \<and>
     (\<forall>d < UTOP_index. pmem t pd d = pmem s pd d \<or> pmem t pd d AND PTE_W \<noteq> 0 \<and> d = unat (PDX va))"

lemma space_insert_tail:
  assumes ok: "spaces_ok s xs D" and pd: "pd \<in> D" and va: "user_va va" and Pd: "present (pde_at s pd va)"
    and pp: "pp \<notin> set xs" "client_page s D pp" and small: "unat (pp_ref (pages s pp)) + 1 < 65536" and perm: "perm < 4096"
  shows "\<exists>t zs. run (insert_tail pd pp va perm (frame_of (pde_at s pd va), unat (PTX va))) s = (Ret 0, t)
    \<and> inserted s D pd xs va (page2pa pp OR perm OR PTE_P) t zs \<and> own t pd = own s pd
    \<and> (\<forall>y. client_page t D y = client_page s D y) \<and> length xs \<le> length zs
    \<and> pp_ref (pages t pp) = pp_ref (pages s pp) + 1 - of_bool (present (entry s pd va) \<and> frame_of (entry s pd va) = pp)"
proof -
  let ?f = "frame_of (pde_at s pd va)" and ?i = "unat (PTX va)"
  let ?w = "page2pa pp OR perm OR PTE_P" and ?e = "entry s pd va"
  define r where "r = upd_page pp (\<lambda>p. p\<lparr>pp_ref := pp_ref p + 1\<rparr>) s"
  have uvpt: "unat (PDX va) \<noteq> UVPT_index" using va by simp
  note D = spaces_okD [OF ok] and pok = spaces_okD(4) [OF ok pd]
  have w: "present ?w" "frame_of ?w = pp"
    using present_or_P(1) entry_word(1) [OF _ perm, of pp] pp(2) pgdir_okD(5) [OF pok] by (auto simp: client_page_def)
  have rm: "pmem r = pmem s" "npages r = npages s" "kern_pgdir r = kern_pgdir s" by (simp_all add: r_def)
  have rv: "entry r pd' va' = entry s pd' va'" "pde_at r pd' va' = pde_at s pd' va'" "own r pd' = own s pd'"
      "client_page r D y = client_page s D y" "total_uses r D y = total_uses s D y" for pd' va' y
    by (simp_all add: same_memory_view [OF rm(1)] own_def user_tables_def client_page_def kernel_frames_def
        tables_def table_slots_def rm total_uses_def space_uses_def row_uses_def maps_to_def slot_entry_def)
  have rok: "spaces_ok r xs D" unfolding r_def by (rule spaces_ok_raise [OF ok pp small])
  have rref: "unat (pp_ref (pages r pp)) = unat (pp_ref (pages s pp)) + 1"
    using small by (simp add: r_def unat_word_ariths)
  have dp: "data_page s pd xs pp"
    using pp own_frames(1) [OF ok pd] pd by (auto simp: data_page_def client_page_def own_def kernel_frames_def)
  have used: "0 < unat (pp_ref (pages s (frame_of ?e)))" if "present ?e"
    using space_mapped(4) [OF ok pd va that] uses_total [OF D(1) pd, of s "frame_of ?e"] D(10) [of "frame_of ?e"] by linarith
  have ref: "present ?e \<Longrightarrow> frame_of ?e = pp \<Longrightarrow> pp_ref (pages s pp) \<noteq> 0" using used by auto
  obtain t0 zs0 where T: "run (insert_tail pd pp va perm (?f, ?i)) s = (Ret 0, t0)" "insert_post s pd pp va perm t0 zs0"
    using insert_tail_spec [OF pok uvpt Pd space_mapped_ok [OF ok pd va] dp ref, of perm] by blast
  have view: "\<And>va'. unat (PDX va') \<noteq> UVPT_index \<Longrightarrow> entry t0 pd va' = (if PGNUM va' = PGNUM va then ?w else entry s pd va')"
    and tref: "pp_ref (pages t0 pp) = pp_ref (pages s pp) + 1 - of_bool (present ?e \<and> frame_of ?e = pp)"
    using T(2) by (auto simp: insert_post_def eq_commute [of pp])
  have fown: "?f \<in> own s pd" "?f \<noteq> pd"
    using user_table [OF va Pd] pde_frame(3) [OF pok Pd uvpt] pgdir_okD(6) [OF pok] by auto
  have "\<exists>zs. spaces_ok t0 zs D \<and> (\<forall>z. total_uses t0 D z + of_bool (present ?e \<and> frame_of ?e = z) = total_uses s D z + of_bool (pp = z))
      \<and> (\<forall>y. client_page t0 D y = client_page s D y) \<and> (\<forall>pd' \<in> D. own t0 pd' = own s pd')
      \<and> (\<forall>f. f \<notin> own s pd \<longrightarrow> pmem t0 f = pmem s f) \<and> pmem t0 pd = pmem s pd
      \<and> set zs \<subseteq> set xs \<union> {y. present ?e \<and> y = frame_of ?e} \<and> length xs \<le> length zs"
  proof (cases "present ?e")
    case False
    then have "run (insert_tail pd pp va perm (?f, ?i)) s = (Ret 0, store_word ?f ?i ?w r)"
      using Pd by (simp add: insert_tail_def prog_simps load_pte_def store_pte_def entry_def rm flip: r_def)
    then have t0: "t0 = store_word ?f ?i ?w r" using T(1) by simp
    have slack: "total_uses r D pp < unat (pp_ref (pages r pp))" using rref D(10) [of pp] rv(5) [of pp] by simp
    have pd_r: "present (pde_at r pd va)" using Pd by (simp add: rv)
    have S1: "present ?w \<Longrightarrow> client_page r D (frame_of ?w)"
      and S2: "present ?w \<Longrightarrow> \<not> present (entry r pd va) \<Longrightarrow> total_uses r D (frame_of ?w) < unat (pp_ref (pages r (frame_of ?w)))"
      and S3: "present ?w \<Longrightarrow> present (entry r pd va) \<Longrightarrow> frame_of ?w = frame_of (entry r pd va)"
      using w pp(2) slack False by (simp_all only: rv)
    note S = spaces_ok_store_entry [OF rok pd va pd_r S1 S2 S3, unfolded rv, folded t0]
    show ?thesis
      using S w False fown by (intro exI [of _ xs]) (auto simp: t0 rm)
  next
    case True
    have Pr: "present (entry r pd va)" using True by (simp add: rv)
    define zs where "zs = (if pp_ref (pages r (frame_of ?e)) = 1 then frame_of ?e # xs else xs)"
    obtain u where u: "run (page_remove pd va) r = (Ret (), u)" "spaces_ok u zs D"
      "\<And>z. total_uses u D z + of_bool (z = frame_of ?e) = total_uses s D z"
      "\<And>z. pp_ref (pages u z) = (if z = frame_of ?e then pp_ref (pages r z) - 1 else pp_ref (pages r z))"
      "\<And>z. client_page u D z = client_page s D z" "\<And>pd'. pd' \<in> D \<Longrightarrow> own u pd' = own s pd'"
      "pde_at u pd va = pde_at s pd va" "entry u pd va = 0" "\<And>f. f \<notin> own s pd \<Longrightarrow> pmem u f = pmem s f"
      "pmem u pd = pmem s pd"
      using spaces_page_remove [OF rok pd va Pr] unfolding rv rm zs_def by blast
    have "run (insert_tail pd pp va perm (?f, ?i)) s = (Ret 0, store_word ?f ?i ?w u)"
      using True u(1) Pd present_iff [of ?e]
      by (simp add: insert_tail_def prog_simps load_pte_def store_pte_def entry_def rm flip: r_def)
    then have t0: "t0 = store_word ?f ?i ?w u" using T(1) by simp
    have slack: "total_uses u D pp < unat (pp_ref (pages u pp))"
    proof (cases "pp = frame_of ?e")
      case True
      then have "0 < unat (pp_ref (pages s pp))" using used \<open>present ?e\<close> by simp
      moreover have "unat (pp_ref (pages u pp)) = unat (pp_ref (pages s pp))"
        using u(4) [of pp] True by (simp add: r_def)
      ultimately show ?thesis using u(3) [of pp] D(10) [of pp] True by simp
    qed (use u(3) [of pp] u(4) [of pp] D(10) [of pp] rref in simp)
    have pd_u: "present (pde_at u pd va)" "\<not> present (entry u pd va)" using Pd u(7,8) by simp_all
    have S1: "present ?w \<Longrightarrow> client_page u D (frame_of ?w)"
      and S2: "present ?w \<Longrightarrow> \<not> present (entry u pd va) \<Longrightarrow> total_uses u D (frame_of ?w) < unat (pp_ref (pages u (frame_of ?w)))"
      and S3: "present ?w \<Longrightarrow> present (entry u pd va) \<Longrightarrow> frame_of ?w = frame_of (entry u pd va)"
      using w pp(2) slack pd_u by (simp_all only: u(5))
    note S = spaces_ok_store_entry [OF u(2) pd va pd_u(1) S1 S2 S3, unfolded u(7), folded t0]
    have total: "total_uses t0 D z + of_bool (present ?e \<and> frame_of ?e = z) = total_uses s D z + of_bool (pp = z)" for z
      using S(2) [of z] u(3) [of z] u(8) w True by (auto simp: eq_commute [of z])
    show ?thesis
      using S(1,3,4) total u(5,6,9,10) fown True by (intro exI [of _ zs]) (auto simp: t0 zs_def)
  qed
  then obtain zs where Z: "spaces_ok t0 zs D" "\<And>z. total_uses t0 D z + of_bool (present ?e \<and> frame_of ?e = z) = total_uses s D z + of_bool (pp = z)"
    "\<And>y. client_page t0 D y = client_page s D y" "\<And>pd'. pd' \<in> D \<Longrightarrow> own t0 pd' = own s pd'"
    "\<And>f. f \<notin> own s pd \<Longrightarrow> pmem t0 f = pmem s f" "pmem t0 pd = pmem s pd"
    "set zs \<subseteq> set xs \<union> {y. present ?e \<and> y = frame_of ?e}" "length xs \<le> length zs" by blast
  have "inserted s D pd xs va ?w t0 zs"
    unfolding inserted_def using Z view w pd by (simp add: Un_upper1 le_SucI trans_le_add1)
  then show ?thesis using T(1) tref Z pd by (intro exI [of _ t0] exI [of _ zs]) simp
qed


lemma space_insert:
  assumes ok: "spaces_ok s xs D" and pd: "pd \<in> D" and va: "user_va va" and avail: "present (pde_at s pd va) \<or> xs \<noteq> []"
    and pp: "pp \<notin> set xs" "client_page s D pp" and small: "unat (pp_ref (pages s pp)) + 1 < 65536" and perm: "perm < 4096"
  shows "\<exists>t zs. run (page_insert pd pp va perm) s = (Ret 0, t) \<and> inserted s D pd xs va (page2pa pp OR perm OR PTE_P) t zs"
proof (cases "present (pde_at s pd va)")
  case True
  have "run (pgdir_walk pd va 1) s = (Ret (Some (frame_of (pde_at s pd va), unat (PTX va))), s)"
    by (rule walk_present [OF spaces_okD(4) [OF ok pd] True])
  then show ?thesis
    using space_insert_tail [OF ok pd va True pp small perm] by (auto simp: page_insert_tail)
next
  case np: False
  then obtain x ys where xs: "xs = x # ys" using avail by (cases xs) auto
  note ok' = ok [unfolded xs]
  define u where "u = new_table x pd va s"
  let ?e = "entry s pd va"
  note pok = spaces_okD(4) [OF ok' pd]
  have uvpt: "unat (PDX va) \<noteq> UVPT_index" using va by simp
  have x: "x < 1048576" "x \<noteq> pd" using pgdir_okD [OF pok] by (auto simp: free_pages_def)
  note N = spaces_ok_new_table [OF ok' pd va np, folded u_def]
  have pde: "pde_at u pd va = table_pde x" using x by (simp add: u_def pde_at_def new_table_slot)
  have walk: "run (pgdir_walk pd va 1) s = (Ret (Some (frame_of (pde_at u pd va), unat (PTX va))), u)"
    using walk_create [OF pok np] x pde by (simp add: xs u_def)
  have view: "entry u pd va' = entry s pd va'" if "unat (PDX va') \<noteq> UVPT_index" for va'
    unfolding u_def by (rule new_table_entry [OF pok np uvpt that])
  have e: "entry u pd va = ?e" "?e = 0" using view [OF uvpt] np by (simp_all add: entry_def)
  have pp': "pp \<notin> set ys" "client_page u D pp" and ppx: "pp \<noteq> x" using pp N(4) by (auto simp: xs)
  have ref: "pages u pp = pages s pp" using ppx by (simp add: u_def new_table_def)
  have P: "present (pde_at u pd va)" by (simp add: pde)
  obtain t zs where t: "run (insert_tail pd pp va perm (frame_of (pde_at u pd va), unat (PTX va))) u = (Ret 0, t)"
    "inserted u D pd ys va (page2pa pp OR perm OR PTE_P) t zs" "own t pd = own u pd"
    "\<And>y. client_page t D y = client_page u D y" "length ys \<le> length zs"
    using space_insert_tail [OF N(1) pd va P pp' _ perm] small ref by auto
  note T = t(2) [unfolded inserted_def e(1)]
  have mem: "pmem u f = pmem s f" if "f \<notin> own s pd" "f \<notin> set xs" for f
    using that x by (auto simp: u_def new_table_pmem own_def xs)
  have slots: "pmem u pd d = (if d = unat (PDX va) then table_pde x else pmem s pd d)" for d
    using x by (simp add: u_def new_table_slot)
  have W: "table_pde x AND PTE_W \<noteq> 0"
  proof
    assume "table_pde x AND PTE_W = 0"
    then have "\<not> bit (table_pde x AND PTE_W) 1" by simp
    then show False by (simp add: table_pde_def bit_simps)
  qed
  have "inserted s D pd xs va (page2pa pp OR perm OR PTE_P) t zs"
    unfolding inserted_def
  proof (intro conjI allI ballI impI)
    show "spaces_ok t zs D" using T by blast
    show "entry t pd va' = (if PGNUM va' = PGNUM va then page2pa pp OR perm OR PTE_P else entry s pd va')"
      if "unat (PDX va') \<noteq> UVPT_index" for va' using T view that by simp
    show "total_uses t D z + of_bool (present ?e \<and> frame_of ?e = z) = total_uses s D z + of_bool (frame_of (page2pa pp OR perm OR PTE_P) = z)" for z
      using T N(5) [of z] by simp
    show "client_page t D y" if "client_page s D y" "y \<notin> set xs" for y using that N(4) t(4) by (auto simp: xs)
    show "own t pd \<subseteq> own s pd \<union> set xs" using N(2) t(3) by (auto simp: xs)
    show "own t pd' = own s pd'" if "pd' \<in> D" "pd' \<noteq> pd" for pd' using T N(3) that by simp
    show "pmem t f = pmem s f" if "f \<notin> own s pd" "f \<notin> set xs" for f
    proof -
      have "f \<notin> own u pd" "f \<notin> set ys" using that N(2) by (auto simp: xs)
      then show ?thesis using T mem [OF that] by simp
    qed
    show "set zs \<subseteq> set xs \<union> {y. present ?e \<and> y = frame_of ?e}" using T by (auto simp: xs)
    show "length xs \<le> length zs + of_bool (\<not> present (pde_at s pd va))" using t(5) np by (simp add: xs)
    show "pmem t pd d = pmem s pd d \<or> pmem t pd d AND PTE_W \<noteq> 0 \<and> d = unat (PDX va)" if "d < UTOP_index" for d
      using T slots [of d] that W by (metis (no_types, lifting))
  qed
  then show ?thesis using walk t(1) by (intro exI [of _ t] exI [of _ zs]) (simp add: page_insert_tail)
qed

end
