(* ===== verification/ElfImage.thy ===== *)
theory ElfImage
  imports SpaceOps
begin

text \<open>
  A well-formed ELF image, as \<open>load_icode\<close> reads it: what its comment takes for granted of the
  file. The image is given by a byte reader \<open>B\<close> and the set \<open>R\<close> of the addresses that may be read, so
  that the same image can be looked at in physical memory and through a page directory.
\<close>

section \<open>Words\<close>

definition word16_at :: "(u32 \<Rightarrow> u8) \<Rightarrow> u32 \<Rightarrow> u16" where
  "word16_at B a = (ucast (B a) OR push_bit 8 (ucast (B (a + 1))))"

definition word32_at :: "(u32 \<Rightarrow> u8) \<Rightarrow> u32 \<Rightarrow> u32" where
  "word32_at B a = (ucast (word16_at B a) OR push_bit 16 (ucast (word16_at B (a + 2))))"

definition all_readable :: "(u32 \<Rightarrow> bool) \<Rightarrow> u32 \<Rightarrow> nat \<Rightarrow> bool" where
  "all_readable R a n \<longleftrightarrow> (\<forall>i < n. R (a + of_nat i))"

lemma all_readable_part: "all_readable R a n \<Longrightarrow> m + k \<le> n \<Longrightarrow> all_readable R (a + of_nat m) k"
  unfolding all_readable_def
proof (intro allI impI)
  fix i
  assume "\<forall>i < n. R (a + of_nat i)" "m + k \<le> n" "i < k"
  then have "m + i < n" "\<forall>i < n. R (a + of_nat i)" by simp_all
  then have "R (a + of_nat (m + i))" by blast
  then show "R (a + of_nat m + of_nat i)" by (simp add: add.assoc)
qed

section \<open>Segments\<close>

abbreviation (input) ph_type :: "(u32 \<Rightarrow> u8) \<Rightarrow> u32 \<Rightarrow> u32" where "ph_type B ph \<equiv> word32_at B (ph + off_p_type)"
abbreviation (input) ph_offset :: "(u32 \<Rightarrow> u8) \<Rightarrow> u32 \<Rightarrow> u32" where "ph_offset B ph \<equiv> word32_at B (ph + off_p_offset)"
abbreviation (input) ph_va :: "(u32 \<Rightarrow> u8) \<Rightarrow> u32 \<Rightarrow> u32" where "ph_va B ph \<equiv> word32_at B (ph + off_p_va)"
abbreviation (input) ph_filesz :: "(u32 \<Rightarrow> u8) \<Rightarrow> u32 \<Rightarrow> u32" where "ph_filesz B ph \<equiv> word32_at B (ph + off_p_filesz)"
abbreviation (input) ph_memsz :: "(u32 \<Rightarrow> u8) \<Rightarrow> u32 \<Rightarrow> u32" where "ph_memsz B ph \<equiv> word32_at B (ph + off_p_memsz)"

definition elf_segment_ok :: "(u32 \<Rightarrow> bool) \<Rightarrow> (u32 \<Rightarrow> u8) \<Rightarrow> u32 \<Rightarrow> u32 \<Rightarrow> bool" where
  "elf_segment_ok R B binary ph \<longleftrightarrow> all_readable R ph 32 \<and>
     (ph_type B ph = ELF_PROG_LOAD \<longrightarrow>
        unat (ph_va B ph) + unat (ph_memsz B ph) \<le> unat (USTACKTOP - PGSIZE) \<and> ph_filesz B ph \<le> ph_memsz B ph \<and>
        all_readable R (binary + ph_offset B ph) (unat (ph_filesz B ph)))"

definition elf_segment_pages :: "(u32 \<Rightarrow> u8) \<Rightarrow> u32 \<Rightarrow> nat set" where
  "elf_segment_pages B ph =
     (if ph_type B ph = ELF_PROG_LOAD \<and> ph_memsz B ph \<noteq> 0
      then {unat (PGNUM (ph_va B ph))..<unat (PGNUM (ph_va B ph)) + pages_touched (ph_va B ph) (ph_memsz B ph)} else {})"

definition elf_segment_size :: "(u32 \<Rightarrow> u8) \<Rightarrow> u32 \<Rightarrow> nat" where
  "elf_segment_size B ph = (if ph_type B ph = ELF_PROG_LOAD then pages_touched (ph_va B ph) (ph_memsz B ph) else 0)"

text \<open>
  The segment's bytes, and zeros after them, in an address space that maps the addresses \<open>M\<close> and
  holds the bytes \<open>U\<close>.
\<close>

definition elf_segment_loaded :: "(u32 \<Rightarrow> u8) \<Rightarrow> (u32 \<Rightarrow> bool) \<Rightarrow> (u32 \<Rightarrow> u8) \<Rightarrow> u32 \<Rightarrow> u32 \<Rightarrow> bool" where
  "elf_segment_loaded B M U binary ph \<longleftrightarrow> (ph_type B ph = ELF_PROG_LOAD \<longrightarrow>
     (\<forall>i < unat (ph_memsz B ph).
        let a = ph_va B ph + of_nat i
        in M a \<and> U a = (if i < unat (ph_filesz B ph) then B (binary + ph_offset B ph + of_nat i) else 0)))"

section \<open>Images\<close>

abbreviation (input) header :: "u32 \<Rightarrow> nat \<Rightarrow> u32" where
  "header ph k \<equiv> ph + of_nat (32 * k)"

abbreviation (input) elf_phnum :: "(u32 \<Rightarrow> u8) \<Rightarrow> u32 \<Rightarrow> nat" where "elf_phnum B binary \<equiv> unat (word16_at B (binary + off_e_phnum))"

definition elf_header :: "(u32 \<Rightarrow> u8) \<Rightarrow> u32 \<Rightarrow> nat \<Rightarrow> u32" where
  "elf_header B binary k = header (binary + word32_at B (binary + off_e_phoff)) k"

definition elf_ok :: "(u32 \<Rightarrow> bool) \<Rightarrow> (u32 \<Rightarrow> u8) \<Rightarrow> u32 \<Rightarrow> bool" where
  "elf_ok R B binary \<longleftrightarrow>
     binary \<noteq> 0 \<and> all_readable R binary 52 \<and> word32_at B (binary + off_e_magic) = ELF_MAGIC \<and>
     unat (elf_header B binary 0) + 32 * elf_phnum B binary < 2 ^ 32 \<and>
     (\<forall>k < elf_phnum B binary. elf_segment_ok R B binary (elf_header B binary k)) \<and>
     (\<forall>j < elf_phnum B binary. \<forall>k < elf_phnum B binary. j \<noteq> k \<longrightarrow>
        elf_segment_pages B (elf_header B binary j) \<inter> elf_segment_pages B (elf_header B binary k) = {})"

definition elf_pages :: "(u32 \<Rightarrow> u8) \<Rightarrow> u32 \<Rightarrow> nat" where
  "elf_pages B binary = (\<Sum>k < elf_phnum B binary. elf_segment_size B (elf_header B binary k))"

definition elf_loaded :: "(u32 \<Rightarrow> u8) \<Rightarrow> (u32 \<Rightarrow> bool) \<Rightarrow> (u32 \<Rightarrow> u8) \<Rightarrow> u32 \<Rightarrow> bool" where
  "elf_loaded B M U binary \<longleftrightarrow> (\<forall>k < elf_phnum B binary. elf_segment_loaded B M U binary (elf_header B binary k))"

section \<open>The same image through two readers\<close>

text \<open>Where \<open>R\<close> lets one read, the other reader may read as well, and reads the same.\<close>

definition sees :: "(u32 \<Rightarrow> bool) \<Rightarrow> (u32 \<Rightarrow> u8) \<Rightarrow> (u32 \<Rightarrow> bool) \<Rightarrow> (u32 \<Rightarrow> u8) \<Rightarrow> bool" where
  "sees R B R' B' \<longleftrightarrow> (\<forall>a. R a \<longrightarrow> R' a \<and> B' a = B a)"

lemma sees_word:
  assumes "sees R B R' B'" and "all_readable R a n"
  shows "all_readable R' a n" "2 \<le> n \<Longrightarrow> word16_at B' a = word16_at B a" "4 \<le> n \<Longrightarrow> word32_at B' a = word32_at B a"
proof -
  have b: "B' (a + of_nat i) = B (a + of_nat i)" if "i < n" for i
    using assms that by (simp add: sees_def all_readable_def)
  show "all_readable R' a n" using assms by (simp add: sees_def all_readable_def)
  show "word16_at B' a = word16_at B a" if "2 \<le> n"
    using b [of 0] b [of 1] that by (simp add: word16_at_def)
  show "word32_at B' a = word32_at B a" if "4 \<le> n"
    using b [of 0] b [of 1] b [of 2] b [of 3] that by (simp add: word32_at_def word16_at_def add.assoc)
qed

lemma sees_field:
  assumes "sees R B R' B'" and "all_readable R a n" and "m + 4 \<le> n"
  shows "word32_at B' (a + of_nat m) = word32_at B (a + of_nat m)"
  by (rule sees_word(3) [OF assms(1) all_readable_part [OF assms(2,3)]]) simp

lemma sees_segment:
  assumes ag: "sees R B R' B'" and seg: "elf_segment_ok R B binary ph"
  shows "elf_segment_ok R' B' binary ph" "elf_segment_pages B' ph = elf_segment_pages B ph"
    and "elf_segment_size B' ph = elf_segment_size B ph"
    and "elf_segment_loaded B' M U binary ph = elf_segment_loaded B M U binary ph"
proof -
  have h: "all_readable R ph 32" using seg by (simp add: elf_segment_ok_def)
  note f = sees_field [OF ag h, of 0, simplified] sees_field [OF ag h, of 4, simplified]
    sees_field [OF ag h, of 8, simplified] sees_field [OF ag h, of 16, simplified] sees_field [OF ag h, of 20, simplified]
  show "elf_segment_ok R' B' binary ph" using seg sees_word(1) [OF ag] by (simp add: elf_segment_ok_def f)
  show "elf_segment_pages B' ph = elf_segment_pages B ph" "elf_segment_size B' ph = elf_segment_size B ph"
    by (simp_all add: elf_segment_pages_def elf_segment_size_def f)
  have "B' (binary + ph_offset B ph + of_nat i) = B (binary + ph_offset B ph + of_nat i)"
    if "ph_type B ph = ELF_PROG_LOAD" "i < unat (ph_filesz B ph)" for i
    using seg that ag by (simp add: elf_segment_ok_def all_readable_def sees_def)
  then show "elf_segment_loaded B' M U binary ph = elf_segment_loaded B M U binary ph"
    by (simp add: elf_segment_loaded_def Let_def f cong: if_cong)
qed

lemma sees_image:
  assumes ag: "sees R B R' B'" and img: "elf_ok R B binary"
  shows "elf_ok R' B' binary" "elf_pages B' binary = elf_pages B binary" "elf_phnum B' binary = elf_phnum B binary"
    and "word32_at B' (binary + off_e_entry) = word32_at B (binary + off_e_entry)" "elf_header B' binary k = elf_header B binary k"
    and "elf_loaded B' M U binary = elf_loaded B M U binary"
proof -
  have h: "all_readable R binary 52" using img by (simp add: elf_ok_def)
  note f = sees_field [OF ag h, of 0, simplified] sees_field [OF ag h, of 24, simplified] sees_field [OF ag h, of 28, simplified]
  have n: "word16_at B' (binary + 44) = word16_at B (binary + 44)"
    using sees_word(2) [OF ag all_readable_part [OF h, of 44 2]] by simp
  show ph: "elf_header B' binary k = elf_header B binary k" for k by (simp add: elf_header_def f)
  show "elf_phnum B' binary = elf_phnum B binary" "word32_at B' (binary + off_e_entry) = word32_at B (binary + off_e_entry)"
    by (simp_all add: n f)
  have S: "elf_segment_ok R B binary (elf_header B binary k)" if "k < elf_phnum B binary" for k
    using img that by (simp add: elf_ok_def)
  note seg = sees_segment [OF ag S]
  show "elf_ok R' B' binary"
    using img seg(1,2) sees_word(1) [OF ag h] unfolding elf_ok_def ph n by (simp add: f)
  show "elf_pages B' binary = elf_pages B binary" using seg(3) by (simp add: elf_pages_def ph n)
  show "elf_loaded B' M U binary = elf_loaded B M U binary" using seg(4) by (simp add: elf_loaded_def ph n)
qed

end
