(* ===== verification/Loader.thy ===== *)
theory Loader
  imports ElfImage Sched
begin

text \<open>
  Loading a program: \<open>region_alloc\<close>, the byte loops over the new pages, \<open>load_icode\<close> and
  \<open>env_create\<close>. While a program is loaded the new address space maps every page once, for writing,
  and takes all its pages from the free list; so what the loader writes is what the program reads,
  and nothing else in memory changes.
\<close>

section \<open>The rest of the state\<close>

definition beyond :: "kstate \<Rightarrow> kstate" where
  "beyond s = s\<lparr>pmem := \<lambda>f i. 0, pages := \<lambda>p. \<lparr>pp_link = None, pp_ref = 0\<rparr>, page_free_list := None, invlpgs := []\<rparr>"

lemma beyond_sel:
  assumes "beyond t = beyond s"
  shows "envs t = envs s" "cr3 t = cr3 s" "npages t = npages s" "kern_pgdir t = kern_pgdir s"
    and "env_free_list t = env_free_list s" "cpus t = cpus s" "cpunum t = cpunum s" "console t = console s"
  using assms [THEN arg_cong, of envs] assms [THEN arg_cong, of cr3] assms [THEN arg_cong, of npages]
    assms [THEN arg_cong, of kern_pgdir] assms [THEN arg_cong, of env_free_list] assms [THEN arg_cong, of cpus]
    assms [THEN arg_cong, of cpunum] assms [THEN arg_cong, of console]
  by (simp_all add: beyond_def)

lemma beyond_upd [keeps_rules]:
  "keeps beyond (modify (upd_page p g))" "keeps beyond (modify (store_word f i w))" "keeps beyond (modify (fill_frame f w))"
  "keeps beyond (invlpg va)" "keeps beyond (modify (push_free p))" "keeps beyond (store_pte q w)"
  "keeps beyond (modify (\<lambda>s. store_word (f' s) (i' s) (w' s) s))"
  by (simp_all add: keeps_modify invlpg_def push_free_def store_pte_def beyond_def upd_page_def store_word_def fill_frame_def)

lemma beyond_page_alloc [keeps_rules]: "keeps beyond (page_alloc flags)" "keeps beyond (page_decref pp)"
  unfolding page_alloc_def page_decref_def page_free_def Let_def
  by (intro keeps_rules keeps_modify; simp add: beyond_def upd_page_def)+

lemma beyond_walk [keeps_rules]:
  "keeps beyond (pgdir_walk pgdir va create)" "keeps beyond (page_lookup pgdir va)" "keeps beyond (tlb_invalidate pgdir va)"
  unfolding pgdir_walk_def pte_ptr_def page_lookup_def load_pte_def tlb_invalidate_def Let_def
  by (intro keeps_rules)+

lemma beyond_map [keeps_rules]: "keeps beyond (page_remove pgdir va)" "keeps beyond (page_insert pgdir pp va perm)"
  unfolding page_remove_def page_insert_def load_pte_def by (intro keeps_rules)+

lemma beyond_bytes [keeps_rules]: "keeps beyond (load8 va)" "keeps beyond (store8 va b)"
  unfolding load8_def store8_def by (intro keeps_rules)+

section \<open>Bytes of an address space\<close>

definition user_byte :: "kstate \<Rightarrow> nat \<Rightarrow> u32 \<Rightarrow> u8" where
  "user_byte s pd va =
     byte_of (pmem s (frame_of (entry s pd va)) (unat (PGOFF va) div 4)) (unat (PGOFF va) mod 4)"

definition mapped :: "kstate \<Rightarrow> nat \<Rightarrow> u32 \<Rightarrow> bool" where
  "mapped s pd va \<longleftrightarrow> present (entry s pd va)"

lemma mapped_pde: "mapped s pd va \<Longrightarrow> present (pde_at s pd va)"
  by (auto simp: mapped_def entry_def split: if_splits)

lemma peek8_mapped:
  assumes "mapped s pd va" and "frame_of (cr3 s) = pd"
  shows "peek8 va s = Some (user_byte s pd va)"
  using assms mapped_pde [OF assms(1)]
  by (simp add: peek8_def translate_def Let_def user_byte_def entry_def pde_at_def mapped_def)

lemma user_va_iff: "user_va va \<longleftrightarrow> unat va < 4005560320"
  using div_less_iff_less_mult [of 4194304 "unat va" 955] by (simp add: unat_PDX)

lemma unat_PGOFF: "unat (PGOFF va) = unat va mod 4096"
  by (simp add: PGOFF_alt take_bit_eq_mod unat_mod)

text \<open>Two addresses with the same page and offset are the same.\<close>

lemma page_offset_eq: "PGNUM va = PGNUM va' \<Longrightarrow> unat (PGOFF va) = unat (PGOFF va') \<Longrightarrow> va = va'"
proof -
  assume "PGNUM va = PGNUM va'" "unat (PGOFF va) = unat (PGOFF va')"
  then have "unat va div 4096 = unat va' div 4096" "unat va mod 4096 = unat va' mod 4096"
    by (simp_all add: unat_PGOFF flip: unat_PGNUM)
  then show ?thesis by (metis div_mult_mod_eq word_unat_eq_iff)
qed

section \<open>The loader's invariant\<close>

text \<open>
  \<open>A\<close> are the pages the program may get: the directory and the free pages when loading began in
  the state \<open>s0\<close>.
\<close>

definition loading :: "kstate \<Rightarrow> nat set \<Rightarrow> nat set \<Rightarrow> nat \<Rightarrow> kstate \<Rightarrow> nat list \<Rightarrow> bool" where
  "loading s0 A D pd s xs \<longleftrightarrow>
     spaces_ok s xs D \<and> pd \<in> D \<and> set xs \<subseteq> A \<and> own s pd \<subseteq> A \<and> A \<inter> kernel_frames s0 = {} \<and>
     (\<forall>va. user_va va \<longrightarrow> mapped s pd va \<longrightarrow> frame_of (entry s pd va) \<in> A \<and> entry s pd va AND PTE_W \<noteq> 0) \<and>
     (\<forall>d < UTOP_index. present (pmem s pd d) \<longrightarrow> pmem s pd d AND PTE_W \<noteq> 0) \<and>
     (\<forall>va va'. user_va va \<longrightarrow> user_va va' \<longrightarrow> mapped s pd va \<longrightarrow> mapped s pd va' \<longrightarrow>
        frame_of (entry s pd va) = frame_of (entry s pd va') \<longrightarrow> PGNUM va = PGNUM va') \<and>
     (\<forall>f. f \<notin> A \<longrightarrow> pmem s f = pmem s0 f) \<and>
     (\<forall>pd'. pd' \<in> D \<longrightarrow> pd' \<noteq> pd \<longrightarrow> own s pd' = own s0 pd') \<and> beyond s = beyond s0"


lemma loadingD:
  assumes "loading s0 A D pd s xs"
  shows "spaces_ok s xs D" "pd \<in> D" "set xs \<subseteq> A" "own s pd \<subseteq> A" "A \<inter> kernel_frames s0 = {}"
    and "\<And>va. user_va va \<Longrightarrow> mapped s pd va \<Longrightarrow> frame_of (entry s pd va) \<in> A \<and> entry s pd va AND PTE_W \<noteq> 0"
    and "\<And>d. d < UTOP_index \<Longrightarrow> present (pmem s pd d) \<Longrightarrow> pmem s pd d AND PTE_W \<noteq> 0"
    and "\<And>va va'. user_va va \<Longrightarrow> user_va va' \<Longrightarrow> mapped s pd va \<Longrightarrow> mapped s pd va' \<Longrightarrow>
           frame_of (entry s pd va) = frame_of (entry s pd va') \<Longrightarrow> PGNUM va = PGNUM va'"
    and "\<And>f. f \<notin> A \<Longrightarrow> pmem s f = pmem s0 f" "\<And>pd'. pd' \<in> D \<Longrightarrow> pd' \<noteq> pd \<Longrightarrow> own s pd' = own s0 pd'"
    and "beyond s = beyond s0"
  using assms unfolding loading_def by blast+

lemma space_unused:
  assumes ok: "spaces_ok s (x # xs) D" and pd: "pd \<in> D" and va: "user_va va" and m: "mapped s pd va"
  shows "frame_of (entry s pd va) \<noteq> x"
  using space_mapped(2) [OF ok pd va] m by (auto simp: mapped_def)

lemma loading_insert:
  assumes L: "loading s0 A D pd s xs" and va: "user_va va" and len: "2 \<le> length xs"
    and perm: "perm < 4096" "perm AND PTE_W \<noteq> 0"
  shows "\<exists>x u t zs. run (page_alloc flags) s = (Ret (Some x), u) \<and> run (page_insert pd x va perm) u = (Ret 0, t)
    \<and> loading s0 A D pd t zs \<and> length xs \<le> length zs + 2 \<and> mapped t pd va
    \<and> (\<forall>va'. user_va va' \<longrightarrow> PGNUM va' \<noteq> PGNUM va \<longrightarrow> entry t pd va' = entry s pd va'
         \<and> (mapped s pd va' \<longrightarrow> user_byte t pd va' = user_byte s pd va'))
    \<and> (flags AND ALLOC_ZERO \<noteq> 0 \<longrightarrow> (\<forall>va'. PGNUM va' = PGNUM va \<longrightarrow> user_byte t pd va' = 0))"
proof -
  obtain x y ys where xs: "xs = x # y # ys"
    using len by (cases xs; cases "tl xs") auto
  note LD = loadingD [OF L]
  note ok = LD(1) [unfolded xs] and pd = LD(2)
  define u where "u = taken x (flags AND ALLOC_ZERO \<noteq> 0) s"
  have run_a: "run (page_alloc flags) s = (Ret (Some x), u)"
    and P: "spaces_ok u (y # ys) D" "client_page u D x" "x \<notin> set (y # ys)" "pp_ref (pages s x) = 0"
      "\<And>pd. pd \<in> D \<Longrightarrow> own u pd = own s pd"
      "\<And>d i. d < UTOP_index \<Longrightarrow> i < 1024 \<Longrightarrow> slot_entry u pd d i = slot_entry s pd d i"
    unfolding u_def
    by (rule spaces_page_alloc(1) [OF ok] spaces_page_alloc(2) [OF ok] spaces_page_alloc(3) [OF ok] spaces_page_alloc(4) [OF ok]
        spaces_page_alloc(5) [OF ok] spaces_page_alloc(8) [OF ok] spaces_page_alloc(9) [OF ok pd]; assumption?)+
  have small: "unat (pp_ref (pages u x)) + 1 < 65536" using P(4) by (simp add: u_def)
  obtain t zs where t: "run (page_insert pd x va perm) u = (Ret 0, t)"
    "inserted u D pd (y # ys) va (page2pa x OR perm OR PTE_P) t zs"
    using space_insert [OF P(1) pd va _ P(3) P(2) small perm(1)] by auto
  note T = t(2) [unfolded inserted_def]
  let ?w = "page2pa x OR perm OR PTE_P"
  have pok: "pgdir_ok s pd xs" using spaces_okD(4) [OF LD(1) pd] .
  have x: "x < 1048576" "x \<noteq> pd" "x \<notin> own s pd"
    using pgdir_okD [OF pok] own_frames(2) [OF LD(1) pd, of x] by (auto simp: free_pages_def xs)
  have uvpt: "unat (PDX va) \<noteq> UVPT_index" if "user_va va" for va using that by simp
  have ue: "entry u pd va' = entry s pd va'" if "user_va va'" for va'
    using P(6) [OF that, of "unat (PTX va')"] by (simp add: entry_slot)
  have te: "entry t pd va' = (if PGNUM va' = PGNUM va then ?w else entry s pd va')" if "user_va va'" for va'
    using T ue [OF that] uvpt [OF that] by simp
  have w: "present ?w" "frame_of ?w = x" "?w AND PTE_W \<noteq> 0"
    using present_or_P(1) entry_word(1) [OF x(1) perm(1)] perm(2) by (simp_all add: bit.conj_disj_distrib2 or_eq_0_iff)
  have own_u: "own u pd = own s pd" by (rule P(5) [OF pd])
  have mem: "pmem t f = pmem u f" if "f \<notin> own s pd" "f \<noteq> y" "f \<notin> set ys" for f using T that by (simp add: own_u)
  have mem': "pmem t f = pmem s f" if "f \<notin> own s pd" "f \<notin> set xs" for f using mem [of f] that by (simp add: u_def xs)
  have fresh: "x \<noteq> y" "x \<notin> set ys" using P(3) by auto
  have A: "set zs \<subseteq> A"
    using T LD(3,6) va ue [OF va] by (auto simp: xs mapped_def)
  have slots: "pmem u pd d = pmem s pd d" for d using x(2) by (simp add: u_def)
  have old: "frame_of (entry s pd va') \<noteq> x" if "user_va va'" "mapped s pd va'" for va'
    by (rule space_unused [OF ok pd that])
  have "loading s0 A D pd t zs"
    unfolding loading_def
  proof (intro conjI allI impI)
    show "spaces_ok t zs D" using T by blast
    show "pd \<in> D" "set zs \<subseteq> A" "A \<inter> kernel_frames s0 = {}" by (fact pd A LD(5))+
    show "own t pd \<subseteq> A" using T LD(3,4) by (auto simp: own_u xs)
    show "frame_of (entry t pd va') \<in> A" "entry t pd va' AND PTE_W \<noteq> 0" if "user_va va'" "mapped t pd va'" for va'
      using that te [OF that(1)] w LD(3) LD(6) [OF that(1)] by (auto simp: xs mapped_def split: if_splits)
    show "pmem t pd d AND PTE_W \<noteq> 0" if "d < UTOP_index" "present (pmem t pd d)" for d
      using T LD(7) [OF that(1)] that slots by (metis (no_types, lifting))
    show "PGNUM va1 = PGNUM va2" if "user_va va1" "user_va va2" "mapped t pd va1" "mapped t pd va2"
      "frame_of (entry t pd va1) = frame_of (entry t pd va2)" for va1 va2
      using that te [OF that(1)] te [OF that(2)] LD(8) [OF that(1,2)] old [OF that(1)] old [OF that(2)] w(2)
      by (auto simp: mapped_def split: if_splits)
    show "pmem t f = pmem s0 f" if "f \<notin> A" for f using that LD(3,4,9) by (subst mem') auto
    show "own t pd' = own s0 pd'" if "pd' \<in> D" "pd' \<noteq> pd" for pd' using that T LD(10) P(5) by simp
    show "beyond t = beyond s0"
      using keepsD [OF beyond_page_alloc(1) run_a] keepsD [OF beyond_map(2) t(1)] LD(11) by simp
  qed
  moreover have "length xs \<le> length zs + 2"
  proof -
    have "length (y # ys) \<le> length zs + of_bool (\<not> present (pde_at u pd va))" using T by blast
    also have "\<dots> \<le> length zs + 1" by simp
    finally show ?thesis by (simp add: xs)
  qed
  moreover have "mapped t pd va" using te [OF va] w by (simp add: mapped_def)
  moreover have "user_byte t pd va' = user_byte s pd va'" if "user_va va'" "PGNUM va' \<noteq> PGNUM va" "mapped s pd va'" for va'
  proof -
    have "present (entry s pd va')" using that(3) by (simp add: mapped_def)
    note M = space_mapped [OF LD(1) pd that(1) this]
    have "frame_of (entry s pd va') \<notin> own s pd" using M(1) pd by (auto simp: client_page_def)
    then show ?thesis using te [OF that(1)] that(2) mem' [of "frame_of (entry s pd va')"] M(2) by (simp add: user_byte_def)
  qed
  moreover have "user_byte t pd va' = 0" if "flags AND ALLOC_ZERO \<noteq> 0" "PGNUM va' = PGNUM va" for va'
  proof -
    have "pmem t x = (\<lambda>_. 0)" using mem [OF x(3) fresh] that(1) by (simp add: u_def)
    moreover have "unat (PDX va') = unat (PDX va)" using that(2) by (simp add: PDX_PGNUM)
    then have "entry t pd va' = ?w" using te [of va'] that(2) va by simp
    ultimately show ?thesis using w(2) by (simp add: user_byte_def byte_of_def)
  qed
  ultimately show ?thesis
    using run_a t(1) te by (intro exI [of _ x] exI [of _ u] exI [of _ t] exI [of _ zs]) (simp cong: conj_cong)
qed


section \<open>\<open>region_alloc\<close>\<close>

text \<open>Pages \<open>p\<close> to \<open>p + n - 1\<close>.\<close>

abbreviation (input) in_pages :: "nat \<Rightarrow> nat \<Rightarrow> u32 \<Rightarrow> bool" where
  "in_pages p n a \<equiv> p \<le> unat (PGNUM a) \<and> unat (PGNUM a) < p + n"

definition kept_outside :: "kstate \<Rightarrow> kstate \<Rightarrow> nat \<Rightarrow> (u32 \<Rightarrow> bool) \<Rightarrow> bool" where
  "kept_outside s t pd R \<longleftrightarrow>
     (\<forall>va. user_va va \<longrightarrow> \<not> R va \<longrightarrow>
        entry t pd va = entry s pd va \<and> (mapped s pd va \<longrightarrow> user_byte t pd va = user_byte s pd va))"

lemma kept_outside_refl [simp]: "kept_outside s s pd R"
  by (simp add: kept_outside_def)

lemma kept_outside_trans:
  "kept_outside s t pd R \<Longrightarrow> kept_outside t u pd R' \<Longrightarrow> (\<And>va. R va \<or> R' va \<Longrightarrow> R'' va) \<Longrightarrow> kept_outside s u pd R''"
  unfolding kept_outside_def mapped_def by (metis (no_types, lifting))

lemma kept_outside_mapped: "kept_outside s t pd R \<Longrightarrow> user_va va \<Longrightarrow> \<not> R va \<Longrightarrow> mapped t pd va = mapped s pd va"
  by (simp add: kept_outside_def mapped_def)

lemma region_pages:
  assumes L: "loading s0 A D pd s xs" and pd: "env_pgdir (envs s0 e) = Some pd"
    and low: "unat (PGNUM start) + n \<le> 977920" and len: "2 * n \<le> length xs"
  shows "\<exists>t zs. run (forP [0..<n] (region_alloc_page e start)) s = (Ret (), t) \<and> loading s0 A D pd t zs
    \<and> length xs \<le> length zs + 2 * n
    \<and> (\<forall>va. in_pages (unat (PGNUM start)) n va \<longrightarrow> mapped t pd va)
    \<and> kept_outside s t pd (in_pages (unat (PGNUM start)) n)"
  using low len
proof (induction n)
  case 0
  then show ?case using L by (intro exI [of _ s] exI [of _ xs]) (auto simp: prog_simps)
next
  case (Suc n)
  let ?p = "unat (PGNUM start)"
  obtain t zs where t: "run (forP [0..<n] (region_alloc_page e start)) s = (Ret (), t)" "loading s0 A D pd t zs"
    "length xs \<le> length zs + 2 * n" "\<And>va. in_pages ?p n va \<Longrightarrow> mapped t pd va" "kept_outside s t pd (in_pages ?p n)"
    using Suc by auto
  let ?va = "start + of_nat n * PGSIZE"
  have P: "unat (PGNUM ?va) = ?p + n" using Suc.prems(1) by (simp add: PGNUM_step)
  have page: "PGNUM va = PGNUM ?va \<longleftrightarrow> unat (PGNUM va) = ?p + n" for va using P by (metis word_unat_eq_iff)
  have va: "user_va ?va" using P Suc.prems(1) by (simp add: PDX_PGNUM div_less_iff_less_mult)
  have len: "2 \<le> length zs" using t(3) Suc.prems(2) by simp
  obtain x u v ws where v: "run (page_alloc 0) t = (Ret (Some x), u)"
    "run (page_insert pd x ?va (PTE_P OR PTE_W OR PTE_U)) u = (Ret 0, v)" "loading s0 A D pd v ws"
    "length zs \<le> length ws + 2" "mapped v pd ?va"
    "\<And>va'. user_va va' \<Longrightarrow> PGNUM va' \<noteq> PGNUM ?va \<Longrightarrow> entry v pd va' = entry t pd va'
       \<and> (mapped t pd va' \<longrightarrow> user_byte v pd va' = user_byte t pd va')"
    using loading_insert [OF t(2) va len, of "PTE_P OR PTE_W OR PTE_U" 0] by auto
  have "envs u = envs s0"
    using beyond_sel(1) [OF keepsD [OF beyond_page_alloc(1) v(1)]] beyond_sel(1) [OF loadingD(11) [OF t(2)]] by simp
  then have step: "run (region_alloc_page e start n) t = (Ret (), v)"
    using v(1,2) pd by (simp add: region_alloc_page_def prog_simps)
  have "kept_outside t v pd (in_pages (?p + n) 1)"
    using v(6) page by (auto simp: kept_outside_def)
  then have kept: "kept_outside s v pd (in_pages ?p (Suc n))"
    by (rule kept_outside_trans [OF t(5)]) auto
  have map: "mapped v pd va" if "in_pages ?p (Suc n) va" for va
  proof (cases "unat (PGNUM va) = ?p + n")
    case True
    then have "PGNUM va = PGNUM ?va" using page by simp
    then have "entry v pd va = entry v pd ?va" by (simp add: entry_def pde_at_def PGNUM_page_index)
    then show ?thesis using v(5) by (simp add: mapped_def)
  next
    case False
    have "user_va va" using that Suc.prems(1) by (simp add: PDX_PGNUM div_less_iff_less_mult)
    then show ?thesis using v(6) [of va] t(4) [of va] that False page by (simp add: mapped_def)
  qed
  show ?case
    using t(1,3) step v(3,4) kept map
    by (intro exI [of _ v] exI [of _ ws]) (simp add: prog_simps)
qed

lemma region_alloc_loading:
  assumes L: "loading s0 A D pd s xs" and pd: "env_pgdir (envs s0 e) = Some pd"
    and low: "unat va + unat len \<le> 4005556224" and free: "2 * pages_touched va len \<le> length xs"
  shows "\<exists>t zs. run (region_alloc e va len) s = (Ret (), t) \<and> loading s0 A D pd t zs
    \<and> length xs \<le> length zs + 2 * pages_touched va len
    \<and> (\<forall>a. unat va \<le> unat a \<and> unat a < unat va + unat len \<longrightarrow> mapped t pd a)
    \<and> kept_outside s t pd (\<lambda>a. len \<noteq> 0 \<and> in_pages (unat (PGNUM va)) (pages_touched va len) a)"
proof (cases "len = 0")
  case True
  then show ?thesis using L by (intro exI [of _ s] exI [of _ xs]) (auto simp: region_alloc_def prog_simps)
next
  case False
  then have pos: "0 < unat len" by (metis gr0I unsigned_eq_0_iff)
  have n: "pages_touched va len = (unat va + unat len - 1) div 4096 + 1 - unat va div 4096"
    using low False by (intro pages_touched_eq) simp_all
  have down: "PGNUM (ROUNDDOWN va 4096) = PGNUM va"
    by (simp add: word_unat_eq_iff unat_PGNUM unat_ROUNDDOWN)
  have hi: "(unat va + unat len - 1) div 4096 \<le> 977919" using low pos by linarith
  moreover have "unat va div 4096 \<le> (unat va + unat len - 1) div 4096" using pos by (intro div_le_mono) simp
  ultimately have "unat (PGNUM (ROUNDDOWN va 4096)) + pages_touched va len \<le> 977920" by (simp add: down n unat_PGNUM)
  from region_pages [OF L pd this free] obtain t zs where t:
    "run (forP [0..<pages_touched va len] (region_alloc_page e (ROUNDDOWN va 4096))) s = (Ret (), t)"
    "loading s0 A D pd t zs" "length xs \<le> length zs + 2 * pages_touched va len"
    "\<And>a. in_pages (unat (PGNUM va)) (pages_touched va len) a \<Longrightarrow> mapped t pd a"
    "kept_outside s t pd (in_pages (unat (PGNUM va)) (pages_touched va len))"
    unfolding down by auto
  have "mapped t pd a" if "unat va \<le> unat a" "unat a < unat va + unat len" for a
  proof (rule t(4))
    have "unat va div 4096 \<le> unat a div 4096" using that(1) by (rule div_le_mono)
    moreover have "unat a div 4096 \<le> (unat va + unat len - 1) div 4096" using that(2) by (intro div_le_mono) simp
    ultimately show "in_pages (unat (PGNUM va)) (pages_touched va len) a" by (simp add: n unat_PGNUM)
  qed
  then show ?thesis
    using t False by (intro exI [of _ t] exI [of _ zs]) (simp add: region_alloc_def Let_def pages_touched_def)
qed


section \<open>Storing bytes\<close>

lemma translate_mapped:
  assumes "mapped s pd va" and "frame_of (cr3 s) = pd" and "pde_at s pd va AND PTE_W \<noteq> 0" and "entry s pd va AND PTE_W \<noteq> 0"
  shows "translate True va s = Some (frame_of (entry s pd va))"
  using assms mapped_pde [OF assms(1)]
  by (simp add: translate_def Let_def entry_def pde_at_def mapped_def)

lemma store8_loading:
  assumes L: "loading s0 A D pd s xs" and cr3: "frame_of (cr3 s0) = pd" and va: "user_va va" and m: "mapped s pd va"
  shows "\<exists>t. run (store8 va b) s = (Ret (), t) \<and> loading s0 A D pd t xs
    \<and> (\<forall>a. user_va a \<longrightarrow> entry t pd a = entry s pd a
         \<and> (mapped s pd a \<longrightarrow> user_byte t pd a = (if a = va then b else user_byte s pd a)))"
proof -
  note LD = loadingD [OF L]
  let ?f = "frame_of (entry s pd va)" and ?i = "unat (PGOFF va) div 4" and ?n = "unat (PGOFF va) mod 4"
  let ?t = "store_word ?f ?i (with_byte (pmem s ?f ?i) ?n b) s"
  have P: "present (entry s pd va)" using m by (simp add: mapped_def)
  note M = space_mapped [OF LD(1) LD(2) va P]
  have fA: "?f \<in> A" and W: "entry s pd va AND PTE_W \<noteq> 0" using LD(6) [OF va m] by auto
  have "pde_at s pd va AND PTE_W \<noteq> 0"
    using LD(7) [OF va] mapped_pde [OF m] by (simp add: pde_at_def)
  then have "translate True va s = Some ?f"
    using m cr3 beyond_sel(2) [OF LD(11)] W by (intro translate_mapped) simp_all
  then have run: "run (store8 va b) s = (Ret (), ?t)" by (simp add: store8_def prog_simps)
  have mem: "pmem ?t f = pmem s f" if "\<not> client_page s D f" for f using that M(1) by auto
  note F = spaces_ok_frames [OF LD(1) mem]
  have e: "entry ?t pd a = entry s pd a" if "user_va a" for a
    using F(5) [where pd = pd and d = "unat (PDX a)" and i = "unat (PTX a)"] LD(2) that by (simp add: entry_slot)
  have fpd: "?f \<noteq> pd" using M(1) LD(2) by (auto simp: client_page_def own_def)
  have "loading s0 A D pd ?t xs"
    unfolding loading_def
  proof (intro conjI allI impI)
    show "spaces_ok ?t xs D" using F(1) by simp
    show "pd \<in> D" "set xs \<subseteq> A" "A \<inter> kernel_frames s0 = {}" by (fact LD)+
    show "own ?t pd \<subseteq> A" using F(3) [where pd = pd] LD(2,4) by simp
    show "frame_of (entry ?t pd a) \<in> A" "entry ?t pd a AND PTE_W \<noteq> 0" if "user_va a" "mapped ?t pd a" for a
      using that LD(6) [OF that(1)] by (simp_all add: e mapped_def)
    show "pmem ?t pd d AND PTE_W \<noteq> 0" if "d < UTOP_index" "present (pmem ?t pd d)" for d
      using that LD(7) fpd by simp
    show "PGNUM a = PGNUM a'" if "user_va a" "user_va a'" "mapped ?t pd a" "mapped ?t pd a'"
      "frame_of (entry ?t pd a) = frame_of (entry ?t pd a')" for a a'
      using that(3-5) by (intro LD(8) that(1,2)) (simp_all add: e that(1,2) mapped_def)
    show "pmem ?t f = pmem s0 f" if "f \<notin> A" for f using that fA LD(9) by auto
    show "own ?t pd' = own s0 pd'" if "pd' \<in> D" "pd' \<noteq> pd" for pd' using that F(3) [where pd = pd'] LD(10) by simp
    show "beyond ?t = beyond s0" using LD(11) by (simp add: beyond_def store_word_def)
  qed
  moreover have "user_byte ?t pd a = (if a = va then b else user_byte s pd a)" if a: "user_va a" "mapped s pd a" for a
  proof (cases "frame_of (entry s pd a) = ?f \<and> unat (PGOFF a) div 4 = ?i")
    case True
    then have page: "PGNUM a = PGNUM va" using LD(8) [OF a(1) va a(2) m] by simp
    have "a = va" if "unat (PGOFF a) mod 4 = ?n"
    proof (rule page_offset_eq [OF page])
      have "unat (PGOFF a) = 4 * (unat (PGOFF a) div 4) + unat (PGOFF a) mod 4" by simp
      then show "unat (PGOFF a) = unat (PGOFF va)" using that True by simp
    qed
    then show ?thesis using True by (auto simp: user_byte_def e [OF a(1)] byte_with_byte)
  next
    case False
    then have "a \<noteq> va" "pmem ?t (frame_of (entry s pd a)) (unat (PGOFF a) div 4) = pmem s (frame_of (entry s pd a)) (unat (PGOFF a) div 4)"
      by auto
    then show ?thesis by (simp add: user_byte_def e [OF a(1)])
  qed
  ultimately show ?thesis using run e by (intro exI [of _ ?t]) simp
qed

text \<open>A loop that stores the byte \<open>g i\<close> at offset \<open>i\<close>.\<close>

lemma store_loop:
  assumes L: "loading s0 A D pd s xs" and cr3: "frame_of (cr3 s0) = pd"
    and body: "\<And>i u. i < n \<Longrightarrow> loading s0 A D pd u xs \<Longrightarrow> run (body i) u = run (store8 (va + of_nat i) (g i)) u"
    and low: "unat va + n \<le> 4005560320"
    and m: "\<And>a. unat va \<le> unat a \<Longrightarrow> unat a < unat va + n \<Longrightarrow> mapped s pd a"
  shows "\<exists>t. run (forP [0..<n] body) s = (Ret (), t) \<and> loading s0 A D pd t xs
    \<and> (\<forall>a. user_va a \<longrightarrow> entry t pd a = entry s pd a
         \<and> (mapped s pd a \<longrightarrow> user_byte t pd a =
              (if unat va \<le> unat a \<and> unat a < unat va + n then g (unat a - unat va) else user_byte s pd a)))"
  using body low m
proof (induction n)
  case 0
  then show ?case using L by (intro exI [of _ s]) (auto simp: prog_simps)
next
  case (Suc n)
  have "\<exists>t. run (forP [0..<n] body) s = (Ret (), t) \<and> loading s0 A D pd t xs
      \<and> (\<forall>a. user_va a \<longrightarrow> entry t pd a = entry s pd a
         \<and> (mapped s pd a \<longrightarrow> user_byte t pd a =
              (if unat va \<le> unat a \<and> unat a < unat va + n then g (unat a - unat va) else user_byte s pd a)))"
    using Suc.prems by (intro Suc.IH) simp_all
  then obtain t where t: "run (forP [0..<n] body) s = (Ret (), t)" "loading s0 A D pd t xs"
      "\<And>a. user_va a \<Longrightarrow> entry t pd a = entry s pd a"
      "\<And>a. user_va a \<Longrightarrow> mapped s pd a \<Longrightarrow> user_byte t pd a =
              (if unat va \<le> unat a \<and> unat a < unat va + n then g (unat a - unat va) else user_byte s pd a)" by blast
  let ?a = "va + of_nat n"
  have un: "unat ?a = unat va + n"
    using Suc.prems(2) by (subst unat_add_small32) (simp_all add: unat_of_nat32)
  have ua: "user_va ?a" unfolding user_va_iff un using Suc.prems(2) by simp
  have "mapped s pd ?a" using Suc.prems(3) [of ?a] by (simp add: un)
  then have "mapped t pd ?a" using t(3) [OF ua] by (simp add: mapped_def)
  from store8_loading [OF t(2) cr3 ua this, of "g n"] obtain v where v:
    "run (store8 ?a (g n)) t = (Ret (), v)" "loading s0 A D pd v xs"
    "\<And>a. user_va a \<Longrightarrow> entry v pd a = entry t pd a"
    "\<And>a. user_va a \<Longrightarrow> mapped t pd a \<Longrightarrow> user_byte v pd a = (if a = ?a then g n else user_byte t pd a)" by blast
  have "run (forP [0..<Suc n] body) s = (Ret (), v)"
    using t(1) v(1) Suc.prems(1) [of n t] t(2) by (simp add: prog_simps)
  moreover have "user_byte v pd a = (if unat va \<le> unat a \<and> unat a < unat va + Suc n then g (unat a - unat va) else user_byte s pd a)"
    if a: "user_va a" "mapped s pd a" for a
  proof -
    have "mapped t pd a" using t(3) [OF a(1)] a(2) by (simp add: mapped_def)
    then have b: "user_byte v pd a = (if a = ?a then g n else user_byte t pd a)" by (rule v(4) [OF a(1)])
    have "a = ?a \<longleftrightarrow> unat a = unat va + n" using un by (metis word_unat_eq_iff)
    then show ?thesis using b t(4) [OF a] by (auto simp: less_Suc_eq)
  qed
  ultimately show ?case using v(2,3) t(3) by (intro exI [of _ v]) simp
qed

section \<open>Reading the image\<close>

text \<open>
  A byte of the image lies in kernel memory, in a page that is not one of those given to the
  program.
\<close>

definition readable :: "kstate \<Rightarrow> nat set \<Rightarrow> u32 \<Rightarrow> bool" where
  "readable s A a \<longleftrightarrow> UTOP_index \<le> unat (PDX a) \<and> unat (PDX a) \<noteq> UVPT_index \<and>
     mapped s (kern_pgdir s) a \<and> frame_of (entry s (kern_pgdir s) a) \<notin> A"

abbreviation kernel_byte :: "kstate \<Rightarrow> u32 \<Rightarrow> u8" where
  "kernel_byte s a \<equiv> user_byte s (kern_pgdir s) a"

lemma readable_entry:
  assumes L: "loading s0 A D pd s xs" and r: "readable s0 A a"
  shows "entry s pd a = entry s0 (kern_pgdir s0) a" "user_byte s pd a = kernel_byte s0 a"
proof -
  note LD = loadingD [OF L]
  let ?k = "kern_pgdir s0"
  have out: "pmem s f = pmem s0 f" if "f \<in> kernel_frames s0" for f using that LD(5,9) by blast
  have kp: "kern_pgdir s = ?k" using beyond_sel(4) [OF LD(11)] by simp
  have "pmem s pd (unat (PDX a)) = pmem s (kern_pgdir s) (unat (PDX a))"
    using spaces_okD(5) [OF LD(1,2)] r by (simp add: kernel_half_def readable_def)
  then have pde: "pde_at s pd a = pde_at s0 ?k a" using out [of ?k] by (simp add: pde_at_def kp kernel_frames_def)
  have P: "present (pde_at s0 ?k a)" using r mapped_pde by (simp add: readable_def)
  then have "frame_of (pde_at s0 ?k a) \<in> tables s0 ?k"
    using r by (auto simp: tables_def table_slots_def pde_at_def readable_def)
  then show e: "entry s pd a = entry s0 ?k a"
    using out P by (simp add: entry_def pde kernel_frames_def)
  have "frame_of (entry s0 ?k a) \<notin> A" using r by (simp add: readable_def)
  then show "user_byte s pd a = kernel_byte s0 a" using LD(9) by (simp add: user_byte_def e)
qed

lemma peek8_readable:
  assumes L: "loading s0 A D pd s xs" and cr3: "frame_of (cr3 s0) = pd" and r: "readable s0 A a"
  shows "peek8 a s = Some (kernel_byte s0 a)"
proof -
  have "mapped s pd a" using readable_entry(1) [OF L r] r by (simp add: readable_def mapped_def)
  then have "peek8 a s = Some (user_byte s pd a)"
    using cr3 beyond_sel(2) [OF loadingD(11) [OF L]] by (intro peek8_mapped) simp_all
  then show ?thesis using readable_entry(2) [OF L r] by simp
qed


text \<open>The image is read through the kernel's mappings.\<close>

abbreviation kernel_word16 :: "kstate \<Rightarrow> u32 \<Rightarrow> u16" where "kernel_word16 s \<equiv> word16_at (kernel_byte s)"
abbreviation kernel_word :: "kstate \<Rightarrow> u32 \<Rightarrow> u32" where "kernel_word s \<equiv> word32_at (kernel_byte s)"
abbreviation readable_range :: "kstate \<Rightarrow> nat set \<Rightarrow> u32 \<Rightarrow> nat \<Rightarrow> bool" where "readable_range s A \<equiv> all_readable (readable s A)"

lemma peek16_bytes: "peek8 a s = Some b \<Longrightarrow> peek8 (a + 1) s = Some c \<Longrightarrow> peek16 a s = Some (ucast b OR push_bit 8 (ucast c))"
  by (simp add: peek16_def)

lemma load_words:
  assumes "\<And>i. i < 4 \<Longrightarrow> peek8 (a + of_nat i) s = Some (kernel_byte s0 (a + of_nat i))"
  shows "run (load32 a) s = (Ret (kernel_word s0 a), s)"
proof -
  have b: "peek8 a s = Some (kernel_byte s0 a)" "peek8 (a + 1) s = Some (kernel_byte s0 (a + 1))"
    "peek8 (a + 2) s = Some (kernel_byte s0 (a + 2))" "peek8 (a + 2 + 1) s = Some (kernel_byte s0 (a + 2 + 1))"
    using assms [of 0] assms [of 1] assms [of 2] assms [of 3] by (simp_all add: add.assoc)
  have "peek16 a s = Some (kernel_word16 s0 a)" "peek16 (a + 2) s = Some (kernel_word16 s0 (a + 2))"
    unfolding word16_at_def by (intro peek16_bytes b)+
  then show ?thesis by (simp add: load32_def prog_simps peek32_def word32_at_def)
qed

lemma load8_image:
  assumes "loading s0 A D pd s xs" and "frame_of (cr3 s0) = pd" and "readable s0 A a"
  shows "run (load8 a) s = (Ret (kernel_byte s0 a), s)"
  using peek8_readable [OF assms] by (simp add: load8_def prog_simps)

lemma load32_image:
  assumes "loading s0 A D pd s xs" and "frame_of (cr3 s0) = pd" and "readable_range s0 A a 4"
  shows "run (load32 a) s = (Ret (kernel_word s0 a), s)"
  using assms(3) by (intro load_words peek8_readable [OF assms(1,2)]) (simp add: all_readable_def)

lemma load16_image:
  assumes "loading s0 A D pd s xs" and "frame_of (cr3 s0) = pd" and "readable_range s0 A a 2"
  shows "run (load16 a) s = (Ret (kernel_word16 s0 a), s)"
proof -
  have "readable s0 A a" "readable s0 A (a + 1)"
    using assms(3) by (auto simp: all_readable_def less_2_cases_iff)
  then have "peek16 a s = Some (kernel_word16 s0 a)"
    unfolding word16_at_def by (intro peek16_bytes peek8_readable [OF assms(1,2)])
  then show ?thesis by (simp add: load16_def prog_simps)
qed

section \<open>A segment\<close>

abbreviation (input) p_type :: "kstate \<Rightarrow> u32 \<Rightarrow> u32" where "p_type s ph \<equiv> kernel_word s (ph + off_p_type)"
abbreviation (input) p_offset :: "kstate \<Rightarrow> u32 \<Rightarrow> u32" where "p_offset s ph \<equiv> kernel_word s (ph + off_p_offset)"
abbreviation (input) p_va :: "kstate \<Rightarrow> u32 \<Rightarrow> u32" where "p_va s ph \<equiv> kernel_word s (ph + off_p_va)"
abbreviation (input) p_filesz :: "kstate \<Rightarrow> u32 \<Rightarrow> u32" where "p_filesz s ph \<equiv> kernel_word s (ph + off_p_filesz)"
abbreviation (input) p_memsz :: "kstate \<Rightarrow> u32 \<Rightarrow> u32" where "p_memsz s ph \<equiv> kernel_word s (ph + off_p_memsz)"

abbreviation segment_ok :: "kstate \<Rightarrow> nat set \<Rightarrow> u32 \<Rightarrow> u32 \<Rightarrow> bool" where
  "segment_ok s A \<equiv> elf_segment_ok (readable s A) (kernel_byte s)"

abbreviation segment_pages :: "kstate \<Rightarrow> u32 \<Rightarrow> nat set" where "segment_pages s \<equiv> elf_segment_pages (kernel_byte s)"
abbreviation segment_size :: "kstate \<Rightarrow> u32 \<Rightarrow> nat" where "segment_size s \<equiv> elf_segment_size (kernel_byte s)"

abbreviation segment_loaded :: "kstate \<Rightarrow> u32 \<Rightarrow> u32 \<Rightarrow> kstate \<Rightarrow> nat \<Rightarrow> bool" where
  "segment_loaded s binary ph t pd \<equiv> elf_segment_loaded (kernel_byte s) (mapped t pd) (user_byte t pd) binary ph"

lemma load_segment_loading:
  assumes L: "loading s0 A D pd s xs" and cr3: "frame_of (cr3 s0) = pd" and pd: "env_pgdir (envs s0 e) = Some pd"
    and seg: "segment_ok s0 A binary ph" and free: "2 * segment_size s0 ph \<le> length xs"
  shows "\<exists>t zs. run (load_segment e binary ph) s = (Ret (), t) \<and> loading s0 A D pd t zs
    \<and> length xs \<le> length zs + 2 * segment_size s0 ph \<and> segment_loaded s0 binary ph t pd
    \<and> kept_outside s t pd (\<lambda>a. unat (PGNUM a) \<in> segment_pages s0 ph)"
proof -
  have hdr: "readable_range s0 A ph 32" using seg by (simp add: elf_segment_ok_def)
  have field: "run (load32 (ph + of_nat m)) u = (Ret (kernel_word s0 (ph + of_nat m)), u)"
    if "loading s0 A D pd u us" "m + 4 \<le> 32" for u us m
    by (rule load32_image [OF that(1) cr3 all_readable_part [OF hdr that(2)]])
  note fields = field [of _ _ 0, simplified] field [of _ _ 4, simplified] field [of _ _ 8, simplified]
    field [of _ _ 16, simplified] field [of _ _ 20, simplified]
  show ?thesis
  proof (cases "p_type s0 ph = ELF_PROG_LOAD")
    case False
    then have "run (load_segment e binary ph) s = (Ret (), s)"
      using fields(1) [OF L] by (simp add: load_segment_def prog_simps)
    then show ?thesis
      using L False by (intro exI [of _ s] exI [of _ xs]) (simp add: elf_segment_loaded_def)
  next
    case True
    let ?va = "p_va s0 ph" and ?n = "p_memsz s0 ph" and ?k = "p_filesz s0 ph" and ?src = "binary + p_offset s0 ph"
    have low: "unat ?va + unat ?n \<le> 4005548032" and kn: "unat ?k \<le> unat ?n"
      and src: "readable_range s0 A ?src (unat ?k)"
      using seg True by (auto simp: elf_segment_ok_def word_le_nat_alt)
    obtain t zs where t: "run (region_alloc e ?va ?n) s = (Ret (), t)" "loading s0 A D pd t zs"
      "length xs \<le> length zs + 2 * pages_touched ?va ?n"
      "\<And>a. unat ?va \<le> unat a \<Longrightarrow> unat a < unat ?va + unat ?n \<Longrightarrow> mapped t pd a"
      "kept_outside s t pd (\<lambda>a. ?n \<noteq> 0 \<and> in_pages (unat (PGNUM ?va)) (pages_touched ?va ?n) a)"
      using region_alloc_loading [OF L pd, of ?va ?n] low free True by (auto simp: elf_segment_size_def)
    obtain u where u: "run (vmemset ?va 0 ?n) t = (Ret (), u)" "loading s0 A D pd u zs"
      "\<And>a. user_va a \<Longrightarrow> entry u pd a = entry t pd a"
      "\<And>a. user_va a \<Longrightarrow> mapped t pd a \<Longrightarrow> user_byte u pd a =
          (if unat ?va \<le> unat a \<and> unat a < unat ?va + unat ?n then 0 else user_byte t pd a)"
      using store_loop [OF t(2) cr3, of "unat ?n" "\<lambda>i. store8 (?va + of_nat i) 0" ?va "\<lambda>i. 0"] low t(4)
      unfolding vmemset_def by auto
    have mu: "mapped u pd a = mapped t pd a" if "user_va a" for a using u(3) [OF that] by (simp add: mapped_def)
    have ua: "user_va a" if "unat a < unat ?va + unat ?n" for a unfolding user_va_iff using that low by simp
    have body: "run (bindP (load8 (?src + of_nat i)) (\<lambda>b. store8 (?va + of_nat i) b)) w
        = run (store8 (?va + of_nat i) (kernel_byte s0 (?src + of_nat i))) w"
      if "i < unat ?k" "loading s0 A D pd w zs" for i w
      using load8_image [OF that(2) cr3, of "?src + of_nat i"] src that(1) by (simp add: all_readable_def prog_simps)
    obtain v where v: "run (vmemcpy ?va ?src ?k) u = (Ret (), v)" "loading s0 A D pd v zs"
      "\<And>a. user_va a \<Longrightarrow> entry v pd a = entry u pd a"
      "\<And>a. user_va a \<Longrightarrow> mapped u pd a \<Longrightarrow> user_byte v pd a =
          (if unat ?va \<le> unat a \<and> unat a < unat ?va + unat ?k then kernel_byte s0 (?src + of_nat (unat a - unat ?va))
           else user_byte u pd a)"
      using store_loop [OF u(2) cr3, of "unat ?k" _ ?va "\<lambda>i. kernel_byte s0 (?src + of_nat i)", OF body] low kn t(4) mu ua
      unfolding vmemcpy_def by auto
    have "run (load_segment e binary ph) s = (Ret (), v)"
      using fields(1,3,5) [OF L] t(1) fields(2) [OF t(2)] u(1) fields(4) [OF u(2)] v(1) True
      by (simp add: load_segment_def prog_simps)
    moreover have "segment_loaded s0 binary ph v pd"
      unfolding elf_segment_loaded_def Let_def
    proof (intro impI allI)
      fix i
      assume i: "i < unat ?n"
      let ?a = "?va + of_nat i"
      have un: "unat ?a = unat ?va + i"
        using i low by (subst unat_add_small32) (simp_all add: unat_of_nat32)
      have U: "user_va ?a" "mapped t pd ?a" using ua [of ?a] t(4) [of ?a] i by (simp_all add: un)
      then have "mapped u pd ?a" "mapped v pd ?a" using u(3) v(3) by (simp_all add: mapped_def)
      then show "mapped v pd ?a \<and> user_byte v pd ?a = (if i < unat ?k then kernel_byte s0 (?src + of_nat i) else 0)"
        using v(4) [OF U(1)] u(4) [OF U] i un by simp
    qed
    moreover have "kept_outside s v pd (\<lambda>a. unat (PGNUM a) \<in> segment_pages s0 ph)"
    proof -
      have out: "\<not> (unat ?va \<le> unat a \<and> unat a < unat ?va + unat ?n)"
        if "unat (PGNUM a) \<notin> segment_pages s0 ph" for a
      proof
        assume a: "unat ?va \<le> unat a \<and> unat a < unat ?va + unat ?n"
        then have n0: "?n \<noteq> 0" by auto
        have "pages_touched ?va ?n = (unat ?va + unat ?n - 1) div 4096 + 1 - unat ?va div 4096"
          using low n0 by (intro pages_touched_eq) simp_all
        moreover have "unat ?va div 4096 \<le> unat a div 4096" "unat a div 4096 \<le> (unat ?va + unat ?n - 1) div 4096"
          using a by (auto intro!: div_le_mono)
        ultimately show False using that True n0 by (simp add: elf_segment_pages_def unat_PGNUM)
      qed
      have "kept_outside t v pd (\<lambda>a. unat (PGNUM a) \<in> segment_pages s0 ph)"
        unfolding kept_outside_def
      proof (intro allI impI conjI)
        fix a
        assume a: "user_va a" "unat (PGNUM a) \<notin> segment_pages s0 ph"
        show "entry v pd a = entry t pd a" using u(3) v(3) a(1) by simp
        assume m: "mapped t pd a"
        then have "mapped u pd a" using mu [OF a(1)] by simp
        then show "user_byte v pd a = user_byte t pd a"
          using u(4) [OF a(1) m] v(4) [OF a(1)] out [OF a(2)] kn by auto
      qed
      then show ?thesis by (rule kept_outside_trans [OF t(5)]) (use True in \<open>auto simp: elf_segment_pages_def\<close>)
    qed
    ultimately show ?thesis using t(3) v(2) True by (intro exI [of _ v] exI [of _ zs]) (simp add: elf_segment_size_def)
  qed
qed


section \<open>All segments\<close>

lemma kept_segment:
  assumes "kept_outside t u pd R" and "segment_loaded s0 binary ph t pd" and seg: "segment_ok s0 A binary ph"
    and "\<And>a. unat (PGNUM a) \<in> segment_pages s0 ph \<Longrightarrow> \<not> R a"
  shows "segment_loaded s0 binary ph u pd"
  unfolding elf_segment_loaded_def Let_def
proof (intro impI allI)
  fix i
  assume T: "p_type s0 ph = ELF_PROG_LOAD" and i: "i < unat (p_memsz s0 ph)"
  let ?va = "p_va s0 ph" and ?n = "p_memsz s0 ph"
  let ?a = "?va + of_nat i"
  have low: "unat ?va + unat ?n \<le> 4005548032" using seg T by (simp add: elf_segment_ok_def)
  then have un: "unat ?a = unat ?va + i" using i by (subst unat_add_small32) (simp_all add: unat_of_nat32)
  have ua: "user_va ?a" unfolding user_va_iff un using i low by simp
  have n0: "?n \<noteq> 0" using i by auto
  have "pages_touched ?va ?n = (unat ?va + unat ?n - 1) div 4096 + 1 - unat ?va div 4096"
    using low n0 by (intro pages_touched_eq) simp_all
  moreover have "unat ?va div 4096 \<le> unat ?a div 4096" "unat ?a div 4096 \<le> (unat ?va + unat ?n - 1) div 4096"
    using i unfolding un by (auto intro!: div_le_mono)
  ultimately have "unat (PGNUM ?a) \<in> segment_pages s0 ph" using T n0 by (simp add: elf_segment_pages_def unat_PGNUM)
  then have "\<not> R ?a" by (rule assms(4))
  then show "mapped u pd ?a \<and> user_byte u pd ?a = (if i < unat (p_filesz s0 ph) then kernel_byte s0 (binary + p_offset s0 ph + of_nat i) else 0)"
    using assms(1,2) ua T i by (simp add: kept_outside_def elf_segment_loaded_def Let_def mapped_def)
qed

lemma load_segments_loading:
  assumes L: "loading s0 A D pd s xs" and cr3: "frame_of (cr3 s0) = pd" and pd: "env_pgdir (envs s0 e) = Some pd"
    and seg: "\<And>k. k < n \<Longrightarrow> segment_ok s0 A binary (header ph k)"
    and apart: "\<And>j k. j < n \<Longrightarrow> k < n \<Longrightarrow> j \<noteq> k \<Longrightarrow> segment_pages s0 (header ph j) \<inter> segment_pages s0 (header ph k) = {}"
    and wrap: "unat ph + 32 * n < 2 ^ 32" and eph: "eph = header ph n"
    and free: "2 * (\<Sum>k<n. segment_size s0 (header ph k)) \<le> length xs"
  shows "\<exists>t zs. run (load_segments n e binary ph eph) s = (Ret (), t) \<and> loading s0 A D pd t zs
    \<and> length xs \<le> length zs + 2 * (\<Sum>k<n. segment_size s0 (header ph k))
    \<and> (\<forall>k < n. segment_loaded s0 binary (header ph k) t pd)
    \<and> kept_outside s t pd (\<lambda>a. \<exists>k < n. unat (PGNUM a) \<in> segment_pages s0 (header ph k))"
  using L seg apart wrap eph free
proof (induction n arbitrary: ph s xs)
  case 0
  then show ?case by (intro exI [of _ s] exI [of _ xs]) (simp add: prog_simps)
next
  case (Suc n)
  let ?size = "\<lambda>k. segment_size s0 (header ph k)"
  have sum: "(\<Sum>k<Suc n. ?size k) = segment_size s0 ph + (\<Sum>k<n. segment_size s0 (header (ph + 32) k))"
    by (simp only: sum.lessThan_Suc_shift) (simp add: add.assoc add.commute)
  have next_header: "header (ph + 32) k = header ph (Suc k)" for k by (simp add: add.assoc)
  have seg0: "segment_ok s0 A binary ph" using Suc.prems(2) [of 0] by simp
  obtain t ys where t: "run (load_segment e binary ph) s = (Ret (), t)" "loading s0 A D pd t ys"
    "length xs \<le> length ys + 2 * segment_size s0 ph" "segment_loaded s0 binary ph t pd"
    "kept_outside s t pd (\<lambda>a. unat (PGNUM a) \<in> segment_pages s0 ph)"
    using load_segment_loading [OF Suc.prems(1) cr3 pd seg0] Suc.prems(6) unfolding sum by auto
  have up: "unat (ph + 32) = unat ph + 32" using Suc.prems(4) by (subst unat_add_small32) simp_all
  have IH: "\<exists>u zs. run (load_segments n e binary (ph + 32) eph) t = (Ret (), u) \<and> loading s0 A D pd u zs
      \<and> length ys \<le> length zs + 2 * (\<Sum>k<n. segment_size s0 (header (ph + 32) k))
      \<and> (\<forall>k < n. segment_loaded s0 binary (header (ph + 32) k) u pd)
      \<and> kept_outside t u pd (\<lambda>a. \<exists>k < n. unat (PGNUM a) \<in> segment_pages s0 (header (ph + 32) k))"
  proof (rule Suc.IH [OF t(2)])
    show "segment_ok s0 A binary (header (ph + 32) k)" if "k < n" for k
      unfolding next_header using that by (intro Suc.prems(2)) simp
    show "segment_pages s0 (header (ph + 32) j) \<inter> segment_pages s0 (header (ph + 32) k) = {}" if "j < n" "k < n" "j \<noteq> k" for j k
      unfolding next_header using that by (intro Suc.prems(3)) simp_all
    show "unat (ph + 32) + 32 * n < 2 ^ 32" using Suc.prems(4) up by simp
    show "eph = header (ph + 32) n" unfolding next_header by (rule Suc.prems(5))
    show "2 * (\<Sum>k<n. segment_size s0 (header (ph + 32) k)) \<le> length ys" using Suc.prems(6) t(3) unfolding sum by simp
  qed
  then obtain u zs where u: "run (load_segments n e binary (ph + 32) eph) t = (Ret (), u)" "loading s0 A D pd u zs"
    "length ys \<le> length zs + 2 * (\<Sum>k<n. segment_size s0 (header (ph + 32) k))"
    "\<And>k. k < n \<Longrightarrow> segment_loaded s0 binary (header (ph + 32) k) u pd"
    "kept_outside t u pd (\<lambda>a. \<exists>k < n. unat (PGNUM a) \<in> segment_pages s0 (header (ph + 32) k))" by blast
  have "unat (of_nat (32 * Suc n) :: u32) = 32 * Suc n" using Suc.prems(4) by (intro unat_of_nat32) simp
  then have "unat eph = unat ph + 32 * Suc n" using Suc.prems(4,5) by (subst Suc.prems(5), subst unat_add_small32) simp_all
  then have less: "ph < eph" by (simp add: word_less_nat_alt)
  have apart0: "\<not> (\<exists>k < n. unat (PGNUM a) \<in> segment_pages s0 (header (ph + 32) k))" if "unat (PGNUM a) \<in> segment_pages s0 ph" for a
    using that Suc.prems(3) [of 0 "Suc _"] unfolding next_header by fastforce
  have first: "segment_loaded s0 binary ph u pd" by (rule kept_segment [OF u(5) t(4) seg0 apart0])
  have all: "segment_loaded s0 binary (header ph k) u pd" if "k < Suc n" for k
  proof (cases k)
    case 0
    then show ?thesis using first by simp
  next
    case (Suc j)
    then show ?thesis using that u(4) [of j, unfolded next_header] by simp
  qed
  have kept: "kept_outside s u pd (\<lambda>a. \<exists>k < Suc n. unat (PGNUM a) \<in> segment_pages s0 (header ph k))"
  proof (rule kept_outside_trans [OF t(5) u(5)])
    fix a
    assume "unat (PGNUM a) \<in> segment_pages s0 ph \<or> (\<exists>k < n. unat (PGNUM a) \<in> segment_pages s0 (header (ph + 32) k))"
    then show "\<exists>k < Suc n. unat (PGNUM a) \<in> segment_pages s0 (header ph k)"
      unfolding next_header by (auto intro: exI [of _ 0] exI [of _ "Suc _"])
  qed
  show ?case
    using t(1,3) u(1-3) less all kept unfolding sum
    by (intro exI [of _ u] exI [of _ zs]) (simp add: prog_simps)
qed


section \<open>The image seen from other states\<close>

text \<open>\<open>t\<close> differs from \<open>s\<close> in the pages \<open>A\<close> only, and these are not the kernel's tables.\<close>

definition agree :: "kstate \<Rightarrow> kstate \<Rightarrow> nat set \<Rightarrow> bool" where
  "agree s t A \<longleftrightarrow> kern_pgdir t = kern_pgdir s \<and> (\<forall>f. f \<notin> A \<longrightarrow> pmem t f = pmem s f) \<and> A \<inter> kernel_frames s = {}"

lemma agree_readable:
  assumes "agree s t A" and "readable s A a"
  shows "readable t A a" "kernel_byte t a = kernel_byte s a"
proof -
  let ?k = "kern_pgdir s"
  have out: "pmem t f = pmem s f" if "f \<in> kernel_frames s \<or> f \<notin> A" for f using assms(1) that by (auto simp: agree_def)
  have kp: "kern_pgdir t = ?k" using assms(1) by (simp add: agree_def)
  have P: "present (pde_at s ?k a)" using assms(2) mapped_pde by (simp add: readable_def)
  have "pde_at t ?k a = pde_at s ?k a" using out [of ?k] by (simp add: pde_at_def kernel_frames_def)
  moreover have "frame_of (pde_at s ?k a) \<in> kernel_frames s"
    using assms(2) P by (auto simp: kernel_frames_def tables_def table_slots_def pde_at_def readable_def)
  ultimately have e: "entry t ?k a = entry s ?k a" using out P by (simp add: entry_def)
  show "readable t A a" using assms(2) by (simp add: readable_def kp e mapped_def)
  have "frame_of (entry s ?k a) \<notin> A" using assms(2) by (simp add: readable_def)
  then show "kernel_byte t a = kernel_byte s a" using out by (simp add: user_byte_def kp e)
qed

lemma agree_sees: "agree s t A \<Longrightarrow> sees (readable s A) (kernel_byte s) (readable t A) (kernel_byte t)"
  using agree_readable by (simp add: sees_def)

lemma load32_kernel:
  assumes "agree s t A" and "readable_range s A a 4" and "frame_of (cr3 t) = kern_pgdir t"
  shows "run (load32 a) t = (Ret (kernel_word s a), t)"
proof (rule load_words)
  fix i :: nat
  assume "i < 4"
  then have r: "readable s A (a + of_nat i)" using assms(2) by (simp add: all_readable_def)
  have "mapped t (kern_pgdir t) (a + of_nat i)" using agree_readable(1) [OF assms(1) r] by (simp add: readable_def)
  then show "peek8 (a + of_nat i) t = Some (kernel_byte s (a + of_nat i))"
    using peek8_mapped [OF _ assms(3)] agree_readable(2) [OF assms(1) r] by simp
qed

section \<open>\<open>load_icode\<close>\<close>

abbreviation (input) e_phnum :: "kstate \<Rightarrow> u32 \<Rightarrow> nat" where "e_phnum s binary \<equiv> unat (kernel_word16 s (binary + off_e_phnum))"
abbreviation (input) e_entry :: "kstate \<Rightarrow> u32 \<Rightarrow> u32" where "e_entry s binary \<equiv> kernel_word s (binary + off_e_entry)"

abbreviation program_header :: "kstate \<Rightarrow> u32 \<Rightarrow> nat \<Rightarrow> u32" where "program_header s \<equiv> elf_header (kernel_byte s)"

text \<open>A well-formed image, in kernel memory outside the pages \<open>A\<close>.\<close>

abbreviation image_ok :: "kstate \<Rightarrow> nat set \<Rightarrow> u32 \<Rightarrow> bool" where "image_ok s A \<equiv> elf_ok (readable s A) (kernel_byte s)"
abbreviation image_pages :: "kstate \<Rightarrow> u32 \<Rightarrow> nat" where "image_pages s \<equiv> elf_pages (kernel_byte s)"

abbreviation program_loaded :: "kstate \<Rightarrow> u32 \<Rightarrow> kstate \<Rightarrow> nat \<Rightarrow> bool" where
  "program_loaded s binary t pd \<equiv> elf_loaded (kernel_byte s) (mapped t pd) (user_byte t pd) binary"

lemma image_segments:
  assumes L: "loading s0 A D pd s xs" and cr3: "frame_of (cr3 s0) = pd" and pd: "env_pgdir (envs s0 e) = Some pd"
    and img: "image_ok s0 A binary" and free: "2 * image_pages s0 binary \<le> length xs"
  shows "\<exists>t zs. run (load_segments (e_phnum s0 binary) e binary (program_header s0 binary 0)
        (program_header s0 binary 0 + ucast (kernel_word16 s0 (binary + off_e_phnum)) * sizeof_Proghdr)) s = (Ret (), t)
    \<and> loading s0 A D pd t zs \<and> length xs \<le> length zs + 2 * image_pages s0 binary \<and> program_loaded s0 binary t pd
    \<and> kept_outside s t pd (\<lambda>a. \<exists>k < e_phnum s0 binary. unat (PGNUM a) \<in> segment_pages s0 (program_header s0 binary k))"
proof -
  let ?ph = "program_header s0 binary 0"
  have k: "header ?ph k = program_header s0 binary k" for k by (simp add: elf_header_def)
  have eph: "?ph + ucast (kernel_word16 s0 (binary + off_e_phnum)) * sizeof_Proghdr = header ?ph (e_phnum s0 binary)"
    by (simp add: mult.commute)
  show ?thesis
    unfolding elf_loaded_def elf_pages_def
  proof (rule load_segments_loading [OF L cr3 pd, where ph = ?ph and n = "e_phnum s0 binary", unfolded k])
    show "segment_ok s0 A binary (program_header s0 binary k)" if "k < e_phnum s0 binary" for k
      using img that unfolding elf_ok_def by blast
    show "segment_pages s0 (program_header s0 binary j) \<inter> segment_pages s0 (program_header s0 binary k) = {}"
      if "j < e_phnum s0 binary" "k < e_phnum s0 binary" "j \<noteq> k" for j k
      using img that unfolding elf_ok_def by blast
    show "unat ?ph + 32 * e_phnum s0 binary < 2 ^ 32" using img by (simp add: elf_ok_def)
    show "2 * (\<Sum>k<e_phnum s0 binary. segment_size s0 (program_header s0 binary k)) \<le> length xs"
      using free unfolding elf_pages_def .
  qed (rule eph [unfolded k])
qed

text \<open>The page of the initial stack.\<close>

abbreviation (input) stack_page :: u32 where "stack_page \<equiv> USTACKTOP - PGSIZE"

lemma segment_below_stack:
  assumes "segment_ok s0 A binary ph" and "PGNUM a = PGNUM stack_page"
  shows "unat (PGNUM a) \<notin> segment_pages s0 ph"
proof
  let ?va = "p_va s0 ph" and ?n = "p_memsz s0 ph"
  assume a: "unat (PGNUM a) \<in> segment_pages s0 ph"
  then have T: "p_type s0 ph = ELF_PROG_LOAD" "?n \<noteq> 0" by (auto simp: elf_segment_pages_def split: if_splits)
  have low: "unat ?va + unat ?n \<le> 4005548032" using assms(1) T by (simp add: elf_segment_ok_def)
  have pos: "0 < unat ?n" using T(2) by (metis gr0I unsigned_eq_0_iff)
  have "pages_touched ?va ?n = (unat ?va + unat ?n - 1) div 4096 + 1 - unat ?va div 4096"
    using low T(2) by (intro pages_touched_eq) simp_all
  moreover have "unat ?va div 4096 \<le> (unat ?va + unat ?n - 1) div 4096" using pos by (intro div_le_mono) simp
  moreover have "(unat ?va + unat ?n - 1) div 4096 < 977917" using low pos by linarith
  moreover have "unat (PGNUM a) = 977917" using assms(2) by (simp add: unat_PGNUM)
  ultimately show False using a T by (simp add: elf_segment_pages_def unat_PGNUM)
qed

lemma loading_start:
  assumes ok: "spaces_ok s xs D" and pd: "pd \<in> D" and empty: "\<And>d. d < UTOP_index \<Longrightarrow> \<not> present (pmem s pd d)"
  shows "loading s (insert pd (set xs)) D pd s xs"
proof -
  have none: "\<not> mapped s pd va" if "user_va va" for va
    using empty [OF that] mapped_pde [of s pd va] by (auto simp: pde_at_def)
  have "own s pd = {pd}" using empty by (auto simp: own_def user_tables_def)
  moreover have "insert pd (set xs) \<inter> kernel_frames s = {}"
    using spaces_okD(6) [OF ok pd] kernel_frame_ok [OF ok] by (auto simp: own_def)
  ultimately show ?thesis
    unfolding loading_def using ok pd none empty by simp blast
qed

lemma load_icode_run:
  assumes ok: "spaces_ok s xs D" and pd: "pd \<in> D" "env_pgdir (envs s e) = Some pd"
    and empty: "\<And>d. d < UTOP_index \<Longrightarrow> \<not> present (pmem s pd d)"
    and img: "image_ok s (insert pd (set xs)) binary" and free: "2 * image_pages s binary + 2 \<le> length xs"
  shows "\<exists>t zs. run (load_icode e binary) s = (Ret (), t) \<and> spaces_ok t zs D \<and> program_loaded s binary t pd
    \<and> (\<forall>a. PGNUM a = PGNUM stack_page \<longrightarrow> mapped t pd a \<and> user_byte t pd a = 0)
    \<and> envs t = (envs s)(e := (envs s e)\<lparr>env_tf := (env_tf (envs s e))\<lparr>tf_eip := e_entry s binary\<rparr>\<rparr>)
    \<and> cr3 t = page2pa (kern_pgdir s) \<and> (\<forall>f. f \<noteq> pd \<longrightarrow> f \<notin> set xs \<longrightarrow> pmem t f = pmem s f)
    \<and> kern_pgdir t = kern_pgdir s \<and> env_free_list t = env_free_list s \<and> cpus t = cpus s \<and> cpunum t = cpunum s"
proof -
  let ?A = "insert pd (set xs)"
  define s0 where "s0 = s\<lparr>cr3 := page2pa pd\<rparr>"
  note pok = spaces_okD(4) [OF ok pd(1)] and kok = spaces_okD(2) [OF ok]
  have small: "pd < 65536" "kern_pgdir s < 65536" using pgdir_okD(2,3) [OF pok] pgdir_okD(2,3) [OF kok] by (auto simp: machine_ok_def)
  have s0: "pmem s0 = pmem s" "envs s0 = envs s" "kern_pgdir s0 = kern_pgdir s" "env_free_list s0 = env_free_list s" "cpus s0 = cpus s"
    "cpunum s0 = cpunum s" by (simp_all add: s0_def)
  have ok0: "spaces_ok s0 xs D" using ok by (subst spaces_ok_same [of _ s]) (simp_all add: s0_def)
  have L: "loading s0 ?A D pd s0 xs" by (rule loading_start [OF ok0 pd(1)]) (simp add: s0 empty)
  have cr3: "frame_of (cr3 s0) = pd" using small by (simp add: s0_def PGNUM_page2pa)
  have pd0: "env_pgdir (envs s0 e) = Some pd" using pd(2) by (simp add: s0)
  have "agree s s0 ?A"
    using loadingD(5) [OF L] by (simp add: agree_def s0 kernel_frames_def tables_def table_slots_def)
  note I = sees_image [OF agree_sees [OF this] img]
  have h: "readable_range s0 ?A binary 52" and n0: "binary \<noteq> 0" and magic: "kernel_word s0 binary = ELF_MAGIC"
    using I(1) by (simp_all add: elf_ok_def)
  have reads: "run (load32 binary) s0 = (Ret ELF_MAGIC, s0)"
    "run (load32 (binary + 28)) s0 = (Ret (kernel_word s0 (binary + 28)), s0)"
    "run (load16 (binary + 44)) s0 = (Ret (kernel_word16 s0 (binary + 44)), s0)"
    using load32_image [OF L cr3 all_readable_part [OF h, of 0 4, simplified]] magic
      load32_image [OF L cr3 all_readable_part [OF h, of 28 4]] load16_image [OF L cr3 all_readable_part [OF h, of 44 2]]
    by simp_all
  obtain t ys where t: "run (load_segments (e_phnum s0 binary) e binary (program_header s0 binary 0)
        (program_header s0 binary 0 + ucast (kernel_word16 s0 (binary + off_e_phnum)) * sizeof_Proghdr)) s0 = (Ret (), t)"
    "loading s0 ?A D pd t ys" "length xs \<le> length ys + 2 * image_pages s0 binary" "program_loaded s0 binary t pd"
    using image_segments [OF L cr3 pd0 I(1)] free I(2) by auto
  have two: "2 \<le> length ys" using t(3) free I(2) by simp
  have ua: "user_va stack_page" by (simp add: user_va_iff)
  have perm: "(PTE_P OR PTE_U OR PTE_W :: u32) < 4096" "(PTE_P OR PTE_U OR PTE_W :: u32) AND PTE_W \<noteq> 0" by simp_all
  obtain x u v zs where v: "run (page_alloc ALLOC_ZERO) t = (Ret (Some x), u)"
    "run (page_insert pd x stack_page (PTE_P OR PTE_U OR PTE_W)) u = (Ret 0, v)" "loading s0 ?A D pd v zs" "mapped v pd stack_page"
    "\<And>va'. user_va va' \<Longrightarrow> PGNUM va' \<noteq> PGNUM stack_page \<Longrightarrow> entry v pd va' = entry t pd va'
         \<and> (mapped t pd va' \<longrightarrow> user_byte v pd va' = user_byte t pd va')"
    "\<And>va'. PGNUM va' = PGNUM stack_page \<Longrightarrow> user_byte v pd va' = 0"
    using loading_insert [OF t(2) ua two perm, of ALLOC_ZERO] by auto
  have kept: "kept_outside t v pd (\<lambda>a. PGNUM a = PGNUM stack_page)" using v(5) by (simp add: kept_outside_def)
  have loaded: "program_loaded s0 binary v pd"
    unfolding elf_loaded_def
  proof (intro allI impI)
    fix k assume k: "k < e_phnum s0 binary"
    then have seg: "segment_ok s0 ?A binary (program_header s0 binary k)" using I(1) by (simp add: elf_ok_def)
    show "segment_loaded s0 binary (program_header s0 binary k) v pd"
      using t(4) k segment_below_stack [OF seg]
      by (intro kept_segment [OF kept _ seg]) (simp add: elf_loaded_def, blast)
  qed
  have stack: "mapped v pd a \<and> user_byte v pd a = 0" if "PGNUM a = PGNUM stack_page" for a
  proof -
    have "entry v pd a = entry v pd stack_page" using that by (simp add: entry_def pde_at_def PGNUM_page_index)
    then show ?thesis using v(4) v(6) [OF that] by (simp add: mapped_def)
  qed
  define w where "w = v\<lparr>cr3 := page2pa (kern_pgdir s)\<rparr>"
  note B = beyond_sel [OF loadingD(11) [OF v(3)]]
  have "agree s0 w ?A"
    using loadingD(5,9) [OF v(3)] B(4) by (simp add: agree_def w_def)
  moreover have "frame_of (cr3 w) = kern_pgdir w" using small B(4) by (simp add: w_def s0 PGNUM_page2pa)
  ultimately have entry: "run (load32 (binary + 24)) w = (Ret (e_entry s0 binary), w)"
    using load32_kernel [OF _ all_readable_part [OF h, of 24 4]] by simp
  have envs: "envs u = envs s0" "envs t = envs s0"
    using beyond_sel(1) [OF keepsD [OF beyond_page_alloc(1) v(1)]] beyond_sel(1) [OF loadingD(11) [OF t(2)]] by simp_all
  let ?w = "upd_env e (\<lambda>v. v\<lparr>env_tf := (env_tf v)\<lparr>tf_eip := e_entry s0 binary\<rparr>\<rparr>) w"
  have "run (load_icode e binary) s = (Ret (), ?w)"
    using n0 pd(2) small reads t(1) v(1,2) entry B(4)
    by (simp add: load_icode_def prog_simps PADDR_frame lcr3_def elf_header_def s0 flip: s0_def w_def del: run_PADDR)
  moreover have "spaces_ok ?w zs D"
    using loadingD(1) [OF v(3)] by (subst spaces_ok_same [of _ v]) (simp_all add: w_def)
  moreover have view: "mapped ?w pd a = mapped v pd a" "user_byte ?w pd a = user_byte v pd a" for a
    by (simp_all add: mapped_def user_byte_def entry_def pde_at_def w_def)
  then have "program_loaded s0 binary ?w pd"
    using loaded by (simp add: elf_loaded_def elf_segment_loaded_def)
  ultimately show ?thesis
    using stack view I(4,6) B loadingD(9) [OF v(3)]
    by (intro exI [of _ ?w] exI [of _ zs]) (simp add: w_def s0)
qed


section \<open>\<open>env_create\<close>\<close>

lemma env_create_run:
  assumes ok: "kernel_ok s (x # xs) (e # es)" and img: "image_ok s (set (x # xs)) binary"
    and free: "2 * image_pages s binary + 2 \<le> length xs"
  shows "\<exists>t zs. run (env_create binary type) s = (Ret (), t) \<and> kernel_ok t zs es \<and> live t = insert e (live s) \<and> dir t e = x
    \<and> envs t e = (fresh_env e 0 x (envs s e))\<lparr>env_type := type, env_tf := new_env_tf\<lparr>tf_eip := e_entry s binary\<rparr>\<rparr>
    \<and> (\<forall>i. i \<noteq> e \<longrightarrow> envs t i = envs s i) \<and> program_loaded s binary t x
    \<and> (\<forall>a. PGNUM a = PGNUM stack_page \<longrightarrow> mapped t x a \<and> user_byte t x a = 0)
    \<and> cr3 t = page2pa (kern_pgdir s) \<and> (\<forall>f. f \<notin> set (x # xs) \<longrightarrow> pmem t f = pmem s f)"
proof -
  let ?A = "set (x # xs)"
  note K = kernel_okD [OF ok]
  note S = spaces_okD [OF K(6)]
  have el: "e \<notin> live s" using K(2) by (auto simp: live_def)
  obtain t where t: "run (env_alloc 0) s = (Ret (0, Some e), t)" "kernel_ok t xs es" "live t = insert e (live s)" "dir t e = x"
    "envs t = (envs s)(e := fresh_env e 0 x (envs s e))" "pmem t = pmem (vm_ready e x s)" "kern_pgdir t = kern_pgdir s"
    using kernel_alloc_env [OF ok] by blast
  have free_x: "free_pages s (x # xs)" by (rule pgdir_okD(1) [OF S(2)])
  have xk: "x \<noteq> kern_pgdir s" using pgdir_okD(4) [OF S(2)] by auto
  define u where "u = upd_env e (\<lambda>v. v\<lparr>env_type := type\<rparr>) t"
  have u: "pmem u = pmem t" "kern_pgdir u = kern_pgdir s" "env_pgdir (envs u e) = Some x" "live u = live t" "dir u = dir t"
    using t(5,7) by (simp_all add: u_def fresh_env_def live_def dir_def fun_eq_iff)
  have "kernel_ok u xs es"
    using t(2) by (subst kernel_ok_same(1) [of _ t]) (simp_all add: u_def)
  note KU = kernel_okD [OF this]
  have spu: "spaces_ok u xs (dir t ` live t)" using KU(6) by (simp add: u)
  have xD: "x \<in> dir t ` live t" using t(3,4) by auto
  have empty: "\<not> present (pmem u x d)" if "d < UTOP_index" for d
    using S(3) [OF that] that xk by (simp add: u t(6) vm_ready_pmem)
  have "agree s u ?A"
    using kernel_frame_ok [OF K(6)] xk by (auto simp: agree_def u t(6) vm_ready_pmem)
  note I = sees_image [OF agree_sees [OF this] img]
  have image: "image_ok u (insert x (set xs)) binary" "2 * image_pages u binary + 2 \<le> length xs"
    using I(1,2) free by simp_all
  obtain v zs where v: "run (load_icode e binary) u = (Ret (), v)" "spaces_ok v zs (dir t ` live t)" "program_loaded u binary v x"
    "\<And>a. PGNUM a = PGNUM stack_page \<Longrightarrow> mapped v x a \<and> user_byte v x a = 0"
    "envs v = (envs u)(e := (envs u e)\<lparr>env_tf := (env_tf (envs u e))\<lparr>tf_eip := e_entry u binary\<rparr>\<rparr>)"
    "cr3 v = page2pa (kern_pgdir u)" "\<And>f. f \<noteq> x \<Longrightarrow> f \<notin> set xs \<Longrightarrow> pmem v f = pmem u f"
    "kern_pgdir v = kern_pgdir u" "env_free_list v = env_free_list u"
    using load_icode_run [OF spu xD u(3) empty image] by blast
  have run: "run (env_create binary type) s = (Ret (), v)"
    using t(1) v(1) by (simp add: env_create_def prog_simps word_sless_alt flip: u_def)
  have ve: "envs v i = (if i = e then (fresh_env e 0 x (envs s e))\<lparr>env_type := type, env_tf := new_env_tf\<lparr>tf_eip := e_entry s binary\<rparr>\<rparr> else envs s i)" for i
    using v(5) I(4) t(5) by (simp add: u_def fresh_env_def)
  have same: "live v = live u" "dir v = dir u"
    using v(5) by (auto simp: live_def dir_def fun_eq_iff)
  have "kernel_ok v zs es"
    unfolding kernel_ok_def same
  proof (intro conjI ballI)
    show "linked (\<lambda>e. env_link (envs v e)) (env_free_list v) es"
    proof -
      have "(\<lambda>i. env_link (envs v i)) = (\<lambda>i. env_link (envs u i))" by (simp add: v(5) fun_eq_iff)
      then show ?thesis using KU(1) v(9) by simp
    qed
    show "set es = {i. i < NENV \<and> env_status (envs v i) = ENV_FREE}" using KU(2) by (auto simp: v(5))
    show "inj_on (dir u) (live u)" by (rule KU(5))
    show "spaces_ok v zs (dir u ` live u)" using v(2) by (simp add: u)
  next
    fix i assume i: "i \<in> live u"
    show "env_pgdir (envs v i) \<noteq> None" "0 <s env_id (envs v i)" "ENVX (env_id (envs v i)) = i"
      using KU(3,4) [OF i] by (auto simp: v(5))
  qed
  moreover have "pmem v f = pmem s f" if "f \<notin> ?A" for f
    using v(7) [of f] that by (simp add: u t(6) vm_ready_pmem [OF xk [symmetric]])
  ultimately show ?thesis
    using run v(3,4,6) ve I(6) t(3,4) by (intro exI [of _ v] exI [of _ zs]) (simp add: same u)
qed

end
