(* ===== verification/Sample.thy ===== *)
theory Sample
  imports SyscallSpec Loader
begin

text \<open>
  A small machine on which the hypotheses of the properties hold: 16 pages, of which pages 2 to
  11 are free; page 0 is the kernel's page directory, page 14 the directory of environment 0,
  page 12 a page table in it, page 13 a page of the environment at \<^verbatim>\<open>UTEXT\<close>. Environment 0
  runs on CPU 0.
\<close>

definition sample_syms :: ksyms where
  "sample_syms = \<lparr>sym_start = 0x10000c, sym_entry = 0xf010000c, sym_etext = 0xf0105000,
     sym_edata = 0xf0110000, sym_end = 0xf0120000, sym_bootstack = 0xf0118000,
     sym_percpu_kstacks = 0xf0200000, sym_stab_begin = 0xf0106000, sym_stab_end = 0xf0108000,
     sym_stabstr_begin = 0xf0109000, sym_stabstr_end = 0xf010b000, sym_ts = 0xf011c000,
     sym_trap_label = (\<lambda>v. 0xf0104000 + 10 * of_nat v)\<rparr>"

definition sample_memory :: "nat \<Rightarrow> nat \<Rightarrow> u32" where
  "sample_memory f i =
     (if f = 14 \<and> i = 2 then page2pa 12 OR 7
      else if f = 12 \<and> i = 0 then page2pa 13 OR 7
      else if f = 13 then 0x21676f6c
      else 0)"

definition sample_page :: "nat \<Rightarrow> PageInfo" where
  "sample_page i = \<lparr>pp_link = (if 2 \<le> i \<and> i < 11 then Some (Suc i) else None),
                    pp_ref = (if 2 \<le> i \<and> i \<le> 11 then 0 else 1)\<rparr>"

definition sample_env :: "nat \<Rightarrow> Env" where
  "sample_env i =
     (if i = 0 then zero_env\<lparr>env_id := 0x1000, env_status := ENV_RUNNING, env_pgdir := Some 14\<rparr>
      else zero_env\<lparr>env_link := (if i < 1023 then Some (Suc i) else None)\<rparr>)"

definition sample :: kstate where
  "sample = \<lparr>ksym = sample_syms, pmem = sample_memory, cr3 = 0xE000, cr0 = 0x80050033, invlpgs = [],
     npages = 16, npages_basemem = 16, kern_pgdir = 0, pages = sample_page,
     page_free_list = Some 2, nextfree = 0xF0001000, pages_left = 15, user_mem_check_addr = 0,
     envs = sample_env, env_free_list = Some 1,
     cpus = (\<lambda>c. \<lparr>cpu_id = of_nat c, cpu_status = CPU_STARTED, cpu_env = (if c = 0 then Some 0 else None)\<rparr>),
     cpunum = 0, kernel_lock = \<lparr>locked = 0, lk_cpu = None, lk_pcs = []\<rparr>, cr2 = 0, ebp = 0, eflags = 2,
     gdt = gdt_init, idt = (\<lambda>v. GATE_ZERO), ts_esp0 = 0, ts_ss0 = 0, ts_iomb = 0, task_reg = 0,
     idt_loaded = False, last_tf = 0, pages_kva = 0xF0000000, envs_kva = 0xF0000000,
     panicstr = False, ismp = False, ncpu = 1, bootcpu = 0, lapicaddr = 0, lapic = 0,
     lapic_in = (\<lambda>n i. 0), lapic_count = 0, lapic_log = [], port_log = [], console = [], con_in = []\<rparr>"

definition sample_free :: "nat list" where
  "sample_free = [2, 3, 4, 5, 6, 7, 8, 9, 10, 11]"

lemma sample_sel [simp]:
  "npages sample = 16" "pages sample = sample_page" "page_free_list sample = Some 2"
  "pmem sample = sample_memory" "envs sample = sample_env" "env_free_list sample = Some 1"
  "curenv sample = Some 0" "kern_pgdir sample = 0" "console sample = []" "cr3 sample = 0xE000"
  "panicstr sample = False" "cpunum sample = 0" "ksym sample = sample_syms"
  "cpu_status (cpus sample c) = CPU_STARTED" "cpu_env (cpus sample 0) = Some 0" "idt sample = (\<lambda>v. GATE_ZERO)"
  by (simp_all add: sample_def)

lemma sample_pages_free: "free_pages sample sample_free"
  by (auto simp: free_pages_def sample_free_def sample_page_def)

lemma sample_machine_ok: "machine_ok sample"
  by (simp add: machine_ok_def)

lemma page2pa_numeral: "page2pa 12 = 0xC000" "page2pa 13 = 0xD000"
  by (simp_all add: page2pa_def)

lemma sample_dir: "sample_memory 14 i = (if i = 2 then 0xC007 else 0)"
  by (simp add: sample_memory_def page2pa_numeral)

lemma sample_table: "sample_memory 12 i = (if i = 0 then 0xD007 else 0)"
  by (simp add: sample_memory_def page2pa_numeral)

lemma sample_frames: "unat (PGNUM (0xC007 :: u32)) = 12" "unat (PGNUM (0xD007 :: u32)) = 13"
  by (simp_all add: PGNUM_def)

lemma sample_slots: "table_slots sample 14 = {2}"
  by (auto simp: table_slots_def sample_dir)

lemma sample_tables: "tables sample 14 = {12}"
  by (simp add: tables_def sample_slots sample_dir sample_frames)

lemma sample_pgdir_ok: "pgdir_ok sample 14 sample_free"
  using sample_pages_free sample_machine_ok
  unfolding pgdir_ok_def sample_tables sample_slots
  by (simp add: sample_free_def sample_dir)

section \<open>A program\<close>

text \<open>
  An ELF image of one segment: 4 bytes of the file at \<open>0x00800000\<close>, 8 bytes in memory, entry point
  \<open>0x00800020\<close>.
\<close>

definition sample_image :: "nat \<Rightarrow> u32" where
  "sample_image i =
     (if i = 0 then 0x464C457F else if i = 6 then 0x00800020 else if i = 7 then 52 else if i = 11 then 1
      else if i = 13 then 1 else if i = 14 then 84 else if i = 15 then 0x00800000 else if i = 17 then 4
      else if i = 18 then 8 else if i = 21 then 0x44332211 else 0)"

definition elf_at :: "u32 \<Rightarrow> (u32 \<Rightarrow> bool) \<Rightarrow> (u32 \<Rightarrow> u8) \<Rightarrow> bool" where
  "elf_at b R B \<longleftrightarrow> (\<forall>i < 4096. R (b + of_nat i) \<and> B (b + of_nat i) = byte_of (sample_image (i div 4)) (i mod 4))"

lemma elf_at_readable: "elf_at b R B \<Longrightarrow> m + n \<le> 4096 \<Longrightarrow> all_readable R (b + of_nat m) n"
  using all_readable_part [of R b 4096 m n] by (simp add: elf_at_def all_readable_def)

lemma elf_at_byte: "elf_at b R B \<Longrightarrow> i < 4096 \<Longrightarrow> B (b + of_nat i) = byte_of (sample_image (i div 4)) (i mod 4)"
  by (simp add: elf_at_def)

lemma elf_at_words:
  assumes e: "elf_at b R B"
  shows "word32_at B b = ELF_MAGIC" "word32_at B (b + 24) = 0x00800020" "word32_at B (b + 28) = 52" "word16_at B (b + 44) = 1"
    and "word32_at B (b + 52) = 1" "word32_at B (b + 56) = 84" "word32_at B (b + 60) = 0x00800000"
    and "word32_at B (b + 68) = 4" "word32_at B (b + 72) = 8"
proof -
  have w: "word32_at B (b + of_nat (4 * j)) = sample_image j" if "j < 1024" for j
  proof -
    have q: "(4 * j + n) div 4 = j" "(4 * j + n) mod 4 = n" if "n < 4" for n using that by auto
    have B: "B (b + of_nat (4 * j) + of_nat n) = byte_of (sample_image j) n" if "n < 4" for n
      using elf_at_byte [OF e, of "4 * j + n"] q [OF that] \<open>j < 1024\<close> that by (simp add: add.assoc)
    have "word32_at B (b + of_nat (4 * j)) = (ucast (ucast (byte_of (sample_image j) 0) OR push_bit 8 (ucast (byte_of (sample_image j) (Suc 0))) :: u16) OR
        push_bit 16 (ucast (ucast (byte_of (sample_image j) 2) OR push_bit 8 (ucast (byte_of (sample_image j) 3)) :: u16)))"
      using B [of 0] B [of 1] B [of 2] B [of 3] by (simp add: word32_at_def word16_at_def add.assoc)
    then show ?thesis using word_bytes [of "sample_image j"] by simp
  qed
  show "word32_at B b = ELF_MAGIC" "word32_at B (b + 24) = 0x00800020" "word32_at B (b + 28) = 52"
    "word32_at B (b + 52) = 1" "word32_at B (b + 56) = 84" "word32_at B (b + 60) = 0x00800000"
    "word32_at B (b + 68) = 4" "word32_at B (b + 72) = 8"
    using w [of 0] w [of 6] w [of 7] w [of 13] w [of 14] w [of 15] w [of 17] w [of 18] by (simp_all add: sample_image_def)
  show "word16_at B (b + 44) = 1"
    using elf_at_byte [OF e, of 44] elf_at_byte [OF e, of 45] by (simp add: word16_at_def sample_image_def byte_of_def add.assoc)
qed

lemma elf_at_ok:
  assumes e: "elf_at b R B" and b: "b \<noteq> 0" "unat b + 4096 < 2 ^ 32"
  shows "elf_ok R B b" "elf_pages B b = 1" "elf_header B b 0 = b + 52"
proof -
  note W = elf_at_words [OF e]
  show h: "elf_header B b 0 = b + 52" using W by (simp add: elf_header_def)
  have n: "elf_phnum B b = 1" using W by simp
  have touch: "pages_touched 0x00800000 8 = 1" by (simp add: pages_touched_def ROUNDUP_def ROUNDDOWN_def)
  have "elf_segment_ok R B b (b + 52)"
    using W elf_at_readable [OF e, of 52 32] elf_at_readable [OF e, of 84 4] by (simp add: elf_segment_ok_def add.assoc)
  moreover have "unat (b + 52) = unat b + 52" using b(2) by (subst unat_add_small32) simp_all
  ultimately show "elf_ok R B b"
    unfolding elf_ok_def n using W b elf_at_readable [OF e, of 0 52] by (simp add: h)
  show "elf_pages B b = 1"
    unfolding elf_pages_def n using W touch by (simp add: h elf_segment_size_def add.assoc)
qed

text \<open>The segment in the address space of the program.\<close>

lemma elf_at_loaded:
  assumes e: "elf_at b R B" and l: "elf_loaded B M U b"
  shows "i < 4 \<Longrightarrow> U (0x00800000 + of_nat i) = byte_of 0x44332211 i" "4 \<le> i \<Longrightarrow> i < 8 \<Longrightarrow> U (0x00800000 + of_nat i) = 0"
    and "i < 8 \<Longrightarrow> M (0x00800000 + of_nat i)"
proof -
  note W = elf_at_words [OF e]
  have "elf_header B b 0 = b + 52" using W by (simp add: elf_header_def)
  then have s: "elf_segment_loaded B M U b (b + 52)" using l W by (simp add: elf_loaded_def)
  have seg: "M (0x00800000 + of_nat i)" "U (0x00800000 + of_nat i) = (if i < 4 then B (b + 84 + of_nat i) else 0)" if "i < 8" for i
    using s W that by (simp_all add: elf_segment_loaded_def Let_def add.assoc)
  show "i < 8 \<Longrightarrow> M (0x00800000 + of_nat i)" "4 \<le> i \<Longrightarrow> i < 8 \<Longrightarrow> U (0x00800000 + of_nat i) = 0" using seg by simp_all
  show "U (0x00800000 + of_nat i) = byte_of 0x44332211 i" if "i < 4"
  proof -
    have "i \<in> {0, 1, 2, 3}" using that by auto
    then have "(84 + i) div 4 = 21" "(84 + i) mod 4 = i" by auto
    then show ?thesis using seg [of i] that elf_at_byte [OF e, of "84 + i"] by (simp add: sample_image_def add.assoc)
  qed
qed

end
