(* ===== verification/EntryPgdir.thy ===== *)
theory EntryPgdir
  imports VMem
begin

text \<open>
  \<^verbatim>\<open>kern/entrypgdir.c\<close>: the page directory and the page table \<^verbatim>\<open>entry.S\<close> switches paging on
  with. Their initialisers, and what the translation of the hardware makes of them.
\<close>

definition entry_pgtable :: "u32 list" where
  "entry_pgtable = map (\<lambda>i. 0x1000 * of_nat i OR PTE_P OR PTE_W) [0..<NPTENTRIES]"

text \<open>The argument is the link-time address of \<open>entry_pgtable\<close>; the slots not named are zero.\<close>

definition entry_pgdir :: "u32 \<Rightarrow> nat \<Rightarrow> u32" where
  "entry_pgdir table i =
     (if i = 0 then (table - KERNBASE) + PTE_P
      else if i = unat (drop_bit PDXSHIFT KERNBASE) then (table - KERNBASE) + PTE_P + PTE_W
      else 0)"

text \<open>The state of memory in which \<^verbatim>\<open>entry.S\<close> enables paging: the two frames hold the tables.\<close>

definition entry_paging :: "nat \<Rightarrow> nat \<Rightarrow> kstate \<Rightarrow> bool" where
  "entry_paging pd pt s \<longleftrightarrow>
     pd < 1024 \<and> pt < 1024 \<and> cr3 s = page2pa pd \<and>
     pmem s pd = entry_pgdir (frame_kva pt) \<and> (\<forall>i < NPTENTRIES. pmem s pt i = entry_pgtable ! i)"

section \<open>What is mapped\<close>

lemma entry_pgtable_nth: "i < 1024 \<Longrightarrow> entry_pgtable ! i = 0x1000 * of_nat i OR PTE_P OR PTE_W"
  by (simp add: entry_pgtable_def)

lemma page_word: "(0x1000 * of_nat i :: u32) = page2pa i"
  by (simp add: page2pa_def push_bit_eq_mult)

lemma entry_pte:
  assumes "i < 1024"
  shows "entry_pgtable ! i = page2pa i OR 3"
  using assms by (simp only: entry_pgtable_nth page_word or.assoc) simp

lemma flags_dropped:
  assumes "pp < 1048576" and "drop_bit 12 flags = 0"
  shows "unat (PGNUM (page2pa pp OR flags)) = pp"
  using frame_of_entry [OF assms] by simp

lemma add_flags_or:
  assumes "unat w < 4096"
  shows "page2pa pp + w = (page2pa pp OR w)"
proof (rule disjunctive_add_eq_or, rule bit_word_eqI)
  fix n
  assume "n < LENGTH(32)"
  have "take_bit 12 w = w" using assms by (intro take_bit_below) simp
  then have "bit w n \<Longrightarrow> n < 12" by (metis bit_take_bit_iff)
  then show "bit (page2pa pp AND w) n = bit (0 :: u32) n"
    by (auto simp: page2pa_def bit_simps)
qed

lemma entry_pde:
  assumes "pt < 1024"
  shows "entry_pgdir (frame_kva pt) i =
    (if i = 0 then page2pa pt OR 1 else if i = 960 then page2pa pt OR 3 else 0)"
proof -
  have kb: "unat (drop_bit 22 (0xF0000000 :: u32)) = 960" by simp
  have "frame_kva pt - KERNBASE = page2pa pt" by (simp add: frame_kva_def)
  then show ?thesis
    unfolding entry_pgdir_def kb
    by (simp only: add.assoc) (simp add: add_flags_or)
qed

text \<open>Where an address is, by its directory slot.\<close>

lemma entry_translate:
  assumes ep: "entry_paging pd pt s"
  shows "translate write va s =
    (if unat (PDX va) = 960 \<or> unat (PDX va) = 0 \<and> \<not> (write \<and> cr0 s AND CR0_WP \<noteq> 0)
     then Some (unat (PTX va)) else None)"
proof -
  have small: "pd < 1048576" "pt < 1048576" "pt < 1024" using ep by (auto simp: entry_paging_def)
  have dir: "unat (PGNUM (cr3 s)) = pd"
    using ep flags_dropped [OF small(1), of 0] by (simp add: entry_paging_def)
  have pde: "pmem s pd (unat (PDX va)) =
      (if unat (PDX va) = 0 then page2pa pt OR 1 else if unat (PDX va) = 960 then page2pa pt OR 3 else 0)"
    using ep entry_pde [OF small(3)] by (simp add: entry_paging_def)
  have tab: "unat (PGNUM (page2pa pt OR 1)) = pt" "unat (PGNUM (page2pa pt OR 3)) = pt"
    by (rule flags_dropped [OF small(2)], simp)+
  have idx: "unat (PTX va) < 1048576" using unat_PTX_less [of va] by linarith
  have pte: "pmem s pt (unat (PTX va)) = (page2pa (unat (PTX va)) OR 3)"
    using ep entry_pte [of "unat (PTX va)"] by (simp add: entry_paging_def)
  have frame: "unat (PGNUM (page2pa (unat (PTX va)) OR 3)) = unat (PTX va)"
    by (rule flags_dropped [OF idx]) simp
  have low: "page2pa f AND 1 = 0" "page2pa f AND 2 = 0" for f
    by (rule bit_word_eqI, auto simp: page2pa_def bit_simps)+
  have bits: "(page2pa f OR 1) AND 1 = 1" "(page2pa f OR 1) AND 2 = 0"
      "(page2pa f OR 3) AND 1 = 1" "(page2pa f OR 3) AND 2 = 2" for f
    by (simp_all add: bit.conj_disj_distrib2 low)
  show ?thesis
    by (simp add: translate_def Let_def dir pde tab pte frame bits)
qed

end
