(* ===== verification/MemProps.thy ===== *)
theory MemProps
  imports Sample EntryPgdir AddrSpace
begin

text \<open>
  The properties of memory management: the page allocator, the boot allocator, the page tables,
  the user memory check and the tables paging starts with. Each is stated over the definitions
  of \<open>Pmap\<close> and rests on the lemmas of the component theories; the witnesses apply them to the
  machine of \<open>Sample\<close>.
\<close>

section \<open>The page allocator\<close>

text \<open>C37. \<open>page_free\<close> panics, changing nothing, on a page that is still referenced and on a page
  that is free already, unless it is the last one of the free list.\<close>

theorem page_free_rejects:
  assumes "free_pages s xs" and "pp_ref (pages s x) \<noteq> 0 \<or> x \<in> set xs \<and> x \<noteq> last xs"
  shows "\<exists>msg. run (page_free x) s = (Stop (Panic msg), s)"
  using page_free_referenced [of s x] page_free_twice [OF assms(1), of x] assms(2) by blast

theorem page_free_rejects_witness:
  "\<exists>msg. run (page_free 5) sample = (Stop (Panic msg), sample)"
  by (rule page_free_rejects [OF sample_pages_free]) (simp add: sample_free_def sample_page_def)

text \<open>\<open>page_decref\<close> drops one reference; the page goes to the front of the free list exactly
  when that was the last one.\<close>

lemma page_decref_frees_last:
  assumes "free_pages s xs" and "x \<notin> set xs" and "x < npages s"
  shows "\<exists>t. run (page_decref x) s = (Ret (), t)
    \<and> free_pages t (if pp_ref (pages s x) = 1 then x # xs else xs)
    \<and> (\<forall>y. pp_ref (pages t y) = (if y = x then pp_ref (pages s x) - 1 else pp_ref (pages s y)))"
  using page_decref_run [OF assms(1,2)] decref_free_pages [OF assms] by (auto simp: pp_ref_decref)

lemma sample_ref_13: "pp_ref (sample_page 13) = 1"
  by (simp add: sample_page_def)

section \<open>Boot\<close>

text \<open>C21. From a fresh array \<open>pages\<close>, \<open>page_init\<close> puts exactly these pages on the free list, the
  last page first: all below \<^verbatim>\<open>npages_basemem\<close> but page 0, and above that those outside the I/O
  hole and past the memory \<open>boot_alloc\<close> has handed out; every other page gets one reference.\<close>

theorem page_init_builds:
  assumes "fresh_pages s" and "nextfree s \<noteq> 0" and "KERNBASE \<le> nextfree s" and "npages s \<noteq> 0"
  shows "\<exists>t. run (page_init end_sym) s = (Ret (), t) \<and> free_pages t (usable_below s (npages s))
    \<and> set (usable_below s (npages s)) = {i. i < npages s \<and> page_usable (npages_basemem s) (nextfree s) i}
    \<and> (\<forall>i < npages s. pp_ref (pages t i) = (if page_usable (npages_basemem s) (nextfree s) i then 0 else 1))
    \<and> pmem t = pmem s"
proof -
  have "set (usable_below s (npages s)) = {i. i < npages s \<and> page_usable (npages_basemem s) (nextfree s) i}"
    by (auto simp: usable_below_def)
  then show ?thesis using page_init_run [OF assms, of end_sym] unfolding init_upto_def by auto
qed

definition sample_fresh :: kstate where
  "sample_fresh = sample\<lparr>pages := (\<lambda>i. \<lparr>pp_link = None, pp_ref = 0\<rparr>), page_free_list := None, npages := 4,
     npages_basemem := 3\<rparr>"

theorem page_init_builds_witness:
  "\<exists>t. run (page_init 0) sample_fresh = (Ret (), t) \<and> free_pages t [3, 2, 1]
    \<and> (\<forall>i < 4. pp_ref (pages t i) = (if i = 0 then 1 else 0))"
proof -
  have f: "fresh_pages sample_fresh" "nextfree sample_fresh = 0xF0001000" "npages sample_fresh = 4"
      "npages_basemem sample_fresh = 3"
    by (simp_all add: fresh_pages_def sample_fresh_def) (simp add: sample_def)
  have u: "page_usable 3 0xF0001000 i \<longleftrightarrow> i \<noteq> 0" if "i < 4" for i
  proof -
    have "i = 0 \<or> i = 1 \<or> i = 2 \<or> i = 3" using that by linarith
    then show ?thesis by (auto simp: page_usable_def)
  qed
  have "usable_below sample_fresh 4 = [3, 2, 1]"
    unfolding usable_below_def f using u by (simp add: upt_rec)
  then show ?thesis using page_init_builds [OF f(1), of 0] u unfolding f by auto
qed

section \<open>Page tables\<close>

lemma sample_PDX: "unat (PDX 0x00800000) = 2" "unat (PDX 0x00C00000) = 3" "unat (PTX 0x00800000) = 0"
  "unat (PTX 0x00C00000) = 0"
  by (simp_all add: PDX_def PTX_def)

text \<open>C12. \<open>page_insert\<close> maps page \<open>pp\<close> at \<open>va\<close> with the permissions asked for, whether or not a page
  (another or the same one) was mapped there; no other mapping changes, \<open>pp\<close> gains a reference
  and the page replaced loses one.\<close>

theorem page_insert_maps:
  assumes "pgdir_ok s pd xs" and "unat (PDX va) \<noteq> UVPT_index"
    and "present (pde_at s pd va) \<or> xs \<noteq> []" and "mapped_ok s pd xs va" and "data_page s pd xs pp"
    and "present (entry s pd va) \<Longrightarrow> frame_of (entry s pd va) = pp \<Longrightarrow> pp_ref (pages s pp) \<noteq> 0"
  shows "\<exists>t zs. run (page_insert pd pp va perm) s = (Ret 0, t) \<and> pgdir_ok t pd zs
     \<and> (\<forall>va'. unat (PDX va') \<noteq> UVPT_index \<longrightarrow>
          entry t pd va' = (if PGNUM va' = PGNUM va then page2pa pp OR perm OR PTE_P else entry s pd va'))
     \<and> (\<forall>y. y \<notin> set xs \<longrightarrow> pp_ref (pages t y) =
          pp_ref (pages s y) + (if y = pp then 1 else 0)
          - (if present (entry s pd va) \<and> y = frame_of (entry s pd va) then 1 else 0))"
  using page_insert_spec [OF assms, of perm] by blast

lemma sample_entry: "entry sample 14 0x00800000 = 0xD007" "entry sample 14 0x00C00000 = 0"
  "pde_at sample 14 0x00800000 = 0xC007"
  by (simp_all add: entry_def pde_at_def sample_PDX sample_dir sample_table sample_frames)

lemma sample_data: "data_page sample 14 sample_free 13" "data_page sample 14 sample_free 15"
  by (simp_all add: data_page_def sample_tables sample_free_def)

lemma sample_mapped: "mapped_ok sample 14 sample_free 0x00800000" "mapped_ok sample 14 sample_free 0x00C00000"
  by (simp_all add: mapped_ok_def sample_entry sample_frames sample_data)

theorem page_insert_maps_witness:
  "\<exists>t zs. run (page_insert 14 15 0x00800000 2) sample = (Ret 0, t) \<and> pgdir_ok t 14 zs
    \<and> entry t 14 0x00800000 = 0xF003 \<and> pp_ref (pages t 13) = 0"
proof -
  have "\<exists>t zs. run (page_insert 14 15 0x00800000 2) sample = (Ret 0, t) \<and> pgdir_ok t 14 zs
     \<and> (\<forall>va'. unat (PDX va') \<noteq> UVPT_index \<longrightarrow>
          entry t 14 va' = (if PGNUM va' = PGNUM 0x00800000 then page2pa 15 OR 2 OR PTE_P else entry sample 14 va'))
     \<and> (\<forall>y. y \<notin> set sample_free \<longrightarrow> pp_ref (pages t y) =
          pp_ref (pages sample y) + (if y = 15 then 1 else 0)
          - (if present (entry sample 14 0x00800000) \<and> y = frame_of (entry sample 14 0x00800000) then 1 else 0))"
    by (rule page_insert_maps [OF sample_pgdir_ok _ _ sample_mapped(1) sample_data(2)])
      (simp_all add: sample_PDX sample_entry sample_frames)
  then obtain t zs where t: "run (page_insert 14 15 0x00800000 2) sample = (Ret 0, t)" "pgdir_ok t 14 zs"
      "\<forall>va'. unat (PDX va') \<noteq> UVPT_index \<longrightarrow>
          entry t 14 va' = (if PGNUM va' = PGNUM 0x00800000 then page2pa 15 OR 2 OR PTE_P else entry sample 14 va')"
      "\<forall>y. y \<notin> set sample_free \<longrightarrow> pp_ref (pages t y) =
          pp_ref (pages sample y) + (if y = 15 then 1 else 0)
          - (if present (entry sample 14 0x00800000) \<and> y = frame_of (entry sample 14 0x00800000) then 1 else 0)"
    by blast
  have "entry t 14 0x00800000 = page2pa 15 OR 2 OR PTE_P"
    using t(3) [rule_format, of "0x00800000"] by (simp add: sample_PDX)
  moreover have "page2pa 15 = 0xF000" by (simp add: page2pa_def)
  ultimately have "entry t 14 0x00800000 = 0xF003" by simp
  moreover have "13 \<notin> set sample_free" by (simp add: sample_free_def)
  then have "pp_ref (pages t 13) = 0"
    using t(4) [rule_format, of 13] by (simp add: sample_entry sample_frames sample_ref_13)
  ultimately show ?thesis using t by blast
qed

definition sample_full :: kstate where
  "sample_full = sample\<lparr>pages := (\<lambda>i. \<lparr>pp_link = None, pp_ref = 1\<rparr>), page_free_list := None\<rparr>"

lemma sample_full_ok: "pgdir_ok sample_full 14 []"
proof -
  have m: "pmem sample_full = pmem sample" and n: "npages sample_full = 16"
    by (simp_all add: sample_full_def)
  have "free_pages sample_full []" by (simp add: free_pages_def sample_full_def)
  then show ?thesis
    using sample_pgdir_ok
    unfolding pgdir_ok_def same_memory_view [OF m] m by (simp add: n machine_ok_def)
qed

text \<open>C22. With a page for every table that may be missing, \<open>boot_map_region\<close> maps the whole
  pages of the region \<open>[va, va + sz)\<close> to consecutive pages from \<open>pa\<close> with the permissions given,
  and changes no other mapping.\<close>

theorem boot_map_region_maps:
  assumes "pgdir_ok s pd xs" and "missing_tables s pd \<le> length xs"
    and "\<forall>i < unat (sz div PGSIZE). unat (PDX (va + of_nat i * PGSIZE)) \<noteq> UVPT_index"
  shows "\<exists>t. run (boot_map_region pd va sz pa perm) s = (Ret (), t)
    \<and> (\<forall>va'. unat (PDX va') \<noteq> UVPT_index \<longrightarrow>
        (\<forall>i < unat (sz div PGSIZE). PGNUM va' = PGNUM (va + of_nat i * PGSIZE) \<longrightarrow>
            entry t pd va' = ((pa + of_nat i * PGSIZE) OR perm OR PTE_P)) \<and>
        ((\<forall>i < unat (sz div PGSIZE). PGNUM va' \<noteq> PGNUM (va + of_nat i * PGSIZE)) \<longrightarrow>
            entry t pd va' = entry s pd va'))"
  using boot_map_region_run [OF assms, of pa perm] unfolding region_mapped_def region_entry_def by blast

text \<open>A machine with enough free pages for every page table there can be.\<close>

definition sample_big :: kstate where
  "sample_big = sample\<lparr>npages := 2000, page_free_list := Some 16,
     pages := (\<lambda>i. \<lparr>pp_link = (if 16 \<le> i \<and> i < 1999 then Some (Suc i) else None),
                     pp_ref = (if 16 \<le> i then 0 else 1)\<rparr>)\<rparr>"

lemma linked_upt:
  assumes "\<And>i. a \<le> i \<Longrightarrow> i < n \<Longrightarrow> nxt i = (if Suc i < n then Some (Suc i) else None)" and "a < n"
  shows "linked nxt (Some a) [a..<n]"
  using assms
proof (induction "n - a" arbitrary: a)
  case 0
  then show ?case by simp
next
  case (Suc k)
  show ?case
  proof (cases "Suc a < n")
    case True
    have "linked nxt (Some (Suc a)) [Suc a..<n]" using Suc True by (intro Suc.hyps(1)) auto
    then show ?thesis using Suc.prems True by (simp add: upt_conv_Cons)
  next
    case False
    then have "[a..<n] = [a]" using Suc.prems by (simp add: upt_conv_Cons)
    then show ?thesis using Suc.prems(1) [of a] Suc.prems(2) False by simp
  qed
qed

definition big_free :: "nat list" where
  "big_free = [16..<2000]"

lemma big_free_sel: "set big_free = {16..<2000}" "length big_free = 1984"
  by (simp_all add: big_free_def del: upt_rec_numeral)

lemma sample_big_ok: "pgdir_ok sample_big 14 big_free"
proof -
  have m: "pmem sample_big = pmem sample" and n: "npages sample_big = 2000"
    by (simp_all add: sample_big_def)
  have "chain (pages sample_big) (page_free_list sample_big) big_free"
    unfolding big_free_def sample_big_def by (simp del: upt_rec_numeral, rule linked_upt) auto
  then have "free_pages sample_big big_free"
    by (simp add: free_pages_def big_free_sel) (simp add: sample_big_def)
  then show ?thesis
    unfolding pgdir_ok_def same_memory_view [OF m] m
    by (simp add: n machine_ok_def sample_tables sample_slots sample_dir big_free_sel)
qed

lemma sample_big_missing: "missing_tables sample_big 14 \<le> length big_free"
proof -
  have "missing_tables sample_big 14 \<le> card {..< 1024 :: nat}"
    unfolding missing_tables_def by (rule card_mono) auto
  then show ?thesis by (simp add: big_free_sel)
qed

theorem boot_map_region_maps_witness:
  "\<exists>t. run (boot_map_region 14 0x00C00000 8192 0x5000 2) sample_big = (Ret (), t)
    \<and> entry t 14 0x00C01000 = 0x6003"
proof -
  have n: "unat ((8192 :: u32) div PGSIZE) = 2" by simp
  have "\<forall>i < unat ((8192 :: u32) div PGSIZE). unat (PDX (0x00C00000 + of_nat i * PGSIZE)) \<noteq> UVPT_index"
    unfolding n by (auto simp: PDX_def dest!: less_2_cases)
  from boot_map_region_maps [OF sample_big_ok sample_big_missing this, of "0x5000" 2]
  obtain t where t: "run (boot_map_region 14 0x00C00000 8192 0x5000 2) sample_big = (Ret (), t)"
      "\<forall>va'. unat (PDX va') \<noteq> UVPT_index \<longrightarrow>
        (\<forall>i < 2. PGNUM va' = PGNUM (0x00C00000 + of_nat i * PGSIZE) \<longrightarrow>
            entry t 14 va' = ((0x5000 + of_nat i * PGSIZE) OR 2 OR PTE_P))"
    unfolding n by blast
  have "entry t 14 0x00C01000 = ((0x5000 + of_nat 1 * PGSIZE) OR 2 OR PTE_P)"
    using t(2) [rule_format, of "0x00C01000" 1] by (simp add: PDX_def PGNUM_def)
  then show ?thesis using t(1) by auto
qed

text \<open>C4. A page directory is a finite map. Under an invariant on free pages, reference counts and
  tables, every sequence of \<open>page_insert\<close> and \<open>page_remove\<close> calls, on pages the caller holds a
  reference to, returns; the mappings afterwards are those of the same sequence of updates and
  deletions on the map, and \<open>page_lookup\<close> finds at each page what the map has there.\<close>

theorem address_space_refines:
  assumes "space_inv pd H s xs (length ops)"
    and "\<forall>op \<in> set ops. allowed user_page (\<lambda>p. p \<in> H) (\<lambda>perm. perm < 4096) op" and "user_page v"
  shows "\<exists>t. run (forP ops (perform (map_page pd) (unmap_page pd))) s = (Ret (), t)
    \<and> space t pd = fold map_step ops (space s pd)
    \<and> run (mapped_page pd v) t = (Ret (map_option fst (fold map_step ops (space s pd) v)), t)"
proof -
  have "\<exists>xs. space_inv pd H s xs (length ops + 0)" using assms(1) by auto
  from vm.simulation [OF this assms(2)] obtain t xs' where
    t: "run (forP ops (perform (map_page pd) (unmap_page pd))) s = (Ret (), t)" "space_inv pd H t xs' 0"
    "space t pd = fold map_step ops (space s pd)" by blast
  then show ?thesis using mapped_page_law [OF t(2) assms(3)] by auto
qed

lemma sample_big_entry:
  "user_page v \<Longrightarrow> entry sample_big 14 (page_va v) = (if v = 2048 then 0xD007 else 0)"
proof -
  assume "user_page v"
  then have v: "v < 1048576" by (simp add: user_page_def)
  have "unat (page_va v) = 4096 * v" unfolding page_va_def using v by (intro unat_of_nat32) simp
  then have "unat (PTX (page_va v)) = v mod 1024" by (simp add: unat_PTX)
  then have "entry sample_big 14 (page_va v) = (if v div 1024 = 2 \<and> v mod 1024 = 0 then 0xD007 else 0)"
    using page_va_index(2) [OF v]
    by (simp add: entry_def pde_at_def sample_big_def sample_dir sample_table sample_frames)
  moreover have "v div 1024 = 2 \<and> v mod 1024 = 0 \<longleftrightarrow> v = 2048" by auto
  ultimately show ?thesis by simp
qed

lemma sample_big_space: "space sample_big 14 = [2048 \<mapsto> (13, 7)]"
proof
  fix v
  have "user_page 2048" by (simp add: user_page_def)
  then show "space sample_big 14 v = [2048 \<mapsto> (13, 7)] v"
    using sample_big_entry [of v] sample_frames by (auto simp: space_def Let_def)
qed

lemma sample_big_uses: "uses sample_big 14 y = of_bool (y = 13)"
proof -
  have "user_page 2048" by (simp add: user_page_def)
  then have "{v. user_page v \<and> present (entry sample_big 14 (page_va v)) \<and> frame_of (entry sample_big 14 (page_va v)) = y}
      = (if y = 13 then {2048} else {})"
    using sample_big_entry sample_frames by (auto split: if_splits)
  then show ?thesis by (simp add: uses_def)
qed

lemma sample_big_inv: "space_inv 14 {15} sample_big big_free 4"
proof -
  have "tables sample_big 14 = {12}"
    using sample_tables by (simp add: sample_big_def tables_def table_slots_def)
  then show ?thesis
    using sample_big_ok sample_big_missing by (simp add: space_inv_def sample_big_uses) (simp add: sample_big_def)
qed

theorem address_space_refines_witness:
  "\<exists>t. run (forP [Map 3072 15 6, Map 3073 15 2, Unmap 2048, Unmap 3072] (perform (map_page 14) (unmap_page 14))) sample_big
      = (Ret (), t)
    \<and> space t 14 = [3073 \<mapsto> (15, 3)] \<and> run (mapped_page 14 3073) t = (Ret (Some 15), t)"
proof -
  let ?ops = "[Map 3072 15 6, Map 3073 15 2, Unmap 2048, Unmap 3072] :: nat map_op list"
  have "space_inv 14 {15} sample_big big_free (length ?ops)" using sample_big_inv by (simp add: numeral_eq_Suc)
  moreover have "\<forall>op \<in> set ?ops. allowed user_page (\<lambda>p. p \<in> {15}) (\<lambda>perm. perm < 4096) op"
    by (simp add: user_page_def)
  moreover have "user_page 3073" by (simp add: user_page_def)
  ultimately have "\<exists>t. run (forP ?ops (perform (map_page 14) (unmap_page 14))) sample_big = (Ret (), t)
    \<and> space t 14 = fold map_step ?ops (space sample_big 14)
    \<and> run (mapped_page 14 3073) t = (Ret (map_option fst (fold map_step ?ops (space sample_big 14) 3073)), t)"
    by (rule address_space_refines)
  moreover have "fold map_step ?ops (space sample_big 14) = [3073 \<mapsto> (15, 3)]"
    by (auto simp: sample_big_space fun_eq_iff)
  ultimately show ?thesis by simp
qed

section \<open>User pointers\<close>

text \<open>C13. For a range of at least one byte that does not reach the end of the address space,
  \<open>user_mem_check\<close> returns 0 exactly when every byte of it lies below \<^verbatim>\<open>ULIM\<close> in a page that has a
  page table and whose entry has all the bits of \<open>perm\<close>, and \<^verbatim>\<open>-E_FAULT\<close> otherwise. The comment above
  the function promises \<^verbatim>\<open>perm | PTE_P\<close>: the code does not add \<^verbatim>\<open>PTE_P\<close>, so an entry with the bits of
  \<open>perm\<close> whose present bit is clear is accepted, unless \<open>perm\<close> itself has that bit.\<close>

theorem user_mem_check_exact:
  assumes "pgdir_ok s pd xs" and "env_pgdir (envs s e) = Some pd"
    and "unat va + unat len + 4095 < 2 ^ 32" and "len \<noteq> 0"
  shows "fst (run (user_mem_check (Some e) va len perm) s) =
     (if \<forall>a. unat va \<le> unat a \<and> unat a < unat va + unat len \<longrightarrow>
             a < ULIM \<and> present (pde_at s pd a) \<and> entry s pd a AND perm = perm
      then Ret 0 else Ret (- E_FAULT))"
  using user_mem_check_decides [OF assms, of perm] unfolding user_ok_def .

text \<open>The sample machine with the present bit of an entry cleared.\<close>

definition sample_absent :: kstate where
  "sample_absent = store_word 12 0 0xD006 sample"

lemma sample_absent_ok: "pgdir_ok sample_absent 14 sample_free" "envs sample_absent = sample_env"
proof -
  have d: "pmem sample_absent 14 = pmem sample 14" by (simp add: sample_absent_def store_word_def)
  then have t: "table_slots sample_absent 14 = table_slots sample 14" "tables sample_absent 14 = tables sample 14"
    by (simp_all add: tables_def table_slots_def)
  have "free_pages sample_absent sample_free = free_pages sample sample_free" "machine_ok sample_absent = machine_ok sample"
    "npages sample_absent = npages sample"
    by (simp_all add: sample_absent_def free_pages_def machine_ok_def)
  then show "pgdir_ok sample_absent 14 sample_free"
    using sample_pgdir_ok unfolding pgdir_ok_def d t by simp
  show "envs sample_absent = sample_env" by (simp add: sample_absent_def)
qed

theorem user_mem_check_exact_witness:
  "fst (run (user_mem_check (Some 0) 0x00C00000 16 5) sample) = Ret (- E_FAULT)
    \<and> fst (run (user_mem_check (Some 0) 0x00800000 16 PTE_U) sample_absent) = Ret 0"
proof -
  have "\<not> (\<forall>a. unat (0x00C00000 :: u32) \<le> unat a \<and> unat a < unat (0x00C00000 :: u32) + unat (16 :: u32) \<longrightarrow>
      a < ULIM \<and> present (pde_at sample 14 a) \<and> entry sample 14 a AND 5 = 5)"
    using sample_entry(2) by (intro notI) (auto dest!: spec [of _ "0x00C00000"])
  then have no: "fst (run (user_mem_check (Some 0) 0x00C00000 16 5) sample) = Ret (- E_FAULT)"
    using user_mem_check_exact [OF sample_pgdir_ok, of 0 "0x00C00000" 16 5]
    by (simp add: sample_env_def)
  have "a < ULIM \<and> present (pde_at sample_absent 14 a) \<and> entry sample_absent 14 a AND PTE_U = PTE_U"
    if "0x00800000 \<le> unat a" "unat a < 0x00800010" for a
  proof -
    have "unat a div 4096 = 0x800" using that by (intro div_nat_eqI) simp_all
    then have "PGNUM a = PGNUM 0x00800000" by (simp add: word_unat_eq_iff unat_PGNUM)
    then have "unat (PDX a) = 2" "unat (PTX a) = 0" by (simp_all add: PGNUM_page_index) (simp_all add: PDX_def PTX_def)
    then show ?thesis
      using that by (auto simp: entry_def pde_at_def sample_absent_def store_word_def sample_dir sample_table sample_frames word_less_nat_alt)
  qed
  then have "fst (run (user_mem_check (Some 0) 0x00800000 16 PTE_U) sample_absent) = Ret 0"
    using user_mem_check_exact [OF sample_absent_ok(1), of 0 "0x00800000" 16 PTE_U]
    by (simp add: sample_absent_ok(2) sample_env_def)
  then show ?thesis using no by blast
qed

text \<open>C40. A length that makes \<open>va + len\<close> wrap around is not rejected. When the wrapped end lies in or above
  the page of \<open>va\<close>, \<open>user_mem_check\<close> looks only at the pages from the page of \<open>va\<close> up to that end and
  returns 0 exactly when those allow the access, although the range holds every address from \<open>va\<close> to
  the top of the address space, the kernel's among them.\<close>

theorem user_mem_check_wraps:
  assumes "pgdir_ok s pd xs" and "env_pgdir (envs s e) = Some pd"
    and "2 ^ 32 \<le> unat va + unat len" and "ROUNDDOWN va PGSIZE \<le> va + len" and "unat (va + len) + 4095 < 2 ^ 32"
  shows "fst (run (user_mem_check (Some e) va len perm) s) =
     (if \<forall>a. ROUNDDOWN va PGSIZE \<le> a \<and> a < va + len \<longrightarrow>
             a < ULIM \<and> present (pde_at s pd a) \<and> entry s pd a AND perm = perm
      then Ret 0 else Ret (- E_FAULT))
    \<and> (\<forall>a. va \<le> a \<longrightarrow> (\<exists>i < unat len. a = va + of_nat i))"
proof (intro conjI allI impI)
  fix a :: u32
  assume "va \<le> a"
  moreover have "unat a < 2 ^ 32" using unsigned_less [where 'a = nat, of a] by simp
  ultimately have "unat (a - va) < unat len" "a = va + of_nat (unat (a - va))"
    using assms(3) by (simp_all add: unat_diff32 word_le_nat_alt)
  then show "\<exists>i < unat len. a = va + of_nat i" by blast
qed (rule user_mem_check_wrapped [OF assms(1,2,4,5), unfolded user_ok_def])

theorem user_mem_check_wraps_witness:
  "fst (run (user_mem_check (Some 0) 0x00800800 0xFFFFF900 PTE_U) sample) = Ret 0
    \<and> (\<exists>i < unat (0xFFFFF900 :: u32). KERNBASE = 0x00800800 + of_nat i)"
proof -
  have "a < ULIM \<and> present (pde_at sample 14 a) \<and> entry sample 14 a AND PTE_U = PTE_U"
    if "0x00800000 \<le> a" "a < 0x00800100" for a
  proof -
    have "unat a div 4096 = 0x800"
      using that by (auto simp: word_le_nat_alt word_less_nat_alt intro!: div_nat_eqI)
    then have "PGNUM a = PGNUM 0x00800000" by (simp add: word_unat_eq_iff unat_PGNUM)
    then have "unat (PDX a) = 2" "unat (PTX a) = 0" by (simp_all add: PGNUM_page_index) (simp_all add: PDX_def PTX_def)
    then show ?thesis
      using that by (auto simp: entry_def pde_at_def sample_dir sample_table sample_frames word_less_nat_alt)
  qed
  then have ok: "\<forall>a. 0x00800000 \<le> a \<and> a < 0x00800100 \<longrightarrow>
      a < ULIM \<and> present (pde_at sample 14 a) \<and> entry sample 14 a AND PTE_U = PTE_U" by blast
  have r: "ROUNDDOWN 0x00800800 PGSIZE = 0x00800000" "(0x00800800 :: u32) + 0xFFFFF900 = 0x00800100"
    by (simp_all add: ROUNDDOWN_def)
  have "env_pgdir (envs sample 0) = Some 14" by (simp add: sample_env_def)
  from user_mem_check_wraps [OF sample_pgdir_ok this, of "0x00800800" "0xFFFFF900" PTE_U, unfolded r]
  have w: "fst (run (user_mem_check (Some 0) 0x00800800 0xFFFFF900 PTE_U) sample) = Ret 0"
    "\<forall>a :: u32. 0x00800800 \<le> a \<longrightarrow> (\<exists>i < unat (0xFFFFF900 :: u32). a = 0x00800800 + of_nat i)"
    using ok by auto
  have "(0x00800800 :: u32) \<le> KERNBASE" by simp
  then show ?thesis using w by blast
qed

section \<open>The first page tables\<close>

text \<open>C34. With the tables of \<^verbatim>\<open>kern/entrypgdir.c\<close> installed, addresses in \<open>[KERNBASE, KERNBASE + 4MB)\<close>
  and, for reading, \<open>[0, 4MB)\<close> reach the same offset of the first 4 MB of physical memory;
  nothing else is mapped, and the low mapping refuses writes once \<^verbatim>\<open>CR0_WP\<close> is set.\<close>

theorem entry_tables_map:
  assumes "entry_paging pd pt s"
  shows "translate write va s =
    (if KERNBASE \<le> va \<and> va < KERNBASE + 0x400000 then Some (unat (va - KERNBASE) div 4096)
     else if va < 0x400000 \<and> \<not> (write \<and> cr0 s AND CR0_WP \<noteq> 0) then Some (unat va div 4096)
     else None)"
proof (cases "KERNBASE \<le> va \<and> va < KERNBASE + 0x400000")
  case True
  define a where "a = unat (va - KERNBASE)"
  have v: "unat va = 0xF0000000 + a" using True by (simp add: a_def unat_diff32 word_le_nat_alt)
  moreover have "unat va < 0xF0400000" using True by (simp add: word_less_nat_alt)
  ultimately have a: "a < 0x400000" by simp
  have "unat va div 4194304 = 960"
    unfolding v using a by (subst div_plus_div_distrib_dvd_left) simp_all
  moreover have "unat va div 4096 = 960 * 1024 + a div 4096"
    unfolding v by (subst div_plus_div_distrib_dvd_left) simp_all
  moreover from this have "unat va div 4096 mod 1024 = a div 4096"
    using a by (simp only: mod_mult_self3) simp
  ultimately show ?thesis using True by (simp add: entry_translate [OF assms] unat_PDX unat_PTX a_def)
next
  case False
  have "unat va div 4194304 \<noteq> 960"
    using False by (auto simp: word_le_nat_alt word_less_nat_alt)
  moreover have "unat va div 4194304 = 0 \<longleftrightarrow> va < 0x400000"
    by (simp add: word_less_nat_alt div_eq_0_iff)
  ultimately show ?thesis using False
    by (auto simp: entry_translate [OF assms] unat_PDX unat_PTX word_less_nat_alt)
qed

definition sample_entry_state :: kstate where
  "sample_entry_state = sample\<lparr>cr3 := page2pa 3, pmem := (\<lambda>f i. if f = 3 then entry_pgdir (frame_kva 4) i
     else if f = 4 \<and> i < 1024 then entry_pgtable ! i else 0)\<rparr>"

theorem entry_tables_map_witness:
  "translate False 0xF0123456 sample_entry_state = Some 0x123"
proof -
  have "entry_paging 3 4 sample_entry_state" by (simp add: entry_paging_def sample_entry_state_def)
  from entry_tables_map [OF this, of False "0xF0123456"] show ?thesis by simp
qed

end
