(* ===== verification/ProcProps.thy ===== *)
theory ProcProps
  imports Sample EnvFree
begin

text \<open>
  The properties of environments, the scheduler, traps and system calls, and the big kernel
  lock, over the definitions of \<open>EnvC\<close>, \<open>Sched\<close>, \<open>Trap\<close>, \<open>Syscall\<close> and \<open>Spinlock\<close>.
\<close>

section \<open>Environments\<close>

text \<open>\<open>env_init\<close> marks all 1024 environments free with id 0 and puts them on the free list in
  the order of the array, so that the first \<open>env_alloc\<close> returns \<^verbatim>\<open>envs[0]\<close>.\<close>

lemma env_init_orders:
  "\<exists>t. run env_init s = (Ret (), t)
    \<and> linked (\<lambda>i. env_link (envs t i)) (env_free_list t) [0..<NENV] \<and> env_free_list t = Some 0
    \<and> (\<forall>i < NENV. env_status (envs t i) = ENV_FREE \<and> env_id (envs t i) = 0)"
  using env_init_run [of s] unfolding env_init_upto_def by auto

text \<open>C16. The id \<open>env_alloc\<close> gives a new environment is positive as an \<^verbatim>\<open>int\<close> and is found by
  \<open>envid2env\<close> in the slot allocated; the id the slot had before is not valid any more.\<close>

theorem env_alloc_id:
  assumes "env_free_list s = Some e" and "e < NENV" and "free_pages s (x # xs)" and "machine_ok s"
  shows "\<exists>t i. run (env_alloc parent) s = (Ret (0, Some e), t) \<and> env_id (envs t e) = i
    \<and> 0 <s i \<and> run (envid2env i False) t = (Ret (0, Some e), t)
    \<and> env_status (envs t e) = ENV_RUNNABLE \<and> env_parent_id (envs t e) = parent
    \<and> (env_id (envs s e) \<noteq> 0 \<and> ENVX (env_id (envs s e)) = e \<longrightarrow>
         run (envid2env (env_id (envs s e)) False) t = (Ret (- E_BAD_ENV, None), t))"
proof -
  let ?old = "env_id (envs s e)" and ?i = "new_env_id (env_id (envs s e)) e"
  obtain t where t: "run (env_alloc parent) s = (Ret (0, Some e), t)"
      "envs t = (envs s)(e := fresh_env e parent x (envs s e))"
    using env_alloc_run [OF assms(1,3,4), of parent] by blast
  have pos: "0 <s ?i" by (rule new_env_id_pos [OF assms(2)])
  then have nz: "?i \<noteq> 0" by auto
  have "run (envid2env ?i False) t = (Ret (0, Some e), t)"
    unfolding envid2env_unchecked [OF nz] ENVX_new_env_id [OF assms(2)] t(2)
    by (simp add: fresh_env_def)
  moreover have "run (envid2env ?old False) t = (Ret (- E_BAD_ENV, None), t)"
    if "?old \<noteq> 0" "ENVX ?old = e"
    unfolding envid2env_unchecked [OF that(1)] that(2) t(2)
    using new_env_id_fresh [OF assms(2), of ?old] by (simp add: fresh_env_def)
  ultimately show ?thesis using t pos by (auto simp: fresh_env_def)
qed

theorem env_alloc_id_witness:
  "\<exists>t i. run (env_alloc 7) sample = (Ret (0, Some 1), t) \<and> env_id (envs t 1) = i \<and> 0 <s i
    \<and> run (envid2env i False) t = (Ret (0, Some 1), t)"
proof -
  have "env_free_list sample = Some 1" by simp
  from env_alloc_id [OF this _ sample_pages_free [unfolded sample_free_def] sample_machine_ok, of 7]
  show ?thesis by auto
qed

text \<open>C17. \<open>env_free\<close> gives back all an environment has: it returns with the environment free and at the
  head of the list of free environments, and the page directory, every page table below \<^verbatim>\<open>UTOP\<close>, and
  every page all of whose references were mappings of this environment are on the free list of
  pages. Every other page loses as many references as the environment had mappings of it.\<close>

theorem env_free_reclaims:
  assumes "pgdir_ok s pd xs" and "space_ok s pd xs" and "env_pgdir (envs s e) = Some pd"
    and "pp_ref (pages s pd) = 1" and "kern_pgdir s < 65536"
  shows "\<exists>t zs. run (env_free e) s = (Ret (), t) \<and> free_pages t (pd # zs)
    \<and> set zs = set xs \<union> user_tables s pd UTOP_index
        \<union> {y. 0 < space_uses s pd UTOP_index y \<and> space_uses s pd UTOP_index y = unat (pp_ref (pages s y))}
    \<and> (\<forall>y. y \<noteq> pd \<and> y \<notin> user_tables s pd UTOP_index \<longrightarrow>
          unat (pp_ref (pages t y)) = unat (pp_ref (pages s y)) - space_uses s pd UTOP_index y)
    \<and> env_status (envs t e) = ENV_FREE \<and> env_free_list t = Some e \<and> env_link (envs t e) = env_free_list s
    \<and> (\<forall>i. i \<noteq> e \<longrightarrow> envs t i = envs s i)"
proof -
  obtain t zs where t: "run (env_free e) s = (Ret (), t)" "free_pages t (pd # zs)"
    "set zs = set xs \<union> (user_tables s pd UTOP_index
        \<union> {y. 0 < space_uses s pd UTOP_index y \<and> space_uses s pd UTOP_index y = unat (pp_ref (pages s y))})"
    "\<forall>y. y \<noteq> pd \<longrightarrow> unat (pp_ref (pages t y)) = unat (pp_ref (pages s y)) - space_drop s pd UTOP_index y"
    "envs t = (envs s)(e := (envs s e)\<lparr>env_pgdir := None, env_status := ENV_FREE, env_link := env_free_list s\<rparr>)"
    "env_free_list t = Some e"
    using env_free_run [OF assms] unfolding freed_pages [OF assms(2)] by blast
  have "unat (pp_ref (pages t y)) = unat (pp_ref (pages s y)) - space_uses s pd UTOP_index y"
    if "y \<noteq> pd" "y \<notin> user_tables s pd UTOP_index" for y
    using t(4) that by (simp add: space_drop_def)
  then show ?thesis using t(1,2,3,5,6) by (intro exI [of _ t] exI [of _ zs]) (simp add: Un_assoc)
qed

lemma sample_slots_user:
  assumes "d < 1024" and "i < 1024"
  shows "slot_entry sample 14 d i = (if d = 2 \<and> i = 0 then 0xD007 else 0)"
  using assms by (simp add: slot_entry_alt sample_dir sample_table sample_frames)

lemma sample_row_uses: "d < 1024 \<Longrightarrow> row_uses sample 14 d 1024 y = of_bool (d = 2 \<and> y = 13)"
proof -
  assume d: "d < 1024"
  have "row_uses sample 14 d 1024 y = (\<Sum>i<(1024 :: nat). if i = 0 then of_bool (d = 2 \<and> y = 13) else 0)"
    unfolding row_uses_def maps_to_def using d
    by (intro sum.cong refl) (auto simp: sample_slots_user sample_frames)
  then show ?thesis by simp
qed

lemma sample_space_uses: "space_uses sample 14 UTOP_index y = of_bool (y = 13)"
proof -
  have "space_uses sample 14 UTOP_index y = (\<Sum>d<(955 :: nat). if d = 2 then of_bool (y = 13) else 0)"
    unfolding space_uses_def by (intro sum.cong refl) (auto simp: sample_row_uses)
  then show ?thesis by simp
qed

lemma sample_user_tables: "user_tables sample 14 UTOP_index = {12}"
  by (auto simp: user_tables_def sample_dir sample_frames)

lemma sample_space_ok: "space_ok sample 14 sample_free"
proof -
  have "mapped_ok sample 14 sample_free (slot_va d i)" if "d < 1024" "i < 1024" for d i
    using sample_slots_user [OF that] sample_frames
    by (simp add: mapped_ok_def slot_entry_def data_page_def sample_tables sample_free_def)
  then show ?thesis
    by (simp add: space_ok_def sample_space_uses sample_user_tables) (simp add: sample_page_def)
qed

theorem env_free_reclaims_witness:
  "\<exists>t zs. run (env_free 0) sample = (Ret (), t) \<and> free_pages t (14 # zs) \<and> set zs = insert 12 (insert 13 (set sample_free))
    \<and> env_status (envs t 0) = ENV_FREE \<and> env_free_list t = Some 0"
proof -
  have h: "env_pgdir (envs sample 0) = Some 14" "pp_ref (pages sample 14) = 1" "kern_pgdir sample < 65536"
    by (simp_all add: sample_env_def sample_page_def)
  have "{y. 0 < space_uses sample 14 UTOP_index y
      \<and> space_uses sample 14 UTOP_index y = unat (pp_ref (pages sample y))} = {13}"
    by (auto simp: sample_space_uses sample_page_def)
  moreover have "set sample_free \<union> {12} \<union> {13} = insert 12 (insert 13 (set sample_free))" by blast
  ultimately show ?thesis
    using env_free_reclaims [OF sample_pgdir_ok sample_space_ok h] unfolding sample_user_tables by auto
qed

section \<open>System calls and traps\<close>

lemma trapped_cpu: "cpu_env (cpus (trapped c tf s) (cpunum s)) = curenv s"
  by (simp add: trapped_def Let_def)

text \<open>C23. A \<open>sys_getenvid\<close> of a running user environment comes back to user mode with the
  environment's id in \<^verbatim>\<open>eax\<close>, every other register of the frame and all memory unchanged, and
  the environment's own address space loaded.\<close>

theorem getenvid_round_trip:
  assumes "from_user c tf s" and "tf_trapno tf = 48" and "reg_eax (tf_regs tf) = SYS_getenvid"
    and "env_pgdir (envs s c) = Some pd" and "pd < 65536"
  shows "\<exists>u. run (trap addr tf) s = (Stop UserMode, u) \<and> curenv u = Some c
    \<and> env_tf (envs u c) = tf\<lparr>tf_regs := (tf_regs tf)\<lparr>reg_eax := env_id (envs s c)\<rparr>\<rparr>
    \<and> cr3 u = page2pa pd \<and> pmem u = pmem s"
proof -
  let ?t = "trapped c tf s"
  have cur: "curenv ?t = Some c" using assms(1) by (simp add: trapped_sel trapped_cpu from_user_def)
  have call: "run (syscall (reg_eax (tf_regs tf)) (reg_edx (tf_regs tf)) (reg_ecx (tf_regs tf))
      (reg_ebx (tf_regs tf)) (reg_edi (tf_regs tf)) (reg_esi (tf_regs tf))) ?t = (Ret (env_id (envs s c)), ?t)"
    using cur assms(3) by (simp add: syscall_def sys_getenvid_def prog_simps trapped_sel)
  have "env_status (envs ?t c) = ENV_RUNNING" "env_tf (envs ?t c) = tf" "env_pgdir (envs ?t c) = Some pd"
    using assms(1,4) by (simp_all add: trapped_sel from_user_def)
  moreover have "pmem ?t = pmem s" by (simp add: trapped_def Let_def)
  ultimately show ?thesis
    using syscall_returns [OF assms(1,2) call cur _ _ _ assms(5), of addr] by (simp add: set_eax_def)
qed

definition sample_frame :: "u32 \<Rightarrow> Trapframe" where
  "sample_frame num = new_env_tf\<lparr>tf_trapno := 48, tf_regs := zero_regs\<lparr>reg_eax := num, reg_ebx := 77\<rparr>\<rparr>"

lemma sample_from_user: "from_user 0 (sample_frame n) sample"
  by (simp add: from_user_def sample_frame_def new_env_tf_def sample_env_def) (simp add: sample_def)

theorem getenvid_round_trip_witness:
  "\<exists>u. run (trap 0 (sample_frame 2)) sample = (Stop UserMode, u) \<and> curenv u = Some 0
    \<and> reg_eax (tf_regs (env_tf (envs u 0))) = 0x1000 \<and> reg_ebx (tf_regs (env_tf (envs u 0))) = 77
    \<and> cr3 u = 0xE000"
proof -
  have "tf_trapno (sample_frame 2) = 48" "reg_eax (tf_regs (sample_frame 2)) = SYS_getenvid"
      "env_pgdir (envs sample 0) = Some 14" "(14 :: nat) < 65536"
    by (simp_all add: sample_frame_def sample_env_def)
  from getenvid_round_trip [OF sample_from_user this, of 0] show ?thesis
    by (auto simp: sample_frame_def sample_env_def page2pa_def)
qed

text \<open>C38. A system call number that is not dispatched, which includes the numbers of all calls of
  the last assignment and \<^verbatim>\<open>SYS_yield\<close>, comes back to user mode with \<^verbatim>\<open>-E_INVAL\<close> in \<^verbatim>\<open>eax\<close>.\<close>

theorem unknown_syscall_round_trip:
  assumes "from_user c tf s" and "tf_trapno tf = 48"
    and "4 \<le> unat (reg_eax (tf_regs tf))" and "reg_eax (tf_regs tf) \<noteq> NSYSCALLS"
    and "env_pgdir (envs s c) = Some pd" and "pd < 65536"
  shows "\<exists>u. run (trap addr tf) s = (Stop UserMode, u) \<and> curenv u = Some c
    \<and> env_tf (envs u c) = tf\<lparr>tf_regs := (tf_regs tf)\<lparr>reg_eax := - E_INVAL\<rparr>\<rparr> \<and> pmem u = pmem s"
proof -
  let ?t = "trapped c tf s"
  have cur: "curenv ?t = Some c" using assms(1) by (simp add: trapped_sel trapped_cpu from_user_def)
  have "env_status (envs ?t c) = ENV_RUNNING" "env_tf (envs ?t c) = tf" "env_pgdir (envs ?t c) = Some pd"
    using assms(1,5) by (simp_all add: trapped_sel from_user_def)
  moreover have "pmem ?t = pmem s" by (simp add: trapped_def Let_def)
  ultimately show ?thesis
    using syscall_returns [OF assms(1,2) syscall_invalid [OF assms(3,4)] cur _ _ _ assms(6), of addr]
    by (auto simp: set_eax_def)
qed

theorem unknown_syscall_round_trip_witness:
  "\<exists>u. run (trap 0 (sample_frame 10)) sample = (Stop UserMode, u) \<and> curenv u = Some 0
    \<and> reg_eax (tf_regs (env_tf (envs u 0))) = - 3"
proof -
  have "tf_trapno (sample_frame 10) = 48" "4 \<le> unat (reg_eax (tf_regs (sample_frame 10)))"
      "reg_eax (tf_regs (sample_frame 10)) \<noteq> NSYSCALLS" "env_pgdir (envs sample 0) = Some 14" "(14 :: nat) < 65536"
    by (simp_all add: sample_frame_def sample_env_def)
  from unknown_syscall_round_trip [OF sample_from_user this, of 0] show ?thesis by auto
qed

lemma sample_translate: "translate False (0x00800000 + of_nat i) sample = Some 13" if "i < 4096"
proof -
  have u: "unat (0x00800000 + of_nat i :: u32) = 0x00800000 + i"
    using that by (subst unat_add_small32) (simp_all add: unat_of_nat32)
  have "unat (PDX (0x00800000 + of_nat i)) = 2" "unat (PTX (0x00800000 + of_nat i)) = 0"
    using that by (simp_all add: unat_PDX unat_PTX u div_plus_div_distrib_dvd_left)
  moreover have "unat (PGNUM (cr3 sample)) = 14" by (simp add: PGNUM_def)
  ultimately show ?thesis by (simp add: translate_def Let_def sample_dir sample_table sample_frames)
qed

lemma sample_peek: "peek8 (0x00800000 + of_nat i) sample = Some (byte_of 0x21676f6c (i mod 4))" if "i < 4096"
proof -
  have u: "unat (0x00800000 + of_nat i :: u32) = 0x00800000 + i"
    using that by (subst unat_add_small32) (simp_all add: unat_of_nat32)
  have "unat (PGOFF (0x00800000 + of_nat i)) = unat (0x00800000 + of_nat i :: u32) mod 4096"
    by (simp add: PGOFF_alt take_bit_eq_mod unat_mod)
  also have "\<dots> = i" unfolding u using that by (subst mod_add_eq [symmetric]) simp
  finally show ?thesis using that
    by (simp add: peek8_def sample_translate) (simp add: sample_memory_def)
qed

lemma sample_check:
  assumes "pages_touched va len = 1" and "entry sample 14 va = 0xD007" and "va < ULIM" and "present (pde_at sample 14 va)"
  shows "run (user_mem_check (Some 0) va len PTE_U) sample = (Ret 0, sample)"
proof -
  have "env_pgdir (envs sample 0) = Some 14" by (simp add: sample_env_def)
  from user_mem_check_run [OF sample_pgdir_ok this, of va len PTE_U]
  show ?thesis using assms by (simp add: user_ok_def)
qed

text \<open>C30. The kernel's \<^verbatim>\<open>"%.*s"\<close> reads one byte past the string it has checked: when the string
  has no terminator and ends where the mapping ends, \<open>sys_cputs\<close> prints all of it and then faults
  in the kernel, although \<open>user_mem_assert\<close> has accepted the arguments.\<close>

theorem sys_cputs_reads_past:
  assumes "run (user_mem_check (curenv s) str len PTE_U) s = (Ret 0, s)" and "0 \<le>s len" and "str \<noteq> 0"
    and "length bs = unat len" and "\<forall>i < unat len. peek8 (str + of_nat i) s = Some (bs ! i) \<and> bs ! i \<noteq> 0"
    and "peek8 (str + len) s = None"
  shows "run (sys_cputs str len) s = (Stop BadAccess, s\<lparr>console := console s @ map scast bs\<rparr>)"
  using assms by (rule sys_cputs_overrun)

theorem sys_cputs_reads_past_witness:
  "run (sys_cputs 0x00800FFC 4) sample = (Stop BadAccess, sample\<lparr>console := console sample @ [0x6C, 0x6F, 0x67, 0x21]\<rparr>)"
proof -
  have "pages_touched 0x00800FFC 4 = 1" by (simp add: pages_touched_def ROUNDUP_def ROUNDDOWN_def)
  then have c: "run (user_mem_check (curenv sample) 0x00800FFC 4 PTE_U) sample = (Ret 0, sample)"
    using sample_check [of "0x00800FFC" 4]
    by (simp add: entry_def pde_at_def sample_dir sample_table sample_frames PDX_def PTX_def)
  have past: "peek8 (0x00800FFC + 4) sample = None"
    by (simp add: peek8_def translate_def Let_def PDX_def PTX_def PGNUM_def sample_dir sample_table)
  have "\<forall>i < unat (4 :: u32). peek8 (0x00800FFC + of_nat i) sample = Some ([0x6C, 0x6F, 0x67, 0x21] ! i)
      \<and> [0x6C, 0x6F, 0x67, 0x21] ! i \<noteq> (0 :: u8)"
  proof (intro allI impI)
    fix i :: nat
    assume "i < unat (4 :: u32)"
    then have "i = 0 \<or> i = 1 \<or> i = 2 \<or> i = 3" by auto
    then show "peek8 (0x00800FFC + of_nat i) sample = Some ([0x6C, 0x6F, 0x67, 0x21] ! i) \<and> [0x6C, 0x6F, 0x67, 0x21] ! i \<noteq> (0 :: u8)"
      using sample_peek [of 4092] sample_peek [of 4093] sample_peek [of 4094] sample_peek [of 4095]
      by (auto simp: byte_of_def)
  qed
  from sys_cputs_reads_past [OF c _ _ _ this past] show ?thesis by (simp add: word_sle_eq)
qed

text \<open>C36. After \<open>trap_init\<close> on an empty table, a gate is present exactly at the vectors of the
  handlers in \<^verbatim>\<open>trapentry.S\<close>, leads to the handler's address in the kernel's code segment, and
  only breakpoint and system call may be raised by user code with \<^verbatim>\<open>int\<close>.\<close>

theorem trap_init_gates:
  assumes "idt s = (\<lambda>v. GATE_ZERO)"
  shows "\<exists>t. run trap_init s = (Ret (), t) \<and> idt_loaded t \<and>
    (\<forall>v. if v \<in> {0, 1, 2, 3, 4, 5, 6, 7, 8, 10, 11, 12, 13, 14, 16, 17, 18, 19, 48}
         then gd_p (idt t v) = 1 \<and> gate_offset (idt t v) = sym_trap_label (ksym s) v
              \<and> gd_sel (idt t v) = GD_KT \<and> (gd_dpl (idt t v) = 3 \<longleftrightarrow> v = 3 \<or> v = 48)
         else idt t v = GATE_ZERO)"
proof -
  obtain t where t: "run trap_init s = (Ret (), t)" "idt_loaded t"
      "idt t = (\<lambda>v. case gate_of (ksym s) v of None \<Rightarrow> idt s v | Some g \<Rightarrow> g)"
    using trap_init_run by blast
  have vs: "gate_of (ksym s) v = None \<longleftrightarrow>
      v \<notin> {0, 1, 2, 3, 4, 5, 6, 7, 8, 10, 11, 12, 13, 14, 16, 17, 18, 19, 48}" for v
    by (simp add: gate_of_def map_of_eq_None_iff) (simp add: trap_gates_def)
  have "if v \<in> {0, 1, 2, 3, 4, 5, 6, 7, 8, 10, 11, 12, 13, 14, 16, 17, 18, 19, 48}
         then gd_p (idt t v) = 1 \<and> gate_offset (idt t v) = sym_trap_label (ksym s) v
              \<and> gd_sel (idt t v) = GD_KT \<and> (gd_dpl (idt t v) = 3 \<longleftrightarrow> v = 3 \<or> v = 48)
         else idt t v = GATE_ZERO" for v
  proof (cases "gate_of (ksym s) v")
    case None
    then show ?thesis using vs [of v] assms unfolding t(3) by simp
  next
    case (Some g)
    then show ?thesis using vs [of v] gate_of_dpl [OF Some] unfolding t(3) by simp
  qed
  then show ?thesis using t(1,2) by blast
qed

theorem trap_init_gates_witness:
  "\<exists>t. run trap_init sample = (Ret (), t) \<and> gate_offset (idt t 14) = 0xf010408c \<and> gd_dpl (idt t 48) = 3"
proof -
  have "idt sample = (\<lambda>v. GATE_ZERO)" by simp
  from trap_init_gates [OF this] obtain t where t: "run trap_init sample = (Ret (), t)"
      and g: "\<And>v. if v \<in> {0, 1, 2, 3, 4, 5, 6, 7, 8, 10, 11, 12, 13, 14, 16, 17, 18, 19, 48}
         then gd_p (idt t v) = 1 \<and> gate_offset (idt t v) = sym_trap_label (ksym sample) v
              \<and> gd_sel (idt t v) = GD_KT \<and> (gd_dpl (idt t v) = 3 \<longleftrightarrow> v = 3 \<or> v = 48)
         else idt t v = GATE_ZERO" by blast
  show ?thesis using t g [of 14] g [of 48] by (simp add: sample_syms_def)
qed

section \<open>Scheduler and lock\<close>

text \<open>C24. The spin lock excludes: in every reachable interleaving of CPUs that execute
  \<open>spin_lock\<close> and \<open>spin_unlock\<close> around their critical sections, at most one CPU is inside, the
  lock word is set while one is, \<^verbatim>\<open>lk->cpu\<close> names it, and no CPU panics.\<close>

theorem spinlock_excludes:
  assumes "reachable lock_init lock_step x"
  shows "(lk_pc x c = Inside \<and> lk_pc x d = Inside \<longrightarrow> c = d)
    \<and> (lk_pc x c = Inside \<longrightarrow> lk_locked x \<noteq> 0 \<and> lk_owner x = Some c) \<and> lk_pc x c \<noteq> Panicked"
  using lock.always [OF assms] unfolding lock_inv_def by (metis owns_simps(2))

definition lock_start :: lock_sys where
  "lock_start = \<lparr>lk_locked = 0, lk_owner = None, lk_pc = (\<lambda>_. Outside)\<rparr>"

definition lock_entered :: lock_sys where
  "lock_entered = set_pc 0 Inside ((set_pc 0 Recording ((set_pc 0 Trying lock_start)\<lparr>lk_locked := 1\<rparr>))\<lparr>lk_owner := Some 0\<rparr>)"

lemma lock_entered_reachable: "reachable lock_init lock_step lock_entered"
proof -
  let ?a = "set_pc 0 Trying lock_start"
  let ?b = "set_pc 0 Recording (?a\<lparr>lk_locked := 1\<rparr>)"
  have "reachable lock_init lock_step lock_start"
    by (rule reachable.start) (simp add: lock_init_def lock_start_def)
  moreover have "lock_step lock_start ?a"
    by (rule lock_step.check_free) (simp_all add: lock_start_def)
  moreover have "lock_step ?a ?b"
    by (rule lock_step.xchg_get) (simp_all add: lock_start_def)
  moreover have "lock_step ?b lock_entered"
    unfolding lock_entered_def by (rule lock_step.note_owner) simp
  ultimately show ?thesis by (blast intro: reachable.more)
qed

theorem spinlock_excludes_witness:
  "lk_pc lock_entered 0 = Inside \<and> lk_locked lock_entered \<noteq> 0 \<and> lk_owner lock_entered = Some 0"
proof -
  have "lk_pc lock_entered 0 = Inside" by (simp add: lock_entered_def)
  then show ?thesis using spinlock_excludes [OF lock_entered_reachable, of 0 0] by simp
qed

end
