(* ===== verification/Failing.thy ===== *)
theory Failing
  imports Sched
begin

text \<open>
  Computations that stop only by failing: with a panic, a fault or an endless loop, never by going
  to user mode, halting or jumping to a program. The memory manager, the monitor and the
  printing functions are of this kind.
\<close>

section \<open>Computations that stop only by failing\<close>

fun failure :: "stop \<Rightarrow> bool" where
  "failure (Panic msg) \<longleftrightarrow> True"
| "failure BadAccess \<longleftrightarrow> True"
| "failure Spinning \<longleftrightarrow> True"
| "failure _ \<longleftrightarrow> False"

definition fails_only :: "('s, 'a) prog \<Rightarrow> bool" where
  "fails_only m \<longleftrightarrow> (\<forall>s e t. run m s = (Stop e, t) \<longrightarrow> failure e)"

named_theorems fails_rules "computations that stop only by failing"

lemma fails_pure [fails_rules]:
  "fails_only (ret a)" "fails_only (stop (Panic msg))" "fails_only (stop BadAccess)" "fails_only (stop Spinning)"
  "fails_only (gets g)" "fails_only (modify h)" "fails_only (assertP msg b)" "fails_only (deref p)"
  by (auto simp: fails_only_def prog_simps split: option.splits if_splits)

lemma fails_bindP [fails_rules]: "fails_only m \<Longrightarrow> (\<And>a. fails_only (n a)) \<Longrightarrow> fails_only (bindP m n)"
  by (fastforce simp: fails_only_def prog_simps split: prod.splits outcome.splits)

lemma fails_thenP [fails_rules]: "fails_only m \<Longrightarrow> fails_only n \<Longrightarrow> fails_only (thenP m n)"
  unfolding thenP_def by (rule fails_bindP)

lemma fails_if [fails_rules]: "fails_only m \<Longrightarrow> fails_only n \<Longrightarrow> fails_only (if b then m else n)"
  by simp

lemma fails_whenP [fails_rules]: "fails_only m \<Longrightarrow> fails_only (whenP b m)"
  by (simp add: whenP_def fails_pure)

lemma fails_option [fails_rules]:
  "fails_only m \<Longrightarrow> (\<And>a. fails_only (n a)) \<Longrightarrow> fails_only (case x of None \<Rightarrow> m | Some a \<Rightarrow> n a)"
  by (simp split: option.splits)

lemma fails_prod [fails_rules]: "(\<And>a b. fails_only (n a b)) \<Longrightarrow> fails_only (case x of (a, b) \<Rightarrow> n a b)"
  by (simp split: prod.splits)

lemma fails_let [fails_rules]: "(\<And>x. fails_only (f x)) \<Longrightarrow> fails_only (let x = e in f x)"
  by simp

lemma fails_forP [fails_rules]: "(\<And>i. fails_only (body i)) \<Longrightarrow> fails_only (forP is body)"
  by (induction "is") (auto intro: fails_rules)

lemma fails_foldP [fails_rules]: "(\<And>i a. fails_only (body i a)) \<Longrightarrow> fails_only (foldP is body a)"
  by (induction "is" arbitrary: a) (auto intro: fails_rules)

lemma fails_searchP [fails_rules]: "(\<And>i. fails_only (body i)) \<Longrightarrow> fails_only (searchP is body)"
  by (induction "is") (auto intro!: fails_rules)

lemma fails_seqP [fails_rules]:
  "fails_only (seqP [])" "fails_only m \<Longrightarrow> fails_only (seqP ms) \<Longrightarrow> fails_only (seqP (m # ms))"
  by (simp_all add: fails_pure fails_thenP)

lemma fails_cprintf [fails_rules]: "fails_only (cprintf fmt ap)"
  by (auto simp: fails_only_def run_def cprintf_def split: option.splits)

section \<open>The memory manager\<close>

lemmas memory_defs = PADDR_def KADDR_def pa2page_def page2kva_def lcr3_def invlpg_def load_pte_def store_pte_def

lemma fails_address [fails_rules]:
  "fails_only (PADDR kva)" "fails_only (KADDR pa)" "fails_only (pa2page pa)" "fails_only (page2kva pp)"
  "fails_only (lcr3 pa)" "fails_only (invlpg va)" "fails_only (load_pte p)" "fails_only (store_pte p w)"
  unfolding memory_defs by (intro fails_rules)+

lemma fails_allocators [fails_rules]:
  "fails_only (i386_detect_memory cmos)" "fails_only (boot_alloc e n)" "fails_only (page_init e)"
  "fails_only (page_alloc flags)" "fails_only (page_free pp)"
  unfolding i386_detect_memory_def boot_alloc_def page_init_def page_init_body_def page_alloc_def page_free_def
  by (intro fails_rules)+

lemma fails_tables [fails_rules]:
  "fails_only (page_decref pp)" "fails_only (pte_ptr pd va)" "fails_only (pgdir_walk pd va create)"
  "fails_only (tlb_invalidate pd va)" "fails_only (mmio_map_region pa sz)"
  unfolding page_decref_def pgdir_walk_def pte_ptr_def tlb_invalidate_def mmio_map_region_def
  by (intro fails_rules)+

lemma fails_mappings [fails_rules]:
  "fails_only (page_lookup pd va)" "fails_only (page_remove pd va)" "fails_only (page_insert pd pp va perm)"
  "fails_only (boot_map_region pd va sz pa perm)"
  unfolding page_remove_def page_lookup_def page_insert_def boot_map_region_def boot_map_page_def
  by (intro fails_rules)+

lemma fails_virtual [fails_rules]:
  "fails_only (load8 va)" "fails_only (load32 va)" "fails_only (store32 va w)"
  unfolding load8_def load32_def store32_def store8_def by (intro fails_rules)+

lemma fails_user_mem_check [fails_rules]: "fails_only (user_mem_check env va len perm)"
  unfolding user_mem_check_def user_mem_check_page_def Let_def by (intro fails_rules)

section \<open>Environments\<close>

lemma fails_envid2env [fails_rules]: "fails_only (envid2env envid checkperm)"
  unfolding envid2env_def by (intro fails_rules)

lemma fails_env_free [fails_rules]: "fails_only (env_free e)"
  unfolding env_free_def env_free_pde_def env_free_pte_def by (intro fails_rules)

section \<open>The monitor\<close>

lemma fails_colon_pos [fails_rules]: "fails_only (colon_pos n p)"
  by (induction n arbitrary: p) (auto intro!: fails_rules)

lemma fails_name_ptr [fails_rules]:
  "fails_only a \<Longrightarrow> (\<And>p. fails_only (b p)) \<Longrightarrow> fails_only (case x of Unknown \<Rightarrow> a | At p \<Rightarrow> b p)"
  by (simp split: name_ptr.split)

lemma fails_debuginfo [fails_rules]: "fails_only (debuginfo_eip addr)"
  unfolding debuginfo_eip_def debuginfo_search_def search_stabs_def Let_def by (intro fails_rules)

lemma fails_print_trapframe [fails_rules]: "fails_only (print_trapframe p)"
  unfolding print_trapframe_def print_regs_def by (intro fails_rules)

lemma fails_readline [fails_rules]: "fails_only (readline prompt)"
proof -
  have "fails_only (case r of NoInput \<Rightarrow> stop Spinning
      | ReadError c \<Rightarrow> thenP (cprintf ''read error: %e\<newline>'' [VInt c]) (ret None) | Line l \<Rightarrow> ret (Some l))" for r
    by (cases r; simp; intro fails_rules)
  then show ?thesis unfolding readline_def readline_with_def by (intro fails_rules)
qed

lemma fails_runcmd [fails_rules]: "fails_only (runcmd buf)"
proof -
  have "fails_only (run_command c)" for c
    unfolding run_command_def mon_help_def mon_kerninfo_def by (cases c; simp; intro fails_rules)
  then show ?thesis
    unfolding runcmd_def by (auto split: option.split list.split intro!: fails_rules)
qed

lemma fails_monitor_loop [fails_rules]: "fails_only (monitor_loop n)"
  by (induction n) (auto intro!: fails_rules)

lemma fails_monitor [fails_rules]: "fails_only (monitor tf)"
  unfolding monitor_def by (intro fails_rules)

lemma fails_spin_unlock [fails_rules]: "fails_only spin_unlock"
  unfolding spin_unlock_def print_pc_def name_string_def by (intro fails_rules)

section \<open>Not back to user mode\<close>

text \<open>The scheduler halts, which is no failure, but no way to user mode either.\<close>

definition stays_in_kernel :: "('s, 'a) prog \<Rightarrow> bool" where
  "stays_in_kernel m \<longleftrightarrow> (\<forall>s t. run m s \<noteq> (Stop UserMode, t))"

named_theorems stays_rules "computations that do not go to user mode"

lemma stays_bindP [stays_rules]: "stays_in_kernel m \<Longrightarrow> (\<And>a. stays_in_kernel (n a)) \<Longrightarrow> stays_in_kernel (bindP m n)"
  by (auto simp: stays_in_kernel_def prog_simps split: prod.splits outcome.splits)

lemma stays_thenP [stays_rules]: "stays_in_kernel m \<Longrightarrow> stays_in_kernel n \<Longrightarrow> stays_in_kernel (thenP m n)"
  unfolding thenP_def by (rule stays_bindP)

lemma stays_if [stays_rules]:
  "stays_in_kernel m \<Longrightarrow> stays_in_kernel n \<Longrightarrow> stays_in_kernel (if b then m else n)"
  by simp

lemma stays_fails: "fails_only m \<Longrightarrow> stays_in_kernel m"
  unfolding fails_only_def stays_in_kernel_def by (metis failure.simps(4))

lemma stays_stop [stays_rules]: "stays_in_kernel (stop Halted)" "stays_in_kernel (stop MonitorLoop)"
  by (simp_all add: stays_in_kernel_def prog_simps)

lemmas stays_leaves [stays_rules] = fails_pure [THEN stays_fails] fails_cprintf [THEN stays_fails]
  fails_address [THEN stays_fails] fails_monitor [THEN stays_fails] fails_spin_unlock [THEN stays_fails]

lemma stays_sched_yield: "stays_in_kernel sched_yield"
  unfolding sched_yield_def sched_halt_def by (intro stays_rules)

end
