(* ===== verification/Isolation.thy ===== *)
theory Isolation
  imports KernelInv Failing SyscallSpec
begin

text \<open>
  A user program against the kernel. A step of the machine in user mode is a store the page tables
  allow or a trap that the kernel answers by going back to user mode. The kernel's invariant
  holds after every sequence of such steps, so page directories, page tables, free pages and the
  kernel's half of the address space are out of the program's reach.
\<close>

section \<open>The part of the state that matters\<close>

definition core :: "kstate \<Rightarrow> (nat \<Rightarrow> nat \<Rightarrow> u32) \<times> (nat \<Rightarrow> PageInfo) \<times> nat \<times> nat option \<times> nat \<times> nat option
    \<times> (nat \<Rightarrow> Env) \<times> (nat \<Rightarrow> CpuInfo) \<times> nat \<times> bool \<times> u32" where
  "core s = (pmem s, pages s, npages s, page_free_list s, kern_pgdir s, env_free_list s, envs s, cpus s, cpunum s,
     panicstr s, eflags s)"

lemma core_cprintf [keeps_rules]: "keeps core (cprintf fmt ap)"
  by (auto simp: keeps_def run_def cprintf_def core_def split: option.splits)

lemma core_modify [keeps_rules]:
  "keeps core (modify (\<lambda>s. s\<lparr>user_mem_check_addr := g s\<rparr>))" "keeps core (modify (\<lambda>s. s\<lparr>con_in := h s\<rparr>))"
  by (simp_all add: keeps_modify core_def)

lemma core_load8 [keeps_rules]: "keeps core (load8 va)"
  unfolding load8_def by (intro keeps_rules)

lemma core_address [keeps_rules]: "keeps core (KADDR pa)"
  unfolding KADDR_def by (intro keeps_rules)

lemma core_walk: "keeps core (pgdir_walk pd va 0)"
  unfolding pgdir_walk_def pte_ptr_def by (simp cong: if_cong, intro keeps_rules)

lemma core_user_mem_check [keeps_rules]: "keeps core (user_mem_check env va len perm)"
  unfolding user_mem_check_def user_mem_check_page_def load_pte_def Let_def by (intro keeps_rules core_walk)

lemma core_envid2env [keeps_rules]: "keeps core (envid2env envid checkperm)"
  unfolding envid2env_def Let_def by (intro keeps_rules)

lemma core_print_trapframe [keeps_rules]: "keeps core (print_trapframe p)"
  unfolding print_trapframe_def print_regs_def by (intro keeps_rules)

lemma core_put_char [keeps_rules]: "keeps core (modify (\<lambda>s. s\<lparr>console := f s\<rparr>))"
  by (rule keeps_modify) (simp add: core_def)

lemma core_put_str [keeps_rules]: "keeps core (put_str n va)"
  by (induction n arbitrary: va) (auto intro!: keeps_rules)

lemma fails_put_str [fails_rules]: "fails_only (put_str n va)"
  by (induction n arbitrary: va) (auto intro!: fails_rules)

section \<open>The kernel at work for an environment\<close>

definition settled :: "kstate \<Rightarrow> nat \<Rightarrow> kstate \<Rightarrow> bool" where
  "settled s0 c s \<longleftrightarrow>
     (\<exists>xs es. kernel_ok s xs es) \<and> kernel_sealed s \<and> c \<in> live s \<and> curenv s = Some c \<and>
     kern_pgdir s = kern_pgdir s0 \<and> (\<forall>f \<in> kernel_frames s0. pmem s f = pmem s0 f) \<and>
     \<not> panicstr s \<and> eflags s AND FL_IF = 0 \<and> cpu_status (cpus s (cpunum s)) \<noteq> CPU_HALTED"

lemma settled_same:
  assumes "settled s0 c s"
    and "pmem t = pmem s" "pages t = pages s" "npages t = npages s" "page_free_list t = page_free_list s"
    and "kern_pgdir t = kern_pgdir s" "env_free_list t = env_free_list s"
    and "\<And>e. env_status (envs t e) = ENV_FREE \<longleftrightarrow> env_status (envs s e) = ENV_FREE"
      "\<And>e. env_pgdir (envs t e) = env_pgdir (envs s e)" "\<And>e. env_id (envs t e) = env_id (envs s e)"
      "\<And>e. env_link (envs t e) = env_link (envs s e)"
    and "curenv t = curenv s" "cpu_status (cpus t (cpunum t)) \<noteq> CPU_HALTED" "panicstr t = panicstr s" "eflags t = eflags s"
  shows "settled s0 c t"
proof -
  note same = kernel_ok_same [OF assms(2-11)]
  have "kernel_sealed t = kernel_sealed s" using assms(2,6) by (intro kernel_sealed_same) simp_all
  then show ?thesis using assms(1,2,6,12-15) unfolding settled_def same by simp
qed

lemma settled_core: "settled s0 c s \<Longrightarrow> core t = core s \<Longrightarrow> settled s0 c t"
  by (rule settled_same) (simp_all add: core_def settled_def)

abbreviation (input) not_user :: "stop \<Rightarrow> kstate \<Rightarrow> bool" where
  "not_user e s \<equiv> e \<noteq> UserMode"

lemma fails_not_user: "fails_only m \<Longrightarrow> run m s = (Stop e, t) \<Longrightarrow> e \<noteq> UserMode"
  using stays_fails by (auto simp: stays_in_kernel_def)

named_theorems settled_rules "steps that leave the kernel settled"

lemma settled_leaf: "keeps core m \<Longrightarrow> fails_only m \<Longrightarrow> triple (settled s0 c) m (\<lambda>_. settled s0 c) not_user"
  unfolding triple_def
  by (auto split: prod.splits outcome.splits dest: fails_not_user intro: settled_core keepsD)

lemmas settled_leaves [settled_rules] =
  settled_leaf [OF core_cprintf fails_cprintf] settled_leaf [OF core_print_trapframe fails_print_trapframe]
  settled_leaf [OF core_user_mem_check fails_user_mem_check] settled_leaf [OF core_put_str fails_put_str]

lemma settled_ret [settled_rules]: "triple (settled s0 c) (ret a) (\<lambda>_. settled s0 c) not_user"
  by (rule triple_ret)

lemma settled_then [settled_rules]:
  "triple (settled s0 c) m (\<lambda>_. settled s0 c) E \<Longrightarrow> triple (settled s0 c) n Q E \<Longrightarrow>
     triple (settled s0 c) (thenP m n) Q E"
  by (rule triple_then)

text \<open>Giving up the CPU does not lead back to user mode.\<close>

lemma run_yield: "\<exists>x t. run sched_yield s = (Stop x, t) \<and> x \<noteq> UserMode"
  using never_returns_stops [OF sched_yield_never_returns, of s] stays_sched_yield
  by (auto simp: stays_in_kernel_def)

lemma run_env_destroy:
  assumes st: "settled s0 c s" and e: "e \<in> live s"
  shows "case run (env_destroy e) s of (Ret _, t) \<Rightarrow> settled s0 c t | (Stop x, t) \<Rightarrow> x \<noteq> UserMode"
proof (cases "env_status (envs s e) = ENV_RUNNING \<and> curenv s \<noteq> Some e")
  case True
  have "settled s0 c (upd_env e (\<lambda>v. v\<lparr>env_status := ENV_DYING\<rparr>) s)"
    using True st by (intro settled_same [OF st]) (auto simp: settled_def)
  then show ?thesis using True env_destroy_elsewhere [of s e] by simp
next
  case False
  obtain xs es where ok: "kernel_ok s xs es" using st by (auto simp: settled_def)
  obtain t zs where t: "run (env_free e) s = (Ret (), t)" "kernel_ok t (dir s e # zs) (e # es)"
    "live t = live s - {e}" "curenv t = curenv s" "kern_pgdir t = kern_pgdir s"
    "\<forall>f. f \<notin> own s (dir s e) \<longrightarrow> pmem t f = pmem s f"
    using kernel_free_env [OF ok e] by blast
  have cur: "curenv s = Some c" using st by (simp add: settled_def)
  have run: "run (env_destroy e) s = (if c = e then run (thenP (modify (set_curenv None)) sched_yield) t else (Ret (), t))"
    using False t(1,4) cur by (auto simp: env_destroy_def prog_simps)
  show ?thesis
  proof (cases "c = e")
    case True
    obtain x u where "run sched_yield (set_curenv None t) = (Stop x, u)" "x \<noteq> UserMode" using run_yield by blast
    then show ?thesis using True run by (simp add: run_thenP run_modify)
  next
    case False
    have D: "dir s e \<in> dir s ` live s" using e by simp
    have frames: "pmem t f = pmem s f" if "f \<in> kernel_frames s" for f
      using t(6) that spaces_okD(6) [OF kernel_okD(6) [OF ok] D] by blast
    have K0: "kernel_frames s = kernel_frames s0" and mem0: "\<And>f. f \<in> kernel_frames s0 \<Longrightarrow> pmem s f = pmem s0 f"
      using st kernel_sealed_same(2) [of s s0] by (auto simp: settled_def)
    have "(cpus t, cpunum t, panicstr t, eflags t) = (cpus s, cpunum s, panicstr s, eflags s)"
      using keepsD [OF env_free_keeps_cpus t(1)] by simp
    then have "settled s0 c t"
      using st t(2,3,5) False kernel_sealed_same(1) [OF t(5) frames] frames K0 mem0
      unfolding settled_def by auto
    then show ?thesis using run False by simp
  qed
qed

lemma settled_destroy:
  assumes "\<And>s. P s \<Longrightarrow> settled s0 c s \<and> e \<in> live s"
  shows "triple P (env_destroy e) (\<lambda>_. settled s0 c) not_user"
  unfolding triple_def
proof (intro allI impI)
  fix s assume "P s"
  then show "case run (env_destroy e) s of (Ret a, t) \<Rightarrow> settled s0 c t | (Stop x, t) \<Rightarrow> x \<noteq> UserMode"
    using assms by (intro run_env_destroy) auto
qed

lemma settled_destroy_current [settled_rules]: "triple (settled s0 c) (env_destroy c) (\<lambda>_. settled s0 c) not_user"
  by (rule settled_destroy) (simp add: settled_def)

section \<open>System calls\<close>

text \<open>Reading the current environment gives \<open>c\<close>.\<close>

lemma settled_current:
  assumes "triple (settled s0 c) (f (Some c)) Q not_user"
  shows "triple (settled s0 c) (bindP (gets curenv) f) Q not_user"
  using assms by (simp add: triple_def run_bindP run_gets settled_def)

lemma settled_gets [settled_rules]:
  assumes "\<And>a. triple (settled s0 c) (f a) Q E"
  shows "triple (settled s0 c) (bindP (gets g) f) Q E"
  by (rule triple_bind [where R = "\<lambda>_. settled s0 c"]) (auto intro: triple_gets assms)

lemma settled_bind [settled_rules]:
  assumes "triple (settled s0 c) m (\<lambda>_. settled s0 c) E" and "\<And>a. triple (settled s0 c) (f a) Q E"
  shows "triple (settled s0 c) (bindP m f) Q E"
  using assms by (rule triple_bind)

lemma settled_deref: "triple P (f a) Q E \<Longrightarrow> triple P (bindP (deref (Some a)) f) Q E"
  by (simp add: triple_def run_bindP run_deref)

lemma settled_if [settled_rules]: "triple P m Q E \<Longrightarrow> triple P n Q E \<Longrightarrow> triple P (if b then m else n) Q E"
  by (rule triple_if)

lemma settled_split [settled_rules]:
  "(\<And>a b. triple P (f a b) Q E) \<Longrightarrow> triple P (case x of (a, b) \<Rightarrow> f a b) Q E"
  by (simp split: prod.split)

lemma settled_user_mem_assert:
  "triple (settled s0 c) (user_mem_assert (Some c) va len perm) (\<lambda>_. settled s0 c) not_user"
  unfolding user_mem_assert_def by (intro settled_rules settled_deref)

lemma settled_sys_cputs: "triple (settled s0 c) (sys_cputs str len) (\<lambda>_. settled s0 c) not_user"
  unfolding sys_cputs_def by (intro settled_current settled_user_mem_assert settled_rules)

lemma settled_sys_cgetc: "triple (settled s0 c) sys_cgetc (\<lambda>_. settled s0 c) not_user"
  unfolding sys_cgetc_def cons_getc_def
  by (intro settled_leaf keeps_rules fails_rules core_modify; simp split: list.split)
    (auto intro!: keeps_rules fails_rules core_modify)

lemma settled_sys_getenvid: "triple (settled s0 c) sys_getenvid (\<lambda>_. settled s0 c) not_user"
  unfolding sys_getenvid_def
  by (intro settled_current settled_deref) (auto intro: triple_gets)

text \<open>\<open>envid2env\<close> gives an environment that is alive.\<close>

lemma envid2env_live:
  assumes "settled s0 c s"
  shows "\<exists>r e. run (envid2env envid True) s = (Ret (r, e), s) \<and> (\<not> r <s 0 \<longrightarrow> (\<exists>i \<in> live s. e = Some i))"
proof (cases "envid = 0")
  case True
  then show ?thesis using assms envid2env_current [of True s] by (auto simp: settled_def)
next
  case False
  have "curenv s = Some c" using assms by (simp add: settled_def)
  moreover have "ENVX envid < 1024"
    unfolding ENVX_def mask_1023 take_bit_eq_mask [symmetric] using unat_take_bit_less [of 10 envid] by simp
  ultimately show ?thesis
    using envid2env_run [OF False, of s c True] by (auto simp: Let_def live_def word_sless_alt)
qed

lemma alive_leaf:
  assumes "keeps core m" and "fails_only m"
  shows "triple (\<lambda>s. settled s0 c s \<and> i \<in> live s) m (\<lambda>_ s. settled s0 c s \<and> i \<in> live s) not_user"
  unfolding triple_def
proof (intro allI impI)
  fix s assume s: "settled s0 c s \<and> i \<in> live s"
  obtain r t where run: "run m s = (r, t)" by (cases "run m s")
  have core: "core t = core s" by (rule keepsD [OF assms(1) run])
  then have "live t = live s" by (simp add: core_def live_def)
  then show "case run m s of (Ret a, t) \<Rightarrow> settled s0 c t \<and> i \<in> live t | (Stop e, t) \<Rightarrow> e \<noteq> UserMode"
    using s settled_core [OF _ core] fails_not_user [OF assms(2)] run by (cases r) auto
qed

lemma settled_sys_env_destroy: "triple (settled s0 c) (sys_env_destroy envid) (\<lambda>_. settled s0 c) not_user"
proof -
  have rest: "triple (\<lambda>s. settled s0 c s \<and> i \<in> live s)
     (bindP (deref (Some c)) (\<lambda>c'. bindP (gets (\<lambda>s. env_id (envs s c'))) (\<lambda>cid. bindP (deref (Some i)) (\<lambda>target.
        thenP (if Some i = Some c then printP ''[%08x] exiting gracefully\<newline>'' [VInt cid]
               else bindP (gets (\<lambda>s. env_id (envs s target))) (\<lambda>tid.
                    printP ''[%08x] destroying %08x\<newline>'' [VInt cid, VInt tid]))
        (thenP (env_destroy target) (ret (0 :: u32)))))))
     (\<lambda>_. settled s0 c) not_user" (is "triple ?P (?m i) _ _") for i
  proof -
    have "triple ?P (env_destroy i) (\<lambda>_. settled s0 c) not_user" by (rule settled_destroy) simp
    then show ?thesis
      by (intro settled_deref triple_bind [OF alive_leaf] triple_then [OF alive_leaf] triple_then [where R = "settled s0 c"]
          settled_ret keeps_rules fails_rules)
  qed
  show ?thesis
    unfolding triple_def
  proof (intro allI impI)
    fix s assume s: "settled s0 c s"
    obtain r e where r: "run (envid2env envid True) s = (Ret (r, e), s)" "\<not> r <s 0 \<longrightarrow> (\<exists>i \<in> live s. e = Some i)"
      using envid2env_live [OF s] by blast
    have cur: "curenv s = Some c" using s by (simp add: settled_def)
    show "case run (sys_env_destroy envid) s of (Ret a, t) \<Rightarrow> settled s0 c t | (Stop x, t) \<Rightarrow> x \<noteq> UserMode"
    proof (cases "r <s 0")
      case True
      then show ?thesis using r(1) s by (simp add: sys_env_destroy_def run_bindP run_prod run_if run_ret)
    next
      case False
      then obtain i where i: "i \<in> live s" "e = Some i" using r(2) by blast
      have "run (sys_env_destroy envid) s = run (?m i) s"
        using r(1) False cur i(2)
        by (simp add: sys_env_destroy_def run_bindP [of "envid2env envid True"] run_bindP [of "gets curenv"] run_gets run_prod)
      then show ?thesis using rest [of i, unfolded triple_def, rule_format, OF conjI [OF s i(1)]] by simp
    qed
  qed
qed

lemma settled_syscall: "triple (settled s0 c) (syscall n a1 a2 a3 a4 a5) (\<lambda>_. settled s0 c) not_user"
  unfolding syscall_def
  by (intro settled_if settled_then settled_sys_cputs settled_sys_cgetc settled_sys_getenvid settled_sys_env_destroy
      settled_ret settled_leaves)

section \<open>Traps\<close>

lemma settled_fault_info:
  assumes "\<And>a b. triple (settled s0 c) (f (a, b, Some c)) Q E"
  shows "triple (settled s0 c) (bindP (gets (\<lambda>s. (g s, h s, curenv s))) f) Q E"
  unfolding triple_def
proof (intro allI impI)
  fix s assume s: "settled s0 c s"
  then have "curenv s = Some c" by (simp add: settled_def)
  then show "case run (bindP (gets (\<lambda>s. (g s, h s, curenv s))) f) s of (Ret a, t) \<Rightarrow> Q a t | (Stop e, t) \<Rightarrow> E e t"
    using assms [of "g s" "h s", unfolded triple_def, rule_format, OF s] by (simp add: run_bindP run_gets)
qed

lemma settled_panic [settled_rules]: "triple P (stop (Panic msg)) Q not_user"
  by (rule triple_stop) simp

lemma settled_monitor: "triple P (monitor p) Q not_user"
  using fails_monitor [THEN fails_not_user, of p] monitor_never_returns [of p]
  by (auto simp: triple_def never_returns_def split: prod.splits outcome.splits)

lemma settled_upd_env:
  assumes "\<And>v. env_status (f v) = env_status v" "\<And>v. env_pgdir (f v) = env_pgdir v" "\<And>v. env_id (f v) = env_id v"
    "\<And>v. env_link (f v) = env_link v"
  shows "triple (settled s0 c) (modify (upd_env e f)) (\<lambda>_. settled s0 c) not_user"
proof (rule triple_modify)
  fix s assume s: "settled s0 c s"
  show "settled s0 c (upd_env e f s)" using s by (intro settled_same [OF s]) (auto simp: settled_def assms)
qed

lemma settled_page_fault: "triple (settled s0 c) (page_fault_handler p) (\<lambda>_. settled s0 c) not_user"
  unfolding page_fault_handler_def by (rule settled_fault_info) (simp, intro conjI impI settled_rules settled_deref)

lemma settled_trap_dispatch: "triple (settled s0 c) (trap_dispatch p) (\<lambda>_. settled s0 c) not_user"
proof -
  have sysc: "triple (settled s0 c) (bindP (syscall n a1 a2 a3 a4 a5) (\<lambda>val. bindP (gets curenv) (\<lambda>cur. bindP (deref cur) (\<lambda>c.
      modify (upd_env c (\<lambda>v. v\<lparr>env_tf := (env_tf v)\<lparr>tf_regs := (tf_regs (env_tf v))\<lparr>reg_eax := val\<rparr>\<rparr>\<rparr>))))))
      (\<lambda>_. settled s0 c) not_user" for n a1 a2 a3 a4 a5
    by (intro settled_bind [OF settled_syscall] settled_current settled_deref settled_upd_env) simp_all
  have other: "triple (settled s0 c) (bindP (gets curenv) (\<lambda>cur. bindP (deref cur) env_destroy)) (\<lambda>_. settled s0 c) not_user"
    by (intro settled_current settled_deref settled_destroy_current)
  show ?thesis
    unfolding trap_dispatch_def Let_def
    by (intro settled_gets settled_if settled_page_fault settled_monitor sysc settled_then settled_leaves settled_ret
        settled_panic other)
qed

text \<open>In user mode: the state between two traps.\<close>

definition in_user :: "kstate \<Rightarrow> nat \<Rightarrow> kstate \<Rightarrow> bool" where
  "in_user s0 c s \<longleftrightarrow> settled s0 c s \<and> env_status (envs s c) = ENV_RUNNING \<and> frame_of (cr3 s) = dir s c"

lemma env_run_in_user:
  assumes st: "settled s0 c s"
  shows "\<exists>t. run (env_run c) s = (Stop UserMode, t) \<and> in_user s0 c t"
proof -
  obtain xs es where ok: "kernel_ok s xs es" using st by (auto simp: settled_def)
  have c: "c \<in> live s" "curenv s = Some c" using st by (simp_all add: settled_def)
  note pd = kernel_ok_space(3,6) [OF ok c(1)]
  let ?u = "set_curenv (Some c) (upd_env c (\<lambda>v. v\<lparr>env_status := ENV_RUNNABLE\<rparr>) s)"
  let ?v = "(upd_env c (\<lambda>v. v\<lparr>env_status := ENV_RUNNING, env_runs := env_runs v + 1\<rparr>) ?u)\<lparr>cr3 := page2pa (dir s c)\<rparr>"
  let ?t = "upd_env c (\<lambda>v. v\<lparr>env_cpunum := of_nat (cpunum s)\<rparr>) ?v"
  have "run (env_run c) s = (Stop UserMode, ?t)"
    using c(2) pd PADDR_frame [OF pd(2)] by (simp add: env_run_def env_pop_tf_def lcr3_def prog_simps)
  moreover have "settled s0 c ?t"
    using st c by (intro settled_same [OF st]) (auto simp: settled_def live_def)
  moreover have "frame_of (cr3 ?t) = dir ?t c" using pd(2) by (simp add: dir_def PGNUM_page2pa)
  ultimately show ?thesis by (auto simp: in_user_def)
qed

lemma trap_in_user:
  assumes s: "in_user s0 c s" and cs: "tf_cs tf AND 3 = 3" and run: "run (trap addr tf) s = (Stop UserMode, t)"
  shows "in_user s0 c t"
proof -
  have st: "settled s0 c s" using s by (simp add: in_user_def)
  have fu: "from_user c tf s" using s cs by (simp add: from_user_def in_user_def settled_def)
  have "settled s0 c (trapped c tf s)"
    using st by (intro settled_same [OF st]) (auto simp: trapped_def Let_def settled_def)
  from settled_trap_dispatch [unfolded triple_def, rule_format, OF this, of "InEnv c"]
  obtain r u where u: "run (trap_dispatch (InEnv c)) (trapped c tf s) = (r, u)"
      "\<And>a. r = Ret a \<Longrightarrow> settled s0 c u" "\<And>x. r = Stop x \<Longrightarrow> x \<noteq> UserMode"
    by (cases "run (trap_dispatch (InEnv c)) (trapped c tf s)", cases "fst (run (trap_dispatch (InEnv c)) (trapped c tf s))") auto
  note eq = run [unfolded trap_user_run [OF fu] run_thenP u(1)]
  show ?thesis
  proof (cases r)
    case (Stop x)
    then show ?thesis using eq u(3) by simp
  next
    case (Ret a)
    have stu: "settled s0 c u" by (rule u(2) [OF Ret])
    then have cur: "curenv u = Some c" by (simp add: settled_def)
    show ?thesis
    proof (cases "env_status (envs u c) = ENV_RUNNING")
      case True
      then have "run (env_run c) u = (Stop UserMode, t)" using eq Ret cur by (simp add: prog_simps)
      then show ?thesis using env_run_in_user [OF stu] by auto
    next
      case False
      then have "run sched_yield u = (Stop UserMode, t)" using eq Ret cur by (simp add: prog_simps)
      then show ?thesis using run_yield [of u] by auto
    qed
  qed
qed

section \<open>Programs\<close>

text \<open>
  The processor stores a word where the tables allow it, or takes a trap with any registers, any fault
  address and any characters arrived from the keyboard in the meantime.
\<close>

inductive user_step :: "kstate \<Rightarrow> kstate \<Rightarrow> bool" where
  user_store: "user_slot s va = Some f \<Longrightarrow> user_step s (store_word f (unat (PGOFF va) div 4) w s)"
| user_trap: "tf_cs tf AND 3 = 3 \<Longrightarrow>
    run (trap addr tf) (s\<lparr>cr2 := va, con_in := con_in s @ typed\<rparr>) = (Stop UserMode, t) \<Longrightarrow> user_step s t"

lemma in_user_step:
  assumes s: "in_user s0 c s" and step: "user_step s t"
  shows "in_user s0 c t"
  using step
proof cases
  case (user_store va f w)
  have st: "settled s0 c s" using s by (simp add: in_user_def)
  then obtain xs es where ok: "kernel_ok s xs es" by (auto simp: settled_def)
  have cr3: "dir s c \<in> dir s ` live s" "frame_of (cr3 s) = dir s c" using s by (simp_all add: in_user_def settled_def)
  have client: "client_page s (dir s ` live s) f"
    using user_slot_client(1) [OF kernel_okD(6) [OF ok] _ cr3 user_store(2)] st by (simp add: settled_def)
  have K: "kernel_frames s = kernel_frames s0"
    using st kernel_sealed_same(2) [of s s0] by (simp add: settled_def)
  have mem: "pmem t g = pmem s g" if "g \<in> kernel_frames s" for g
    using client that user_store(1) by (auto simp: client_page_def)
  have "kernel_sealed t = kernel_sealed s" using mem user_store(1) by (intro kernel_sealed_same) simp_all
  moreover have "live t = live s" "dir t = dir s" using user_store(1) by (simp_all add: live_def dir_def fun_eq_iff)
  moreover have "kernel_ok t xs es" using kernel_ok_store [OF ok client] user_store(1) by simp
  ultimately show ?thesis using s mem K user_store(1) by (auto simp: in_user_def settled_def)
next
  case (user_trap tf addr typed va)
  let ?s = "s\<lparr>cr2 := va, con_in := con_in s @ typed\<rparr>"
  have "core ?s = core s" "cr3 ?s = cr3 s" "dir ?s = dir s" by (simp_all add: core_def dir_def fun_eq_iff)
  then have "in_user s0 c ?s" using s by (auto simp: in_user_def intro: settled_core)
  then show ?thesis by (rule trap_in_user [OF _ user_trap])
qed

interpretation user_mode: invariant_system "\<lambda>s. s = s0 \<and> in_user s0 c s" user_step "in_user s0 c" for s0 c
  by unfold_locales (auto intro: in_user_step)

end
