(* ===== verification/PmapCheck.thy ===== *)
theory PmapCheck
  imports VMem
begin

text \<open>
  \<open>mem_init\<close> of \<^verbatim>\<open>kern/pmap.c\<close> and the self tests it runs. An \<^verbatim>\<open>assert\<close> that fails is a
  panic. A walk along a list of pages has the fuel of all pages there can be; a cyclic list
  would be followed for ever.
\<close>

definition checkS :: "string \<Rightarrow> (kstate \<Rightarrow> bool) \<Rightarrow> unit km" where
  "checkS msg f = bindP (gets f) (assertP msg)"

text \<open>\<^verbatim>\<open>assert((pp = page_alloc(0)))\<close> and \<^verbatim>\<open>assert(!page_alloc(0))\<close>\<close>

definition alloc_ok :: "nat km" where
  "alloc_ok = bindP (page_alloc 0) (\<lambda>p.
     case p of None \<Rightarrow> stop (Panic ''pp = page_alloc(0)'') | Some pp \<Rightarrow> ret pp)"

definition no_free_memory :: "unit km" where
  "no_free_memory = bindP (page_alloc 0) (\<lambda>p. assertP ''!page_alloc(0)'' (p = None))"

primrec links :: "nat \<Rightarrow> nat option \<Rightarrow> (nat \<Rightarrow> PageInfo) \<Rightarrow> nat list option" where
  "links 0 p pg = (case p of None \<Rightarrow> Some [] | Some x \<Rightarrow> None)"
| "links (Suc n) p pg =
     (case p of None \<Rightarrow> Some [] | Some x \<Rightarrow> map_option ((#) x) (links n (pp_link (pg x)) pg))"

definition free_list :: "nat list km" where
  "free_list = bindP (gets (\<lambda>s. links (2 ^ 20) (page_free_list s) (pages s))) (\<lambda>r.
     case r of None \<Rightarrow> stop Spinning | Some xs \<Rightarrow> ret xs)"

definition set_link :: "nat \<Rightarrow> nat option \<Rightarrow> unit km" where
  "set_link q p = modify (upd_page q (\<lambda>i. i\<lparr>pp_link := p\<rparr>))"

section \<open>\<open>check_page_free_list\<close>\<close>

text \<open>
  The values of \<^verbatim>\<open>pp1\<close>, \<^verbatim>\<open>pp2\<close>, and the pages whose links \<^verbatim>\<open>tp[0]\<close> and \<^verbatim>\<open>tp[1]\<close> point to
  (\<open>None\<close>: to \<^verbatim>\<open>pp1\<close> or \<^verbatim>\<open>pp2\<close> itself).
\<close>

definition split_page ::
  "nat \<Rightarrow> nat \<Rightarrow> nat option \<times> nat option \<times> nat option \<times> nat option
     \<Rightarrow> (nat option \<times> nat option \<times> nat option \<times> nat option) km" where
  "split_page pdx_limit pp t =
     (case t of (pp1, pp2, t0, t1) \<Rightarrow>
        if unat (PDX (page2pa pp)) \<ge> pdx_limit
        then (case t1 of
                None \<Rightarrow> ret (pp1, Some pp, t0, Some pp)
              | Some q \<Rightarrow> thenP (set_link q (Some pp)) (ret (pp1, pp2, t0, Some pp)))
        else (case t0 of
                None \<Rightarrow> ret (Some pp, pp2, Some pp, t1)
              | Some q \<Rightarrow> thenP (set_link q (Some pp)) (ret (pp1, pp2, Some pp, t1))))"

definition low_pages_first :: "nat \<Rightarrow> unit km" where
  "low_pages_first pdx_limit =
     bindP free_list (\<lambda>xs.
     bindP (foldP xs (split_page pdx_limit) (None, None, None, None)) (\<lambda>(pp1, pp2, t0, t1).
     bindP (case t1 of None \<Rightarrow> ret None | Some q \<Rightarrow> thenP (set_link q None) (ret pp2)) (\<lambda>pp2.
     bindP (case t0 of None \<Rightarrow> ret pp2 | Some q \<Rightarrow> thenP (set_link q pp2) (ret pp1)) (\<lambda>pp1.
     modify (\<lambda>s. s\<lparr>page_free_list := pp1\<rparr>)))))"

definition fill_words :: "nat \<Rightarrow> nat \<Rightarrow> u32 \<Rightarrow> kstate \<Rightarrow> kstate" where
  "fill_words f n w s =
     s\<lparr>pmem := (pmem s)(f := (\<lambda>i. if i < n then w else pmem s f i))\<rparr>"

definition check_free_page :: "u32 \<Rightarrow> nat \<Rightarrow> unit km" where
  "check_free_page first_free_page pp =
     seqP [
       checkS ''pp < pages + npages'' (\<lambda>s. pp < npages s),
       assertP ''page2pa(pp) != 0'' (page2pa pp \<noteq> 0),
       assertP ''page2pa(pp) != IOPHYSMEM'' (page2pa pp \<noteq> IOPHYSMEM),
       assertP ''page2pa(pp) != EXTPHYSMEM - PGSIZE'' (page2pa pp \<noteq> EXTPHYSMEM - PGSIZE),
       assertP ''page2pa(pp) != EXTPHYSMEM'' (page2pa pp \<noteq> EXTPHYSMEM),
       (if page2pa pp < EXTPHYSMEM then ret ()
        else bindP (page2kva pp) (\<lambda>kva.
             assertP ''(char *) page2kva(pp) >= first_free_page'' (kva \<ge> first_free_page))),
       assertP ''page2pa(pp) != MPENTRY_PADDR'' (page2pa pp \<noteq> MPENTRY_PADDR)]"

definition check_page_free_list :: "bool \<Rightarrow> unit km" where
  "check_page_free_list only_low_memory =
     (let pdx_limit = (if only_low_memory then 1 else NPDENTRIES)
      in bindP (gets page_free_list) (\<lambda>head.
         if head = None then stop (Panic '''page_free_list' is a null pointer!'')
         else thenP (whenP only_low_memory (low_pages_first pdx_limit))
         (bindP free_list (\<lambda>xs.
          thenP (forP xs (\<lambda>pp. if unat (PDX (page2pa pp)) < pdx_limit
                               then bindP (page2kva pp) (\<lambda>kva. modify (fill_words (kva_frame kva) 32 0x97979797))
                               else ret ()))
          (bindP (gets (\<lambda>s. sym_end (ksym s))) (\<lambda>e.
           bindP (boot_alloc e 0) (\<lambda>first_free_page.
           seqP [
             forP xs (check_free_page first_free_page),
             assertP ''nfree_basemem > 0'' (\<exists>pp \<in> set xs. page2pa pp < EXTPHYSMEM),
             assertP ''nfree_extmem > 0'' (\<exists>pp \<in> set xs. \<not> page2pa pp < EXTPHYSMEM),
             thenP (cprintf ''check_page_free_list() succeeded!\<newline>'' []) (ret ())])))))))"

section \<open>\<open>check_page_alloc\<close>\<close>

definition distinct_pages :: "nat \<Rightarrow> nat \<Rightarrow> nat \<Rightarrow> unit km" where
  "distinct_pages pp0 pp1 pp2 =
     seqP [
       assertP ''pp1 && pp1 != pp0'' (pp1 \<noteq> pp0),
       assertP ''pp2 && pp2 != pp1 && pp2 != pp0'' (pp2 \<noteq> pp1 \<and> pp2 \<noteq> pp0)]"

definition check_page_alloc :: "unit km" where
  "check_page_alloc =
     bindP free_list (\<lambda>before.
     bindP alloc_ok (\<lambda>pp0. bindP alloc_ok (\<lambda>pp1. bindP alloc_ok (\<lambda>pp2.
     thenP (distinct_pages pp0 pp1 pp2)
     (thenP (seqP (map (\<lambda>p. checkS ''page2pa(pp) < npages*PGSIZE''
                         (\<lambda>s. page2pa p < of_nat (npages s) * PGSIZE)) [pp0, pp1, pp2]))
     (bindP (gets page_free_list) (\<lambda>fl.
      thenP (seqP [
        modify (\<lambda>s. s\<lparr>page_free_list := None\<rparr>),
        no_free_memory,
        page_free pp0, page_free pp1, page_free pp2])
      (bindP alloc_ok (\<lambda>pp0. bindP alloc_ok (\<lambda>pp1. bindP alloc_ok (\<lambda>pp2.
       thenP (distinct_pages pp0 pp1 pp2)
       (thenP (seqP [
          no_free_memory,
          bindP (page2kva pp0) (\<lambda>kva. modify (fill_frame (kva_frame kva) 0x01010101)),
          page_free pp0])
       (bindP (page_alloc ALLOC_ZERO) (\<lambda>pp.
        thenP (assertP ''pp && pp0 == pp'' (pp = Some pp0))
        (bindP (page2kva pp0) (\<lambda>c.
         seqP [
           checkS ''c[i] == 0'' (\<lambda>s. \<forall>i \<in> set [0..<1024]. pmem s (kva_frame c) i = 0),
           modify (\<lambda>s. s\<lparr>page_free_list := fl\<rparr>),
           page_free pp0, page_free pp1, page_free pp2,
           bindP free_list (\<lambda>after. assertP ''nfree == 0'' (length before = length after)),
           thenP (cprintf ''check_page_alloc() succeeded!\<newline>'' []) (ret ())]))))))))))))))))"

section \<open>\<open>check_kern_pgdir\<close>\<close>

definition check_va2pa :: "nat \<Rightarrow> u32 \<Rightarrow> u32 km" where
  "check_va2pa pgdir va =
     bindP (gets (pde_of pgdir va)) (\<lambda>pde.
     if pde AND PTE_P = 0 then ret (NOT 0)
     else bindP (KADDR (PTE_ADDR pde)) (\<lambda>kva.
          bindP (gets (\<lambda>s. pmem s (kva_frame kva) (unat (PTX va)))) (\<lambda>pte.
          if pte AND PTE_P = 0 then ret (NOT 0) else ret (PTE_ADDR pte))))"

definition expect_pa :: "nat \<Rightarrow> u32 \<Rightarrow> u32 \<Rightarrow> unit km" where
  "expect_pa pgdir va pa =
     bindP (check_va2pa pgdir va) (\<lambda>r. assertP ''check_va2pa(pgdir, va) == pa'' (r = pa))"

definition check_region :: "nat \<Rightarrow> u32 \<Rightarrow> u32 km \<Rightarrow> nat \<Rightarrow> unit km" where
  "check_region pgdir va pa n =
     forP [0..<n] (\<lambda>i. bindP pa (\<lambda>base. expect_pa pgdir (va + of_nat i * PGSIZE) (base + of_nat i * PGSIZE)))"

definition check_stack :: "nat \<Rightarrow> nat \<Rightarrow> unit km" where
  "check_stack pgdir n =
     (let base = KSTACKTOP - (KSTKSIZE + KSTKGAP) * (of_nat n + 1)
      in bindP (gets (\<lambda>s. sym_percpu_kstacks (ksym s))) (\<lambda>stacks.
         thenP (forP [0..<8] (\<lambda>i.
                  bindP (PADDR (stacks + of_nat n * KSTKSIZE)) (\<lambda>pa.
                  expect_pa pgdir (base + KSTKGAP + of_nat i * PGSIZE) (pa + of_nat i * PGSIZE))))
         (forP [0..<8] (\<lambda>i. expect_pa pgdir (base + of_nat i * PGSIZE) (NOT 0)))))"

definition check_pde :: "nat \<Rightarrow> nat \<Rightarrow> unit km" where
  "check_pde pgdir i =
     bindP (gets (\<lambda>s. pmem s pgdir i)) (\<lambda>pde.
     if i \<in> {unat (PDX UVPT), unat (PDX (KSTACKTOP - 1)), unat (PDX UPAGES), unat (PDX UENVS),
             unat (PDX MMIOBASE)}
     then assertP ''pgdir[i] & PTE_P'' (pde AND PTE_P \<noteq> 0)
     else if i \<ge> unat (PDX KERNBASE)
     then thenP (assertP ''pgdir[i] & PTE_P'' (pde AND PTE_P \<noteq> 0))
          (assertP ''pgdir[i] & PTE_W'' (pde AND PTE_W \<noteq> 0))
     else assertP ''pgdir[i] == 0'' (pde = 0))"

abbreviation (input) sizeof_PageInfo :: u32 where "sizeof_PageInfo \<equiv> 8"
abbreviation (input) sizeof_Env :: u32 where "sizeof_Env \<equiv> 124"

definition check_kern_pgdir :: "unit km" where
  "check_kern_pgdir =
     bindP (gets (\<lambda>s. (kern_pgdir s, npages s, pages_kva s, envs_kva s))) (\<lambda>(pgdir, np, pk, ek).
     seqP [
       check_region pgdir UPAGES (PADDR pk) (unat (ROUNDUP (of_nat np * sizeof_PageInfo) PGSIZE div PGSIZE)),
       check_region pgdir UENVS (PADDR ek) (unat (ROUNDUP (of_nat NENV * sizeof_Env) PGSIZE div PGSIZE)),
       check_region pgdir KERNBASE (ret 0) (unat ((of_nat np * PGSIZE) div PGSIZE)),
       forP [0..<NCPU] (check_stack pgdir),
       forP [0..<NPDENTRIES] (check_pde pgdir),
       thenP (cprintf ''check_kern_pgdir() succeeded!\<newline>'' []) (ret ())])"

section \<open>\<open>check_page\<close>\<close>

definition insert_gives :: "nat \<Rightarrow> nat \<Rightarrow> u32 \<Rightarrow> u32 \<Rightarrow> (u32 \<Rightarrow> bool) \<Rightarrow> unit km" where
  "insert_gives pd pp va perm ok =
     bindP (page_insert pd pp va perm) (\<lambda>r. assertP ''page_insert(kern_pgdir, pp, va, perm)'' (ok r))"

definition has_ref :: "nat \<Rightarrow> u16 \<Rightarrow> unit km" where
  "has_ref pp n = checkS ''pp->pp_ref'' (\<lambda>s. pp_ref (pages s pp) = n)"

text \<open>\<^verbatim>\<open>*pgdir_walk(kern_pgdir, va, 0)\<close>\<close>

definition walk_load :: "nat \<Rightarrow> u32 \<Rightarrow> u32 km" where
  "walk_load pd va = bindP (bindP (pgdir_walk pd va 0) deref) load_pte"

definition walk_check :: "nat \<Rightarrow> u32 \<Rightarrow> (u32 \<Rightarrow> bool) \<Rightarrow> unit km" where
  "walk_check pd va ok = bindP (walk_load pd va) (\<lambda>w. assertP ''*pgdir_walk(kern_pgdir, va, 0)'' (ok w))"

definition walk_clear :: "nat \<Rightarrow> u32 \<Rightarrow> unit km" where
  "walk_clear pd va = bindP (bindP (pgdir_walk pd va 0) deref) (\<lambda>p. store_pte p 0)"

definition set_ref :: "nat \<Rightarrow> u16 \<Rightarrow> unit km" where
  "set_ref pp n = modify (upd_page pp (\<lambda>i. i\<lparr>pp_ref := n\<rparr>))"

text \<open>\<^verbatim>\<open>(pte_t *) KADDR(PTE_ADDR(kern_pgdir[PDX(va)])) + PTX(va)\<close>\<close>

definition table_entry :: "nat \<Rightarrow> u32 \<Rightarrow> (nat \<times> nat) km" where
  "table_entry pd va =
     bindP (gets (pde_of pd va)) (\<lambda>pde.
     bindP (KADDR (PTE_ADDR pde)) (\<lambda>kva. ret (kva_frame kva, unat (PTX va))))"

text \<open>The middle of the test, with the free list stolen: mapping and unmapping at two pages.\<close>

definition check_page_mappings :: "nat \<Rightarrow> nat \<Rightarrow> nat \<Rightarrow> nat \<Rightarrow> unit km" where
  "check_page_mappings pd pp0 pp1 pp2 =
     seqP [
       no_free_memory,
       bindP (page_lookup pd 0) (\<lambda>r. assertP ''page_lookup(kern_pgdir, 0, &ptep) == NULL'' (r = None)),
       insert_gives pd pp1 0 PTE_W (\<lambda>r. r <s 0),
       page_free pp0,
       insert_gives pd pp1 0 PTE_W (\<lambda>r. r = 0),
       checkS ''PTE_ADDR(kern_pgdir[0]) == page2pa(pp0)'' (\<lambda>s. PTE_ADDR (pmem s pd 0) = page2pa pp0),
       expect_pa pd 0 (page2pa pp1), has_ref pp1 1, has_ref pp0 1,
       insert_gives pd pp2 PGSIZE PTE_W (\<lambda>r. r = 0), expect_pa pd PGSIZE (page2pa pp2), has_ref pp2 1,
       no_free_memory,
       insert_gives pd pp2 PGSIZE PTE_W (\<lambda>r. r = 0), expect_pa pd PGSIZE (page2pa pp2), has_ref pp2 1,
       no_free_memory,
       bindP (table_entry pd PGSIZE) (\<lambda>ptep. bindP (pgdir_walk pd PGSIZE 0) (\<lambda>p.
         assertP ''pgdir_walk(kern_pgdir, PGSIZE, 0) == ptep+PTX(PGSIZE)'' (p = Some ptep))),
       insert_gives pd pp2 PGSIZE (PTE_W OR PTE_U) (\<lambda>r. r = 0), expect_pa pd PGSIZE (page2pa pp2),
       has_ref pp2 1, walk_check pd PGSIZE (\<lambda>w. w AND PTE_U \<noteq> 0),
       checkS ''kern_pgdir[0] & PTE_U'' (\<lambda>s. pmem s pd 0 AND PTE_U \<noteq> 0),
       insert_gives pd pp2 PGSIZE PTE_W (\<lambda>r. r = 0), walk_check pd PGSIZE (\<lambda>w. w AND PTE_W \<noteq> 0),
       walk_check pd PGSIZE (\<lambda>w. w AND PTE_U = 0),
       insert_gives pd pp0 PTSIZE PTE_W (\<lambda>r. r <s 0),
       insert_gives pd pp1 PGSIZE PTE_W (\<lambda>r. r = 0), walk_check pd PGSIZE (\<lambda>w. w AND PTE_U = 0),
       expect_pa pd 0 (page2pa pp1), expect_pa pd PGSIZE (page2pa pp1), has_ref pp1 2, has_ref pp2 0,
       bindP (page_alloc 0) (\<lambda>p. assertP ''(pp = page_alloc(0)) && pp == pp2'' (p = Some pp2)),
       page_remove pd 0, expect_pa pd 0 (NOT 0), expect_pa pd PGSIZE (page2pa pp1),
       has_ref pp1 1, has_ref pp2 0,
       insert_gives pd pp1 PGSIZE 0 (\<lambda>r. r = 0),
       checkS ''pp1->pp_ref'' (\<lambda>s. pp_ref (pages s pp1) \<noteq> 0),
       checkS ''pp1->pp_link == NULL'' (\<lambda>s. pp_link (pages s pp1) = None),
       page_remove pd PGSIZE, expect_pa pd 0 (NOT 0), expect_pa pd PGSIZE (NOT 0),
       has_ref pp1 0, has_ref pp2 0,
       bindP (page_alloc 0) (\<lambda>p. assertP ''(pp = page_alloc(0)) && pp == pp1'' (p = Some pp1)),
       no_free_memory]"

text \<open>Taking back the page used as a table, and new tables.\<close>

definition check_page_tables :: "nat \<Rightarrow> nat \<Rightarrow> unit km" where
  "check_page_tables pd pp0 =
     (let va = PGSIZE * of_nat NPDENTRIES + PGSIZE in
     seqP [
       checkS ''PTE_ADDR(kern_pgdir[0]) == page2pa(pp0)'' (\<lambda>s. PTE_ADDR (pmem s pd 0) = page2pa pp0),
       modify (store_word pd 0 0), has_ref pp0 1, set_ref pp0 0,
       page_free pp0,
       bindP (pgdir_walk pd va 1) (\<lambda>ptep. bindP (table_entry pd va) (\<lambda>ptep1.
         assertP ''ptep == ptep1 + PTX(va)'' (ptep = Some ptep1))),
       modify (store_word pd (unat (PDX va)) 0), set_ref pp0 0,
       bindP (page2kva pp0) (\<lambda>kva. modify (fill_frame (kva_frame kva) 0xFFFFFFFF)),
       page_free pp0,
       bindP (pgdir_walk pd 0 1) (\<lambda>_. ret ()),
       bindP (page2kva pp0) (\<lambda>kva. checkS ''(ptep[i] & PTE_P) == 0''
         (\<lambda>s. \<forall>i \<in> set [0..<NPTENTRIES]. pmem s (kva_frame kva) i AND PTE_P = 0)),
       modify (store_word pd 0 0), set_ref pp0 0])"

definition check_mmio :: "nat \<Rightarrow> unit km" where
  "check_mmio pd =
     bindP (mmio_map_region 0 4097) (\<lambda>mm1. bindP (mmio_map_region 0 4096) (\<lambda>mm2.
     seqP [
       assertP ''mm1 >= MMIOBASE && mm1 + 8192 < MMIOLIM'' (mm1 \<ge> MMIOBASE \<and> mm1 + 8192 < MMIOLIM),
       assertP ''mm2 >= MMIOBASE && mm2 + 8192 < MMIOLIM'' (mm2 \<ge> MMIOBASE \<and> mm2 + 8192 < MMIOLIM),
       assertP ''mm1 % PGSIZE == 0 && mm2 % PGSIZE == 0'' (mm1 mod PGSIZE = 0 \<and> mm2 mod PGSIZE = 0),
       assertP ''mm1 + 8192 <= mm2'' (mm1 + 8192 \<le> mm2),
       expect_pa pd mm1 0, expect_pa pd (mm1 + PGSIZE) PGSIZE, expect_pa pd mm2 0,
       expect_pa pd (mm2 + PGSIZE) (NOT 0),
       walk_check pd mm1 (\<lambda>w. w AND (PTE_W OR PTE_PWT OR PTE_PCD) \<noteq> 0),
       walk_check pd mm1 (\<lambda>w. w AND PTE_U = 0),
       walk_clear pd mm1, walk_clear pd (mm1 + PGSIZE), walk_clear pd mm2]))"

definition check_page :: "unit km" where
  "check_page =
     bindP alloc_ok (\<lambda>pp0. bindP alloc_ok (\<lambda>pp1. bindP alloc_ok (\<lambda>pp2.
     thenP (distinct_pages pp0 pp1 pp2)
     (bindP (gets (\<lambda>s. (page_free_list s, kern_pgdir s))) (\<lambda>(fl, pd).
      seqP [
        modify (\<lambda>s. s\<lparr>page_free_list := None\<rparr>),
        check_page_mappings pd pp0 pp1 pp2,
        check_page_tables pd pp0,
        modify (\<lambda>s. s\<lparr>page_free_list := fl\<rparr>),
        page_free pp0, page_free pp1, page_free pp2,
        check_mmio pd,
        thenP (cprintf ''check_page() succeeded!\<newline>'' []) (ret ())])))))"

section \<open>\<open>check_page_installed_pgdir\<close>\<close>

definition fill_page :: "nat \<Rightarrow> u32 \<Rightarrow> unit km" where
  "fill_page pp w = bindP (page2kva pp) (\<lambda>kva. modify (fill_frame (kva_frame kva) w))"

definition expect_word :: "u32 \<Rightarrow> u32 \<Rightarrow> unit km" where
  "expect_word va w = bindP (load32 va) (\<lambda>v. assertP ''*(uint32_t *)va == w'' (v = w))"

definition check_page_installed_pgdir :: "unit km" where
  "check_page_installed_pgdir =
     bindP alloc_ok (\<lambda>pp0. bindP alloc_ok (\<lambda>pp1. bindP alloc_ok (\<lambda>pp2.
     bindP (gets kern_pgdir) (\<lambda>pd.
     seqP [
       page_free pp0,
       fill_page pp1 0x01010101, fill_page pp2 0x02020202,
       bindP (page_insert pd pp1 PGSIZE PTE_W) (\<lambda>_. ret ()), has_ref pp1 1,
       expect_word PGSIZE 0x01010101,
       bindP (page_insert pd pp2 PGSIZE PTE_W) (\<lambda>_. ret ()), expect_word PGSIZE 0x02020202,
       has_ref pp2 1, has_ref pp1 0,
       store32 PGSIZE 0x03030303,
       bindP (page2kva pp2) (\<lambda>kva. checkS ''*(uint32_t *)page2kva(pp2) == 0x03030303U''
         (\<lambda>s. pmem s (kva_frame kva) 0 = 0x03030303)),
       page_remove pd PGSIZE, has_ref pp2 0,
       checkS ''PTE_ADDR(kern_pgdir[0]) == page2pa(pp0)'' (\<lambda>s. PTE_ADDR (pmem s pd 0) = page2pa pp0),
       modify (store_word pd 0 0), has_ref pp0 1, set_ref pp0 0,
       page_free pp0,
       thenP (cprintf ''check_page_installed_pgdir() succeeded!\<newline>'' []) (ret ())]))))"

section \<open>\<open>mem_init\<close>\<close>

text \<open>Empty in this tree.\<close>

definition mem_init_mp :: "unit km" where
  "mem_init_mp = ret ()"

definition zero_page :: PageInfo where
  "zero_page = \<lparr>pp_link = None, pp_ref = 0\<rparr>"

definition mem_init :: "(u32 \<Rightarrow> u8) \<Rightarrow> unit km" where
  "mem_init cmos =
     thenP (i386_detect_memory cmos)
     (bindP (gets (\<lambda>s. (ksym s, npages s))) (\<lambda>(k, np).
      bindP (boot_alloc (sym_end k) PGSIZE) (\<lambda>kpg.
      thenP (modify (\<lambda>s. fill_frame (kva_frame kpg) 0 (s\<lparr>kern_pgdir := kva_frame kpg\<rparr>)))
      (bindP (PADDR kpg) (\<lambda>kpa.
       thenP (modify (store_word (kva_frame kpg) (unat (PDX UVPT)) (kpa OR PTE_U OR PTE_P)))
       (bindP (boot_alloc (sym_end k) (of_nat np * sizeof_PageInfo)) (\<lambda>pk.
        thenP (modify (\<lambda>s. s\<lparr>pages_kva := pk, pages := (\<lambda>i. if i < np then zero_page else pages s i)\<rparr>))
        (bindP (boot_alloc (sym_end k) (of_nat NENV * sizeof_Env)) (\<lambda>ek.
         thenP (modify (\<lambda>s. s\<lparr>envs_kva := ek, envs := (\<lambda>i. if i < NENV then zero_env else envs s i)\<rparr>))
         (thenP (seqP [page_init (sym_end k), check_page_free_list True, check_page_alloc, check_page])
         (bindP (PADDR pk) (\<lambda>ppa.
          thenP (boot_map_region (kva_frame kpg) UPAGES PTSIZE ppa PTE_U)
          (bindP (PADDR ek) (\<lambda>epa.
           thenP (boot_map_region (kva_frame kpg) UENVS PTSIZE epa (PTE_U OR PTE_P))
           (bindP (PADDR (sym_bootstack k)) (\<lambda>spa.
            seqP [
              boot_map_region (kva_frame kpg) (KSTACKTOP - KSTKSIZE) KSTKSIZE spa PTE_W,
              boot_map_region (kva_frame kpg) KERNBASE (0 - KERNBASE) 0 PTE_W,
              mem_init_mp,
              check_kern_pgdir,
              lcr3 kpa,
              check_page_free_list False,
              modify (\<lambda>s. s\<lparr>cr0 := (cr0 s OR (CR0_PE OR CR0_PG OR CR0_AM OR CR0_WP OR CR0_NE OR CR0_MP))
                                   AND NOT (CR0_TS OR CR0_EM)\<rparr>),
              check_page_installed_pgdir]))))))))))))))))"

end
