(* ===== verification/Lab3Mem.thy ===== *)
theory Lab3Mem
  imports PmapCheck
begin

text \<open>
  The memory manager of \<^verbatim>\<open>project3\<close>, the kernel one assignment earlier: one CPU, one kernel stack,
  no device mappings. Only the functions of \<^verbatim>\<open>project3/kern/pmap.c\<close> that differ from those of
  \<^verbatim>\<open>lab4\<close>, or call one that does, are repeated here, with the suffix \<open>_lab3\<close>; the others are those of
  \<open>Pmap\<close> and \<open>PmapCheck\<close>.
\<close>

section \<open>Page tables\<close>

text \<open>There is one address space: the entry is always invalidated.\<close>

definition tlb_invalidate_lab3 :: "nat \<Rightarrow> u32 \<Rightarrow> unit km" where
  "tlb_invalidate_lab3 pgdir va = invlpg va"

definition page_remove_lab3 :: "nat \<Rightarrow> u32 \<Rightarrow> unit km" where
  "page_remove_lab3 pgdir va =
     bindP (page_lookup pgdir va) (\<lambda>r.
     case r of
       None \<Rightarrow> ret ()
     | Some (pp, ptep) \<Rightarrow>
         thenP (store_pte ptep 0) (thenP (page_decref pp) (tlb_invalidate_lab3 pgdir va)))"

definition page_insert_lab3 :: "nat \<Rightarrow> nat \<Rightarrow> u32 \<Rightarrow> u32 \<Rightarrow> u32 km" where
  "page_insert_lab3 pgdir pp va perm =
     bindP (pgdir_walk pgdir va 1) (\<lambda>p.
     case p of
       None \<Rightarrow> ret (- E_NO_MEM)
     | Some ptep \<Rightarrow>
         thenP (modify (upd_page pp (\<lambda>p. p\<lparr>pp_ref := pp_ref p + 1\<rparr>)))
         (bindP (load_pte ptep) (\<lambda>pte.
          if pte AND PTE_P = 1
          then thenP (page_remove_lab3 pgdir va)
               (thenP (store_pte ptep (page2pa pp OR perm OR PTE_P)) (ret 0))
          else if pte AND PTE_P = 0
          then thenP (store_pte ptep (page2pa pp OR perm OR PTE_P)) (ret 0)
          else ret (- E_NO_MEM))))"

section \<open>The self tests\<close>

text \<open>Without the test for \<^verbatim>\<open>MPENTRY_PADDR\<close>.\<close>

definition check_free_page_lab3 :: "u32 \<Rightarrow> nat \<Rightarrow> unit km" where
  "check_free_page_lab3 first_free_page pp =
     seqP [
       checkS ''pp < pages + npages'' (\<lambda>s. pp < npages s),
       assertP ''page2pa(pp) != 0'' (page2pa pp \<noteq> 0),
       assertP ''page2pa(pp) != IOPHYSMEM'' (page2pa pp \<noteq> IOPHYSMEM),
       assertP ''page2pa(pp) != EXTPHYSMEM - PGSIZE'' (page2pa pp \<noteq> EXTPHYSMEM - PGSIZE),
       assertP ''page2pa(pp) != EXTPHYSMEM'' (page2pa pp \<noteq> EXTPHYSMEM),
       (if page2pa pp < EXTPHYSMEM then ret ()
        else bindP (page2kva pp) (\<lambda>kva.
             assertP ''(char *) page2kva(pp) >= first_free_page'' (kva \<ge> first_free_page)))]"

definition check_page_free_list_lab3 :: "bool \<Rightarrow> unit km" where
  "check_page_free_list_lab3 only_low_memory =
     (let pdx_limit = (if only_low_memory then 1 else NPDENTRIES)
      in bindP (gets page_free_list) (\<lambda>head.
         if head = None then stop (Panic '''page_free_list' is a null pointer!'')
         else thenP (whenP only_low_memory (low_pages_first pdx_limit))
         (bindP free_list (\<lambda>xs.
          thenP (forP xs (\<lambda>pp. if unat (PDX (page2pa pp)) < pdx_limit
                               then bindP (page2kva pp) (\<lambda>kva. modify (fill_words (kva_frame kva) 32 0x97979797))
                               else ret ()))
          (bindP (gets (\<lambda>s. sym_end (ksym s))) (\<lambda>e.
           bindP (boot_alloc e 0) (\<lambda>first_free_page.
           seqP [
             forP xs (check_free_page_lab3 first_free_page),
             assertP ''nfree_basemem > 0'' (\<exists>pp \<in> set xs. page2pa pp < EXTPHYSMEM),
             assertP ''nfree_extmem > 0'' (\<exists>pp \<in> set xs. \<not> page2pa pp < EXTPHYSMEM),
             thenP (cprintf ''check_page_free_list() succeeded!\<newline>'' []) (ret ())])))))))"

text \<open>One kernel stack, with the rest of its 4 MB unmapped.\<close>

definition check_stack_lab3 :: "nat \<Rightarrow> unit km" where
  "check_stack_lab3 pgdir =
     bindP (gets (\<lambda>s. sym_bootstack (ksym s))) (\<lambda>stack.
     thenP (check_region pgdir (KSTACKTOP - KSTKSIZE) (PADDR stack) (unat (KSTKSIZE div PGSIZE)))
     (expect_pa pgdir (KSTACKTOP - PTSIZE) (NOT 0)))"

definition check_pde_lab3 :: "nat \<Rightarrow> nat \<Rightarrow> unit km" where
  "check_pde_lab3 pgdir i =
     bindP (gets (\<lambda>s. pmem s pgdir i)) (\<lambda>pde.
     if i \<in> {unat (PDX UVPT), unat (PDX (KSTACKTOP - 1)), unat (PDX UPAGES), unat (PDX UENVS)}
     then assertP ''pgdir[i] & PTE_P'' (pde AND PTE_P \<noteq> 0)
     else if i \<ge> unat (PDX KERNBASE)
     then thenP (assertP ''pgdir[i] & PTE_P'' (pde AND PTE_P \<noteq> 0))
          (assertP ''pgdir[i] & PTE_W'' (pde AND PTE_W \<noteq> 0))
     else assertP ''pgdir[i] == 0'' (pde = 0))"

abbreviation (input) sizeof_Env_lab3 :: u32 where "sizeof_Env_lab3 \<equiv> 96"

definition check_kern_pgdir_lab3 :: "unit km" where
  "check_kern_pgdir_lab3 =
     bindP (gets (\<lambda>s. (kern_pgdir s, npages s, pages_kva s, envs_kva s))) (\<lambda>(pgdir, np, pk, ek).
     seqP [
       check_region pgdir UPAGES (PADDR pk) (unat (ROUNDUP (of_nat np * sizeof_PageInfo) PGSIZE div PGSIZE)),
       check_region pgdir UENVS (PADDR ek) (unat (ROUNDUP (of_nat NENV * sizeof_Env_lab3) PGSIZE div PGSIZE)),
       check_region pgdir KERNBASE (ret 0) (unat ((of_nat np * PGSIZE) div PGSIZE)),
       check_stack_lab3 pgdir,
       forP [0..<NPDENTRIES] (check_pde_lab3 pgdir),
       thenP (cprintf ''check_kern_pgdir() succeeded!\<newline>'' []) (ret ())])"

text \<open>\<open>check_page\<close> on the versions above, without the test of device mappings.\<close>

definition insert_gives_lab3 :: "nat \<Rightarrow> nat \<Rightarrow> u32 \<Rightarrow> u32 \<Rightarrow> (u32 \<Rightarrow> bool) \<Rightarrow> unit km" where
  "insert_gives_lab3 pd pp va perm ok =
     bindP (page_insert_lab3 pd pp va perm) (\<lambda>r. assertP ''page_insert(kern_pgdir, pp, va, perm)'' (ok r))"

definition check_page_mappings_lab3 :: "nat \<Rightarrow> nat \<Rightarrow> nat \<Rightarrow> nat \<Rightarrow> unit km" where
  "check_page_mappings_lab3 pd pp0 pp1 pp2 =
     seqP [
       no_free_memory,
       bindP (page_lookup pd 0) (\<lambda>r. assertP ''page_lookup(kern_pgdir, 0, &ptep) == NULL'' (r = None)),
       insert_gives_lab3 pd pp1 0 PTE_W (\<lambda>r. r <s 0),
       page_free pp0,
       insert_gives_lab3 pd pp1 0 PTE_W (\<lambda>r. r = 0),
       checkS ''PTE_ADDR(kern_pgdir[0]) == page2pa(pp0)'' (\<lambda>s. PTE_ADDR (pmem s pd 0) = page2pa pp0),
       expect_pa pd 0 (page2pa pp1), has_ref pp1 1, has_ref pp0 1,
       insert_gives_lab3 pd pp2 PGSIZE PTE_W (\<lambda>r. r = 0), expect_pa pd PGSIZE (page2pa pp2), has_ref pp2 1,
       no_free_memory,
       insert_gives_lab3 pd pp2 PGSIZE PTE_W (\<lambda>r. r = 0), expect_pa pd PGSIZE (page2pa pp2), has_ref pp2 1,
       no_free_memory,
       bindP (table_entry pd PGSIZE) (\<lambda>ptep. bindP (pgdir_walk pd PGSIZE 0) (\<lambda>p.
         assertP ''pgdir_walk(kern_pgdir, PGSIZE, 0) == ptep+PTX(PGSIZE)'' (p = Some ptep))),
       insert_gives_lab3 pd pp2 PGSIZE (PTE_W OR PTE_U) (\<lambda>r. r = 0), expect_pa pd PGSIZE (page2pa pp2),
       has_ref pp2 1, walk_check pd PGSIZE (\<lambda>w. w AND PTE_U \<noteq> 0),
       checkS ''kern_pgdir[0] & PTE_U'' (\<lambda>s. pmem s pd 0 AND PTE_U \<noteq> 0),
       insert_gives_lab3 pd pp2 PGSIZE PTE_W (\<lambda>r. r = 0), walk_check pd PGSIZE (\<lambda>w. w AND PTE_W \<noteq> 0),
       walk_check pd PGSIZE (\<lambda>w. w AND PTE_U = 0),
       insert_gives_lab3 pd pp0 PTSIZE PTE_W (\<lambda>r. r <s 0),
       insert_gives_lab3 pd pp1 PGSIZE PTE_W (\<lambda>r. r = 0), walk_check pd PGSIZE (\<lambda>w. w AND PTE_U = 0),
       expect_pa pd 0 (page2pa pp1), expect_pa pd PGSIZE (page2pa pp1), has_ref pp1 2, has_ref pp2 0,
       bindP (page_alloc 0) (\<lambda>p. assertP ''(pp = page_alloc(0)) && pp == pp2'' (p = Some pp2)),
       page_remove_lab3 pd 0, expect_pa pd 0 (NOT 0), expect_pa pd PGSIZE (page2pa pp1),
       has_ref pp1 1, has_ref pp2 0,
       insert_gives_lab3 pd pp1 PGSIZE 0 (\<lambda>r. r = 0),
       checkS ''pp1->pp_ref'' (\<lambda>s. pp_ref (pages s pp1) \<noteq> 0),
       checkS ''pp1->pp_link == NULL'' (\<lambda>s. pp_link (pages s pp1) = None),
       page_remove_lab3 pd PGSIZE, expect_pa pd 0 (NOT 0), expect_pa pd PGSIZE (NOT 0),
       has_ref pp1 0, has_ref pp2 0,
       bindP (page_alloc 0) (\<lambda>p. assertP ''(pp = page_alloc(0)) && pp == pp1'' (p = Some pp1)),
       no_free_memory]"

definition check_page_lab3 :: "unit km" where
  "check_page_lab3 =
     bindP alloc_ok (\<lambda>pp0. bindP alloc_ok (\<lambda>pp1. bindP alloc_ok (\<lambda>pp2.
     thenP (distinct_pages pp0 pp1 pp2)
     (bindP (gets (\<lambda>s. (page_free_list s, kern_pgdir s))) (\<lambda>(fl, pd).
      seqP [
        modify (\<lambda>s. s\<lparr>page_free_list := None\<rparr>),
        check_page_mappings_lab3 pd pp0 pp1 pp2,
        check_page_tables pd pp0,
        modify (\<lambda>s. s\<lparr>page_free_list := fl\<rparr>),
        page_free pp0, page_free pp1, page_free pp2,
        thenP (cprintf ''check_page() succeeded!\<newline>'' []) (ret ())])))))"

definition check_page_installed_pgdir_lab3 :: "unit km" where
  "check_page_installed_pgdir_lab3 =
     bindP alloc_ok (\<lambda>pp0. bindP alloc_ok (\<lambda>pp1. bindP alloc_ok (\<lambda>pp2.
     bindP (gets kern_pgdir) (\<lambda>pd.
     seqP [
       page_free pp0,
       fill_page pp1 0x01010101, fill_page pp2 0x02020202,
       bindP (page_insert_lab3 pd pp1 PGSIZE PTE_W) (\<lambda>_. ret ()), has_ref pp1 1,
       expect_word PGSIZE 0x01010101,
       bindP (page_insert_lab3 pd pp2 PGSIZE PTE_W) (\<lambda>_. ret ()), expect_word PGSIZE 0x02020202,
       has_ref pp2 1, has_ref pp1 0,
       store32 PGSIZE 0x03030303,
       bindP (page2kva pp2) (\<lambda>kva. checkS ''*(uint32_t *)page2kva(pp2) == 0x03030303U''
         (\<lambda>s. pmem s (kva_frame kva) 0 = 0x03030303)),
       page_remove_lab3 pd PGSIZE, has_ref pp2 0,
       checkS ''PTE_ADDR(kern_pgdir[0]) == page2pa(pp0)'' (\<lambda>s. PTE_ADDR (pmem s pd 0) = page2pa pp0),
       modify (store_word pd 0 0), has_ref pp0 1, set_ref pp0 0,
       page_free pp0,
       thenP (cprintf ''check_page_installed_pgdir() succeeded!\<newline>'' []) (ret ())]))))"

section \<open>\<open>mem_init\<close>\<close>

definition mem_init_lab3 :: "(u32 \<Rightarrow> u8) \<Rightarrow> unit km" where
  "mem_init_lab3 cmos =
     thenP (i386_detect_memory cmos)
     (bindP (gets (\<lambda>s. (ksym s, npages s))) (\<lambda>(k, np).
      bindP (boot_alloc (sym_end k) PGSIZE) (\<lambda>kpg.
      thenP (modify (\<lambda>s. fill_frame (kva_frame kpg) 0 (s\<lparr>kern_pgdir := kva_frame kpg\<rparr>)))
      (bindP (PADDR kpg) (\<lambda>kpa.
       thenP (modify (store_word (kva_frame kpg) (unat (PDX UVPT)) (kpa OR PTE_U OR PTE_P)))
       (bindP (boot_alloc (sym_end k) (of_nat np * sizeof_PageInfo)) (\<lambda>pk.
        thenP (modify (\<lambda>s. s\<lparr>pages_kva := pk, pages := (\<lambda>i. if i < np then zero_page else pages s i)\<rparr>))
        (bindP (boot_alloc (sym_end k) (of_nat NENV * sizeof_Env_lab3)) (\<lambda>ek.
         thenP (modify (\<lambda>s. s\<lparr>envs_kva := ek, envs := (\<lambda>i. if i < NENV then zero_env else envs s i)\<rparr>))
         (thenP (seqP [page_init (sym_end k), check_page_free_list_lab3 True, check_page_alloc, check_page_lab3])
         (bindP (PADDR pk) (\<lambda>ppa.
          thenP (boot_map_region (kva_frame kpg) UPAGES PTSIZE ppa PTE_U)
          (bindP (PADDR ek) (\<lambda>epa.
           thenP (boot_map_region (kva_frame kpg) UENVS PTSIZE epa (PTE_U OR PTE_P))
           (bindP (PADDR (sym_bootstack k)) (\<lambda>spa.
            seqP [
              boot_map_region (kva_frame kpg) (KSTACKTOP - KSTKSIZE) KSTKSIZE spa PTE_W,
              boot_map_region (kva_frame kpg) KERNBASE (0 - KERNBASE) 0 PTE_W,
              check_kern_pgdir_lab3,
              lcr3 kpa,
              check_page_free_list_lab3 False,
              modify (\<lambda>s. s\<lparr>cr0 := (cr0 s OR (CR0_PE OR CR0_PG OR CR0_AM OR CR0_WP OR CR0_NE OR CR0_MP))
                                   AND NOT (CR0_TS OR CR0_EM)\<rparr>),
              check_page_installed_pgdir_lab3]))))))))))))))))"

end
