(* ===== verification/PmapCheckSpec.thy ===== *)
theory PmapCheckSpec
  imports PmapCheck PmapInit
begin

text \<open>
  What the test of the free list does: with \<^verbatim>\<open>only_low_memory\<close> it sorts the list, pages of the
  first 4 MB first, and it returns exactly when no page that must not be handed out is listed.
\<close>

section \<open>Lists under construction\<close>

text \<open>\<open>joined nxt xs\<close>: each element of \<open>xs\<close> links to the one after it; the last link is free.\<close>

fun joined :: "(nat \<Rightarrow> nat option) \<Rightarrow> nat list \<Rightarrow> bool" where
  "joined nxt (x # y # zs) \<longleftrightarrow> nxt x = Some y \<and> joined nxt (y # zs)"
| "joined nxt _ \<longleftrightarrow> True"

definition first_of :: "'a list \<Rightarrow> 'a option" where
  "first_of xs = (case xs of [] \<Rightarrow> None | x # _ \<Rightarrow> Some x)"

definition last_of :: "'a list \<Rightarrow> 'a option" where
  "last_of xs = (if xs = [] then None else Some (last xs))"

lemma first_last_of [simp]:
  "first_of [] = None" "first_of (x # xs) = Some x" "last_of [] = None"
  "last_of (xs @ [x]) = Some x" "last_of xs = None \<longleftrightarrow> xs = []" "first_of xs = None \<longleftrightarrow> xs = []"
  by (auto simp: first_of_def last_of_def split: list.splits)

lemma first_of_append: "first_of (xs @ ys) = (case first_of xs of None \<Rightarrow> first_of ys | Some x \<Rightarrow> Some x)"
  by (cases xs) simp_all

lemma last_ofD: "last_of xs = Some x \<Longrightarrow> xs \<noteq> [] \<and> x = last xs \<and> x \<in> set xs"
  by (auto simp: last_of_def split: if_splits)

lemma joined_snoc: "joined nxt (xs @ [y]) \<longleftrightarrow> joined nxt xs \<and> (xs = [] \<or> nxt (last xs) = Some y)"
  by (induction nxt xs rule: joined.induct) auto

lemma joined_append:
  "joined nxt (xs @ ys) \<longleftrightarrow>
     joined nxt xs \<and> joined nxt ys \<and> (xs = [] \<or> ys = [] \<or> nxt (last xs) = first_of ys)"
proof (induction xs)
  case (Cons x xs)
  then show ?case by (cases xs; cases ys) auto
qed simp

lemma joined_cong:
  "(\<And>x. x \<in> set (butlast xs) \<Longrightarrow> nxt' x = nxt x) \<Longrightarrow> joined nxt' xs = joined nxt xs"
  by (induction nxt xs rule: joined.induct) auto

lemma linked_joined:
  "linked nxt p xs \<longleftrightarrow> p = first_of xs \<and> joined nxt xs \<and> (xs = [] \<or> nxt (last xs) = None)"
  by (induction xs arbitrary: p) (auto simp: first_of_def split: list.splits)

lemma last_notin_butlast: "distinct xs \<Longrightarrow> xs \<noteq> [] \<Longrightarrow> last xs \<notin> set (butlast xs)"
  by (metis append_butlast_last_id distinct_butlast not_distinct_conv_prefix distinct_append
      disjoint_insert(1) list.simps(15) inf_commute)

section \<open>The free list as the test reads it\<close>

lemma links_linked:
  "linked (\<lambda>x. pp_link (pg x)) p xs \<Longrightarrow> length xs \<le> n \<Longrightarrow> links n p pg = Some xs"
proof (induction n arbitrary: p xs)
  case 0
  then show ?case by simp
next
  case (Suc n)
  then show ?case by (cases xs) auto
qed

lemma free_list_run:
  assumes "free_pages s xs" and "machine_ok s"
  shows "run free_list s = (Ret xs, s)"
proof -
  have "set xs \<subseteq> {..<1048576}" using assms by (auto simp: free_pages_def machine_ok_def)
  then have "card (set xs) \<le> 1048576" using card_mono [of "{..<1048576 :: nat}" "set xs"] by simp
  then have "length xs \<le> 2 ^ 20" using free_pages_distinct [OF assms(1)] by (simp add: distinct_card)
  then have "links (2 ^ 20) (page_free_list s) (pages s) = Some xs"
    using assms(1) by (intro links_linked) (simp_all add: free_pages_def)
  then show ?thesis by (simp add: free_list_def prog_simps)
qed

section \<open>Low pages first\<close>

definition low_page :: "nat \<Rightarrow> nat \<Rightarrow> bool" where
  "low_page limit pp \<longleftrightarrow> unat (PDX (page2pa pp)) < limit"

definition lows :: "nat \<Rightarrow> nat list \<Rightarrow> nat list" where
  "lows limit xs = filter (low_page limit) xs"

definition highs :: "nat \<Rightarrow> nat list \<Rightarrow> nat list" where
  "highs limit xs = filter (\<lambda>p. \<not> low_page limit p) xs"

abbreviation link_of :: "kstate \<Rightarrow> nat \<Rightarrow> nat option" where
  "link_of s x \<equiv> pp_link (pages s x)"

text \<open>Only links of pages in \<open>D\<close> differ from \<open>s\<close>.\<close>

definition relinked :: "nat set \<Rightarrow> kstate \<Rightarrow> kstate \<Rightarrow> bool" where
  "relinked D s t \<longleftrightarrow> (\<exists>pg. t = s\<lparr>pages := pg\<rparr>) \<and> (\<forall>x. pp_ref (pages t x) = pp_ref (pages s x))
     \<and> (\<forall>x. x \<notin> D \<longrightarrow> link_of t x = link_of s x)"

definition split_inv :: "nat \<Rightarrow> kstate \<Rightarrow> nat list \<Rightarrow>
    nat option \<times> nat option \<times> nat option \<times> nat option \<Rightarrow> kstate \<Rightarrow> bool" where
  "split_inv limit s done r t \<longleftrightarrow>
     r = (first_of (lows limit done), first_of (highs limit done), last_of (lows limit done), last_of (highs limit done))
     \<and> joined (link_of t) (lows limit done) \<and> joined (link_of t) (highs limit done) \<and> relinked (set done) s t"

lemma set_link_run [prog_simps]: "run (set_link q p) s = (Ret (), upd_page q (\<lambda>i. i\<lparr>pp_link := p\<rparr>) s)"
  by (simp add: set_link_def prog_simps)

lemma link_of_set_link: "link_of (upd_page q (\<lambda>i. i\<lparr>pp_link := p\<rparr>) s) = (link_of s)(q := p)"
  by (auto simp: upd_page_def)

lemma relinked_set_link:
  assumes "relinked D s t" and "q \<in> D'" and "D \<subseteq> D'"
  shows "relinked D' s (upd_page q (\<lambda>i. i\<lparr>pp_link := p\<rparr>) t)"
  using assms by (auto simp: relinked_def upd_page_def)

lemma relinked_mono: "relinked D s t \<Longrightarrow> D \<subseteq> D' \<Longrightarrow> relinked D' s t"
  by (auto simp: relinked_def)

lemma joined_set_last:
  assumes "joined (link_of t) xs" and "distinct (xs @ [x])" and "last_of xs = Some q"
  shows "joined (link_of (upd_page q (\<lambda>i. i\<lparr>pp_link := Some x\<rparr>) t)) (xs @ [x])"
proof -
  have q: "xs \<noteq> []" "q = last xs" using last_ofD [OF assms(3)] by auto
  have "joined ((link_of t)(q := Some x)) xs = joined (link_of t) xs"
    using assms(2) q last_notin_butlast [of xs] by (intro joined_cong) auto
  then show ?thesis using assms(1) q by (simp only: link_of_set_link joined_snoc) simp
qed

lemma joined_set_other:
  assumes "joined (link_of t) ys" and "q \<notin> set ys"
  shows "joined (link_of (upd_page q (\<lambda>i. i\<lparr>pp_link := p\<rparr>) t)) ys"
proof -
  have "joined ((link_of t)(q := p)) ys = joined (link_of t) ys"
    using assms(2) by (intro joined_cong) (auto dest: in_set_butlastD)
  then show ?thesis using assms(1) by (simp only: link_of_set_link)
qed

lemma lows_highs_snoc:
  "lows l (xs @ [x]) = (if low_page l x then lows l xs @ [x] else lows l xs)"
  "highs l (xs @ [x]) = (if low_page l x then highs l xs else highs l xs @ [x])"
  by (simp_all add: lows_def highs_def)

lemma set_lows_highs: "set (lows l xs) = {x \<in> set xs. low_page l x}"
  "set (highs l xs) = {x \<in> set xs. \<not> low_page l x}"
  by (auto simp: lows_def highs_def)

lemma split_page_step:
  assumes inv: "split_inv limit s done r t" and d: "distinct (done @ [x])"
  shows "\<exists>r' t'. run (split_page limit x r) t = (Ret r', t') \<and> split_inv limit s (done @ [x]) r' t'"
proof -
  let ?L = "lows limit done" and ?H = "highs limit done"
  let ?A = "if low_page limit x then ?L else ?H" and ?B = "if low_page limit x then ?H else ?L"
  have r: "r = (first_of ?L, first_of ?H, last_of ?L, last_of ?H)"
    and j: "joined (link_of t) ?A" "joined (link_of t) ?B" and rel: "relinked (set done) s t"
    using inv by (auto simp: split_inv_def)
  have dA: "distinct (?A @ [x])" using d by (simp add: lows_def highs_def)
  have mono: "relinked (set (done @ [x])) s t" by (rule relinked_mono [OF rel]) auto
  show ?thesis
  proof (cases "last_of ?A")
    case None
    then have "?A = []" by simp
    then show ?thesis using j mono
      by (auto simp: split_page_def r prog_simps split_inv_def lows_highs_snoc low_page_def [symmetric]
          not_less [symmetric] split: if_splits)
  next
    case (Some q)
    have q: "q \<in> set ?A" "?A \<noteq> []" using last_ofD [OF Some] by auto
    let ?t = "upd_page q (\<lambda>i. i\<lparr>pp_link := Some x\<rparr>) t"
    have "q \<notin> set ?B" using q by (auto simp: set_lows_highs split: if_splits)
    then have B: "joined (link_of ?t) ?B" by (rule joined_set_other [OF j(2)])
    have A: "joined (link_of ?t) (?A @ [x])" by (rule joined_set_last [OF j(1) dA Some])
    have R: "relinked (set (done @ [x])) s ?t"
      using q by (intro relinked_set_link [OF rel]) (auto simp: set_lows_highs split: if_splits)
    show ?thesis using A B R Some q(2)
      by (auto simp: split_page_def r prog_simps split_inv_def lows_highs_snoc low_page_def [symmetric]
          not_less [symmetric] first_of_append split: if_splits option.splits)
  qed
qed

lemma split_loop:
  assumes "split_inv limit s done r t" and "distinct (done @ xs)"
  shows "\<exists>r' t'. run (foldP xs (split_page limit) r) t = (Ret r', t') \<and> split_inv limit s (done @ xs) r' t'"
  using assms
proof (induction xs arbitrary: "done" r t)
  case Nil
  then show ?case by (simp add: prog_simps)
next
  case (Cons x xs)
  obtain r' t' where s1: "run (split_page limit x r) t = (Ret r', t')" "split_inv limit s (done @ [x]) r' t'"
    using split_page_step [OF Cons.prems(1), of x] Cons.prems(2) by auto
  from Cons.IH [OF this(2)] Cons.prems(2) s1(1) show ?case by (simp add: prog_simps)
qed

lemma low_pages_first_run:
  assumes "free_pages s xs" and "machine_ok s"
  shows "\<exists>pg. run (low_pages_first limit) s =
      (Ret (), s\<lparr>pages := pg, page_free_list := first_of (lows limit xs @ highs limit xs)\<rparr>)
    \<and> free_pages (s\<lparr>pages := pg, page_free_list := first_of (lows limit xs @ highs limit xs)\<rparr>)
        (lows limit xs @ highs limit xs)
    \<and> (\<forall>x. pp_ref (pg x) = pp_ref (pages s x))"
proof -
  let ?L = "lows limit xs" and ?H = "highs limit xs"
  have dist: "distinct xs" by (rule free_pages_distinct [OF assms(1)])
  have "split_inv limit s [] (None, None, None, None) s"
    by (auto simp: split_inv_def lows_def highs_def relinked_def intro!: exI [of _ "pages s"])
  from split_loop [OF this, of xs] dist obtain t where
    t: "run (foldP xs (split_page limit) (None, None, None, None)) s
          = (Ret (first_of ?L, first_of ?H, last_of ?L, last_of ?H), t)"
    and j: "joined (link_of t) ?L" "joined (link_of t) ?H" and rel: "relinked (set xs) s t"
    by (auto simp: split_inv_def)
  define u where "u = (case last_of ?H of None \<Rightarrow> t | Some q \<Rightarrow> upd_page q (\<lambda>i. i\<lparr>pp_link := None\<rparr>) t)"
  define v where "v = (case last_of ?L of None \<Rightarrow> u | Some q \<Rightarrow> upd_page q (\<lambda>i. i\<lparr>pp_link := first_of ?H\<rparr>) u)"
  have dH: "distinct ?H" "distinct ?L" "set ?L \<inter> set ?H = {}" using dist by (auto simp: lows_def highs_def)
  have link_u: "link_of u x = (case last_of ?H of None \<Rightarrow> link_of t x | Some q \<Rightarrow> if x = q then None else link_of t x)" for x
    by (auto simp: u_def upd_page_def split: option.splits)
  have link_v: "link_of v x = (case last_of ?L of None \<Rightarrow> link_of u x | Some q \<Rightarrow> if x = q then first_of ?H else link_of u x)" for x
    by (auto simp: v_def upd_page_def split: option.splits)
  have off_last: "\<And>zs x. distinct zs \<Longrightarrow> x \<in> set (butlast zs) \<Longrightarrow> last_of zs \<noteq> Some x"
    using last_notin_butlast by (metis last_ofD)
  have same: "link_of v x = link_of t x" if "last_of ?H \<noteq> Some x" "last_of ?L \<noteq> Some x" for x
    using that by (auto simp: link_v link_u split: option.splits)
  have disj: "last_of A \<noteq> Some x" if "x \<in> set B" "(A, B) \<in> {(?L, ?H), (?H, ?L)}" for x A B
    using that dH(3) by (auto dest!: last_ofD)
  have "joined (link_of v) ?H = joined (link_of t) ?H"
    using off_last [OF dH(1)] disj by (intro joined_cong same) (auto dest: in_set_butlastD)
  moreover have "joined (link_of v) ?L = joined (link_of t) ?L"
    using off_last [OF dH(2)] disj by (intro joined_cong same) (auto dest: in_set_butlastD)
  moreover have "?H = [] \<or> link_of v (last ?H) = None"
    using dH(3) by (auto simp: link_v link_u split: option.splits dest!: last_ofD)
  moreover have "?L = [] \<or> link_of v (last ?L) = first_of ?H"
    by (auto simp: link_v last_of_def split: option.splits)
  ultimately have chain: "linked (link_of v) (first_of (?L @ ?H)) (?L @ ?H)"
    using j by (auto simp: linked_joined joined_append first_of_append last_append split: if_splits)
  have ends: "q \<in> set xs" if "last_of ?L = Some q \<or> last_of ?H = Some q" for q
    using that by (auto dest!: last_ofD simp: set_lows_highs)
  have "relinked (set xs) s u"
    using rel ends unfolding u_def by (cases "last_of ?H") (simp_all add: relinked_set_link)
  then have relv: "relinked (set xs) s v"
    using ends unfolding v_def by (cases "last_of ?L") (simp_all add: relinked_set_link)
  from relv obtain pg where pg: "v = s\<lparr>pages := pg\<rparr>" unfolding relinked_def by blast
  have "run (low_pages_first limit) s = (Ret (), v\<lparr>page_free_list := first_of (?L @ ?H)\<rparr>)"
    unfolding low_pages_first_def v_def u_def
    by (cases "last_of ?H"; cases "last_of ?L")
      (simp_all add: prog_simps free_list_run [OF assms] t first_of_append split: option.split, auto dest: last_ofD)
  moreover have "free_pages (v\<lparr>page_free_list := first_of (?L @ ?H)\<rparr>) (?L @ ?H)"
    using chain relv assms(1) by (auto simp: free_pages_def relinked_def set_lows_highs pg)
  ultimately show ?thesis using relv by (intro exI [of _ pg]) (simp add: pg relinked_def)
qed

section \<open>The pages that must not be listed\<close>

definition page_sound :: "u32 \<Rightarrow> nat \<Rightarrow> bool" where
  "page_sound first_free pp \<longleftrightarrow>
     page2pa pp \<notin> {0, IOPHYSMEM, EXTPHYSMEM - PGSIZE, EXTPHYSMEM, MPENTRY_PADDR} \<and>
     (page2pa pp < EXTPHYSMEM \<or> first_free \<le> frame_kva pp)"

definition list_sound :: "u32 \<Rightarrow> nat list \<Rightarrow> bool" where
  "list_sound first_free xs \<longleftrightarrow>
     (\<forall>pp \<in> set xs. page_sound first_free pp) \<and>
     (\<exists>pp \<in> set xs. page2pa pp < EXTPHYSMEM) \<and> (\<exists>pp \<in> set xs. \<not> page2pa pp < EXTPHYSMEM)"

lemma run_checkS [prog_simps]:
  "run (checkS msg f) s = (if f s then (Ret (), s) else (Stop (Panic msg), s))"
  by (simp add: checkS_def prog_simps)

lemma check_free_page_run:
  assumes "machine_ok s" and "pp < npages s"
  shows "\<exists>msg. run (check_free_page first_free pp) s =
    (if page_sound first_free pp then Ret () else Stop (Panic msg), s)"
  using assms by (simp add: check_free_page_def prog_simps run_page2kva page_sound_def)

lemma check_free_pages_run:
  assumes "machine_ok s" and "\<forall>pp \<in> set xs. pp < npages s"
  shows "\<exists>msg. run (forP xs (check_free_page first_free)) s =
    (if \<forall>pp \<in> set xs. page_sound first_free pp then Ret () else Stop (Panic msg), s)"
  using assms(2)
proof (induction xs)
  case Nil
  then show ?case by (simp add: prog_simps)
next
  case (Cons x xs)
  obtain msg where "run (check_free_page first_free x) s =
      (if page_sound first_free x then Ret () else Stop (Panic msg), s)"
    using check_free_page_run [OF assms(1), of x] Cons.prems by auto
  then show ?case using Cons by (auto simp: prog_simps)
qed

definition spoil_page :: "nat \<Rightarrow> nat \<Rightarrow> unit km" where
  "spoil_page limit pp =
     (if unat (PDX (page2pa pp)) < limit
      then bindP (page2kva pp) (\<lambda>kva. modify (fill_words (kva_frame kva) 32 0x97979797))
      else ret ())"

lemma spoil_pages_run:
  assumes "machine_ok s" and "\<forall>pp \<in> set xs. pp < npages s"
  shows "\<exists>pm. run (forP xs (spoil_page limit)) s = (Ret (), s\<lparr>pmem := pm\<rparr>)
    \<and> (\<forall>f. f \<notin> set xs \<longrightarrow> pm f = pmem s f)"
  using assms
proof (induction xs arbitrary: s)
  case Nil
  then show ?case by (auto simp: prog_simps intro!: exI [of _ "pmem s"])
next
  case (Cons x xs)
  have x: "x < 1048576" "x < npages s" using Cons.prems by (auto simp: machine_ok_def)
  obtain pm where pm: "run (spoil_page limit x) s = (Ret (), s\<lparr>pmem := pm\<rparr>)" "\<forall>f. f \<noteq> x \<longrightarrow> pm f = pmem s f"
  proof (cases "unat (PDX (page2pa x)) < limit")
    case True
    then show thesis using x Cons.prems(1)
      by (intro that) (auto simp: spoil_page_def prog_simps run_page2kva kva_frame_frame_kva fill_words_def)
  next
    case False
    then show thesis by (intro that [of "pmem s"]) (simp_all add: spoil_page_def prog_simps)
  qed
  have "machine_ok (s\<lparr>pmem := pm\<rparr>)" "\<forall>pp \<in> set xs. pp < npages (s\<lparr>pmem := pm\<rparr>)"
    using Cons.prems by (simp_all add: machine_ok_def)
  from Cons.IH [OF this] obtain pm' where "run (forP xs (spoil_page limit)) (s\<lparr>pmem := pm\<rparr>) = (Ret (), s\<lparr>pmem := pm'\<rparr>)"
      "\<forall>f. f \<notin> set xs \<longrightarrow> pm' f = pm f" by auto
  then show ?case using pm by (auto simp: prog_simps)
qed

definition test_order :: "bool \<Rightarrow> nat list \<Rightarrow> nat list" where
  "test_order low xs = (if low then lows 1 xs @ highs 1 xs else xs)"

lemma set_test_order [simp]: "set (test_order low xs) = set xs"
  by (auto simp: test_order_def set_lows_highs)

lemma list_sound_test_order [simp]: "list_sound f (test_order low xs) = list_sound f xs"
  by (simp add: list_sound_def)

lemma sort_free_list:
  assumes "free_pages s xs" and "machine_ok s"
  shows "\<exists>t. run (whenP low (low_pages_first 1)) s = (Ret (), t) \<and> free_pages t (test_order low xs)
    \<and> machine_ok t \<and> nextfree t = nextfree s \<and> ksym t = ksym s \<and> npages t = npages s \<and> pmem t = pmem s
    \<and> (\<forall>x. pp_ref (pages t x) = pp_ref (pages s x))"
proof (cases low)
  case True
  then show ?thesis
    using low_pages_first_run [OF assms, of 1] assms(2)
    by (auto simp: prog_simps test_order_def machine_ok_def)
next
  case False
  then show ?thesis using assms by (simp add: prog_simps test_order_def)
qed

lemma succeeded_format [formats]:
  "vprintfmt ''check_page_free_list() succeeded!\<newline>'' [] \<noteq> None"
  by (simp add: fmt_eval)

lemma check_page_free_list_run:
  assumes "free_pages s xs" and "machine_ok s" and "nextfree s \<noteq> 0"
  shows "\<exists>msg t. run (check_page_free_list low) s =
      (if list_sound (nextfree s) xs then Ret () else Stop (Panic msg), t)
    \<and> (list_sound (nextfree s) xs \<longrightarrow> free_pages t (test_order low xs) \<and> machine_ok t
        \<and> (\<forall>x. pp_ref (pages t x) = pp_ref (pages s x)) \<and> (\<forall>f. f \<notin> set xs \<longrightarrow> pmem t f = pmem s f))"
proof (cases "page_free_list s")
  case None
  then have "xs = []" using assms(1) by (cases xs) (auto simp: free_pages_def)
  then show ?thesis using None by (simp add: check_page_free_list_def prog_simps Let_def list_sound_def)
next
  case (Some h)
  let ?l = "if low then 1 else NPDENTRIES"
  obtain t where t: "run (whenP low (low_pages_first ?l)) s = (Ret (), t)" "free_pages t (test_order low xs)"
    "machine_ok t" "nextfree t = nextfree s" "npages t = npages s" "pmem t = pmem s"
    "\<forall>x. pp_ref (pages t x) = pp_ref (pages s x)"
    using sort_free_list [OF assms(1,2), of low] by (cases low) (auto simp: prog_simps)
  have np: "\<forall>pp \<in> set (test_order low xs). pp < npages t" using t(2) by (auto simp: free_pages_def)
  obtain pm where pm: "run (forP (test_order low xs) (spoil_page ?l)) t = (Ret (), t\<lparr>pmem := pm\<rparr>)"
    "\<forall>f. f \<notin> set xs \<longrightarrow> pm f = pmem t f"
    using spoil_pages_run [OF t(3) np, of ?l] by auto
  let ?u = "t\<lparr>pmem := pm\<rparr>"
  have u: "machine_ok ?u" "\<forall>pp \<in> set (test_order low xs). pp < npages ?u" "free_pages ?u (test_order low xs)"
    using t(2,3) np by (simp_all add: machine_ok_def free_pages_def)
  obtain msg where chk: "run (forP (test_order low xs) (check_free_page (nextfree s))) ?u =
      (if \<forall>pp \<in> set (test_order low xs). page_sound (nextfree s) pp then Ret () else Stop (Panic msg), ?u)"
    using check_free_pages_run [OF u(1,2)] by blast
  have fl: "run free_list t = (Ret (test_order low xs), t)" by (rule free_list_run [OF t(2,3)])
  have body: "(\<lambda>pp. if unat (PDX (page2pa pp)) < ?l then bindP (page2kva pp)
      (\<lambda>kva. modify (fill_words (kva_frame kva) 32 0x97979797)) else ret ()) = spoil_page ?l"
    by (simp add: spoil_page_def fun_eq_iff)
  have ba: "run (boot_alloc e 0) ?u = (Ret (nextfree s), ?u)" for e
    using t(4) assms(3) by (simp add: boot_alloc_zero)
  let ?v = "?u\<lparr>console := console ?u @ render ''check_page_free_list() succeeded!\<newline>'' []\<rparr>"
  have "free_pages ?v (test_order low xs)" "machine_ok ?v" using u(1,3) by (simp_all add: machine_ok_def free_pages_def)
  then show ?thesis
    using Some t pm chk ba fl
    unfolding check_page_free_list_def Let_def body
    by (auto simp: prog_simps list_sound_def run_cprintf formats split: if_splits)
qed

end
