(* ===== verification/SelfTest.thy ===== *)
theory SelfTest
  imports Lab3Mem PmapCheckSpec PmapSpace
begin

text \<open>
  The self tests of \<^verbatim>\<open>project3/kern/pmap.c\<close> pass. They work on three pages and the first two
  entries of the page directory; \<open>bench\<close> is the state of a machine in the middle of such a test.
\<close>

section \<open>The bench\<close>

definition bench :: "kstate \<Rightarrow> nat \<Rightarrow> nat \<Rightarrow> nat \<Rightarrow> nat \<Rightarrow> nat option \<Rightarrow> PageInfo \<Rightarrow> PageInfo \<Rightarrow> PageInfo \<Rightarrow>
    u32 \<Rightarrow> u32 \<Rightarrow> (nat \<Rightarrow> u32) \<Rightarrow> (nat \<Rightarrow> u32) \<Rightarrow> (nat \<Rightarrow> u32) \<Rightarrow> u32 list \<Rightarrow> kstate" where
  "bench s pd a b c fl A B C d0 d1 M N P l =
     s\<lparr>page_free_list := fl, pages := (pages s)(a := A, b := B, c := C),
       pmem := (pmem s)(pd := (pmem s pd)(0 := d0, Suc 0 := d1), a := M, b := N, c := P), invlpgs := l\<rparr>"

definition trio :: "kstate \<Rightarrow> nat \<Rightarrow> nat \<Rightarrow> nat \<Rightarrow> nat \<Rightarrow> bool" where
  "trio s pd a b c \<longleftrightarrow>
     machine_ok s \<and> pd < npages s \<and> a < npages s \<and> b < npages s \<and> c < npages s \<and>
     pd \<noteq> a \<and> pd \<noteq> b \<and> pd \<noteq> c \<and> a \<noteq> b \<and> a \<noteq> c \<and> b \<noteq> c"

lemma bench_sel [simp]:
  "page_free_list (bench s pd a b c fl A B C d0 d1 M N P l) = fl"
  "npages (bench s pd a b c fl A B C d0 d1 M N P l) = npages s"
  "kern_pgdir (bench s pd a b c fl A B C d0 d1 M N P l) = kern_pgdir s"
  "cr3 (bench s pd a b c fl A B C d0 d1 M N P l) = cr3 s"
  "cr0 (bench s pd a b c fl A B C d0 d1 M N P l) = cr0 s"
  "machine_ok (bench s pd a b c fl A B C d0 d1 M N P l) = machine_ok s"
  "(bench s pd a b c fl A B C d0 d1 M N P l)\<lparr>page_free_list := fl'\<rparr> = bench s pd a b c fl' A B C d0 d1 M N P l"
  "invlpgs (bench s pd a b c fl A B C d0 d1 M N P l) = l"
  "(bench s pd a b c fl A B C d0 d1 M N P l)\<lparr>invlpgs := l'\<rparr> = bench s pd a b c fl A B C d0 d1 M N P l'"
  by (simp_all add: bench_def machine_ok_def)

lemma bench_pages:
  assumes "trio s pd a b c"
  shows "pages (bench s pd a b c fl A B C d0 d1 M N P l) a = A"
    "pages (bench s pd a b c fl A B C d0 d1 M N P l) b = B"
    "pages (bench s pd a b c fl A B C d0 d1 M N P l) c = C"
    "pmem (bench s pd a b c fl A B C d0 d1 M N P l) pd 0 = d0"
    "pmem (bench s pd a b c fl A B C d0 d1 M N P l) pd (Suc 0) = d1"
    "pmem (bench s pd a b c fl A B C d0 d1 M N P l) a = M"
    "pmem (bench s pd a b c fl A B C d0 d1 M N P l) b = N"
    "pmem (bench s pd a b c fl A B C d0 d1 M N P l) c = P"
  using assms by (simp_all add: bench_def trio_def)

lemma bench_upd:
  assumes "trio s pd a b c"
  shows "upd_page a g (bench s pd a b c fl A B C d0 d1 M N P l) = bench s pd a b c fl (g A) B C d0 d1 M N P l"
    "upd_page b g (bench s pd a b c fl A B C d0 d1 M N P l) = bench s pd a b c fl A (g B) C d0 d1 M N P l"
    "upd_page c g (bench s pd a b c fl A B C d0 d1 M N P l) = bench s pd a b c fl A B (g C) d0 d1 M N P l"
    "store_word pd 0 w (bench s pd a b c fl A B C d0 d1 M N P l) = bench s pd a b c fl A B C w d1 M N P l"
    "store_word pd (Suc 0) w (bench s pd a b c fl A B C d0 d1 M N P l) = bench s pd a b c fl A B C d0 w M N P l"
    "store_word a i w (bench s pd a b c fl A B C d0 d1 M N P l) = bench s pd a b c fl A B C d0 d1 (M(i := w)) N P l"
    "store_word b i w (bench s pd a b c fl A B C d0 d1 M N P l) = bench s pd a b c fl A B C d0 d1 M (N(i := w)) P l"
    "store_word c i w (bench s pd a b c fl A B C d0 d1 M N P l) = bench s pd a b c fl A B C d0 d1 M N (P(i := w)) l"
    "fill_frame a w (bench s pd a b c fl A B C d0 d1 M N P l) = bench s pd a b c fl A B C d0 d1 (\<lambda>_. w) N P l"
    "fill_frame b w (bench s pd a b c fl A B C d0 d1 M N P l) = bench s pd a b c fl A B C d0 d1 M (\<lambda>_. w) P l"
    "fill_frame c w (bench s pd a b c fl A B C d0 d1 M N P l) = bench s pd a b c fl A B C d0 d1 M N (\<lambda>_. w) l"
  using assms
  by (auto simp: bench_def trio_def upd_page_def store_word_def fill_frame_def fun_eq_iff
      intro!: arg_cong2 [where f = "\<lambda>x y. s\<lparr>page_free_list := fl, pages := x, pmem := y, invlpgs := l\<rparr>"])

lemma page_rec: "(A :: PageInfo)\<lparr>pp_ref := r, pp_link := q\<rparr> = \<lparr>pp_link = q, pp_ref = r\<rparr>"
  by (cases A) simp

lemma bench_push:
  assumes "trio s pd a b c"
  shows "push_free a (bench s pd a b c fl A B C d0 d1 M N P l)
      = bench s pd a b c (Some a) \<lparr>pp_link = fl, pp_ref = 0\<rparr> B C d0 d1 M N P l"
    "push_free b (bench s pd a b c fl A B C d0 d1 M N P l)
      = bench s pd a b c (Some b) A \<lparr>pp_link = fl, pp_ref = 0\<rparr> C d0 d1 M N P l"
    "push_free c (bench s pd a b c fl A B C d0 d1 M N P l)
      = bench s pd a b c (Some c) A B \<lparr>pp_link = fl, pp_ref = 0\<rparr> d0 d1 M N P l"
  by (simp_all add: push_free_def bench_upd [OF assms] page_rec)

lemma trioD:
  assumes "trio s pd a b c"
  shows "machine_ok s" "pd < npages s" "a < npages s" "b < npages s" "c < npages s"
    and "pd \<noteq> a" "pd \<noteq> b" "pd \<noteq> c" "a \<noteq> b" "a \<noteq> c" "b \<noteq> c" "a \<noteq> pd" "b \<noteq> pd" "c \<noteq> pd" "b \<noteq> a" "c \<noteq> a" "c \<noteq> b"
    and "\<not> npages s \<le> a" "\<not> npages s \<le> b" "\<not> npages s \<le> c" "\<not> npages s \<le> pd"
    and "a < 1048576" "b < 1048576" "c < 1048576" "pd < 1048576"
  using assms by (auto simp: trio_def machine_ok_def)

text \<open>The entries the tests store.\<close>

lemma page2pa_or_low: "(page2pa pp OR w) AND 1 = w AND 1" "(page2pa pp OR w) AND 2 = w AND 2" "(page2pa pp OR w) AND 4 = w AND 4"
  "page2pa pp AND 1 = 0" "page2pa pp AND 2 = 0" "page2pa pp AND 4 = 0"
proof -
  have "page2pa pp AND n = 0" if n: "n AND mask 12 = n" for n :: u32
  proof (rule bit_word_eqI)
    fix k assume "k < LENGTH(32)"
    have "bit n k \<Longrightarrow> k < 12" using arg_cong [OF n, of "\<lambda>x. bit x k"] by (simp add: bit_simps)
    then show "bit (page2pa pp AND n) k = bit (0 :: u32) k" by (auto simp: page2pa_def bit_simps)
  qed
  from this [of 1] this [of 2] this [of 4]
  show z: "page2pa pp AND 1 = 0" "page2pa pp AND 2 = 0" "page2pa pp AND 4 = 0" by (simp_all add: mask_eq_exp_minus_1)
  then show "(page2pa pp OR w) AND 1 = w AND 1" "(page2pa pp OR w) AND 2 = w AND 2" "(page2pa pp OR w) AND 4 = w AND 4"
    by (simp_all add: bit.conj_disj_distrib2)
qed

text \<open>The page allocator on the bench.\<close>

lemma bench_alloc:
  assumes T: "trio s pd a b c"
  shows "run (page_alloc 0) (bench s pd a b c None A B C d0 d1 M N P l) = (Ret None, bench s pd a b c None A B C d0 d1 M N P l)"
    "run (page_alloc 0) (bench s pd a b c (Some a) \<lparr>pp_link = q, pp_ref = r\<rparr> B C d0 d1 M N P l)
      = (Ret (Some a), bench s pd a b c q \<lparr>pp_link = None, pp_ref = r\<rparr> B C d0 d1 M N P l)"
    "run (page_alloc 0) (bench s pd a b c (Some b) A \<lparr>pp_link = q, pp_ref = r\<rparr> C d0 d1 M N P l)
      = (Ret (Some b), bench s pd a b c q A \<lparr>pp_link = None, pp_ref = r\<rparr> C d0 d1 M N P l)"
    "run (page_alloc 0) (bench s pd a b c (Some c) A B \<lparr>pp_link = q, pp_ref = r\<rparr> d0 d1 M N P l)
      = (Ret (Some c), bench s pd a b c q A B \<lparr>pp_link = None, pp_ref = r\<rparr> d0 d1 M N P l)"
    "run (page_alloc 1) (bench s pd a b c None A B C d0 d1 M N P l) = (Ret None, bench s pd a b c None A B C d0 d1 M N P l)"
    "run (page_alloc 1) (bench s pd a b c (Some a) \<lparr>pp_link = q, pp_ref = r\<rparr> B C d0 d1 M N P l)
      = (Ret (Some a), bench s pd a b c q \<lparr>pp_link = None, pp_ref = r\<rparr> B C d0 d1 (\<lambda>_. 0) N P l)"
    "run (page_alloc 1) (bench s pd a b c (Some c) A B \<lparr>pp_link = q, pp_ref = r\<rparr> d0 d1 M N P l)
      = (Ret (Some c), bench s pd a b c q A B \<lparr>pp_link = None, pp_ref = r\<rparr> d0 d1 M N (\<lambda>_. 0) l)"
  by (simp_all add: page_alloc_def prog_simps bench_pages [OF T] bench_upd [OF T] run_page2kva kva_frame_frame_kva trioD [OF T])

lemma bench_free:
  assumes T: "trio s pd a b c"
  shows "run (page_free a) (bench s pd a b c fl \<lparr>pp_link = None, pp_ref = 0\<rparr> B C d0 d1 M N P l)
      = (Ret (), bench s pd a b c (Some a) \<lparr>pp_link = fl, pp_ref = 0\<rparr> B C d0 d1 M N P l)"
    "run (page_free b) (bench s pd a b c fl A \<lparr>pp_link = None, pp_ref = 0\<rparr> C d0 d1 M N P l)
      = (Ret (), bench s pd a b c (Some b) A \<lparr>pp_link = fl, pp_ref = 0\<rparr> C d0 d1 M N P l)"
    "run (page_free c) (bench s pd a b c fl A B \<lparr>pp_link = None, pp_ref = 0\<rparr> d0 d1 M N P l)
      = (Ret (), bench s pd a b c (Some c) A B \<lparr>pp_link = fl, pp_ref = 0\<rparr> d0 d1 M N P l)"
  by (simp_all add: page_free_def prog_simps bench_pages [OF T] bench_push [OF T])

lemma run_seqP [prog_simps]:
  "run (seqP []) s = (Ret (), s)" "run (seqP (m # ms)) s = run (thenP m (seqP ms)) s"
  by (simp_all add: prog_simps)

lemma run_alloc_ok:
  "run alloc_ok s = (case run (page_alloc 0) s of
     (Ret None, t) \<Rightarrow> (Stop (Panic ''pp = page_alloc(0)''), t) | (Ret (Some p), t) \<Rightarrow> (Ret p, t) | (Stop e, t) \<Rightarrow> (Stop e, t))"
  by (simp add: alloc_ok_def prog_simps split: prod.splits outcome.splits option.splits)

lemma test_formats [formats]:
  "vprintfmt ''check_page_alloc() succeeded!\<newline>'' [] \<noteq> None" "vprintfmt ''check_page() succeeded!\<newline>'' [] \<noteq> None"
  "vprintfmt ''check_kern_pgdir() succeeded!\<newline>'' [] \<noteq> None" "vprintfmt ''check_page_installed_pgdir() succeeded!\<newline>'' [] \<noteq> None"
  by (simp_all add: fmt_eval)

lemma page2pa_below: "p < n \<Longrightarrow> n \<le> 65536 \<Longrightarrow> page2pa p < of_nat n * 4096"
proof -
  assume p: "p < n" "n \<le> 65536"
  have "unat (of_nat n * 4096 :: u32) = n * 4096"
    using p(2) by (simp add: unat_word_ariths unat_of_nat32)
  then show "page2pa p < of_nat n * 4096" using p by (simp add: word_less_nat_alt unat_page2pa)
qed

lemma check_page_alloc_bench:
  assumes T: "trio s pd a b c"
    and st: "st = bench s pd a b c (Some a) \<lparr>pp_link = Some b, pp_ref = 0\<rparr> \<lparr>pp_link = Some c, pp_ref = 0\<rparr> \<lparr>pp_link = fl, pp_ref = 0\<rparr> d0 d1 M N P l"
    and en: "en = bench s pd a b c (Some a) \<lparr>pp_link = Some b, pp_ref = 0\<rparr> \<lparr>pp_link = Some c, pp_ref = 0\<rparr> \<lparr>pp_link = fl, pp_ref = 0\<rparr> d0 d1 M N (\<lambda>_. 0) l"
    and fl: "run free_list st = (Ret xs, st)" "run free_list en = (Ret xs, en)"
  shows "run check_page_alloc st = (Ret (), en\<lparr>console := console en @ render ''check_page_alloc() succeeded!\<newline>'' []\<rparr>)"
proof -
  have np: "npages s \<le> 65536" using trioD(1) [OF T] by (simp add: machine_ok_def)
  show ?thesis
  unfolding check_page_alloc_def no_free_memory_def distinct_pages_def
  using fl unfolding st en
  by (simp add: prog_simps run_alloc_ok bench_alloc [OF T] bench_free [OF T] bench_pages [OF T] bench_upd [OF T] trioD [OF T]
    page2pa_below [OF _ np] run_page2kva kva_frame_frame_kva run_cprintf formats)
qed

text \<open>Page tables on the bench: page \<open>a\<close> is the table of the first 4 MB.\<close>

lemma indices: "unat (PDX 0) = 0" "unat (PDX 4096) = 0" "unat (PDX 0x400000) = Suc 0" "unat (PDX 0x401000) = Suc 0"
  "unat (PTX 0) = 0" "unat (PTX 4096) = Suc 0" "unat (PTX 0x401000) = Suc 0"
  by (simp_all add: PDX_def PTX_def)

lemma PGNUM_page2pa_or: "p < 1048576 \<Longrightarrow> drop_bit 12 w = 0 \<Longrightarrow> unat (PGNUM (page2pa p OR w)) = p"
  by (rule frame_of_entry)

lemma PTE_ADDR_page2pa: "drop_bit 12 w = 0 \<Longrightarrow> PTE_ADDR (page2pa p OR w) = page2pa p"
proof (rule bit_word_eqI)
  fix k assume w: "drop_bit 12 w = 0" and k: "k < LENGTH(32)"
  have "\<not> bit w k" if "12 \<le> k"
    using arg_cong [OF w, of "\<lambda>x. bit x (k - 12)"] that by (simp add: bit_simps)
  then show "bit (PTE_ADDR (page2pa p OR w)) k = bit (page2pa p) k"
    using k unfolding PTE_ADDR_def mask_numerals by (auto simp: page2pa_def bit_simps)
qed

lemma bench_walk:
  assumes T: "trio s pd a b c"
  shows "run (pgdir_walk pd 0 0) (bench s pd a b c fl A B C 0 d1 M N P l) = (Ret None, bench s pd a b c fl A B C 0 d1 M N P l)"
    "run (pgdir_walk pd 0 1) (bench s pd a b c None A B C 0 d1 M N P l) = (Ret None, bench s pd a b c None A B C 0 d1 M N P l)"
    "run (pgdir_walk pd 0 1) (bench s pd a b c (Some a) \<lparr>pp_link = q, pp_ref = r\<rparr> B C 0 d1 M N P l)
      = (Ret (Some (a, 0)), bench s pd a b c q \<lparr>pp_link = None, pp_ref = r + 1\<rparr> B C (page2pa a OR 7) d1 (\<lambda>_. 0) N P l)"
    "run (pgdir_walk pd 0 k) (bench s pd a b c fl A B C (page2pa a OR 7) d1 M N P l)
      = (Ret (Some (a, 0)), bench s pd a b c fl A B C (page2pa a OR 7) d1 M N P l)"
    "run (pgdir_walk pd 4096 0) (bench s pd a b c fl A B C 0 d1 M N P l) = (Ret None, bench s pd a b c fl A B C 0 d1 M N P l)"
    "run (pgdir_walk pd 4096 1) (bench s pd a b c (Some a) \<lparr>pp_link = q, pp_ref = r\<rparr> B C 0 d1 M N P l)
      = (Ret (Some (a, Suc 0)), bench s pd a b c q \<lparr>pp_link = None, pp_ref = r + 1\<rparr> B C (page2pa a OR 7) d1 (\<lambda>_. 0) N P l)"
    "run (pgdir_walk pd 4096 k) (bench s pd a b c fl A B C (page2pa a OR 7) d1 M N P l)
      = (Ret (Some (a, Suc 0)), bench s pd a b c fl A B C (page2pa a OR 7) d1 M N P l)"
    "run (pgdir_walk pd 0x400000 1) (bench s pd a b c None A B C d0 0 M N P l) = (Ret None, bench s pd a b c None A B C d0 0 M N P l)"
    "run (pgdir_walk pd 0x401000 1) (bench s pd a b c (Some a) \<lparr>pp_link = q, pp_ref = r\<rparr> B C d0 0 M N P l)
      = (Ret (Some (a, Suc 0)), bench s pd a b c q \<lparr>pp_link = None, pp_ref = r + 1\<rparr> B C d0 (page2pa a OR 7) (\<lambda>_. 0) N P l)"
  by (simp_all add: pgdir_walk_def pte_ptr_def pde_of_def prog_simps bench_alloc [OF T] bench_pages [OF T] bench_upd [OF T]
      indices page2pa_or_low or.assoc PGNUM_page2pa_or kva_frame_KADDR trioD [OF T])

lemmas bench_simps = bench_alloc bench_free bench_pages bench_upd bench_walk trioD

lemma bench_decref:
  assumes T: "trio s pd a b c"
  shows "run (page_decref b) (bench s pd a b c fl A \<lparr>pp_link = None, pp_ref = r\<rparr> C d0 d1 M N P l)
      = (Ret (), if r = 1 then bench s pd a b c (Some b) A \<lparr>pp_link = fl, pp_ref = 0\<rparr> C d0 d1 M N P l
                 else bench s pd a b c fl A \<lparr>pp_link = None, pp_ref = r - 1\<rparr> C d0 d1 M N P l)"
    "run (page_decref c) (bench s pd a b c fl A B \<lparr>pp_link = None, pp_ref = r\<rparr> d0 d1 M N P l)
      = (Ret (), if r = 1 then bench s pd a b c (Some c) A B \<lparr>pp_link = fl, pp_ref = 0\<rparr> d0 d1 M N P l
                 else bench s pd a b c fl A B \<lparr>pp_link = None, pp_ref = r - 1\<rparr> d0 d1 M N P l)"
  by (simp_all add: page_decref_def prog_simps bench_simps [OF T])

lemma bench_remove:
  assumes T: "trio s pd a b c" and w: "drop_bit 12 w = 0" "w AND 1 \<noteq> 0"
  shows "M 0 = page2pa b OR w \<Longrightarrow> run (page_remove_lab3 pd 0) (bench s pd a b c fl A \<lparr>pp_link = None, pp_ref = r\<rparr> C (page2pa a OR 7) d1 M N P l)
      = (Ret (), if r = 1 then bench s pd a b c (Some b) A \<lparr>pp_link = fl, pp_ref = 0\<rparr> C (page2pa a OR 7) d1 (M(0 := 0)) N P (l @ [0])
                 else bench s pd a b c fl A \<lparr>pp_link = None, pp_ref = r - 1\<rparr> C (page2pa a OR 7) d1 (M(0 := 0)) N P (l @ [0]))"
    "M (Suc 0) = page2pa b OR w \<Longrightarrow> run (page_remove_lab3 pd 4096) (bench s pd a b c fl A \<lparr>pp_link = None, pp_ref = r\<rparr> C (page2pa a OR 7) d1 M N P l)
      = (Ret (), if r = 1 then bench s pd a b c (Some b) A \<lparr>pp_link = fl, pp_ref = 0\<rparr> C (page2pa a OR 7) d1 (M(Suc 0 := 0)) N P (l @ [4096])
                 else bench s pd a b c fl A \<lparr>pp_link = None, pp_ref = r - 1\<rparr> C (page2pa a OR 7) d1 (M(Suc 0 := 0)) N P (l @ [4096]))"
    "M (Suc 0) = page2pa c OR w \<Longrightarrow> run (page_remove_lab3 pd 4096) (bench s pd a b c fl A B \<lparr>pp_link = None, pp_ref = r\<rparr> (page2pa a OR 7) d1 M N P l)
      = (Ret (), if r = 1 then bench s pd a b c (Some c) A B \<lparr>pp_link = fl, pp_ref = 0\<rparr> (page2pa a OR 7) d1 (M(Suc 0 := 0)) N P (l @ [4096])
                 else bench s pd a b c fl A B \<lparr>pp_link = None, pp_ref = r - 1\<rparr> (page2pa a OR 7) d1 (M(Suc 0 := 0)) N P (l @ [4096]))"
  using w by (simp_all add: page_remove_lab3_def page_lookup_def load_pte_def store_pte_def tlb_invalidate_lab3_def invlpg_def
      prog_simps bench_simps [OF T] bench_decref [OF T] PGNUM_page2pa_or page2pa_or_low)

lemma zero_walk_check: "run (walk_check pd va ok) s =
  (case run (pgdir_walk pd va 0) s of
     (Ret None, t) \<Rightarrow> (Stop BadAccess, t)
   | (Ret (Some p), t) \<Rightarrow> if ok (pmem t (fst p) (snd p)) then (Ret (), t) else (Stop (Panic ''*pgdir_walk(kern_pgdir, va, 0)''), t)
   | (Stop e, t) \<Rightarrow> (Stop e, t))"
  by (simp add: walk_check_def walk_load_def load_pte_def prog_simps split: prod.splits outcome.splits option.splits)

lemma not_zero_and_one: "(w :: u32) AND 1 \<noteq> 0 \<Longrightarrow> w AND 1 = 1"
  using and_one_cases [of w] by auto

lemma bench_insert:
  assumes T: "trio s pd a b c" and w: "drop_bit 12 w = 0" "drop_bit 12 v = 0" "v AND 1 \<noteq> 0"
  shows
    "run (page_insert_lab3 pd b 0 w) (bench s pd a b c None A B C 0 d1 M N P l) = (Ret (- 4), bench s pd a b c None A B C 0 d1 M N P l)"
    "run (page_insert_lab3 pd a 0x400000 w) (bench s pd a b c None A B C d0 0 M N P l) = (Ret (- 4), bench s pd a b c None A B C d0 0 M N P l)"
    "run (page_insert_lab3 pd b 0 w) (bench s pd a b c (Some a) \<lparr>pp_link = q, pp_ref = r\<rparr> \<lparr>pp_link = None, pp_ref = k\<rparr> C 0 d1 M N P l)
      = (Ret 0, bench s pd a b c q \<lparr>pp_link = None, pp_ref = r + 1\<rparr> \<lparr>pp_link = None, pp_ref = k + 1\<rparr> C (page2pa a OR 7) d1
           ((\<lambda>_. 0)(0 := page2pa b OR (w OR 1))) N P l)"
    "run (page_insert_lab3 pd b 4096 w) (bench s pd a b c (Some a) \<lparr>pp_link = q, pp_ref = r\<rparr> \<lparr>pp_link = None, pp_ref = k\<rparr> C 0 d1 M N P l)
      = (Ret 0, bench s pd a b c q \<lparr>pp_link = None, pp_ref = r + 1\<rparr> \<lparr>pp_link = None, pp_ref = k + 1\<rparr> C (page2pa a OR 7) d1
           ((\<lambda>_. 0)(Suc 0 := page2pa b OR (w OR 1))) N P l)"
    "M (Suc 0) = 0 \<Longrightarrow>
     run (page_insert_lab3 pd c 4096 w) (bench s pd a b c fl A B \<lparr>pp_link = None, pp_ref = k\<rparr> (page2pa a OR 7) d1 M N P l)
      = (Ret 0, bench s pd a b c fl A B \<lparr>pp_link = None, pp_ref = k + 1\<rparr> (page2pa a OR 7) d1
           (M(Suc 0 := page2pa c OR (w OR 1))) N P l)"
    "M (Suc 0) = page2pa c OR v \<Longrightarrow> k \<noteq> 0 \<Longrightarrow>
     run (page_insert_lab3 pd c 4096 w) (bench s pd a b c fl A B \<lparr>pp_link = None, pp_ref = k\<rparr> (page2pa a OR 7) d1 M N P l)
      = (Ret 0, bench s pd a b c fl A B \<lparr>pp_link = None, pp_ref = k\<rparr> (page2pa a OR 7) d1
           (M(Suc 0 := page2pa c OR (w OR 1))) N P (l @ [4096]))"
    "M (Suc 0) = page2pa b OR v \<Longrightarrow> k \<noteq> 0 \<Longrightarrow>
     run (page_insert_lab3 pd b 4096 w) (bench s pd a b c fl A \<lparr>pp_link = None, pp_ref = k\<rparr> C (page2pa a OR 7) d1 M N P l)
      = (Ret 0, bench s pd a b c fl A \<lparr>pp_link = None, pp_ref = k\<rparr> C (page2pa a OR 7) d1
           (M(Suc 0 := page2pa b OR (w OR 1))) N P (l @ [4096]))"
    "M (Suc 0) = page2pa c OR v \<Longrightarrow>
     run (page_insert_lab3 pd b 4096 w) (bench s pd a b c fl A \<lparr>pp_link = None, pp_ref = k\<rparr> \<lparr>pp_link = None, pp_ref = 1\<rparr> (page2pa a OR 7) d1 M N P l)
      = (Ret 0, bench s pd a b c (Some c) A \<lparr>pp_link = None, pp_ref = k + 1\<rparr> \<lparr>pp_link = fl, pp_ref = 0\<rparr> (page2pa a OR 7) d1
           (M(Suc 0 := page2pa b OR (w OR 1))) N P (l @ [4096]))"
    "M (Suc 0) = page2pa b OR v \<Longrightarrow>
     run (page_insert_lab3 pd c 4096 w) (bench s pd a b c fl A \<lparr>pp_link = None, pp_ref = 1\<rparr> \<lparr>pp_link = None, pp_ref = k\<rparr> (page2pa a OR 7) d1 M N P l)
      = (Ret 0, bench s pd a b c (Some b) A \<lparr>pp_link = fl, pp_ref = 0\<rparr> \<lparr>pp_link = None, pp_ref = k + 1\<rparr> (page2pa a OR 7) d1
           (M(Suc 0 := page2pa c OR (w OR 1))) N P (l @ [4096]))"
  using w by (simp_all add: page_insert_lab3_def load_pte_def store_pte_def prog_simps bench_simps [OF T] bench_remove [OF T w(2,3)]
      PGNUM_page2pa_or page2pa_or_low or.assoc not_zero_and_one)

lemma bench_expect:
  assumes T: "trio s pd a b c"
  shows "run (expect_pa pd 0 x) (bench s pd a b c fl A B C (page2pa a OR 7) d1 M N P l)
      = (if x = (if M 0 AND 1 = 0 then NOT 0 else PTE_ADDR (M 0)) then Ret () else Stop (Panic ''check_va2pa(pgdir, va) == pa''),
         bench s pd a b c fl A B C (page2pa a OR 7) d1 M N P l)"
    "run (expect_pa pd 4096 x) (bench s pd a b c fl A B C (page2pa a OR 7) d1 M N P l)
      = (if x = (if M (Suc 0) AND 1 = 0 then NOT 0 else PTE_ADDR (M (Suc 0))) then Ret () else Stop (Panic ''check_va2pa(pgdir, va) == pa''),
         bench s pd a b c fl A B C (page2pa a OR 7) d1 M N P l)"
  by (auto simp: expect_pa_def check_va2pa_def prog_simps bench_simps [OF T] pde_of_def indices page2pa_or_low PTE_ADDR_page2pa
      PGNUM_page2pa kva_frame_KADDR)

lemmas bench_rules = bench_simps bench_expect bench_remove [where w = 3] bench_remove [where w = 1]
  bench_insert [where v = 3] bench_insert [where v = 7]

lemmas entry_rules = indices page2pa_or_low PTE_ADDR_page2pa kva_frame_KADDR PGNUM_page2pa word_sless_alt

lemma check_page_mappings_bench:
  assumes T: "trio s pd a b c"
  shows "run (check_page_mappings_lab3 pd a b c) (bench s pd a b c None \<lparr>pp_link = None, pp_ref = 0\<rparr> \<lparr>pp_link = None, pp_ref = 0\<rparr>
        \<lparr>pp_link = None, pp_ref = 0\<rparr> 0 0 M N P l)
    = (Ret (), bench s pd a b c None \<lparr>pp_link = None, pp_ref = 1\<rparr> \<lparr>pp_link = None, pp_ref = 0\<rparr> \<lparr>pp_link = None, pp_ref = 0\<rparr>
        (page2pa a OR 7) 0 (\<lambda>_. 0) N P (l @ [4096, 4096, 4096, 4096, 0, 4096, 4096]))"
proof -
  have zero: "(\<lambda>_. 0)(0 := 0, Suc 0 := 0) = (\<lambda>_. 0 :: u32)" by (simp add: fun_eq_iff)
  show ?thesis
    unfolding check_page_mappings_lab3_def no_free_memory_def insert_gives_lab3_def has_ref_def table_entry_def
    by (simp add: prog_simps page_lookup_def load_pte_def pde_of_def bench_rules [OF T] zero_walk_check entry_rules zero)
qed

lemma check_page_tables_bench:
  assumes T: "trio s pd a b c"
  shows "run (check_page_tables pd a) (bench s pd a b c None \<lparr>pp_link = None, pp_ref = 1\<rparr> B C (page2pa a OR 7) 0 M N P l)
    = (Ret (), bench s pd a b c None \<lparr>pp_link = None, pp_ref = 0\<rparr> B C 0 0 (\<lambda>_. 0) N P l)"
  unfolding check_page_tables_def has_ref_def set_ref_def table_entry_def
  by (simp add: prog_simps pde_of_def bench_rules [OF T] entry_rules run_page2kva kva_frame_frame_kva)

lemma check_page_bench:
  assumes T: "trio s pd a b c" and pd: "kern_pgdir s = pd"
  shows "\<exists>l'. run check_page_lab3 (bench s pd a b c (Some a) \<lparr>pp_link = Some b, pp_ref = 0\<rparr> \<lparr>pp_link = Some c, pp_ref = 0\<rparr>
        \<lparr>pp_link = fl, pp_ref = 0\<rparr> 0 0 M N P l)
    = (Ret (), let t = bench s pd a b c (Some c) \<lparr>pp_link = fl, pp_ref = 0\<rparr> \<lparr>pp_link = Some a, pp_ref = 0\<rparr>
        \<lparr>pp_link = Some b, pp_ref = 0\<rparr> 0 0 (\<lambda>_. 0) N P l'
      in t\<lparr>console := console t @ render ''check_page() succeeded!\<newline>'' []\<rparr>)"
  unfolding check_page_lab3_def distinct_pages_def
  by (intro exI) (simp add: prog_simps run_alloc_ok pd bench_rules [OF T] check_page_mappings_bench [OF T] check_page_tables_bench [OF T]
      run_cprintf formats Let_def)

section \<open>Through the installed page directory\<close>

lemma bench_translate:
  assumes T: "trio s pd a b c" and cr3: "frame_of (cr3 s) = pd" and va: "unat (PDX va) = 0" "unat (PTX va) = Suc 0"
  shows "M (Suc 0) = page2pa b OR 3 \<Longrightarrow> translate w va (bench s pd a b c fl A B C (page2pa a OR 7) d1 M N P l) = Some b"
    "M (Suc 0) = page2pa c OR 3 \<Longrightarrow> translate w va (bench s pd a b c fl A B C (page2pa a OR 7) d1 M N P l) = Some c"
  using va by (simp_all add: translate_def cr3 bench_simps [OF T] page2pa_or_low PGNUM_page2pa_or)

lemma page_bytes: "unat (PDX (4096 + n)) = 0" "unat (PTX (4096 + n)) = Suc 0" "unat (PGOFF (4096 + n)) = unat n" if "unat (n :: u32) < 4"
proof -
  have "n = 0 \<or> n = 1 \<or> n = 2 \<or> n = 3"
    using that by (auto simp: word_unat_eq_iff)
  then show "unat (PDX (4096 + n)) = 0" "unat (PTX (4096 + n)) = Suc 0" "unat (PGOFF (4096 + n)) = unat n"
    by (auto simp: PDX_def PTX_def PGOFF_def)
qed

lemma bytes_eqI:
  assumes "\<And>n. n < 4 \<Longrightarrow> byte_of v n = byte_of w n"
  shows "v = w"
proof (rule bit_word_eqI)
  fix k assume k: "k < LENGTH(32)"
  have "bit (byte_of v (k div 8)) (k mod 8) = bit (byte_of w (k div 8)) (k mod 8)" using assms [of "k div 8"] k by simp
  then show "bit v k = bit w k" by (simp add: byte_of_def bit_simps)
qed

lemma bench_read:
  assumes T: "trio s pd a b c" and cr3: "frame_of (cr3 s) = pd"
  shows "M (Suc 0) = page2pa b OR 3 \<Longrightarrow> peek32 4096 (bench s pd a b c fl A B C (page2pa a OR 7) d1 M N P l) = Some (N 0)"
    "M (Suc 0) = page2pa c OR 3 \<Longrightarrow> peek32 4096 (bench s pd a b c fl A B C (page2pa a OR 7) d1 M N P l) = Some (P 0)"
  using page_bytes [of 0] page_bytes [of 1] page_bytes [of 2] page_bytes [of 3]
  by (simp_all add: peek32_def peek16_def peek8_def bench_translate [OF T cr3] bench_simps [OF T] word_bytes)

lemma bench_write:
  assumes T: "trio s pd a b c" and cr3: "frame_of (cr3 s) = pd"
  shows "M (Suc 0) = page2pa c OR 3 \<Longrightarrow> run (store32 4096 w) (bench s pd a b c fl A B C (page2pa a OR 7) d1 M N P l)
    = (Ret (), bench s pd a b c fl A B C (page2pa a OR 7) d1 M N (P(0 := w)) l)"
proof -
  assume M: "M (Suc 0) = page2pa c OR 3"
  have four: "[0..<4] = [0, 1, 2, 3 :: nat]" by (simp add: upt_rec)
  have byte: "run (store8 (4096 + n) x) (bench s pd a b c fl A B C (page2pa a OR 7) d1 M N P l)
    = (Ret (), bench s pd a b c fl A B C (page2pa a OR 7) d1 M N (P(0 := with_byte (P 0) (unat n) x)) l)"
    if "unat n < 4" for n P x
    using that page_bytes [OF that] M
    by (simp add: store8_def prog_simps bench_translate [OF T cr3] bench_simps [OF T])
  have "with_byte (with_byte (with_byte (with_byte (P 0) 0 (byte_of w 0)) 1 (byte_of w 1)) 2 (byte_of w 2)) 3 (byte_of w 3) = w"
    by (rule bytes_eqI) (auto simp: byte_with_byte less_Suc_eq numeral_eq_Suc)
  then show "run (store32 4096 w) (bench s pd a b c fl A B C (page2pa a OR 7) d1 M N P l)
    = (Ret (), bench s pd a b c fl A B C (page2pa a OR 7) d1 M N (P(0 := w)) l)"
    using byte [of 0] byte [of 1] byte [of 2] byte [of 3]
    unfolding store32_def four by (simp add: prog_simps)
qed

lemma check_page_installed_bench:
  assumes T: "trio s pd a b c" and pd: "kern_pgdir s = pd" and cr3: "frame_of (cr3 s) = pd"
  shows "\<exists>M' l'. run check_page_installed_pgdir_lab3 (bench s pd a b c (Some a) \<lparr>pp_link = Some b, pp_ref = 0\<rparr> \<lparr>pp_link = Some c, pp_ref = 0\<rparr>
        \<lparr>pp_link = fl, pp_ref = 0\<rparr> 0 d1 M N P l)
    = (Ret (), let t = bench s pd a b c (Some a) \<lparr>pp_link = Some c, pp_ref = 0\<rparr> \<lparr>pp_link = fl, pp_ref = 0\<rparr>
        \<lparr>pp_link = Some b, pp_ref = 0\<rparr> 0 d1 M' (\<lambda>_. 0x01010101) ((\<lambda>_. 0x02020202)(0 := 0x03030303)) l'
      in t\<lparr>console := console t @ render ''check_page_installed_pgdir() succeeded!\<newline>'' []\<rparr>)"
  unfolding check_page_installed_pgdir_lab3_def fill_page_def has_ref_def set_ref_def expect_word_def load32_def
  by (intro exI) (simp add: prog_simps run_alloc_ok pd bench_rules [OF T] bench_read [OF T cr3] bench_write [OF T cr3] entry_rules
      run_page2kva kva_frame_frame_kva run_cprintf formats Let_def)

section \<open>The self tests change only the order of the free list\<close>

text \<open>Everything but memory, the page array, the free list and two logs.\<close>

definition steady :: "kstate \<Rightarrow> kstate" where
  "steady s = s\<lparr>pmem := \<lambda>f i. 0, pages := \<lambda>p. \<lparr>pp_link = None, pp_ref = 0\<rparr>, page_free_list := None, invlpgs := [], console := []\<rparr>"

definition retested :: "kstate \<Rightarrow> nat list \<Rightarrow> kstate \<Rightarrow> nat list \<Rightarrow> bool" where
  "retested s xs t ys \<longleftrightarrow>
     free_pages t ys \<and> set ys = set xs \<and> (\<forall>y. pp_ref (pages t y) = pp_ref (pages s y)) \<and>
     (\<forall>f. f \<notin> set xs \<longrightarrow> pmem t f = pmem s f) \<and> steady t = steady s"

lemma retested_trans: "retested s xs t ys \<Longrightarrow> retested t ys u zs \<Longrightarrow> retested s xs u zs"
  unfolding retested_def by (metis (no_types, lifting))

lemma steady_sel:
  assumes "steady t = steady s"
  shows "npages t = npages s" "kern_pgdir t = kern_pgdir s" "cr3 t = cr3 s" "cr0 t = cr0 s" "ksym t = ksym s" "nextfree t = nextfree s"
    and "envs t = envs s" "cpus t = cpus s" "cpunum t = cpunum s" "pages_kva t = pages_kva s" "envs_kva t = envs_kva s"
    and "machine_ok t = machine_ok s"
proof -
  have f: "g (steady t) = g (steady s)" for g :: "kstate \<Rightarrow> 'x" using assms by simp
  show "npages t = npages s" "kern_pgdir t = kern_pgdir s" "cr3 t = cr3 s" "cr0 t = cr0 s" "ksym t = ksym s" "nextfree t = nextfree s"
    "envs t = envs s" "cpus t = cpus s" "cpunum t = cpunum s" "pages_kva t = pages_kva s" "envs_kva t = envs_kva s"
    using f [of npages] f [of kern_pgdir] f [of cr3] f [of cr0] f [of ksym] f [of nextfree] f [of envs] f [of cpus] f [of cpunum]
      f [of pages_kva] f [of envs_kva] by (simp_all add: steady_def)
  then show "machine_ok t = machine_ok s" by (simp add: machine_ok_def)
qed

lemma reorder_free:
  assumes free: "free_pages s (a # b # c # rest)" and same: "{p, q, r} = {a, b, c}" and pqr: "p \<noteq> q" "p \<noteq> r" "q \<noteq> r"
    and t: "page_free_list t = Some p" "npages t = npages s" "pages t p = \<lparr>pp_link = Some q, pp_ref = 0\<rparr>"
      "pages t q = \<lparr>pp_link = Some r, pp_ref = 0\<rparr>" "pages t r = \<lparr>pp_link = pp_link (pages s c), pp_ref = 0\<rparr>"
      "\<And>x. x \<notin> {a, b, c} \<Longrightarrow> pages t x = pages s x"
  shows "free_pages t (p # q # r # rest)" "set (p # q # r # rest) = set (a # b # c # rest)" "pp_ref (pages t y) = pp_ref (pages s y)"
proof -
  have dist: "distinct (a # b # c # rest)" by (rule free_pages_distinct [OF free])
  then have out: "x \<notin> {a, b, c}" if "x \<in> set rest" for x using that same by auto
  have "chain (pages t) (pp_link (pages s c)) rest = chain (pages s) (pp_link (pages s c)) rest"
    using out t(6) by (intro linked_cong) auto
  then have "chain (pages t) (page_free_list t) (p # q # r # rest)"
    using free t(1,3,4,5) by (auto simp: free_pages_def)
  moreover have zero: "pp_ref (pages t x) = 0" if "x \<in> {a, b, c}" for x
    using that t(3-5) unfolding same [symmetric] by auto
  moreover have "x < npages t \<and> pp_ref (pages t x) = 0" if "x \<in> set (p # q # r # rest)" for x
  proof (cases "x \<in> {a, b, c}")
    case True
    then have "x < npages t" using free t(2) by (auto simp: free_pages_def)
    then show ?thesis using zero [OF True] by simp
  next
    case False
    then show ?thesis using that free t(2,6) same by (auto simp: free_pages_def)
  qed
  moreover have "pp_link (pages t x) = None" if "x \<notin> set (p # q # r # rest)" for x
  proof -
    have "x \<notin> {a, b, c}" "x \<notin> set (a # b # c # rest)" using that unfolding same [symmetric] using same by auto
    then show ?thesis using t(6) free by (simp add: free_pages_def)
  qed
  ultimately show "free_pages t (p # q # r # rest)" by (simp add: free_pages_def)
  show "set (p # q # r # rest) = set (a # b # c # rest)" using same by auto
  show "pp_ref (pages t y) = pp_ref (pages s y)"
  proof (cases "y \<in> {a, b, c}")
    case True
    then have "pp_ref (pages s y) = 0" using free by (auto simp: free_pages_def)
    then show ?thesis using zero [OF True] by simp
  qed (use t(6) in simp)
qed

lemma bench_start:
  assumes free: "free_pages s (a # b # c # rest)" and ok: "machine_ok s" "pd < npages s" "pd \<notin> set (a # b # c # rest)"
  shows "trio s pd a b c"
    "s = bench s pd a b c (Some a) \<lparr>pp_link = Some b, pp_ref = 0\<rparr> \<lparr>pp_link = Some c, pp_ref = 0\<rparr> \<lparr>pp_link = pp_link (pages s c), pp_ref = 0\<rparr>
       (pmem s pd 0) (pmem s pd (Suc 0)) (pmem s a) (pmem s b) (pmem s c) (invlpgs s)"
proof -
  show "trio s pd a b c"
    using free ok free_pages_distinct [OF free] by (auto simp: trio_def free_pages_def)
  have "\<lparr>pp_link = Some b, pp_ref = 0\<rparr> = pages s a" "\<lparr>pp_link = Some c, pp_ref = 0\<rparr> = pages s b"
    "\<lparr>pp_link = pp_link (pages s c), pp_ref = 0\<rparr> = pages s c"
    using free by (auto simp: free_pages_def)
  moreover have "page_free_list s = Some a" using free by (simp add: free_pages_def)
  ultimately show "s = bench s pd a b c (Some a) \<lparr>pp_link = Some b, pp_ref = 0\<rparr> \<lparr>pp_link = Some c, pp_ref = 0\<rparr> \<lparr>pp_link = pp_link (pages s c), pp_ref = 0\<rparr>
       (pmem s pd 0) (pmem s pd (Suc 0)) (pmem s a) (pmem s b) (pmem s c) (invlpgs s)"
    unfolding bench_def by (simp only: fun_upd_triv) simp
qed

lemma steady_upd [simp]:
  "steady (s\<lparr>console := x\<rparr>) = steady s" "steady (bench s pd a b c fl A B C d0 d1 M N P l) = steady s"
  by (simp_all add: steady_def bench_def)

lemma three_free:
  assumes "free_pages s xs" and "3 \<le> length xs"
  obtains a b c rest where "xs = a # b # c # rest"
  using assms(2) by (metis Suc_le_length_iff numeral_3_eq_3)

lemma free_console [simp]: "free_pages (s\<lparr>console := x\<rparr>) xs = free_pages s xs"
  by (simp add: free_pages_def)

lemma check_page_alloc_run:
  assumes free: "free_pages s xs" and ok: "machine_ok s" "pd < npages s" "pd \<notin> set xs" and len: "3 \<le> length xs"
  shows "\<exists>t ys. run check_page_alloc s = (Ret (), t) \<and> retested s xs t ys"
proof -
  obtain a b c rest where xs: "xs = a # b # c # rest" using three_free [OF free len] .
  note S = bench_start [OF free [unfolded xs] ok(1,2) ok(3) [unfolded xs]]
  note T = S(1)
  let ?A = "\<lparr>pp_link = Some b, pp_ref = 0\<rparr>" and ?B = "\<lparr>pp_link = Some c, pp_ref = 0\<rparr>" and ?C = "\<lparr>pp_link = pp_link (pages s c), pp_ref = 0\<rparr>"
  define u where "u = bench s pd a b c (Some a) ?A ?B ?C (pmem s pd 0) (pmem s pd (Suc 0)) (pmem s a) (pmem s b) (\<lambda>_. 0) (invlpgs s)"
  have out: "pages u x = pages s x" if "x \<notin> {a, b, c}" for x using that by (simp add: u_def bench_def)
  have R: "free_pages u xs" "pp_ref (pages u y) = pp_ref (pages s y)" for y
    using reorder_free [OF free [unfolded xs], of a b c u] out trioD [OF T]
    by (simp_all add: u_def bench_pages [OF T] xs)
  have mu: "machine_ok u" using ok(1) by (simp add: u_def)
  have mem: "pmem u f = pmem s f" if "f \<notin> set xs" for f
    using that xs by (auto simp: u_def bench_def)
  have "run check_page_alloc s = (Ret (), u\<lparr>console := console u @ render ''check_page_alloc() succeeded!\<newline>'' []\<rparr>)"
    by (rule check_page_alloc_bench [OF T S(2) u_def free_list_run [OF free ok(1)] free_list_run [OF R(1) mu]])
  moreover have "retested s xs (u\<lparr>console := console u @ render ''check_page_alloc() succeeded!\<newline>'' []\<rparr>) xs"
    using R mem by (simp add: retested_def) (simp add: u_def)
  ultimately show ?thesis by blast
qed

lemma check_page_lab3_run:
  assumes free: "free_pages s xs" and ok: "machine_ok s" "kern_pgdir s < npages s" "kern_pgdir s \<notin> set xs" and len: "3 \<le> length xs"
    and slots: "pmem s (kern_pgdir s) 0 = 0" "pmem s (kern_pgdir s) 1 = 0"
  shows "\<exists>t ys. run check_page_lab3 s = (Ret (), t) \<and> retested s xs t ys"
proof -
  let ?pd = "kern_pgdir s"
  obtain a b c rest where xs: "xs = a # b # c # rest" using three_free [OF free len] .
  note S = bench_start [OF free [unfolded xs] ok(1,2) ok(3) [unfolded xs]]
  note T = S(1)
  obtain l where l: "run check_page_lab3 s = (Ret (), let t = bench s ?pd a b c (Some c) \<lparr>pp_link = pp_link (pages s c), pp_ref = 0\<rparr>
      \<lparr>pp_link = Some a, pp_ref = 0\<rparr> \<lparr>pp_link = Some b, pp_ref = 0\<rparr> 0 0 (\<lambda>_. 0) (pmem s b) (pmem s c) l
      in t\<lparr>console := console t @ render ''check_page() succeeded!\<newline>'' []\<rparr>)"
    using check_page_bench [OF T refl, of "pp_link (pages s c)" "pmem s a" "pmem s b" "pmem s c" "invlpgs s"] S(2) slots
    by auto
  define u where "u = bench s ?pd a b c (Some c) \<lparr>pp_link = pp_link (pages s c), pp_ref = 0\<rparr>
      \<lparr>pp_link = Some a, pp_ref = 0\<rparr> \<lparr>pp_link = Some b, pp_ref = 0\<rparr> 0 0 (\<lambda>_. 0) (pmem s b) (pmem s c) l"
  have out: "pages u x = pages s x" if "x \<notin> {a, b, c}" for x using that by (simp add: u_def bench_def)
  have perm: "{c, b, a} = {a, b, c}" by auto
  have R: "free_pages u (c # b # a # rest)" "pp_ref (pages u y) = pp_ref (pages s y)" for y
    using reorder_free [OF free [unfolded xs] perm, of u] out trioD [OF T]
    by (simp_all add: u_def bench_pages [OF T])
  have mem: "pmem u f = pmem s f" if "f \<notin> set xs" for f
    using that xs slots by (auto simp: u_def bench_def fun_eq_iff)
  have "retested s xs (u\<lparr>console := console u @ render ''check_page() succeeded!\<newline>'' []\<rparr>) (c # b # a # rest)"
    using R mem xs by (auto simp: retested_def) (simp_all add: u_def)
  then show ?thesis using l by (auto simp: Let_def u_def)
qed

lemma check_page_installed_run:
  assumes free: "free_pages s xs" and ok: "machine_ok s" "kern_pgdir s < npages s" "kern_pgdir s \<notin> set xs" and len: "3 \<le> length xs"
    and slot: "pmem s (kern_pgdir s) 0 = 0" and cr3: "frame_of (cr3 s) = kern_pgdir s"
  shows "\<exists>t ys. run check_page_installed_pgdir_lab3 s = (Ret (), t) \<and> retested s xs t ys"
proof -
  let ?pd = "kern_pgdir s"
  obtain a b c rest where xs: "xs = a # b # c # rest" using three_free [OF free len] .
  note S = bench_start [OF free [unfolded xs] ok(1,2) ok(3) [unfolded xs]]
  note T = S(1)
  obtain M l where l: "run check_page_installed_pgdir_lab3 s = (Ret (), let t = bench s ?pd a b c (Some a) \<lparr>pp_link = Some c, pp_ref = 0\<rparr>
      \<lparr>pp_link = pp_link (pages s c), pp_ref = 0\<rparr> \<lparr>pp_link = Some b, pp_ref = 0\<rparr> 0 (pmem s ?pd (Suc 0)) M (\<lambda>_. 0x01010101)
      ((\<lambda>_. 0x02020202)(0 := 0x03030303)) l
      in t\<lparr>console := console t @ render ''check_page_installed_pgdir() succeeded!\<newline>'' []\<rparr>)"
    using check_page_installed_bench [OF T refl cr3, of "pp_link (pages s c)" "pmem s ?pd (Suc 0)" "pmem s a" "pmem s b" "pmem s c" "invlpgs s"] S(2) slot
    by auto
  define u where "u = bench s ?pd a b c (Some a) \<lparr>pp_link = Some c, pp_ref = 0\<rparr>
      \<lparr>pp_link = pp_link (pages s c), pp_ref = 0\<rparr> \<lparr>pp_link = Some b, pp_ref = 0\<rparr> 0 (pmem s ?pd (Suc 0)) M (\<lambda>_. 0x01010101)
      ((\<lambda>_. 0x02020202)(0 := 0x03030303)) l"
  have out: "pages u x = pages s x" if "x \<notin> {a, b, c}" for x using that by (simp add: u_def bench_def)
  have perm: "{a, c, b} = {a, b, c}" by auto
  have R: "free_pages u (a # c # b # rest)" "pp_ref (pages u y) = pp_ref (pages s y)" for y
    using reorder_free [OF free [unfolded xs] perm, of u] out trioD [OF T]
    by (simp_all add: u_def bench_pages [OF T])
  have mem: "pmem u f = pmem s f" if "f \<notin> set xs" for f
    using that xs slot by (auto simp: u_def bench_def fun_eq_iff)
  have "retested s xs (u\<lparr>console := console u @ render ''check_page_installed_pgdir() succeeded!\<newline>'' []\<rparr>) (a # c # b # rest)"
    using R mem xs by (auto simp: retested_def) (simp_all add: u_def)
  then show ?thesis using l by (auto simp: Let_def u_def)
qed

section \<open>The free list\<close>

definition sound_lab3 :: "u32 \<Rightarrow> nat list \<Rightarrow> bool" where
  "sound_lab3 first_free xs \<longleftrightarrow>
     (\<forall>pp \<in> set xs. page2pa pp \<notin> {0, IOPHYSMEM, EXTPHYSMEM - PGSIZE, EXTPHYSMEM} \<and>
        (page2pa pp < EXTPHYSMEM \<or> first_free \<le> frame_kva pp)) \<and>
     (\<exists>pp \<in> set xs. page2pa pp < EXTPHYSMEM) \<and> (\<exists>pp \<in> set xs. \<not> page2pa pp < EXTPHYSMEM)"

lemma check_free_pages_lab3_run:
  assumes "machine_ok s" and "\<forall>pp \<in> set xs. pp < npages s"
    and "\<forall>pp \<in> set xs. page2pa pp \<notin> {0, IOPHYSMEM, EXTPHYSMEM - PGSIZE, EXTPHYSMEM} \<and> (page2pa pp < EXTPHYSMEM \<or> first_free \<le> frame_kva pp)"
  shows "run (forP xs (check_free_page_lab3 first_free)) s = (Ret (), s)"
  using assms(2,3)
  by (induction xs) (auto simp: prog_simps check_free_page_lab3_def run_page2kva [OF assms(1)])

lemma check_page_free_list_lab3_run:
  assumes free: "free_pages s xs" and ok: "machine_ok s" and nf: "nextfree s \<noteq> 0" and sound: "sound_lab3 (nextfree s) xs"
  shows "\<exists>t ys. run (check_page_free_list_lab3 low) s = (Ret (), t) \<and> retested s xs t ys"
proof -
  let ?l = "if low then 1 else NPDENTRIES" and ?ys = "test_order low xs"
  have "xs \<noteq> []" using sound by (auto simp: sound_lab3_def)
  then have head: "page_free_list s \<noteq> None" using free by (auto simp: free_pages_def neq_Nil_conv)
  obtain pg fl where t: "run (whenP low (low_pages_first ?l)) s = (Ret (), s\<lparr>pages := pg, page_free_list := fl\<rparr>)"
    "free_pages (s\<lparr>pages := pg, page_free_list := fl\<rparr>) ?ys" "\<forall>x. pp_ref (pg x) = pp_ref (pages s x)"
  proof (cases low)
    case True
    then show thesis using low_pages_first_run [OF free ok, of 1] that by (auto simp: prog_simps test_order_def)
  next
    case False
    then show thesis using free by (intro that [where pg = "pages s" and fl = "page_free_list s"]) (simp_all add: prog_simps test_order_def)
  qed
  define t0 where "t0 = s\<lparr>pages := pg, page_free_list := fl\<rparr>"
  have t0: "machine_ok t0" "npages t0 = npages s" "nextfree t0 = nextfree s" "free_pages t0 ?ys" "pmem t0 = pmem s"
    using ok t(2) by (simp_all add: t0_def machine_ok_def)
  have np: "\<forall>pp \<in> set ?ys. pp < npages t0" using t0(4) by (auto simp: free_pages_def)
  obtain pm where pm: "run (forP ?ys (spoil_page ?l)) t0 = (Ret (), t0\<lparr>pmem := pm\<rparr>)" "\<forall>f. f \<notin> set xs \<longrightarrow> pm f = pmem t0 f"
    using spoil_pages_run [OF t0(1) np, of ?l] by auto
  let ?u = "t0\<lparr>pmem := pm\<rparr>"
  have chk: "run (forP ?ys (check_free_page_lab3 (nextfree s))) ?u = (Ret (), ?u)"
    using t0 np sound by (intro check_free_pages_lab3_run) (auto simp: machine_ok_def sound_lab3_def)
  have fl: "run free_list t0 = (Ret ?ys, t0)" by (rule free_list_run [OF t0(4,1)])
  have body: "(\<lambda>pp. if unat (PDX (page2pa pp)) < ?l then bindP (page2kva pp)
      (\<lambda>kva. modify (fill_words (kva_frame kva) 32 0x97979797)) else ret ()) = spoil_page ?l"
    by (simp add: spoil_page_def fun_eq_iff)
  have ba: "run (boot_alloc e 0) ?u = (Ret (nextfree s), ?u)" for e
    using t0(3) nf by (simp add: boot_alloc_zero)
  let ?v = "?u\<lparr>console := console ?u @ render ''check_page_free_list() succeeded!\<newline>'' []\<rparr>"
  have ends: "\<exists>pp \<in> set xs. page2pa pp < EXTPHYSMEM" "\<exists>pp \<in> set xs. \<not> page2pa pp < EXTPHYSMEM"
    using sound by (simp_all add: sound_lab3_def)
  have "run (check_page_free_list_lab3 low) s = (Ret (), ?v)"
    using head t(1) pm(1) chk ba fl ends unfolding check_page_free_list_lab3_def Let_def body t0_def [symmetric]
    by (auto simp: prog_simps run_cprintf formats)
  moreover have "retested s xs ?v ?ys"
    using t0(4) t(3) pm(2) t0(5) by (simp add: retested_def free_pages_def) (simp add: t0_def steady_def)
  ultimately show ?thesis by blast
qed

end
