(* ===== verification/KernelMap.thy ===== *)
theory KernelMap
  imports SelfTest
begin

text \<open>
  The kernel's part of the address space, as \<open>mem_init\<close> builds it with \<open>boot_map_region\<close>: which
  entries of the page directory are used, which pages become page tables, and that the self test
  \<open>check_kern_pgdir\<close> finds every mapping it looks for.
\<close>

section \<open>A directory that grows\<close>

text \<open>The slots \<open>S\<close> hold page tables, the others but \<open>UVPT\<close>'s are empty.\<close>

definition directory :: "kstate \<Rightarrow> nat \<Rightarrow> nat set \<Rightarrow> bool" where
  "directory s pd S \<longleftrightarrow>
     (\<forall>i < 1024. i \<noteq> UVPT_index \<longrightarrow>
        (if i \<in> S then \<exists>x < 1048576. pmem s pd i = table_pde x else pmem s pd i = 0))"

definition grown :: "kstate \<Rightarrow> nat \<Rightarrow> nat list \<Rightarrow> kstate \<Rightarrow> nat list \<Rightarrow> bool" where
  "grown s pd xs t ys \<longleftrightarrow>
     set ys \<subseteq> set xs \<and> steady t = steady s \<and> pmem t pd UVPT_index = pmem s pd UVPT_index \<and>
     tables t pd \<subseteq> tables s pd \<union> set xs \<and> tables s pd \<subseteq> tables t pd \<and> set xs \<subseteq> set ys \<union> tables t pd \<and>
     (\<forall>f. f \<noteq> pd \<longrightarrow> f \<notin> tables s pd \<longrightarrow> f \<notin> set xs \<longrightarrow> pmem t f = pmem s f) \<and>
     (\<forall>y. y \<notin> set xs \<longrightarrow> pp_ref (pages t y) = pp_ref (pages s y))"

lemma grown_refl [simp]: "grown s pd xs s xs"
  by (simp add: grown_def)

lemma grown_trans:
  assumes "grown s pd xs t ys" and "grown t pd ys u zs"
  shows "grown s pd xs u zs"
proof -
  have sub: "set ys \<subseteq> set xs" "tables t pd \<subseteq> tables s pd \<union> set xs" using assms(1) by (simp_all add: grown_def)
  have "tables u pd \<subseteq> tables s pd \<union> set xs" using assms(2) sub by (auto simp: grown_def)
  moreover have "tables s pd \<subseteq> tables u pd" "set xs \<subseteq> set zs \<union> tables u pd"
    using assms by (auto simp: grown_def)
  moreover have "pmem u f = pmem s f" if "f \<noteq> pd" "f \<notin> tables s pd" "f \<notin> set xs" for f
  proof -
    have "f \<notin> tables t pd" "f \<notin> set ys" using that sub by auto
    then show ?thesis using assms that by (simp add: grown_def)
  qed
  moreover have "pp_ref (pages u y) = pp_ref (pages s y)" if "y \<notin> set xs" for y
  proof -
    have "y \<notin> set ys" using that sub by auto
    then show ?thesis using assms that by (simp add: grown_def)
  qed
  moreover have "set zs \<subseteq> set xs" "steady u = steady s" "pmem u pd UVPT_index = pmem s pd UVPT_index"
    using assms by (auto simp: grown_def)
  ultimately show ?thesis by (simp add: grown_def)
qed

lemma directoryD:
  assumes "directory s pd S" and "i < 1024" and "i \<noteq> UVPT_index"
  shows "i \<in> S \<Longrightarrow> \<exists>x < 1048576. pmem s pd i = table_pde x" "i \<notin> S \<Longrightarrow> pmem s pd i = 0"
  using assms unfolding directory_def by (metis (full_types))+

lemma steady_new_table: "steady (new_table x pd va s) = steady s"
  by (simp add: new_table_def steady_def taken_def Let_def upd_page_def store_word_def fill_frame_def)

lemma grown_walk:
  assumes ok: "pgdir_ok s pd xs" and uvpt: "unat (PDX va) \<noteq> UVPT_index"
    and avail: "present (pde_at s pd va) \<or> xs \<noteq> []" and dir: "directory s pd S"
  shows "\<exists>t ys. run (pgdir_walk pd va 1) s = (Ret (Some (frame_of (pde_at t pd va), unat (PTX va))), t)
    \<and> walked s pd xs va t ys \<and> grown s pd xs t ys \<and> directory t pd (insert (unat (PDX va)) S)"
proof -
  obtain t ys where t: "run (pgdir_walk pd va 1) s = (Ret (Some (frame_of (pde_at t pd va), unat (PTX va))), t)"
    "walked s pd xs va t ys" using walk_create_spec [OF ok uvpt avail] by blast
  show ?thesis
  proof (cases "present (pde_at s pd va)")
    case True
    then have "t = s" using walk_present [OF ok True] t(1) by simp
    moreover have "unat (PDX va) \<in> S" using directoryD(2) [OF dir unat_PDX_less uvpt] True by (cases "unat (PDX va) \<in> S") (simp_all add: pde_at_def)
    ultimately show ?thesis using t dir walk_present [OF ok True]
      by (intro exI [of _ s] exI [of _ xs]) (simp_all add: insert_absorb walked_def ok)
  next
    case False
    then obtain x zs where xs: "xs = x # zs" using avail by (cases xs) auto
    note ok' = ok [unfolded xs]
    have x: "x < 1048576" "x \<noteq> pd" "x \<notin> tables s pd" using pgdir_okD [OF ok'] by (auto simp: free_pages_def)
    have tn: "t = new_table x pd va s" using walk_create [OF ok' False] t(1) by simp
    have "ys = zs"
      using t(2) new_table_ok [OF ok' False uvpt] unfolding tn walked_def by (meson free_pages_unique pgdir_okD(1))
    moreover have "grown s pd xs t zs"
      using x new_table_tables [OF x(2,1) uvpt False] uvpt
      unfolding grown_def tn xs steady_new_table by (intro conjI allI impI) (auto simp: new_table_pmem)
    moreover have "directory t pd (insert (unat (PDX va)) S)"
      using dir x(1) unfolding directory_def tn new_table_slot [OF x(2)] by (simp, blast)
    ultimately show ?thesis using t by blast
  qed
qed

lemma grown_store:
  assumes ok: "pgdir_ok s pd xs" and P: "present (pde_at s pd va)" and uvpt: "unat (PDX va) \<noteq> UVPT_index" and dir: "directory s pd S"
  shows "grown s pd xs (store_word (frame_of (pde_at s pd va)) j w s) xs" "directory (store_word (frame_of (pde_at s pd va)) j w s) pd S"
proof -
  let ?f = "frame_of (pde_at s pd va)"
  have f: "?f \<in> tables s pd" "?f \<noteq> pd" using pde_frame(3) [OF ok P uvpt] pgdir_okD(6) [OF ok] by blast+
  then show "directory (store_word ?f j w s) pd S" using dir by (simp add: directory_def)
  show "grown s pd xs (store_word ?f j w s) xs"
    using f by (auto simp: grown_def tables_def table_slots_def) (simp add: store_word_def steady_def)
qed

lemma boot_map_page_grown:
  assumes ok: "pgdir_ok s pd xs" and enough: "missing_tables s pd \<le> length xs" and dir: "directory s pd S"
    and uvpt: "unat (PDX (va + of_nat i * PGSIZE)) \<noteq> UVPT_index"
  shows "\<exists>t ys. run (boot_map_page pd va pa perm i) s = (Ret (), t) \<and> pgdir_ok t pd ys
    \<and> missing_tables t pd \<le> length ys \<and> grown s pd xs t ys \<and> directory t pd (insert (unat (PDX (va + of_nat i * PGSIZE))) S)
    \<and> (\<forall>va'. unat (PDX va') \<noteq> UVPT_index \<longrightarrow> entry t pd va'
         = (if PGNUM va' = PGNUM (va + of_nat i * PGSIZE) then region_entry pa perm i else entry s pd va'))"
proof -
  let ?va = "va + of_nat i * PGSIZE"
  have "present (pde_at s pd ?va) \<or> xs \<noteq> []" using missing_tables_pos [OF _ uvpt, of s pd] enough by auto
  from grown_walk [OF ok uvpt this dir] obtain u ys where u:
      "run (pgdir_walk pd ?va 1) s = (Ret (Some (frame_of (pde_at u pd ?va), unat (PTX ?va))), u)"
      "walked s pd xs ?va u ys" "grown s pd xs u ys" "directory u pd (insert (unat (PDX ?va)) S)" by blast
  have W: "pgdir_ok u pd ys" "present (pde_at u pd ?va)" "missing_tables u pd \<le> length ys"
      "\<And>va'. unat (PDX va') \<noteq> UVPT_index \<Longrightarrow> entry u pd va' = entry s pd va'"
    using u(2) enough by (simp_all add: walked_def)
  let ?t = "store_word (frame_of (pde_at u pd ?va)) (unat (PTX ?va)) (region_entry pa perm i) u"
  note G = grown_store [OF W(1,2) uvpt u(4), of "unat (PTX ?va)" "region_entry pa perm i"]
  have run: "run (boot_map_page pd va pa perm i) s = (Ret (), ?t)"
    using u(1) by (simp add: boot_map_page_def prog_simps store_pte_def region_entry_def)
  have "frame_of (pde_at u pd ?va) \<noteq> pd"
    using pde_frame(3) [OF W(1,2) uvpt] pgdir_okD(6) [OF W(1)] by blast
  then have "missing_tables ?t pd = missing_tables u pd"
    by (simp add: missing_tables_def table_slots_def)
  then show ?thesis
    using run store_entry_ok [OF W(1,2) uvpt] store_entry_view [OF W(1,2) uvpt] W(3,4) grown_trans [OF u(3) G(1)] G(2)
    by (intro exI [of _ ?t] exI [of _ ys]) simp
qed

text \<open>What a call of \<open>boot_map_region\<close> for \<open>n\<close> pages has done.\<close>

definition region_done :: "kstate \<Rightarrow> nat list \<Rightarrow> nat set \<Rightarrow> nat \<Rightarrow> u32 \<Rightarrow> u32 \<Rightarrow> u32 \<Rightarrow> nat \<Rightarrow> kstate \<Rightarrow> nat list \<Rightarrow> bool" where
  "region_done s xs S pd va pa perm n t ys \<longleftrightarrow>
     pgdir_ok t pd ys \<and> missing_tables t pd \<le> length ys \<and> grown s pd xs t ys \<and> region_mapped s pd va pa perm n t \<and>
     directory t pd (S \<union> (\<lambda>i. unat (PDX (va + of_nat i * PGSIZE))) ` {..<n})"

lemma boot_map_region_done:
  assumes ok: "pgdir_ok s pd xs" and enough: "missing_tables s pd \<le> length xs" and dir: "directory s pd S"
    and uvpt: "\<forall>i < n. unat (PDX (va + of_nat i * PGSIZE)) \<noteq> UVPT_index" and n: "n \<le> 1048576" "unat (sz div PGSIZE) = n"
  shows "\<exists>t ys. run (boot_map_region pd va sz pa perm) s = (Ret (), t) \<and> region_done s xs S pd va pa perm n t ys"
proof -
  have "\<exists>t ys. run (forP [0..<n] (boot_map_page pd va pa perm)) s = (Ret (), t) \<and> region_done s xs S pd va pa perm n t ys"
    using uvpt n(1)
  proof (induction n)
    case 0
    then show ?case
      using ok enough dir by (intro exI [of _ s] exI [of _ xs]) (simp add: prog_simps region_mapped_def region_done_def)
  next
    case (Suc n)
    let ?v = "\<lambda>i. va + of_nat i * PGSIZE"
    let ?S = "S \<union> (\<lambda>i. unat (PDX (?v i))) ` {..<n}"
    obtain u ys where u: "run (forP [0..<n] (boot_map_page pd va pa perm)) s = (Ret (), u)"
        "region_done s xs S pd va pa perm n u ys" using Suc by auto
    then have U: "pgdir_ok u pd ys" "missing_tables u pd \<le> length ys" "directory u pd ?S" "grown s pd xs u ys"
        "region_mapped s pd va pa perm n u"
      by (simp_all add: region_done_def)
    have nv: "unat (PDX (?v n)) \<noteq> UVPT_index" using Suc.prems(1) by blast
    obtain t zs where t: "run (boot_map_page pd va pa perm n) u = (Ret (), t)" "pgdir_ok t pd zs"
        "missing_tables t pd \<le> length zs" "grown u pd ys t zs" "directory t pd (insert (unat (PDX (?v n))) ?S)"
        "\<And>va'. unat (PDX va') \<noteq> UVPT_index \<Longrightarrow> entry t pd va'
           = (if PGNUM va' = PGNUM (?v n) then region_entry pa perm n else entry u pd va')"
      using boot_map_page_grown [OF U(1-3) nv, of pa perm] by blast
    have neq: "PGNUM (?v i) \<noteq> PGNUM (?v n)" if "i < n" for i
      using PGNUM_step_inj [of i n va] that Suc.prems(2) by auto
    have "region_mapped s pd va pa perm (Suc n) t"
      using U(5) t(6) neq unfolding region_mapped_def by (auto simp: less_Suc_eq)
    moreover have "insert (unat (PDX (?v n))) ?S = S \<union> (\<lambda>i. unat (PDX (?v i))) ` {..<Suc n}" by (auto simp: lessThan_Suc)
    ultimately have "region_done s xs S pd va pa perm (Suc n) t zs"
      using t(2-5) grown_trans [OF U(4)] by (simp add: region_done_def)
    then show ?case using u(1) t(1) by (intro exI [of _ t] exI [of _ zs]) (simp add: prog_simps)
  qed
  then show ?thesis using n(2) by (simp add: boot_map_region_def)
qed

section \<open>The self test of the kernel's mappings\<close>

lemma check_va2pa_run:
  assumes ok: "pgdir_ok s pd xs"
  shows "run (check_va2pa pd va) s = (Ret (if present (entry s pd va) then PTE_ADDR (entry s pd va) else NOT 0), s)"
proof (cases "present (pde_at s pd va)")
  case True
  then show ?thesis
    using pde_frame(1) [OF ok True]
    by (simp add: check_va2pa_def prog_simps pde_of_def entry_def PTE_ADDR_def PGNUM_clear_flags kva_frame_KADDR flip: pde_at_def)
next
  case False
  then show ?thesis by (simp add: check_va2pa_def prog_simps pde_of_def entry_def flip: pde_at_def)
qed

lemma expect_pa_run:
  assumes ok: "pgdir_ok s pd xs" and "pa = (if present (entry s pd va) then PTE_ADDR (entry s pd va) else NOT 0)"
  shows "run (expect_pa pd va pa) s = (Ret (), s)"
  using assms by (simp add: expect_pa_def prog_simps check_va2pa_run [OF ok])

lemma aligned_low:
  assumes "PTE_ADDR (pa :: u32) = pa"
  shows "drop_bit 12 perm = 0 \<Longrightarrow> PTE_ADDR ((pa + of_nat i * PGSIZE) OR perm) = pa + of_nat i * PGSIZE"
proof -
  have "pa = page2pa (unat (PGNUM pa))"
    using assms by (simp add: PTE_ADDR_alt page2pa_def PGNUM_def)
  then have "pa + of_nat i * PGSIZE = page2pa (unat (PGNUM pa) + i)"
    by (simp add: page2pa_def push_bit_eq_mult algebra_simps)
  then show "drop_bit 12 perm = 0 \<Longrightarrow> PTE_ADDR ((pa + of_nat i * PGSIZE) OR perm) = pa + of_nat i * PGSIZE"
    using PTE_ADDR_page2pa by metis
qed

lemma region_entry_addr:
  assumes "PTE_ADDR pa = pa" and "drop_bit 12 perm = 0"
  shows "PTE_ADDR (region_entry pa perm i) = pa + of_nat i * PGSIZE" "present (region_entry pa perm i)"
proof -
  have "drop_bit 12 (perm OR 1) = 0" using assms(2) by (simp add: drop_bit_or)
  then show "PTE_ADDR (region_entry pa perm i) = pa + of_nat i * PGSIZE"
    using aligned_low [OF assms(1)] by (simp add: region_entry_def or.assoc)
  show "present (region_entry pa perm i)" unfolding region_entry_def by (rule present_or_P)
qed

lemma check_region_run:
  assumes ok: "pgdir_ok s pd xs" and base: "run pa s = (Ret b, s)" and b: "PTE_ADDR b = b" "drop_bit 12 perm = 0"
    and map: "\<And>i. i < n \<Longrightarrow> entry s pd (va + of_nat i * PGSIZE) = region_entry b perm i"
  shows "run (check_region pd va pa n) s = (Ret (), s)"
proof -
  have "run (forP is (\<lambda>i. bindP pa (\<lambda>base. expect_pa pd (va + of_nat i * PGSIZE) (base + of_nat i * PGSIZE)))) s = (Ret (), s)"
    if "set is \<subseteq> {..<n}" for "is"
    using that
    by (induction "is")
      (simp_all add: prog_simps base expect_pa_run [OF ok] map region_entry_addr [OF b])
  then show ?thesis by (simp add: check_region_def lessThan_atLeast0)
qed

lemma forP_still: "(\<And>x. x \<in> set xs \<Longrightarrow> run (f x) s = (Ret (), s)) \<Longrightarrow> run (forP xs f) s = (Ret (), s)"
  by (induction xs) (simp_all add: prog_simps)

text \<open>The slots of the kernel's directory; \<open>E\<close> holds that of \<^verbatim>\<open>UENVS\<close>, where there are environments.\<close>

abbreviation (input) kernel_slots :: "nat set \<Rightarrow> nat set" where
  "kernel_slots E \<equiv> {956, 959} \<union> E \<union> {960..<1024}"

lemma directory_pde:
  assumes dir: "directory s pd (kernel_slots E)" and i: "i < 1024" "i \<noteq> UVPT_index"
  shows "i \<in> {956, 959} \<union> E \<or> 960 \<le> i \<Longrightarrow> pmem s pd i AND 1 = 1 \<and> pmem s pd i AND 2 \<noteq> 0"
    and "i \<notin> {956, 959} \<union> E \<Longrightarrow> \<not> 960 \<le> i \<Longrightarrow> pmem s pd i = 0"
proof -
  show "pmem s pd i AND 1 = 1 \<and> pmem s pd i AND 2 \<noteq> 0" if "i \<in> {956, 959} \<union> E \<or> 960 \<le> i"
  proof -
    have "i \<in> kernel_slots E" using that i(1) by auto
    then obtain x where "pmem s pd i = table_pde x" using directoryD(1) [OF dir i] by auto
    then show ?thesis by (simp add: table_pde_def or.assoc page2pa_or_low)
  qed
  show "pmem s pd i = 0" if "i \<notin> {956, 959} \<union> E" "\<not> 960 \<le> i"
    using that by (intro directoryD(2) [OF dir i]) auto
qed

lemma pde_index:
  "unat (PDX UVPT) = 957" "unat (PDX (KSTACKTOP - 1)) = 959" "unat (PDX UPAGES) = 956" "unat (PDX UENVS) = 955"
  "unat (PDX KERNBASE) = 960"
  by (simp_all add: PDX_def)

lemma check_pdes_run:
  assumes dir: "directory s pd (kernel_slots {955})" and uvpt: "present (pmem s pd UVPT_index)"
  shows "run (forP [0..<NPDENTRIES] (check_pde_lab3 pd)) s = (Ret (), s)"
proof (rule forP_still)
  fix i assume "i \<in> set [0..<NPDENTRIES]"
  then have i: "i < 1024" by simp
  show "run (check_pde_lab3 pd i) s = (Ret (), s)"
  proof (cases "i = UVPT_index")
    case True
    then show ?thesis using uvpt unfolding check_pde_lab3_def pde_index by (simp add: prog_simps)
  next
    case False
    show ?thesis
      using directory_pde [OF dir i False] False unfolding check_pde_lab3_def pde_index
      by (cases "i \<in> {957, 959, 956, 955}"; cases "960 \<le> i") (auto simp: prog_simps)
  qed
qed

end
