(* ===== verification/Lab3Boot.thy ===== *)
theory Lab3Boot
  imports KernelMap
begin

text \<open>
  \<open>mem_init\<close> of \<^verbatim>\<open>project3\<close> comes to its end: every self test passes, and the kernel runs on a page
  directory that maps all physical memory at \<open>KERNBASE\<close>.
\<close>

section \<open>The machine\<close>

definition total_memory :: "(u32 \<Rightarrow> u8) \<Rightarrow> u32" where
  "total_memory cmos =
     (if nvram_read cmos NVRAM_EXT16LO * 64 \<noteq> 0 then 16 * 1024 + nvram_read cmos NVRAM_EXT16LO * 64
      else if nvram_read cmos NVRAM_EXTLO \<noteq> 0 then 1 * 1024 + nvram_read cmos NVRAM_EXTLO
      else nvram_read cmos NVRAM_BASELO)"

definition total_pages :: "(u32 \<Rightarrow> u8) \<Rightarrow> nat" where
  "total_pages cmos = unat (total_memory cmos div 4)"

definition base_pages :: "(u32 \<Rightarrow> u8) \<Rightarrow> nat" where
  "base_pages cmos = unat (nvram_read cmos NVRAM_BASELO div 4)"

text \<open>
  16 to 256 MB of memory, 512 to 640 KB of it below the hole for devices; a kernel image that
  starts at 1 MB and ends below 3 MB, so that the arrays behind it fit into the 4 MB that
  \<open>entry_pgdir\<close> maps; the kernel stack on a page boundary.
\<close>

definition machine_fits :: "(u32 \<Rightarrow> u8) \<Rightarrow> ksyms \<Rightarrow> bool" where
  "machine_fits cmos k \<longleftrightarrow>
     4096 \<le> total_pages cmos \<and> total_pages cmos \<le> 65536 \<and> 128 \<le> base_pages cmos \<and> base_pages cmos \<le> 160 \<and>
     KERNBASE + EXTPHYSMEM \<le> sym_end k \<and> sym_end k \<le> KERNBASE + 0x300000 \<and>
     KERNBASE \<le> sym_bootstack k \<and> PTE_ADDR (sym_bootstack k) = sym_bootstack k"

text \<open>The globals as the loader and \<^verbatim>\<open>memset(edata, 0, end - edata)\<close> leave them.\<close>

definition bss_clear :: "kstate \<Rightarrow> bool" where
  "bss_clear s \<longleftrightarrow>
     nextfree s = 0 \<and> page_free_list s = None \<and> (\<forall>i. pp_link (pages s i) = None) \<and> env_free_list s = None \<and>
     curenv s = None"

lemma memory_formats [formats]:
  "vprintfmt ''Physical memory: %uK available, base = %uK, extended = %uK\<newline>'' [VInt a, VInt b, VInt c] \<noteq> None"
  by (simp add: fmt_eval fmt_init_def)

definition detected :: "(u32 \<Rightarrow> u8) \<Rightarrow> kstate \<Rightarrow> kstate" where
  "detected cmos s = s\<lparr>npages := total_pages cmos, npages_basemem := base_pages cmos, console := console s @
     render ''Physical memory: %uK available, base = %uK, extended = %uK\<newline>''
       [VInt (total_memory cmos), VInt (nvram_read cmos NVRAM_BASELO), VInt (total_memory cmos - nvram_read cmos NVRAM_BASELO)]\<rparr>"

lemma detect_memory_run: "run (i386_detect_memory cmos) s = (Ret (), detected cmos s)"
  by (simp add: i386_detect_memory_def Let_def prog_simps run_cprintf formats detected_def total_memory_def total_pages_def base_pages_def)

lemma detected_sel [simp]: "ksym (detected cmos s) = ksym s" "npages (detected cmos s) = total_pages cmos"
  by (simp_all add: detected_def)

lemma boot_alloc_first:
  assumes "nextfree s = 0"
  shows "run (boot_alloc e n) s = run (boot_alloc e n) (s\<lparr>nextfree := ROUNDUP e 4096, pages_left := of_nat (npages s)\<rparr>)"
proof (cases "ROUNDUP e 4096 = 0")
  case True
  then show ?thesis using assms by (simp add: boot_alloc_def prog_simps)
next
  case False
  then show ?thesis using assms by (simp add: boot_alloc_def prog_simps)
qed

lemma boot_taken_shape: "\<exists>l c. boot_taken n s = s\<lparr>nextfree := nextfree s + ROUNDUP n 4096, pages_left := l, console := c\<rparr>"
  by (auto simp: boot_taken_def Let_def)

section \<open>The arrays behind the kernel image\<close>

text \<open>The end of the kernel image, rounded up: where the page directory goes.\<close>

abbreviation (input) kernel_end :: "kstate \<Rightarrow> u32" where "kernel_end s \<equiv> ROUNDUP (sym_end (ksym s)) 4096"

lemma kernel_end_bounds:
  assumes "machine_fits cmos (ksym s)"
  shows "unat (kernel_end s) = 4096 * (unat (kernel_end s) div 4096)" "0xF0100000 \<le> unat (kernel_end s)" "unat (kernel_end s) \<le> 0xF0300000"
    and "unat (sym_end (ksym s)) \<le> unat (kernel_end s)"
proof -
  have e: "0xF0100000 \<le> unat (sym_end (ksym s))" "unat (sym_end (ksym s)) \<le> 0xF0300000"
    using assms by (simp_all add: machine_fits_def word_le_nat_alt)
  have r: "unat (kernel_end s) = 4096 * ((unat (sym_end (ksym s)) + 4095) div 4096)"
    by (rule ROUNDUP_page) (use e in simp)
  then show "unat (kernel_end s) = 4096 * (unat (kernel_end s) div 4096)" by simp
  show up: "unat (sym_end (ksym s)) \<le> unat (kernel_end s)"
    using mult_div_mod_eq [of 4096 "unat (sym_end (ksym s)) + 4095"] mod_less_divisor [of 4096 "unat (sym_end (ksym s)) + 4095"]
    unfolding r by linarith
  then show "0xF0100000 \<le> unat (kernel_end s)" using e by linarith
  have "(unat (sym_end (ksym s)) + 4095) div 4096 \<le> (0xF0300000 + 4095) div 4096" using e by (intro div_le_mono) simp
  then show "unat (kernel_end s) \<le> 0xF0300000" unfolding r by simp
qed

text \<open>\<open>mem_init\<close> up to the point where the page array is cleared, and what comes after in \<^verbatim>\<open>project3\<close>.\<close>

definition mem_init_start :: "(u32 \<Rightarrow> u8) \<Rightarrow> (ksyms \<Rightarrow> nat \<Rightarrow> u32 \<Rightarrow> u32 \<Rightarrow> u32 \<Rightarrow> unit km) \<Rightarrow> unit km" where
  "mem_init_start cmos K =
     thenP (i386_detect_memory cmos)
     (bindP (gets (\<lambda>s. (ksym s, npages s))) (\<lambda>(k, np).
      bindP (boot_alloc (sym_end k) PGSIZE) (\<lambda>kpg.
      thenP (modify (\<lambda>s. fill_frame (kva_frame kpg) 0 (s\<lparr>kern_pgdir := kva_frame kpg\<rparr>)))
      (bindP (PADDR kpg) (\<lambda>kpa.
       thenP (modify (store_word (kva_frame kpg) (unat (PDX UVPT)) (kpa OR PTE_U OR PTE_P)))
       (bindP (boot_alloc (sym_end k) (of_nat np * sizeof_PageInfo)) (\<lambda>pk.
        thenP (modify (\<lambda>s. s\<lparr>pages_kva := pk, pages := (\<lambda>i. if i < np then zero_page else pages s i)\<rparr>))
        (K k np kpg kpa pk))))))))"

definition mem_init_rest :: "ksyms \<Rightarrow> u32 \<Rightarrow> u32 \<Rightarrow> u32 \<Rightarrow> u32 \<Rightarrow> unit km" where
  "mem_init_rest k kpg kpa pk ek =
     thenP (seqP [page_init (sym_end k), check_page_free_list_lab3 True, check_page_alloc, check_page_lab3])
     (bindP (PADDR pk) (\<lambda>ppa.
      thenP (boot_map_region (kva_frame kpg) UPAGES PTSIZE ppa PTE_U)
      (bindP (PADDR ek) (\<lambda>epa.
       thenP (boot_map_region (kva_frame kpg) UENVS PTSIZE epa (PTE_U OR PTE_P))
       (bindP (PADDR (sym_bootstack k)) (\<lambda>spa.
        seqP [
          boot_map_region (kva_frame kpg) (KSTACKTOP - KSTKSIZE) KSTKSIZE spa PTE_W,
          boot_map_region (kva_frame kpg) KERNBASE (0 - KERNBASE) 0 PTE_W,
          check_kern_pgdir_lab3,
          lcr3 kpa,
          check_page_free_list_lab3 False,
          modify (\<lambda>s. s\<lparr>cr0 := (cr0 s OR (CR0_PE OR CR0_PG OR CR0_AM OR CR0_WP OR CR0_NE OR CR0_MP))
                               AND NOT (CR0_TS OR CR0_EM)\<rparr>),
          check_page_installed_pgdir_lab3]))))))"

lemma mem_init_lab3_start:
  "mem_init_lab3 cmos = mem_init_start cmos (\<lambda>k np kpg kpa pk.
     bindP (boot_alloc (sym_end k) (of_nat NENV * sizeof_Env_lab3)) (\<lambda>ek.
     thenP (modify (\<lambda>s. s\<lparr>envs_kva := ek, envs := (\<lambda>i. if i < NENV then zero_env else envs s i)\<rparr>))
     (mem_init_rest k kpg kpa pk ek)))"
  by (simp only: mem_init_lab3_def mem_init_start_def mem_init_rest_def)

definition pages_ready :: "(u32 \<Rightarrow> u8) \<Rightarrow> kstate \<Rightarrow> u32 \<Rightarrow> u32 \<Rightarrow> u32 \<Rightarrow> u32 list \<Rightarrow> kstate" where
  "pages_ready cmos s pk nf left out =
     s\<lparr>npages := total_pages cmos, npages_basemem := base_pages cmos, kern_pgdir := kva_frame (kernel_end s),
       pages_kva := pk, nextfree := nf, pages_left := left,
       pages := (\<lambda>i. if i < total_pages cmos then zero_page else pages s i),
       pmem := (pmem s)(kva_frame (kernel_end s) := (\<lambda>_. 0)(UVPT_index := (kernel_end s - KERNBASE) OR PTE_U OR PTE_P)),
       console := out\<rparr>"

abbreviation (input) pages_bytes :: "(u32 \<Rightarrow> u8) \<Rightarrow> nat" where
  "pages_bytes cmos \<equiv> 4096 * ((8 * total_pages cmos + 4095) div 4096)"

lemma mem_init_start_run:
  assumes fits: "machine_fits cmos (ksym s)" and clear: "bss_clear s"
  shows "\<exists>pk nf left out.
    (\<forall>K. run (mem_init_start cmos K) s
       = run (K (ksym s) (total_pages cmos) (kernel_end s) (kernel_end s - KERNBASE) pk) (pages_ready cmos s pk nf left out))
    \<and> unat pk = unat (kernel_end s) + 4096 \<and> unat nf = unat pk + pages_bytes cmos
    \<and> unat left = total_pages cmos - 1 - (8 * total_pages cmos + 4095) div 4096 \<and> unat nf < 0xF0390000"
proof -
  let ?np = "total_pages cmos" and ?E = "kernel_end s"
  let ?pd = "kva_frame ?E" and ?e = "sym_end (ksym s)"
  let ?n = "of_nat ?np * 8 :: u32"
  note E = kernel_end_bounds [OF fits]
  have np: "4096 \<le> ?np" "?np \<le> 65536" using fits by (simp_all add: machine_fits_def)
  have un: "unat ?n = 8 * ?np" using np by (simp add: unat_word_ariths unat_of_nat32)
  define s1 where "s1 = (detected cmos s)\<lparr>nextfree := ?E, pages_left := of_nat ?np\<rparr>"
  have s1: "nextfree s1 = ?E" "unat (pages_left s1) = ?np" "ksym s1 = ksym s"
    using np by (simp_all add: s1_def detected_def unat_of_nat32)
  have E0: "?E \<noteq> 0" using E(2) by auto
  have r1: "run (boot_alloc ?e 4096) (detected cmos s) = (Ret ?E, boot_taken 4096 s1)"
    using boot_alloc_first [of "detected cmos s" ?e 4096] boot_alloc_exact(1) [of s1 4096 ?e] s1 np E0 clear
    by (simp add: s1_def detected_def bss_clear_def)
  have l1: "unat (pages_left (boot_taken 4096 s1)) = ?np - 1"
    using boot_alloc_exact(3) [of s1 4096] s1 np E0 by simp
  define s2 where "s2 = store_word ?pd UVPT_index ((?E - KERNBASE) OR 5) (fill_frame ?pd 0 ((boot_taken 4096 s1)\<lparr>kern_pgdir := ?pd\<rparr>))"
  have rE: "ROUNDUP 4096 4096 = (4096 :: u32)" by (simp add: ROUNDUP_def ROUNDDOWN_def)
  have pk: "unat (?E + 4096) = unat ?E + 4096" using E(3) by (subst unat_add_small32) simp_all
  have s2: "nextfree s2 = ?E + 4096" "unat (pages_left s2) = ?np - 1" "ksym s2 = ksym s"
    using s1 l1 rE by (simp_all add: s2_def)
  have nz: "?E + 4096 \<noteq> 0" "?n \<noteq> 0" using pk un np by auto
  have fit2: "unat ?n \<le> 4096 * unat (pages_left s2)" "unat (pages_left s2) \<le> 262144" using un np s2 by simp_all
  note B2 = boot_alloc_exact [OF _ nz(2) fit2]
  have r2: "run (boot_alloc ?e ?n) s2 = (Ret (?E + 4096), boot_taken ?n s2)"
    using B2(1) nz s2 by simp
  let ?R = "ROUNDUP ?n 4096"
  have R: "unat ?R = pages_bytes cmos" "unat ?R \<le> 524288" using B2(2) nz s2 un np by simp_all
  define s3 where "s3 = (boot_taken ?n s2)\<lparr>pages_kva := ?E + 4096, pages := (\<lambda>i. if i < ?np then zero_page else pages (boot_taken ?n s2) i)\<rparr>"
  have nf: "unat (?E + 4096 + ?R) = unat ?E + 4096 + unat ?R" using E(3) pk R by (subst unat_add_small32) simp_all
  have left: "unat (pages_left s3) = ?np - 1 - (8 * ?np + 4095) div 4096" using s2 B2(3) nz un by (simp add: s3_def)
  have eq: "s3 = pages_ready cmos s (?E + 4096) (?E + 4096 + ?R) (pages_left s3) (console s3)"
  proof -
    obtain l c where b1: "boot_taken 4096 s1 = s1\<lparr>nextfree := ?E + 4096, pages_left := l, console := c\<rparr>"
      using boot_taken_shape [of 4096 s1] s1 rE by auto
    obtain l' c' where b2: "boot_taken ?n s2 = s2\<lparr>nextfree := ?E + 4096 + ?R, pages_left := l', console := c'\<rparr>"
      using boot_taken_shape [of ?n s2] s2 by auto
    show ?thesis
      unfolding s3_def b2 unfolding s2_def store_word_def fill_frame_def b1
      unfolding s1_def detected_def pages_ready_def
      by (simp cong: if_cong)
  qed
  have kb: "\<not> ?E < KERNBASE" using E(2) by (simp add: word_less_nat_alt)
  have pdx: "unat (PDX UVPT) = UVPT_index" by (rule UVPT_index)
  have "run (mem_init_start cmos K) s = run (K (ksym s) ?np ?E (?E - KERNBASE) (?E + 4096)) s3" for K
    unfolding mem_init_start_def run_thenP_Ret [OF detect_memory_run]
    using kb r1 r2 pdx
    by (simp add: prog_simps flip: s3_def s2_def)
  then have "\<forall>K. run (mem_init_start cmos K) s = run (K (ksym s) ?np ?E (?E - KERNBASE) (?E + 4096))
      (pages_ready cmos s (?E + 4096) (?E + 4096 + ?R) (pages_left s3) (console s3))"
    using eq by metis
  moreover have "unat (?E + 4096 + ?R) = unat (?E + 4096) + pages_bytes cmos" "unat (?E + 4096 + ?R) < 0xF0390000"
    using nf pk R E(3) by simp_all
  ultimately show ?thesis using pk left by blast
qed

definition arrays_ready :: "(u32 \<Rightarrow> u8) \<Rightarrow> kstate \<Rightarrow> u32 \<Rightarrow> u32 \<Rightarrow> u32 \<Rightarrow> u32 \<Rightarrow> u32 list \<Rightarrow> kstate" where
  "arrays_ready cmos s pk ek nf left out =
     (pages_ready cmos s pk nf left out)\<lparr>envs_kva := ek, envs := (\<lambda>i. if i < NENV then zero_env else envs s i)\<rparr>"

lemma mem_init_arrays:
  assumes fits: "machine_fits cmos (ksym s)" and clear: "bss_clear s"
  shows "\<exists>pk ek nf left out.
    run (mem_init_lab3 cmos) s = run (mem_init_rest (ksym s) (kernel_end s) (kernel_end s - KERNBASE) pk ek) (arrays_ready cmos s pk ek nf left out)
    \<and> unat pk = unat (kernel_end s) + 4096 \<and> unat ek = unat pk + pages_bytes cmos
    \<and> unat nf = unat ek + 98304 \<and> unat nf < 0xF0400000"
proof -
  let ?np = "total_pages cmos" and ?e = "sym_end (ksym s)"
  obtain pk ek l c where S: "\<And>K. run (mem_init_start cmos K) s
      = run (K (ksym s) ?np (kernel_end s) (kernel_end s - KERNBASE) pk) (pages_ready cmos s pk ek l c)"
    and u: "unat pk = unat (kernel_end s) + 4096" "unat ek = unat pk + pages_bytes cmos"
      "unat l = ?np - 1 - (8 * ?np + 4095) div 4096" "unat ek < 0xF0390000"
    using mem_init_start_run [OF fits clear] by blast
  define s3 where "s3 = pages_ready cmos s pk ek l c"
  have np: "4096 \<le> ?np" "?np \<le> 65536" using fits by (simp_all add: machine_fits_def)
  have s3: "nextfree s3 = ek" "pages_left s3 = l" by (simp_all add: s3_def pages_ready_def)
  have fit: "unat (98304 :: u32) \<le> 4096 * unat (pages_left s3)" "unat (pages_left s3) \<le> 262144" and nz: "ek \<noteq> 0"
    using np s3 u kernel_end_bounds(2) [OF fits] by auto
  have r3: "run (boot_alloc ?e 98304) s3 = (Ret ek, boot_taken 98304 s3)"
    using boot_alloc_exact(1) [OF _ _ fit] nz s3 by simp
  have rk: "ROUNDUP 98304 4096 = (98304 :: u32)" by (simp add: ROUNDUP_def ROUNDDOWN_def)
  have nf: "unat (ek + 98304) = unat ek + 98304" using u(4) by (subst unat_add_small32) simp_all
  obtain k d where b3: "boot_taken 98304 s3 = s3\<lparr>nextfree := ek + 98304, pages_left := k, console := d\<rparr>"
    using boot_taken_shape [of 98304 s3] s3 rk by auto
  have eq: "(boot_taken 98304 s3)\<lparr>envs_kva := ek, envs := (\<lambda>i. if i < NENV then zero_env else envs (boot_taken 98304 s3) i)\<rparr>
      = arrays_ready cmos s pk ek (ek + 98304) k d"
    unfolding b3 unfolding s3_def arrays_ready_def pages_ready_def by (simp cong: if_cong)
  have "run (mem_init_lab3 cmos) s = run (mem_init_rest (ksym s) (kernel_end s) (kernel_end s - KERNBASE) pk ek) (arrays_ready cmos s pk ek (ek + 98304) k d)"
    unfolding mem_init_lab3_start S s3_def [symmetric] eq [symmetric] using r3 by (simp add: prog_simps)
  then show ?thesis using u nf by (intro exI [of _ pk] exI [of _ ek] exI [of _ "ek + 98304"] exI [of _ k] exI [of _ d]) simp
qed

text \<open>What both kernels have set up when the tests begin.\<close>

definition arrays_set :: "(u32 \<Rightarrow> u8) \<Rightarrow> kstate \<Rightarrow> u32 \<Rightarrow> kstate \<Rightarrow> bool" where
  "arrays_set cmos s nf t \<longleftrightarrow>
     npages t = total_pages cmos \<and> npages_basemem t = base_pages cmos \<and> kern_pgdir t = kva_frame (kernel_end s) \<and>
     nextfree t = nf \<and> ksym t = ksym s \<and> fresh_pages t \<and>
     pmem t = (pmem s)(kva_frame (kernel_end s) := (\<lambda>_. 0)(UVPT_index := (kernel_end s - KERNBASE) OR PTE_U OR PTE_P))"

lemma arrays_set_ready:
  assumes "bss_clear s"
  shows "arrays_set cmos s nf (pages_ready cmos s pk nf l c)" "arrays_set cmos s nf (arrays_ready cmos s pk ek nf l c)"
  using assms by (auto simp: arrays_set_def arrays_ready_def pages_ready_def bss_clear_def fresh_pages_def zero_page_def)

section \<open>The free list\<close>

text \<open>The pages the boot allocator has not given out start at this one.\<close>

abbreviation (input) first_page :: "u32 \<Rightarrow> nat" where "first_page nf \<equiv> (unat nf - 0xF0000000) div 4096"

lemma usable_iff:
  assumes nf: "0xF0100000 < unat nf" "unat nf < 0xF0400000" "4096 dvd unat nf" and i: "i < 65536"
  shows "page_usable nb nf i \<longleftrightarrow> i \<noteq> 0 \<and> (i < nb \<or> first_page nf \<le> i)"
proof -
  have u: "unat (4096 * of_nat i :: u32) = 4096 * i"
    using i by (simp add: unat_word_ariths unat_of_nat32)
  have d: "unat (nf - KERNBASE) = unat nf - 0xF0000000" using nf(1) by (simp add: unat_diff32)
  obtain k where k: "unat nf = 4096 * k" using nf(3) by (auto simp: dvd_def)
  have f: "first_page nf = k - 983040" "unat nf - 0xF0000000 = 4096 * (k - 983040)" using k by auto
  have lo: "256 < k - 983040" using nf(1) k by simp
  show ?thesis
    using lo by (auto simp: page_usable_def Let_def word_le_nat_alt word_less_nat_alt u d f)
qed

lemma usable_pages:
  assumes nf: "0xF0100000 < unat nf" "unat nf < 0xF0400000" "4096 dvd unat nf" and n: "n \<le> 65536"
    and s: "npages_basemem s = nb" "nextfree s = nf" "nb \<le> 160"
  shows "set (usable_below s n) = {i. 0 < i \<and> i < n \<and> (i < nb \<or> first_page nf \<le> i)}" "distinct (usable_below s n)"
    and "n - 1024 \<le> length (usable_below s n)"
proof -
  have "set (usable_below s n) = {i. i < n \<and> page_usable nb nf i}" by (auto simp: usable_below_def s)
  then show eq: "set (usable_below s n) = {i. 0 < i \<and> i < n \<and> (i < nb \<or> first_page nf \<le> i)}"
    using usable_iff [OF nf] n by auto
  show d: "distinct (usable_below s n)" by (simp add: usable_below_def)
  have "first_page nf \<le> 1024" using nf(2) div_le_mono [of "unat nf - 0xF0000000" "0x400000" 4096] by simp
  then have "{1024..<n} \<subseteq> set (usable_below s n)" unfolding eq by auto
  then have "card {1024..<n} \<le> card (set (usable_below s n))" by (intro card_mono) simp_all
  then show "n - 1024 \<le> length (usable_below s n)" using distinct_card [OF d] by simp
qed

lemma sound_pages:
  assumes nf: "0xF0100000 < unat nf" "unat nf < 0xF0400000" "4096 dvd unat nf" and n: "n \<le> 65536" and nb: "nb \<le> 160"
    and xs: "set xs \<subseteq> {i. 0 < i \<and> i < n \<and> (i < nb \<or> first_page nf \<le> i)}"
    and low: "\<exists>i \<in> set xs. i < 160" and high: "\<exists>i \<in> set xs. 256 \<le> i"
  shows "sound_lab3 nf xs"
proof -
  have u: "unat (page2pa i) = 4096 * i" if "i < 65536" for i using that by (simp add: unat_page2pa)
  obtain k where k: "unat nf = 4096 * k" using nf(3) by (auto simp: dvd_def)
  have f: "first_page nf = k - 983040" "983040 < k" using k nf(1) by auto
  have kva: "unat (frame_kva i) = 4096 * i + 0xF0000000" if "i < 65536" for i
    using that u [OF that] unfolding frame_kva_def by (subst unat_add_small32) simp_all
  have one: "page2pa i \<notin> {0, IOPHYSMEM, EXTPHYSMEM - PGSIZE, EXTPHYSMEM} \<and> (page2pa i < EXTPHYSMEM \<or> nf \<le> frame_kva i)"
    if i: "i \<in> set xs" for i
  proof -
    have r: "0 < i" "i < 65536" "i < 160 \<or> k - 983040 \<le> i" using xs n nb i f by auto
    have lo: "256 < k - 983040" using nf(1) k by simp
    have neq: "page2pa i \<noteq> w" if "unat w \<noteq> 4096 * i" for w using u [OF r(2)] that by auto
    have "page2pa i \<noteq> 0" "page2pa i \<noteq> IOPHYSMEM" "page2pa i \<noteq> EXTPHYSMEM - PGSIZE" "page2pa i \<noteq> EXTPHYSMEM"
      by (rule neq, use r lo in force)+
    moreover have "page2pa i < EXTPHYSMEM \<or> nf \<le> frame_kva i"
      using r lo k by (auto simp: word_less_nat_alt word_le_nat_alt u kva)
    ultimately show ?thesis by simp
  qed
  have lt: "page2pa i < EXTPHYSMEM \<longleftrightarrow> i < 256" if "i \<in> set xs" for i
  proof -
    have "i < 65536" using xs n that by auto
    then show ?thesis by (simp add: word_less_nat_alt u)
  qed
  show ?thesis unfolding sound_lab3_def using one lt low high by fastforce
qed

lemma steady_marks [simp]: "steady (push_free i s) = steady s" "steady (mark_used i s) = steady s"
  by (simp_all add: steady_def push_free_def mark_used_def upd_page_def)

lemma page_init_steady:
  assumes "nextfree s \<noteq> 0" and "KERNBASE \<le> nextfree s"
  shows "\<exists>t. run (page_init e) s = (Ret (), t) \<and> steady t = steady s"
proof -
  have loop: "\<exists>u. run (forP is (page_init_body e)) t = (Ret (), u) \<and> steady u = steady s"
    if "steady t = steady s" "0 \<notin> set is" for "is" t
    using that
  proof (induction "is" arbitrary: t)
    case Nil
    then show ?case by (simp add: prog_simps)
  next
    case (Cons i "is")
    have n: "nextfree t \<noteq> 0" "KERNBASE \<le> nextfree t" using assms steady_sel(6) [OF Cons.prems(1)] by simp_all
    let ?u = "if page_usable (npages_basemem t) (nextfree t) i then push_free i t else mark_used i t"
    have "run (page_init_body e i) t = (Ret (), ?u)" using page_init_body_run [OF n, of i] Cons.prems(2) by simp
    moreover have "steady ?u = steady s" using Cons.prems(1) by simp
    ultimately show ?case using Cons.IH [of ?u] Cons.prems(2) by (simp add: prog_simps)
  qed
  obtain u where "run (forP [1..<npages s] (page_init_body e)) (mark_used 0 s) = (Ret (), u)" "steady u = steady s"
    using loop [of "mark_used 0 s" "[1..<npages s]"] by auto
  then show ?thesis by (auto simp: page_init_def prog_simps)
qed

text \<open>The pages that are free when the kernel's mappings are made.\<close>

definition usable :: "(u32 \<Rightarrow> u8) \<Rightarrow> u32 \<Rightarrow> nat set" where
  "usable cmos nf = {i. 0 < i \<and> i < total_pages cmos \<and> (i < base_pages cmos \<or> first_page nf \<le> i)}"

text \<open>What the address of the first free byte is known to be.\<close>

definition end_ok :: "u32 \<Rightarrow> u32 \<Rightarrow> bool" where
  "end_ok kend nf \<longleftrightarrow> 0xF0100000 \<le> unat kend \<and> unat kend + 4096 \<le> unat nf \<and> unat nf < 0xF0400000 \<and> 4096 dvd unat nf \<and> 4096 dvd unat kend"

lemma end_okD:
  assumes "end_ok kend nf"
  shows "0xF0100000 < unat nf" "unat nf < 0xF0400000" "4096 dvd unat nf" "KERNBASE \<le> nf" "nf \<noteq> 0"
    and "kva_frame kend < first_page nf" "256 \<le> kva_frame kend" "first_page nf \<le> 1024" "kend - KERNBASE = page2pa (kva_frame kend)"
    and "page2pa (kva_frame kend) + KERNBASE = kend" "KERNBASE \<le> kend"
proof -
  have e: "0xF0100000 \<le> unat kend" "unat kend + 4096 \<le> unat nf" "unat nf < 0xF0400000" using assms by (simp_all add: end_ok_def)
  then show "0xF0100000 < unat nf" "unat nf < 0xF0400000" "4096 dvd unat nf" "KERNBASE \<le> nf" "nf \<noteq> 0" "KERNBASE \<le> kend"
    using assms by (auto simp: end_ok_def word_le_nat_alt)
  obtain j k where jk: "unat kend = 4096 * j" "unat nf = 4096 * k" using assms by (auto simp: end_ok_def dvd_def)
  have d: "unat (kend - KERNBASE) = unat kend - 0xF0000000" using e by (simp add: unat_diff32)
  then have f: "kva_frame kend = j - 983040" using jk e by (simp add: kva_frame_def unat_PGNUM)
  then show "kva_frame kend < first_page nf" "256 \<le> kva_frame kend" "first_page nf \<le> 1024" using jk e by auto
  have "unat (page2pa (kva_frame kend)) = 4096 * (j - 983040)" using f jk e by (subst unat_page2pa) simp_all
  then show p: "kend - KERNBASE = page2pa (kva_frame kend)" using d jk e by (simp add: word_unat_eq_iff)
  show "page2pa (kva_frame kend) + KERNBASE = kend" unfolding p [symmetric] by simp
qed

lemma mem_init_tests:
  assumes fits: "machine_fits cmos (ksym s)" and e: "end_ok (kernel_end s) nf" and set0: "arrays_set cmos s nf t0"
  shows "\<exists>t zs. run (seqP [page_init (sym_end (ksym s)), check_page_free_list_lab3 True, check_page_alloc, check_page_lab3]) t0 = (Ret (), t)
    \<and> steady t = steady t0 \<and> free_pages t zs \<and> set zs = usable cmos nf \<and> (\<forall>f. f \<notin> usable cmos nf \<longrightarrow> pmem t f = pmem t0 f)"
proof -
  let ?np = "total_pages cmos" and ?pd = "kva_frame (kernel_end s)"
  note E = end_okD [OF e]
  have np: "4096 \<le> ?np" "?np \<le> 65536" "128 \<le> base_pages cmos" "base_pages cmos \<le> 160" using fits by (simp_all add: machine_fits_def)
  have t0: "npages t0 = ?np" "nextfree t0 = nf" "npages_basemem t0 = base_pages cmos" "kern_pgdir t0 = ?pd" "fresh_pages t0"
      "pmem t0 = (pmem s)(?pd := (\<lambda>_. 0)(UVPT_index := (kernel_end s - KERNBASE) OR PTE_U OR PTE_P))"
    using set0 by (simp_all add: arrays_set_def)
  let ?xs = "usable_below t0 ?np"
  obtain u where u: "run (page_init (sym_end (ksym s))) t0 = (Ret (), u)" "init_upto t0 ?np u" "steady u = steady t0"
    using page_init_run [OF t0(5), of "sym_end (ksym s)"] page_init_steady [of t0 "sym_end (ksym s)"] E(4,5) t0 np by auto
  have fu: "free_pages u ?xs" "pmem u = pmem t0" using u(2) by (simp_all add: init_upto_def)
  note us = usable_pages [OF E(1-3) np(2) t0(3,2) np(4)]
  have set: "set ?xs = usable cmos nf" using us(1) by (simp add: usable_def)
  have len: "3072 \<le> length ?xs" using us(3) np by simp
  have mu: "machine_ok u" "nextfree u = nf" "kern_pgdir u = ?pd" "npages u = ?np"
    using steady_sel [OF u(3)] t0 np by (simp_all add: machine_ok_def)
  have pd: "?pd \<notin> usable cmos nf" "?pd < ?np" using E(6-8) np by (auto simp: usable_def)
  have "1 \<in> set ?xs" "1024 \<in> set ?xs" unfolding us(1) using np E(8) by simp_all
  then have "\<exists>i \<in> set ?xs. i < 160" "\<exists>i \<in> set ?xs. 256 \<le> i"
    by (intro bexI [of _ 1] bexI [of _ 1024]; simp)+
  then have sound: "sound_lab3 nf ?xs" by (intro sound_pages [OF E(1-3) np(2,4)]) (simp_all add: us(1))
  have nz: "nextfree u \<noteq> 0" "sound_lab3 (nextfree u) ?xs" using mu(2) E(5) sound by simp_all
  obtain v ys where v: "run (check_page_free_list_lab3 True) u = (Ret (), v)" "retested u ?xs v ys"
    using check_page_free_list_lab3_run [OF fu(1) mu(1) nz] by blast
  have V: "free_pages v ys" "set ys = usable cmos nf" "steady v = steady u" using v(2) set by (simp_all add: retested_def)
  have ly: "3 \<le> length ys" using len V(2) set distinct_card [OF free_pages_distinct [OF V(1)]] distinct_card [OF us(2)] by simp
  have mv: "machine_ok v" "?pd < npages v" "?pd \<notin> set ys" "kern_pgdir v = ?pd" using steady_sel [OF V(3)] mu pd V(2) by simp_all
  obtain w zs where w: "run check_page_alloc v = (Ret (), w)" "retested v ys w zs"
    using check_page_alloc_run [OF V(1) mv(1-3) ly] by blast
  have W: "free_pages w zs" "set zs = usable cmos nf" "steady w = steady v" using w(2) V(2) by (simp_all add: retested_def)
  have lz: "3 \<le> length zs" using ly W(2) V(2) distinct_card [OF free_pages_distinct [OF V(1)]] distinct_card [OF free_pages_distinct [OF W(1)]] by simp
  have mw: "machine_ok w" "kern_pgdir w < npages w" "kern_pgdir w \<notin> set zs" "kern_pgdir w = ?pd"
    using steady_sel [OF W(3)] mv V(2) W(2) by simp_all
  have memw: "pmem w f = pmem t0 f" if "f \<notin> usable cmos nf" for f
    using w(2) v(2) fu(2) that V(2) set by (simp add: retested_def)
  have slots: "pmem w (kern_pgdir w) 0 = 0" "pmem w (kern_pgdir w) 1 = 0"
    using memw [OF pd(1)] mw(4) by (simp_all add: t0(6))
  obtain x as where x: "run check_page_lab3 w = (Ret (), x)" "retested w zs x as"
    using check_page_lab3_run [OF W(1) mw(1-3) lz slots] by blast
  have "run (seqP [page_init (sym_end (ksym s)), check_page_free_list_lab3 True, check_page_alloc, check_page_lab3]) t0 = (Ret (), x)"
    using u(1) v(1) w(1) x(1) by (simp add: prog_simps)
  moreover have "pmem x f = pmem t0 f" if "f \<notin> usable cmos nf" for f
    using x(2) memw [OF that] that W(2) by (simp add: retested_def)
  ultimately show ?thesis using x(2) W u(3) V by (auto simp: retested_def)
qed

end
