(* ===== verification/Lab3Kernel.thy ===== *)
theory Lab3Kernel
  imports Lab3Boot AddrSpace
begin

text \<open>
  The kernel's address space in \<^verbatim>\<open>project3\<close> and the rest of \<open>mem_init\<close>: the four calls of
  \<open>boot_map_region\<close> build exactly the map of \<^verbatim>\<open>inc/memlayout.h\<close>, \<open>check_kern_pgdir\<close> and the self
  tests on the new page directory pass, and \<open>mem_init\<close> returns.
\<close>

section \<open>Regions by page number\<close>

lemma region_view:
  assumes m: "region_mapped s pd va pa perm n t" and b: "unat (PGNUM va) = b" "b + n \<le> 1048576" and v: "unat (PDX va') \<noteq> UVPT_index"
  shows "entry t pd va' = (if b \<le> unat (PGNUM va') \<and> unat (PGNUM va') < b + n
    then region_entry pa perm (unat (PGNUM va') - b) else entry s pd va')"
proof -
  have step: "PGNUM va' = PGNUM (va + of_nat i * PGSIZE) \<longleftrightarrow> unat (PGNUM va') = b + i" if "i < n" for i
    using that b by (simp add: word_unat_eq_iff PGNUM_step)
  show ?thesis
  proof (cases "b \<le> unat (PGNUM va') \<and> unat (PGNUM va') < b + n")
    case True
    then have i: "unat (PGNUM va') - b < n" "unat (PGNUM va') = b + (unat (PGNUM va') - b)" by auto
    then have "PGNUM va' = PGNUM (va + of_nat (unat (PGNUM va') - b) * PGSIZE)" using step by blast
    then show ?thesis using m i(1) v True unfolding region_mapped_def by auto
  next
    case False
    then have "\<forall>i < n. PGNUM va' \<noteq> PGNUM (va + of_nat i * PGSIZE)" using step by auto
    then show ?thesis using m v False unfolding region_mapped_def by auto
  qed
qed

lemma region_slot:
  assumes "unat (PGNUM va) = b" "b + n \<le> 1048576" "i < n"
  shows "unat (PDX (va + of_nat i * PGSIZE)) = (b + i) div 1024"
  using assms by (simp add: PDX_PGNUM PGNUM_step)

lemma region_slots:
  assumes "unat (PGNUM va) = b" "b + n \<le> 1048576"
  shows "(\<lambda>i. unat (PDX (va + of_nat i * PGSIZE))) ` {..<n} = (\<lambda>i. (b + i) div 1024) ` {..<n}"
  using region_slot [OF assms] by (intro image_cong) auto

text \<open>The slots of the four regions.\<close>

lemma one_slot: "0 < n \<Longrightarrow> m * 1024 \<le> b \<Longrightarrow> b + n \<le> m * 1024 + 1024 \<Longrightarrow> (\<lambda>i. (b + i) div 1024) ` {..<n} = {m :: nat}"
proof -
  assume h: "0 < n" "m * 1024 \<le> b" "b + n \<le> m * 1024 + 1024"
  have "(b + i) div 1024 = m" if "i < n" for i
  proof -
    have "m * 1024 \<le> b + i" "b + i < Suc m * 1024" using h that by auto
    then show ?thesis by (simp add: div_nat_eqI mult.commute)
  qed
  then show ?thesis using h(1) by (auto simp: image_iff)
qed

lemma upper_slots: "(\<lambda>i. (983040 + i) div 1024) ` {..<65536} = {960..<1024 :: nat}"
proof (intro equalityI subsetI)
  fix j :: nat assume "j \<in> {960..<1024}"
  then have j: "983040 + (j - 960) * 1024 = j * 1024" "(j - 960) * 1024 < 65536" by auto
  have "(983040 + (j - 960) * 1024) div 1024 = j" unfolding j(1) by simp
  from this [symmetric] show "j \<in> (\<lambda>i. (983040 + i) div 1024) ` {..<65536}" by (rule image_eqI) (use j(2) in simp)
next
  fix j :: nat assume "j \<in> (\<lambda>i. (983040 + i) div 1024) ` {..<65536}"
  then obtain i where i: "j = (983040 + i) div 1024" "i < 65536" by blast
  have "983040 div 1024 \<le> j" "j \<le> (983040 + 65535) div 1024" unfolding i(1) using i(2) by (intro div_le_mono, simp)+
  then show "j \<in> {960..<1024}" by simp
qed

section \<open>The map of \<^verbatim>\<open>inc/memlayout.h\<close>\<close>

text \<open>
  What the page table entry of each address is, apart from those of \<open>UVPT\<close>: the page array and the
  environments, where the kernel has them, for users to read, the kernel stack, and all of physical memory.
\<close>

definition memory_map :: "u32 \<Rightarrow> u32 option \<Rightarrow> u32 \<Rightarrow> u32 \<Rightarrow> u32" where
  "memory_map ppa epa spa va =
     (let g = unat (PGNUM va)
      in if 0xF0000 \<le> g then region_entry 0 PTE_W (g - 0xF0000)
         else if 0xEFFF8 \<le> g then region_entry spa PTE_W (g - 0xEFFF8)
         else if 0xEF000 \<le> g \<and> g < 0xEF400 then region_entry ppa PTE_U (g - 0xEF000)
         else if 0xEEC00 \<le> g \<and> g < 0xEF000
         then (case epa of None \<Rightarrow> 0 | Some e \<Rightarrow> region_entry e (PTE_U OR PTE_P) (g - 0xEEC00))
         else 0)"

definition kernel_space :: "kstate \<Rightarrow> nat \<Rightarrow> u32 \<Rightarrow> u32 option \<Rightarrow> u32 \<Rightarrow> bool" where
  "kernel_space s pd ppa epa spa \<longleftrightarrow>
     (\<forall>va. unat (PDX va) \<noteq> UVPT_index \<longrightarrow> entry s pd va = memory_map ppa epa spa va)"

definition map_envs :: "nat \<Rightarrow> u32 option \<Rightarrow> unit km" where
  "map_envs pd epa = (case epa of None \<Rightarrow> ret () | Some e \<Rightarrow> boot_map_region pd UENVS PTSIZE e (PTE_U OR PTE_P))"

definition map_regions :: "nat \<Rightarrow> u32 \<Rightarrow> u32 option \<Rightarrow> u32 \<Rightarrow> unit km" where
  "map_regions pd ppa epa spa =
     thenP (boot_map_region pd UPAGES PTSIZE ppa PTE_U) (thenP (map_envs pd epa)
     (seqP [boot_map_region pd (KSTACKTOP - KSTKSIZE) KSTKSIZE spa PTE_W, boot_map_region pd KERNBASE (0 - KERNBASE) 0 PTE_W]))"

abbreviation (input) env_slot :: "u32 option \<Rightarrow> nat set" where
  "env_slot epa \<equiv> (case epa of None \<Rightarrow> {} | Some e \<Rightarrow> {955})"

lemma region_starts:
  "unat (PGNUM UPAGES) = 0xEF000" "unat (PGNUM UENVS) = 0xEEC00" "unat (PGNUM (KSTACKTOP - KSTKSIZE)) = 0xEFFF8"
  "unat (PGNUM KERNBASE) = 0xF0000"
  by (simp_all add: unat_PGNUM)

lemma not_uvpt_slot: "b + i < 957 * 1024 \<or> 958 * 1024 \<le> b + i \<Longrightarrow> (b + i) div 1024 \<noteq> UVPT_index"
  by auto

lemma map_envs_run:
  assumes ok: "pgdir_ok s pd xs" and enough: "missing_tables s pd \<le> length xs" and dir: "directory s pd S"
  shows "\<exists>t ys. run (map_envs pd epa) s = (Ret (), t) \<and> pgdir_ok t pd ys \<and> missing_tables t pd \<le> length ys \<and> grown s pd xs t ys
    \<and> directory t pd (S \<union> env_slot epa) \<and> (\<forall>va. unat (PDX va) \<noteq> UVPT_index \<longrightarrow> entry t pd va
      = (case epa of Some e \<Rightarrow> if 0xEEC00 \<le> unat (PGNUM va) \<and> unat (PGNUM va) < 0xEF000
            then region_entry e (PTE_U OR PTE_P) (unat (PGNUM va) - 0xEEC00) else entry s pd va
         | None \<Rightarrow> entry s pd va))"
proof (cases epa)
  case None
  have "grown s pd xs s xs" by (simp add: grown_def)
  then show ?thesis using None ok enough dir by (intro exI [of _ s] exI [of _ xs]) (simp add: map_envs_def prog_simps)
next
  case (Some e)
  have v: "\<forall>i < 1024. unat (PDX (UENVS + of_nat i * PGSIZE)) \<noteq> UVPT_index"
    using region_slot [OF region_starts(2), of 1024] not_uvpt_slot by simp
  obtain t ys where t: "run (boot_map_region pd UENVS PTSIZE e (PTE_U OR PTE_P)) s = (Ret (), t)"
      "region_done s xs S pd UENVS e (PTE_U OR PTE_P) 1024 t ys"
    using boot_map_region_done [OF ok enough dir v, of PTSIZE e "PTE_U OR PTE_P"] by auto
  then have d: "pgdir_ok t pd ys" "missing_tables t pd \<le> length ys" "grown s pd xs t ys"
      "region_mapped s pd UENVS e (PTE_U OR PTE_P) 1024 t" "directory t pd (S \<union> {955})"
    using region_slots [OF region_starts(2), of 1024] one_slot [of 1024 955 "0xEEC00"] by (simp_all add: region_done_def)
  show ?thesis
    using t(1) d(1-3,5) region_view [OF d(4) region_starts(2)] Some
    by (intro exI [of _ t] exI [of _ ys]) (simp add: map_envs_def)
qed

lemma map_regions_run:
  assumes ok: "pgdir_ok s pd xs" and enough: "missing_tables s pd \<le> length xs" and dir: "directory s pd {}"
  shows "\<exists>t ys. run (map_regions pd ppa epa spa) s = (Ret (), t) \<and> pgdir_ok t pd ys \<and> grown s pd xs t ys \<and>
    kernel_space t pd ppa epa spa \<and> directory t pd (kernel_slots (env_slot epa))"
proof -
  note b = region_starts
  have v1: "\<forall>i < 1024. unat (PDX (UPAGES + of_nat i * PGSIZE)) \<noteq> UVPT_index"
    using region_slot [OF b(1), of 1024] not_uvpt_slot by simp
  have v3: "\<forall>i < 8. unat (PDX ((KSTACKTOP - KSTKSIZE) + of_nat i * PGSIZE)) \<noteq> UVPT_index"
    using region_slot [OF b(3), of 8] not_uvpt_slot by simp
  have v4: "\<forall>i < 65536. unat (PDX (KERNBASE + of_nat i * PGSIZE)) \<noteq> UVPT_index"
    using region_slot [OF b(4), of 65536] not_uvpt_slot by simp
  obtain t1 y1 where t1: "run (boot_map_region pd UPAGES PTSIZE ppa PTE_U) s = (Ret (), t1)"
      "region_done s xs {} pd UPAGES ppa PTE_U 1024 t1 y1"
    using boot_map_region_done [OF ok enough dir v1, of PTSIZE ppa PTE_U] by auto
  then have d1: "pgdir_ok t1 pd y1" "missing_tables t1 pd \<le> length y1" "grown s pd xs t1 y1"
      "region_mapped s pd UPAGES ppa PTE_U 1024 t1" "directory t1 pd {956}"
    using region_slots [OF b(1), of 1024] one_slot [of 1024 956 "0xEF000"] by (simp_all add: region_done_def)
  obtain t2 y2 where t2: "run (map_envs pd epa) t1 = (Ret (), t2)"
      "pgdir_ok t2 pd y2" "missing_tables t2 pd \<le> length y2" "grown t1 pd y1 t2 y2" "directory t2 pd ({956} \<union> env_slot epa)"
    and e2: "\<And>va. unat (PDX va) \<noteq> UVPT_index \<Longrightarrow> entry t2 pd va
      = (case epa of Some e \<Rightarrow> if 0xEEC00 \<le> unat (PGNUM va) \<and> unat (PGNUM va) < 0xEF000
            then region_entry e (PTE_U OR PTE_P) (unat (PGNUM va) - 0xEEC00) else entry t1 pd va
         | None \<Rightarrow> entry t1 pd va)"
    using map_envs_run [OF d1(1,2,5), of epa] by blast
  obtain t3 y3 where t3: "run (boot_map_region pd (KSTACKTOP - KSTKSIZE) KSTKSIZE spa PTE_W) t2 = (Ret (), t3)"
      "region_done t2 y2 ({956} \<union> env_slot epa) pd (KSTACKTOP - KSTKSIZE) spa PTE_W 8 t3 y3"
    using boot_map_region_done [OF t2(2,3,5) v3, of KSTKSIZE spa PTE_W] by auto
  then have d3: "pgdir_ok t3 pd y3" "missing_tables t3 pd \<le> length y3" "grown t2 pd y2 t3 y3"
      "region_mapped t2 pd (KSTACKTOP - KSTKSIZE) spa PTE_W 8 t3" "directory t3 pd ({956} \<union> env_slot epa \<union> {959})"
    using region_slots [OF b(3), of 8] one_slot [of 8 959 "0xEFFF8"] by (simp_all add: region_done_def insert_commute)
  obtain t4 y4 where t4: "run (boot_map_region pd KERNBASE (0 - KERNBASE) 0 PTE_W) t3 = (Ret (), t4)"
      "region_done t3 y3 ({956} \<union> env_slot epa \<union> {959}) pd KERNBASE 0 PTE_W 65536 t4 y4"
    using boot_map_region_done [OF d3(1,2,5) v4, of "0 - KERNBASE" 0 PTE_W] by auto
  have slots: "{956} \<union> env_slot epa \<union> {959} \<union> {960..<1024} = kernel_slots (env_slot epa)" by auto
  have d4: "pgdir_ok t4 pd y4" "grown t3 pd y3 t4 y4"
      "region_mapped t3 pd KERNBASE 0 PTE_W 65536 t4" "directory t4 pd (kernel_slots (env_slot epa))"
    using t4(2) region_slots [OF b(4), of 65536] upper_slots unfolding region_done_def slots [symmetric] by simp_all
  have "kernel_space t4 pd ppa epa spa"
    unfolding kernel_space_def
  proof (intro allI impI)
    fix va :: u32 assume v: "unat (PDX va) \<noteq> UVPT_index"
    have z: "entry s pd va = 0" using directoryD(2) [OF dir unat_PDX_less v] by (simp add: entry_def pde_at_def)
    have lt: "unat (PGNUM va) < 1048576" using unat_PGNUM_less [of va] by simp
    note V = region_view [OF d4(3) b(4) _ v] region_view [OF d3(4) b(3) _ v] e2 [OF v] region_view [OF d1(4) b(1) _ v]
    show "entry t4 pd va = memory_map ppa epa spa va"
      unfolding memory_map_def Let_def using V lt z by (auto split: option.split)
  qed
  moreover have "grown s pd xs t4 y4" using d1(3) t2(4) d3(3) d4(2) by (blast intro: grown_trans)
  moreover have "run (map_regions pd ppa epa spa) s = (Ret (), t4)"
    using t1(1) t2(1) t3(1) t4(1) unfolding map_regions_def by (simp add: prog_simps)
  ultimately show ?thesis using d4 by blast
qed


section \<open>The self test of the new address space\<close>

lemma memory_map_at:
  "i < 1024 \<Longrightarrow> memory_map ppa epa spa (UPAGES + of_nat i * PGSIZE) = region_entry ppa PTE_U i"
  "i < 1024 \<Longrightarrow> memory_map ppa (Some e) spa (UENVS + of_nat i * PGSIZE) = region_entry e (PTE_U OR PTE_P) i"
  "i < 8 \<Longrightarrow> memory_map ppa epa spa ((KSTACKTOP - KSTKSIZE) + of_nat i * PGSIZE) = region_entry spa PTE_W i"
  "i < 65536 \<Longrightarrow> memory_map ppa epa spa (KERNBASE + of_nat i * PGSIZE) = region_entry 0 PTE_W i"
  "memory_map ppa epa spa (KSTACKTOP - PTSIZE) = 0"
  by (simp_all add: memory_map_def Let_def PGNUM_step) (simp_all add: unat_PGNUM)

lemma kernel_space_at:
  assumes sp: "kernel_space s pd ppa epa spa"
  shows "i < 1024 \<Longrightarrow> entry s pd (UPAGES + of_nat i * PGSIZE) = region_entry ppa PTE_U i"
    "i < 1024 \<Longrightarrow> epa = Some e \<Longrightarrow> entry s pd (UENVS + of_nat i * PGSIZE) = region_entry e (PTE_U OR PTE_P) i"
    "i < 8 \<Longrightarrow> entry s pd ((KSTACKTOP - KSTKSIZE) + of_nat i * PGSIZE) = region_entry spa PTE_W i"
    "i < 65536 \<Longrightarrow> entry s pd (KERNBASE + of_nat i * PGSIZE) = region_entry 0 PTE_W i"
    "entry s pd (KSTACKTOP - PTSIZE) = 0"
proof -
  note b = region_starts
  have at: "entry s pd va = memory_map ppa epa spa va" if "unat (PDX va) \<noteq> UVPT_index" for va
    using sp that by (simp add: kernel_space_def)
  show "i < 1024 \<Longrightarrow> entry s pd (UPAGES + of_nat i * PGSIZE) = region_entry ppa PTE_U i"
    by (subst at) (use region_slot [OF b(1), of 1024 i] not_uvpt_slot memory_map_at(1) in simp_all)
  show "i < 1024 \<Longrightarrow> epa = Some e \<Longrightarrow> entry s pd (UENVS + of_nat i * PGSIZE) = region_entry e (PTE_U OR PTE_P) i"
    by (subst at) (use region_slot [OF b(2), of 1024 i] not_uvpt_slot memory_map_at(2) in simp_all)
  show "i < 8 \<Longrightarrow> entry s pd ((KSTACKTOP - KSTKSIZE) + of_nat i * PGSIZE) = region_entry spa PTE_W i"
    by (subst at) (use region_slot [OF b(3), of 8 i] not_uvpt_slot memory_map_at(3) in simp_all)
  show "i < 65536 \<Longrightarrow> entry s pd (KERNBASE + of_nat i * PGSIZE) = region_entry 0 PTE_W i"
    by (subst at) (use region_slot [OF b(4), of 65536 i] not_uvpt_slot memory_map_at(4) in simp_all)
  show "entry s pd (KSTACKTOP - PTSIZE) = 0"
    by (subst at) (use memory_map_at(5) in \<open>simp_all add: PDX_def\<close>)
qed

lemma aligned_iff: "PTE_ADDR w = w \<longleftrightarrow> 4096 dvd unat w"
proof -
  have "PTE_ADDR w = w \<longleftrightarrow> take_bit 12 w = 0"
    using bits_ident [of 12 w] unfolding PTE_ADDR_alt by (metis add.right_neutral add_left_cancel)
  also have "\<dots> \<longleftrightarrow> unat (take_bit 12 w) = 0" by (simp add: unat_eq_zero)
  finally show ?thesis by (simp add: take_bit_eq_mod unat_mod dvd_eq_mod_eq_0)
qed

lemma aligned_PADDR:
  assumes "4096 dvd unat w" and "KERNBASE \<le> w"
  shows "PTE_ADDR (w - KERNBASE) = w - KERNBASE"
proof -
  have "0xF0000000 \<le> unat w" using assms(2) by (simp add: word_le_nat_alt)
  then have "unat (w - KERNBASE) = unat w - 0xF0000000" by (simp add: unat_diff32)
  then show ?thesis unfolding aligned_iff using assms(1) by (simp add: dvd_diff_nat)
qed

text \<open>The addresses of the arrays and of the stack, as the tests use them.\<close>

definition arrays_aligned :: "kstate \<Rightarrow> bool" where
  "arrays_aligned s \<longleftrightarrow>
     4096 dvd unat (pages_kva s) \<and> KERNBASE \<le> pages_kva s \<and>
     4096 dvd unat (sym_bootstack (ksym s)) \<and> KERNBASE \<le> sym_bootstack (ksym s)"

lemma check_common_run:
  assumes ok: "pgdir_ok s pd xs" and al: "arrays_aligned s" and np: "npages s \<le> 65536"
    and sp: "kernel_space s pd (pages_kva s - KERNBASE) epa (sym_bootstack (ksym s) - KERNBASE)"
  shows "run (check_region pd UPAGES (PADDR (pages_kva s)) (unat (ROUNDUP (of_nat (npages s) * 8) 4096 div 4096 :: u32))) s = (Ret (), s)"
    "run (check_region pd KERNBASE (ret 0) (unat (of_nat (npages s) * 4096 div 4096 :: u32))) s = (Ret (), s)"
    "run (check_stack_lab3 pd) s = (Ret (), s)"
proof -
  note K = kernel_space_at [OF sp]
  have kva: "4096 dvd unat (pages_kva s)" "KERNBASE \<le> pages_kva s"
      "4096 dvd unat (sym_bootstack (ksym s))" "KERNBASE \<le> sym_bootstack (ksym s)"
    using al by (simp_all add: arrays_aligned_def)
  have R: "run (PADDR w) s = (Ret (w - KERNBASE), s)" if "KERNBASE \<le> w" for w
    using that by (simp add: PADDR_def prog_simps)
  have u: "unat (of_nat (npages s) * 4096 :: u32) = 4096 * npages s" "unat (of_nat (npages s) * 8 :: u32) = 8 * npages s"
    using np by (simp_all add: unat_word_ariths unat_of_nat32)
  have n1: "unat (ROUNDUP (of_nat (npages s) * 8) 4096 div 4096 :: u32) \<le> 1024"
  proof -
    have "unat (ROUNDUP (of_nat (npages s) * 8) 4096 :: u32) = 4096 * ((8 * npages s + 4095) div 4096)"
      using ROUNDUP_page [of "of_nat (npages s) * 8"] u np by simp
    moreover have "(8 * npages s + 4095) div 4096 \<le> (8 * 65536 + 4095) div 4096" using np by (intro div_le_mono) simp
    ultimately show ?thesis by (simp add: unat_div)
  qed
  have n3: "unat (of_nat (npages s) * 4096 div 4096 :: u32) = npages s" using u by (simp add: unat_div)
  show "run (check_region pd UPAGES (PADDR (pages_kva s)) (unat (ROUNDUP (of_nat (npages s) * 8) 4096 div 4096 :: u32))) s = (Ret (), s)"
    by (rule check_region_run [OF ok R [OF kva(2)] aligned_PADDR [OF kva(1,2)], of PTE_U]) (use n1 in \<open>auto intro: K(1)\<close>)
  show "run (check_region pd KERNBASE (ret 0) (unat (of_nat (npages s) * 4096 div 4096 :: u32))) s = (Ret (), s)"
    by (rule check_region_run [OF ok, of _ 0 PTE_W]) (use n3 np K(4) in \<open>auto simp: prog_simps PTE_ADDR_def\<close>)
  have c4: "run (check_region pd (KSTACKTOP - KSTKSIZE) (PADDR (sym_bootstack (ksym s))) 8) s = (Ret (), s)"
    by (rule check_region_run [OF ok R [OF kva(4)] aligned_PADDR [OF kva(3,4)], of PTE_W]) (use K(3) in auto)
  have c5: "run (expect_pa pd (KSTACKTOP - PTSIZE) (NOT 0)) s = (Ret (), s)"
    by (rule expect_pa_run [OF ok]) (use K(5) in simp)
  show "run (check_stack_lab3 pd) s = (Ret (), s)"
    using c4 c5 unfolding check_stack_lab3_def by (simp add: prog_simps)
qed

lemma check_kern_pgdir_run:
  assumes ok: "pgdir_ok s pd xs" and dir: "directory s pd (kernel_slots {955})" and uvpt: "present (pmem s pd UVPT_index)"
    and sp: "kernel_space s pd (pages_kva s - KERNBASE) (Some (envs_kva s - KERNBASE)) (sym_bootstack (ksym s) - KERNBASE)"
    and sel: "kern_pgdir s = pd" "npages s \<le> 65536"
    and al: "arrays_aligned s" "4096 dvd unat (envs_kva s)" "KERNBASE \<le> envs_kva s"
  shows "run check_kern_pgdir_lab3 s = (Ret (), s\<lparr>console := console s @ render ''check_kern_pgdir() succeeded!\<newline>'' []\<rparr>)"
proof -
  note C = check_common_run [OF ok al(1) sel(2) sp]
  have n2: "unat (ROUNDUP (1024 * 96) 4096 div 4096 :: u32) \<le> 1024" by (simp add: ROUNDUP_def ROUNDDOWN_def)
  have "run (PADDR (envs_kva s)) s = (Ret (envs_kva s - KERNBASE), s)" using al(3) by (simp add: PADDR_def prog_simps)
  then have c2: "run (check_region pd UENVS (PADDR (envs_kva s)) (unat (ROUNDUP (of_nat NENV * 96) 4096 div 4096 :: u32))) s = (Ret (), s)"
    by (rule check_region_run [OF ok _ aligned_PADDR [OF al(2,3)], of _ "PTE_U OR PTE_P"]) (use n2 kernel_space_at(2) [OF sp _ refl] in \<open>auto\<close>)
  show ?thesis
    using C c2 check_pdes_run [OF dir uvpt] unfolding check_kern_pgdir_lab3_def
    by (simp add: prog_simps sel(1) run_cprintf formats)
qed


section \<open>\<open>mem_init\<close> returns\<close>

text \<open>
  The machine after \<open>mem_init\<close>, against the state \<open>t0\<close> in which the self tests begin: \<open>xs\<close> are the free
  pages. The pages that were not usable and are not the page directory hold what they held in \<open>s\<close>.
\<close>

definition mem_done :: "(u32 \<Rightarrow> u8) \<Rightarrow> kstate \<Rightarrow> u32 option \<Rightarrow> kstate \<Rightarrow> kstate \<Rightarrow> nat list \<Rightarrow> bool" where
  "mem_done cmos s epa t0 t xs \<longleftrightarrow>
     (\<exists>c. steady t = (steady t0)\<lparr>cr3 := page2pa (kern_pgdir t0), cr0 := c\<rparr>) \<and>
     pgdir_ok t (kern_pgdir t0) xs \<and> pmem t (kern_pgdir t0) UVPT_index = page2pa (kern_pgdir t0) OR PTE_U OR PTE_P \<and>
     directory t (kern_pgdir t0) (kernel_slots (env_slot epa)) \<and>
     kernel_space t (kern_pgdir t0) (pages_kva t0 - KERNBASE) epa (sym_bootstack (ksym s) - KERNBASE) \<and>
     usable cmos (nextfree t0) = set xs \<union> tables t (kern_pgdir t0) \<and>
     (\<forall>f. f \<notin> usable cmos (nextfree t0) \<longrightarrow> f \<noteq> kern_pgdir t0 \<longrightarrow> pmem t f = pmem s f)"

lemma few_tables:
  assumes "directory s pd S" and "S \<subseteq> {..<1024}" and "card S = n"
  shows "finite (tables s pd)" "card (tables s pd) \<le> n"
proof -
  have fin: "finite S" using assms(2) finite_subset by blast
  have "i \<in> S" if "i \<in> table_slots s pd" for i
    using directoryD(2) [OF assms(1), of i] that by (cases "i \<in> S") (simp_all add: table_slots_def)
  then have sub: "table_slots s pd \<subseteq> S" by blast
  show "finite (tables s pd)" unfolding tables_def using finite_subset [OF sub fin] by simp
  have "card (tables s pd) \<le> card (table_slots s pd)" unfolding tables_def using finite_subset [OF sub fin] by (rule card_image_le)
  also have "\<dots> \<le> card S" by (rule card_mono [OF fin sub])
  finally show "card (tables s pd) \<le> n" using assms(3) by simp
qed

lemma ends_free:
  assumes low: "128 \<le> nb" and big: "4096 \<le> n" and nf: "first_page nf \<le> 1024"
    and U: "{i. 0 < i \<and> i < n \<and> (i < nb \<or> first_page nf \<le> i)} = X \<union> T" and T: "finite T" "card T \<le> 67"
  shows "\<exists>i \<in> X. i < (160 :: nat)" "\<exists>i \<in> X. 256 \<le> i"
proof -
  have pick: "\<exists>i \<in> X. i \<in> A" if A: "A \<subseteq> X \<union> T" "finite A" "67 < card A" for A :: "nat set"
  proof (rule ccontr)
    assume "\<not> ?thesis"
    then have "A \<subseteq> T" using A(1) by auto
    then have "card A \<le> card T" using T(1) by (intro card_mono)
    then show False using A(3) T(2) by simp
  qed
  have "{1..<128} \<subseteq> X \<union> T" "{1024..<2048} \<subseteq> X \<union> T" using low big nf by (auto simp flip: U)
  from pick [OF this(1)] pick [OF this(2)] obtain i j where "i \<in> X" "i < 128" "j \<in> X" "1024 \<le> j" by auto
  moreover from this have "i < 160" "256 \<le> j" by simp_all
  ultimately show "\<exists>i \<in> X. i < 160" "\<exists>i \<in> X. 256 \<le> i" by blast+
qed

lemma retested_view:
  assumes ok: "pgdir_ok s pd xs" and t: "free_pages t ys" "set ys = set xs" "machine_ok t" "npages t = npages s"
    and mem: "\<And>f. f \<notin> set xs \<Longrightarrow> pmem t f = pmem s f"
  shows "pgdir_ok t pd ys" "tables t pd = tables s pd" "pmem t pd = pmem s pd" "directory t pd S = directory s pd S"
    and "unat (PDX va) \<noteq> UVPT_index \<Longrightarrow> entry t pd va = entry s pd va"
proof -
  show m: "pmem t pd = pmem s pd" using mem pgdir_okD(4) [OF ok] by blast
  then have slots: "table_slots t pd = table_slots s pd" by (simp add: table_slots_def)
  then show tb: "tables t pd = tables s pd" using m by (simp add: tables_def)
  show "directory t pd S = directory s pd S" using m by (simp add: directory_def)
  show "pgdir_ok t pd ys" using ok t m slots tb by (simp add: pgdir_ok_def)
  show "entry t pd va = entry s pd va" if v: "unat (PDX va) \<noteq> UVPT_index"
  proof (cases "present (pde_at s pd va)")
    case True
    then have "frame_of (pde_at s pd va) \<notin> set xs" by (rule pde_frame(2) [OF ok])
    then show ?thesis using mem m by (simp add: entry_def pde_at_def)
  next
    case False
    then show ?thesis using m by (simp add: entry_def pde_at_def)
  qed
qed

abbreviation (input) cr0_protect :: "u32 \<Rightarrow> u32" where
  "cr0_protect c \<equiv> (c OR (CR0_PE OR CR0_PG OR CR0_AM OR CR0_WP OR CR0_NE OR CR0_MP)) AND NOT (CR0_TS OR CR0_EM)"

text \<open>The tests on the new page directory, \<open>c\<close> being the first of them, and the switch to it.\<close>

definition mem_init_tail :: "unit km \<Rightarrow> u32 \<Rightarrow> unit km" where
  "mem_init_tail c kpa = seqP [c, lcr3 kpa, check_page_free_list_lab3 False,
      modify (\<lambda>s. s\<lparr>cr0 := cr0_protect (cr0 s)\<rparr>), check_page_installed_pgdir_lab3]"

lemma mem_init_checks:
  assumes ok: "pgdir_ok s pd xs" and slot: "pmem s pd 0 = 0" and c: "run c s = (Ret (), s\<lparr>console := console s @ out\<rparr>)"
    and sel: "kern_pgdir s = pd" "nextfree s \<noteq> 0" and sound: "sound_lab3 (nextfree s) xs" and len: "3 \<le> length xs"
  shows "\<exists>t ys. run (mem_init_tail c (page2pa pd)) s = (Ret (), t)
    \<and> free_pages t ys \<and> set ys = set xs \<and> (\<forall>f. f \<notin> set xs \<longrightarrow> pmem t f = pmem s f)
    \<and> steady t = (steady s)\<lparr>cr3 := page2pa pd, cr0 := cr0_protect (cr0 s)\<rparr>"
proof -
  note P = pgdir_okD [OF ok]
  define u where "u = s\<lparr>console := console s @ out, cr3 := page2pa pd\<rparr>"
  have u: "free_pages u xs" "machine_ok u" "nextfree u \<noteq> 0" "sound_lab3 (nextfree u) xs"
      "steady u = (steady s)\<lparr>cr3 := page2pa pd\<rparr>" "pmem u = pmem s" "cr0 u = cr0 s" "npages u = npages s" "kern_pgdir u = pd"
    using P(1,2) sel sound by (simp_all add: u_def free_pages_def machine_ok_def steady_def)
  obtain v ys where v: "run (check_page_free_list_lab3 False) u = (Ret (), v)" "retested u xs v ys"
    using check_page_free_list_lab3_run [OF u(1-4)] by blast
  define w where "w = v\<lparr>cr0 := cr0_protect (cr0 s)\<rparr>"
  have V: "free_pages v ys" "set ys = set xs" "steady v = steady u" using v(2) by (simp_all add: retested_def)
  note vs = steady_sel [OF V(3)]
  have cr3: "cr3 u = page2pa pd" "pd < 1048576" using P(3,5) by (simp_all add: u_def)
  have w: "free_pages w ys" "machine_ok w" "kern_pgdir w < npages w" "kern_pgdir w \<notin> set ys" "frame_of (cr3 w) = kern_pgdir w"
      "kern_pgdir w = pd" "pmem w = pmem v"
    using V(1,2) vs(1,2,3) u(2,8,9) P(3,4) cr3 by (simp_all add: w_def free_pages_def machine_ok_def PGNUM_page2pa)
  have "steady w = (steady v)\<lparr>cr0 := cr0_protect (cr0 s)\<rparr>" by (simp add: w_def steady_def)
  then have sw: "steady w = (steady s)\<lparr>cr3 := page2pa pd, cr0 := cr0_protect (cr0 s)\<rparr>" unfolding V(3) u(5) by simp
  have mem: "pmem w f = pmem s f" if "f \<notin> set xs" for f using v(2) that u(6) w(7) by (simp add: retested_def)
  have "length ys = length xs"
    using distinct_card [OF free_pages_distinct [OF V(1)]] distinct_card [OF free_pages_distinct [OF P(1)]] V(2) by simp
  then have len: "3 \<le> length ys" using len by simp
  have slot: "pmem w (kern_pgdir w) 0 = 0" using mem P(4) w(6) slot by simp
  obtain x zs where x: "run check_page_installed_pgdir_lab3 w = (Ret (), x)" "retested w ys x zs"
    using check_page_installed_run [OF w(1-4) len slot w(5)] by blast
  have "run (mem_init_tail c (page2pa pd)) s = (Ret (), x)"
    using c v(1) x(1) vs(4) u(7)
    by (simp add: mem_init_tail_def prog_simps lcr3_def w_def [simplified, symmetric] flip: u_def)
  moreover have "pmem x f = pmem s f" if "f \<notin> set xs" for f using x(2) mem [OF that] that V(2) by (simp add: retested_def)
  ultimately show ?thesis using x(2) V(2) sw by (auto simp: retested_def)
qed


lemma page_start:
  assumes ok: "free_pages s xs" "machine_ok s" "pd < npages s" "pd \<notin> set xs" and len: "1023 \<le> length xs"
    and mem: "pmem s pd = (\<lambda>_. 0)(UVPT_index := page2pa pd OR PTE_U OR PTE_P)"
  shows "pgdir_ok s pd xs" "tables s pd = {}" "missing_tables s pd \<le> length xs" "directory s pd {}"
proof -
  have slots: "table_slots s pd = {}" by (auto simp: table_slots_def mem)
  then show tb: "tables s pd = {}" by (simp add: tables_def)
  have "{i. i < 1024 \<and> i \<noteq> UVPT_index} = {..<1024} - {UVPT_index}" by auto
  then show "missing_tables s pd \<le> length xs" using len by (simp add: missing_tables_def slots)
  show "directory s pd {}" by (simp add: directory_def mem)
  have "pd < 1048576" using ok(2,3) by (simp add: machine_ok_def)
  then have "frame_of (page2pa pd OR PTE_U OR PTE_P) = pd" using frame_of_entry [of pd "PTE_U OR PTE_P"] by (simp add: or.assoc)
  then show "pgdir_ok s pd xs" using ok by (simp add: pgdir_ok_def slots tb mem)
qed

lemma thenP_laws: "thenP (thenP a b) c = thenP a (thenP b c)" "thenP (ret v) c = c" "bindP (ret v) f = f v"
  by (auto simp: thenP_def bindP_def ret_def fun_eq_iff split: prod.splits outcome.splits)

lemma PADDR_kernel: "KERNBASE \<le> k \<Longrightarrow> PADDR k = ret (k - KERNBASE)"
  by (auto simp: PADDR_def)

text \<open>From the first self test to the end: \<open>c\<close> stands for \<open>check_kern_pgdir\<close>.\<close>

lemma mem_init_finish:
  assumes fits: "machine_fits cmos (ksym s)" and e: "end_ok (kernel_end s) nf" and set0: "arrays_set cmos s nf t0" and al: "arrays_aligned t0"
    and c: "\<And>u ys. steady u = steady t0 \<Longrightarrow> pgdir_ok u (kern_pgdir t0) ys \<Longrightarrow> directory u (kern_pgdir t0) (kernel_slots (env_slot epa)) \<Longrightarrow>
      present (pmem u (kern_pgdir t0) UVPT_index) \<Longrightarrow>
      kernel_space u (kern_pgdir t0) (pages_kva t0 - KERNBASE) epa (sym_bootstack (ksym s) - KERNBASE) \<Longrightarrow>
      run c u = (Ret (), u\<lparr>console := console u @ out\<rparr>)"
  shows "\<exists>t xs. run (thenP (seqP [page_init (sym_end (ksym s)), check_page_free_list_lab3 True, check_page_alloc, check_page_lab3])
      (thenP (map_regions (kern_pgdir t0) (pages_kva t0 - KERNBASE) epa (sym_bootstack (ksym s) - KERNBASE))
        (mem_init_tail c (page2pa (kern_pgdir t0))))) t0 = (Ret (), t) \<and> mem_done cmos s epa t0 t xs"
proof -
  let ?pd = "kva_frame (kernel_end s)" and ?np = "total_pages cmos"
  let ?ppa = "pages_kva t0 - KERNBASE" and ?spa = "sym_bootstack (ksym s) - KERNBASE"
  note E = end_okD [OF e]
  have np: "4096 \<le> ?np" "?np \<le> 65536" "128 \<le> base_pages cmos" "base_pages cmos \<le> 160" using fits by (simp_all add: machine_fits_def)
  have t0: "kern_pgdir t0 = ?pd" "npages t0 = ?np" "nextfree t0 = nf" "ksym t0 = ksym s"
      "pmem t0 = (pmem s)(?pd := (\<lambda>_. 0)(UVPT_index := (kernel_end s - KERNBASE) OR PTE_U OR PTE_P))"
    using set0 by (simp_all add: arrays_set_def)
  obtain t zs where t: "run (seqP [page_init (sym_end (ksym s)), check_page_free_list_lab3 True, check_page_alloc, check_page_lab3]) t0 = (Ret (), t)"
    "steady t = steady t0" "free_pages t zs" "set zs = usable cmos nf" "\<And>f. f \<notin> usable cmos nf \<Longrightarrow> pmem t f = pmem t0 f"
    using mem_init_tests [OF fits e set0] by blast
  note ts = steady_sel [OF t(2)]
  have sel: "machine_ok t" "?pd < npages t" "?pd \<notin> set zs" "npages t = ?np"
    using ts np E(6,8) t(4) E(7) by (auto simp: t0 machine_ok_def usable_def)
  have mpd: "pmem t ?pd = (\<lambda>_. 0)(UVPT_index := page2pa ?pd OR PTE_U OR PTE_P)"
    using t(5) [of ?pd] sel(3) t(4) E(9) by (simp add: t0)
  have "{1024..<?np} \<subseteq> set zs" unfolding t(4) using E(8) by (auto simp: usable_def)
  then have "card {1024..<?np} \<le> card (set zs)" by (intro card_mono) simp_all
  then have len: "1023 \<le> length zs" using distinct_card [OF free_pages_distinct [OF t(3)]] np(1) by simp
  note P = page_start [OF t(3) sel(1-3) len mpd]
  obtain u ys where u: "run (map_regions ?pd ?ppa epa ?spa) t = (Ret (), u)" "pgdir_ok u ?pd ys" "grown t ?pd zs u ys"
    "kernel_space u ?pd ?ppa epa ?spa" "directory u ?pd (kernel_slots (env_slot epa))"
    using map_regions_run [OF P(1,3,4)] by blast
  have us: "steady u = steady t0" "pmem u ?pd UVPT_index = page2pa ?pd OR PTE_U OR PTE_P"
    and U: "set ys \<subseteq> set zs" "set zs = set ys \<union> tables u ?pd" "\<And>f. f \<noteq> ?pd \<Longrightarrow> f \<notin> set zs \<Longrightarrow> pmem u f = pmem t f"
    using u(3) mpd P(2) t(2) by (auto simp: grown_def)
  note vs = steady_sel [OF us(1)]
  have sub: "kernel_slots (env_slot epa) \<subseteq> {..<1024}" and "card (kernel_slots (env_slot epa)) \<le> 67"
    by (cases epa; auto)+
  then have tb: "finite (tables u ?pd)" "card (tables u ?pd) \<le> 67"
    using few_tables [OF u(5) sub refl] by auto
  have ex: "\<exists>i \<in> set ys. i < 160" "\<exists>i \<in> set ys. 256 \<le> i"
    by (rule ends_free [OF np(3,1) E(8) _ tb]; use U(2) t(4) in \<open>simp add: usable_def\<close>)+
  have sub: "set ys \<subseteq> {i. 0 < i \<and> i < ?np \<and> (i < base_pages cmos \<or> first_page nf \<le> i)}"
    using U(1) t(4) by (simp add: usable_def)
  have sound: "sound_lab3 nf ys" by (rule sound_pages [OF E(1-3) np(2,4) sub ex])
  have fin: "card (set zs) \<le> card (set ys) + card (tables u ?pd)" unfolding U(2) by (rule card_Un_le)
  have len: "3 \<le> length ys"
    using fin tb(2) len distinct_card [OF free_pages_distinct [OF t(3)]] distinct_card [OF free_pages_distinct [OF pgdir_okD(1) [OF u(2)]]]
    by simp
  have pre: "present (pmem u ?pd UVPT_index)" unfolding us(2) by (rule present_or_P(1))
  have slot: "pmem u ?pd 0 = 0" using directoryD(2) [OF u(5), of 0] by (simp split: option.split)
  have su: "kern_pgdir u = ?pd" "nextfree u = nf" using vs t0 by simp_all
  have cu: "run c u = (Ret (), u\<lparr>console := console u @ out\<rparr>)" using c [OF us(1), unfolded t0(1), OF u(2,5) pre u(4)] .
  obtain v xs where v: "run (mem_init_tail c (page2pa ?pd)) u = (Ret (), v)"
    "free_pages v xs" "set xs = set ys" "\<And>f. f \<notin> set ys \<Longrightarrow> pmem v f = pmem u f"
    "steady v = (steady u)\<lparr>cr3 := page2pa ?pd, cr0 := cr0_protect (cr0 u)\<rparr>"
    using mem_init_checks [OF u(2) slot cu su(1), unfolded su(2), OF E(5) sound len] by blast
  have vn: "npages v = npages u" using arg_cong [OF v(5), of npages] by (simp add: steady_def)
  have mv: "machine_ok v" using vn vs(1) t0(2) np by (simp add: machine_ok_def)
  note R = retested_view [OF u(2) v(2,3) mv vn v(4)]
  have "kernel_space v ?pd ?ppa epa ?spa" using u(4) R(5) by (simp add: kernel_space_def)
  moreover have "pmem v f = pmem s f" if "f \<notin> usable cmos nf" "f \<noteq> ?pd" for f
  proof -
    have "f \<notin> set zs" "f \<notin> set ys" using that(1) t(4) U(1) by auto
    then show ?thesis using v(4) U(3) [OF that(2)] t(5) [OF that(1)] that(2) by (simp add: t0)
  qed
  moreover have "usable cmos nf = set xs \<union> tables v ?pd" using U(2) t(4) v(3) R(2) by simp
  ultimately have "mem_done cmos s epa t0 v xs"
    unfolding mem_done_def t0 using R(1,3,4) u(5) us v(5) by auto
  moreover have "run (thenP (seqP [page_init (sym_end (ksym s)), check_page_free_list_lab3 True, check_page_alloc, check_page_lab3])
      (thenP (map_regions ?pd ?ppa epa ?spa) (mem_init_tail c (page2pa ?pd)))) t0 = (Ret (), v)"
    unfolding run_thenP_Ret [OF t(1)] run_thenP_Ret [OF u(1)] by (rule v(1))
  ultimately show ?thesis unfolding t0(1) by blast
qed

section \<open>\<open>mem_init\<close> of \<^verbatim>\<open>project3\<close>\<close>

lemma mem_init_rest_eq:
  assumes "KERNBASE \<le> pk" "KERNBASE \<le> ek" "KERNBASE \<le> sym_bootstack k"
  shows "mem_init_rest k kpg kpa pk ek =
    thenP (seqP [page_init (sym_end k), check_page_free_list_lab3 True, check_page_alloc, check_page_lab3])
    (thenP (map_regions (kva_frame kpg) (pk - KERNBASE) (Some (ek - KERNBASE)) (sym_bootstack k - KERNBASE))
     (mem_init_tail check_kern_pgdir_lab3 kpa))"
  unfolding mem_init_rest_def map_regions_def map_envs_def mem_init_tail_def option.case
    PADDR_kernel [OF assms(1)] PADDR_kernel [OF assms(2)] PADDR_kernel [OF assms(3)]
  by (simp only: seqP.simps thenP_laws)

definition mem_ready :: "(u32 \<Rightarrow> u8) \<Rightarrow> kstate \<Rightarrow> kstate \<Rightarrow> nat list \<Rightarrow> bool" where
  "mem_ready cmos s t xs \<longleftrightarrow>
     kern_pgdir t = kva_frame (kernel_end s) \<and> end_ok (kernel_end s) (nextfree t) \<and> npages t = total_pages cmos \<and> ksym t = ksym s \<and>
     cr3 t = page2pa (kern_pgdir t) \<and> envs t = (\<lambda>i. if i < NENV then zero_env else envs s i) \<and>
     env_free_list t = env_free_list s \<and> cpus t = cpus s \<and> cpunum t = cpunum s \<and>
     pgdir_ok t (kern_pgdir t) xs \<and> pmem t (kern_pgdir t) UVPT_index = page2pa (kern_pgdir t) OR PTE_U OR PTE_P \<and>
     directory t (kern_pgdir t) (kernel_slots {955}) \<and>
     kernel_space t (kern_pgdir t) (pages_kva t - KERNBASE) (Some (envs_kva t - KERNBASE)) (sym_bootstack (ksym s) - KERNBASE) \<and>
     usable cmos (nextfree t) = set xs \<union> tables t (kern_pgdir t) \<and>
     (\<forall>f. f \<notin> usable cmos (nextfree t) \<longrightarrow> f \<noteq> kern_pgdir t \<longrightarrow> pmem t f = pmem s f)"

lemma done_sel:
  assumes "mem_done cmos s epa t0 t xs"
  shows "npages t = npages t0" "kern_pgdir t = kern_pgdir t0" "cr3 t = page2pa (kern_pgdir t0)" "ksym t = ksym t0" "nextfree t = nextfree t0"
    and "envs t = envs t0" "cpus t = cpus t0" "cpunum t = cpunum t0" "pages_kva t = pages_kva t0" "envs_kva t = envs_kva t0"
    and "env_free_list t = env_free_list t0" "con_in t = con_in t0"
proof -
  obtain c where v: "steady t = (steady t0)\<lparr>cr3 := page2pa (kern_pgdir t0), cr0 := c\<rparr>" using assms by (auto simp: mem_done_def)
  have f: "g (steady t) = g ((steady t0)\<lparr>cr3 := page2pa (kern_pgdir t0), cr0 := c\<rparr>)" for g :: "kstate \<Rightarrow> 'x" using v by simp
  show "npages t = npages t0" "kern_pgdir t = kern_pgdir t0" "cr3 t = page2pa (kern_pgdir t0)" "ksym t = ksym t0" "nextfree t = nextfree t0"
    "envs t = envs t0" "cpus t = cpus t0" "cpunum t = cpunum t0" "pages_kva t = pages_kva t0" "envs_kva t = envs_kva t0"
    "env_free_list t = env_free_list t0" "con_in t = con_in t0"
    using f [of npages] f [of kern_pgdir] f [of cr3] f [of ksym] f [of nextfree] f [of envs] f [of cpus] f [of cpunum]
      f [of pages_kva] f [of envs_kva] f [of env_free_list] f [of con_in] by (simp_all add: steady_def)
qed

lemma end_ok_arrays:
  assumes fits: "machine_fits cmos (ksym s)" and pk: "unat pk = unat (kernel_end s) + 4096" and sz: "4096 dvd n"
    and nf: "unat nf = unat pk + n" "unat nf < 0xF0400000"
  shows "4096 dvd unat pk" "KERNBASE \<le> pk" "4096 dvd unat nf" "end_ok (kernel_end s) nf"
proof -
  note KE = kernel_end_bounds [OF fits]
  have al: "4096 dvd unat (kernel_end s)" by (subst KE(1)) simp
  then show d: "4096 dvd unat pk" "4096 dvd unat nf" unfolding nf(1) pk using sz by simp_all
  show "KERNBASE \<le> pk" using KE(2) pk by (simp add: word_le_nat_alt)
  show "end_ok (kernel_end s) nf" using KE al d pk nf by (simp add: end_ok_def)
qed

lemma stack_fits:
  assumes "machine_fits cmos k"
  shows "4096 dvd unat (sym_bootstack k)" "KERNBASE \<le> sym_bootstack k"
  using assms aligned_iff by (simp_all add: machine_fits_def)

lemma mem_init_run:
  assumes fits: "machine_fits cmos (ksym s)" and clear: "bss_clear s"
  shows "\<exists>t xs. run (mem_init_lab3 cmos) s = (Ret (), t) \<and> mem_ready cmos s t xs"
proof -
  obtain pk ek nf l c where A: "run (mem_init_lab3 cmos) s
      = run (mem_init_rest (ksym s) (kernel_end s) (kernel_end s - KERNBASE) pk ek) (arrays_ready cmos s pk ek nf l c)"
    "unat pk = unat (kernel_end s) + 4096" "unat ek = unat pk + pages_bytes cmos"
    "unat nf = unat ek + 98304" "unat nf < 0xF0400000"
    using mem_init_arrays [OF fits clear] by blast
  define t0 where "t0 = arrays_ready cmos s pk ek nf l c"
  note set0 = arrays_set_ready(2) [OF clear, of cmos nf pk ek l c, folded t0_def]
  have t0: "kern_pgdir t0 = kva_frame (kernel_end s)" "nextfree t0 = nf" "pages_kva t0 = pk" "envs_kva t0 = ek" "npages t0 = total_pages cmos"
      "ksym t0 = ksym s" "envs t0 = (\<lambda>i. if i < NENV then zero_env else envs s i)" "env_free_list t0 = env_free_list s" "cpus t0 = cpus s"
      "cpunum t0 = cpunum s"
    by (simp_all add: t0_def arrays_ready_def pages_ready_def)
  have e: "4096 dvd unat pk" "KERNBASE \<le> pk" "end_ok (kernel_end s) nf"
    using end_ok_arrays [OF fits A(2), of "pages_bytes cmos + 98304" nf] A by simp_all
  have ek: "4096 dvd unat ek" "KERNBASE \<le> ek" using end_ok_arrays [OF fits A(2), of "pages_bytes cmos" ek] A e(2) by (auto simp: word_le_nat_alt)
  note stack = stack_fits [OF fits]
  have al: "arrays_aligned t0" using e stack by (simp add: arrays_aligned_def t0)
  have np: "total_pages cmos \<le> 65536" using fits by (simp add: machine_fits_def)
  have pd: "kernel_end s - KERNBASE = page2pa (kern_pgdir t0)" unfolding t0 by (rule end_okD(9) [OF e(3)])
  obtain t xs where t: "run (thenP (seqP [page_init (sym_end (ksym s)), check_page_free_list_lab3 True, check_page_alloc, check_page_lab3])
      (thenP (map_regions (kern_pgdir t0) (pages_kva t0 - KERNBASE) (Some (ek - KERNBASE)) (sym_bootstack (ksym s) - KERNBASE))
        (mem_init_tail check_kern_pgdir_lab3 (page2pa (kern_pgdir t0))))) t0 = (Ret (), t)" "mem_done cmos s (Some (ek - KERNBASE)) t0 t xs"
  proof -
    have "run check_kern_pgdir_lab3 u = (Ret (), u\<lparr>console := console u @ render ''check_kern_pgdir() succeeded!\<newline>'' []\<rparr>)"
      if u: "steady u = steady t0" "pgdir_ok u (kern_pgdir t0) ys" "directory u (kern_pgdir t0) (kernel_slots (env_slot (Some (ek - KERNBASE))))"
        "present (pmem u (kern_pgdir t0) UVPT_index)"
        "kernel_space u (kern_pgdir t0) (pages_kva t0 - KERNBASE) (Some (ek - KERNBASE)) (sym_bootstack (ksym s) - KERNBASE)" for u ys
    proof -
      note us = steady_sel [OF u(1)]
      have "arrays_aligned u" using al us by (simp add: arrays_aligned_def)
      then show ?thesis using u us t0 np ek by (intro check_kern_pgdir_run) simp_all
    qed
    then show ?thesis using mem_init_finish [OF fits e(3) set0 al, of "Some (ek - KERNBASE)" check_kern_pgdir_lab3] that by blast
  qed
  have "run (mem_init_lab3 cmos) s = (Ret (), t)"
    using t(1) unfolding A(1) mem_init_rest_eq [OF e(2) ek(2) stack(2)] t0_def [symmetric] pd unfolding t0 .
  moreover have "mem_ready cmos s t xs"
    using t(2) e(3) done_sel [OF t(2)] unfolding mem_ready_def mem_done_def t0 by simp
  ultimately show ?thesis by blast
qed

end
