(* ===== verification/Lab3Env.thy ===== *)
theory Lab3Env
  imports Lab3Mem EnvC Monitor Kdebug
begin

text \<open>
  Environments, the monitor and the symbol tables of \<^verbatim>\<open>project3\<close>: the functions of
  \<^verbatim>\<open>project3/kern/env.c\<close>, \<^verbatim>\<open>project3/kern/monitor.c\<close> and \<^verbatim>\<open>project3/kern/kdebug.c\<close> that differ
  from those of \<^verbatim>\<open>lab4\<close> or call one that does. There is one CPU, so an environment that is destroyed
  is freed at once, and the kernel goes to the monitor because there is no other one to run.
\<close>

section \<open>Allocating an environment\<close>

text \<open>\<^verbatim>\<open>struct Env\<close> has no page fault upcall and no message fields yet.\<close>

definition env_alloc_lab3 :: "u32 \<Rightarrow> (u32 \<times> nat option) km" where
  "env_alloc_lab3 parent_id =
     bindP (gets env_free_list) (\<lambda>head.
     case head of
       None \<Rightarrow> ret (- E_NO_FREE_ENV, None)
     | Some e \<Rightarrow>
         bindP (env_setup_vm e) (\<lambda>r.
         if r <s 0 then ret (r, None)
         else thenP (modify (upd_env e (\<lambda>v. v\<lparr>env_id := new_env_id (env_id v) e,
                       env_parent_id := parent_id, env_type := ENV_TYPE_USER,
                       env_status := ENV_RUNNABLE, env_runs := 0, env_tf := new_env_tf\<rparr>)))
              (thenP (modify (\<lambda>s. s\<lparr>env_free_list := env_link (envs s e)\<rparr>))
              (bindP (gets (\<lambda>s. (cur_id s, env_id (envs s e)))) (\<lambda>(c, i).
               thenP (cprintf ''[%08x] new env %08x\<newline>'' [VInt c, VInt i])
               (ret (0, Some e)))))))"

section \<open>Loading a program\<close>

definition region_alloc_page_lab3 :: "nat \<Rightarrow> u32 \<Rightarrow> nat \<Rightarrow> unit km" where
  "region_alloc_page_lab3 e start i =
     bindP (page_alloc 0) (\<lambda>newPage.
     case newPage of
       None \<Rightarrow> stop (Panic ''region_alloc tried to allocate space/pages, but there wasn't enough free!'')
     | Some pp \<Rightarrow>
         bindP (gets (\<lambda>s. env_pgdir (envs s e))) (\<lambda>pd.
         bindP (deref pd) (\<lambda>pgdir.
         bindP (page_insert_lab3 pgdir pp (start + of_nat i * PGSIZE) (PTE_P OR PTE_W OR PTE_U)) (\<lambda>pass.
         if pass = 0 then ret ()
         else if pass < 0
         then stop (Panic ''page_insert in region_alloc() failed! you should be concerned'')
         else ret ()))))"

definition region_alloc_lab3 :: "nat \<Rightarrow> u32 \<Rightarrow> u32 \<Rightarrow> unit km" where
  "region_alloc_lab3 e va len =
     (if len = 0 then ret ()
      else (let up = ROUNDUP (va + len) PGSIZE; down = ROUNDDOWN va PGSIZE;
                totalPages = (up - down) div PGSIZE
            in forP [0..<unat totalPages] (region_alloc_page_lab3 e down)))"

definition load_segment_lab3 :: "nat \<Rightarrow> u32 \<Rightarrow> u32 \<Rightarrow> unit km" where
  "load_segment_lab3 e binary ph =
     bindP (load32 (ph + off_p_type)) (\<lambda>type.
     if type = ELF_PROG_LOAD
     then bindP (load32 (ph + off_p_va)) (\<lambda>va.
          bindP (load32 (ph + off_p_memsz)) (\<lambda>memsz.
          thenP (region_alloc_lab3 e va memsz)
          (bindP (load32 (ph + off_p_offset)) (\<lambda>off.
           thenP (vmemset va 0 memsz)
           (bindP (load32 (ph + off_p_filesz)) (\<lambda>filesz.
            vmemcpy va (binary + off) filesz))))))
     else ret ())"

primrec load_segments_lab3 :: "nat \<Rightarrow> nat \<Rightarrow> u32 \<Rightarrow> u32 \<Rightarrow> u32 \<Rightarrow> unit km" where
  "load_segments_lab3 0 e binary ph eph = ret ()"
| "load_segments_lab3 (Suc n) e binary ph eph =
     (if ph < eph
      then thenP (load_segment_lab3 e binary ph) (load_segments_lab3 n e binary (ph + sizeof_Proghdr) eph)
      else ret ())"

definition load_icode_lab3 :: "nat \<Rightarrow> u32 \<Rightarrow> unit km" where
  "load_icode_lab3 e binary =
     (if binary = 0 then stop (Panic ''incoming binary location NULL in load_icode() function'')
      else bindP (gets (\<lambda>s. env_pgdir (envs s e))) (\<lambda>pd.
      bindP (deref pd) (\<lambda>pgdir.
      bindP (PADDR (frame_kva pgdir)) (\<lambda>pa.
      thenP (lcr3 pa)
      (bindP (load32 (binary + off_e_magic)) (\<lambda>magic.
       if magic \<noteq> ELF_MAGIC then stop (Panic ''ELF_MAGIC error!'')
       else bindP (load32 (binary + off_e_phoff)) (\<lambda>phoff.
       bindP (load16 (binary + off_e_phnum)) (\<lambda>phnum.
       thenP (load_segments_lab3 (unat phnum) e binary (binary + phoff)
                (binary + phoff + ucast phnum * sizeof_Proghdr))
       (bindP (page_alloc ALLOC_ZERO) (\<lambda>newPage.
        case newPage of
          None \<Rightarrow> stop (Panic ''allocated new page in second part of load_icode and it didn't work!'')
        | Some pp \<Rightarrow>
            bindP (page_insert_lab3 pgdir pp (USTACKTOP - PGSIZE) (PTE_P OR PTE_U OR PTE_W)) (\<lambda>pass.
            if pass <s 0
            then stop (Panic ''page_insert() failed in load_icode() function after trying to insert a page for the program's initial stack!!'')
            else bindP (gets kern_pgdir) (\<lambda>kp.
                 bindP (PADDR (frame_kva kp)) (\<lambda>kpa.
                 thenP (lcr3 kpa)
                 (bindP (load32 (binary + off_e_entry)) (\<lambda>entry.
                  modify (upd_env e (\<lambda>v. v\<lparr>env_tf := (env_tf v)\<lparr>tf_eip := entry\<rparr>\<rparr>)))))))))))))))))"

definition env_create_lab3 :: "u32 \<Rightarrow> EnvType \<Rightarrow> unit km" where
  "env_create_lab3 binary type =
     bindP (env_alloc_lab3 0) (\<lambda>(pass, newEnv).
     if pass <s 0
     then (if pass = - E_NO_FREE_ENV
           then stop (Panic ''couldn't create a new enviornment in env_create(): -E_NO_FREE_ENV'')
           else stop (Panic ''coudln't create a new enviornment in env_create(): -E_NO_MEM''))
     else bindP (deref newEnv) (\<lambda>e.
          thenP (modify (upd_env e (\<lambda>v. v\<lparr>env_type := type\<rparr>)))
          (load_icode_lab3 e binary)))"

section \<open>Freeing an environment\<close>

definition env_free_pte_lab3 :: "nat \<Rightarrow> nat \<Rightarrow> nat \<Rightarrow> nat \<Rightarrow> unit km" where
  "env_free_pte_lab3 pgdir pdeno pt pteno =
     bindP (gets (\<lambda>s. pmem s pt pteno)) (\<lambda>pte.
     if pte AND PTE_P \<noteq> 0 then page_remove_lab3 pgdir (PGADDR (of_nat pdeno) (of_nat pteno) 0)
     else ret ())"

definition env_free_pde_lab3 :: "nat \<Rightarrow> nat \<Rightarrow> unit km" where
  "env_free_pde_lab3 pgdir pdeno =
     bindP (gets (\<lambda>s. pmem s pgdir pdeno)) (\<lambda>pde.
     if pde AND PTE_P = 0 then ret ()
     else (let pa = PTE_ADDR pde
           in bindP (KADDR pa) (\<lambda>kva.
              thenP (forP [0..<unat (PTX (NOT 0)) + 1] (env_free_pte_lab3 pgdir pdeno (kva_frame kva)))
              (thenP (modify (store_word pgdir pdeno 0))
              (bindP (pa2page pa) page_decref)))))"

definition env_free_lab3 :: "nat \<Rightarrow> unit km" where
  "env_free_lab3 e =
     bindP (gets curenv) (\<lambda>cur.
     thenP (whenP (cur = Some e)
              (bindP (gets kern_pgdir) (\<lambda>kp. bindP (PADDR (frame_kva kp)) lcr3)))
     (bindP (gets (\<lambda>s. (cur_id s, env_id (envs s e)))) (\<lambda>(c, i).
      thenP (cprintf ''[%08x] free env %08x\<newline>'' [VInt c, VInt i])
      (bindP (gets (\<lambda>s. env_pgdir (envs s e))) (\<lambda>pd.
       bindP (deref pd) (\<lambda>pgdir.
       thenP (forP [0..<unat (PDX UTOP)] (env_free_pde_lab3 pgdir))
       (bindP (PADDR (frame_kva pgdir)) (\<lambda>pa.
        thenP (modify (upd_env e (\<lambda>v. v\<lparr>env_pgdir := None\<rparr>)))
        (thenP (bindP (pa2page pa) page_decref)
        (modify (\<lambda>s. (upd_env e (\<lambda>v. v\<lparr>env_status := ENV_FREE, env_link := env_free_list s\<rparr>) s)
                       \<lparr>env_free_list := Some e\<rparr>)))))))))))"

section \<open>The monitor\<close>

text \<open>Trap frames carry no CPU number, and there are no hardware interrupts.\<close>

definition trapname_lab3 :: "u32 \<Rightarrow> string" where
  "trapname_lab3 trapno =
     (if unat trapno < length excnames then excnames ! unat trapno
      else if trapno = T_SYSCALL then ''System call''
      else ''(unknown trap)'')"

text \<open>A \<^verbatim>\<open>struct Env\<close> takes 96 bytes.\<close>

definition tf_addr_lab3 :: "tf_ptr \<Rightarrow> kstate \<Rightarrow> u32" where
  "tf_addr_lab3 p s = (case p of OnStack a tf \<Rightarrow> a | InEnv e \<Rightarrow> envs_kva s + sizeof_Env_lab3 * of_nat e)"

definition print_trapframe_lab3 :: "tf_ptr \<Rightarrow> unit km" where
  "print_trapframe_lab3 p =
     bindP (gets (\<lambda>s. (read_tf p s, tf_addr_lab3 p s, last_tf s, cr2 s))) (\<lambda>(tf, addr, lst, fault).
     thenP (printP ''TRAP frame at %p\<newline>'' [VInt addr])
     (thenP (print_regs (tf_regs tf))
     (thenP (printP ''  es   0x----%04x\<newline>'' [VInt (ucast (tf_es tf))])
     (thenP (printP ''  ds   0x----%04x\<newline>'' [VInt (ucast (tf_ds tf))])
     (thenP (printP ''  trap 0x%08x %s\<newline>'' [VInt (tf_trapno tf), VStr (Some (trapname_lab3 (tf_trapno tf)))])
     (thenP (whenP (addr = lst \<and> tf_trapno tf = T_PGFLT) (printP ''  cr2  0x%08x\<newline>'' [VInt fault]))
     (thenP (printP ''  err  0x%08x'' [VInt (tf_err tf)])
     (thenP (if tf_trapno tf = T_PGFLT
             then printP '' [%s, %s, %s]\<newline>''
                    [VStr (Some (if tf_err tf AND 4 \<noteq> 0 then ''user'' else ''kernel'')),
                     VStr (Some (if tf_err tf AND 2 \<noteq> 0 then ''write'' else ''read'')),
                     VStr (Some (if tf_err tf AND 1 \<noteq> 0 then ''protection'' else ''not-present''))]
             else printP ''\<newline>'' [])
     (thenP (printP ''  eip  0x%08x\<newline>'' [VInt (tf_eip tf)])
     (thenP (printP ''  cs   0x----%04x\<newline>'' [VInt (ucast (tf_cs tf))])
     (thenP (printP ''  flag 0x%08x\<newline>'' [VInt (tf_eflags tf)])
     (whenP (tf_cs tf AND 3 \<noteq> 0)
       (thenP (printP ''  esp  0x%08x\<newline>'' [VInt (tf_esp tf)])
       (printP ''  ss   0x----%04x\<newline>'' [VInt (ucast (tf_ss tf))]))))))))))))))"

text \<open>
  \<^verbatim>\<open>backtrace\<close> is a command. Printing changes no frame, so a chain of more than \<open>2 ^ 32\<close> frames is a
  cycle and is followed for ever.
\<close>

datatype command_lab3 = Help_lab3 | Kerninfo_lab3 | Backtrace_lab3

definition commands_lab3 :: "(string \<times> string \<times> command_lab3) list" where
  "commands_lab3 = [(''help'', ''Display this list of commands'', Help_lab3),
     (''kerninfo'', ''Display information about the kernel'', Kerninfo_lab3),
     (''backtrace'', ''Displace backtrace'', Backtrace_lab3)]"

definition mon_help_lab3 :: "int km" where
  "mon_help_lab3 =
     thenP (forP [0..<length commands_lab3] (\<lambda>i.
              printP ''%s - %s\<newline>'' [VStr (Some (fst (commands_lab3 ! i))), VStr (Some (fst (snd (commands_lab3 ! i))))]))
     (ret 0)"

definition run_command_lab3 :: "command_lab3 \<Rightarrow> int km" where
  "run_command_lab3 c =
     (case c of
        Help_lab3 \<Rightarrow> mon_help_lab3
      | Kerninfo_lab3 \<Rightarrow> mon_kerninfo
      | Backtrace_lab3 \<Rightarrow> mon_backtrace (2 ^ 32))"

definition runcmd_lab3 :: "string \<Rightarrow> int km" where
  "runcmd_lab3 buf =
     (case split_args buf 0 of
        None \<Rightarrow> thenP (printP ''Too many arguments (max %d)\<newline>'' [VInt (of_nat MAXARGS)]) (ret 0)
      | Some [] \<Rightarrow> ret 0
      | Some (a # as) \<Rightarrow>
          (case find (\<lambda>(name, desc, f). a = name) commands_lab3 of
             Some (name, desc, f) \<Rightarrow> run_command_lab3 f
           | None \<Rightarrow> thenP (printP ''Unknown command '%s'\<newline>'' [VStr (Some a)]) (ret 0)))"

primrec monitor_loop_lab3 :: "nat \<Rightarrow> unit km" where
  "monitor_loop_lab3 0 = stop Spinning"
| "monitor_loop_lab3 (Suc n) =
     bindP (readline_lab3 (Some ''K> '')) (\<lambda>buf.
     case buf of
       None \<Rightarrow> monitor_loop_lab3 n
     | Some b \<Rightarrow> bindP (runcmd_lab3 b) (\<lambda>r. if r < 0 then ret () else monitor_loop_lab3 n))"

definition monitor_lab3 :: "tf_ptr option \<Rightarrow> unit km" where
  "monitor_lab3 tf =
     thenP (printP ''Welcome to the JOS kernel monitor!\<newline>'' [])
     (thenP (printP ''Type 'help' for a list of commands.\<newline>'' [])
     (thenP (case tf of None \<Rightarrow> ret () | Some p \<Rightarrow> print_trapframe_lab3 p)
     (bindP (gets (\<lambda>s. length (con_in s))) (\<lambda>n. monitor_loop_lab3 (Suc n)))))"

section \<open>The symbol tables\<close>

text \<open>The struct at \<^verbatim>\<open>USTABDATA\<close> is checked before it is read.\<close>

definition debuginfo_eip_lab3 :: "u32 \<Rightarrow> (int \<times> Eipdebuginfo) km" where
  "debuginfo_eip_lab3 addr =
     (let info = \<lparr>eip_file = Unknown, eip_line = 0, eip_fn_name = Unknown, eip_fn_namelen = 9,
                  eip_fn_addr = addr, eip_fn_narg = 0\<rparr>;
          finish = (\<lambda>stabs stab_end stabstr stabstr_end.
            if stabstr_end \<le> stabstr then ret (-1, info)
            else bindP (load8 (stabstr_end - 1)) (\<lambda>c.
                 if c \<noteq> 0 then ret (-1, info)
                 else debuginfo_search stabs stab_end stabstr stabstr_end addr info))
      in if addr \<ge> ULIM
         then bindP (gets ksym) (\<lambda>k.
              finish (sym_stab_begin k) (sym_stab_end k) (sym_stabstr_begin k) (sym_stabstr_end k))
         else bindP (gets curenv) (\<lambda>cur.
              bindP (user_mem_check cur USTABDATA 16 PTE_U) (\<lambda>val.
              if val <s 0 then ret (-1, info) else
              bindP (load32 USTABDATA) (\<lambda>stabs.
              bindP (load32 (USTABDATA + 4)) (\<lambda>stab_end.
              bindP (load32 (USTABDATA + 8)) (\<lambda>stabstr.
              bindP (load32 (USTABDATA + 12)) (\<lambda>stabstr_end.
              bindP (user_mem_check cur stabs (word_of_int (stab_diff stabs stab_end)) PTE_U) (\<lambda>stab_val.
              bindP (user_mem_check cur stabstr (stabstr - stabstr_end) PTE_U) (\<lambda>stabstr_val.
              if stab_val <s 0 \<or> stabstr_val <s 0 then ret (-1, info)
              else finish stabs stab_end stabstr stabstr_end)))))))))"

section \<open>Giving the CPU away\<close>

text \<open>\<^verbatim>\<open>while (1) monitor(NULL)\<close> is one call, because \<open>monitor\<close> does not return.\<close>

definition env_destroy_lab3 :: "nat \<Rightarrow> unit km" where
  "env_destroy_lab3 e =
     thenP (env_free_lab3 e)
     (thenP (printP ''Destroyed the only environment - nothing more to do!\<newline>'' [])
     (thenP (monitor_lab3 None) (stop MonitorLoop)))"

definition env_pop_tf_lab3 :: "unit km" where
  "env_pop_tf_lab3 = stop UserMode"

definition env_run_lab3 :: "nat \<Rightarrow> unit km" where
  "env_run_lab3 e =
     bindP (gets curenv) (\<lambda>cur.
     thenP (case cur of None \<Rightarrow> ret ()
            | Some c \<Rightarrow> modify (upd_env c (\<lambda>v. v\<lparr>env_status := ENV_RUNNABLE\<rparr>)))
     (thenP (modify (set_curenv (Some e)))
     (thenP (modify (upd_env e (\<lambda>v. v\<lparr>env_status := ENV_RUNNING, env_runs := env_runs v + 1\<rparr>)))
     (bindP (gets (\<lambda>s. env_pgdir (envs s e))) (\<lambda>pd.
      bindP (deref pd) (\<lambda>pgdir.
      bindP (PADDR (frame_kva pgdir)) (\<lambda>pa.
      thenP (lcr3 pa) env_pop_tf_lab3)))))))"

definition user_mem_assert_lab3 :: "nat option \<Rightarrow> u32 \<Rightarrow> u32 \<Rightarrow> u32 \<Rightarrow> unit km" where
  "user_mem_assert_lab3 env va len perm =
     bindP (user_mem_check env va len (perm OR PTE_U)) (\<lambda>r.
     if r <s 0
     then bindP (deref env) (\<lambda>e.
          bindP (gets (\<lambda>s. (env_id (envs s e), user_mem_check_addr s))) (\<lambda>(i, a).
          thenP (printP ''[%08x] user_mem_check assertion failure for va %08x\<newline>'' [VInt i, VInt a])
          (env_destroy_lab3 e)))
     else ret ())"

end
