(* ===== verification/Lab3Trap.thy ===== *)
theory Lab3Trap
  imports Lab3Env Trap
begin

text \<open>
  System calls and traps of \<^verbatim>\<open>project3\<close> (\<^verbatim>\<open>project3/kern/syscall.c\<close>, \<^verbatim>\<open>project3/kern/trap.c\<close>).
  \<open>trap_init\<close>, \<open>trap_init_percpu\<close>, \<open>print_regs\<close>, \<open>cons_getc\<close>, \<open>sys_cgetc\<close> and \<open>sys_getenvid\<close> are
  those of \<open>Trap\<close>, \<open>Monitor\<close> and \<open>Syscall\<close>. A trap returns to the environment it came from, or
  destroys it; there is no scheduler.
\<close>

section \<open>System calls\<close>

definition sys_cputs_lab3 :: "u32 \<Rightarrow> u32 \<Rightarrow> unit km" where
  "sys_cputs_lab3 str len =
     bindP (gets curenv) (\<lambda>cur.
     thenP (user_mem_assert_lab3 cur str len PTE_U)
     (if str = 0 then printP ''%.*s'' [VInt len, VStr None]
      else put_str (print_limit len) str))"

definition sys_env_destroy_lab3 :: "u32 \<Rightarrow> u32 km" where
  "sys_env_destroy_lab3 envid =
     bindP (envid2env envid True) (\<lambda>(r, e).
     if r <s 0 then ret r
     else bindP (gets curenv) (\<lambda>cur.
          bindP (deref cur) (\<lambda>c.
          bindP (gets (\<lambda>s. env_id (envs s c))) (\<lambda>cid.
          bindP (deref e) (\<lambda>target.
          thenP (if e = cur then printP ''[%08x] exiting gracefully\<newline>'' [VInt cid]
                 else bindP (gets (\<lambda>s. env_id (envs s target))) (\<lambda>tid.
                      printP ''[%08x] destroying %08x\<newline>'' [VInt cid, VInt tid]))
          (thenP (env_destroy_lab3 target) (ret 0)))))))"

text \<open>There are four system calls.\<close>

abbreviation (input) NSYSCALLS_lab3 :: u32 where "NSYSCALLS_lab3 \<equiv> 4"

definition syscall_lab3 :: "u32 \<Rightarrow> u32 \<Rightarrow> u32 \<Rightarrow> u32 \<Rightarrow> u32 \<Rightarrow> u32 \<Rightarrow> u32 km" where
  "syscall_lab3 syscallno a1 a2 a3 a4 a5 =
     (if syscallno = SYS_cputs then thenP (sys_cputs_lab3 a1 a2) (ret 0)
      else if syscallno = SYS_cgetc then sys_cgetc
      else if syscallno = SYS_getenvid then sys_getenvid
      else if syscallno = SYS_env_destroy then sys_env_destroy_lab3 a1
      else if syscallno = NSYSCALLS_lab3 then thenP (printP ''NSYSCALLS was called'' []) (ret (-1))
      else ret (- E_INVAL))"

section \<open>Traps\<close>

text \<open>The test for kernel mode compares the selector, not its privilege bits, with 3.\<close>

definition page_fault_handler_lab3 :: "tf_ptr \<Rightarrow> unit km" where
  "page_fault_handler_lab3 p =
     bindP (gets (\<lambda>s. (cr2 s, read_tf p s, curenv s))) (\<lambda>(fault_va, tf, cur).
     if tf_cs tf = 3
     then stop (Panic ''page fault happened in kernel mode!! in page_fault_handler() function in kern/trap.c'')
     else bindP (deref cur) (\<lambda>c.
          bindP (gets (\<lambda>s. env_id (envs s c))) (\<lambda>cid.
          thenP (printP ''[%08x] user fault va %08x ip %08x\<newline>'' [VInt cid, VInt fault_va, VInt (tf_eip tf)])
          (thenP (print_trapframe_lab3 p)
          (env_destroy_lab3 c)))))"

definition trap_dispatch_lab3 :: "tf_ptr \<Rightarrow> unit km" where
  "trap_dispatch_lab3 p =
     bindP (gets (read_tf p)) (\<lambda>tf.
     if tf_trapno tf = 14 then page_fault_handler_lab3 p
     else if tf_trapno tf = 3 then monitor_lab3 (Some p)
     else if tf_trapno tf = 48
     then (let r = tf_regs tf
           in bindP (syscall_lab3 (reg_eax r) (reg_edx r) (reg_ecx r) (reg_ebx r) (reg_edi r) (reg_esi r)) (\<lambda>val.
              bindP (gets curenv) (\<lambda>cur.
              bindP (deref cur) (\<lambda>c.
              modify (upd_env c (\<lambda>v. v\<lparr>env_tf := (env_tf v)\<lparr>tf_regs := (tf_regs (env_tf v))\<lparr>reg_eax := val\<rparr>\<rparr>\<rparr>))))))
     else thenP (print_trapframe_lab3 p)
          (if tf_cs tf = GD_KT then stop (Panic ''unhandled trap in kernel'')
           else bindP (gets curenv) (\<lambda>cur. bindP (deref cur) env_destroy_lab3)))"

text \<open>
  The argument is the frame the assembly code built on the kernel stack. Nothing changes the
  current environment between the assertion and \<open>env_run\<close>, which is why it is not null there.
\<close>

definition trap_lab3 :: "u32 \<Rightarrow> Trapframe \<Rightarrow> unit km" where
  "trap_lab3 addr tf =
     bindP (gets (\<lambda>s. eflags s AND FL_IF = 0)) (\<lambda>no_irq.
     thenP (assertP ''!(read_eflags() & FL_IF)'' no_irq)
     (thenP (printP ''Incoming TRAP frame at %p\<newline>'' [VInt addr])
     (bindP (if tf_cs tf AND 3 = 3
             then bindP (gets curenv) (\<lambda>cur.
                  thenP (assertP ''curenv'' (cur \<noteq> None))
                  (bindP (deref cur) (\<lambda>c.
                   thenP (modify (upd_env c (\<lambda>v. v\<lparr>env_tf := tf\<rparr>)))
                   (ret (InEnv c)))))
             else ret (OnStack addr tf)) (\<lambda>p.
      thenP (modify (\<lambda>s. s\<lparr>last_tf := tf_addr_lab3 p s\<rparr>))
      (thenP (trap_dispatch_lab3 p)
      (bindP (gets (\<lambda>s. (curenv s, case curenv s of None \<Rightarrow> False
                                    | Some c \<Rightarrow> env_status (envs s c) = ENV_RUNNING))) (\<lambda>(cur, running).
       thenP (assertP ''curenv && curenv->env_status == ENV_RUNNING'' running)
       (bindP (deref cur) env_run_lab3))))))))"

end
