(* ===== verification/Console.thy ===== *)
theory Console
  imports Layout Printf
begin

text \<open>
  The device drivers: \<^verbatim>\<open>kern/console.c\<close> (serial port, parallel port, CGA text screen,
  keyboard, and the input buffer), \<^verbatim>\<open>kern/picirq.c\<close> and \<^verbatim>\<open>kern/kclock.c\<close>.

  The devices are the environment: the value the \<open>n\<close>-th \<^verbatim>\<open>inb\<close> of a run reads from a port is
  \<open>port_in s n port\<close>, an arbitrary function, and every \<^verbatim>\<open>outb\<close> is logged. The screen memory is
  the array \<open>crt_buf\<close>.
\<close>

record io_state =
  port_in :: "nat \<Rightarrow> u32 \<Rightarrow> u8"
  in_count :: nat
  out_log :: "(u32 \<times> u8) list"        \<comment> \<open>port and value, oldest first\<close>
  cga_present :: bool                  \<comment> \<open>the colour screen memory holds what is written to it\<close>
  serial_exists :: bool
  addr_6845 :: u32
  crt_base :: u32
  crt_buf :: "nat \<Rightarrow> u16"
  crt_pos :: u16
  kbd_shift :: u32
  cons_buf :: "nat \<Rightarrow> u8"
  cons_rpos :: nat
  cons_wpos :: nat
  irq_mask :: u16
  pic_didinit :: bool

type_synonym 'a dm = "(io_state, 'a) prog"

definition inb :: "u32 \<Rightarrow> u8 dm" where
  "inb port =
     bindP (gets (\<lambda>s. port_in s (in_count s) port)) (\<lambda>b.
     thenP (modify (\<lambda>s. s\<lparr>in_count := in_count s + 1\<rparr>)) (ret b))"

definition outb :: "u32 \<Rightarrow> u8 \<Rightarrow> unit dm" where
  "outb port b = modify (\<lambda>s. s\<lparr>out_log := out_log s @ [(port, b)]\<rparr>)"

definition delay :: "unit dm" where
  "delay = forP [0..<4] (\<lambda>_. bindP (inb 0x84) (\<lambda>_. ret ()))"

section \<open>Serial and parallel output\<close>

abbreviation (input) COM1 :: u32 where "COM1 \<equiv> 0x3F8"
abbreviation (input) COM_LSR :: u32 where "COM_LSR \<equiv> 5"

text \<open>Polling a status bit, at most \<open>n\<close> more times after this one.\<close>

primrec wait_ready :: "nat \<Rightarrow> u32 \<Rightarrow> u8 \<Rightarrow> unit dm" where
  "wait_ready 0 port flag = bindP (inb port) (\<lambda>_. ret ())"
| "wait_ready (Suc n) port flag =
     bindP (inb port) (\<lambda>b. if b AND flag \<noteq> 0 then ret () else thenP delay (wait_ready n port flag))"

definition serial_putc :: "u32 \<Rightarrow> unit dm" where
  "serial_putc c = thenP (wait_ready 12800 (COM1 + COM_LSR) 0x20) (outb COM1 (ucast c))"

definition serial_proc_data :: "int dm" where
  "serial_proc_data =
     bindP (inb (COM1 + COM_LSR)) (\<lambda>st.
     if st AND 1 = 0 then ret (-1) else bindP (inb COM1) (\<lambda>b. ret (uint b)))"

definition serial_init :: "unit dm" where
  "serial_init =
     seqP [outb (COM1 + 2) 0, outb (COM1 + 3) 0x80, outb COM1 (115200 div 9600), outb (COM1 + 1) 0,
       outb (COM1 + 3) (0x03 AND NOT 0x80), outb (COM1 + 4) 0, outb (COM1 + 1) 0x01,
       bindP (inb (COM1 + COM_LSR)) (\<lambda>b. modify (\<lambda>s. s\<lparr>serial_exists := (b \<noteq> 0xFF)\<rparr>)),
       bindP (inb (COM1 + 2)) (\<lambda>_. ret ()), bindP (inb COM1) (\<lambda>_. ret ())]"

definition lpt_putc :: "u32 \<Rightarrow> unit dm" where
  "lpt_putc c =
     seqP [wait_ready 12800 (0x378 + 1) 0x80, outb 0x378 (ucast c),
       outb (0x378 + 2) (0x08 OR 0x04 OR 0x01), outb (0x378 + 2) 0x08]"

section \<open>The text screen\<close>

abbreviation (input) CRT_COLS :: nat where "CRT_COLS \<equiv> 80"
abbreviation (input) CRT_SIZE :: nat where "CRT_SIZE \<equiv> 2000"

definition cga_init :: "unit dm" where
  "cga_init =
     bindP (gets cga_present) (\<lambda>colour.
     let (cp, addr) = (if \<not> colour then (KERNBASE + 0xB0000, 0x3B4) else (KERNBASE + 0xB8000, 0x3D4))
     in thenP (modify (\<lambda>s. s\<lparr>addr_6845 := addr\<rparr>))
        (thenP (outb addr 14)
        (bindP (inb (addr + 1)) (\<lambda>hi.
         thenP (outb addr 15)
         (bindP (inb (addr + 1)) (\<lambda>lo.
          modify (\<lambda>s. s\<lparr>crt_base := cp, crt_pos := (push_bit 8 (ucast hi) OR ucast lo)\<rparr>)))))))"

definition crt_store :: "nat \<Rightarrow> u32 \<Rightarrow> io_state \<Rightarrow> io_state" where
  "crt_store i c s = s\<lparr>crt_buf := (crt_buf s)(i := ucast c)\<rparr>"

text \<open>The \<^verbatim>\<open>memmove\<close> by one row and the blank last row.\<close>

definition crt_scroll :: "io_state \<Rightarrow> io_state" where
  "crt_scroll s =
     s\<lparr>crt_buf := (\<lambda>i. if i < CRT_SIZE - CRT_COLS then crt_buf s (i + CRT_COLS)
                      else if i < CRT_SIZE then 0x0700 OR 0x20 else crt_buf s i),
       crt_pos := crt_pos s - of_nat CRT_COLS\<rparr>"

text \<open>
  \<open>cga_putc\<close>, with what it calls for one of the five blanks of a tab as an argument: a blank
  is not a tab, so the recursion through \<open>cons_putc\<close> is one deep.
\<close>

definition cga_put :: "unit dm \<Rightarrow> u32 \<Rightarrow> unit dm" where
  "cga_put put_blank c0 =
     (let c = (if c0 AND NOT 0xFF = 0 then c0 OR 0x0700 else c0);
          ch = c AND 0xff
      in thenP
          (if ch = 8
           then modify (\<lambda>s. if crt_pos s > 0
                            then crt_store (unat (crt_pos s - 1)) ((c AND NOT 0xff) OR 0x20)
                                   (s\<lparr>crt_pos := crt_pos s - 1\<rparr>)
                            else s)
           else if ch = 10
           then modify (\<lambda>s. let p = crt_pos s + of_nat CRT_COLS in s\<lparr>crt_pos := p - p mod of_nat CRT_COLS\<rparr>)
           else if ch = 13
           then modify (\<lambda>s. s\<lparr>crt_pos := crt_pos s - crt_pos s mod of_nat CRT_COLS\<rparr>)
           else if ch = 9
           then seqP [put_blank, put_blank, put_blank, put_blank, put_blank]
           else modify (\<lambda>s. (crt_store (unat (crt_pos s)) c s)\<lparr>crt_pos := crt_pos s + 1\<rparr>))
         (thenP (modify (\<lambda>s. if unat (crt_pos s) \<ge> CRT_SIZE then crt_scroll s else s))
         (bindP (gets (\<lambda>s. (addr_6845 s, crt_pos s))) (\<lambda>(a, p).
          seqP [outb a 14, outb (a + 1) (ucast (drop_bit 8 p)), outb a 15, outb (a + 1) (ucast p)]))))"

definition put_blank :: "unit dm" where
  "put_blank = seqP [serial_putc 0x20, lpt_putc 0x20, cga_put (stop BadAccess) 0x20]"

definition cga_putc :: "u32 \<Rightarrow> unit dm" where
  "cga_putc = cga_put put_blank"

definition cons_putc :: "u32 \<Rightarrow> unit dm" where
  "cons_putc c = seqP [serial_putc c, lpt_putc c, cga_putc c]"

definition cputchar :: "u32 \<Rightarrow> unit dm" where
  "cputchar c = cons_putc c"

text \<open>\<open>cprintf\<close> down to the devices.\<close>

definition dev_cprintf :: "string \<Rightarrow> vararg list \<Rightarrow> unit dm" where
  "dev_cprintf fmt ap =
     (case kvcprintf fmt ap of None \<Rightarrow> stop BadAccess | Some (n, out) \<Rightarrow> forP out cputchar)"

section \<open>The interrupt controllers and the clock chip\<close>

definition irq_setmask_8259A :: "u16 \<Rightarrow> unit dm" where
  "irq_setmask_8259A m =
     thenP (modify (\<lambda>s. s\<lparr>irq_mask := m\<rparr>))
     (bindP (gets pic_didinit) (\<lambda>didinit.
      if \<not> didinit then ret ()
      else seqP [outb (0x20 + 1) (ucast m), outb (0xA0 + 1) (ucast (drop_bit 8 m)),
             dev_cprintf ''enabled interrupts:'' [],
             forP [0..<16] (\<lambda>i. whenP (\<not> bit m i) (dev_cprintf '' %d'' [VInt (of_nat i)])),
             dev_cprintf ''\<newline>'' []]))"

abbreviation (input) initial_irq_mask :: u16 where "initial_irq_mask \<equiv> 0xFFFB"

definition pic_init :: "unit dm" where
  "pic_init =
     seqP [modify (\<lambda>s. s\<lparr>pic_didinit := True\<rparr>),
       outb (0x20 + 1) 0xFF, outb (0xA0 + 1) 0xFF,
       outb 0x20 0x11, outb (0x20 + 1) 32, outb (0x20 + 1) (push_bit 2 1), outb (0x20 + 1) 0x3,
       outb 0xA0 0x11, outb (0xA0 + 1) (32 + 8), outb (0xA0 + 1) 2, outb (0xA0 + 1) 0x01,
       outb 0x20 0x68, outb 0x20 0x0a, outb 0xA0 0x68, outb 0xA0 0x0a,
       bindP (gets irq_mask) (\<lambda>m. whenP (m \<noteq> 0xFFFF) (irq_setmask_8259A m))]"

definition mc146818_read :: "u32 \<Rightarrow> u8 dm" where
  "mc146818_read r = thenP (outb 0x70 (ucast r)) (inb 0x71)"

definition mc146818_write :: "u32 \<Rightarrow> u32 \<Rightarrow> unit dm" where
  "mc146818_write r datum = thenP (outb 0x70 (ucast r)) (outb 0x71 (ucast datum))"

section \<open>The keyboard\<close>

abbreviation (input) SHIFT :: u32 where "SHIFT \<equiv> 1"
abbreviation (input) CTL :: u32 where "CTL \<equiv> 2"
abbreviation (input) ALT :: u32 where "ALT \<equiv> 4"
abbreviation (input) CAPSLOCK :: u32 where "CAPSLOCK \<equiv> 8"
abbreviation (input) NUMLOCK :: u32 where "NUMLOCK \<equiv> 16"
abbreviation (input) SCROLLLOCK :: u32 where "SCROLLLOCK \<equiv> 32"
abbreviation (input) E0ESC :: u32 where "E0ESC \<equiv> 64"

definition shiftcode :: "u8 \<Rightarrow> u32" where
  "shiftcode d =
     (if d = 0x1D then CTL else if d = 0x2A then SHIFT else if d = 0x36 then SHIFT
      else if d = 0x38 then ALT else if d = 0x9D then CTL else if d = 0xB8 then ALT else 0)"

definition togglecode :: "u8 \<Rightarrow> u32" where
  "togglecode d =
     (if d = 0x3A then CAPSLOCK else if d = 0x45 then NUMLOCK else if d = 0x46 then SCROLLLOCK else 0)"

text \<open>A table given by its first entries and some more.\<close>

definition key_table :: "u8 list \<Rightarrow> (u8 \<times> u8) list \<Rightarrow> u8 \<Rightarrow> u8" where
  "key_table row extra d =
     (if unat d < length row then row ! unat d
      else case map_of extra d of None \<Rightarrow> 0 | Some k \<Rightarrow> k)"

text \<open>Printable characters by code; \<open>0x0\<close> is \<^verbatim>\<open>NO\<close>.\<close>

definition keys :: "string \<Rightarrow> u8 list" where
  "keys = map (\<lambda>c. of_nat (of_char c))"

definition special_keys :: "(u8 \<times> u8) list" where
  "special_keys = [(0xC8, 0xE2), (0xC9, 0xE6), (0xCB, 0xE4), (0xCD, 0xE5), (0xCF, 0xE1), (0xD0, 0xE3),
     (0xD1, 0xE7), (0xD2, 0xE8), (0xD3, 0xE9)]"

definition normalmap :: "u8 \<Rightarrow> u8" where
  "normalmap = key_table
     ([0, 0x1B] @ keys ''1234567890-='' @ [8, 9]
      @ keys ''qwertyuiop[]'' @ [10, 0] @ keys ''as''
      @ keys ''dfghjkl;'' @ [0x27] @ keys ''`'' @ [0, 0x5C] @ keys ''zxcv''
      @ keys ''bnm,./'' @ [0] @ keys ''*''
      @ [0] @ keys '' '' @ [0, 0, 0, 0, 0, 0]
      @ [0, 0, 0, 0, 0, 0, 0] @ keys ''7''
      @ keys ''89-456+1''
      @ keys ''230.'' @ [0, 0, 0, 0])
     ([(0xC7, 0xE0), (0x9C, 10), (0xB5, 0x2F)] @ special_keys)"

definition shiftmap :: "u8 \<Rightarrow> u8" where
  "shiftmap = key_table
     ([0, 27] @ keys ''!@#$%^&*()_+'' @ [8, 9]
      @ keys ''QWERTYUIOP{}'' @ [10, 0] @ keys ''AS''
      @ keys ''DFGHJKL:'' @ [0x22] @ keys ''~'' @ [0] @ keys ''|ZXCV''
      @ keys ''BNM<>?'' @ [0] @ keys ''*''
      @ [0] @ keys '' '' @ [0, 0, 0, 0, 0, 0]
      @ [0, 0, 0, 0, 0, 0, 0] @ keys ''7''
      @ keys ''89-456+1''
      @ keys ''230.'' @ [0, 0, 0, 0])
     ([(0xC7, 0xE0), (0x9C, 10), (0xB5, 0x2F)] @ special_keys)"

text \<open>\<^verbatim>\<open>C(x)\<close> on a list of characters.\<close>

definition ctl_keys :: "string \<Rightarrow> u8 list" where
  "ctl_keys cs = map (\<lambda>k. k - 0x40) (keys cs)"

definition ctlmap :: "u8 \<Rightarrow> u8" where
  "ctlmap = key_table
     ([0, 0, 0, 0, 0, 0, 0, 0] @ [0, 0, 0, 0, 0, 0, 0, 0]
      @ ctl_keys ''QWERTYUIOP'' @ [0, 0, 13, 0] @ ctl_keys ''AS''
      @ ctl_keys ''DFGHJKL'' @ [0, 0, 0, 0, 0x5C - 0x40] @ ctl_keys ''ZXCV''
      @ ctl_keys ''BNM'' @ [0, 0] @ ctl_keys ''/'' @ [0, 0])
     ([(0x97, 0xE0), (0xB5, 0x2F - 0x40)] @ special_keys)"

definition charcode :: "u32 \<Rightarrow> u8 \<Rightarrow> u8" where
  "charcode i = (if i = 0 then normalmap else if i = 1 then shiftmap else ctlmap)"

text \<open>Caps lock swaps the case of letters.\<close>

definition caps :: "u32 \<Rightarrow> u8 \<Rightarrow> int" where
  "caps shift k =
     (let c = uint k
      in if shift AND CAPSLOCK \<noteq> 0
         then (if 0x61 \<le> c \<and> c \<le> 0x7A then c - 32 else if 0x41 \<le> c \<and> c \<le> 0x5A then c + 32 else c)
         else c)"

definition kbd_proc_data :: "int dm" where
  "kbd_proc_data =
     bindP (inb 0x64) (\<lambda>stat.
     if stat AND 0x01 = 0 then ret (-1)
     else if stat AND 0x20 \<noteq> 0 then ret (-1)
     else bindP (inb 0x60) (\<lambda>data.
     bindP (gets kbd_shift) (\<lambda>shift.
     if data = 0xE0 then thenP (modify (\<lambda>s. s\<lparr>kbd_shift := shift OR E0ESC\<rparr>)) (ret 0)
     else if data AND 0x80 \<noteq> 0
     then (let d = (if shift AND E0ESC \<noteq> 0 then data else data AND 0x7F)
           in thenP (modify (\<lambda>s. s\<lparr>kbd_shift := shift AND NOT (shiftcode d OR E0ESC)\<rparr>)) (ret 0))
     else (let d = (if shift AND E0ESC \<noteq> 0 then data OR 0x80 else data);
               sh0 = (if shift AND E0ESC \<noteq> 0 then shift AND NOT E0ESC else shift);
               sh = (sh0 OR shiftcode d) XOR togglecode d;
               c = caps sh (charcode (sh AND (CTL OR SHIFT)) d)
           in thenP (modify (\<lambda>s. s\<lparr>kbd_shift := sh\<rparr>))
              (thenP (whenP (NOT sh AND (CTL OR ALT) = 0 \<and> c = 0xE9)
                       (thenP (dev_cprintf ''Rebooting!\<newline>'' []) (outb 0x92 0x3)))
              (ret c))))))"

section \<open>The input buffer\<close>

abbreviation (input) CONSBUFSIZE :: nat where "CONSBUFSIZE \<equiv> 512"

definition cons_insert :: "u8 \<Rightarrow> io_state \<Rightarrow> io_state" where
  "cons_insert c s =
     (let w = cons_wpos s + 1
      in s\<lparr>cons_buf := (cons_buf s)(cons_wpos s := c),
           cons_wpos := (if w = CONSBUFSIZE then 0 else w)\<rparr>)"

text \<open>
  Characters are taken until the device has none. A device that always has one keeps the loop
  going; \<open>fuel\<close> bounds it.
\<close>

primrec cons_intr :: "nat \<Rightarrow> int dm \<Rightarrow> unit dm" where
  "cons_intr 0 proc = stop Spinning"
| "cons_intr (Suc fuel) proc =
     bindP proc (\<lambda>c.
     if c = -1 then ret ()
     else thenP (whenP (c \<noteq> 0) (modify (cons_insert (word_of_int c))))
          (cons_intr fuel proc))"

abbreviation (input) intr_fuel :: nat where "intr_fuel \<equiv> 65536"

definition serial_intr :: "unit dm" where
  "serial_intr = bindP (gets serial_exists) (\<lambda>e. whenP e (cons_intr intr_fuel serial_proc_data))"

definition kbd_intr :: "unit dm" where
  "kbd_intr = cons_intr intr_fuel kbd_proc_data"

definition kbd_init :: "unit dm" where
  "kbd_init = thenP kbd_intr (bindP (gets irq_mask) (\<lambda>m. irq_setmask_8259A (m AND NOT (push_bit 1 1))))"

definition cons_remove :: "io_state \<Rightarrow> u8 option \<times> io_state" where
  "cons_remove s =
     (if cons_rpos s \<noteq> cons_wpos s
      then (Some (cons_buf s (cons_rpos s)),
            s\<lparr>cons_rpos := (if cons_rpos s + 1 = CONSBUFSIZE then 0 else cons_rpos s + 1)\<rparr>)
      else (None, s))"

definition dev_cons_getc :: "int dm" where
  "dev_cons_getc =
     thenP serial_intr (thenP kbd_intr
     (bindP (gets cons_remove) (\<lambda>(r, s').
      case r of None \<Rightarrow> ret 0 | Some c \<Rightarrow> thenP (modify (\<lambda>_. s')) (ret (uint c)))))"

text \<open>\<open>getchar\<close>: at most \<open>fuel\<close> polls.\<close>

primrec getchar :: "nat \<Rightarrow> int dm" where
  "getchar 0 = stop Spinning"
| "getchar (Suc fuel) = bindP dev_cons_getc (\<lambda>c. if c = 0 then getchar fuel else ret c)"

definition cons_init :: "unit dm" where
  "cons_init =
     seqP [cga_init, kbd_init, serial_init,
       bindP (gets serial_exists) (\<lambda>e. whenP (\<not> e) (dev_cprintf ''Serial port does not exist!\<newline>'' []))]"

definition iscons :: "int \<Rightarrow> int" where
  "iscons fdnum = 1"

section \<open>The buffer is a queue\<close>

text \<open>A bounded queue of characters, as its producer and its consumer see it.\<close>

locale byte_queue =
  fixes put :: "u8 \<Rightarrow> 's \<Rightarrow> 's"
    and take_one :: "'s \<Rightarrow> u8 option \<times> 's"
    and waiting :: "'s \<Rightarrow> u8 list"
    and valid :: "'s \<Rightarrow> bool"
    and room :: nat
  assumes put_valid: "valid s \<Longrightarrow> valid (put c s)"
    and put_waiting: "valid s \<Longrightarrow> length (waiting s) < room \<Longrightarrow> waiting (put c s) = waiting s @ [c]"
    and take_empty: "valid s \<Longrightarrow> waiting s = [] \<Longrightarrow> take_one s = (None, s)"
    and take_next: "valid s \<Longrightarrow> waiting s = c # cs \<Longrightarrow>
      \<exists>t. take_one s = (Some c, t) \<and> waiting t = cs \<and> valid t"
begin

lemma put_all:
  assumes "valid s" and "length (waiting s) + length cs \<le> room"
  shows "waiting (fold put cs s) = waiting s @ cs \<and> valid (fold put cs s)"
  using assms
proof (induction cs arbitrary: s)
  case (Cons c cs)
  then show ?case using put_waiting [of s c] put_valid [of s c] by simp
qed simp

text \<open>\<open>n\<close> removals, collecting what they give.\<close>

fun take_many :: "nat \<Rightarrow> 's \<Rightarrow> u8 list" where
  "take_many 0 s = []"
| "take_many (Suc n) s = (case take_one s of (None, t) \<Rightarrow> take_many n t | (Some c, t) \<Rightarrow> c # take_many n t)"

lemma take_many_waiting: "valid s \<Longrightarrow> take_many n s = take n (waiting s)"
proof (induction n arbitrary: s)
  case (Suc n)
  show ?case
  proof (cases "waiting s")
    case Nil
    then show ?thesis using Suc take_empty by simp
  next
    case (Cons c cs)
    then obtain t where "take_one s = (Some c, t)" "waiting t = cs" "valid t"
      using take_next [OF Suc.prems Cons] by blast
    then show ?thesis using Suc.IH Cons by simp
  qed
qed simp

lemma fifo:
  assumes "valid s" and "waiting s = []" and "length cs \<le> room"
  shows "take_many (length cs) (fold put cs s) = cs"
  using put_all [OF assms(1), of cs] take_many_waiting assms(2,3) by simp

end

definition cons_valid :: "io_state \<Rightarrow> bool" where
  "cons_valid s \<longleftrightarrow> cons_rpos s < CONSBUFSIZE \<and> cons_wpos s < CONSBUFSIZE"

definition cons_length :: "io_state \<Rightarrow> nat" where
  "cons_length s = (cons_wpos s + CONSBUFSIZE - cons_rpos s) mod CONSBUFSIZE"

definition cons_waiting :: "io_state \<Rightarrow> u8 list" where
  "cons_waiting s = map (\<lambda>i. cons_buf s ((cons_rpos s + i) mod CONSBUFSIZE)) [0..<cons_length s]"

lemma mod_512: "x < 1024 \<Longrightarrow> x mod 512 = (if x < 512 then x else x - (512 :: nat))"
  by (simp add: mod_if)

lemma cons_length_eq:
  "cons_valid s \<Longrightarrow> cons_length s =
     (if cons_rpos s \<le> cons_wpos s then cons_wpos s - cons_rpos s
      else cons_wpos s + 512 - cons_rpos s)"
  by (auto simp: cons_length_def cons_valid_def mod_512)

lemma cons_insert_valid: "cons_valid s \<Longrightarrow> cons_valid (cons_insert c s)"
  by (auto simp: cons_valid_def cons_insert_def Let_def)

lemma cons_insert_waiting:
  assumes v: "cons_valid s" and "length (cons_waiting s) < 511"
  shows "cons_waiting (cons_insert c s) = cons_waiting s @ [c]"
proof -
  have len: "cons_length s < 511" using assms(2) by (simp add: cons_waiting_def)
  then have len': "cons_length (cons_insert c s) = Suc (cons_length s)"
    using v cons_insert_valid [OF v, of c] len
    by (auto simp: cons_length_eq cons_insert_def cons_valid_def Let_def split: if_splits)
  have r: "cons_rpos (cons_insert c s) = cons_rpos s" by (simp add: cons_insert_def Let_def)
  have buf: "cons_buf (cons_insert c s) = (cons_buf s)(cons_wpos s := c)"
    by (simp add: cons_insert_def Let_def)
  have w: "(cons_rpos s + cons_length s) mod 512 = cons_wpos s"
    using v by (auto simp: cons_length_eq cons_valid_def mod_512)
  have "(cons_rpos s + i) mod 512 \<noteq> cons_wpos s" if "i < cons_length s" for i
    using that v by (auto simp: cons_length_eq cons_valid_def mod_512 split: if_splits)
  then show ?thesis
    unfolding cons_waiting_def len' r buf by (simp add: w)
qed

lemma cons_remove_empty: "cons_valid s \<Longrightarrow> cons_waiting s = [] \<Longrightarrow> cons_remove s = (None, s)"
  by (auto simp: cons_waiting_def cons_length_eq cons_remove_def cons_valid_def split: if_splits)

lemma cons_remove_next:
  assumes v: "cons_valid s" and w: "cons_waiting s = c # cs"
  shows "\<exists>t. cons_remove s = (Some c, t) \<and> cons_waiting t = cs \<and> cons_valid t"
proof -
  have pos: "0 < cons_length s"
    using w by (cases "cons_length s") (auto simp: cons_waiting_def simp del: upt_Suc)
  then have ne: "cons_rpos s \<noteq> cons_wpos s" using v by (auto simp: cons_length_eq)
  let ?t = "s\<lparr>cons_rpos := (if cons_rpos s + 1 = 512 then 0 else cons_rpos s + 1)\<rparr>"
  have vt: "cons_valid ?t" using v by (auto simp: cons_valid_def)
  have len: "cons_length s = Suc (cons_length ?t)"
    using v vt ne by (auto simp: cons_length_eq cons_valid_def split: if_splits)
  have shift: "(cons_rpos s + Suc i) mod 512 = (cons_rpos ?t + i) mod 512" for i
    using v by (auto simp: cons_valid_def)
  have "cons_waiting s = cons_buf s (cons_rpos s mod 512)
      # map (\<lambda>i. cons_buf s ((cons_rpos s + Suc i) mod 512)) [0..<cons_length ?t]"
    unfolding cons_waiting_def len
    by (simp add: upt_conv_Cons map_Suc_upt [symmetric] comp_def del: upt_Suc)
  also have "\<dots> = cons_buf s (cons_rpos s) # cons_waiting ?t"
    using v unfolding shift by (simp add: cons_waiting_def cons_valid_def)
  finally have "c = cons_buf s (cons_rpos s)" "cs = cons_waiting ?t" using w by simp_all
  then show ?thesis using ne vt by (simp add: cons_remove_def)
qed

interpretation console: byte_queue cons_insert cons_remove cons_waiting cons_valid 511
  by unfold_locales
    (blast intro: cons_insert_valid cons_insert_waiting cons_remove_empty cons_remove_next)+

text \<open>The 512th waiting character makes the buffer look empty: all of them are lost.\<close>

lemma cons_overflow:
  assumes v: "cons_valid s" and "length (cons_waiting s) = 511"
  shows "cons_waiting (cons_insert c s) = []"
  using assms cons_insert_valid [OF v, of c]
  by (auto simp: cons_waiting_def cons_length_eq cons_insert_def cons_valid_def Let_def split: if_splits)

section \<open>The screen\<close>

text \<open>
  The cursor stays on the screen, so \<open>cga_putc\<close> writes inside the screen memory only, and
  printing a character always comes back. \<open>at p\<close> fixes the cursor.
\<close>

definition crt_ok :: "io_state \<Rightarrow> bool" where
  "crt_ok s \<longleftrightarrow> unat (crt_pos s) < CRT_SIZE"

abbreviation no_stop :: "stop \<Rightarrow> io_state \<Rightarrow> bool" where
  "no_stop \<equiv> \<lambda>e s. False"

lemma inb_outb_crt:
  "triple crt_ok (inb port) (\<lambda>_. crt_ok) no_stop" "triple crt_ok (outb port b) (\<lambda>_. crt_ok) no_stop"
  unfolding inb_def outb_def
  by (auto simp: triple_def prog_simps crt_ok_def)

lemma seqP_triple:
  "(\<And>m. m \<in> set ms \<Longrightarrow> triple P m (\<lambda>_. P) E) \<Longrightarrow> triple P (seqP ms) (\<lambda>_. P) E"
  by (induction ms) (auto intro: triple_ret triple_then)

lemma delay_crt: "triple crt_ok delay (\<lambda>_. crt_ok) no_stop"
  unfolding delay_def by (intro triple_for triple_bind [OF inb_outb_crt(1)] triple_ret)

lemma wait_ready_crt: "triple crt_ok (wait_ready n port flag) (\<lambda>_. crt_ok) no_stop"
proof (induction n)
  case 0
  then show ?case by (auto intro!: triple_bind [OF inb_outb_crt(1)] triple_ret)
next
  case (Suc n)
  then show ?case
    by (auto intro!: triple_bind [OF inb_outb_crt(1)] triple_ret triple_then [OF delay_crt])
qed

lemma ports_crt:
  "triple crt_ok (serial_putc c) (\<lambda>_. crt_ok) no_stop" "triple crt_ok (lpt_putc c) (\<lambda>_. crt_ok) no_stop"
proof -
  show "triple crt_ok (serial_putc c) (\<lambda>_. crt_ok) no_stop"
    unfolding serial_putc_def by (intro triple_then [OF wait_ready_crt] inb_outb_crt)
  show "triple crt_ok (lpt_putc c) (\<lambda>_. crt_ok) no_stop"
    unfolding lpt_putc_def
    by (rule seqP_triple) (use inb_outb_crt wait_ready_crt in \<open>force\<close>)
qed

lemma unat_minus_mod:
  fixes p n :: u16
  shows "unat (p - p mod n) \<le> unat p"
proof -
  have "p mod n \<le> p" by (simp add: word_le_nat_alt unat_mod)
  then have "unat (p - p mod n) = unat p - unat (p mod n)" by (rule unat_sub)
  then show ?thesis by simp
qed

lemma crt_pos_step:
  fixes p :: u16
  assumes "unat p < 2000"
  shows "unat (p + 80) = unat p + 80" "unat (p + 1) = unat p + 1"
    and "0 < p \<Longrightarrow> unat (p - 1) = unat p - 1"
  using assms by (simp_all add: unat_word_ariths unat_sub word_le_nat_alt word_less_nat_alt)

abbreviation with_attr :: "u32 \<Rightarrow> u32" where
  "with_attr c \<equiv> if c AND NOT 0xFF = 0 then c OR 0x0700 else c"

lemma cga_put_crt:
  assumes blank: "with_attr c AND 0xff = 9 \<Longrightarrow> triple crt_ok blank (\<lambda>_. crt_ok) no_stop"
  shows "triple crt_ok (cga_put blank c) (\<lambda>_. crt_ok) no_stop"
proof -
  let ?near = "\<lambda>s. unat (crt_pos s) < 2080"
  have scroll: "triple ?near (modify (\<lambda>s. if unat (crt_pos s) \<ge> CRT_SIZE then crt_scroll s else s))
      (\<lambda>_. crt_ok) no_stop"
    by (rule triple_modify) (auto simp: crt_ok_def crt_scroll_def unat_sub word_le_nat_alt)
  have out: "triple crt_ok (bindP (gets (\<lambda>s. (addr_6845 s, crt_pos s))) (\<lambda>(a, p).
      seqP [outb a 14, outb (a + 1) (ucast (drop_bit 8 p)), outb a 15, outb (a + 1) (ucast p)]))
      (\<lambda>_. crt_ok) no_stop"
  proof (rule triple_bind [OF triple_gets])
    show "crt_ok s \<Longrightarrow> crt_ok s" for s .
    show "triple crt_ok (case ap of (a, p) \<Rightarrow> seqP [outb a 14, outb (a + 1) (ucast (drop_bit 8 p)),
        outb a 15, outb (a + 1) (ucast p)]) (\<lambda>_. crt_ok) no_stop" for ap :: "u32 \<times> u16"
      unfolding case_prod_beta by (rule seqP_triple) (use inb_outb_crt(2) in force)
  qed
  have blanks: "with_attr c AND 0xff = 9 \<Longrightarrow>
      triple crt_ok (seqP [blank, blank, blank, blank, blank]) (\<lambda>_. ?near) no_stop"
    by (rule triple_conseq [OF seqP_triple [where P = crt_ok]]) (use blank in \<open>auto simp: crt_ok_def\<close>)
  show ?thesis
    unfolding cga_put_def Let_def
    apply (rule triple_then [OF _ triple_then [OF scroll out]])
    apply (intro triple_if triple_modify)
    subgoal for s by (auto simp: crt_ok_def crt_store_def crt_pos_step)
    subgoal for s
      using unat_minus_mod [of "crt_pos s + 80" 80] by (simp add: crt_ok_def crt_pos_step)
    subgoal for s
      using unat_minus_mod [of "crt_pos s" 80] by (simp add: crt_ok_def)
    subgoal by (rule blanks)
    subgoal for s by (simp add: crt_ok_def crt_store_def crt_pos_step)
    done
qed

lemma cons_putc_crt: "triple crt_ok (cons_putc c) (\<lambda>_. crt_ok) no_stop"
proof -
  have inner: "triple crt_ok (cga_put (stop BadAccess) 0x20) (\<lambda>_. crt_ok) no_stop"
    by (rule cga_put_crt) simp
  have "triple crt_ok put_blank (\<lambda>_. crt_ok) no_stop"
    unfolding put_blank_def by (rule seqP_triple) (use ports_crt inner in force)
  then have "triple crt_ok (cga_putc c) (\<lambda>_. crt_ok) no_stop"
    unfolding cga_putc_def by (rule cga_put_crt)
  then show ?thesis
    unfolding cons_putc_def by (intro seqP_triple) (use ports_crt in force)
qed

text \<open>Printing a character returns, with the cursor on the screen.\<close>

lemma cons_putc_run:
  assumes "crt_ok s"
  shows "\<exists>t. run (cons_putc c) s = (Ret (), t) \<and> crt_ok t"
proof -
  obtain r t where rt: "run (cons_putc c) s = (r, t)" by (cases "run (cons_putc c) s")
  then show ?thesis
    using triple_Ret [OF cons_putc_crt assms, of c] triple_Stop [OF cons_putc_crt assms, of c]
    by (cases r) auto
qed

end
