(* ===== verification/MpConfig.thy ===== *)
theory MpConfig
  imports PmapUser
begin

text \<open>
  Multiprocessor start-up: the search for and the parsing of the MP configuration table
  (\<^verbatim>\<open>kern/mpconfig.c\<close>) and the local APIC (\<^verbatim>\<open>kern/lapic.c\<close>). Tables are read from physical
  memory. The registers of the local APIC are a device: what a read gives is arbitrary, every
  write is logged.
\<close>

section \<open>Physical memory by bytes\<close>

definition phys8 :: "kstate \<Rightarrow> u32 \<Rightarrow> u8" where
  "phys8 s pa =
     ucast (drop_bit (8 * (unat pa mod 4)) (pmem s (unat (PGNUM pa)) (unat (PGOFF pa) div 4)))"

definition phys16 :: "kstate \<Rightarrow> u32 \<Rightarrow> u16" where
  "phys16 s pa = (ucast (phys8 s pa) OR push_bit 8 (ucast (phys8 s (pa + 1))))"

definition phys32 :: "kstate \<Rightarrow> u32 \<Rightarrow> u32" where
  "phys32 s pa = (ucast (phys16 s pa) OR push_bit 16 (ucast (phys16 s (pa + 2))))"

definition bytes_at :: "kstate \<Rightarrow> u32 \<Rightarrow> nat \<Rightarrow> u8 list" where
  "bytes_at s pa n = map (\<lambda>i. phys8 s (pa + of_nat i)) [0..<n]"

definition is_string :: "kstate \<Rightarrow> u32 \<Rightarrow> string \<Rightarrow> bool" where
  "is_string s pa str \<longleftrightarrow> bytes_at s pa (length str) = map (\<lambda>c. of_nat (of_char c)) str"

section \<open>Searching\<close>

text \<open>\<^verbatim>\<open>sum\<close>, whose \<^verbatim>\<open>int\<close> is returned as a byte.\<close>

definition byte_sum :: "kstate \<Rightarrow> u32 \<Rightarrow> nat \<Rightarrow> u8" where
  "byte_sum s pa n = sum_list (bytes_at s pa n)"

abbreviation (input) sizeof_mp :: nat where "sizeof_mp \<equiv> 16"

definition is_mp :: "kstate \<Rightarrow> u32 \<Rightarrow> bool" where
  "is_mp s pa \<longleftrightarrow> is_string s pa ''_MP_'' \<and> byte_sum s pa sizeof_mp = 0"

definition mpsearch1 :: "u32 \<Rightarrow> nat \<Rightarrow> u32 option km" where
  "mpsearch1 a len =
     bindP (KADDR a) (\<lambda>_. bindP (KADDR (a + of_nat len)) (\<lambda>_.
     gets (\<lambda>s. map_option (\<lambda>i. a + of_nat (sizeof_mp * i))
                 (find (\<lambda>i. is_mp s (a + of_nat (sizeof_mp * i))) [0..<(len + 15) div sizeof_mp]))))"

definition mpsearch :: "u32 option km" where
  "mpsearch =
     bindP (KADDR 0x400) (\<lambda>_.
     bindP (gets (\<lambda>s. ucast (phys16 s (0x400 + 0x0E)) :: u32)) (\<lambda>ebda.
     bindP (if ebda \<noteq> 0 then mpsearch1 (push_bit 4 ebda) 1024
            else bindP (gets (\<lambda>s. ucast (phys16 s (0x400 + 0x13)) * 1024)) (\<lambda>p. mpsearch1 (p - 1024) 1024))
       (\<lambda>r. case r of Some mp \<Rightarrow> ret (Some mp) | None \<Rightarrow> mpsearch1 0xF0000 0x10000)))"

text \<open>Offsets of the fields used, in \<^verbatim>\<open>struct mp\<close>, \<^verbatim>\<open>struct mpconf\<close> and \<^verbatim>\<open>struct mpproc\<close>.\<close>

abbreviation (input) mp_physaddr :: u32 where "mp_physaddr \<equiv> 4"
abbreviation (input) mp_type :: u32 where "mp_type \<equiv> 11"
abbreviation (input) mp_imcrp :: u32 where "mp_imcrp \<equiv> 12"
abbreviation (input) conf_length :: u32 where "conf_length \<equiv> 4"
abbreviation (input) conf_version :: u32 where "conf_version \<equiv> 6"
abbreviation (input) conf_entry :: u32 where "conf_entry \<equiv> 34"
abbreviation (input) conf_lapicaddr :: u32 where "conf_lapicaddr \<equiv> 36"
abbreviation (input) conf_xlength :: u32 where "conf_xlength \<equiv> 40"
abbreviation (input) conf_xchecksum :: u32 where "conf_xchecksum \<equiv> 42"
abbreviation (input) conf_entries :: u32 where "conf_entries \<equiv> 44"
abbreviation (input) proc_apicid :: u32 where "proc_apicid \<equiv> 1"
abbreviation (input) proc_flags :: u32 where "proc_flags \<equiv> 3"
abbreviation (input) MPPROC_BOOT :: u8 where "MPPROC_BOOT \<equiv> 0x02"

abbreviation (input) sayP :: "string \<Rightarrow> vararg list \<Rightarrow> unit km" where
  "sayP fmt ap \<equiv> thenP (cprintf fmt ap) (ret ())"

text \<open>The structure found and the table, or nothing.\<close>

definition mpconfig :: "(u32 \<times> u32) option km" where
  "mpconfig =
     bindP mpsearch (\<lambda>r.
     case r of
       None \<Rightarrow> ret None
     | Some mp \<Rightarrow>
         bindP (gets (\<lambda>s. (phys32 s (mp + mp_physaddr), phys8 s (mp + mp_type)))) (\<lambda>(conf, ty).
         if conf = 0 \<or> ty \<noteq> 0
         then thenP (sayP ''SMP: Default configurations not implemented\<newline>'' []) (ret None)
         else bindP (KADDR conf) (\<lambda>_.
         bindP (gets (\<lambda>s. s)) (\<lambda>s.
         let len = unat (phys16 s (conf + conf_length)) in
         if \<not> is_string s conf ''PCMP''
         then thenP (sayP ''SMP: Incorrect MP configuration table signature\<newline>'' []) (ret None)
         else if byte_sum s conf len \<noteq> 0
         then thenP (sayP ''SMP: Bad MP configuration checksum\<newline>'' []) (ret None)
         else if phys8 s (conf + conf_version) \<noteq> 1 \<and> phys8 s (conf + conf_version) \<noteq> 4
         then thenP (sayP ''SMP: Unsupported MP version %d\<newline>'' [VInt (ucast (phys8 s (conf + conf_version)))]) (ret None)
         else if byte_sum s (conf + of_nat len) (unat (phys16 s (conf + conf_xlength)))
                   + phys8 s (conf + conf_xchecksum) \<noteq> 0
         then thenP (sayP ''SMP: Bad MP configuration extended checksum\<newline>'' []) (ret None)
         else ret (Some (mp, conf))))))"

section \<open>The processors\<close>

definition add_cpu :: "kstate \<Rightarrow> kstate" where
  "add_cpu s = s\<lparr>cpus := (cpus s)(ncpu s := (cpus s (ncpu s))\<lparr>CpuInfo.cpu_id := of_nat (ncpu s)\<rparr>),
                 ncpu := ncpu s + 1\<rparr>"

definition mp_processor :: "u32 \<Rightarrow> unit km" where
  "mp_processor p =
     bindP (gets (\<lambda>s. (phys8 s (p + proc_flags), phys8 s (p + proc_apicid)))) (\<lambda>(flags, apicid).
     thenP (whenP (flags AND MPPROC_BOOT \<noteq> 0) (modify (\<lambda>s. s\<lparr>bootcpu := ncpu s\<rparr>)))
     (bindP (gets ncpu) (\<lambda>n.
      if n < NCPU then modify add_cpu
      else sayP ''SMP: too many CPUs, CPU %d disabled\<newline>'' [VInt (ucast apicid)])))"

text \<open>\<open>n\<close> entries are left; an unknown type ends the loop.\<close>

primrec mp_entries :: "nat \<Rightarrow> u32 \<Rightarrow> unit km" where
  "mp_entries 0 p = ret ()"
| "mp_entries (Suc n) p =
     bindP (gets (\<lambda>s. phys8 s p)) (\<lambda>ty.
     if ty = 0 then thenP (mp_processor p) (mp_entries n (p + 20))
     else if ty \<le> 4 then mp_entries n (p + 8)
     else thenP (sayP ''mpinit: unknown config type %x\<newline>'' [VInt (ucast ty)])
          (modify (\<lambda>s. s\<lparr>ismp := False\<rparr>)))"

text \<open>\<open>imcr\<close> is what \<^verbatim>\<open>inb(0x23)\<close> reads. \<^verbatim>\<open>bootcpu\<close> may point past the array.\<close>

definition mp_init :: "u8 \<Rightarrow> unit km" where
  "mp_init imcr =
     thenP (modify (\<lambda>s. s\<lparr>bootcpu := 0\<rparr>))
     (bindP mpconfig (\<lambda>r.
      case r of
        None \<Rightarrow> ret ()
      | Some (mp, conf) \<Rightarrow>
          thenP (modify (\<lambda>s. s\<lparr>ismp := True, lapicaddr := phys32 s (conf + conf_lapicaddr)\<rparr>))
          (bindP (gets (\<lambda>s. unat (phys16 s (conf + conf_entry)))) (\<lambda>entries.
           thenP (mp_entries entries (conf + conf_entries))
           (bindP (gets bootcpu) (\<lambda>b.
            if b \<ge> NCPU then stop BadAccess
            else thenP (modify (\<lambda>s. s\<lparr>cpus := (cpus s)(b := (cpus s b)\<lparr>cpu_status := CPU_STARTED\<rparr>)\<rparr>))
            (bindP (gets ismp) (\<lambda>ok.
             if \<not> ok
             then thenP (modify (\<lambda>s. s\<lparr>ncpu := 1, lapicaddr := 0\<rparr>))
                  (sayP ''SMP: configuration not found, SMP disabled\<newline>'' [])
             else bindP (gets (\<lambda>s. (CpuInfo.cpu_id (cpus s b), ncpu s, phys8 s (mp + mp_imcrp)))) (\<lambda>(i, n, im).
                  thenP (sayP ''SMP: CPU %d found %d CPU(s)\<newline>'' [VInt (ucast i), VInt (of_nat n)])
                  (if im \<noteq> 0
                   then thenP (sayP ''SMP: Setting IMCR to switch from PIC mode to symmetric I/O mode\<newline>'' [])
                        (modify (\<lambda>s. s\<lparr>port_log := port_log s @ [(0x22, 0x70), (0x23, imcr OR 1)]\<rparr>))
                   else ret ()))))))))))"

section \<open>The local APIC\<close>

abbreviation (input) LAPIC_ID :: nat where "LAPIC_ID \<equiv> 8"
abbreviation (input) LAPIC_VER :: nat where "LAPIC_VER \<equiv> 12"
abbreviation (input) LAPIC_TPR :: nat where "LAPIC_TPR \<equiv> 32"
abbreviation (input) LAPIC_EOI :: nat where "LAPIC_EOI \<equiv> 44"
abbreviation (input) LAPIC_SVR :: nat where "LAPIC_SVR \<equiv> 60"
abbreviation (input) LAPIC_ESR :: nat where "LAPIC_ESR \<equiv> 160"
abbreviation (input) LAPIC_ICRLO :: nat where "LAPIC_ICRLO \<equiv> 192"
abbreviation (input) LAPIC_ICRHI :: nat where "LAPIC_ICRHI \<equiv> 196"
abbreviation (input) LAPIC_TIMER :: nat where "LAPIC_TIMER \<equiv> 200"
abbreviation (input) LAPIC_PCINT :: nat where "LAPIC_PCINT \<equiv> 208"
abbreviation (input) LAPIC_LINT0 :: nat where "LAPIC_LINT0 \<equiv> 212"
abbreviation (input) LAPIC_LINT1 :: nat where "LAPIC_LINT1 \<equiv> 216"
abbreviation (input) LAPIC_ERROR :: nat where "LAPIC_ERROR \<equiv> 220"
abbreviation (input) LAPIC_TICR :: nat where "LAPIC_TICR \<equiv> 224"
abbreviation (input) LAPIC_TDCR :: nat where "LAPIC_TDCR \<equiv> 248"
abbreviation (input) DELIVS :: u32 where "DELIVS \<equiv> 0x1000"

text \<open>Before the registers are mapped \<^verbatim>\<open>lapic\<close> is null.\<close>

definition lapic_read :: "nat \<Rightarrow> u32 km" where
  "lapic_read i =
     bindP (gets lapic) (\<lambda>l.
     if l = 0 then stop BadAccess
     else bindP (gets (\<lambda>s. lapic_in s (lapic_count s) i)) (\<lambda>v.
          thenP (modify (\<lambda>s. s\<lparr>lapic_count := lapic_count s + 1\<rparr>)) (ret v)))"

definition lapicw :: "nat \<Rightarrow> u32 \<Rightarrow> unit km" where
  "lapicw i v =
     bindP (gets lapic) (\<lambda>l.
     if l = 0 then stop BadAccess
     else thenP (modify (\<lambda>s. s\<lparr>lapic_log := lapic_log s @ [(i, v)]\<rparr>))
          (bindP (lapic_read LAPIC_ID) (\<lambda>_. ret ())))"

text \<open>\<^verbatim>\<open>while (lapic[ICRLO] & DELIVS)\<close>, at most \<open>fuel\<close> times.\<close>

primrec lapic_wait :: "nat \<Rightarrow> unit km" where
  "lapic_wait 0 = stop Spinning"
| "lapic_wait (Suc fuel) =
     bindP (lapic_read LAPIC_ICRLO) (\<lambda>v. if v AND DELIVS \<noteq> 0 then lapic_wait fuel else ret ())"

abbreviation (input) lapic_fuel :: nat where "lapic_fuel \<equiv> 65536"

definition lapic_init :: "unit km" where
  "lapic_init =
     bindP (gets lapicaddr) (\<lambda>addr.
     if addr = 0 then ret ()
     else bindP (mmio_map_region addr 4096) (\<lambda>va.
          seqP [modify (\<lambda>s. s\<lparr>lapic := va\<rparr>),
            lapicw LAPIC_SVR (0x100 OR (32 + 7)),
            lapicw LAPIC_TDCR 0xB,
            lapicw LAPIC_TIMER (0x20000 OR (32 + 0)),
            lapicw LAPIC_TICR 10000000,
            bindP (gets (\<lambda>s. cpunum s \<noteq> bootcpu s)) (\<lambda>ap. whenP ap (lapicw LAPIC_LINT0 0x10000)),
            lapicw LAPIC_LINT1 0x10000,
            bindP (lapic_read LAPIC_VER) (\<lambda>v.
              whenP (4 \<le> unat (drop_bit 16 v AND 0xFF)) (lapicw LAPIC_PCINT 0x10000)),
            lapicw LAPIC_ERROR (32 + 19),
            lapicw LAPIC_ESR 0, lapicw LAPIC_ESR 0,
            lapicw LAPIC_EOI 0,
            lapicw LAPIC_ICRHI 0,
            lapicw LAPIC_ICRLO (0x80000 OR 0x500 OR 0x8000),
            lapic_wait lapic_fuel,
            lapicw LAPIC_TPR 0]))"

definition lapic_cpunum :: "nat km" where
  "lapic_cpunum =
     bindP (gets lapic) (\<lambda>l.
     if l \<noteq> 0 then bindP (lapic_read LAPIC_ID) (\<lambda>v. ret (unat (drop_bit 24 v))) else ret 0)"

definition lapic_eoi :: "unit km" where
  "lapic_eoi = bindP (gets lapic) (\<lambda>l. whenP (l \<noteq> 0) (lapicw LAPIC_EOI 0))"

text \<open>\<open>microdelay\<close> is empty. The warm reset vector is at physical address \<open>0x467\<close>.\<close>

definition set_warm_reset :: "u32 \<Rightarrow> kstate \<Rightarrow> kstate" where
  "set_warm_reset addr s =
     (let w0 = pmem s 0 (0x464 div 4); w1 = pmem s 0 (0x468 div 4);
          v = drop_bit 4 addr
      in store_word 0 (0x468 div 4)
           (((w1 AND 0xFF000000) OR push_bit 8 (v AND 0xFFFF)))
         (store_word 0 (0x464 div 4) (w0 AND 0x00FFFFFF) s))"

definition lapic_startap :: "u8 \<Rightarrow> u32 \<Rightarrow> unit km" where
  "lapic_startap apicid addr =
     seqP [
       modify (\<lambda>s. s\<lparr>port_log := port_log s @ [(0x70, 0xF), (0x71, 0x0A)]\<rparr>),
       bindP (KADDR (push_bit 4 0x40 OR 0x67)) (\<lambda>_. modify (set_warm_reset addr)),
       lapicw LAPIC_ICRHI (push_bit 24 (ucast apicid)),
       lapicw LAPIC_ICRLO (0x500 OR 0x8000 OR 0x4000),
       lapicw LAPIC_ICRLO (0x500 OR 0x8000),
       forP [0..<2] (\<lambda>i. seqP [lapicw LAPIC_ICRHI (push_bit 24 (ucast apicid)),
                              lapicw LAPIC_ICRLO (0x600 OR drop_bit 12 addr)])]"

definition lapic_ipi :: "u32 \<Rightarrow> unit km" where
  "lapic_ipi vector = thenP (lapicw LAPIC_ICRLO (0xC0000 OR vector)) (lapic_wait lapic_fuel)"

section \<open>Properties\<close>

text \<open>The structure found has the signature and a zero checksum, and none before it does.\<close>

lemma mpsearch1_found:
  assumes "run (mpsearch1 a len) s = (Ret (Some mp), t)"
  shows "t = s \<and> (\<exists>i < (len + 15) div sizeof_mp. mp = a + of_nat (sizeof_mp * i) \<and> is_mp s mp
    \<and> (\<forall>j < i. \<not> is_mp s (a + of_nat (sizeof_mp * j))))"
proof -
  let ?good = "\<lambda>i. is_mp s (a + of_nat (sizeof_mp * i))"
  have res: "map_option (\<lambda>i. a + of_nat (sizeof_mp * i)) (find ?good [0..<(len + 15) div sizeof_mp]) = Some mp"
    and ts: "t = s"
    using assms by (auto simp: mpsearch1_def prog_simps split: if_splits)
  then obtain i where i: "find ?good [0..<(len + 15) div sizeof_mp] = Some i" "mp = a + of_nat (sizeof_mp * i)"
    by auto
  then have "i < (len + 15) div sizeof_mp \<and> ?good i \<and> (\<forall>j < i. \<not> ?good j)"
    by (auto simp: find_Some_iff)
  then show ?thesis using i(2) ts by blast
qed

text \<open>The table never lists more than \<open>NCPU\<close> processors, and each is numbered by its slot.\<close>

definition cpus_ok :: "kstate \<Rightarrow> bool" where
  "cpus_ok s \<longleftrightarrow> ncpu s \<le> NCPU \<and> (\<forall>i < ncpu s. CpuInfo.cpu_id (cpus s i) = of_nat i)"

lemma sayP_keeps: "keeps (\<lambda>s. (ncpu s, cpus s)) (cprintf fmt ap)"
  by (auto simp: keeps_def run_def cprintf_def split: option.splits)

lemma triple_keeps:
  assumes "keeps f m" and "\<And>s t. f t = f s \<Longrightarrow> P s \<Longrightarrow> P t"
  shows "triple P m (\<lambda>_. P) (\<lambda>_. P)"
proof -
  have "P (snd (run m s))" if "P s" for s using assms that unfolding keeps_def by blast
  then show ?thesis by (fastforce simp: triple_def split: prod.splits outcome.splits)
qed

lemma say_cpus: "triple cpus_ok (sayP fmt ap) (\<lambda>_. cpus_ok) (\<lambda>_. cpus_ok)"
proof -
  have "triple cpus_ok (cprintf fmt ap) (\<lambda>_. cpus_ok) (\<lambda>_. cpus_ok)"
    by (rule triple_keeps [OF sayP_keeps]) (simp add: cpus_ok_def)
  then show ?thesis by (intro triple_then triple_ret) simp_all
qed

lemma mp_processor_cpus: "triple cpus_ok (mp_processor p) (\<lambda>_. cpus_ok) (\<lambda>_. cpus_ok)"
proof -
  have add: "triple (\<lambda>s. cpus_ok s \<and> ncpu s = n) (modify add_cpu) (\<lambda>_. cpus_ok) (\<lambda>_. cpus_ok)"
    if "n < NCPU" for n
    using that by (intro triple_modify) (auto simp: cpus_ok_def add_cpu_def less_Suc_eq)
  have say: "triple (\<lambda>s. cpus_ok s \<and> ncpu s = n) (sayP fmt ap) (\<lambda>_. cpus_ok) (\<lambda>_. cpus_ok)" for n fmt ap
    by (rule triple_conseq [OF say_cpus]) auto
  have boot: "triple cpus_ok (whenP b (modify (\<lambda>s. s\<lparr>bootcpu := ncpu s\<rparr>))) (\<lambda>_. cpus_ok) (\<lambda>_. cpus_ok)" for b
    unfolding whenP_def by (intro triple_if triple_modify triple_ret) (auto simp: cpus_ok_def)
  show ?thesis
    unfolding mp_processor_def
    apply (rule triple_bind [OF triple_gets [where Q = "\<lambda>_. cpus_ok"]], assumption)
    apply (simp only: case_prod_beta)
    apply (rule triple_then [OF boot])
    apply (rule triple_bind [OF triple_gets [where Q = "\<lambda>n s. cpus_ok s \<and> ncpu s = n"]], simp)
    apply (rule triple_if [OF add say], assumption)
    done
qed

lemma mp_entries_cpus: "triple cpus_ok (mp_entries n p) (\<lambda>_. cpus_ok) (\<lambda>_. cpus_ok)"
proof (induction n arbitrary: p)
  case 0
  then show ?case by (simp add: triple_ret)
next
  case (Suc n)
  have stop_here: "triple cpus_ok (thenP (sayP fmt ap) (modify (\<lambda>s. s\<lparr>ismp := False\<rparr>))) (\<lambda>_. cpus_ok) (\<lambda>_. cpus_ok)"
    for fmt ap
    by (intro triple_then [OF say_cpus] triple_modify) (simp add: cpus_ok_def)
  show ?case
    unfolding mp_entries.simps
    apply (rule triple_bind [OF triple_gets [where Q = "\<lambda>_. cpus_ok"]], assumption)
    apply (intro triple_if triple_then [OF mp_processor_cpus] Suc stop_here)
    done
qed

end
