(* ===== verification/Init.thy ===== *)
theory Init
  imports Trap PmapCheck Console MpConfig
begin

text \<open>
  \<^verbatim>\<open>kern/init.c\<close>: the start of the kernel on the boot processor and on the others, and what
  happens after a panic. The machine is the kernel state and the state of the devices.

  Elsewhere in the development a panic is the value \<open>Stop (Panic msg)\<close>; \<open>kpanic\<close> is the code
  that runs from there on.
\<close>

record machine =
  mc_kernel :: kstate
  mc_devices :: io_state
  mpentry_kstack :: u32

type_synonym 'a mm = "(machine, 'a) prog"

definition onK :: "'a km \<Rightarrow> 'a mm" where
  "onK m s = (case run m (mc_kernel s) of (r, t) \<Rightarrow> (r, s\<lparr>mc_kernel := t\<rparr>))"

definition onD :: "'a dm \<Rightarrow> 'a mm" where
  "onD m s = (case run m (mc_devices s) of (r, t) \<Rightarrow> (r, s\<lparr>mc_devices := t\<rparr>))"

section \<open>Panic\<close>

text \<open>\<open>cli\<close> clears the interrupt flag. \<^verbatim>\<open>panicstr\<close> is kept as a flag.\<close>

definition kpanic :: "string \<Rightarrow> u32 \<Rightarrow> string \<Rightarrow> vararg list \<Rightarrow> unit km" where
  "kpanic file line fmt ap =
     bindP (gets panicstr) (\<lambda>panicked.
     thenP (if panicked then ret ()
            else thenP (modify (\<lambda>s. s\<lparr>panicstr := True, eflags := eflags s AND NOT FL_IF\<rparr>))
                 (bindP (gets cpunum) (\<lambda>c.
                  thenP (printP ''kernel panic on CPU %d at %s:%d: ''
                          [VInt (of_nat c), VStr (Some file), VInt line])
                  (thenP (printP fmt ap)
                  (printP ''\<newline>'' [])))))
     (thenP (monitor None) (stop MonitorLoop)))"

definition kwarn :: "string \<Rightarrow> u32 \<Rightarrow> string \<Rightarrow> vararg list \<Rightarrow> unit km" where
  "kwarn file line fmt ap =
     thenP (printP ''kernel warning at %s:%d: '' [VStr (Some file), VInt line])
     (thenP (printP fmt ap)
     (printP ''\<newline>'' []))"

section \<open>The other processors\<close>

text \<open>\<^verbatim>\<open>xchg(&thiscpu->cpu_status, ...)\<close> (\<^verbatim>\<open>inc/x86.h\<close>): the old status is the result.\<close>

definition xchg_status :: "cpu_status \<Rightarrow> cpu_status km" where
  "xchg_status st =
     bindP (gets (\<lambda>s. cpu_status (cpus s (cpunum s)))) (\<lambda>old.
     thenP (modify (\<lambda>s. s\<lparr>cpus := (cpus s)(cpunum s := (cpus s (cpunum s))\<lparr>cpu_status := st\<rparr>)\<rparr>))
     (ret old))"

text \<open>\<open>env_init_percpu\<close> shows nothing (see \<open>EnvC\<close>). The last loop is endless.\<close>

definition mp_main :: "unit km" where
  "mp_main =
     bindP (gets kern_pgdir) (\<lambda>kp.
     bindP (PADDR (frame_kva kp)) (\<lambda>pa.
     thenP (lcr3 pa)
     (bindP (gets cpunum) (\<lambda>c.
      thenP (printP ''SMP: CPU %d starting\<newline>'' [VInt (of_nat c)])
      (thenP lapic_init
      (thenP trap_init_percpu
      (bindP (xchg_status CPU_STARTED) (\<lambda>_. stop Spinning))))))))"

text \<open>
  What processor \<open>c\<close> does while the boot processor waits for it: it runs \<open>mp_main\<close> up to its
  endless loop, with registers of its own.
\<close>

definition ap_runs :: "nat \<Rightarrow> kstate \<Rightarrow> kstate" where
  "ap_runs c s =
     (case run mp_main (s\<lparr>cpunum := c, task_reg := 0, idt_loaded := False\<rparr>) of (r, t) \<Rightarrow>
        t\<lparr>cpunum := cpunum s, cr3 := cr3 s, eflags := eflags s, task_reg := task_reg s,
          idt_loaded := idt_loaded s\<rparr>)"

text \<open>
  The wait ends when the processor has marked itself as started; when it has come to its endless
  loop without, the boot processor waits for ever. \<open>memmove\<close> copies between the kernel image and
  the page at \<^verbatim>\<open>MPENTRY_PADDR\<close>, which do not overlap.
\<close>

definition boot_ap :: "u32 \<Rightarrow> nat \<Rightarrow> unit mm" where
  "boot_ap code c =
     bindP (onK (gets (\<lambda>s. (cpunum s, sym_percpu_kstacks (ksym s), CpuInfo.cpu_id (cpus s c))))) (\<lambda>(me, stacks, apicid).
     if c = me then ret ()
     else seqP [
       modify (\<lambda>m. m\<lparr>mpentry_kstack := stacks + of_nat c * KSTKSIZE + KSTKSIZE\<rparr>),
       onK (bindP (PADDR code) (lapic_startap apicid)),
       onK (modify (ap_runs c)),
       onK (bindP (gets (\<lambda>s. cpu_status (cpus s c))) (\<lambda>st. if st = CPU_STARTED then ret () else stop Spinning))])"

definition boot_aps :: "u32 \<Rightarrow> u32 \<Rightarrow> unit mm" where
  "boot_aps mpentry_start mpentry_end =
     bindP (onK (KADDR MPENTRY_PADDR)) (\<lambda>code.
     thenP (onK (vmemcpy code mpentry_start (mpentry_end - mpentry_start)))
     (bindP (onK (gets ncpu)) (\<lambda>n. forP [0..<n] (boot_ap code))))"

section \<open>The boot processor\<close>

text \<open>
  The arguments are what the CMOS memory and the IMCR hold, where the linker put the start-up
  code of the other processors and the program \<^verbatim>\<open>user_primes\<close>.
\<close>

definition i386_init :: "(u32 \<Rightarrow> u8) \<Rightarrow> u8 \<Rightarrow> u32 \<Rightarrow> u32 \<Rightarrow> u32 \<Rightarrow> unit mm" where
  "i386_init cmos imcr mpentry_start mpentry_end user_primes =
     thenP (seqP [
       onD cons_init,
       onK (printP ''6828 decimal is %o octal!\<newline>'' [VInt 6828]),
       onK (mem_init cmos),
       onK env_init,
       onK trap_init,
       onK (mp_init imcr),
       onK lapic_init,
       onD pic_init,
       boot_aps mpentry_start mpentry_end,
       onK (env_create user_primes ENV_TYPE_USER)])
     (onK sched_yield)"

section \<open>Properties\<close>

lemma never_returns_onK: "never_returns m \<Longrightarrow> never_returns (onK m)"
  by (auto simp: never_returns_def onK_def run_def split: prod.splits)

lemma kpanic_never_returns: "never_returns (kpanic file line fmt ap)"
  unfolding kpanic_def by (intro never_returns_bind never_returns_then never_returns_stop)

lemma mp_main_never_returns: "never_returns mp_main"
  unfolding mp_main_def by (intro never_returns_bind never_returns_then never_returns_stop)

lemma i386_init_never_returns:
  "never_returns (i386_init cmos imcr mpentry_start mpentry_end user_primes)"
  unfolding i386_init_def
  by (intro never_returns_then never_returns_onK sched_yield_never_returns)

text \<open>A panic prints its banner once; a panic after it goes straight to the monitor.\<close>

lemma panic_formats [formats]:
  "vprintfmt ''kernel panic on CPU %d at %s:%d: '' [VInt a, VStr (Some f), VInt b] \<noteq> None"
  "vprintfmt ''\<newline>'' [] \<noteq> None"
  by (simp_all add: fmt_eval)

lemma kpanic_again:
  "panicstr s \<Longrightarrow> run (kpanic file line fmt ap) s = run (thenP (monitor None) (stop MonitorLoop)) s"
  by (simp add: kpanic_def prog_simps)

definition panic_banner :: "nat \<Rightarrow> string \<Rightarrow> u32 \<Rightarrow> string \<Rightarrow> vararg list \<Rightarrow> u32 list" where
  "panic_banner c file line fmt ap =
     render ''kernel panic on CPU %d at %s:%d: '' [VInt (of_nat c), VStr (Some file), VInt line]
     @ render fmt ap @ render ''\<newline>'' []"

lemma kpanic_first:
  assumes "\<not> panicstr s" and "vprintfmt fmt ap \<noteq> None"
  shows "run (kpanic file line fmt ap) s =
    run (thenP (monitor None) (stop MonitorLoop))
      (s\<lparr>panicstr := True, eflags := eflags s AND NOT FL_IF,
         console := console s @ panic_banner (cpunum s) file line fmt ap\<rparr>)"
  using assms by (simp add: kpanic_def prog_simps run_cprintf formats panic_banner_def)

end
