(* ===== verification/Lab3Init.thy ===== *)
theory Lab3Init
  imports Lab3Trap Init
begin

text \<open>
  The start of the kernel of \<^verbatim>\<open>project3\<close> (\<^verbatim>\<open>project3/kern/init.c\<close>, \<open>cons_init\<close> of
  \<^verbatim>\<open>project3/kern/console.c\<close>): one CPU, one user program.
\<close>

section \<open>Panic\<close>

text \<open>\<open>cli\<close> clears the interrupt flag. \<^verbatim>\<open>panicstr\<close> is kept as a flag.\<close>

definition kpanic_lab3 :: "string \<Rightarrow> u32 \<Rightarrow> string \<Rightarrow> vararg list \<Rightarrow> unit km" where
  "kpanic_lab3 file line fmt ap =
     bindP (gets panicstr) (\<lambda>panicked.
     thenP (if panicked then ret ()
            else thenP (modify (\<lambda>s. s\<lparr>panicstr := True, eflags := eflags s AND NOT FL_IF\<rparr>))
                 (thenP (printP ''kernel panic at %s:%d: '' [VStr (Some file), VInt line])
                 (thenP (printP fmt ap)
                 (printP ''\<newline>'' []))))
     (thenP (monitor_lab3 None) (stop MonitorLoop)))"

section \<open>The console\<close>

text \<open>\<open>kbd_init\<close> is empty.\<close>

definition kbd_init_lab3 :: "unit dm" where
  "kbd_init_lab3 = ret ()"

definition cons_init_lab3 :: "unit dm" where
  "cons_init_lab3 =
     seqP [cga_init, kbd_init_lab3, serial_init,
       bindP (gets serial_exists) (\<lambda>e. whenP (\<not> e) (dev_cprintf ''Serial port does not exist!\<newline>'' []))]"

section \<open>Start\<close>

text \<open>
  The arguments are what the CMOS memory holds and where the linker put \<^verbatim>\<open>user_breakpoint\<close>. The globals
  are part of the state, so \<^verbatim>\<open>memset(edata, 0, end - edata)\<close> is a property of the state to start from.
\<close>

definition i386_init_lab3 :: "(u32 \<Rightarrow> u8) \<Rightarrow> u32 \<Rightarrow> unit mm" where
  "i386_init_lab3 cmos user_breakpoint =
     seqP [
       onD cons_init_lab3,
       onK (printP ''6828 decimal is %o octal!\<newline>'' [VInt 6828]),
       onK (mem_init_lab3 cmos),
       onK env_init,
       onK trap_init,
       onK (env_create_lab3 user_breakpoint ENV_TYPE_USER),
       onK (env_run_lab3 0)]"

end
