(* ===== verification/BootSpec.thy ===== *)
theory BootSpec
  imports Init Failing
begin

text \<open>
  Where the start of the kernel ends. In this tree \<open>mmio_map_region\<close> is a stub that panics and
  \<open>mem_init\<close>'s own test calls it, so \<open>i386_init\<close> never gets past \<open>mem_init\<close>: it ends in a failure, never in
  user mode.
\<close>

section \<open>The tests of the memory manager\<close>

lemma fails_onK [fails_rules]: "fails_only m \<Longrightarrow> fails_only (onK m)"
  by (auto simp: fails_only_def onK_def run_def split: prod.splits)

lemma fails_onD [fails_rules]: "fails_only m \<Longrightarrow> fails_only (onD m)"
  by (auto simp: fails_only_def onD_def run_def split: prod.splits)

lemmas check_defs = checkS_def alloc_ok_def no_free_memory_def free_list_def set_link_def split_page_def
  low_pages_first_def check_free_page_def distinct_pages_def expect_pa_def check_va2pa_def check_region_def
  check_stack_def check_pde_def insert_gives_def has_ref_def walk_load_def walk_check_def walk_clear_def
  set_ref_def table_entry_def fill_page_def expect_word_def check_mmio_def

lemma fails_checks [fails_rules]:
  "fails_only (check_page_free_list low)" "fails_only check_page_alloc" "fails_only check_kern_pgdir"
  "fails_only check_page" "fails_only check_page_installed_pgdir"
  unfolding check_page_free_list_def check_page_alloc_def check_kern_pgdir_def check_page_def
    check_page_mappings_def check_page_tables_def check_page_installed_pgdir_def check_defs list.map
  by (intro fails_rules)+

lemma fails_mem_init [fails_rules]: "fails_only (mem_init cmos)"
  unfolding mem_init_def mem_init_mp_def by (intro fails_rules)

section \<open>The devices\<close>

lemma fails_ports [fails_rules]: "fails_only (inb p)" "fails_only (outb p b)"
  unfolding inb_def outb_def by (intro fails_rules)+

lemma fails_wait_ready [fails_rules]: "fails_only (wait_ready n port flag)"
  by (induction n) (auto simp: delay_def intro!: fails_rules)

lemma fails_cons_intr [fails_rules]: "fails_only proc \<Longrightarrow> fails_only (cons_intr fuel proc)"
  by (induction fuel) (auto intro!: fails_rules)

lemma fails_cga_put [fails_rules]: "fails_only b \<Longrightarrow> fails_only (cga_put b c)"
  unfolding cga_put_def by (intro fails_rules)

lemma fails_cons_putc [fails_rules]: "fails_only (cons_putc c)"
  unfolding cons_putc_def serial_putc_def lpt_putc_def cga_putc_def put_blank_def by (intro fails_rules)

lemma fails_dev_cprintf [fails_rules]: "fails_only (dev_cprintf fmt ap)"
  unfolding dev_cprintf_def cputchar_def by (intro fails_rules)

lemma fails_keyboard [fails_rules]: "fails_only kbd_proc_data"
  unfolding kbd_proc_data_def by (intro fails_rules)

lemma fails_cons_init [fails_rules]: "fails_only cons_init"
  unfolding cons_init_def cga_init_def kbd_init_def kbd_intr_def serial_init_def irq_setmask_8259A_def
  by (intro fails_rules)

section \<open>The self test never returns\<close>

lemma never_returns_first: "never_returns m \<Longrightarrow> never_returns (bindP m f)"
  by (auto simp: never_returns_def prog_simps split: prod.splits outcome.splits)

lemma never_returns_then_first: "never_returns m \<Longrightarrow> never_returns (thenP m n)"
  unfolding thenP_def by (rule never_returns_first)

lemma never_returns_prod: "(\<And>a b. never_returns (n a b)) \<Longrightarrow> never_returns (case x of (a, b) \<Rightarrow> n a b)"
  by (simp split: prod.splits)

lemma never_returns_seqP: "never_returns m \<Longrightarrow> m \<in> set ms \<Longrightarrow> never_returns (seqP ms)"
  by (induction ms) (auto intro: never_returns_then_first never_returns_then)

lemma check_mmio_never_returns: "never_returns (check_mmio pd)"
  unfolding check_mmio_def mmio_map_region_def by (intro never_returns_first never_returns_stop)

lemma check_page_never_returns: "never_returns check_page"
  unfolding check_page_def
  by (intro never_returns_bind never_returns_then never_returns_prod never_returns_seqP [OF check_mmio_never_returns])
    (simp only: list.set insert_iff, blast)

lemma mem_init_never_returns: "never_returns (mem_init cmos)"
proof -
  have tests: "never_returns (seqP [page_init e, check_page_free_list True, check_page_alloc, check_page])" for e
    by (rule never_returns_seqP [OF check_page_never_returns]) simp
  show ?thesis unfolding mem_init_def
    by (rule never_returns_then, rule never_returns_bind, rule never_returns_prod, rule never_returns_bind,
        rule never_returns_then, rule never_returns_bind, rule never_returns_then, rule never_returns_bind,
        rule never_returns_then, rule never_returns_bind, rule never_returns_then,
        rule never_returns_then_first, rule tests)
qed

text \<open>Ending in a failure whatever the state.\<close>

definition always_fails :: "('s, 'a) prog \<Rightarrow> bool" where
  "always_fails m \<longleftrightarrow> (\<forall>s. \<exists>e t. run m s = (Stop e, t) \<and> failure e)"

lemma always_failsI: "never_returns m \<Longrightarrow> fails_only m \<Longrightarrow> always_fails m"
  unfolding always_fails_def fails_only_def by (metis never_returns_stops)

lemma always_fails_first:
  assumes "always_fails m"
  shows "always_fails (thenP m n)"
  unfolding always_fails_def
proof
  fix s
  obtain e t where "run m s = (Stop e, t)" "failure e" using assms unfolding always_fails_def by blast
  then show "\<exists>e t. run (thenP m n) s = (Stop e, t) \<and> failure e" by (simp add: prog_simps)
qed

lemma always_fails_then:
  assumes "fails_only m" and "always_fails n"
  shows "always_fails (thenP m n)"
  unfolding always_fails_def
proof
  fix s
  obtain r t where m: "run m s = (r, t)" by (cases "run m s")
  obtain e u where n: "run n t = (Stop e, u)" "failure e" using assms(2) unfolding always_fails_def by blast
  show "\<exists>e t. run (thenP m n) s = (Stop e, t) \<and> failure e"
    using assms(1) m n by (cases r) (auto simp: prog_simps fails_only_def)
qed

lemma i386_init_fails: "always_fails (i386_init cmos imcr mpentry_start mpentry_end user_primes)"
proof -
  have mem: "always_fails (onK (mem_init cmos))"
    by (intro always_failsI never_returns_onK mem_init_never_returns fails_rules)
  show ?thesis
    unfolding i386_init_def seqP.simps
    by (rule always_fails_first, rule always_fails_then, (intro fails_rules)[1], rule always_fails_then,
        (intro fails_rules)[1], rule always_fails_first, rule mem)
qed

end
