(* ===== verification/Lab3Start.thy ===== *)
theory Lab3Start
  imports Lab3Kernel Lab3Init Loader BootSpec SyscallSpec
begin

text \<open>
  From \<open>mem_init\<close> of \<^verbatim>\<open>project3\<close> to the first instruction of the user program: \<open>env_create\<close> does
  what that of \<^verbatim>\<open>lab4\<close> does as long as no environment runs, so the results about the loader apply.
\<close>

section \<open>Computations that cannot be told apart\<close>

text \<open>From states with \<open>I\<close>, \<open>m\<close> and \<open>n\<close> have the same runs, and \<open>I\<close> holds after them.\<close>

definition same_on :: "('s \<Rightarrow> bool) \<Rightarrow> ('s, 'a) prog \<Rightarrow> ('s, 'a) prog \<Rightarrow> bool" where
  "same_on I m n \<longleftrightarrow> (\<forall>s. I s \<longrightarrow> run m s = run n s \<and> I (snd (run n s)))"

lemma same_onD: "same_on I m n \<Longrightarrow> I s \<Longrightarrow> run m s = run n s"
  by (simp add: same_on_def)

lemma same_bindP:
  assumes "same_on I m m'" and "\<And>a. same_on I (n a) (n' a)"
  shows "same_on I (bindP m n) (bindP m' n')"
  unfolding same_on_def
proof (intro allI impI)
  fix s assume "I s"
  then have m: "run m s = run m' s" "I (snd (run m' s))" using assms(1) by (simp_all add: same_on_def)
  obtain r t where rt: "run m' s = (r, t)" by (cases "run m' s")
  then show "run (bindP m n) s = run (bindP m' n') s \<and> I (snd (run (bindP m' n') s))"
    using m assms(2) by (cases r) (simp_all add: prog_simps same_on_def)
qed

lemma same_thenP: "same_on I m m' \<Longrightarrow> same_on I n n' \<Longrightarrow> same_on I (thenP m n) (thenP m' n')"
  unfolding thenP_def by (rule same_bindP)

lemma same_if: "same_on I m m' \<Longrightarrow> same_on I n n' \<Longrightarrow> same_on I (if b then m else n) (if b then m' else n')"
  by simp

lemma same_option:
  "same_on I m m' \<Longrightarrow> (\<And>a. same_on I (n a) (n' a)) \<Longrightarrow>
   same_on I (case x of None \<Rightarrow> m | Some a \<Rightarrow> n a) (case x of None \<Rightarrow> m' | Some a \<Rightarrow> n' a)"
  by (simp split: option.splits)

lemma same_prod: "(\<And>a b. same_on I (n a b) (n' a b)) \<Longrightarrow> same_on I (case x of (a, b) \<Rightarrow> n a b) (case x of (a, b) \<Rightarrow> n' a b)"
  by (simp split: prod.splits)

lemma same_pure: "same_on I (ret a) (ret a)" "same_on I (stop e) (stop e)" "same_on I (gets g) (gets g)"
    "same_on I (deref p) (deref p)"
  by (simp_all add: same_on_def prog_simps split: option.splits)

lemma same_forP:
  assumes "\<And>i. same_on I (f i) (g i)"
  shows "same_on I (forP is f) (forP is g)"
  by (induction "is") (auto intro: same_bindP same_pure assms)

lemma same_keeps: "keeps f m \<Longrightarrow> same_on (\<lambda>s. P (f s)) m m"
  by (simp add: same_on_def keeps_def)

section \<open>Without a current environment\<close>

text \<open>
  The current environment, the fields that \<^verbatim>\<open>struct Env\<close> of \<^verbatim>\<open>project3\<close> does not have, and whether
  the interrupt table is loaded.
\<close>

definition quiet :: "kstate \<Rightarrow> nat option \<times> (nat \<Rightarrow> u32) \<times> (nat \<Rightarrow> bool) \<times> bool" where
  "quiet s = (curenv s, \<lambda>i. env_pgfault_upcall (envs s i), \<lambda>i. env_ipc_recving (envs s i), idt_loaded s)"

definition idle :: "bool \<Rightarrow> kstate \<Rightarrow> bool" where
  "idle l s \<longleftrightarrow> curenv s = None \<and> (\<forall>i. env_pgfault_upcall (envs s i) = 0 \<and> \<not> env_ipc_recving (envs s i)) \<and> idt_loaded s = l"

lemma idle_quiet: "quiet t = quiet s \<Longrightarrow> idle l t = idle l s"
  by (auto simp: quiet_def idle_def fun_eq_iff)

lemma quiet_beyond: "keeps beyond m \<Longrightarrow> keeps quiet m"
proof -
  assume "keeps beyond m"
  then have b: "beyond (snd (run m s)) = beyond s" for s by (simp add: keeps_def)
  have "idt_loaded (snd (run m s)) = idt_loaded s" for s using b [of s, THEN arg_cong, of idt_loaded] by (simp add: beyond_def)
  then show "keeps quiet m" unfolding keeps_def quiet_def beyond_sel(1,6,7) [OF b] by simp
qed

lemmas quiet_walks [keeps_rules] = beyond_page_alloc [THEN quiet_beyond] beyond_walk [THEN quiet_beyond]
  beyond_bytes [THEN quiet_beyond] beyond_upd [THEN quiet_beyond]

lemma quiet_upd_env:
  assumes "\<And>v. env_pgfault_upcall (g v) = env_pgfault_upcall v \<and> env_ipc_recving (g v) = env_ipc_recving v"
  shows "keeps quiet (modify (upd_env e g))"
  using assms by (intro keeps_modify) (auto simp: quiet_def fun_eq_iff)

lemma quiet_modify [keeps_rules]:
  "keeps quiet (modify (\<lambda>s. copy_frame f (k s) s))" "keeps quiet (modify (\<lambda>s. s\<lparr>env_free_list := fl s\<rparr>))" "keeps quiet (lcr3 pa)"
  unfolding lcr3_def by (intro keeps_modify; simp add: quiet_def copy_frame_def)+

lemma quiet_cprintf [keeps_rules]: "keeps quiet (cprintf fmt ap)"
  by (auto simp: keeps_def cprintf_def run_def quiet_def split: option.splits)

lemma quiet_rest [keeps_rules]:
  "keeps quiet (load32 va)" "keeps quiet (load16 va)" "keeps quiet (PADDR kva)" "keeps quiet (page2kva pp)"
  "keeps quiet (vmemset va b n)" "keeps quiet (vmemcpy va src n)" "keeps quiet (load_pte q)"
  unfolding load32_def load16_def PADDR_def page2kva_def vmemset_def vmemcpy_def load_pte_def Let_def
  by (intro keeps_rules)+

lemma same_quiet: "keeps quiet m \<Longrightarrow> same_on (idle l) m m"
  unfolding same_on_def keeps_def using idle_quiet by blast

lemmas same_rules = same_pure same_quiet same_bindP same_thenP same_if same_option same_prod same_forP

section \<open>\<open>env_create\<close>\<close>

lemma same_invalidate: "same_on (idle l) (tlb_invalidate_lab3 pd va) (tlb_invalidate pd va)"
  unfolding same_on_def idle_def by (simp add: tlb_invalidate_lab3_def tlb_invalidate_def prog_simps invlpg_def)

lemma same_page_remove: "same_on (idle l) (page_remove_lab3 pd va) (page_remove pd va)"
  unfolding page_remove_lab3_def page_remove_def by (intro same_rules same_invalidate keeps_rules)

lemma same_page_insert: "same_on (idle l) (page_insert_lab3 pd pp va perm) (page_insert pd pp va perm)"
  unfolding page_insert_lab3_def page_insert_def by (intro same_rules same_page_remove keeps_rules)

lemma same_region_alloc: "same_on (idle l) (region_alloc_lab3 e va n) (region_alloc e va n)"
  unfolding region_alloc_lab3_def region_alloc_def region_alloc_page_lab3_def region_alloc_page_def Let_def
  by (intro same_rules same_page_insert keeps_rules)

lemma same_load_segments: "same_on (idle l) (load_segments_lab3 n e b ph eph) (load_segments n e b ph eph)"
proof (induction n arbitrary: ph)
  case 0
  then show ?case by (simp add: same_pure)
next
  case (Suc n)
  show ?case
    unfolding load_segments_lab3.simps load_segments.simps load_segment_lab3_def load_segment_def
    by (intro same_rules Suc same_region_alloc keeps_rules)
qed

lemma same_load_icode: "same_on (idle l) (load_icode_lab3 e b) (load_icode e b)"
  unfolding load_icode_lab3_def load_icode_def
  by (intro same_rules same_load_segments same_page_insert keeps_rules quiet_upd_env) simp

lemma same_env_alloc: "same_on (idle l) (env_alloc_lab3 p) (env_alloc p)"
proof -
  have vm: "keeps quiet (env_setup_vm e)" for e
    unfolding env_setup_vm_def by (intro keeps_rules quiet_upd_env) simp
  have same: "v\<lparr>env_id := i, env_parent_id := p, env_type := ty, env_status := st, env_runs := 0, env_tf := tf\<rparr>
      = v\<lparr>env_id := i, env_parent_id := p, env_type := ty, env_status := st, env_runs := 0, env_tf := tf,
          env_pgfault_upcall := 0, env_ipc_recving := False\<rparr>"
    if "env_pgfault_upcall v = 0" "\<not> env_ipc_recving v" for v i ty st tf
    by (rule Env.equality) (simp_all add: that)
  have fill: "same_on (idle l)
     (modify (upd_env e (\<lambda>v. v\<lparr>env_id := new_env_id (env_id v) e, env_parent_id := p, env_type := ENV_TYPE_USER,
        env_status := ENV_RUNNABLE, env_runs := 0, env_tf := new_env_tf\<rparr>)))
     (modify (upd_env e (\<lambda>v. v\<lparr>env_id := new_env_id (env_id v) e, env_parent_id := p, env_type := ENV_TYPE_USER,
        env_status := ENV_RUNNABLE, env_runs := 0, env_tf := new_env_tf, env_pgfault_upcall := 0, env_ipc_recving := False\<rparr>)))" for e
    unfolding same_on_def idle_def by (simp add: prog_simps upd_env_def flip: same)
  show ?thesis
    unfolding env_alloc_lab3_def env_alloc_def by (intro same_rules fill vm keeps_rules)
qed

lemma same_env_create: "same_on (idle l) (env_create_lab3 b type) (env_create b type)"
  unfolding env_create_lab3_def env_create_def
  by (intro same_rules same_env_alloc same_load_icode keeps_rules quiet_upd_env) simp

section \<open>The console comes up\<close>

definition returns :: "('s, 'a) prog \<Rightarrow> bool" where
  "returns m \<longleftrightarrow> (\<forall>s. \<exists>a t. run m s = (Ret a, t))"

lemma returns_pure: "returns (ret a)" "returns (gets f)" "returns (modify g)"
  by (simp_all add: returns_def prog_simps)

lemma returns_bindP: "returns m \<Longrightarrow> (\<And>a. returns (n a)) \<Longrightarrow> returns (bindP m n)"
  unfolding returns_def run_bindP by (metis (no_types, lifting) case_prod_conv outcome.simps(5))

lemma returns_thenP: "returns m \<Longrightarrow> returns n \<Longrightarrow> returns (thenP m n)"
  unfolding thenP_def by (rule returns_bindP)

lemma returns_if: "(b \<Longrightarrow> returns m) \<Longrightarrow> (\<not> b \<Longrightarrow> returns n) \<Longrightarrow> returns (if b then m else n)"
  by simp

lemma returns_prod: "(\<And>a b. x = (a, b) \<Longrightarrow> returns (n a b)) \<Longrightarrow> returns (case x of (a, b) \<Rightarrow> n a b)"
  by (cases x) simp

lemma returns_whenP: "returns m \<Longrightarrow> returns (whenP b m)"
  by (simp add: whenP_def returns_pure)

lemma returns_forP: "(\<And>i. returns (body i)) \<Longrightarrow> returns (forP is body)"
  by (induction "is") (auto intro: returns_bindP returns_pure)

lemma returns_seqP: "returns (seqP [])" "returns m \<Longrightarrow> returns (seqP ms) \<Longrightarrow> returns (seqP (m # ms))"
  by (simp_all add: returns_pure returns_thenP)

lemmas returns_rules = returns_pure returns_bindP returns_thenP returns_prod returns_whenP returns_forP returns_seqP

lemma returns_ports: "returns (inb port)" "returns (outb port b)"
  unfolding inb_def outb_def by (intro returns_rules)+

lemma returns_wait: "returns (wait_ready n port flag)"
proof (induction n)
  case 0
  then show ?case by (simp add: returns_rules returns_ports)
next
  case (Suc n)
  then show ?case unfolding wait_ready.simps delay_def by (intro returns_rules returns_if returns_ports)
qed

lemma returns_putc: "returns (serial_putc c)" "returns (lpt_putc c)"
  unfolding serial_putc_def lpt_putc_def by (intro returns_rules returns_ports returns_wait)+

lemma returns_cga_put: "returns b \<or> (let c' = (if c AND NOT 0xFF = 0 then c OR 0x0700 else c) in c' AND 0xff \<noteq> 9) \<Longrightarrow> returns (cga_put b c)"
  unfolding cga_put_def Let_def by (intro returns_rules returns_if returns_ports) auto

lemma returns_cputchar: "returns (cputchar c)"
proof -
  have "returns put_blank" unfolding put_blank_def by (intro returns_rules returns_putc returns_cga_put) simp
  then show ?thesis unfolding cputchar_def cons_putc_def cga_putc_def by (intro returns_rules returns_putc returns_cga_put disjI1)
qed

lemma serial_format [formats]: "vprintfmt ''Serial port does not exist!\<newline>'' [] \<noteq> None"
  by (simp add: fmt_eval)

lemma octal_format [formats]: "vprintfmt ''6828 decimal is %o octal!\<newline>'' [VInt n] \<noteq> None"
  by (simp add: fmt_eval)

lemma returns_dev_cprintf: "vprintfmt fmt ap \<noteq> None \<Longrightarrow> returns (dev_cprintf fmt ap)"
  unfolding dev_cprintf_def kvcprintf_eq by (auto intro: returns_forP returns_cputchar split: option.splits)

lemma returns_cons_init: "returns cons_init_lab3"
  unfolding cons_init_lab3_def cga_init_def kbd_init_lab3_def serial_init_def Let_def
  by (intro returns_rules returns_if returns_ports returns_dev_cprintf formats)

section \<open>The program in physical memory\<close>

text \<open>What the kernel reads at an address once all memory is mapped at \<open>KERNBASE\<close>.\<close>

definition phys_byte :: "kstate \<Rightarrow> u32 \<Rightarrow> u8" where
  "phys_byte s a = byte_of (pmem s (kva_frame a) (unat (PGOFF a) div 4)) (unat (PGOFF a) mod 4)"

definition in_kernel_image :: "ksyms \<Rightarrow> u32 \<Rightarrow> bool" where
  "in_kernel_image k a \<longleftrightarrow> KERNBASE + EXTPHYSMEM \<le> a \<and> a < sym_end k"

lemma kernel_image_frame:
  assumes fits: "machine_fits cmos (ksym s)" and e: "end_ok (kernel_end s) nf" and a: "in_kernel_image (ksym s) a"
  shows "kva_frame a \<notin> usable cmos nf" "kva_frame a \<noteq> kva_frame (kernel_end s)" "kva_frame a < 65536"
    and "unat (PGNUM a) = 0xF0000 + kva_frame a"
proof -
  note KE = kernel_end_bounds [OF fits]
  note E = end_okD [OF e]
  have b: "0xF0100000 \<le> unat a" "unat a < unat (kernel_end s)"
    using a KE(4) by (simp_all add: in_kernel_image_def word_le_nat_alt word_less_nat_alt)
  have d: "unat (a - KERNBASE) = unat a - 0xF0000000" "unat (kernel_end s - KERNBASE) = unat (kernel_end s) - 0xF0000000"
    using b KE(2) by (simp_all add: unat_diff32)
  have f: "kva_frame a = (unat a - 0xF0000000) div 4096" "kva_frame (kernel_end s) = (unat (kernel_end s) - 0xF0000000) div 4096"
    unfolding kva_frame_def unat_PGNUM d by simp_all
  obtain j where j: "unat (kernel_end s) = 4096 * j" using KE(1) by blast
  have "kva_frame (kernel_end s) = j - 983040" unfolding f j by simp
  moreover have "kva_frame a < j - 983040" unfolding f using b j by (intro div_less_iff_less_mult [THEN iffD2]) auto
  ultimately have lt: "kva_frame a < kva_frame (kernel_end s)" by simp
  then show "kva_frame a \<noteq> kva_frame (kernel_end s)" by simp
  have "0x100000 div 4096 \<le> kva_frame a" unfolding f using b(1) by (intro div_le_mono) simp
  then show "kva_frame a \<notin> usable cmos nf" using lt E(6) fits by (auto simp: usable_def machine_fits_def)
  show "kva_frame a < 65536" using lt E(6,8) by simp
  have "unat a = 0xF0000 * 4096 + (unat a - 0xF0000000)" using b(1) by simp
  then have "unat a div 4096 = 0xF0000 + (unat a - 0xF0000000) div 4096"
    using div_mult_self3 [of 4096 "0xF0000" "unat a - 0xF0000000"] by simp
  then show "unat (PGNUM a) = 0xF0000 + kva_frame a" unfolding unat_PGNUM f .
qed

lemma frame_of_region: "i < 65536 \<Longrightarrow> frame_of (region_entry 0 PTE_W i) = i" "present (region_entry 0 PTE_W i)"
proof -
  have "region_entry 0 PTE_W i = (page2pa i OR 3)" by (simp add: region_entry_def page2pa_def push_bit_eq_mult or.assoc)
  then show "i < 65536 \<Longrightarrow> frame_of (region_entry 0 PTE_W i) = i" using frame_of_entry [of i 3] by simp
  show "present (region_entry 0 PTE_W i)" unfolding region_entry_def by (rule present_or_P)
qed

lemma kernel_sees_image:
  assumes fits: "machine_fits cmos (ksym s)" and r: "mem_ready cmos s t xs" and u: "pmem u = pmem t" "kern_pgdir u = kern_pgdir t"
  shows "sees (in_kernel_image (ksym s)) (phys_byte s) (readable u (set xs)) (kernel_byte u)"
  unfolding sees_def
proof (intro allI impI)
  fix a assume a: "in_kernel_image (ksym s) a"
  have e: "end_ok (kernel_end s) (nextfree t)" and pd: "kern_pgdir t = kva_frame (kernel_end s)"
    and sp: "kernel_space t (kern_pgdir t) (pages_kva t - KERNBASE) (Some (envs_kva t - KERNBASE)) (sym_bootstack (ksym s) - KERNBASE)"
    and us: "usable cmos (nextfree t) = set xs \<union> tables t (kern_pgdir t)"
    and mem: "\<And>f. f \<notin> usable cmos (nextfree t) \<Longrightarrow> f \<noteq> kern_pgdir t \<Longrightarrow> pmem t f = pmem s f"
    using r unfolding mem_ready_def by blast+
  note F = kernel_image_frame [OF fits e a]
  have "960 = (983040 :: nat) div 1024" by simp
  also have "\<dots> \<le> unat (PDX a)" unfolding PDX_PGNUM F(4) by (intro div_le_mono) simp
  finally have pdx: "960 \<le> unat (PDX a)" .
  have "entry u (kern_pgdir u) a = entry t (kern_pgdir t) a" using u by (simp add: entry_def pde_at_def)
  then have en: "entry u (kern_pgdir u) a = region_entry 0 PTE_W (kva_frame a)"
    using sp pdx by (simp add: kernel_space_def memory_map_def F(4))
  have "pmem u (kva_frame a) = pmem s (kva_frame a)" using mem [OF F(1)] F(2) pd u(1) by simp
  then show "readable u (set xs) a \<and> kernel_byte u a = phys_byte s a"
    using pdx F(1,3) us frame_of_region by (auto simp: readable_def mapped_def en user_byte_def phys_byte_def)
qed

section \<open>The kernel's invariant at the start\<close>

text \<open>What \<open>env_init\<close> and \<open>trap_init\<close> leave alone.\<close>

definition boot_core where
  "boot_core s = (pmem s, pages s, npages s, page_free_list s, kern_pgdir s, cpus s, cpunum s, cr3 s, ksym s)"

lemma boot_core_sel:
  assumes "boot_core t = boot_core s"
  shows "pmem t = pmem s" "pages t = pages s" "npages t = npages s" "page_free_list t = page_free_list s" "kern_pgdir t = kern_pgdir s"
    and "cpus t = cpus s" "cpunum t = cpunum s" "cr3 t = cr3 s" "ksym t = ksym s"
  using assms by (simp_all add: boot_core_def)

lemma boot_core_env_init: "keeps boot_core env_init" "keeps quiet env_init"
proof -
  have a: "keeps boot_core (append_env n r i)" "keeps quiet (append_env n r i)" for n r i
    by (induction n arbitrary: r) (auto intro!: keeps_rules keeps_modify quiet_upd_env simp: boot_core_def)
  have q: "keeps quiet (modify (\<lambda>s. s\<lparr>env_free_list := Some i\<rparr>))" for i by (intro keeps_modify) (simp add: quiet_def)
  show "keeps boot_core env_init" "keeps quiet env_init"
    unfolding env_init_def env_init_slot_def
    by (intro keeps_rules a keeps_modify; simp add: boot_core_def)
      (intro keeps_rules a quiet_upd_env q; simp)
qed

lemma boot_core_trap_init: "keeps boot_core trap_init" "keeps envs trap_init" "keeps env_free_list trap_init"
  unfolding trap_init_def trap_init_percpu_def set_gate_def
  by (intro keeps_rules keeps_modify; simp add: boot_core_def)+


lemma kernel_ok_start:
  assumes r: "mem_ready cmos s t xs"
  shows "\<exists>v u. run env_init t = (Ret (), v) \<and> run trap_init v = (Ret (), u) \<and> kernel_ok u xs [0..<NENV] \<and> live u = {} \<and> idt_loaded u
    \<and> boot_core u = boot_core t \<and> idle l u = (idle (idt_loaded t) t \<and> l)"
proof -
  obtain v where v: "run env_init t = (Ret (), v)" "env_init_upto t NENV v" using env_init_run [of t] by blast
  obtain u where u: "run trap_init v = (Ret (), u)" "idt_loaded u" using trap_init_run [of v] by blast
  have c: "boot_core v = boot_core t" "quiet v = quiet t" "boot_core u = boot_core v" "envs u = envs v" "env_free_list u = env_free_list v"
    using keepsD [OF boot_core_env_init(1) v(1)] keepsD [OF boot_core_env_init(2) v(1)] keepsD [OF boot_core_trap_init(1) u(1)]
      keepsD [OF boot_core_trap_init(2) u(1)] keepsD [OF boot_core_trap_init(3) u(1)] by simp_all
  have cu: "boot_core u = boot_core t" using c by simp
  note C = boot_core_sel [OF cu]
  have chain: "linked (\<lambda>e. env_link (envs u e)) (env_free_list u) [0..<NENV]"
    and free: "\<And>i. i < NENV \<Longrightarrow> env_status (envs u i) = ENV_FREE"
    using v(2) unfolding env_init_upto_def c(4,5) by blast+
  have live: "live u = {}" using free by (auto simp: live_def)
  have "pgdir_ok t (kern_pgdir t) xs" "directory t (kern_pgdir t) (kernel_slots {955})"
    using r unfolding mem_ready_def by blast+
  moreover from this have "pmem t (kern_pgdir t) d = 0" if "d < UTOP_index" for d using directoryD(2) [of t _ _ d] that by simp
  ultimately have "spaces_ok t xs {}" by (simp add: spaces_ok_def total_uses_def)
  then have "spaces_ok u xs {}" by (subst spaces_ok_same [OF C(1-5)])
  then have "kernel_ok u xs [0..<NENV]" using chain free live by (auto simp: kernel_ok_def simp del: upt_rec_numeral)
  moreover have "idle l u = (idle (idt_loaded t) t \<and> l)"
    using c(2,4) C(6,7) u(2) by (auto simp: quiet_def idle_def fun_eq_iff)
  ultimately show ?thesis using v(1) u live cu by blast
qed

lemma free_after_boot:
  assumes fits: "machine_fits cmos (ksym s)" and r: "mem_ready cmos s t xs"
  shows "total_pages cmos \<le> length xs + 1091"
proof -
  have e: "end_ok (kernel_end s) (nextfree t)" and ok: "pgdir_ok t (kern_pgdir t) xs"
    and dir: "directory t (kern_pgdir t) (kernel_slots {955})"
    and us: "usable cmos (nextfree t) = set xs \<union> tables t (kern_pgdir t)"
    using r unfolding mem_ready_def by blast+
  have tb: "finite (tables t (kern_pgdir t))" "card (tables t (kern_pgdir t)) \<le> 67" by (rule few_tables [OF dir]; auto)+
  have "{1024..<total_pages cmos} \<subseteq> set xs \<union> tables t (kern_pgdir t)"
    unfolding us [symmetric] using end_okD(8) [OF e] by (auto simp: usable_def)
  then have "card {1024..<total_pages cmos} \<le> card (set xs \<union> tables t (kern_pgdir t))" using tb(1) by (intro card_mono) simp_all
  also have "\<dots> \<le> card (set xs) + card (tables t (kern_pgdir t))" by (rule card_Un_le)
  finally show ?thesis using tb(2) distinct_card [OF free_pages_distinct [OF pgdir_okD(1) [OF ok]]] by simp
qed

section \<open>The first instruction of the user program\<close>

lemma env_run_first:
  assumes ok: "kernel_ok s xs es" and cur: "curenv s = None" and e: "e \<in> live s"
  shows "run (env_run_lab3 e) s = (Stop UserMode,
      (upd_env e (\<lambda>v. v\<lparr>env_status := ENV_RUNNING, env_runs := env_runs v + 1\<rparr>) (set_curenv (Some e) s))\<lparr>cr3 := page2pa (dir s e)\<rparr>)"
proof -
  note K = kernel_okD [OF ok]
  have d: "env_pgdir (envs s e) = Some (dir s e)" by (rule K(3) [OF e])
  have "pgdir_ok s (dir s e) xs" using spaces_okD(4) [OF K(6)] e by blast
  then have "dir s e < 65536" using pgdir_okD(2,3) by (fastforce simp: machine_ok_def)
  then show ?thesis
    using cur d by (simp add: env_run_lab3_def env_pop_tf_lab3_def prog_simps PADDR_frame lcr3_def del: run_PADDR)
qed

text \<open>The kernel, the program it has loaded, and the processor in the program.\<close>

definition running_program :: "kstate \<Rightarrow> kstate \<Rightarrow> u32 \<Rightarrow> bool" where
  "running_program s k binary \<longleftrightarrow>
     curenv k = Some 0 \<and> env_status (envs k 0) = ENV_RUNNING \<and> live k = {0} \<and> cr3 k = page2pa (dir k 0) \<and> idt_loaded k \<and>
     tf_eip (env_tf (envs k 0)) = word32_at (phys_byte s) (binary + off_e_entry) \<and> tf_esp (env_tf (envs k 0)) = USTACKTOP \<and>
     elf_loaded (phys_byte s) (mapped k (dir k 0)) (user_byte k (dir k 0)) binary \<and>
     (\<forall>a. PGNUM a = PGNUM stack_page \<longrightarrow> mapped k (dir k 0) a \<and> user_byte k (dir k 0) a = 0) \<and>
     (\<exists>xs. kernel_ok k xs [1..<NENV])"


lemma steps_onK:
  "run (seqP (map onK ms)) m = (case run (seqP ms) (mc_kernel m) of (r, t) \<Rightarrow> (r, m\<lparr>mc_kernel := t\<rparr>))"
proof (induction ms arbitrary: m)
  case Nil
  then show ?case by (simp add: prog_simps)
next
  case (Cons p ms)
  have k: "run (onK p) m = (case run p (mc_kernel m) of (r, t) \<Rightarrow> (r, m\<lparr>mc_kernel := t\<rparr>))" by (simp add: onK_def run_def)
  show ?case
    by (cases "run p (mc_kernel m)"; cases "fst (run p (mc_kernel m))") (simp_all add: prog_simps k Cons split: prod.splits)
qed

text \<open>The start of both kernels: console, greeting, then the kernel's own steps \<open>ms\<close>.\<close>

abbreviation (input) greeted :: "kstate \<Rightarrow> kstate" where
  "greeted s \<equiv> s\<lparr>console := console s @ render ''6828 decimal is %o octal!\<newline>'' [VInt 6828]\<rparr>"

lemma machine_start:
  assumes "run (seqP ms) (greeted (mc_kernel m)) = (r, k)"
  shows "\<exists>d. run (seqP (onD cons_init_lab3 # onK (printP ''6828 decimal is %o octal!\<newline>'' [VInt 6828]) # map onK ms)) m
    = (r, m\<lparr>mc_devices := d, mc_kernel := k\<rparr>)"
proof -
  obtain d where d: "run cons_init_lab3 (mc_devices m) = (Ret (), d)" using returns_cons_init by (auto simp: returns_def)
  have "run (onD cons_init_lab3) m = (Ret (), m\<lparr>mc_devices := d\<rparr>)" using d by (simp add: onD_def run_def)
  moreover have "run (onK (printP ''6828 decimal is %o octal!\<newline>'' [VInt 6828])) (m\<lparr>mc_devices := d\<rparr>)
      = (Ret (), m\<lparr>mc_devices := d, mc_kernel := greeted (mc_kernel m)\<rparr>)"
    using run_cprintf [OF octal_format, of 6828 "mc_kernel m"]
    by (simp add: onK_def run_def thenP_def bindP_def ret_def)
  ultimately show ?thesis
    using assms by (intro exI [of _ d]) (simp add: run_thenP_Ret steps_onK del: list.map)
qed

lemma kernel_boots:
  assumes fits: "machine_fits cmos (ksym s)" and clear: "bss_clear s" and env: "\<And>i. NENV \<le> i \<Longrightarrow> envs s i = zero_env"
    and img: "elf_ok (in_kernel_image (ksym s)) (phys_byte s) binary"
    and room: "2 * elf_pages (phys_byte s) binary + 1100 \<le> total_pages cmos"
  shows "\<exists>k. run (seqP [mem_init_lab3 cmos, env_init, trap_init, env_create_lab3 binary ENV_TYPE_USER, env_run_lab3 0]) s = (Stop UserMode, k)
    \<and> running_program s k binary"
proof -
  obtain t xs where t: "run (mem_init_lab3 cmos) s = (Ret (), t)" "mem_ready cmos s t xs" using mem_init_run [OF fits clear] by blast
  have te: "envs t = (\<lambda>_. zero_env)" and tc: "cpus t = cpus s" "cpunum t = cpunum s"
    using t(2) env unfolding mem_ready_def by (auto simp: fun_eq_iff)
  obtain w u where w: "run env_init t = (Ret (), w)" "run trap_init w = (Ret (), u)" and u: "kernel_ok u xs [0..<NENV]" "live u = {}" "idt_loaded u"
    "boot_core u = boot_core t" "idle True u = (idle (idt_loaded t) t \<and> True)"
    using kernel_ok_start [OF t(2)] by blast
  note C = boot_core_sel [OF u(4)]
  have "curenv t = None" using clear tc by (simp add: bss_clear_def)
  then have idle: "idle True u" unfolding u(5) by (simp add: te idle_def zero_env_def)
  note img_u = sees_image [OF kernel_sees_image [OF fits t(2) C(1,5)] img]
  have "2 * elf_pages (phys_byte s) binary + 9 \<le> length xs" using room free_after_boot [OF fits t(2)] by simp
  then obtain x ys where xs: "xs = x # ys" "2 * image_pages u binary + 2 \<le> length ys" using img_u(2) by (cases xs) auto
  have es: "[0..<NENV] = 0 # [1..<NENV]" by (subst upt_conv_Cons) (simp_all del: upt_rec_numeral)
  obtain v zs where v: "run (env_create binary ENV_TYPE_USER) u = (Ret (), v)" "kernel_ok v zs [1..<NENV]" "live v = insert 0 (live u)"
    "dir v 0 = x" "envs v 0 = (fresh_env 0 0 x (envs u 0))\<lparr>env_type := ENV_TYPE_USER, env_tf := new_env_tf\<lparr>tf_eip := e_entry u binary\<rparr>\<rparr>"
    "program_loaded u binary v x" "\<forall>a. PGNUM a = PGNUM stack_page \<longrightarrow> mapped v x a \<and> user_byte v x a = 0"
    using env_create_run [OF u(1) [unfolded xs es] img_u(1) [unfolded xs] xs(2), of ENV_TYPE_USER] by blast
  have same: "run (env_create_lab3 binary ENV_TYPE_USER) u = (Ret (), v)" and iv: "idle True v"
    using same_env_create [of True binary ENV_TYPE_USER, unfolded same_on_def, rule_format, OF idle] v(1) by simp_all
  have zero: "0 \<in> live v" and cur: "curenv v = None" and idt: "idt_loaded v" using v(3) iv by (simp_all add: idle_def)
  define k where "k = (upd_env 0 (\<lambda>v. v\<lparr>env_status := ENV_RUNNING, env_runs := env_runs v + 1\<rparr>) (set_curenv (Some 0) v))\<lparr>cr3 := page2pa x\<rparr>"
  have run: "run (env_run_lab3 0) v = (Stop UserMode, k)"
    using env_run_first [OF v(2) cur zero] by (simp add: k_def v(4))
  have view: "mapped k x = mapped v x" "user_byte k x = user_byte v x"
    by (simp_all add: k_def mapped_def user_byte_def entry_def pde_at_def fun_eq_iff)
  have "env_status (envs v 0) \<noteq> ENV_FREE" using zero by (simp add: live_def)
  then have K: "kernel_ok k zs [1..<NENV] = kernel_ok v zs [1..<NENV]" "live k = live v" "dir k = dir v"
    by (intro kernel_ok_same; simp add: k_def)+
  have "running_program s k binary"
    unfolding running_program_def K(2,3) v(4)
  proof (intro conjI)
    show "live v = {0}" using v(3) u(2) by simp
    show "elf_loaded (phys_byte s) (mapped k x) (user_byte k x) binary" using v(6) unfolding view img_u(6) .
    show "\<forall>a. PGNUM a = PGNUM stack_page \<longrightarrow> mapped k x a \<and> user_byte k x a = 0" using v(7) unfolding view .
    show "\<exists>xs. kernel_ok k xs [1..<NENV]" using v(2) K(1) by blast
    have "env_tf (envs k 0) = new_env_tf\<lparr>tf_eip := e_entry u binary\<rparr>" by (simp add: k_def v(5))
    then show "tf_eip (env_tf (envs k 0)) = word32_at (phys_byte s) (binary + off_e_entry)" "tf_esp (env_tf (envs k 0)) = USTACKTOP"
      using img_u(4) by (simp_all add: new_env_tf_def)
  qed (simp_all add: k_def idt)
  moreover have "run (seqP [mem_init_lab3 cmos, env_init, trap_init, env_create_lab3 binary ENV_TYPE_USER, env_run_lab3 0]) s = (Stop UserMode, k)"
    using t(1) w same run by (simp add: prog_simps)
  ultimately show ?thesis by blast
qed


lemma machine_boots:
  assumes fits: "machine_fits cmos (ksym (mc_kernel m))" and clear: "bss_clear (mc_kernel m)"
    and env: "\<And>i. NENV \<le> i \<Longrightarrow> envs (mc_kernel m) i = zero_env"
    and img: "elf_ok (in_kernel_image (ksym (mc_kernel m))) (phys_byte (mc_kernel m)) binary"
    and room: "2 * elf_pages (phys_byte (mc_kernel m)) binary + 1100 \<le> total_pages cmos"
  shows "\<exists>t. run (i386_init_lab3 cmos binary) m = (Stop UserMode, t) \<and> running_program (mc_kernel m) (mc_kernel t) binary"
proof -
  let ?s = "greeted (mc_kernel m)"
  have same: "phys_byte ?s = phys_byte (mc_kernel m)" by (simp add: phys_byte_def fun_eq_iff)
  have "bss_clear ?s" using clear by (simp add: bss_clear_def)
  then obtain k where k: "run (seqP [mem_init_lab3 cmos, env_init, trap_init, env_create_lab3 binary ENV_TYPE_USER, env_run_lab3 0]) ?s = (Stop UserMode, k)"
    "running_program ?s k binary"
    using kernel_boots [of cmos ?s binary] fits env img room by (auto simp: same)
  obtain d where "run (i386_init_lab3 cmos binary) m = (Stop UserMode, m\<lparr>mc_devices := d, mc_kernel := k\<rparr>)"
    using machine_start [OF k(1)] by (auto simp: i386_init_lab3_def)
  moreover have "running_program (mc_kernel m) k binary" using k(2) by (simp add: running_program_def same)
  ultimately show ?thesis by (intro exI [of _ "m\<lparr>mc_devices := d, mc_kernel := k\<rparr>"]) simp
qed

end
