(* ===== verification/MonitorRun.thy ===== *)
theory MonitorRun
  imports Monitor
begin

text \<open>
  What the monitor does to the kernel: whatever is typed, it prints and reads, and nothing else. The
  commands return, and the loop comes back to its prompt until no more input is there.
\<close>

section \<open>Computations that only print\<close>

definition prints :: "'a km \<Rightarrow> bool" where
  "prints m \<longleftrightarrow> (\<forall>s. \<exists>v out. run m s = (Ret v, s\<lparr>console := console s @ out\<rparr>))"

lemma prints_ret: "prints (ret v)"
  by (auto simp: prints_def prog_simps intro!: exI [of _ "[]"])

lemma prints_bind:
  assumes m: "prints m" and k: "\<And>x. prints (k x)"
  shows "prints (bindP m k)"
  unfolding prints_def
proof
  fix s
  obtain v out where a: "run m s = (Ret v, s\<lparr>console := console s @ out\<rparr>)" using m unfolding prints_def by metis
  let ?t = "s\<lparr>console := console s @ out\<rparr>"
  obtain w more where "run (k v) ?t = (Ret w, ?t\<lparr>console := console ?t @ more\<rparr>)" using k [of v] unfolding prints_def by metis
  then show "\<exists>v out. run (bindP m k) s = (Ret v, s\<lparr>console := console s @ out\<rparr>)" using a by (auto simp: prog_simps)
qed

lemma prints_then: "prints a \<Longrightarrow> prints b \<Longrightarrow> prints (thenP a b)"
  unfolding thenP_def by (intro prints_bind)

lemma prints_gets: "(\<And>x. prints (k x)) \<Longrightarrow> prints (bindP (gets f) k)"
  by (simp add: prints_def prog_simps)

lemma prints_cprintf: "vprintfmt fmt ap \<noteq> None \<Longrightarrow> prints (cprintf fmt ap)"
  using run_cprintf by (fastforce simp: prints_def)

lemmas prints_rules = prints_gets prints_then prints_ret prints_cprintf

lemma prints_forP: "(\<And>x. x \<in> set xs \<Longrightarrow> prints (f x)) \<Longrightarrow> prints (forP xs f)"
  by (induction xs) (auto intro!: prints_ret prints_bind)

lemma printsE:
  assumes "prints m"
  obtains v out where "run m s = (Ret v, s\<lparr>console := console s @ out\<rparr>)"
  using assms unfolding prints_def by blast

section \<open>The commands\<close>

lemma monitor_formats [formats]:
  "vprintfmt ''Welcome to the JOS kernel monitor!\<newline>'' [] \<noteq> None"
  "vprintfmt ''Type 'help' for a list of commands.\<newline>'' [] \<noteq> None"
  "vprintfmt ''%s'' [VStr p] \<noteq> None"
  "vprintfmt ''%s - %s\<newline>'' [VStr p, VStr q] \<noteq> None"
  "vprintfmt ''Too many arguments (max %d)\<newline>'' [VInt w] \<noteq> None"
  "vprintfmt ''Unknown command '%s'\<newline>'' [VStr p] \<noteq> None"
  by (simp_all add: fmt_eval)

lemma kerninfo_formats [formats]:
  "vprintfmt ''Special kernel symbols:\<newline>'' [] \<noteq> None"
  "vprintfmt ''  _start                  %08x (phys)\<newline>'' [VInt w] \<noteq> None"
  "vprintfmt ''  entry  %08x (virt)  %08x (phys)\<newline>'' [VInt w, VInt v] \<noteq> None"
  "vprintfmt ''  etext  %08x (virt)  %08x (phys)\<newline>'' [VInt w, VInt v] \<noteq> None"
  "vprintfmt ''  edata  %08x (virt)  %08x (phys)\<newline>'' [VInt w, VInt v] \<noteq> None"
  "vprintfmt ''  end    %08x (virt)  %08x (phys)\<newline>'' [VInt w, VInt v] \<noteq> None"
  "vprintfmt ''Kernel executable memory footprint: %dKB\<newline>'' [VInt w] \<noteq> None"
  by (simp_all add: fmt_eval)

lemma error_format: "c \<noteq> 0x80000000 \<Longrightarrow> vprintfmt ''read error: %e\<newline>'' [VInt c] \<noteq> None"
proof -
  assume "c \<noteq> 0x80000000"
  moreover have "sint (0x80000000 :: u32) = - (2 ^ 31)" by simp
  ultimately have "sint c \<noteq> - (2 ^ 31)" by (metis signed_word_eqI)
  then show ?thesis by (simp add: fmt_eval fmt_error_def Let_def)
qed

lemma prints_runcmd: "prints (runcmd buf)"
proof -
  have "prints mon_help" unfolding mon_help_def by (intro prints_rules prints_forP formats)
  moreover have "prints mon_kerninfo" unfolding mon_kerninfo_def by (intro prints_rules formats)
  ultimately have "prints (run_command f)" for f by (cases f) (simp_all add: run_command_def)
  then show ?thesis
    unfolding runcmd_def by (auto split: option.split list.split intro!: prints_rules formats)
qed

section \<open>Trap frames\<close>

lemma trapframe_formats [formats]:
  "vprintfmt ''TRAP frame at %p from CPU %d\<newline>'' [VInt w, VInt v] \<noteq> None"
  "vprintfmt ''  edi  0x%08x\<newline>'' [VInt w] \<noteq> None" "vprintfmt ''  esi  0x%08x\<newline>'' [VInt w] \<noteq> None"
  "vprintfmt ''  ebp  0x%08x\<newline>'' [VInt w] \<noteq> None" "vprintfmt ''  oesp 0x%08x\<newline>'' [VInt w] \<noteq> None"
  "vprintfmt ''  ebx  0x%08x\<newline>'' [VInt w] \<noteq> None" "vprintfmt ''  edx  0x%08x\<newline>'' [VInt w] \<noteq> None"
  "vprintfmt ''  ecx  0x%08x\<newline>'' [VInt w] \<noteq> None" "vprintfmt ''  eax  0x%08x\<newline>'' [VInt w] \<noteq> None"
  "vprintfmt ''  es   0x----%04x\<newline>'' [VInt w] \<noteq> None" "vprintfmt ''  ds   0x----%04x\<newline>'' [VInt w] \<noteq> None"
  "vprintfmt ''  trap 0x%08x %s\<newline>'' [VInt w, VStr p] \<noteq> None"
  by (simp_all add: fmt_eval)

lemma trapframe_formats2 [formats]:
  "vprintfmt ''  cr2  0x%08x\<newline>'' [VInt w] \<noteq> None" "vprintfmt ''  err  0x%08x'' [VInt w] \<noteq> None"
  "vprintfmt '' [%s, %s, %s]\<newline>'' [VStr p, VStr q, VStr r] \<noteq> None" "vprintfmt ''\<newline>'' [] \<noteq> None"
  "vprintfmt ''  eip  0x%08x\<newline>'' [VInt w] \<noteq> None" "vprintfmt ''  cs   0x----%04x\<newline>'' [VInt w] \<noteq> None"
  "vprintfmt ''  flag 0x%08x\<newline>'' [VInt w] \<noteq> None" "vprintfmt ''  esp  0x%08x\<newline>'' [VInt w] \<noteq> None"
  "vprintfmt ''  ss   0x----%04x\<newline>'' [VInt w] \<noteq> None"
  by (simp_all add: fmt_eval)

lemma prints_if: "prints a \<Longrightarrow> prints b \<Longrightarrow> prints (if c then a else b)"
  by simp

lemma prints_trapframe: "prints (print_trapframe p)"
proof -
  have "prints (print_regs r)" for r unfolding print_regs_def by (intro prints_rules formats)
  then show ?thesis
    unfolding print_trapframe_def whenP_def by (intro prints_gets) (auto split: prod.split intro!: prints_then prints_if prints_ret prints_cprintf formats)
qed

section \<open>The loop\<close>

text \<open>
  The characters the console delivers are bytes; \<^verbatim>\<open>%e\<close> of the least integer would be undefined.
\<close>

abbreviation (input) typed_ok :: "kstate \<Rightarrow> bool" where
  "typed_ok s \<equiv> 0x80000000 \<notin> set (con_in s)"

lemma readline_rest:
  "readline_loop inp buf out = (r, rest, echo) \<Longrightarrow> r = NoInput \<or> length rest < length inp"
  "readline_loop inp buf out = (r, rest, echo) \<Longrightarrow> x \<in> set rest \<Longrightarrow> x \<in> set inp"
  "readline_loop inp buf out = (ReadError c, rest, echo) \<Longrightarrow> c \<in> set inp"
  by (induction inp buf out rule: readline_loop.induct; auto split: if_splits)+

lemma readline_no_input: "readline_loop inp buf out = (NoInput, rest, echo) \<Longrightarrow> rest = []"
  by (induction inp buf out rule: readline_loop.induct) (auto split: if_splits)

text \<open>A call of \<open>readline\<close> takes characters away, or there were not enough for a line.\<close>

text \<open>
  The loop of \<open>monitor\<close> with some report of a negative character and some commands. What it needs
  of them: they print, and no command asks to leave.
\<close>

locale command_loop =
  fixes report :: "u32 \<Rightarrow> int km" and cmd :: "string \<Rightarrow> int km" and loop :: "nat \<Rightarrow> unit km"
  assumes prints_report: "c \<noteq> 0x80000000 \<Longrightarrow> prints (report c)"
    and prints_cmd: "prints (cmd buf)"
    and cmd_zero: "run (cmd buf) s = (Ret v, t) \<Longrightarrow> v = 0"
    and loop: "loop 0 = stop Spinning" "loop (Suc n) =
     bindP (readline_with report (Some ''K> '')) (\<lambda>buf.
     case buf of None \<Rightarrow> loop n | Some b \<Rightarrow> bindP (cmd b) (\<lambda>r. if r < 0 then ret () else loop n))"
begin

text \<open>A call of \<open>readline\<close> takes characters away, or there were not enough for a line.\<close>

lemma readline_run:
  assumes "typed_ok s"
  shows "(\<exists>out. run (readline_with report (Some p)) s = (Stop Spinning, s\<lparr>con_in := [], console := console s @ out\<rparr>)) \<or>
    (\<exists>r rest out. run (readline_with report (Some p)) s = (Ret r, s\<lparr>con_in := rest, console := console s @ out\<rparr>) \<and>
       length rest < length (con_in s) \<and> set rest \<subseteq> set (con_in s))"
proof -
  obtain r rest echo where r: "readline_loop (con_in s) [] [] = (r, rest, echo)" by (metis prod_cases3)
  note run = run_cprintf [OF monitor_formats(3)]
  show ?thesis
  proof (cases r)
    case NoInput
    then have "rest = []" using readline_no_input r by simp
    then show ?thesis using NoInput r by (simp add: readline_with_def prog_simps run) auto
  next
    case (ReadError c)
    have "c \<noteq> 0x80000000" using readline_rest(3) r ReadError assms by blast
    let ?t = "s\<lparr>con_in := rest, console := (console s @ render ''%s'' [VStr (Some p)]) @ echo\<rparr>"
    obtain v out where "run (report c) ?t = (Ret v, ?t\<lparr>console := console ?t @ out\<rparr>)"
      by (rule printsE [OF prints_report [OF \<open>c \<noteq> 0x80000000\<close>]])
    then show ?thesis
      using ReadError r readline_rest(1,2) [OF r] by (simp add: readline_with_def prog_simps run) blast
  next
    case (Line l)
    then show ?thesis using r readline_rest(1,2) [OF r] by (simp add: readline_with_def prog_simps run) blast
  qed
qed

lemma loop_waits:
  assumes "typed_ok s" and "length (con_in s) < n"
  shows "\<exists>out. run (loop n) s = (Stop Spinning, s\<lparr>con_in := [], console := console s @ out\<rparr>)"
  using assms
proof (induction n arbitrary: s)
  case 0
  then show ?case by simp
next
  case (Suc n)
  show ?case
    using readline_run [OF Suc.prems(1), of "''K> ''"]
  proof (elim disjE exE conjE)
    fix out assume "run (readline_with report (Some ''K> '')) s = (Stop Spinning, s\<lparr>con_in := [], console := console s @ out\<rparr>)"
    then show ?thesis by (auto simp: loop prog_simps)
  next
    fix r rest out
    let ?t = "s\<lparr>con_in := rest, console := console s @ out\<rparr>"
    assume r: "run (readline_with report (Some ''K> '')) s = (Ret r, ?t)" and len: "length rest < length (con_in s)" and sub: "set rest \<subseteq> set (con_in s)"
    have t: "typed_ok ?t" "length (con_in ?t) < n" using Suc.prems len sub by auto
    show ?thesis
    proof (cases r)
      case None
      then show ?thesis using r Suc.IH [OF t] by (auto simp: loop prog_simps)
    next
      case (Some b)
      obtain v more where v: "run (cmd b) ?t = (Ret v, ?t\<lparr>console := console ?t @ more\<rparr>)" by (rule printsE [OF prints_cmd])
      let ?u = "?t\<lparr>console := console ?t @ more\<rparr>"
      have "\<exists>out. run (loop n) ?u = (Stop Spinning, ?u\<lparr>con_in := [], console := console ?u @ out\<rparr>)"
        using Suc.IH [of ?u] t by simp
      then show ?thesis using r Some v cmd_zero [OF v] by (auto simp: loop prog_simps)
    qed
  qed
qed

end

interpretation lab4_monitor: command_loop "\<lambda>c. cprintf ''read error: %e\<newline>'' [VInt c]" runcmd monitor_loop
  using error_format by unfold_locales (auto intro!: prints_cprintf prints_runcmd simp: runcmd_zero readline_def)

lemma monitor_waits:
  assumes "typed_ok s"
  shows "\<exists>out. run (monitor p) s = (Stop Spinning, s\<lparr>con_in := [], console := console s @ out\<rparr>)"
proof -
  let ?greet = "thenP (printP ''Welcome to the JOS kernel monitor!\<newline>'' []) (thenP (printP ''Type 'help' for a list of commands.\<newline>'' [])
    (case p of None \<Rightarrow> ret () | Some p \<Rightarrow> print_trapframe p))"
  have "prints ?greet"
    by (auto split: option.split intro!: prints_then prints_ret prints_cprintf prints_trapframe formats)
  then obtain v out where g: "run ?greet s = (Ret v, s\<lparr>console := console s @ out\<rparr>)" by (rule printsE)
  let ?t = "s\<lparr>console := console s @ out\<rparr>"
  obtain more where l: "run (monitor_loop (Suc (length (con_in ?t)))) ?t = (Stop Spinning, ?t\<lparr>con_in := [], console := console ?t @ more\<rparr>)"
    using lab4_monitor.loop_waits [of ?t "Suc (length (con_in ?t))"] assms by auto
  have "run (monitor p) s = run (thenP ?greet (bindP (gets (\<lambda>s. length (con_in s))) (\<lambda>n. monitor_loop (Suc n)))) s"
    unfolding monitor_def by (auto simp: prog_simps simp del: monitor_loop.simps split: prod.splits outcome.splits)
  also have "\<dots> = (Stop Spinning, ?t\<lparr>con_in := [], console := console ?t @ more\<rparr>)"
    using g l by (simp add: run_thenP_Ret run_bindP run_gets del: monitor_loop.simps)
  finally show ?thesis by auto
qed

end
