(* ===== verification/Lab3Kill.thy ===== *)
theory Lab3Kill
  imports Lab3Start MonitorRun Isolation
begin

text \<open>
  The end of a user program of \<^verbatim>\<open>project3\<close>. A trap that is neither a system call nor a breakpoint, and a
  system call that passes a string the program cannot read, make the kernel free the environment and
  go to the monitor; every other environment keeps what it has.
\<close>

section \<open>Freeing the current environment\<close>

text \<open>
  \<open>env_free\<close> of \<^verbatim>\<open>project3\<close> invalidates every entry, that of \<^verbatim>\<open>lab4\<close> those of the current directory:
  for the current environment this is the same.
\<close>

definition owner :: "kstate \<Rightarrow> nat option \<times> (nat \<Rightarrow> nat option)" where
  "owner s = (curenv s, \<lambda>i. env_pgdir (envs s i))"

abbreviation (input) runs_in :: "nat \<Rightarrow> nat \<Rightarrow> kstate \<Rightarrow> bool" where
  "runs_in e pd s \<equiv> fst (owner s) = Some e \<and> snd (owner s) e = Some pd"

lemma owner_beyond: "keeps beyond m \<Longrightarrow> keeps owner m"
proof -
  assume "keeps beyond m"
  then have b: "beyond (snd (run m s)) = beyond s" for s by (simp add: keeps_def)
  show "keeps owner m" unfolding keeps_def owner_def using beyond_sel(1,6,7) [OF b] by simp
qed

lemma same_invalidate_owner: "same_on (runs_in e pd) (tlb_invalidate_lab3 pd va) (tlb_invalidate pd va)"
  unfolding same_on_def by (auto simp: tlb_invalidate_lab3_def tlb_invalidate_def prog_simps invlpg_def owner_def)

lemma owner_rest [keeps_rules]:
  "keeps owner (cprintf fmt ap)" "keeps owner (lcr3 pa)" "keeps owner (PADDR kva)" "keeps owner (KADDR pa)" "keeps owner (pa2page pa)"
  "keeps owner (page_lookup pd va)" "keeps owner (store_pte q w)" "keeps owner (page_decref pp)" "keeps owner (modify (store_word f i w))"
proof -
  show "keeps owner (cprintf fmt ap)" by (auto simp: keeps_def cprintf_def run_def owner_def split: option.splits)
  show "keeps owner (lcr3 pa)" unfolding lcr3_def by (intro keeps_modify) (simp add: owner_def)
  show "keeps owner (PADDR kva)" "keeps owner (KADDR pa)" "keeps owner (pa2page pa)"
    unfolding PADDR_def KADDR_def pa2page_def Let_def by (intro keeps_rules)+
  show "keeps owner (page_lookup pd va)" "keeps owner (store_pte q w)" "keeps owner (page_decref pp)" "keeps owner (modify (store_word f i w))"
    by (intro owner_beyond keeps_rules)+
qed

lemma same_owned: "keeps owner m \<Longrightarrow> same_on (runs_in e pd) m m"
  using same_keeps [of owner m "\<lambda>(c, d). c = Some e \<and> d e = Some pd"] by (simp add: case_prod_unfold)

lemmas same_owner_rules = same_pure same_owned same_bindP same_thenP same_if same_option same_prod same_forP

lemma same_remove_owner: "same_on (runs_in e pd) (page_remove_lab3 pd va) (page_remove pd va)"
  unfolding page_remove_lab3_def page_remove_def by (intro same_owner_rules same_invalidate_owner keeps_rules)

lemma same_pde_owner: "same_on (runs_in e pd) (env_free_pde_lab3 pd i) (env_free_pde pd i)"
  unfolding env_free_pde_lab3_def env_free_pde_def env_free_pte_lab3_def env_free_pte_def Let_def
  by (intro same_owner_rules same_remove_owner keeps_rules)

text \<open>As \<open>same_on\<close>, for what comes last: nothing is said of the state after it.\<close>

definition same_from :: "('s \<Rightarrow> bool) \<Rightarrow> ('s, 'a) prog \<Rightarrow> ('s, 'a) prog \<Rightarrow> bool" where
  "same_from I m n \<longleftrightarrow> (\<forall>s. I s \<longrightarrow> run m s = run n s)"

lemma same_from_bindP:
  "same_on I m m' \<Longrightarrow> (\<And>a. same_from I (n a) (n' a)) \<Longrightarrow> same_from I (bindP m n) (bindP m' n')"
  unfolding same_from_def same_on_def run_bindP by (force split: prod.split outcome.split)

lemma same_from_thenP: "same_on I m m' \<Longrightarrow> same_from I n n' \<Longrightarrow> same_from I (thenP m n) (thenP m' n')"
  unfolding thenP_def by (rule same_from_bindP)

lemma same_from_refl: "same_from I m m"
  by (simp add: same_from_def)

lemma same_from_gets:
  "(\<And>s. I s \<Longrightarrow> run (n (f s)) s = run (n' (f s)) s) \<Longrightarrow> same_from I (bindP (gets f) n) (bindP (gets f) n')"
  by (simp add: same_from_def prog_simps)

lemma same_from_prod: "(\<And>a b. same_from I (n a b) (n' a b)) \<Longrightarrow> same_from I (case x of (a, b) \<Rightarrow> n a b) (case x of (a, b) \<Rightarrow> n' a b)"
  by (simp split: prod.splits)

lemma env_free_lab3_same:
  assumes "curenv s = Some e" and "env_pgdir (envs s e) = Some pd"
  shows "run (env_free_lab3 e) s = run (env_free e) s"
proof -
  have loop: "same_from (runs_in e pd) (thenP (forP [0..<unat (PDX UTOP)] (env_free_pde_lab3 pd)) rest) (thenP (forP [0..<unat (PDX UTOP)] (env_free_pde pd)) rest)" for rest :: "unit km"
    by (intro same_from_thenP same_forP same_pde_owner same_from_refl)
  have "same_from (runs_in e pd) (env_free_lab3 e) (env_free e)"
    unfolding env_free_lab3_def env_free_def whenP_def
    by (rule same_from_bindP, rule same_pure(3), rule same_from_thenP, intro same_owner_rules keeps_rules,
      rule same_from_bindP, rule same_pure(3), rule same_from_prod, rule same_from_thenP, intro same_owner_rules keeps_rules,
      rule same_from_gets) (use loop in \<open>auto simp: same_from_def owner_def run_bindP run_deref simp del: run_thenP\<close>)
  then show ?thesis using assms by (simp add: same_from_def owner_def)
qed

section \<open>Destroying the current environment\<close>

lemma con_in_beyond: "keeps beyond m \<Longrightarrow> keeps con_in m"
proof -
  assume "keeps beyond m"
  then have b: "beyond (snd (run m s)) = beyond s" for s by (simp add: keeps_def)
  have "con_in (snd (run m s)) = con_in s" for s using b [of s, THEN arg_cong, of con_in] by (simp add: beyond_def)
  then show "keeps con_in m" unfolding keeps_def by simp
qed

lemma con_in_env_free: "keeps con_in (env_free e)"
proof -
  have basic: "keeps con_in (cprintf fmt ap)" for fmt ap
    by (auto simp: keeps_def cprintf_def run_def split: option.splits)
  have addr: "keeps con_in (PADDR kva)" "keeps con_in (KADDR pa)" "keeps con_in (pa2page pa)" for kva pa
    unfolding PADDR_def KADDR_def pa2page_def Let_def by (intro keeps_rules)+
  have cr3: "keeps con_in (lcr3 pa)" for pa
    unfolding lcr3_def by (intro keeps_modify) simp
  have walk: "keeps con_in (page_remove pd va)" "keeps con_in (page_decref pp)" "keeps con_in (modify (store_word f i w))" for pd va pp f i w
    by (intro con_in_beyond keeps_rules)+
  have env: "keeps con_in (modify (upd_env e g))" "keeps con_in (modify (\<lambda>s. (upd_env e (h s) s)\<lparr>env_free_list := x\<rparr>))" for g h x
    by (intro keeps_modify; simp)+
  show ?thesis
    unfolding env_free_def env_free_pde_def env_free_pte_def Let_def
    by (intro keeps_rules basic addr cr3 walk env)
qed

lemma lab3_formats [formats]:
  "vprintfmt ''Destroyed the only environment - nothing more to do!\<newline>'' [] \<noteq> None"
  "vprintfmt ''TRAP frame at %p\<newline>'' [VInt w] \<noteq> None" "vprintfmt ''Incoming TRAP frame at %p\<newline>'' [VInt w] \<noteq> None"
  "vprintfmt ''[%08x] user fault va %08x ip %08x\<newline>'' [VInt w, VInt v, VInt u] \<noteq> None"
  "vprintfmt ''[%08x] user_mem_check assertion failure for va %08x\<newline>'' [VInt w, VInt v] \<noteq> None"
  by (simp_all add: fmt_eval)

lemma prints_trapframe_lab3: "prints (print_trapframe_lab3 p)"
proof -
  have "prints (print_regs r)" for r unfolding print_regs_def by (intro prints_rules formats)
  then show ?thesis
    unfolding print_trapframe_lab3_def whenP_def by (intro prints_gets) (auto split: prod.split intro!: prints_then prints_if prints_ret prints_cprintf formats)
qed

lemma monitor_lab3_idle:
  assumes "con_in s = []"
  shows "\<exists>out. run (monitor_lab3 None) s = (Stop Spinning, s\<lparr>con_in := [], console := console s @ out\<rparr>)"
  using assms by (auto simp: monitor_lab3_def readline_lab3_def readline_with_def prog_simps run_cprintf formats)

text \<open>What is left of the machine when environment \<open>e\<close> is gone.\<close>

definition gone :: "kstate \<Rightarrow> nat \<Rightarrow> nat list \<Rightarrow> kstate \<Rightarrow> bool" where
  "gone s e es t \<longleftrightarrow>
     (\<exists>zs. kernel_ok t (dir s e # zs) (e # es)) \<and> live t = live s - {e} \<and> (\<forall>i. i \<noteq> e \<longrightarrow> envs t i = envs s i) \<and>
     (\<forall>f. f \<notin> own s (dir s e) \<longrightarrow> pmem t f = pmem s f)"

lemma env_destroy_lab3_run:
  assumes ok: "kernel_ok s xs es" and e: "e \<in> live s" and cur: "curenv s = Some e" and idle: "con_in s = []"
  shows "\<exists>t. run (env_destroy_lab3 e) s = (Stop Spinning, t) \<and> gone s e es t"
proof -
  obtain u zs where u: "run (env_free e) s = (Ret (), u)" "kernel_ok u (dir s e # zs) (e # es)" "live u = live s - {e}"
    "\<forall>i. i \<noteq> e \<longrightarrow> envs u i = envs s i" "\<forall>f. f \<notin> own s (dir s e) \<longrightarrow> pmem u f = pmem s f"
    using kernel_free_env [OF ok e] by blast
  have f: "run (env_free_lab3 e) s = (Ret (), u)" using env_free_lab3_same [OF cur kernel_okD(3) [OF ok e]] u(1) by simp
  have "con_in u = []" using keepsD [OF con_in_env_free u(1)] idle by simp
  let ?v = "u\<lparr>console := console u @ render ''Destroyed the only environment - nothing more to do!\<newline>'' []\<rparr>"
  obtain out where m: "run (monitor_lab3 None) ?v = (Stop Spinning, ?v\<lparr>con_in := [], console := console ?v @ out\<rparr>)"
    using monitor_lab3_idle [of ?v] \<open>con_in u = []\<close> by auto
  let ?t = "?v\<lparr>con_in := [], console := console ?v @ out\<rparr>"
  have "run (env_destroy_lab3 e) s = (Stop Spinning, ?t)"
    using f m by (simp add: env_destroy_lab3_def prog_simps run_cprintf formats)
  moreover have "kernel_ok ?t (dir s e # zs) (e # es) = kernel_ok u (dir s e # zs) (e # es)" "live ?t = live u"
    by (intro kernel_ok_same; simp)+
  ultimately show ?thesis using u by (auto simp: gone_def)
qed

lemma gone_same:
  assumes g: "gone u e es t" and pm: "pmem u = pmem s"
    and env: "\<And>i. i \<noteq> e \<Longrightarrow> envs u i = envs s i" "env_status (envs u e) = env_status (envs s e)" "env_pgdir (envs u e) = env_pgdir (envs s e)"
  shows "gone s e es t"
proof -
  have "env_status (envs u i) = env_status (envs s i)" "env_pgdir (envs u i) = env_pgdir (envs s i)" for i
    using env by (cases "i = e"; simp)+
  then have "live u = live s" "dir u = dir s" by (simp_all add: live_def dir_def fun_eq_iff)
  moreover have "own u = own s" using pm by (simp add: own_def user_tables_def fun_eq_iff)
  ultimately show ?thesis using g pm env(1) by (simp add: gone_def)
qed

section \<open>The trap\<close>

text \<open>The program does what it may not: an exception, or a string it cannot read.\<close>

definition offends :: "kstate \<Rightarrow> nat \<Rightarrow> Trapframe \<Rightarrow> bool" where
  "offends s e tf \<longleftrightarrow>
     tf_trapno tf \<notin> {3, 48} \<or>
     (let r = tf_regs tf
      in tf_trapno tf = 48 \<and> reg_eax r = SYS_cputs \<and> reg_ecx r \<noteq> 0 \<and> unat (reg_edx r) + unat (reg_ecx r) + 4095 < 2 ^ 32 \<and>
         (\<exists>a. unat (reg_edx r) \<le> unat a \<and> unat a < unat (reg_edx r) + unat (reg_ecx r) \<and> \<not> user_ok s (dir s e) PTE_U a))"

text \<open>A step that prints, and then the end of the environment.\<close>

lemma print_then_destroy:
  assumes ok: "kernel_ok s xs es" and e: "e \<in> live s" and cur: "curenv s = Some e" and idle: "con_in s = []" and p: "prints m"
  shows "\<exists>t. run (thenP m (env_destroy_lab3 e)) s = (Stop Spinning, t) \<and> gone s e es t"
proof -
  obtain v out where m: "run m s = (Ret v, s\<lparr>console := console s @ out\<rparr>)" by (rule printsE [OF p])
  let ?u = "s\<lparr>console := console s @ out\<rparr>"
  have K: "kernel_ok ?u xs es = kernel_ok s xs es" "live ?u = live s" by (intro kernel_ok_same; simp)+
  obtain t where t: "run (env_destroy_lab3 e) ?u = (Stop Spinning, t)" "gone ?u e es t"
    using env_destroy_lab3_run [of ?u xs es e] ok e cur idle unfolding K by auto
  have "gone s e es t" by (rule gone_same [OF t(2)]) simp_all
  then show ?thesis using m t(1) by (simp add: run_thenP_Ret)
qed

lemma assert_destroys:
  assumes ok: "kernel_ok s xs es" and e: "e \<in> live s" and cur: "curenv s = Some e" and idle: "con_in s = []"
    and len: "len \<noteq> 0" "unat va + unat len + 4095 < 2 ^ 32"
    and bad: "unat va \<le> unat a" "unat a < unat va + unat len" "\<not> user_ok s (dir s e) PTE_U a"
  shows "\<exists>t. run (user_mem_assert_lab3 (Some e) va len PTE_U) s = (Stop Spinning, t) \<and> gone s e es t"
proof -
  note K = kernel_ok_space(1,3) [OF ok e]
  obtain i where i: "find (\<lambda>i. \<not> user_ok s (dir s e) PTE_U (va + of_nat i * PGSIZE)) [0..<pages_touched va len] = Some i"
    using visited_pages [OF len(2,1), of s "dir s e" PTE_U] find_None_upt [of "\<lambda>i. user_ok s (dir s e) PTE_U (va + of_nat i * PGSIZE)"] bad
    by (cases "find (\<lambda>i. \<not> user_ok s (dir s e) PTE_U (va + of_nat i * PGSIZE)) [0..<pages_touched va len]") auto
  let ?u = "s\<lparr>user_mem_check_addr := va + of_nat i * PGSIZE\<rparr>"
  have c: "run (user_mem_check (Some e) va len PTE_U) s = (Ret (- E_FAULT), ?u)"
    using user_mem_check_run [OF K, of va len PTE_U] i by simp
  have ku: "kernel_ok ?u xs es = kernel_ok s xs es" "live ?u = live s" by (intro kernel_ok_same; simp)+
  have "prints (printP ''[%08x] user_mem_check assertion failure for va %08x\<newline>'' [VInt x, VInt y])" for x y
    by (intro prints_then prints_cprintf prints_ret formats)
  from print_then_destroy [OF _ _ _ _ this, of ?u xs es e] obtain t where
    t: "run (thenP (printP ''[%08x] user_mem_check assertion failure for va %08x\<newline>''
        [VInt (env_id (envs ?u e)), VInt (user_mem_check_addr ?u)]) (env_destroy_lab3 e)) ?u = (Stop Spinning, t)" "gone ?u e es t"
    using ok e cur idle unfolding ku by auto
  have "gone s e es t" by (rule gone_same [OF t(2)]) simp_all
  moreover have "run (user_mem_assert_lab3 (Some e) va len PTE_U) s = (Stop Spinning, t)"
    using c t(1) unfolding user_mem_assert_lab3_def by (simp add: run_bindP run_gets run_deref word_sless_alt del: run_thenP)
  ultimately show ?thesis by blast
qed

lemma dispatch_destroys:
  assumes ok: "kernel_ok s xs es" and e: "e \<in> live s" and cur: "curenv s = Some e" and idle: "con_in s = []"
    and tf: "env_tf (envs s e) = tf" "tf_cs tf = GD_UT OR 3" and off: "offends s e tf"
  shows "\<exists>t. run (trap_dispatch_lab3 (InEnv e)) s = (Stop Spinning, t) \<and> gone s e es t"
proof -
  have rt: "read_tf (InEnv e) s = tf" using tf(1) by (simp add: read_tf_def)
  have trapf: "prints (print_trapframe_lab3 (InEnv e))" by (rule prints_trapframe_lab3)
  consider "tf_trapno tf = 14" | "tf_trapno tf \<notin> {3, 14, 48}" | "tf_trapno tf = 48" using off by (auto simp: offends_def Let_def)
  then show ?thesis
  proof cases
    case 1
    have p: "prints (thenP (printP ''[%08x] user fault va %08x ip %08x\<newline>'' [VInt x, VInt y, VInt z]) (print_trapframe_lab3 (InEnv e)))" for x y z
      by (intro prints_then prints_cprintf prints_ret formats trapf)
    have "tf_cs tf \<noteq> 3" using tf(2) by simp
    then have "run (trap_dispatch_lab3 (InEnv e)) s = run (thenP (thenP (printP ''[%08x] user fault va %08x ip %08x\<newline>''
        [VInt (env_id (envs s e)), VInt (cr2 s), VInt (tf_eip tf)]) (print_trapframe_lab3 (InEnv e))) (env_destroy_lab3 e)) s"
      using 1 rt cur unfolding trap_dispatch_lab3_def page_fault_handler_lab3_def
      by (simp add: run_bindP run_gets run_deref thenP_laws del: run_thenP)
    then show ?thesis using print_then_destroy [OF ok e cur idle p] by simp
  next
    case 2
    have "tf_cs tf \<noteq> GD_KT" using tf(2) by simp
    moreover obtain v out where "run (print_trapframe_lab3 (InEnv e)) s = (Ret v, s\<lparr>console := console s @ out\<rparr>)" by (rule printsE [OF trapf])
    then have "run (thenP (print_trapframe_lab3 (InEnv e)) (bindP (gets curenv) (\<lambda>cur. bindP (deref cur) env_destroy_lab3))) s
        = run (thenP (print_trapframe_lab3 (InEnv e)) (env_destroy_lab3 e)) s"
      using cur by (simp add: run_thenP_Ret run_bindP run_gets run_deref)
    ultimately show ?thesis
      using 2 rt print_then_destroy [OF ok e cur idle trapf] unfolding trap_dispatch_lab3_def
      by (simp add: run_bindP run_gets del: run_thenP)
  next
    case 3
    then obtain a where a: "reg_eax (tf_regs tf) = 0" "reg_ecx (tf_regs tf) \<noteq> 0" "unat (reg_edx (tf_regs tf)) + unat (reg_ecx (tf_regs tf)) + 4095 < 2 ^ 32"
      "unat (reg_edx (tf_regs tf)) \<le> unat a" "unat a < unat (reg_edx (tf_regs tf)) + unat (reg_ecx (tf_regs tf))" "\<not> user_ok s (dir s e) PTE_U a"
      using off by (auto simp: offends_def Let_def)
    obtain t where "run (user_mem_assert_lab3 (Some e) (reg_edx (tf_regs tf)) (reg_ecx (tf_regs tf)) PTE_U) s = (Stop Spinning, t)" "gone s e es t"
      using assert_destroys [OF ok e cur idle a(2-6)] by blast
    then show ?thesis
      using 3 rt cur a(1) by (simp add: trap_dispatch_lab3_def syscall_lab3_def sys_cputs_lab3_def Let_def prog_simps)
  qed
qed

lemma trap_lab3_destroys:
  assumes ok: "kernel_ok s xs es" and e: "e \<in> live s" and cur: "curenv s = Some e" and idle: "con_in s = []"
    and irq: "eflags s AND FL_IF = 0" and cs: "tf_cs tf = GD_UT OR 3" and off: "offends s e tf"
  shows "\<exists>t. run (trap_lab3 addr tf) s = (Stop Spinning, t) \<and> gone s e es t"
proof -
  let ?u = "upd_env e (\<lambda>v. v\<lparr>env_tf := tf\<rparr>) (s\<lparr>console := console s @ render ''Incoming TRAP frame at %p\<newline>'' [VInt addr]\<rparr>)"
  let ?v = "?u\<lparr>last_tf := tf_addr_lab3 (InEnv e) ?u\<rparr>"
  have K: "kernel_ok ?v xs es = kernel_ok s xs es" "live ?v = live s" "dir ?v = dir s"
    by (intro kernel_ok_same; simp)+
  have "entry ?v pd a = entry s pd a" "pde_at ?v pd a = pde_at s pd a" for pd a by (simp_all add: entry_def pde_at_def)
  then have "user_ok ?v pd p a = user_ok s pd p a" for pd p a unfolding user_ok_def by simp
  then have "offends ?v e tf" using off unfolding offends_def K(3) by simp
  then obtain t where t: "run (trap_dispatch_lab3 (InEnv e)) ?v = (Stop Spinning, t)" "gone ?v e es t"
    using dispatch_destroys [of ?v xs es e tf] ok e cur idle cs unfolding K by auto
  have "gone s e es t" by (rule gone_same [OF t(2)]) simp_all
  moreover have "run (trap_lab3 addr tf) s = (Stop Spinning, t)"
    using t(1) irq cs cur unfolding trap_lab3_def
    by (simp add: prog_simps run_cprintf formats)
  ultimately show ?thesis by blast
qed

end
