(* ===== verification/TrapKill.thy ===== *)
theory TrapKill
  imports Isolation Lab3Kill
begin

text \<open>
  The end of a user program of \<^verbatim>\<open>lab4\<close> that raises an exception: the kernel frees the environment and
  goes to the scheduler, which has nothing to run. It goes to the monitor when no other environment is
  alive; otherwise it releases the big kernel lock and halts, if it holds the lock.
\<close>

section \<open>What the scheduler does\<close>

text \<open>How the kernel ends after freeing environment \<open>e\<close> of \<open>s\<close>.\<close>

definition others_alive :: "kstate \<Rightarrow> nat \<Rightarrow> bool" where
  "others_alive s e \<longleftrightarrow> (\<exists>i \<in> live s - {e}. alive (env_status (envs s i)))"

definition last_stop :: "kstate \<Rightarrow> nat \<Rightarrow> stop" where
  "last_stop s e =
     (if \<not> others_alive s e then Spinning else if locked (kernel_lock s) = 0 then BadAccess else Halted)"

text \<open>The lock is free, or this CPU holds it.\<close>

definition lock_mine :: "kstate \<Rightarrow> bool" where
  "lock_mine s \<longleftrightarrow> lk_cpu (kernel_lock s) = (if locked (kernel_lock s) = 0 then None else Some (cpunum s))"

lemma unlock_mine:
  assumes "lock_mine s"
  shows "\<exists>k. run spin_unlock s = (if locked (kernel_lock s) = 0 then Stop BadAccess else Ret (), s\<lparr>kernel_lock := k\<rparr>)
    \<and> locked k = 0 \<and> lk_cpu k = None"
proof (cases "locked (kernel_lock s) = 0")
  case True
  then show ?thesis
    using assms spin_unlock_free [of s] by (intro exI [of _ "kernel_lock s"]) (simp add: lock_mine_def)
next
  case False
  let ?k = "(kernel_lock s)\<lparr>lk_pcs := (lk_pcs (kernel_lock s))[0 := 0], lk_cpu := None, locked := 0\<rparr>"
  have "run spin_unlock s = (Ret (), s\<lparr>kernel_lock := ?k\<rparr>)"
    using assms False by (simp add: lock_mine_def spin_unlock_def prog_simps holding_def)
  then show ?thesis using False by (intro exI [of _ ?k]) simp
qed

text \<open>Nothing of the machine but input, output, lock, \<^verbatim>\<open>cr3\<close> and the CPU's entry changes.\<close>

lemma sched_yield_ends:
  assumes kp: "kern_pgdir s < 65536" and typed: "typed_ok s" and lock: "lock_mine s" and none: "curenv s = None"
    and c: "env_status (envs s e) = ENV_FREE" 
  shows "\<exists>inp out k m cr. run sched_yield s = (Stop (last_stop s e),
      s\<lparr>con_in := inp, console := console s @ out, kernel_lock := k, cpus := m, cr3 := cr\<rparr>)
    \<and> cpu_env (m (cpunum s)) = None \<and> (others_alive s e \<longrightarrow> cr = page2pa (kern_pgdir s) \<and> cpu_status (m (cpunum s)) = CPU_HALTED)
    \<and> (locked (kernel_lock s) \<noteq> 0 \<and> others_alive s e \<longrightarrow> locked k = 0)"
proof (cases "others_alive s e")
  case True
  then obtain i where i: "i < NENV" "alive (env_status (envs s i))" by (auto simp: others_alive_def live_def)
  have "lock_mine (about_to_halt s)" using lock by (simp add: lock_mine_def about_to_halt_def Let_def)
  then obtain k where k: "run spin_unlock (about_to_halt s) = (if locked (kernel_lock s) = 0 then Stop BadAccess else Ret (), (about_to_halt s)\<lparr>kernel_lock := k\<rparr>)"
    "locked k = 0"
    using unlock_mine by (fastforce simp: about_to_halt_def Let_def)
  have "run sched_yield s = (Stop (last_stop s e), (about_to_halt s)\<lparr>kernel_lock := k\<rparr>)"
    using sched_yield_halts [OF i kp] k(1) True by (simp add: last_stop_def)
  then show ?thesis
    using k(2)
    by (intro exI [of _ "con_in s"] exI [of _ "[]"] exI [of _ k] exI [of _ "cpus (about_to_halt s)"] exI [of _ "page2pa (kern_pgdir s)"])
      (simp add: about_to_halt_def set_curenv_def Let_def)
next
  case False
  have dead: "\<not> (\<exists>i \<in> set [0..<NENV]. alive (env_status (envs s i)))"
  proof
    assume "\<exists>i \<in> set [0..<NENV]. alive (env_status (envs s i))"
    then obtain i where i: "i < NENV" "alive (env_status (envs s i))" by auto
    then have "i \<in> live s - {e}" using c by (auto simp: live_def alive_def)
    then show False using i False unfolding others_alive_def by blast
  qed
  have f: "vprintfmt ''No runnable environments in the system!\<newline>'' [] \<noteq> None" by (simp add: fmt_eval)
  let ?u = "s\<lparr>console := console s @ render ''No runnable environments in the system!\<newline>'' []\<rparr>"
  obtain out where "run (monitor None) ?u = (Stop Spinning, ?u\<lparr>con_in := [], console := console ?u @ out\<rparr>)"
    using monitor_waits [of ?u None] typed by auto
  then have "run sched_yield s = (Stop Spinning, ?u\<lparr>con_in := [], console := console ?u @ out\<rparr>)"
    using dead by (simp add: sched_yield_def sched_halt_def run_bindP run_gets run_thenP run_ret run_cprintf [OF f])
  then show ?thesis
    using False none
    by (intro exI [of _ "[]"] exI [of _ "render ''No runnable environments in the system!\<newline>'' [] @ out"]
        exI [of _ "kernel_lock s"] exI [of _ "cpus s"] exI [of _ "cr3 s"]) (simp add: last_stop_def)
qed

section \<open>The end of an environment\<close>

text \<open>What is left of the machine when the current environment \<open>e\<close> is gone.\<close>

definition ended :: "kstate \<Rightarrow> nat \<Rightarrow> nat list \<Rightarrow> kstate \<Rightarrow> bool" where
  "ended s e es t \<longleftrightarrow> gone s e es t \<and> curenv t = None \<and> kern_pgdir t = kern_pgdir s
     \<and> (others_alive s e \<longrightarrow> cr3 t = page2pa (kern_pgdir s) \<and> cpu_status (cpus t (cpunum t)) = CPU_HALTED
          \<and> (locked (kernel_lock s) \<noteq> 0 \<longrightarrow> locked (kernel_lock t) = 0))"

lemma env_destroy_ends:
  assumes ok: "kernel_ok s xs es" and e: "e \<in> live s" and cur: "curenv s = Some e" and typed: "typed_ok s" and lock: "lock_mine s"
  shows "\<exists>t. run (env_destroy e) s = (Stop (last_stop s e), t) \<and> ended s e es t"
proof -
  obtain u zs where u: "run (env_free e) s = (Ret (), u)" "kernel_ok u (dir s e # zs) (e # es)" "live u = live s - {e}" "curenv u = curenv s"
    "\<forall>i. i \<noteq> e \<longrightarrow> envs u i = envs s i" "kern_pgdir u = kern_pgdir s" "\<forall>f. f \<notin> own s (dir s e) \<longrightarrow> pmem u f = pmem s f"
    using kernel_free_env [OF ok e] by blast
  have R: "con_in u = con_in s" "running_on u = running_on s"
    using keepsD [OF con_in_env_free u(1)] keepsD [OF env_free_keeps_cpus u(1)] .
  let ?v = "set_curenv None u"
  have c: "env_status (envs u e) = ENV_FREE" using u(3) e by (auto simp: live_def)
  have oth: "others_alive ?v e = others_alive s e" using u(3,5) by (auto simp: others_alive_def live_def)
  have kp: "kern_pgdir s < 65536" by (rule kernel_ok_space(5) [OF ok e])
  have lm: "lock_mine ?v" "kernel_lock ?v = kernel_lock s" "cpunum ?v = cpunum s" using lock R(2) by (simp_all add: lock_mine_def)
  have pre: "kern_pgdir ?v < 65536" "typed_ok ?v" "curenv ?v = None" "env_status (envs ?v e) = ENV_FREE"
    using kp typed c u(6) R(1) by simp_all
  obtain inp out k m cr where t: "run sched_yield ?v = (Stop (last_stop ?v e),
      ?v\<lparr>con_in := inp, console := console ?v @ out, kernel_lock := k, cpus := m, cr3 := cr\<rparr>)"
    "cpu_env (m (cpunum ?v)) = None" "others_alive ?v e \<longrightarrow> cr = page2pa (kern_pgdir ?v) \<and> cpu_status (m (cpunum ?v)) = CPU_HALTED"
    "locked (kernel_lock ?v) \<noteq> 0 \<and> others_alive ?v e \<longrightarrow> locked k = 0"
    using sched_yield_ends [OF pre(1,2) lm(1) pre(3,4)] by blast
  let ?t = "?v\<lparr>con_in := inp, console := console ?v @ out, kernel_lock := k, cpus := m, cr3 := cr\<rparr>"
  have K: "kernel_ok ?t (dir s e # zs) (e # es) = kernel_ok u (dir s e # zs) (e # es)" "live ?t = live u"
    by (intro kernel_ok_same; simp)+
  have "gone s e es ?t" using u K unfolding gone_def by auto
  then have "ended s e es ?t" using t(2-4) u(6) oth lm(2,3) by (simp add: ended_def)
  moreover have "last_stop ?v e = last_stop s e" unfolding last_stop_def oth lm(2) by (rule refl)
  then have "run (env_destroy e) s = (Stop (last_stop s e), ?t)"
    using u(1,4) t(1) cur by (simp add: env_destroy_def run_bindP run_gets run_thenP run_modify)
  ultimately show ?thesis by blast
qed

lemma ended_same:
  assumes g: "ended u e es t" and pm: "pmem u = pmem s" and env: "\<And>i. i \<noteq> e \<Longrightarrow> envs u i = envs s i"
    "env_status (envs u e) = env_status (envs s e)" "env_pgdir (envs u e) = env_pgdir (envs s e)"
    and k: "kern_pgdir u = kern_pgdir s" "kernel_lock u = kernel_lock s"
  shows "ended s e es t" "last_stop u e = last_stop s e"
proof -
  have st: "env_status (envs u i) = env_status (envs s i)" for i using env by (cases "i = e") simp_all
  have oth: "others_alive u e = others_alive s e" unfolding others_alive_def live_def st by (rule refl)
  then show "last_stop u e = last_stop s e" by (simp add: last_stop_def k(2))
  have "gone u e es t" using g by (simp add: ended_def)
  from gone_same [OF this pm env] show "ended s e es t" using g oth k by (simp add: ended_def)
qed

lemma print_then_end:
  assumes ok: "kernel_ok s xs es" and e: "e \<in> live s" and cur: "curenv s = Some e" and typed: "typed_ok s" and lock: "lock_mine s" and m: "prints m"
  shows "\<exists>t. run (thenP m (env_destroy e)) s = (Stop (last_stop s e), t) \<and> ended s e es t"
proof -
  obtain v out where a: "run m s = (Ret v, s\<lparr>console := console s @ out\<rparr>)" by (rule printsE [OF m])
  let ?u = "s\<lparr>console := console s @ out\<rparr>"
  have K: "kernel_ok ?u xs es = kernel_ok s xs es" "live ?u = live s" by (intro kernel_ok_same; simp)+
  have lm: "lock_mine ?u" using lock by (simp add: lock_mine_def)
  obtain t where t: "run (env_destroy e) ?u = (Stop (last_stop ?u e), t)" "ended ?u e es t"
    using env_destroy_ends [of ?u xs es e] ok e cur typed lm unfolding K by auto
  note same = ended_same [OF t(2), of s, simplified]
  show ?thesis using a t(1) same by (simp add: run_thenP_Ret)
qed

section \<open>The trap\<close>

text \<open>The vectors of neither a breakpoint, a system call nor a spurious interrupt.\<close>

lemma dispatch_ends:
  assumes ok: "kernel_ok s xs es" and e: "e \<in> live s" and cur: "curenv s = Some e" and typed: "typed_ok s" and lock: "lock_mine s"
    and tf: "env_tf (envs s e) = tf" "tf_cs tf = GD_UT OR 3" and n: "tf_trapno tf \<notin> {3, 39, 48}"
  shows "\<exists>t. run (trap_dispatch (InEnv e)) s = (Stop (last_stop s e), t) \<and> ended s e es t"
proof -
  have rt: "read_tf (InEnv e) s = tf" using tf(1) by (simp add: read_tf_def)
  note trapf = prints_trapframe [of "InEnv e"] and fin = print_then_end [OF ok e cur typed lock]
  show ?thesis
  proof (cases "tf_trapno tf = 14")
    case True
    have p: "prints (thenP (printP ''[%08x] user fault va %08x ip %08x\<newline>'' [VInt x, VInt y, VInt z]) (print_trapframe (InEnv e)))" for x y z
      by (intro prints_then prints_cprintf prints_ret formats trapf)
    have "tf_cs tf \<noteq> 3" using tf(2) by simp
    then have "run (trap_dispatch (InEnv e)) s = run (thenP (thenP (printP ''[%08x] user fault va %08x ip %08x\<newline>''
        [VInt (env_id (envs s e)), VInt (cr2 s), VInt (tf_eip tf)]) (print_trapframe (InEnv e))) (env_destroy e)) s"
      using True rt cur unfolding trap_dispatch_def page_fault_handler_def
      by (simp add: run_bindP run_gets run_deref thenP_laws del: run_thenP)
    then show ?thesis using fin [OF p] by simp
  next
    case False
    have "tf_cs tf \<noteq> GD_KT" using tf(2) by simp
    moreover obtain v out where "run (print_trapframe (InEnv e)) s = (Ret v, s\<lparr>console := console s @ out\<rparr>)" by (rule printsE [OF trapf])
    then have "run (thenP (print_trapframe (InEnv e)) (bindP (gets curenv) (\<lambda>cur. bindP (deref cur) env_destroy))) s
        = run (thenP (print_trapframe (InEnv e)) (env_destroy e)) s"
      using cur by (simp add: run_thenP_Ret run_bindP run_gets run_deref)
    ultimately show ?thesis
      using False n rt fin [OF trapf] unfolding trap_dispatch_def by (simp add: run_bindP run_gets del: run_thenP)
  qed
qed

lemma trap_ends:
  assumes ok: "kernel_ok s xs es" and e: "e \<in> live s" and fu: "from_user e tf s" and typed: "typed_ok s" and lock: "lock_mine s"
    and tf: "tf_cs tf = GD_UT OR 3" "tf_trapno tf \<notin> {3, 39, 48}"
  shows "\<exists>t. run (trap addr tf) s = (Stop (last_stop s e), t) \<and> ended s e es t"
proof -
  let ?u = "trapped e tf s"
  have K: "kernel_ok ?u xs es = kernel_ok s xs es" "live ?u = live s" by (intro kernel_ok_same; simp add: trapped_def Let_def)+
  have S: "con_in ?u = con_in s" "kernel_lock ?u = kernel_lock s" "pmem ?u = pmem s" "kern_pgdir ?u = kern_pgdir s"
    "\<And>i. i \<noteq> e \<Longrightarrow> envs ?u i = envs s i" by (simp_all add: trapped_def Let_def)
  have cur: "curenv ?u = Some e" using fu by (subst trapped_sel(1)) (simp add: from_user_def)
  have pre: "kernel_ok ?u xs es" "e \<in> live ?u" "typed_ok ?u" using ok e typed unfolding K S(1) by simp_all
  have lm: "lock_mine ?u" using lock S(2) by (simp add: lock_mine_def trapped_sel)
  then obtain t where t: "run (trap_dispatch (InEnv e)) ?u = (Stop (last_stop ?u e), t)" "ended ?u e es t"
    using dispatch_ends [OF pre(1,2) cur pre(3) lm trapped_sel(2) tf] by blast
  note same = ended_same [OF t(2) S(3,5) _ _ S(4,2), unfolded trapped_sel, OF _ refl refl]
  show ?thesis using t(1) same unfolding trap_user_run [OF fu] run_thenP by auto
qed

end
