(* ===== verification/KernelProps.thy ===== *)
theory KernelProps
  imports Sample TrapKill Loader
begin

text \<open>
  The properties of the whole machine: the invariant on environments and memory that creation and
  destruction of environments keep, and what a user program cannot do.
\<close>

text \<open>C1. A user program is confined to its own pages. Whatever sequence of stores the page tables allow
  and traps with whatever registers it makes, as long as the kernel goes back to user mode it goes
  back to the same environment in the same address space, the kernel's invariant holds, the kernel's
  page directory and tables are as they were, and every page the program can store to is neither
  free nor a page directory or page table of the kernel or of any environment.\<close>

theorem user_program_confined:
  assumes "in_user s0 c s0" and "reachable (\<lambda>s. s = s0) user_step s"
  shows "curenv s = Some c \<and> frame_of (cr3 s) = dir s c \<and> (\<exists>xs es. kernel_ok s xs es)
    \<and> (\<forall>f \<in> kernel_frames s0. pmem s f = pmem s0 f)
    \<and> (\<forall>va f. user_slot s va = Some f \<longrightarrow>
         f < npages s \<and> f \<notin> kernel_frames s \<and> (\<forall>e \<in> live s. f \<notin> own s (dir s e))
         \<and> (\<forall>xs. free_pages s xs \<longrightarrow> f \<notin> set xs))"
proof -
  have "(\<lambda>s. s = s0) = (\<lambda>s. s = s0 \<and> in_user s0 c s)" using assms(1) by auto
  then have s: "in_user s0 c s" using user_mode.always assms(2) by metis
  then obtain xs es where ok: "kernel_ok s xs es" by (auto simp: in_user_def settled_def)
  have cr3: "dir s c \<in> dir s ` live s" "frame_of (cr3 s) = dir s c" and seal: "kernel_sealed s"
    using s by (simp_all add: in_user_def settled_def)
  note sp = kernel_okD(6) [OF ok]
  have "f < npages s \<and> f \<notin> kernel_frames s \<and> (\<forall>e \<in> live s. f \<notin> own s (dir s e)) \<and> (\<forall>ys. free_pages s ys \<longrightarrow> f \<notin> set ys)"
    if slot: "user_slot s va = Some f" for va f
    using user_slot_client [OF sp seal cr3 slot] free_pages_unique [OF pgdir_okD(1) [OF spaces_okD(2) [OF sp]]]
    by (auto simp: client_page_def)
  then show ?thesis using s ok by (auto simp: in_user_def settled_def)
qed

text \<open>
  The sample machine with a kernel mapping: the kernel's page table is page 1, and page 15, an ELF image
  with one segment, appears at \<^verbatim>\<open>0xF000F000\<close>.
\<close>

definition user_memory :: "nat \<Rightarrow> nat \<Rightarrow> u32" where
  "user_memory f i =
     (if f = 14 \<and> i = UVPT_index then 0xE005 else if (f = 0 \<or> f = 14) \<and> i = 960 then 0x1003
      else if f = 1 \<and> i = 15 then 0xF003 else if f = 15 then sample_image i else sample_memory f i)"

definition sample_user :: kstate where
  "sample_user = sample\<lparr>pmem := user_memory\<rparr>"

lemma sample_user_sel [simp]:
  "npages sample_user = 16" "pages sample_user = sample_page" "page_free_list sample_user = Some 2"
  "envs sample_user = sample_env" "env_free_list sample_user = Some 1" "kern_pgdir sample_user = 0"
  "cr3 sample_user = 0xE000" "curenv sample_user = Some 0" "pmem sample_user = user_memory"
  by (simp_all add: sample_user_def)

lemma user_memory_frames:
  "user_memory 0 i = (if i = 960 then 0x1003 else 0)" "user_memory 1 i = (if i = 15 then 0xF003 else 0)"
  "user_memory 14 i = (if i = 2 then 0xC007 else if i = UVPT_index then 0xE005 else if i = 960 then 0x1003 else 0)"
  "user_memory 12 i = (if i = 0 then 0xD007 else 0)" "user_memory 15 i = sample_image i"
  by (auto simp: user_memory_def sample_memory_def page2pa_numeral)

lemma kernel_sample_frames: "unat (PGNUM (0x1003 :: u32)) = 1" "unat (PGNUM (0xF003 :: u32)) = 15" "unat (PGNUM (0xE005 :: u32)) = 14"
  by (simp_all add: PGNUM_def)

lemma sample_user_slots:
  "table_slots sample_user 0 = {960}" "tables sample_user 0 = {1}" "table_slots sample_user 14 = {2, 960}"
  "tables sample_user 14 = {12, 1}" "kernel_frames sample_user = {0, 1}" "user_tables sample_user 14 UTOP_index = {12}"
  "own sample_user 14 = {12, 14}"
proof -
  show z: "table_slots sample_user 0 = {960}" and f: "table_slots sample_user 14 = {2, 960}"
    by (auto simp: table_slots_def user_memory_frames split: if_splits)
  show t: "tables sample_user 0 = {1}" "tables sample_user 14 = {12, 1}"
    using z f by (simp_all add: tables_def user_memory_frames sample_frames kernel_sample_frames)
  show "kernel_frames sample_user = {0, 1}" using t by (simp add: kernel_frames_def)
  have "{d. d < UTOP_index \<and> present (user_memory 14 d)} = {2}" by (auto simp: user_memory_frames split: if_splits)
  then show u: "user_tables sample_user 14 UTOP_index = {12}"
    by (simp add: user_tables_def user_memory_frames sample_frames)
  then show "own sample_user 14 = {12, 14}" by (auto simp: own_def)
qed

lemma sample_user_pages: "free_pages sample_user sample_free"
  using sample_pages_free by (subst free_pages_cong [of _ sample]) simp_all

lemma sample_user_pgdirs: "pgdir_ok sample_user 0 sample_free" "pgdir_ok sample_user 14 sample_free"
  using sample_user_pages unfolding pgdir_ok_def machine_ok_def sample_user_slots
  by (simp_all add: sample_free_def user_memory_frames sample_frames kernel_sample_frames)

lemma sample_user_entry: "d < UTOP_index \<Longrightarrow> i < 1024 \<Longrightarrow> slot_entry sample_user 14 d i = (if d = 2 \<and> i = 0 then 0xD007 else 0)"
  by (simp add: slot_entry_alt user_memory_frames sample_frames)

lemma sample_user_uses: "space_uses sample_user 14 UTOP_index y = of_bool (y = 13)"
proof -
  have "row_uses sample_user 14 d 1024 y = of_bool (d = 2 \<and> y = 13)" if "d < UTOP_index" for d
  proof -
    have "row_uses sample_user 14 d 1024 y = (\<Sum>i<(1024 :: nat). if i = 0 then of_bool (d = 2 \<and> y = 13) else 0)"
      unfolding row_uses_def maps_to_def using that
      by (intro sum.cong refl) (auto simp: sample_user_entry sample_frames)
    then show ?thesis by simp
  qed
  then have "space_uses sample_user 14 UTOP_index y = (\<Sum>d<(955 :: nat). if d = 2 then of_bool (y = 13) else 0)"
    unfolding space_uses_def by (intro sum.cong refl) auto
  then show ?thesis by simp
qed

lemma sample_user_spaces: "spaces_ok sample_user sample_free {14}"
proof -
  have "kernel_half sample_user 14" by (simp add: kernel_half_def user_memory_frames page2pa_def)
  moreover have "client_page sample_user {14} (frame_of (slot_entry sample_user 14 d i))"
    if "d < UTOP_index" "i < 1024" "present (slot_entry sample_user 14 d i)" for d i
    using that sample_user_entry [OF that(1,2)] sample_frames
    by (auto simp: client_page_def sample_user_slots split: if_splits)
  ultimately show ?thesis
    unfolding spaces_ok_def using sample_user_pgdirs
    by (auto simp: sample_user_slots total_uses_def sample_user_uses user_memory_frames sample_page_def)
qed

lemma sample_live: "live sample_user = {0}"
  by (auto simp: live_def sample_env_def zero_env_def)

lemma sample_user_ok: "kernel_ok sample_user sample_free [1..<1024]"
proof -
  have "linked (\<lambda>e. env_link (sample_env e)) (if n < 1024 then Some n else None) [n..<1024]" if "1 \<le> n" for n
    using that
  proof (induction "1024 - n" arbitrary: n)
    case (Suc k)
    then have "[n..<1024] = n # [Suc n..<1024]" by (intro upt_conv_Cons) simp
    then show ?case using Suc.hyps(1) [of "Suc n"] Suc.prems Suc.hyps(2)
      by (auto simp: sample_env_def simp del: upt_rec_numeral)
  qed simp
  from this [of 1] have "linked (\<lambda>e. env_link (sample_env e)) (Some 1) [1..<1024]" by (simp del: upt_rec_numeral)
  moreover have "dir sample_user 0 = 14" by (simp add: dir_def sample_env_def)
  moreover have "set [1..<1024] = {e. e < NENV \<and> env_status (sample_env e) = ENV_FREE}"
    by (auto simp: sample_env_def zero_env_def simp del: upt_rec_numeral)
  moreover have "env_id (sample_env 0) = 0x1000" "env_pgdir (sample_env 0) = Some 14" by (simp_all add: sample_env_def)
  ultimately show ?thesis
    using sample_user_spaces
    by (simp add: kernel_ok_def sample_live ENVX_def word_sless_alt del: upt_rec_numeral set_upt)
qed

lemma sample_in_user: "in_user sample_user 0 sample_user"
proof -
  have "kernel_sealed sample_user" by (simp add: kernel_sealed_def sample_user_slots user_memory_frames)
  moreover have "env_status (sample_env 0) = ENV_RUNNING" "env_pgdir (sample_env 0) = Some 14" by (simp_all add: sample_env_def)
  moreover have "eflags sample_user AND FL_IF = 0" "\<not> panicstr sample_user" "cpu_status (cpus sample_user n) \<noteq> CPU_HALTED" for n
    by (simp_all add: sample_user_def sample_def)
  ultimately show ?thesis
    using sample_user_ok by (auto simp: in_user_def settled_def sample_live dir_def PGNUM_def)
qed

theorem user_program_confined_witness:
  "(\<exists>xs es. kernel_ok (store_word 13 1 42 sample_user) xs es) \<and> curenv (store_word 13 1 42 sample_user) = Some 0
    \<and> user_slot (store_word 13 1 42 sample_user) 0x00800004 = Some 13"
proof -
  have slot: "user_slot sample_user 0x00800004 = Some 13" "unat (PGOFF 0x00800004) div 4 = 1"
    by (simp_all add: user_slot_def Let_def PDX_def PTX_def PGNUM_def PGOFF_def user_memory_frames)
  have "reachable (\<lambda>s. s = sample_user) user_step (store_word 13 1 42 sample_user)"
    using user_store [OF slot(1), of 42] slot(2) by (auto intro: reachable.intros)
  from user_program_confined [OF sample_in_user this] show ?thesis
    by (simp add: user_slot_def Let_def PDX_def PTX_def PGNUM_def user_memory_frames)
qed

text \<open>C15. \<open>env_alloc\<close> keeps the kernel's invariant: the new environment takes the first free slot and the
  first free page as its directory, its id is positive and belongs to its slot, its address space shares nothing
  with the others but the kernel's tables, and no other environment changes.\<close>

theorem env_alloc_keeps_invariant:
  assumes "kernel_ok s (x # xs) (e # es)"
  shows "\<exists>t. run (env_alloc parent) s = (Ret (0, Some e), t) \<and> kernel_ok t xs es
    \<and> live t = insert e (live s) \<and> dir t e = x \<and> (\<forall>i. i \<noteq> e \<longrightarrow> envs t i = envs s i)"
  using kernel_alloc_env [OF assms, of parent] by force

theorem env_alloc_keeps_invariant_witness:
  "\<exists>t. run (env_alloc 0) sample_user = (Ret (0, Some 1), t) \<and> kernel_ok t [3, 4, 5, 6, 7, 8, 9, 10, 11] [2..<1024]
    \<and> dir t 1 = 2"
proof -
  have "[1..<1024] = 1 # [Suc 1..<1024]" by (rule upt_conv_Cons) simp
  then have "[1..<1024] = 1 # [2..<1024]" by (simp only: Suc_1)
  then show ?thesis
    using env_alloc_keeps_invariant [of sample_user 2 "[3, 4, 5, 6, 7, 8, 9, 10, 11]" 1 "[2..<1024]" 0] sample_user_ok
    by (auto simp: sample_free_def simp del: upt_rec_numeral)
qed

text \<open>C14. \<open>env_free\<close> keeps the kernel's invariant for everyone else: the environment joins the head of
  the free list, its directory the head of the free pages, every other environment is alive as before, and no
  word of memory changes outside the directory and the user tables that were its own.\<close>

theorem env_free_keeps_invariant:
  assumes "kernel_ok s xs es" and "e \<in> live s"
  shows "\<exists>t zs. run (env_free e) s = (Ret (), t) \<and> kernel_ok t (dir s e # zs) (e # es)
    \<and> live t = live s - {e} \<and> (\<forall>i. i \<noteq> e \<longrightarrow> envs t i = envs s i)
    \<and> (\<forall>f. f \<notin> own s (dir s e) \<longrightarrow> pmem t f = pmem s f)"
  using kernel_free_env [OF assms] by blast

theorem env_free_keeps_invariant_witness:
  "\<exists>t zs. run (env_free 0) sample_user = (Ret (), t) \<and> kernel_ok t (14 # zs) (0 # [1..<1024]) \<and> live t = {}
    \<and> pmem t 13 = pmem sample_user 13"
proof -
  have d: "dir sample_user 0 = 14" by (simp add: dir_def sample_env_def)
  have "0 \<in> live sample_user" by (simp add: sample_live)
  from env_free_keeps_invariant [OF sample_user_ok this] show ?thesis
    unfolding d sample_live sample_user_slots by (auto simp del: upt_rec_numeral)
qed


text \<open>C3. \<open>env_create\<close> loads the program. From a well-formed ELF image in kernel memory whose segments touch
  different pages below the stack page, with enough free pages, a runnable environment is made that starts at
  the image's entry point with the stack pointer at \<^verbatim>\<open>USTACKTOP\<close>: every loadable segment is in its address
  space, file bytes first and zeros after them, the stack page is mapped and zero, the kernel is back in its
  own page directory, the kernel's invariant holds, no other environment has changed, and neither has any
  page that was not free.\<close>

theorem env_create_loads:
  assumes "kernel_ok s (x # xs) (e # es)" and "image_ok s (set (x # xs)) binary"
    and "2 * image_pages s binary + 2 \<le> length xs"
  shows "\<exists>t zs. run (env_create binary type) s = (Ret (), t) \<and> kernel_ok t zs es \<and> live t = insert e (live s)
    \<and> env_status (envs t e) = ENV_RUNNABLE \<and> tf_eip (env_tf (envs t e)) = e_entry s binary
    \<and> tf_esp (env_tf (envs t e)) = USTACKTOP \<and> program_loaded s binary t (dir t e)
    \<and> (\<forall>a. PGNUM a = PGNUM stack_page \<longrightarrow> mapped t (dir t e) a \<and> user_byte t (dir t e) a = 0)
    \<and> cr3 t = page2pa (kern_pgdir s) \<and> (\<forall>i. i \<noteq> e \<longrightarrow> envs t i = envs s i)
    \<and> (\<forall>f. f \<notin> set (x # xs) \<longrightarrow> pmem t f = pmem s f)"
proof -
  have "env_status (fresh_env e 0 x v\<lparr>env_type := ty, env_tf := tf\<rparr>) = ENV_RUNNABLE" for v ty tf by (simp add: fresh_env_def)
  moreover have "tf_esp (new_env_tf\<lparr>tf_eip := i\<rparr>) = USTACKTOP" for i by (simp add: new_env_tf_def)
  ultimately show ?thesis using env_create_run [OF assms, of type] by force
qed

abbreviation (input) sample_binary :: u32 where "sample_binary \<equiv> 0xF000F000"

lemma sample_image_entry:
  assumes "i < 4096"
  shows "unat (PDX (sample_binary + of_nat i)) = 960" "entry sample_user 0 (sample_binary + of_nat i) = 0xF003"
    and "unat (PGOFF (sample_binary + of_nat i)) = i"
proof -
  have u: "unat (sample_binary + of_nat i) = 4026593280 + i"
    using assms by (subst unat_add_small32) (simp_all add: unat_of_nat32)
  show d: "unat (PDX (sample_binary + of_nat i)) = 960" using assms by (simp add: unat_PDX u)
  have "(4026593280 + i) div 4096 = 983055 + i div 4096" using div_mult_self2 [of 4096 i 983055] by (simp add: add.commute)
  then have t: "unat (PTX (sample_binary + of_nat i)) = 15" using assms by (simp add: unat_PTX u)
  show "entry sample_user 0 (sample_binary + of_nat i) = 0xF003"
    by (simp add: entry_def pde_at_def d t user_memory_frames user_memory_frames(2) [unfolded One_nat_def] kernel_sample_frames)
  show "unat (PGOFF (sample_binary + of_nat i)) = i"
    using assms mod_mult_self2 [of i 4096 983055] unfolding unat_PGOFF u by (simp add: add.commute)
qed

lemma sample_readable: "m + n \<le> 4096 \<Longrightarrow> readable_range sample_user (set sample_free) (sample_binary + of_nat m) n"
  unfolding all_readable_def
proof (intro allI impI)
  fix i :: nat assume "m + n \<le> 4096" "i < n"
  then have "readable sample_user (set sample_free) (sample_binary + of_nat (m + i))"
    using sample_image_entry [of "m + i"]
    by (simp add: readable_def mapped_def kernel_sample_frames sample_free_def del: of_nat_add)
  then show "readable sample_user (set sample_free) (sample_binary + of_nat m + of_nat i)" by (simp add: add.assoc)
qed

lemma sample_byte: "i < 4096 \<Longrightarrow> kernel_byte sample_user (sample_binary + of_nat i) = byte_of (sample_image (i div 4)) (i mod 4)"
  using sample_image_entry [of i] by (simp add: user_byte_def kernel_sample_frames user_memory_frames)

lemma sample_elf: "elf_at sample_binary (readable sample_user (set sample_free)) (kernel_byte sample_user)"
  using sample_readable [of 0 4096] sample_byte by (simp add: elf_at_def all_readable_def)

theorem env_create_loads_witness:
  "\<exists>t. run (env_create sample_binary ENV_TYPE_USER) sample_user = (Ret (), t) \<and> tf_eip (env_tf (envs t 1)) = 0x00800020
    \<and> user_byte t (dir t 1) 0x00800001 = 0x22 \<and> user_byte t (dir t 1) 0x00800005 = 0 \<and> pmem t 13 = pmem sample_user 13"
proof -
  have "[1..<1024] = 1 # [Suc 1..<1024]" by (rule upt_conv_Cons) simp
  then have ok: "kernel_ok sample_user (2 # [3, 4, 5, 6, 7, 8, 9, 10, 11]) (1 # [Suc 1..<1024])"
    using sample_user_ok by (simp add: sample_free_def del: upt_rec_numeral)
  have b: "sample_binary \<noteq> 0" "unat sample_binary + 4096 < 2 ^ 32" by simp_all
  note img = elf_at_ok [OF sample_elf b]
  have free: "2 * image_pages sample_user sample_binary + 2 \<le> length [3, 4, 5, 6, 7, 8, 9, 10, 11 :: nat]"
    unfolding img(2) by simp
  obtain t where t: "run (env_create sample_binary ENV_TYPE_USER) sample_user = (Ret (), t)"
    "tf_eip (env_tf (envs t 1)) = e_entry sample_user sample_binary" "program_loaded sample_user sample_binary t (dir t 1)"
    "\<forall>f. f \<notin> set (2 # [3, 4, 5, 6, 7, 8, 9, 10, 11]) \<longrightarrow> pmem t f = pmem sample_user f"
    using env_create_loads [OF ok img(1) [unfolded sample_free_def] free, of ENV_TYPE_USER] by blast
  note bytes = elf_at_loaded [OF sample_elf t(3)]
  show ?thesis
    using t(1,2,4) bytes(1) [of 1] bytes(2) [of 5] elf_at_words(2) [OF sample_elf]
    by (intro exI [of _ t]) (simp add: byte_of_def)
qed

text \<open>C18. The index \<open>envid2env\<close> takes from the id does for a search of the whole table: the id zero gives the
  current environment; any other id gives the one environment in use with this id, wherever it is in the
  table, provided that, when permission is checked, it is the current one or a child of it. When there is
  none, \<open>envid2env\<close> stores null and returns \<^verbatim>\<open>-E_BAD_ENV\<close>. It changes nothing.\<close>

theorem envid2env_decides:
  assumes "kernel_ok s xs es" and "curenv s = Some c"
  shows "run (envid2env envid checkperm) s =
    (let found = (if envid = 0 then Some c
                  else find (\<lambda>e. env_status (envs s e) \<noteq> ENV_FREE \<and> env_id (envs s e) = envid
                          \<and> (checkperm \<longrightarrow> e = c \<or> env_parent_id (envs s e) = env_id (envs s c))) [0..<NENV])
     in (Ret (case found of None \<Rightarrow> (- E_BAD_ENV, None) | Some e \<Rightarrow> (0, Some e)), s))"
proof (cases "envid = 0")
  case True
  then show ?thesis using assms(2) by (simp add: envid2env_def prog_simps)
next
  case nz: False
  let ?good = "\<lambda>e. env_status (envs s e) \<noteq> ENV_FREE \<and> env_id (envs s e) = envid
      \<and> (checkperm \<longrightarrow> e = c \<or> env_parent_id (envs s e) = env_id (envs s c))"
  show ?thesis
  proof (cases "find ?good [0..<NENV]")
    case None
    have "ENVX envid < NENV"
      unfolding ENVX_def mask_1023 take_bit_eq_mask [symmetric] using unat_take_bit_less [of 10 envid] by simp
    then have "\<not> ?good (ENVX envid)" using None by (simp add: find_None_iff)
    then show ?thesis using nz None envid2env_run [OF nz assms(2), of checkperm] by (auto simp: Let_def)
  next
    case (Some e)
    then have e: "?good e" "e < NENV" by (auto simp: find_Some_iff)
    then have "ENVX envid = e" using kernel_okD(4) [OF assms(1), of e] by (auto simp: live_def)
    then show ?thesis using nz Some e envid2env_run [OF nz assms(2), of checkperm] by (auto simp: Let_def)
  qed
qed

theorem envid2env_decides_witness:
  "run (envid2env 0 True) sample_user = (Ret (0, Some 0), sample_user)
    \<and> run (envid2env 0x1000 True) sample_user = (Ret (0, Some 0), sample_user)
    \<and> run (envid2env 0x2000 True) sample_user = (Ret (- E_BAD_ENV, None), sample_user)"
proof -
  note d = envid2env_decides [OF sample_user_ok, of 0]
  have f: "find (\<lambda>e. env_status (sample_env e) \<noteq> ENV_FREE \<and> env_id (sample_env e) = 0x2000
      \<and> (True \<longrightarrow> e = 0 \<or> env_parent_id (sample_env e) = env_id (sample_env 0))) [0..<NENV] = None"
    unfolding find_None_iff by (simp add: sample_env_def zero_env_def)
  have "NENV = Suc 1023" by simp
  then have "find (\<lambda>e. env_status (sample_env e) \<noteq> ENV_FREE \<and> env_id (sample_env e) = 0x1000
      \<and> (True \<longrightarrow> e = 0 \<or> env_parent_id (sample_env e) = env_id (sample_env 0))) [0..<NENV] = Some 0"
    unfolding upt_conv_Cons [of 0 NENV, simplified] by (simp add: sample_env_def)
  then show ?thesis
    using d [of 0 True] d [of "0x1000" True] d [of "0x2000" True] f by (simp del: upt_rec_numeral find.simps)
qed

text \<open>C39. An exception ends its environment, and with the lock free it ends the CPU too. When a program
  raises an exception (any vector but those of the breakpoint, the system call and the spurious interrupt),
  \<open>trap\<close> frees its environment and keeps the invariant; the other environments and the pages that were
  not its own tables are untouched. Then, when no other environment is alive, the kernel goes to the monitor.
  When one is, the scheduler marks the CPU halted, without an environment and on the kernel's page
  directory, and releases the big kernel lock: if this CPU holds it, it halts; if nobody does, which is how
  every trap of a running CPU goes, \<open>spin_unlock\<close> dereferences the null \<^verbatim>\<open>lk->cpu\<close>. (\<open>trap\<close> takes the lock
  only for a CPU that had halted.)\<close>

theorem trap_ends_offender:
  assumes "kernel_ok s xs es" and "c \<in> live s" and "from_user c tf s" and "0x80000000 \<notin> set (con_in s)"
    and "tf_cs tf = GD_UT OR 3" and "tf_trapno tf \<notin> {3, 39, 48}"
    and "lk_cpu (kernel_lock s) = (if locked (kernel_lock s) = 0 then None else Some (cpunum s))"
  shows "\<exists>t zs. let alone = (\<forall>i \<in> live s - {c}. env_status (envs s i) = ENV_NOT_RUNNABLE)
    in run (trap addr tf) s = (Stop (if alone then Spinning else if locked (kernel_lock s) = 0 then BadAccess else Halted), t)
      \<and> kernel_ok t (dir s c # zs) (c # es) \<and> live t = live s - {c} \<and> curenv t = None
      \<and> (\<forall>i. i \<noteq> c \<longrightarrow> envs t i = envs s i) \<and> (\<forall>f. f \<notin> own s (dir s c) \<longrightarrow> pmem t f = pmem s f)
      \<and> (\<not> alone \<longrightarrow> cr3 t = page2pa (kern_pgdir s) \<and> cpu_status (cpus t (cpunum t)) = CPU_HALTED
            \<and> (locked (kernel_lock s) \<noteq> 0 \<longrightarrow> locked (kernel_lock t) = 0))"
proof -
  obtain t where t: "run (trap addr tf) s = (Stop (last_stop s c), t)" "ended s c es t"
    using trap_ends [OF assms(1-4) _ assms(5,6)] assms(7) by (auto simp: lock_mine_def)
  have "alive st \<longleftrightarrow> st \<noteq> ENV_FREE \<and> st \<noteq> ENV_NOT_RUNNABLE" for st by (cases st) (simp_all add: alive_def)
  then have "others_alive s c \<longleftrightarrow> \<not> (\<forall>i \<in> live s - {c}. env_status (envs s i) = ENV_NOT_RUNNABLE)"
    by (auto simp: others_alive_def live_def)
  then show ?thesis using t unfolding ended_def gone_def last_stop_def Let_def by auto
qed

text \<open>The sample machine with a second environment.\<close>

lemma sample_pair:
  "\<exists>s xs es. kernel_ok s xs es \<and> live s = {0, 1} \<and> from_user 0 tf s = from_user 0 tf sample_user
    \<and> env_status (envs s 1) = ENV_RUNNABLE \<and> con_in s = [] \<and> kernel_lock s = kernel_lock sample_user"
proof -
  have "[1..<1024] = 1 # [Suc 1..<1024]" by (rule upt_conv_Cons) simp
  moreover have "sample_free = 2 # [3, 4, 5, 6, 7, 8, 9, 10, 11]" by (simp add: sample_free_def)
  ultimately obtain xs es where "kernel_ok sample_user (2 # xs) (1 # es)" using sample_user_ok by metis
  from kernel_alloc_env [OF this, of 0] obtain t where t: "kernel_ok t xs es" "live t = insert 1 (live sample_user)"
    "envs t = (envs sample_user)(1 := fresh_env 1 0 2 (envs sample_user 1))" by blast
  let ?s = "t\<lparr>cpus := cpus sample_user, cpunum := cpunum sample_user, panicstr := panicstr sample_user,
      eflags := eflags sample_user, con_in := [], kernel_lock := kernel_lock sample_user\<rparr>"
  have "kernel_ok ?s xs es = kernel_ok t xs es" "live ?s = live t" by (intro kernel_ok_same; simp)+
  then show ?thesis
    using t sample_live by (intro exI [of _ ?s] exI [of _ xs] exI [of _ es]) (auto simp: from_user_def fresh_env_def)
qed

theorem trap_ends_offender_witness:
  "\<exists>s t. live s = {0, 1} \<and> run (trap 0xEFFFFFBC (new_env_tf\<lparr>tf_trapno := 13\<rparr>)) s = (Stop BadAccess, t) \<and> live t = {1}"
proof -
  have "from_user 0 (new_env_tf\<lparr>tf_trapno := 13\<rparr>) sample_user"
    by (simp add: from_user_def sample_env_def new_env_tf_def) (simp add: sample_user_def sample_def)
  then obtain s xs es where s: "kernel_ok s xs es" "live s = {0, 1}" "from_user 0 (new_env_tf\<lparr>tf_trapno := 13\<rparr>) s"
    "env_status (envs s 1) = ENV_RUNNABLE" "con_in s = []" "kernel_lock s = kernel_lock sample_user"
    using sample_pair by blast
  have lock: "locked (kernel_lock s) = 0" "lk_cpu (kernel_lock s) = None" by (simp_all add: s(6) sample_user_def sample_def)
  have other: "(\<forall>i \<in> live s - {0}. env_status (envs s i) = ENV_NOT_RUNNABLE) = False" using s(2,4) by auto
  have "0 \<in> live s" "0x80000000 \<notin> set (con_in s)" using s(2,5) by simp_all
  moreover have "tf_cs (new_env_tf\<lparr>tf_trapno := 13\<rparr>) = GD_UT OR 3" "tf_trapno (new_env_tf\<lparr>tf_trapno := 13\<rparr>) \<notin> {3, 39, 48}"
    by (simp_all add: new_env_tf_def)
  moreover have "lk_cpu (kernel_lock s) = (if locked (kernel_lock s) = 0 then None else Some (cpunum s))" using lock by simp
  ultimately obtain t where "run (trap 0xEFFFFFBC (new_env_tf\<lparr>tf_trapno := 13\<rparr>)) s = (Stop BadAccess, t)" "live t = live s - {0}"
    using trap_ends_offender [OF s(1) _ s(3), of "0xEFFFFFBC"] unfolding Let_def other lock(1) by auto
  moreover have "live s - {0} = {1}" unfolding s(2) by auto
  ultimately show ?thesis using s(2) by metis
qed

end
