(* ===== verification/BootProps.thy ===== *)
theory BootProps
  imports Sample PmapCheckSpec BootSpec
begin

text \<open>
  The properties of the kernel's start: the test of the free list, what it says about
  \<open>page_init\<close>, and where \<open>i386_init\<close> ends.
\<close>

text \<open>C19. \<open>check_page_free_list\<close> returns exactly when the list is sound: it has a page below and one
  above the I/O hole's end, and lists neither page 0, nor those at \<^verbatim>\<open>IOPHYSMEM\<close> and
  \<^verbatim>\<open>EXTPHYSMEM\<close> and before the latter, nor the page at \<^verbatim>\<open>MPENTRY_PADDR\<close>, nor one \<open>boot_alloc\<close> has given
  out; otherwise it panics. When it returns, the free list has the same pages, those of the first
  4 MB first if asked for and otherwise in their old order, and only free pages were written to.\<close>

theorem check_page_free_list_decides:
  assumes "free_pages s xs" and "machine_ok s" and "nextfree s \<noteq> 0"
  shows "\<exists>msg t. run (check_page_free_list low) s =
      (if list_sound (nextfree s) xs then Ret () else Stop (Panic msg), t)
    \<and> (list_sound (nextfree s) xs \<longrightarrow>
        free_pages t (if low then filter (\<lambda>p. page2pa p < PTSIZE) xs @ filter (\<lambda>p. PTSIZE \<le> page2pa p) xs else xs)
        \<and> (\<forall>x. pp_ref (pages t x) = pp_ref (pages s x)) \<and> (\<forall>f. f \<notin> set xs \<longrightarrow> pmem t f = pmem s f))"
proof -
  have "low_page 1 p \<longleftrightarrow> page2pa p < PTSIZE" for p
    by (simp add: low_page_def unat_PDX word_less_nat_alt div_eq_0_iff)
  then have "lows 1 xs = filter (\<lambda>p. page2pa p < PTSIZE) xs"
      "highs 1 xs = filter (\<lambda>p. PTSIZE \<le> page2pa p) xs"
    by (simp_all add: lows_def highs_def not_less cong: filter_cong)
  then show ?thesis using check_page_free_list_run [OF assms, of low] by (auto simp: test_order_def)
qed

definition sample_mixed :: kstate where
  "sample_mixed = sample\<lparr>npages := 2048, page_free_list := Some 2000,
     pages := (\<lambda>i. \<lparr>pp_link = (if i = 2000 then Some 2 else if i = 2 then Some 300 else None),
                     pp_ref = (if i \<in> {2000, 2, 300} then 0 else 1)\<rparr>)\<rparr>"

theorem check_page_free_list_decides_witness:
  "\<exists>t. run (check_page_free_list True) sample_mixed = (Ret (), t) \<and> free_pages t [2, 300, 2000]"
proof -
  have f: "free_pages sample_mixed [2000, 2, 300]" "machine_ok sample_mixed" "nextfree sample_mixed = 0xF0001000"
    by (auto simp: free_pages_def machine_ok_def sample_mixed_def sample_def)
  have a: "page2pa 2000 = 0x7D0000" "page2pa 2 = 0x2000" "page2pa 300 = 0x12C000"
    by (simp_all add: page2pa_def)
  have "list_sound 0xF0001000 [2000, 2, 300]"
    by (simp add: list_sound_def page_sound_def a frame_kva_def)
  then show ?thesis
    using check_page_free_list_decides [OF f(1,2), of True] by (auto simp: f(3) a)
qed

text \<open>C20. The kernel of this tree does not come up: on every machine, with every content of the CMOS
  memory and whatever the devices answer, \<open>i386_init\<close> ends in a panic, a fault or an endless poll,
  and never in user mode. \<open>mem_init\<close> runs \<open>check_page\<close>, which needs \<open>mmio_map_region\<close>, a stub.\<close>

theorem boot_ends_in_failure:
  "\<exists>e t. run (i386_init cmos imcr mpentry_start mpentry_end user_primes) m = (Stop e, t)
    \<and> (e \<in> range Panic \<or> e = BadAccess \<or> e = Spinning)"
proof -
  obtain e t where "run (i386_init cmos imcr mpentry_start mpentry_end user_primes) m = (Stop e, t)" "failure e"
    using i386_init_fails unfolding always_fails_def by blast
  then show ?thesis by (cases e) auto
qed

end
