(* ===== verification/Boot.thy ===== *)
theory Boot
  imports CString EnvC
begin

text \<open>
  The boot loader (\<^verbatim>\<open>boot/main.c\<close>): reading the kernel image from the first IDE disk, sector
  by sector, and loading its segments at their physical addresses. Paging is off, so memory is
  a function from physical addresses to bytes. The disk is a device: \<open>bt_disk regs j\<close> is byte
  \<open>j\<close> of the sector it delivers when its registers hold \<open>regs\<close>, and \<open>bt_status\<close> the bytes the
  status port gives, in order.
\<close>

record boot_state =
  bt_mem :: bmem
  bt_disk :: "(u32 \<Rightarrow> u8) \<Rightarrow> nat \<Rightarrow> u8"
  bt_regs :: "u32 \<Rightarrow> u8"
  bt_status :: "nat \<Rightarrow> u8"
  bt_polls :: nat
  bt_words :: "(u32 \<times> u16) list"       \<comment> \<open>\<open>outw\<close>, oldest first\<close>

type_synonym 'a bm = "(boot_state, 'a) prog"

abbreviation (input) SECTSIZE :: u32 where "SECTSIZE \<equiv> 512"
abbreviation (input) ELFHDR :: u32 where "ELFHDR \<equiv> 0x10000"

section \<open>The disk\<close>

definition disk_out :: "u32 \<Rightarrow> u8 \<Rightarrow> unit bm" where
  "disk_out port b = modify (\<lambda>s. s\<lparr>bt_regs := (bt_regs s)(port := b)\<rparr>)"

text \<open>\<open>fuel\<close> bounds the number of times the status is polled.\<close>

primrec waitdisk :: "nat \<Rightarrow> unit bm" where
  "waitdisk 0 = stop Spinning"
| "waitdisk (Suc fuel) =
     bindP (gets (\<lambda>s. bt_status s (bt_polls s))) (\<lambda>st.
     thenP (modify (\<lambda>s. s\<lparr>bt_polls := bt_polls s + 1\<rparr>))
     (if st AND 0xC0 \<noteq> 0x40 then waitdisk fuel else ret ()))"

abbreviation (input) disk_fuel :: nat where "disk_fuel \<equiv> 1048576"

text \<open>\<^verbatim>\<open>insl(0x1F0, dst, SECTSIZE/4)\<close>\<close>

definition insl_sector :: "u32 \<Rightarrow> boot_state \<Rightarrow> boot_state" where
  "insl_sector dst s =
     s\<lparr>bt_mem := (\<lambda>a. if unat (a - dst) < 512 then bt_disk s (bt_regs s) (unat (a - dst)) else bt_mem s a)\<rparr>"

definition select_sector :: "u32 \<Rightarrow> unit bm" where
  "select_sector offset =
     seqP [disk_out 0x1F2 1, disk_out 0x1F3 (ucast offset), disk_out 0x1F4 (ucast (drop_bit 8 offset)),
       disk_out 0x1F5 (ucast (drop_bit 16 offset)), disk_out 0x1F6 (ucast (drop_bit 24 offset OR 0xE0)),
       disk_out 0x1F7 0x20]"

definition readsect :: "u32 \<Rightarrow> u32 \<Rightarrow> unit bm" where
  "readsect dst offset =
     seqP [waitdisk disk_fuel, select_sector offset, waitdisk disk_fuel, modify (insl_sector dst)]"

text \<open>
  The loop of \<open>readseg\<close>. Near the top of the address space \<open>pa\<close> can wrap around and the loop
  never end; the fuel is more than the number of sectors that fit into the address space.
\<close>

primrec readseg_loop :: "nat \<Rightarrow> u32 \<Rightarrow> u32 \<Rightarrow> u32 \<Rightarrow> unit bm" where
  "readseg_loop 0 pa end_pa offset = stop Spinning"
| "readseg_loop (Suc fuel) pa end_pa offset =
     (if pa < end_pa
      then thenP (readsect pa offset) (readseg_loop fuel (pa + SECTSIZE) end_pa (offset + 1))
      else ret ())"

abbreviation (input) readseg_fuel :: nat where "readseg_fuel \<equiv> 8388609"

definition readseg :: "u32 \<Rightarrow> u32 \<Rightarrow> u32 \<Rightarrow> unit bm" where
  "readseg pa count offset =
     readseg_loop readseg_fuel (pa AND NOT (SECTSIZE - 1)) (pa + count) (offset div SECTSIZE + 1)"

section \<open>Loading the kernel\<close>

definition le16 :: "bmem \<Rightarrow> u32 \<Rightarrow> u32" where
  "le16 m a = (ucast (m a) OR push_bit 8 (ucast (m (a + 1))))"

definition le32 :: "bmem \<Rightarrow> u32 \<Rightarrow> u32" where
  "le32 m a = (le16 m a OR push_bit 16 (le16 m (a + 2)))"

abbreviation (input) off_p_pa :: u32 where "off_p_pa \<equiv> 12"

text \<open>
  Clearing the end of a segment: the header is read again in every round. The counter is an
  \<^verbatim>\<open>int\<close>, whose overflow at \<open>2^31\<close> is undefined.
\<close>

primrec zero_tail :: "nat \<Rightarrow> u32 \<Rightarrow> u32 \<Rightarrow> unit bm" where
  "zero_tail 0 ph i = stop BadAccess"
| "zero_tail (Suc n) ph i =
     bindP (gets bt_mem) (\<lambda>m.
     if i < le32 m (ph + off_p_memsz) - le32 m (ph + off_p_filesz)
     then thenP (modify (\<lambda>s. s\<lparr>bt_mem := m(le32 m (ph + off_p_pa) + le32 m (ph + off_p_filesz) + i := 0)\<rparr>))
          (zero_tail n ph (i + 1))
     else ret ())"

definition boot_segment :: "u32 \<Rightarrow> unit bm" where
  "boot_segment ph =
     bindP (gets bt_mem) (\<lambda>m.
     thenP (readseg (le32 m (ph + off_p_pa)) (le32 m (ph + off_p_memsz)) (le32 m (ph + off_p_offset)))
     (zero_tail 2147483648 ph 0))"

primrec boot_segments :: "nat \<Rightarrow> u32 \<Rightarrow> u32 \<Rightarrow> unit bm" where
  "boot_segments 0 ph eph = ret ()"
| "boot_segments (Suc n) ph eph =
     (if ph < eph then thenP (boot_segment ph) (boot_segments n (ph + sizeof_Proghdr) eph) else ret ())"

definition bootmain :: "unit bm" where
  "bootmain =
     thenP (readseg ELFHDR (SECTSIZE * 8) 0)
     (bindP (gets bt_mem) (\<lambda>m.
      if le32 m (ELFHDR + off_e_magic) \<noteq> ELF_MAGIC
      then thenP (modify (\<lambda>s. s\<lparr>bt_words := bt_words s @ [(0x8A00, 0x8A00), (0x8A00, 0x8E00)]\<rparr>))
           (stop Spinning)
      else (let ph = ELFHDR + le32 m (ELFHDR + off_e_phoff);
                phnum = le16 m (ELFHDR + off_e_phnum)
            in thenP (boot_segments (unat phnum) ph (ph + phnum * sizeof_Proghdr))
               (bindP (gets bt_mem) (\<lambda>m. stop (Entered (le32 m (ELFHDR + off_e_entry))))))))"

section \<open>What \<open>readseg\<close> reads\<close>

text \<open>The disk comes ready again and again, and delivers the image \<open>img\<close>: LBA addressing.\<close>

definition ready_soon :: "(nat \<Rightarrow> u8) \<Rightarrow> bool" where
  "ready_soon st \<longleftrightarrow> (\<forall>n. \<exists>k < disk_fuel. st (n + k) AND 0xC0 = 0x40)"

definition holds_image :: "((u32 \<Rightarrow> u8) \<Rightarrow> nat \<Rightarrow> u8) \<Rightarrow> (nat \<Rightarrow> u8) \<Rightarrow> bool" where
  "holds_image disk img \<longleftrightarrow>
     (\<forall>regs lba j. lba < 2 ^ 28 \<and> j < 512 \<and> regs 0x1F2 = 1 \<and> regs 0x1F3 = of_nat lba \<and>
        regs 0x1F4 = of_nat (lba div 2 ^ 8) \<and> regs 0x1F5 = of_nat (lba div 2 ^ 16) \<and>
        regs 0x1F6 = (0xE0 OR of_nat (lba div 2 ^ 24)) \<and> regs 0x1F7 = 0x20
        \<longrightarrow> disk regs j = img (512 * lba + j))"

definition disk_ok :: "(nat \<Rightarrow> u8) \<Rightarrow> boot_state \<Rightarrow> bool" where
  "disk_ok img s \<longleftrightarrow> ready_soon (bt_status s) \<and> holds_image (bt_disk s) img"

lemma waitdisk_run:
  assumes "k < fuel" and "bt_status s (bt_polls s + k) AND 0xC0 = 0x40"
  shows "\<exists>n. run (waitdisk fuel) s = (Ret (), s\<lparr>bt_polls := n\<rparr>)"
  using assms
proof (induction fuel arbitrary: s k)
  case 0
  then show ?case by simp
next
  case (Suc fuel)
  show ?case
  proof (cases "bt_status s (bt_polls s) AND 0xC0 = 0x40")
    case True
    then show ?thesis by (auto simp: prog_simps)
  next
    case False
    then have "k \<noteq> 0" using Suc.prems(2) by (intro notI) simp
    then obtain j where j: "k = Suc j" by (cases k) auto
    let ?u = "s\<lparr>bt_polls := bt_polls s + 1\<rparr>"
    have "\<exists>n. run (waitdisk fuel) ?u = (Ret (), ?u\<lparr>bt_polls := n\<rparr>)"
      using Suc.prems j by (intro Suc.IH [of j]) (auto simp: add_ac)
    then show ?thesis using False by (auto simp: prog_simps)
  qed
qed

lemma waitdisk_ready:
  assumes "ready_soon (bt_status s)"
  shows "\<exists>n. run (waitdisk disk_fuel) s = (Ret (), s\<lparr>bt_polls := n\<rparr>)"
  using assms waitdisk_run by (fastforce simp: ready_soon_def simp del: waitdisk.simps)

text \<open>One sector.\<close>

lemma lba_bytes:
  assumes "lba < 2 ^ 28"
  shows "(ucast (of_nat lba :: u32) :: u8) = of_nat lba"
    and "(ucast (drop_bit n (of_nat lba :: u32)) :: u8) = of_nat (lba div 2 ^ n)"
    and "(ucast (drop_bit 24 (of_nat lba :: u32) OR 0xE0) :: u8) = (0xE0 OR of_nat (lba div 2 ^ 24))"
proof -
  have u: "unat (of_nat lba :: u32) = lba" using assms by (intro unat_of_nat32) simp
  have d: "unat (drop_bit k (of_nat lba :: u32)) = lba div 2 ^ k" for k
    using assms by (simp only: unsigned_drop_bit_eq u) (simp add: drop_bit_eq_div take_bit_nat_eq_self)
  have c: "ucast w = of_nat (unat w)" for w :: u32 by simp
  show "(ucast (of_nat lba :: u32) :: u8) = of_nat lba" by (subst c) (simp only: u)
  show n: "(ucast (drop_bit k (of_nat lba :: u32)) :: u8) = of_nat (lba div 2 ^ k)" for k
    by (subst c) (simp only: d)
  have "(ucast (drop_bit 24 (of_nat lba :: u32) OR 0xE0) :: u8)
      = (ucast (drop_bit 24 (of_nat lba :: u32)) OR ucast (0xE0 :: u32))"
    by (rule bit_word_eqI) (simp add: bit_simps)
  then show "(ucast (drop_bit 24 (of_nat lba :: u32) OR 0xE0) :: u8) = (0xE0 OR of_nat (lba div 2 ^ 24))"
    unfolding n by (simp add: or.commute)
qed

lemma select_sector_run:
  assumes "lba < 2 ^ 28" and "holds_image (bt_disk s) img"
  shows "\<exists>r. run (select_sector (of_nat lba)) s = (Ret (), s\<lparr>bt_regs := r\<rparr>)
    \<and> (\<forall>j < 512. bt_disk s r j = img (512 * lba + j))"
proof -
  let ?r = "(bt_regs s)(0x1F2 := 1, 0x1F3 := of_nat lba, 0x1F4 := of_nat (lba div 2 ^ 8),
     0x1F5 := of_nat (lba div 2 ^ 16), 0x1F6 := 0xE0 OR of_nat (lba div 2 ^ 24), 0x1F7 := 0x20)"
  have "run (select_sector (of_nat lba)) s = (Ret (), s\<lparr>bt_regs := ?r\<rparr>)"
    unfolding select_sector_def lba_bytes [OF assms(1)] by (simp add: disk_out_def prog_simps)
  moreover have "\<forall>j < 512. bt_disk s ?r j = img (512 * lba + j)"
    using assms unfolding holds_image_def by simp
  ultimately show ?thesis by blast
qed

lemma readsect_run:
  assumes ok: "disk_ok img s" and lba: "lba < 2 ^ 28"
  shows "\<exists>t. run (readsect dst (of_nat lba)) s = (Ret (), t) \<and> disk_ok img t \<and>
    bt_mem t = (\<lambda>a. if unat (a - dst) < 512 then img (512 * lba + unat (a - dst)) else bt_mem s a)"
proof -
  obtain n where n: "run (waitdisk disk_fuel) s = (Ret (), s\<lparr>bt_polls := n\<rparr>)"
    using waitdisk_ready ok unfolding disk_ok_def by blast
  let ?s1 = "s\<lparr>bt_polls := n\<rparr>"
  obtain r where r: "run (select_sector (of_nat lba)) ?s1 = (Ret (), ?s1\<lparr>bt_regs := r\<rparr>)"
      "\<forall>j < 512. bt_disk s r j = img (512 * lba + j)"
    using select_sector_run [OF lba, of ?s1 img] ok by (auto simp: disk_ok_def)
  let ?s2 = "?s1\<lparr>bt_regs := r\<rparr>"
  obtain m where m: "run (waitdisk disk_fuel) ?s2 = (Ret (), ?s2\<lparr>bt_polls := m\<rparr>)"
    using waitdisk_ready [of ?s2] ok unfolding disk_ok_def by auto
  have "run (readsect dst (of_nat lba)) s = (Ret (), insl_sector dst (?s2\<lparr>bt_polls := m\<rparr>))"
    unfolding readsect_def seqP.simps
    by (simp only: run_thenP_Ret [OF n] run_thenP_Ret [OF r(1)] run_thenP_Ret [OF m])
      (simp add: prog_simps)
  then show ?thesis using r(2) ok by (auto simp: insl_sector_def disk_ok_def intro!: ext)
qed

text \<open>The sectors of a segment, in order.\<close>

definition image_block :: "(nat \<Rightarrow> u8) \<Rightarrow> nat \<Rightarrow> u32 \<Rightarrow> nat \<Rightarrow> bmem \<Rightarrow> bmem" where
  "image_block img lba base n m =
     (\<lambda>a. if unat (a - base) < 512 * n then img (512 * lba + unat (a - base)) else m a)"

lemma image_block_step:
  assumes "unat pa + 512 * Suc n \<le> 2 ^ 32"
  shows "image_block img (Suc lba) (pa + 512) n
           (\<lambda>a. if unat (a - pa) < 512 then img (512 * lba + unat (a - pa)) else m a)
       = image_block img lba pa (Suc n) m"
proof (rule ext)
  fix a
  have split: "a - (pa + 512) = (a - pa) - 512" by simp
  show "image_block img (Suc lba) (pa + 512) n
      (\<lambda>a. if unat (a - pa) < 512 then img (512 * lba + unat (a - pa)) else m a) a
    = image_block img lba pa (Suc n) m a"
  proof (cases "unat (a - pa) < 512")
    case True
    then have "unat (a - pa - 512) = unat (a - pa) + 2 ^ 32 - 512"
      by (simp add: unat_diff32)
    then have "\<not> unat (a - pa - 512) < 512 * n" using assms by simp
    then show ?thesis using True unfolding image_block_def split by simp
  next
    case False
    then have "unat (a - pa - 512) = unat (a - pa) - 512" by (simp add: unat_diff32)
    then show ?thesis using False unfolding image_block_def split by (auto simp: algebra_simps)
  qed
qed

lemma readseg_loop_run:
  assumes "disk_ok img s" and "n < fuel" and "lba + n \<le> 2 ^ 28"
    and "unat pa + 512 * n \<le> 2 ^ 32 - 512" and "unat end_pa \<le> unat pa + 512 * n"
    and "n \<noteq> 0 \<Longrightarrow> unat pa + 512 * n < unat end_pa + 512"
  shows "\<exists>t. run (readseg_loop fuel pa end_pa (of_nat lba)) s = (Ret (), t) \<and> disk_ok img t
    \<and> bt_mem t = image_block img lba pa n (bt_mem s)"
  using assms
proof (induction fuel arbitrary: s n pa lba)
  case 0
  then show ?case by simp
next
  case (Suc fuel)
  show ?case
  proof (cases n)
    case 0
    then have "\<not> pa < end_pa" using Suc.prems by (simp add: word_less_nat_alt)
    then show ?thesis using Suc.prems 0 by (simp add: prog_simps image_block_def)
  next
    case (Suc k)
    have less: "pa < end_pa" using Suc.prems \<open>n = Suc k\<close> by (simp add: word_less_nat_alt)
    obtain t where t: "run (readsect pa (of_nat lba)) s = (Ret (), t)" "disk_ok img t"
        "bt_mem t = (\<lambda>a. if unat (a - pa) < 512 then img (512 * lba + unat (a - pa)) else bt_mem s a)"
      using readsect_run [OF Suc.prems(1), of lba pa] Suc.prems(3) \<open>n = Suc k\<close> by auto
    have step: "unat (pa + 512) = unat pa + 512" using Suc.prems \<open>n = Suc k\<close>
      by (intro trans [OF unat_add_small32]) simp_all
    have lba': "(of_nat lba + 1 :: u32) = of_nat (Suc lba)" by simp
    have "\<exists>u. run (readseg_loop fuel (pa + 512) end_pa (of_nat (Suc lba))) t = (Ret (), u) \<and> disk_ok img u
        \<and> bt_mem u = image_block img (Suc lba) (pa + 512) k (bt_mem t)"
      using Suc.prems \<open>n = Suc k\<close> step t(2)
      by (intro Suc.IH) (auto simp: word_le_nat_alt)
    then obtain u where u: "run (readseg_loop fuel (pa + 512) end_pa (of_nat (Suc lba))) t = (Ret (), u)"
        "disk_ok img u" "bt_mem u = image_block img (Suc lba) (pa + 512) k (bt_mem t)" by blast
    have "run (readseg_loop (Suc fuel) pa end_pa (of_nat lba)) s = (Ret (), u)"
      using less by (simp only: readseg_loop.simps if_True run_thenP_Ret [OF t(1)] lba' u(1))
    moreover have "bt_mem u = image_block img lba pa n (bt_mem s)"
      unfolding u(3) t(3) \<open>n = Suc k\<close> using Suc.prems \<open>n = Suc k\<close> by (intro image_block_step) simp
    ultimately show ?thesis using u(2) by blast
  qed
qed

text \<open>
  \<open>count\<close> bytes at \<open>offset\<close> of the kernel image, which starts at sector 1, are read to \<open>pa\<close>
  when \<open>pa\<close> and \<open>offset\<close> agree modulo the sector size; whole sectors are read, so memory
  outside the sectors touched stays as it was.
\<close>

lemma mask_sector: "(w :: u32) AND NOT (SECTSIZE - 1) = w - w mod 512"
proof -
  have m: "(SECTSIZE - 1 :: u32) = mask 9" by (simp add: mask_eq_exp_minus_1)
  have "w AND NOT (mask 9) = push_bit 9 (drop_bit 9 w)"
    by (rule bit_word_eqI) (auto simp: bit_simps)
  moreover have "take_bit 9 w = w mod 512" by (simp add: take_bit_eq_mod)
  ultimately have "(w AND NOT (mask 9)) + w mod 512 = w"
    using bits_ident [of 9 w] by metis
  then show ?thesis unfolding m by (simp only: eq_diff_eq)
qed

definition sectors :: "u32 \<Rightarrow> u32 \<Rightarrow> nat" where
  "sectors pa count = (unat pa mod 512 + unat count + 511) div 512"

lemma sectors_bounds:
  fixes p c :: nat
  defines "n \<equiv> (p mod 512 + c + 511) div 512"
  shows "p + c \<le> p - p mod 512 + 512 * n" "p - p mod 512 + 512 * n < p + c + 512"
proof -
  have n: "p mod 512 + c \<le> 512 * n" "512 * n < p mod 512 + c + 512"
    unfolding n_def by linarith+
  show "p + c \<le> p - p mod 512 + 512 * n" "p - p mod 512 + 512 * n < p + c + 512"
    using n mod_less_eq_dividend [of p 512] by linarith+
qed

lemma readseg_run:
  assumes ok: "disk_ok img s" and room: "unat pa + unat count \<le> 2 ^ 32 - 1024"
  shows "\<exists>t. run (readseg pa count offset) s = (Ret (), t) \<and> disk_ok img t \<and>
    bt_mem t = image_block img (unat offset div 512 + 1) (pa - pa mod 512) (sectors pa count) (bt_mem s)"
proof -
  let ?n = "sectors pa count" and ?lba = "unat offset div 512 + 1" and ?base = "pa - pa mod 512"
  have base: "unat ?base = unat pa - unat pa mod 512"
    by (simp add: unat_diff32 unat_mod)
  have end_pa: "unat (pa + count) = unat pa + unat count"
    using room by (intro unat_add_small32) simp
  have off: "unat offset < 4294967296" using unat_less_32 [of offset] by simp
  have "unat (offset div 512 + 1) = ?lba"
    using off by (subst unat_add_small32) (simp_all add: unat_div)
  then have lba: "offset div 512 + 1 = (of_nat ?lba :: u32)"
    by (metis of_nat_unat ucast_id)
  have bounds: "unat pa + unat count \<le> unat ?base + 512 * ?n"
      "unat ?base + 512 * ?n < unat pa + unat count + 512"
    unfolding base sectors_def by (rule sectors_bounds)+
  have "unat pa + unat count \<le> 4294966272" using room by simp
  then have n: "?n < 8388608" using bounds by linarith
  have l: "?lba \<le> 8388608" using off by linarith
  show ?thesis
    unfolding readseg_def mask_sector lba
    by (rule readseg_loop_run [OF ok]) (use n l bounds room in \<open>simp_all add: end_pa\<close>)
qed

end
