(* ===== verification/LibProps.thy ===== *)
theory LibProps
  imports Sample Boot Console
begin

text \<open>
  The properties of the libraries and the devices: strings and printing (\<open>CString\<close>, \<open>Printf\<close>),
  the symbol search and the line editor of the monitor (\<open>Kdebug\<close>, \<open>Monitor\<close>), the console
  (\<open>Console\<close>) and the boot loader (\<open>Boot\<close>).
\<close>

section \<open>Strings and numbers\<close>

text \<open>C26. Both implementations of \<open>memmove\<close>, the string instructions and the C loop, do the same:
  every destination byte gets what the corresponding source byte was before the call, also when
  the ranges overlap, and no other byte changes.\<close>

theorem memmove_equivalent:
  assumes "unat src + unat n \<le> 2 ^ 32" and "unat dst + unat n \<le> 2 ^ 32"
  shows "memmove m dst src n = memmove_c m dst src n
    \<and> memmove m dst src n = (\<lambda>a. if unat (a - dst) < unat n then m (src + (a - dst)) else m a)"
  using memmove_eq [OF assms] memmove_c_eq [OF assms] by (simp add: block_copy_def)

definition text_memory :: "u8 list \<Rightarrow> bmem" where
  "text_memory bs a = (if unat a < length bs then bs ! unat a else 0)"

theorem memmove_equivalent_witness:
  "memmove (text_memory [1, 2, 3, 4, 5]) 2 0 3 = memmove_c (text_memory [1, 2, 3, 4, 5]) 2 0 3
    \<and> memmove (text_memory [1, 2, 3, 4, 5]) 2 0 3 4 = 3"
proof -
  have "unat (0 :: u32) + unat (3 :: u32) \<le> 2 ^ 32" "unat (2 :: u32) + unat (3 :: u32) \<le> 2 ^ 32" by simp_all
  from memmove_equivalent [OF this, of "text_memory [1, 2, 3, 4, 5]"]
  have "memmove (text_memory [1, 2, 3, 4, 5]) 2 0 3 = memmove_c (text_memory [1, 2, 3, 4, 5]) 2 0 3"
    and copy: "memmove (text_memory [1, 2, 3, 4, 5]) 2 0 3 = (\<lambda>a. if unat (a - 2) < unat (3 :: u32)
        then text_memory [1, 2, 3, 4, 5] (0 + (a - 2)) else text_memory [1, 2, 3, 4, 5] a)"
    by blast+
  moreover have "memmove (text_memory [1, 2, 3, 4, 5]) 2 0 3 4 = 3"
    unfolding copy by (simp add: text_memory_def)
  ultimately show ?thesis by blast
qed

text \<open>C28. \<open>strtol\<close> reads back what \<open>printnum\<close> prints, in bases 8, 10 and 16 and in a field of any width
  padded with blanks or zeros: the value (modulo \<open>2^32\<close>) and a pointer to the end of the text. (Padding
  with \<^verbatim>\<open>'-'\<close>, which a left-justified number gets, is no number to \<open>strtol\<close>.)\<close>

theorem printnum_strtol_roundtrip:
  assumes "base \<in> {8, 10, 16}" and "cstr m p (map ucast (printnum n base w padc))" and "padc \<in> {0x20, 0x30}"
  shows "strtol m p base = Some (of_nat n, p + of_nat (length (printnum n base w padc)))"
  using assms by (rule strtol_printnum)

theorem printnum_strtol_roundtrip_witness:
  "strtol (text_memory [0x20, 0x20, 0x32, 0x35]) 0 10 = Some (25, 4)
    \<and> strtol (text_memory [0x30, 0x30, 0x31, 0x39]) 0 16 = Some (25, 4)"
proof -
  have two: "replicate 2 x = [x, x]" for x :: u32 by (simp add: numeral_2_eq_2)
  have p: "map ucast (printnum 25 10 4 0x20) = [0x20, 0x20, 0x32, 0x35 :: u8]"
    "map ucast (printnum 25 16 4 0x30) = [0x30, 0x30, 0x31, 0x39 :: u8]"
    by (simp_all add: printnum.simps two digit_char_def uchar_def)
  have l: "length (printnum 25 10 4 0x20) = 4" "length (printnum 25 16 4 0x30) = 4"
    using p [THEN arg_cong, of length] by simp_all
  have "cstr (text_memory [0x20, 0x20, 0x32, 0x35]) 0 (map ucast (printnum 25 10 4 0x20))"
    "cstr (text_memory [0x30, 0x30, 0x31, 0x39]) 0 (map ucast (printnum 25 16 4 0x30))"
    unfolding p by (simp_all add: text_memory_def)
  from printnum_strtol_roundtrip [OF _ this(1)] printnum_strtol_roundtrip [OF _ this(2)]
  show ?thesis by (simp add: l)
qed

text \<open>C29. \<open>vsnprintf\<close> into a buffer of \<open>n > 0\<close> bytes stores the first \<open>n - 1\<close> characters of the
  output and a terminator, never more than \<open>n\<close> bytes, and returns the full length.\<close>

theorem vsnprintf_truncates:
  assumes "0 < sint n" and "vprintfmt fmt ap = Some out"
  shows "\<exists>buf. vsnprintf False n fmt ap = Some (sint (of_nat (length out) :: u32), buf)
    \<and> buf = map ucast (take (nat (sint n) - 1) out) @ [0] \<and> int (length buf) \<le> sint n"
  using vsnprintf_eq [OF assms] assms(1) by simp

theorem vsnprintf_truncates_witness:
  "\<exists>buf. vsnprintf False 3 ''x=%d'' [VInt 12] = Some (4, buf) \<and> buf = [0x78, 0x3D, 0]"
proof -
  have out: "vprintfmt ''x=%d'' [VInt 12] = Some [0x78, 0x3D, 0x31, 0x32]"
    by (simp add: fmt_eval fmt_signed_def printnum.simps digit_char_def uchar_def word_sless_alt)
  show ?thesis using vsnprintf_truncates [OF _ out, of 3] by simp
qed

text \<open>The kernel's \<open>cprintf\<close> prints the formatted text but returns 0, not the number of
  characters: \<open>putch\<close> increments its pointer to the counter.\<close>

lemma cprintf_returns_zero:
  "run (cprintf fmt ap) s =
     (case vprintfmt fmt ap of
        None \<Rightarrow> (Stop BadAccess, s)
      | Some out \<Rightarrow> (Ret 0, s\<lparr>console := console s @ out\<rparr>))"
  by (simp add: run_def cprintf_def kvcprintf_eq split: option.splits)

section \<open>The monitor\<close>

text \<open>C31. In a symbol table whose entries of the wanted type are sorted, \<open>stab_binsearch\<close> returns
  the last entry at or below the address and the end of its range, provided no entry lies at the
  very next address.\<close>

theorem stab_binsearch_finds:
  assumes "stabs_ok ty val type L R" and "bracket ty val type L R a K N"
    and "\<forall>i. L \<le> i \<and> i \<le> R \<and> ty i = Some type \<longrightarrow> the (val i) \<noteq> a + 1" and "a < a + 1"
  shows "stab_binsearch ty val L R type a = Some (K, N - 1)"
  using assms by (rule stab_binsearch_spec)

theorem stab_binsearch_finds_witness:
  "stab_binsearch (\<lambda>_. Some N_SLINE) (\<lambda>i. Some (10 * word_of_int i)) 0 3 N_SLINE 25 = Some (2, 2)"
proof -
  have mono: "10 * word_of_int i \<le> (10 * word_of_int j :: u32)" if "0 \<le> i" "i \<le> j" "j \<le> 3" for i j
  proof -
    have "(i = 0 \<or> i = 1 \<or> i = 2 \<or> i = 3) \<and> (j = 0 \<or> j = 1 \<or> j = 2 \<or> j = 3)" using that by linarith
    then show ?thesis using that(2) by auto
  qed
  have ok: "stabs_ok (\<lambda>_. Some N_SLINE) (\<lambda>i. Some (10 * word_of_int i)) N_SLINE 0 3"
    using mono by (simp add: stabs_ok_def)
  have br: "bracket (\<lambda>_. Some N_SLINE) (\<lambda>i. Some (10 * word_of_int i)) N_SLINE 0 3 25 2 3"
    by (simp add: bracket_def)
  have ne: "10 * word_of_int i \<noteq> (25 + 1 :: u32)" if "0 \<le> i" "i \<le> 3" for i
  proof -
    have "i = 0 \<or> i = 1 \<or> i = 2 \<or> i = 3" using that by linarith
    then show ?thesis by auto
  qed
  show ?thesis using stab_binsearch_finds [OF ok br] ne by simp
qed

text \<open>When an entry does lie at the next address, an exact match is missed: the search
  continues with \<^verbatim>\<open>addr + 1\<close> and returns that next entry.\<close>

lemma stab_binsearch_skips_exact:
  "stab_binsearch (\<lambda>_. Some N_SLINE) (\<lambda>i. if i = 0 then Some 5 else Some 6) 0 1 N_SLINE 5 = Some (1, 1)"
  by (rule stab_binsearch_adjacent)

text \<open>C35. Without a prompt, \<open>readline\<close> returns a line of up to 1023 printable characters as it was typed, echoes it
  with a newline, and leaves the rest of the input.\<close>

theorem readline_returns_line:
  assumes "con_in s = cs @ 13 # rest" and "length cs \<le> BUFLEN - 1"
    and "\<forall>c \<in> set cs. 0x20 \<le>s c \<and> c \<noteq> 0x7f \<and> c \<noteq> 0"
  shows "run (readline None) s =
    (Ret (Some (map (\<lambda>c. char_of (unat (ucast c :: u8))) cs)),
     s\<lparr>con_in := rest, console := console s @ cs @ [10]\<rparr>)"
  using readline_plain [OF assms(3), of "[]" rest "[]"] assms(1,2)
  by (simp add: readline_def readline_with_def prog_simps)

theorem readline_returns_line_witness:
  "run (readline None) (sample\<lparr>con_in := [0x68, 0x69, 13, 0x78]\<rparr>) =
    (Ret (Some ''hi''), sample\<lparr>con_in := [0x78], console := [0x68, 0x69, 10]\<rparr>)"
  using readline_returns_line [of "sample\<lparr>con_in := [0x68, 0x69, 13, 0x78]\<rparr>" "[0x68, 0x69]" "[0x78]"]
  by (simp add: word_sle_eq) (simp add: char_of_def bit_0)

section \<open>The console\<close>

primrec drain :: "nat \<Rightarrow> io_state \<Rightarrow> u8 list" where
  "drain 0 s = []"
| "drain (Suc n) s =
     (case cons_remove s of (None, t) \<Rightarrow> drain n t | (Some c, t) \<Rightarrow> c # drain n t)"

lemma drain_take_many: "drain n s = console.take_many n s"
  by (induction n arbitrary: s) (auto split: prod.splits option.splits)

text \<open>C32. Up to 511 characters put into the empty input buffer come out in the order they went
  in, wherever the read and write positions stand.\<close>

theorem console_input_fifo:
  assumes "cons_valid s" and "cons_waiting s = []" and "length cs \<le> 511"
  shows "drain (length cs) (fold cons_insert cs s) = cs"
  using console.fifo [OF assms(1,2)] assms(3) by (simp add: drain_take_many)

text \<open>C33. Printing a character always returns, and keeps the cursor inside the 2000 cells of the
  screen.\<close>

theorem cons_putc_stays_on_screen:
  assumes "unat (crt_pos s) < CRT_SIZE"
  shows "\<exists>t. run (cons_putc c) s = (Ret (), t) \<and> unat (crt_pos t) < CRT_SIZE"
  using cons_putc_run [of s c] assms by (simp add: crt_ok_def)

definition sample_io :: io_state where
  "sample_io = \<lparr>port_in = (\<lambda>n p. 0), in_count = 0, out_log = [], cga_present = True, serial_exists = False,
     addr_6845 = 0x3D4, crt_base = 0xB8000, crt_buf = (\<lambda>_. 0x720), crt_pos = 1999, kbd_shift = 0,
     cons_buf = (\<lambda>_. 0), cons_rpos = 500, cons_wpos = 500, irq_mask = 0xFFFF, pic_didinit = False\<rparr>"

theorem cons_putc_stays_on_screen_witness:
  "\<exists>t. run (cons_putc 0x41) sample_io = (Ret (), t) \<and> unat (crt_pos t) < CRT_SIZE"
  by (rule cons_putc_stays_on_screen) (simp add: sample_io_def)

theorem console_input_fifo_witness:
  "drain 3 (fold cons_insert [1, 2, 3] sample_io) = [1, 2, 3]"
proof -
  have "cons_valid sample_io" "cons_waiting sample_io = []"
    by (simp_all add: cons_valid_def cons_waiting_def cons_length_def sample_io_def)
  from console_input_fifo [OF this, of "[1, 2, 3]"] show ?thesis by (simp add: numeral_3_eq_3)
qed

section \<open>The boot loader\<close>

text \<open>C27. \<open>readseg\<close> terminates and loads the segment. On a disk that becomes ready within the fuel of each
  wait, for a segment that ends at least two sectors below the top of the address space: when \<open>pa\<close> and \<open>offset\<close> agree modulo the
  sector size, byte \<open>k\<close> of the segment is byte \<open>offset + k\<close> of the kernel image, which starts in
  the second sector of the disk; memory below the first sector touched is unchanged.\<close>

theorem readseg_loads:
  assumes "ready_soon (bt_status s)" and "holds_image (bt_disk s) img"
    and "unat pa + unat count \<le> 2 ^ 32 - 1024" and "unat pa mod 512 = unat offset mod 512"
  shows "\<exists>t. run (readseg pa count offset) s = (Ret (), t)
    \<and> (\<forall>k < unat count. bt_mem t (pa + of_nat k) = img (512 + unat offset + k))
    \<and> (\<forall>a. unat a < unat pa - unat pa mod 512 \<longrightarrow> bt_mem t a = bt_mem s a)"
proof -
  have "disk_ok img s" using assms(1,2) by (simp add: disk_ok_def)
  from readseg_run [OF this assms(3), of offset]
  obtain t where t: "run (readseg pa count offset) s = (Ret (), t)"
      "bt_mem t = image_block img (unat offset div 512 + 1) (pa - pa mod 512) (sectors pa count) (bt_mem s)"
    by blast
  have len: "unat pa mod 512 + unat count \<le> 512 * sectors pa count" unfolding sectors_def by linarith
  have base: "unat (pa - pa mod 512) = unat pa - unat pa mod 512" by (simp add: unat_diff32 unat_mod)
  have "bt_mem t (pa + of_nat k) = img (512 + unat offset + k)" if k: "k < unat count" for k
  proof -
    have small: "unat pa mod 512 + k < 2 ^ 32" using k assms(3) mod_less_divisor [of 512 "unat pa"] by simp
    have "pa + of_nat k - (pa - pa mod 512) = pa mod 512 + of_nat k" by simp
    moreover have "unat (pa mod 512 + of_nat k) = unat pa mod 512 + k"
      using small k assms(3) by (subst unat_add_small32) (simp_all add: unat_mod unat_of_nat32)
    ultimately have d: "unat (pa + of_nat k - (pa - pa mod 512)) = unat pa mod 512 + k" by metis
    have "512 * (unat offset div 512 + 1) + (unat offset mod 512 + k) = 512 + unat offset + k"
      using div_mult_mod_eq [of "unat offset" 512] by simp
    then show ?thesis unfolding t(2) image_block_def d using len k assms(4) by (simp add: add_ac)
  qed
  moreover have "bt_mem t a = bt_mem s a" if a: "unat a < unat pa - unat pa mod 512" for a
  proof -
    have "unat (a - (pa - pa mod 512)) = unat a + 2 ^ 32 - (unat pa - unat pa mod 512)"
      using a by (simp only: unat_diff32 [of a] base) simp
    moreover have "512 * sectors pa count \<le> unat pa mod 512 + unat count + 511" unfolding sectors_def by linarith
    ultimately have "\<not> unat (a - (pa - pa mod 512)) < 512 * sectors pa count"
      using assms(3) mod_less_eq_dividend [of "unat pa" 512] by simp
    then show ?thesis by (simp add: t(2) image_block_def)
  qed
  ultimately show ?thesis using t(1) by blast
qed

definition sample_disk :: boot_state where
  "sample_disk = \<lparr>bt_mem = (\<lambda>_. 0), bt_disk = (\<lambda>regs j. of_nat j), bt_regs = (\<lambda>_. 0),
     bt_status = (\<lambda>n. if n mod 3 = 2 then 0x40 else 0x80), bt_polls = 0, bt_words = []\<rparr>"

theorem readseg_loads_witness:
  "\<exists>t. run (readseg 0x100004 100 0x1004) sample_disk = (Ret (), t) \<and> bt_mem t 0x100007 = 7"
proof -
  have "\<exists>k < 1048576. (n + k) mod 3 = 2" for n :: nat
  proof -
    have "(n + (2 + 2 * n) mod 3) mod 3 = 2" by presburger
    moreover have "(2 + 2 * n) mod 3 < 1048576" by (rule less_le_trans [OF mod_less_divisor]) simp_all
    ultimately show ?thesis by blast
  qed
  then have r: "ready_soon (bt_status sample_disk)"
    unfolding ready_soon_def by (fastforce simp: sample_disk_def)
  have h: "holds_image (bt_disk sample_disk) (\<lambda>n. of_nat (n mod 512))"
    by (simp add: holds_image_def sample_disk_def)
  from readseg_loads [OF r h, of "0x100004" 100 "0x1004"]
  obtain t where t: "run (readseg 0x100004 100 0x1004) sample_disk = (Ret (), t)"
      "\<forall>k < 100. bt_mem t (0x100004 + of_nat k) = of_nat ((512 + 0x1004 + k) mod 512)"
    by auto
  have "bt_mem t 0x100007 = 7" using t(2) [rule_format, of 3] by simp
  then show ?thesis using t(1) by blast
qed

end
