(* ===== verification/Lab2.thy ===== *)
theory Lab2
  imports Lab3Init
begin

text \<open>
  The kernel of \<^verbatim>\<open>Project2\<close>, one assignment before \<^verbatim>\<open>project3\<close>: it sets up memory and goes to the
  monitor; there are no environments and no traps. Only the functions whose text differs from that
  of \<^verbatim>\<open>project3\<close> and of \<^verbatim>\<open>lab4\<close>, or which call one that does, are repeated here, with the suffix
  \<open>_lab2\<close>. The page allocator, the page tables and their self tests are those of \<open>Pmap\<close>,
  \<open>PmapCheck\<close> and \<open>Lab3Mem\<close>, the commands of the monitor those of \<open>Monitor\<close>.
\<close>

section \<open>The self test of the kernel's mappings\<close>

text \<open>No slot is reserved for \<^verbatim>\<open>UENVS\<close>, and its mapping is not looked at.\<close>

definition check_pde_lab2 :: "nat \<Rightarrow> nat \<Rightarrow> unit km" where
  "check_pde_lab2 pgdir i =
     bindP (gets (\<lambda>s. pmem s pgdir i)) (\<lambda>pde.
     if i \<in> {unat (PDX UVPT), unat (PDX (KSTACKTOP - 1)), unat (PDX UPAGES)}
     then assertP ''pgdir[i] & PTE_P'' (pde AND PTE_P \<noteq> 0)
     else if i \<ge> unat (PDX KERNBASE)
     then thenP (assertP ''pgdir[i] & PTE_P'' (pde AND PTE_P \<noteq> 0))
          (assertP ''pgdir[i] & PTE_W'' (pde AND PTE_W \<noteq> 0))
     else assertP ''pgdir[i] == 0'' (pde = 0))"

definition check_kern_pgdir_lab2 :: "unit km" where
  "check_kern_pgdir_lab2 =
     bindP (gets (\<lambda>s. (kern_pgdir s, npages s, pages_kva s))) (\<lambda>(pgdir, np, pk).
     seqP [
       check_region pgdir UPAGES (PADDR pk) (unat (ROUNDUP (of_nat np * sizeof_PageInfo) PGSIZE div PGSIZE)),
       check_region pgdir KERNBASE (ret 0) (unat ((of_nat np * PGSIZE) div PGSIZE)),
       check_stack_lab3 pgdir,
       forP [0..<NPDENTRIES] (check_pde_lab2 pgdir),
       thenP (cprintf ''check_kern_pgdir() succeeded!\<newline>'' []) (ret ())])"

section \<open>\<open>mem_init\<close>\<close>

definition mem_init_lab2 :: "(u32 \<Rightarrow> u8) \<Rightarrow> unit km" where
  "mem_init_lab2 cmos =
     thenP (i386_detect_memory cmos)
     (bindP (gets (\<lambda>s. (ksym s, npages s))) (\<lambda>(k, np).
      bindP (boot_alloc (sym_end k) PGSIZE) (\<lambda>kpg.
      thenP (modify (\<lambda>s. fill_frame (kva_frame kpg) 0 (s\<lparr>kern_pgdir := kva_frame kpg\<rparr>)))
      (bindP (PADDR kpg) (\<lambda>kpa.
       thenP (modify (store_word (kva_frame kpg) (unat (PDX UVPT)) (kpa OR PTE_U OR PTE_P)))
       (bindP (boot_alloc (sym_end k) (of_nat np * sizeof_PageInfo)) (\<lambda>pk.
        thenP (modify (\<lambda>s. s\<lparr>pages_kva := pk, pages := (\<lambda>i. if i < np then zero_page else pages s i)\<rparr>))
        (thenP (seqP [page_init (sym_end k), check_page_free_list_lab3 True, check_page_alloc, check_page_lab3])
        (bindP (PADDR pk) (\<lambda>ppa.
         thenP (boot_map_region (kva_frame kpg) UPAGES PTSIZE ppa PTE_U)
         (bindP (PADDR (sym_bootstack k)) (\<lambda>spa.
          seqP [
            boot_map_region (kva_frame kpg) (KSTACKTOP - KSTKSIZE) KSTKSIZE spa PTE_W,
            boot_map_region (kva_frame kpg) KERNBASE (0 - KERNBASE) 0 PTE_W,
            check_kern_pgdir_lab2,
            lcr3 kpa,
            check_page_free_list_lab3 False,
            modify (\<lambda>s. s\<lparr>cr0 := (cr0 s OR (CR0_PE OR CR0_PG OR CR0_AM OR CR0_WP OR CR0_NE OR CR0_MP))
                                 AND NOT (CR0_TS OR CR0_EM)\<rparr>),
            check_page_installed_pgdir_lab3]))))))))))))"

section \<open>The symbol tables\<close>

text \<open>The search ends with the function: the line number is not looked up.\<close>

definition debuginfo_search_lab2 ::
  "u32 \<Rightarrow> u32 \<Rightarrow> u32 \<Rightarrow> u32 \<Rightarrow> u32 \<Rightarrow> Eipdebuginfo \<Rightarrow> (int \<times> Eipdebuginfo) km" where
  "debuginfo_search_lab2 stabs stab_end stabstr stabstr_end addr info =
     bindP (search_stabs stabs 0 (stab_diff stab_end stabs - 1) N_SO addr) (\<lambda>(lfile, rfile).
     if lfile = 0 then ret (-1, info)
     else bindP (search_stabs stabs lfile rfile N_FUN addr) (\<lambda>(lfun, rfun).
     bindP (if lfun \<le> rfun
            then bindP (bindP (gets (\<lambda>s. n_strx stabs s lfun)) deref) (\<lambda>strx.
                 bindP (bindP (gets (\<lambda>s. n_value stabs s lfun)) deref) (\<lambda>v.
                 ret ((if strx < stabstr_end - stabstr then info\<lparr>eip_fn_name := At (stabstr + strx)\<rparr>
                       else info)\<lparr>eip_fn_addr := v\<rparr>, lfun)))
            else ret (info\<lparr>eip_fn_addr := addr\<rparr>, lfile))
       (\<lambda>(info, lline).
     bindP (case eip_fn_name info of
              Unknown \<Rightarrow> ret 9
            | At p \<Rightarrow> colon_pos (unat (stabstr_end - p)) p) (\<lambda>namelen.
     bindP (bindP (gets (\<lambda>s. file_scan (n_type stabs s) (n_value stabs s) lfile lline)) deref) (\<lambda>fl.
     bindP (if fl \<ge> lfile
            then bindP (bindP (gets (\<lambda>s. n_strx stabs s fl)) deref) (\<lambda>strx.
                 ret (if strx < stabstr_end - stabstr then At (stabstr + strx) else eip_file info))
            else ret (eip_file info)) (\<lambda>file.
     bindP (if lfun < rfun
            then bindP (gets (\<lambda>s. count_args (n_type stabs s) rfun (lfun + 1))) deref
            else ret 0) (\<lambda>narg.
     ret (0, info\<lparr>eip_fn_namelen := namelen, eip_file := file,
                  eip_fn_narg := eip_fn_narg info + narg\<rparr>))))))))"

text \<open>Only the kernel's own table: an address of a user program is a panic.\<close>

definition debuginfo_eip_lab2 :: "u32 \<Rightarrow> (int \<times> Eipdebuginfo) km" where
  "debuginfo_eip_lab2 addr =
     (let info = \<lparr>eip_file = Unknown, eip_line = 0, eip_fn_name = Unknown, eip_fn_namelen = 9,
                  eip_fn_addr = addr, eip_fn_narg = 0\<rparr>
      in if addr \<ge> ULIM
         then bindP (gets ksym) (\<lambda>k.
              if sym_stabstr_end k \<le> sym_stabstr_begin k then ret (-1, info)
              else bindP (load8 (sym_stabstr_end k - 1)) (\<lambda>c.
                   if c \<noteq> 0 then ret (-1, info)
                   else debuginfo_search_lab2 (sym_stab_begin k) (sym_stab_end k)
                          (sym_stabstr_begin k) (sym_stabstr_end k) addr info))
         else stop (Panic ''User address''))"

section \<open>The monitor and the start\<close>

primrec monitor_loop_lab2 :: "nat \<Rightarrow> unit km" where
  "monitor_loop_lab2 0 = stop Spinning"
| "monitor_loop_lab2 (Suc n) =
     bindP (readline_lab3 (Some ''K> '')) (\<lambda>buf.
     case buf of
       None \<Rightarrow> monitor_loop_lab2 n
     | Some b \<Rightarrow> bindP (runcmd b) (\<lambda>r. if r < 0 then ret () else monitor_loop_lab2 n))"

text \<open>The trap frame is not printed.\<close>

definition monitor_lab2 :: "tf_ptr option \<Rightarrow> unit km" where
  "monitor_lab2 tf =
     thenP (printP ''Welcome to the JOS kernel monitor!\<newline>'' [])
     (thenP (printP ''Type 'help' for a list of commands.\<newline>'' [])
     (bindP (gets (\<lambda>s. length (con_in s))) (\<lambda>n. monitor_loop_lab2 (Suc n))))"

definition kpanic_lab2 :: "string \<Rightarrow> u32 \<Rightarrow> string \<Rightarrow> vararg list \<Rightarrow> unit km" where
  "kpanic_lab2 file line fmt ap =
     bindP (gets panicstr) (\<lambda>panicked.
     thenP (if panicked then ret ()
            else thenP (modify (\<lambda>s. s\<lparr>panicstr := True, eflags := eflags s AND NOT FL_IF\<rparr>))
                 (thenP (printP ''kernel panic at %s:%d: '' [VStr (Some file), VInt line])
                 (thenP (printP fmt ap)
                 (printP ''\<newline>'' []))))
     (thenP (monitor_lab2 None) (stop MonitorLoop)))"

text \<open>
  The argument is what the CMOS memory holds. The clearing of the globals is a property of the state
  to start from. \<^verbatim>\<open>while (1) monitor(NULL)\<close> is one call, because \<open>monitor\<close> does not return.
\<close>

definition i386_init_lab2 :: "(u32 \<Rightarrow> u8) \<Rightarrow> unit mm" where
  "i386_init_lab2 cmos =
     seqP [
       onD cons_init_lab3,
       onK (printP ''6828 decimal is %o octal!\<newline>'' [VInt 6828]),
       onK (mem_init_lab2 cmos),
       onK (thenP (monitor_lab2 None) (stop MonitorLoop))]"

end
