(* ===== verification/Lab2Kernel.thy ===== *)
theory Lab2Kernel
  imports Lab2 Lab3Start MonitorRun
begin

text \<open>
  The start of the kernel of \<^verbatim>\<open>Project2\<close>: \<open>mem_init\<close> returns with the kernel's address space, without
  the environments, and the monitor answers whatever is typed.
\<close>

section \<open>The self test of the kernel's mappings\<close>

lemma check_pdes_lab2_run:
  assumes dir: "directory s pd (kernel_slots {})" and uvpt: "present (pmem s pd UVPT_index)"
  shows "run (forP [0..<NPDENTRIES] (check_pde_lab2 pd)) s = (Ret (), s)"
proof (rule forP_still)
  fix i assume "i \<in> set [0..<NPDENTRIES]"
  then have i: "i < 1024" by simp
  show "run (check_pde_lab2 pd i) s = (Ret (), s)"
  proof (cases "i = UVPT_index")
    case True
    then show ?thesis using uvpt unfolding check_pde_lab2_def pde_index by (simp add: prog_simps)
  next
    case False
    show ?thesis
      using directory_pde [OF dir i False] False unfolding check_pde_lab2_def pde_index
      by (cases "i \<in> {957, 959, 956}"; cases "960 \<le> i") (auto simp: prog_simps)
  qed
qed

lemma check_kern_pgdir_lab2_run:
  assumes ok: "pgdir_ok s pd xs" and dir: "directory s pd (kernel_slots {})" and uvpt: "present (pmem s pd UVPT_index)"
    and sp: "kernel_space s pd (pages_kva s - KERNBASE) None (sym_bootstack (ksym s) - KERNBASE)"
    and sel: "kern_pgdir s = pd" "npages s \<le> 65536" and al: "arrays_aligned s"
  shows "run check_kern_pgdir_lab2 s = (Ret (), s\<lparr>console := console s @ render ''check_kern_pgdir() succeeded!\<newline>'' []\<rparr>)"
  using check_common_run [OF ok al sel(2) sp] check_pdes_lab2_run [OF dir uvpt] unfolding check_kern_pgdir_lab2_def
  by (simp add: prog_simps sel(1) run_cprintf formats)

section \<open>\<open>mem_init\<close> returns\<close>

lemma mem_init_lab2_start:
  "mem_init_lab2 cmos = mem_init_start cmos (\<lambda>k np kpg kpa pk.
     thenP (seqP [page_init (sym_end k), check_page_free_list_lab3 True, check_page_alloc, check_page_lab3])
     (bindP (PADDR pk) (\<lambda>ppa.
      thenP (boot_map_region (kva_frame kpg) UPAGES PTSIZE ppa PTE_U)
      (bindP (PADDR (sym_bootstack k)) (\<lambda>spa.
       thenP (boot_map_region (kva_frame kpg) (KSTACKTOP - KSTKSIZE) KSTKSIZE spa PTE_W)
       (thenP (boot_map_region (kva_frame kpg) KERNBASE (0 - KERNBASE) 0 PTE_W)
       (mem_init_tail check_kern_pgdir_lab2 kpa)))))))"
  unfolding mem_init_lab2_def mem_init_start_def mem_init_tail_def by (simp only: seqP.simps)

lemma mem_init_lab2_run:
  assumes fits: "machine_fits cmos (ksym s)" and clear: "bss_clear s"
  shows "\<exists>t xs pk nf l c. run (mem_init_lab2 cmos) s = (Ret (), t) \<and> end_ok (kernel_end s) nf \<and>
    mem_done cmos s None (pages_ready cmos s pk nf l c) t xs"
proof -
  obtain pk nf l c where S: "\<And>K. run (mem_init_start cmos K) s
      = run (K (ksym s) (total_pages cmos) (kernel_end s) (kernel_end s - KERNBASE) pk) (pages_ready cmos s pk nf l c)"
    and u: "unat pk = unat (kernel_end s) + 4096" "unat nf = unat pk + pages_bytes cmos" "unat nf < 0xF0390000"
    using mem_init_start_run [OF fits clear] by blast
  define t0 where "t0 = pages_ready cmos s pk nf l c"
  note set0 = arrays_set_ready(1) [OF clear, of cmos nf pk l c, folded t0_def]
  have t0: "kern_pgdir t0 = kva_frame (kernel_end s)" "pages_kva t0 = pk" "npages t0 = total_pages cmos" "ksym t0 = ksym s"
    by (simp_all add: t0_def pages_ready_def)
  have e: "4096 dvd unat pk" "KERNBASE \<le> pk" "end_ok (kernel_end s) nf"
    using end_ok_arrays [OF fits u(1), of "pages_bytes cmos" nf] u by simp_all
  note stack = stack_fits [OF fits]
  have al: "arrays_aligned t0" using e stack by (simp add: arrays_aligned_def t0)
  have np: "total_pages cmos \<le> 65536" using fits by (simp add: machine_fits_def)
  have "run check_kern_pgdir_lab2 u = (Ret (), u\<lparr>console := console u @ render ''check_kern_pgdir() succeeded!\<newline>'' []\<rparr>)"
    if u: "steady u = steady t0" "pgdir_ok u (kern_pgdir t0) ys" "directory u (kern_pgdir t0) (kernel_slots (env_slot None))"
      "present (pmem u (kern_pgdir t0) UVPT_index)"
      "kernel_space u (kern_pgdir t0) (pages_kva t0 - KERNBASE) None (sym_bootstack (ksym s) - KERNBASE)" for u ys
  proof -
    note us = steady_sel [OF u(1)]
    have "arrays_aligned u" using al us by (simp add: arrays_aligned_def)
    then show ?thesis using u us t0 np by (intro check_kern_pgdir_lab2_run) simp_all
  qed
  then obtain t xs where t: "run (thenP (seqP [page_init (sym_end (ksym s)), check_page_free_list_lab3 True, check_page_alloc, check_page_lab3])
      (thenP (map_regions (kern_pgdir t0) (pages_kva t0 - KERNBASE) None (sym_bootstack (ksym s) - KERNBASE))
        (mem_init_tail check_kern_pgdir_lab2 (page2pa (kern_pgdir t0))))) t0 = (Ret (), t)" "mem_done cmos s None t0 t xs"
    using mem_init_finish [OF fits e(3) set0 al, of None check_kern_pgdir_lab2] by blast
  have pd: "kernel_end s - KERNBASE = page2pa (kern_pgdir t0)" unfolding t0 by (rule end_okD(9) [OF e(3)])
  have "run (mem_init_lab2 cmos) s = (Ret (), t)"
    using t(1) unfolding mem_init_lab2_start S t0_def [symmetric] PADDR_kernel [OF e(2)] PADDR_kernel [OF stack(2)] pd
    unfolding map_regions_def map_envs_def option.case t0
    by (simp only: thenP_laws seqP.simps)
  then show ?thesis using t(2) e(3) unfolding t0_def by blast
qed

section \<open>The start\<close>

lemma read_error_formats [formats]:
  "vprintfmt ''read error: %s\<newline>'' [VStr p] \<noteq> None" "vprintfmt ''read error: error %d\<newline>'' [VInt w] \<noteq> None"
  by (simp_all add: fmt_eval)

lemma prints_read_error: "c \<noteq> 0x80000000 \<Longrightarrow> prints (read_error_lab3 c)"
  unfolding read_error_lab3_def Let_def
  by (auto split: option.split intro!: prints_cprintf formats error_format)

interpretation lab2_monitor: command_loop read_error_lab3 runcmd monitor_loop_lab2
  by unfold_locales (auto intro: prints_read_error prints_runcmd simp: runcmd_zero readline_lab3_def)

lemma monitor_lab2_waits:
  assumes "typed_ok s"
  shows "\<exists>out. run (monitor_lab2 tf) s = (Stop Spinning, s\<lparr>con_in := [], console := console s @ out\<rparr>)"
  using lab2_monitor.loop_waits [of "s\<lparr>console := (console s @ render ''Welcome to the JOS kernel monitor!\<newline>'' [])
      @ render ''Type 'help' for a list of commands.\<newline>'' []\<rparr>" "Suc (length (con_in s))"] assms
  by (auto simp: monitor_lab2_def prog_simps run_cprintf formats simp del: monitor_loop_lab2.simps)

text \<open>The kernel at its prompt, with its own address space installed.\<close>

definition at_prompt :: "(u32 \<Rightarrow> u8) \<Rightarrow> kstate \<Rightarrow> kstate \<Rightarrow> bool" where
  "at_prompt cmos s k \<longleftrightarrow>
     con_in k = [] \<and> npages k = total_pages cmos \<and> ksym k = ksym s \<and> cr3 k = page2pa (kern_pgdir k) \<and>
     (\<exists>xs. free_pages k xs \<and> usable cmos (nextfree k) = set xs \<union> tables k (kern_pgdir k)) \<and>
     kernel_space k (kern_pgdir k) (pages_kva k - KERNBASE) None (sym_bootstack (ksym s) - KERNBASE) \<and>
     (\<forall>f. f \<notin> usable cmos (nextfree k) \<longrightarrow> f \<noteq> kern_pgdir k \<longrightarrow> pmem k f = pmem s f)"

lemma kernel_lab2_run:
  assumes fits: "machine_fits cmos (ksym s)" and clear: "bss_clear s" and typed: "typed_ok s"
  shows "\<exists>k. run (thenP (mem_init_lab2 cmos) (thenP (monitor_lab2 None) (stop MonitorLoop))) s = (Stop Spinning, k) \<and> at_prompt cmos s k"
proof -
  obtain t xs pk nf l c where t: "run (mem_init_lab2 cmos) s = (Ret (), t)" "mem_done cmos s None (pages_ready cmos s pk nf l c) t xs"
    using mem_init_lab2_run [OF fits clear] by blast
  note S = done_sel [OF t(2)]
  have r: "npages t = total_pages cmos" "ksym t = ksym s" "cr3 t = page2pa (kern_pgdir t)" "con_in t = con_in s"
    using S by (simp_all add: pages_ready_def)
  obtain out where m: "run (monitor_lab2 None) t = (Stop Spinning, t\<lparr>con_in := [], console := console t @ out\<rparr>)"
    using monitor_lab2_waits [of t] typed r(4) by auto
  let ?k = "t\<lparr>con_in := [], console := console t @ out\<rparr>"
  have f: "free_pages (t\<lparr>con_in := []\<rparr>) xs"
    using t(2) pgdir_okD(1) [of t "kern_pgdir t" xs] unfolding mem_done_def S [symmetric] by (simp add: free_pages_def)
  have v: "tables ?k pd = tables t pd" "kernel_space ?k pd a b d = kernel_space t pd a b d" for pd a b d
    by (simp_all add: tables_def table_slots_def kernel_space_def entry_def pde_at_def)
  have "usable cmos (nextfree t) = set xs \<union> tables t (kern_pgdir t)"
    "kernel_space t (kern_pgdir t) (pages_kva t - KERNBASE) None (sym_bootstack (ksym s) - KERNBASE)"
    "\<forall>f. f \<notin> usable cmos (nextfree t) \<longrightarrow> f \<noteq> kern_pgdir t \<longrightarrow> pmem t f = pmem s f"
    using t(2) unfolding mem_done_def S [symmetric] by blast+
  then have "at_prompt cmos s ?k"
    unfolding at_prompt_def using f r by (auto simp: v intro!: exI [of _ xs])
  moreover have "run (thenP (mem_init_lab2 cmos) (thenP (monitor_lab2 None) (stop MonitorLoop))) s = (Stop Spinning, ?k)"
    unfolding run_thenP_Ret [OF t(1)] using m by (simp add: run_thenP)
  ultimately show ?thesis by blast
qed

lemma machine_lab2_run:
  assumes "machine_fits cmos (ksym (mc_kernel m))" and "bss_clear (mc_kernel m)" and "typed_ok (mc_kernel m)"
  shows "\<exists>t. run (i386_init_lab2 cmos) m = (Stop Spinning, t) \<and> at_prompt cmos (mc_kernel m) (mc_kernel t)"
proof -
  let ?s = "greeted (mc_kernel m)"
  have "bss_clear ?s" using assms(2) by (simp add: bss_clear_def)
  then obtain k where k: "run (thenP (mem_init_lab2 cmos) (thenP (monitor_lab2 None) (stop MonitorLoop))) ?s = (Stop Spinning, k)"
    "at_prompt cmos ?s k"
    using kernel_lab2_run [of cmos ?s] assms by auto
  then have "run (seqP [mem_init_lab2 cmos, thenP (monitor_lab2 None) (stop MonitorLoop)]) ?s = (Stop Spinning, k)"
    by (auto simp: prog_simps split: prod.splits outcome.splits)
  then obtain d where "run (i386_init_lab2 cmos) m = (Stop Spinning, m\<lparr>mc_devices := d, mc_kernel := k\<rparr>)"
    using machine_start by (fastforce simp: i386_init_lab2_def)
  moreover have "at_prompt cmos (mc_kernel m) k" using k(2) by (simp add: at_prompt_def)
  ultimately show ?thesis by (intro exI [of _ "m\<lparr>mc_devices := d, mc_kernel := k\<rparr>"]) simp
qed

end
