(* ===== verification/Lab3Props.thy ===== *)
theory Lab3Props
  imports Lab3Start Sample
begin

text \<open>
  The properties of the kernel of \<^verbatim>\<open>project3\<close>, which, other than that of \<^verbatim>\<open>lab4\<close>, comes up and runs
  its user program. The machine of the witnesses has 128 MB of memory.
\<close>

definition sample_cmos :: "u32 \<Rightarrow> u8" where
  "sample_cmos r = (if r = 0x15 then 0x80 else if r = 0x16 then 2 else if r = 0x35 then 7 else 0)"

definition sample_boot :: kstate where
  "sample_boot = sample\<lparr>pmem := (\<lambda>f i. if f = 271 then sample_image i else 0), page_free_list := None,
     pages := (\<lambda>p. \<lparr>pp_link = None, pp_ref = 0\<rparr>), nextfree := 0, envs := (\<lambda>i. zero_env), env_free_list := None,
     cpus := (\<lambda>c. \<lparr>cpu_id = 0, cpu_status = CPU_UNUSED, cpu_env = None\<rparr>)\<rparr>"

abbreviation (input) sample_program :: u32 where "sample_program \<equiv> 0xF010F000"

lemma sample_cmos_pages: "total_pages sample_cmos = 32768" "base_pages sample_cmos = 160"
  by (simp_all add: total_pages_def total_memory_def base_pages_def nvram_read_def sample_cmos_def)

lemma sample_fits: "machine_fits sample_cmos (ksym sample_boot)" "bss_clear sample_boot" "envs sample_boot i = zero_env"
  by (simp_all add: machine_fits_def sample_cmos_pages sample_boot_def sample_syms_def bss_clear_def PTE_ADDR_def)

lemma sample_boot_elf: "elf_at sample_program (in_kernel_image (ksym sample_boot)) (phys_byte sample_boot)"
  unfolding elf_at_def
proof (intro allI impI conjI)
  fix i :: nat assume i: "i < 4096"
  have u: "unat (sample_program + of_nat i) = 0xF010F000 + i" using i by (subst unat_add_small32) (simp_all add: unat_of_nat32)
  have "unat (sample_program + of_nat i - KERNBASE) = 0x10F000 + i"
    using i unat_add_small32 [of "0x10F000" "of_nat i"] by (simp add: unat_of_nat32)
  moreover have "(0x10F000 + i) div 4096 = 271" using i div_mult_self2 [of 4096 i 271] by (simp add: add.commute)
  ultimately have f: "kva_frame (sample_program + of_nat i) = 271" by (simp add: kva_frame_def unat_PGNUM)
  have o: "unat (PGOFF (sample_program + of_nat i)) = i" using i mod_mult_self2 [of i 4096 983311] unfolding unat_PGOFF u by (simp add: add.commute)
  show "in_kernel_image (ksym sample_boot) (sample_program + of_nat i)"
    using i by (simp add: in_kernel_image_def word_le_nat_alt word_less_nat_alt u sample_boot_def sample_syms_def)
  show "phys_byte sample_boot (sample_program + of_nat i) = byte_of (sample_image (i div 4)) (i mod 4)"
    unfolding phys_byte_def f o by (simp add: sample_boot_def)
qed

lemma sample_boot_program:
  "elf_ok (in_kernel_image (ksym sample_boot)) (phys_byte sample_boot) sample_program"
  "elf_pages (phys_byte sample_boot) sample_program = 1"
  using elf_at_ok [OF sample_boot_elf] by simp_all

text \<open>C2. The kernel of project3 boots. On a machine with 16 to 256 MB of memory whose kernel image ends below
  3 MB, with cleared globals and a well-formed program linked into the image that leaves enough pages,
  \<open>i386_init\<close> brings up the console whatever the devices answer, passes every self test of \<open>mem_init\<close>, and
  ends in user mode: environment 0 is the current one and the only one, the page directory loaded is its
  own, it starts at the program's entry point with the stack pointer at \<^verbatim>\<open>USTACKTOP\<close>, its address space
  holds the program's segments and a zeroed stack page, the interrupt table is loaded, and the kernel's
  invariant holds.\<close>

theorem lab3_boots:
  assumes "machine_fits cmos (ksym (mc_kernel m))" and "bss_clear (mc_kernel m)"
    and "\<And>i. NENV \<le> i \<Longrightarrow> envs (mc_kernel m) i = zero_env"
    and "elf_ok (in_kernel_image (ksym (mc_kernel m))) (phys_byte (mc_kernel m)) binary"
    and "2 * elf_pages (phys_byte (mc_kernel m)) binary + 1100 \<le> total_pages cmos"
  shows "\<exists>t. run (i386_init_lab3 cmos binary) m = (Stop UserMode, t) \<and> running_program (mc_kernel m) (mc_kernel t) binary"
  by (rule machine_boots [OF assms])

theorem lab3_boots_witness:
  "\<forall>d. \<exists>t. run (i386_init_lab3 sample_cmos sample_program) \<lparr>mc_kernel = sample_boot, mc_devices = d, mpentry_kstack = 0\<rparr> = (Stop UserMode, t)
    \<and> curenv (mc_kernel t) = Some 0 \<and> tf_eip (env_tf (envs (mc_kernel t) 0)) = 0x00800020
    \<and> user_byte (mc_kernel t) (dir (mc_kernel t) 0) 0x00800001 = 0x22"
proof
  fix d
  let ?m = "\<lparr>mc_kernel = sample_boot, mc_devices = d, mpentry_kstack = 0\<rparr>"
  obtain t where t: "run (i386_init_lab3 sample_cmos sample_program) ?m = (Stop UserMode, t)"
    "running_program sample_boot (mc_kernel t) sample_program"
    using lab3_boots [of sample_cmos ?m sample_program] sample_fits sample_boot_program by (auto simp: sample_cmos_pages)
  then have l: "elf_loaded (phys_byte sample_boot) (mapped (mc_kernel t) (dir (mc_kernel t) 0)) (user_byte (mc_kernel t) (dir (mc_kernel t) 0)) sample_program"
    by (simp add: running_program_def)
  show "\<exists>t. run (i386_init_lab3 sample_cmos sample_program) ?m = (Stop UserMode, t)
    \<and> curenv (mc_kernel t) = Some 0 \<and> tf_eip (env_tf (envs (mc_kernel t) 0)) = 0x00800020
    \<and> user_byte (mc_kernel t) (dir (mc_kernel t) 0) 0x00800001 = 0x22"
    using t elf_at_loaded(1) [OF sample_boot_elf l, of 1] elf_at_words(2) [OF sample_boot_elf]
    by (intro exI [of _ t]) (simp add: running_program_def byte_of_def)
qed

text \<open>C9. \<open>mem_init\<close> of project3 returns: on such a machine all its self tests pass, and the page directory it
  has built and installed maps, apart from the slot of \<^verbatim>\<open>UVPT\<close>, exactly what \<^verbatim>\<open>inc/memlayout.h\<close> says, all of
  physical memory from \<^verbatim>\<open>KERNBASE\<close> on among it. Every usable page is free or a page table, and the memory
  that was not usable is as it was.\<close>

theorem mem_init_maps_kernel:
  assumes "machine_fits cmos (ksym s)" and "bss_clear s"
  shows "\<exists>t xs. run (mem_init_lab3 cmos) s = (Ret (), t) \<and> npages t = total_pages cmos \<and> free_pages t xs
    \<and> usable cmos (nextfree t) = set xs \<union> tables t (kern_pgdir t) \<and> cr3 t = page2pa (kern_pgdir t)
    \<and> (\<forall>va. unat (PDX va) \<noteq> unat (PDX UVPT) \<longrightarrow>
         entry t (kern_pgdir t) va = memory_map (pages_kva t - KERNBASE) (Some (envs_kva t - KERNBASE)) (sym_bootstack (ksym s) - KERNBASE) va)
    \<and> (\<forall>f. f \<notin> usable cmos (nextfree t) \<longrightarrow> f \<noteq> kern_pgdir t \<longrightarrow> pmem t f = pmem s f)"
proof -
  obtain t xs where t: "run (mem_init_lab3 cmos) s = (Ret (), t)" "mem_ready cmos s t xs" using mem_init_run [OF assms] by blast
  then have "pgdir_ok t (kern_pgdir t) xs" unfolding mem_ready_def by blast
  then have "free_pages t xs" by (rule pgdir_okD(1))
  with t show ?thesis unfolding UVPT_index mem_ready_def kernel_space_def by (intro exI [of _ t] exI [of _ xs]) blast
qed

theorem mem_init_maps_kernel_witness:
  "\<exists>t. run (mem_init_lab3 sample_cmos) sample_boot = (Ret (), t) \<and> npages t = 32768
    \<and> entry t (kern_pgdir t) 0xF0123456 = 0x123003 \<and> entry t (kern_pgdir t) 0xEFFF8000 = 0x118003"
proof -
  obtain t where t: "run (mem_init_lab3 sample_cmos) sample_boot = (Ret (), t)" "npages t = total_pages sample_cmos"
    and e: "\<And>va. unat (PDX va) \<noteq> unat (PDX UVPT) \<Longrightarrow>
         entry t (kern_pgdir t) va = memory_map (pages_kva t - KERNBASE) (Some (envs_kva t - KERNBASE)) (sym_bootstack (ksym sample_boot) - KERNBASE) va"
    using mem_init_maps_kernel [OF sample_fits(1,2)] by blast
  have "sym_bootstack (ksym sample_boot) = 0xF0118000" by (simp add: sample_boot_def sample_syms_def)
  then have "entry t (kern_pgdir t) 0xF0123456 = 0x123003" "entry t (kern_pgdir t) 0xEFFF8000 = 0x118003"
    using e [of "0xF0123456"] e [of "0xEFFF8000"] by (simp_all add: PDX_def memory_map_def unat_PGNUM region_entry_def)
  then show ?thesis using t sample_cmos_pages by auto
qed

text \<open>C25. As long as no environment is running and the fields it does not know are zero, \<open>env_create\<close> of
  project3 does exactly what that of lab4 does, failures included: the unconditional \<^verbatim>\<open>invlpg\<close> and the shorter
  \<^verbatim>\<open>struct Env\<close> make no difference.\<close>

theorem env_create_lab3_same:
  assumes "curenv s = None" and "\<forall>i. env_pgfault_upcall (envs s i) = 0 \<and> \<not> env_ipc_recving (envs s i)"
  shows "run (env_create_lab3 binary type) s = run (env_create binary type) s"
  using assms by (intro same_onD [OF same_env_create [of "idt_loaded s"]]) (simp add: idle_def)

theorem env_create_lab3_same_witness:
  "run (env_create_lab3 0xF000F000 ENV_TYPE_USER) (set_curenv None sample) = run (env_create 0xF000F000 ENV_TYPE_USER) (set_curenv None sample)"
  by (rule env_create_lab3_same) (simp_all add: sample_env_def zero_env_def)

end
