(* ===== verification/MonitorSpec.thy ===== *)
theory MonitorSpec
  imports MonitorRun Printf
begin

text \<open>
  What the monitor answers: the words of a line, the text each command prints, and the console
  after any number of lines, against definitions that do not mention the buffers of the code.
\<close>

section \<open>The words of a line\<close>

text \<open>A line cut at every blank, and the pieces that are not empty.\<close>

definition pieces :: "string \<Rightarrow> string list" where
  "pieces s = foldr (\<lambda>c ws. if is_space c then [] # ws else (c # hd ws) # tl ws) s [[]]"

definition words :: "string \<Rightarrow> string list" where
  "words s = filter (\<lambda>w. w \<noteq> []) (pieces s)"

lemma pieces_simps [simp]:
  "pieces [] = [[]]"
  "pieces (c # s) = (if is_space c then [] # pieces s else (c # hd (pieces s)) # tl (pieces s))"
  by (simp_all add: pieces_def)

lemma pieces_first:
  "pieces s \<noteq> []" "hd (pieces s) = takeWhile (\<lambda>c. \<not> is_space c) s"
  "filter (\<lambda>w. w \<noteq> []) (tl (pieces s)) = words (dropWhile (\<lambda>c. \<not> is_space c) s)"
  by (induction s) (auto simp: words_def)

lemma words_blank: "words (dropWhile is_space s) = words s"
  by (induction s) (auto simp: words_def)

lemma words_word:
  assumes "\<not> is_space c"
  shows "words (c # s) = (c # takeWhile (\<lambda>c. \<not> is_space c) s) # words (dropWhile (\<lambda>c. \<not> is_space c) s)"
  using assms pieces_first(2,3) [of s] by (simp add: words_def)

lemma split_args_words:
  "n \<le> 15 \<Longrightarrow> split_args s n = (if n + length (words s) \<le> 15 then Some (words s) else None)"
proof (induction s n rule: split_args.induct)
  case (1 s n)
  show ?case
  proof (cases "dropWhile is_space s")
    case Nil
    then have "words s = []" using words_blank [of s] by (simp add: words_def del: dropWhile_eq_Nil_conv)
    then show ?thesis using 1(2) Nil by (subst split_args.simps) (simp del: dropWhile_eq_Nil_conv)
  next
    case (Cons c cs)
    then have "\<not> is_space c" using hd_dropWhile [of is_space s] by simp
    then have w: "words s = (c # takeWhile (\<lambda>c. \<not> is_space c) cs) # words (dropWhile (\<lambda>c. \<not> is_space c) cs)"
      using words_blank [of s] Cons words_word by simp
    show ?thesis
    proof (cases "n = 15")
      case True
      then show ?thesis using Cons w by (subst split_args.simps) simp
    next
      case False
      then have "split_args (dropWhile (\<lambda>c. \<not> is_space c) cs) (Suc n)
          = (if Suc n + length (words (dropWhile (\<lambda>c. \<not> is_space c) cs)) \<le> 15 then Some (words (dropWhile (\<lambda>c. \<not> is_space c) cs)) else None)"
        using 1(1) [OF Cons] 1(2) by simp
      then show ?thesis using Cons w False by (subst split_args.simps) simp
    qed
  qed
qed

section \<open>Numbers\<close>

text \<open>Eight hexadecimal digits, and a signed decimal number.\<close>

definition hex8 :: "u32 \<Rightarrow> u32 list" where
  "hex8 w = map (\<lambda>i. digit_char (unat w div 16 ^ i mod 16)) (rev [0..<8])"

definition signed_text :: "int \<Rightarrow> u32 list" where
  "signed_text x = (if x < 0 then [uchar CHR ''-''] else []) @ map digit_char (digits_of 10 (nat \<bar>x\<bar>))"

lemma digits_of_padded:
  "n < 16 ^ Suc k \<Longrightarrow> replicate (Suc k - length (digits_of 16 n)) 0 @ digits_of 16 n = map (\<lambda>i. n div 16 ^ i mod 16) (rev [0..<Suc k])"
proof (induction k arbitrary: n)
  case 0
  then show ?case by (subst (1 2) digits_of.simps) simp
next
  case (Suc k)
  have up: "map (\<lambda>i. n div 16 ^ i mod 16) (rev [0..<Suc (Suc k)])
      = map (\<lambda>i. n div 16 div 16 ^ i mod 16) (rev [0..<Suc k]) @ [n mod 16]"
  proof -
    have "n div 16 ^ Suc i mod 16 = n div 16 div 16 ^ i mod 16" for i by (simp only: power_Suc div_mult2_eq)
    then show ?thesis
      by (simp add: upt_conv_Cons [of 0] map_Suc_upt [symmetric] rev_map comp_def del: upt_Suc power_Suc)
  qed
  show ?case
  proof (cases "16 \<le> n")
    case True
    have d: "digits_of 16 n = digits_of 16 (n div 16) @ [n mod 16]" using True by (subst digits_of.simps) simp
    have "n div 16 < 16 ^ Suc k" using Suc.prems by (simp add: div_less_iff_less_mult)
    from Suc.IH [OF this] show ?thesis unfolding up d by simp
  next
    case False
    have "digits_of 16 n = [n mod 16]" using False by (subst digits_of.simps) simp
    moreover have "map (\<lambda>i. n div 16 div 16 ^ i mod 16) (rev [0..<Suc k]) = replicate (Suc k) 0"
      using False by (simp add: map_replicate_const del: upt_Suc)
    ultimately show ?thesis unfolding up by simp
  qed
qed

lemma printnum_hex8: "printnum (unat (w :: u32)) 16 8 0x30 = hex8 w"
proof -
  have "unat w < 16 ^ Suc 7" using unsigned_less [where 'a = nat, of w] by simp
  note pad = digits_of_padded [OF this, THEN arg_cong, of "map digit_char"]
  have "nat (8 - int l) = Suc 7 - l" for l by simp
  moreover have "digit_char 0 = 0x30" by (simp add: digit_char_def uchar_def)
  ultimately show ?thesis using pad unfolding hex8_def printnum_eq by (simp add: comp_def map_replicate)
qed

lemma fmt_signed_text: "fmt_signed fmt_init (scast (w :: u32)) = signed_text (sint w)"
proof -
  have small: "- (2 ^ 31) \<le> sint w" "sint w < 2 ^ 31" using sint_ge [of w] sint_lt [of w] by simp_all
  have w: "(scast w :: u64) = word_of_int (sint w)" by (rule scast_eq)
  have s: "sint (scast w :: u64) = sint w"
    using small unfolding w sint_sbintrunc' by (intro signed_take_bit_int_eq_self) simp_all
  have plain: "printnum n 10 (-1) 0x20 = map digit_char (digits_of 10 n)" for n by (simp add: printnum_eq)
  have u: "unat (word_of_int x :: u64) = nat x" if "0 \<le> x" "x \<le> 2 ^ 31" for x
    using that by (simp add: unsigned_of_int take_bit_int_eq_self)
  have "unat (- (scast w :: u64)) = nat (- sint w)" if "sint w < 0"
    using u [of "- sint w"] that small unfolding w by simp
  moreover have "unat (scast w :: u64) = nat (sint w)" if "\<not> sint w < 0"
    using u [of "sint w"] that small unfolding w by simp
  ultimately show ?thesis
    by (simp add: fmt_signed_def fmt_init_def signed_text_def word_sless_alt s plain)
qed

section \<open>The commands\<close>

definition says :: "string \<Rightarrow> u32 list" where
  "says = map uchar"

text \<open>The addresses in the kernel image, and its size in KB.\<close>

definition kerninfo_text :: "ksyms \<Rightarrow> u32 list" where
  "kerninfo_text k =
     (let both = (\<lambda>name a. says name @ hex8 a @ says '' (virt)  '' @ hex8 (a - KERNBASE) @ says '' (phys)\<newline>'')
      in says ''Special kernel symbols:\<newline>''
         @ says ''  _start                  '' @ hex8 (sym_start k) @ says '' (phys)\<newline>''
         @ both ''  entry  '' (sym_entry k) @ both ''  etext  '' (sym_etext k)
         @ both ''  edata  '' (sym_edata k) @ both ''  end    '' (sym_end k)
         @ says ''Kernel executable memory footprint: ''
         @ signed_text (sint (ROUNDUP (sym_end k - sym_entry k) 1024) div 1024) @ says ''KB\<newline>'')"

text \<open>What a line is answered with; only its first word matters, and how many there are.\<close>

definition answer :: "ksyms \<Rightarrow> string \<Rightarrow> u32 list" where
  "answer k line =
     (if length (words line) > 15 then says ''Too many arguments (max 16)\<newline>''
      else case words line of
             [] \<Rightarrow> []
           | w # ws \<Rightarrow>
               if w = ''help'' then says ''help - Display this list of commands\<newline>''
                                   @ says ''kerninfo - Display information about the kernel\<newline>''
               else if w = ''kerninfo'' then kerninfo_text k
               else says ''Unknown command '' @ [0x27] @ map schar w @ [0x27] @ says ''\<newline>'')"

lemma printnum_eight: "printnum (unat (ucast (w :: u32) :: u64)) 16 8 48 = hex8 w"
proof -
  have "unat (ucast w :: u64) = unat w" 
    unfolding unsigned_ucast_eq using unsigned_less [where 'a = nat, of w] by (simp add: take_bit_nat_eq_self)
  then show ?thesis using printnum_hex8 [of w] by simp
qed

lemma render_kerninfo:
  "render ''Special kernel symbols:\<newline>'' [] = says ''Special kernel symbols:\<newline>''"
  "render ''  _start                  %08x (phys)\<newline>'' [VInt w] = says ''  _start                  '' @ hex8 w @ says '' (phys)\<newline>''"
  "render ''  entry  %08x (virt)  %08x (phys)\<newline>'' [VInt w, VInt v] = says ''  entry  '' @ hex8 w @ says '' (virt)  '' @ hex8 v @ says '' (phys)\<newline>''"
  "render ''  etext  %08x (virt)  %08x (phys)\<newline>'' [VInt w, VInt v] = says ''  etext  '' @ hex8 w @ says '' (virt)  '' @ hex8 v @ says '' (phys)\<newline>''"
  "render ''  edata  %08x (virt)  %08x (phys)\<newline>'' [VInt w, VInt v] = says ''  edata  '' @ hex8 w @ says '' (virt)  '' @ hex8 v @ says '' (phys)\<newline>''"
  "render ''  end    %08x (virt)  %08x (phys)\<newline>'' [VInt w, VInt v] = says ''  end    '' @ hex8 w @ says '' (virt)  '' @ hex8 v @ says '' (phys)\<newline>''"
  by (simp_all add: render_def fmt_eval says_def uchar_def width_digits_def printnum_eight)

lemma render_footprint:
  "render ''Kernel executable memory footprint: %dKB\<newline>'' [VInt w]
     = says ''Kernel executable memory footprint: '' @ signed_text (sint w) @ says ''KB\<newline>''"
  using fmt_signed_text [of w] by (simp add: render_def fmt_eval says_def uchar_def)

lemma fmt_chars_unlimited: "fmt_chars p (- 1) w False = (map schar p, w - int (length p))"
  by (induction p arbitrary: w) simp_all

lemma fmt_string_plain: "fmt_string fmt_init (Some p) = map schar p"
  by (simp add: fmt_string_def fmt_init_def fmt_chars_unlimited)

lemma render_answers:
  "render ''%s'' [VStr (Some w)] = map schar w"
  "render ''%s - %s\<newline>'' [VStr (Some w), VStr (Some v)] = map schar w @ says '' - '' @ map schar v @ says ''\<newline>''"
  "render ''Unknown command '%s'\<newline>'' [VStr (Some w)] = says ''Unknown command '' @ [0x27] @ map schar w @ [0x27] @ says ''\<newline>''"
  "render ''Too many arguments (max %d)\<newline>'' [VInt n] = says ''Too many arguments (max '' @ signed_text (sint n) @ says '')\<newline>''"
  using fmt_string_plain fmt_signed_text [of n] by (simp_all add: render_def fmt_eval says_def uchar_def)

lemma mon_help_run: "run mon_help s = (Ret 0, s\<lparr>console := console s @ says ''help - Display this list of commands\<newline>''
    @ says ''kerninfo - Display information about the kernel\<newline>''\<rparr>)"
proof -
  have "[0..<length commands] = [0, 1]" by (simp add: commands_def upt_rec)
  moreover have "commands ! 0 = (''help'', ''Display this list of commands'', Help)"
    "commands ! 1 = (''kerninfo'', ''Display information about the kernel'', Kerninfo)" by (simp_all add: commands_def)
  ultimately show ?thesis
    by (simp add: mon_help_def prog_simps run_cprintf [OF monitor_formats(4)] render_answers(2))
      (simp add: says_def schar_def uchar_def)
qed

lemma mon_kerninfo_run: "run mon_kerninfo s = (Ret 0, s\<lparr>console := console s @ kerninfo_text (ksym s)\<rparr>)"
proof -
  let ?x = "sint (ROUNDUP (sym_end (ksym s) - sym_entry (ksym s)) 1024) div 1024"
  have "- (2 ^ 31) \<le> ?x" "?x < 2 ^ 31"
    using sint_ge [of "ROUNDUP (sym_end (ksym s) - sym_entry (ksym s)) 1024"] sint_lt [of "ROUNDUP (sym_end (ksym s) - sym_entry (ksym s)) 1024"]
    by simp_all
  then have "sint (word_of_int ?x :: u32) = ?x"
    unfolding sint_sbintrunc' by (intro signed_take_bit_int_eq_self) simp_all
  then show ?thesis
    by (simp add: mon_kerninfo_def prog_simps run_cprintf [OF kerninfo_formats(1)] run_cprintf [OF kerninfo_formats(2)]
        run_cprintf [OF kerninfo_formats(3)] run_cprintf [OF kerninfo_formats(4)] run_cprintf [OF kerninfo_formats(5)]
        run_cprintf [OF kerninfo_formats(6)] run_cprintf [OF kerninfo_formats(7)]
        render_kerninfo render_footprint kerninfo_text_def Let_def)
qed

lemma runcmd_answers: "run (runcmd line) s = (Ret 0, s\<lparr>console := console s @ answer (ksym s) line\<rparr>)"
proof (cases "length (words line) \<le> 15")
  case False
  have "signed_text 16 = says ''16''"
    by (simp add: signed_text_def says_def uchar_def digit_char_def digits_of.simps)
  then show ?thesis
    using False split_args_words [of 0 line]
    by (simp add: runcmd_def answer_def prog_simps run_cprintf [OF monitor_formats(5)] render_answers(4)) (simp add: says_def)
next
  case True
  then have split: "split_args line 0 = Some (words line)" using split_args_words [of 0 line] by simp
  show ?thesis
  proof (cases "words line")
    case Nil
    then show ?thesis using split by (simp add: runcmd_def answer_def prog_simps)
  next
    case (Cons w ws)
    then show ?thesis
      using split True
      by (simp add: runcmd_def answer_def commands_def run_command_def mon_help_run mon_kerninfo_run prog_simps
          run_cprintf [OF monitor_formats(6)] render_answers(3))
  qed
qed

section \<open>Lines\<close>

text \<open>
  A line of plain characters: the buffer takes the first 1023 of them, and only those are echoed.
\<close>

abbreviation (input) plain :: "u32 \<Rightarrow> bool" where
  "plain c \<equiv> 0x20 \<le> c \<and> c < 0x100 \<and> c \<noteq> 0x7F"

definition typed_line :: "u32 list \<Rightarrow> string" where
  "typed_line cs = map (\<lambda>c. char_of (unat (ucast c :: u8))) (take 1023 cs)"

lemma plain_signed:
  assumes "plain c"
  shows "c \<noteq> 0" "\<not> c <s 0" "c \<noteq> 8" "c \<noteq> 127" "0x20 \<le>s c"
proof -
  have u: "32 \<le> uint c" "unat c < 256" using assms by (simp_all add: word_le_def word_less_nat_alt)
  then have "sint c = uint c" using sint_small [of c] by simp
  then show "\<not> c <s 0" "0x20 \<le>s c" using u by (simp_all add: word_sless_alt word_sle_eq)
  show "c \<noteq> 0" "c \<noteq> 8" "c \<noteq> 127" using assms by auto
qed

lemma readline_long:
  assumes "\<forall>c \<in> set cs. plain c" and "length buf \<le> 1023"
  shows "readline_loop (cs @ 13 # rest) buf out
      = (Line (buf @ map (\<lambda>c. char_of (unat (ucast c :: u8))) (take (1023 - length buf) cs)), rest, out @ take (1023 - length buf) cs @ [10])"
  using assms
proof (induction cs arbitrary: buf out)
  case Nil
  then show ?case by (simp add: word_sle_eq word_sless_alt)
next
  case (Cons c cs)
  note p = plain_signed [of c]
  have room: "1023 - length buf = Suc (1023 - Suc (length buf))" if "length buf < 1023" using that by simp
  show ?case
    using Cons p room by (cases "length buf < 1023") auto
qed

lemma readline_waiting:
  assumes "\<forall>c \<in> set cs. plain c" and "length buf \<le> 1023"
  shows "readline_loop cs buf out = (NoInput, [], out @ take (1023 - length buf) cs)"
  using assms
proof (induction cs arbitrary: buf out)
  case Nil
  then show ?case by simp
next
  case (Cons c cs)
  note p = plain_signed [of c]
  have room: "1023 - length buf = Suc (1023 - Suc (length buf))" if "length buf < 1023" using that by simp
  show ?case
    using Cons p room by (cases "length buf < 1023") auto
qed

section \<open>A session\<close>

text \<open>One turn of the loop: the prompt, the echo, and the answer.\<close>

definition turn :: "ksyms \<Rightarrow> u32 list \<Rightarrow> u32 list" where
  "turn k l = says ''K> '' @ take 1023 l @ [10] @ answer k (typed_line l)"

context command_loop
begin

lemma readline_line:
  assumes "\<forall>c \<in> set l. plain c" and "con_in s = l @ 13 # later"
  shows "run (readline_with report (Some ''K> '')) s
    = (Ret (Some (typed_line l)), s\<lparr>con_in := later, console := console s @ says ''K> '' @ take 1023 l @ [10]\<rparr>)"
proof -
  have "map schar ''K> '' = says ''K> ''" by (simp add: says_def schar_def uchar_def)
  then show ?thesis
    using readline_long [OF assms(1), of "[]" later "[]"] assms(2)
    by (simp add: readline_with_def prog_simps run_cprintf [OF monitor_formats(3)] render_answers(1) typed_line_def)
qed

lemma readline_no_line:
  assumes "\<forall>c \<in> set l. plain c" and "con_in s = l"
  shows "run (readline_with report (Some ''K> '')) s
    = (Stop Spinning, s\<lparr>con_in := [], console := console s @ says ''K> '' @ take 1023 l\<rparr>)"
proof -
  have "map schar ''K> '' = says ''K> ''" by (simp add: says_def schar_def uchar_def)
  then show ?thesis
    using readline_waiting [OF assms(1), of "[]" "[]"] assms(2)
    by (simp add: readline_with_def prog_simps run_cprintf [OF monitor_formats(3)] render_answers(1))
qed

lemma loop_answers:
  assumes cmd: "\<And>b s. run (cmd b) s = (Ret 0, s\<lparr>console := console s @ answer (ksym s) b\<rparr>)"
    and "con_in s = concat (map (\<lambda>l. l @ [13]) ls) @ rest" and "\<forall>c \<in> set (concat ls @ rest). plain c" and "length ls < n"
  shows "run (loop n) s = (Stop Spinning,
     s\<lparr>con_in := [], console := console s @ concat (map (turn (ksym s)) ls) @ says ''K> '' @ take 1023 rest\<rparr>)"
  using assms(2-4)
proof (induction ls arbitrary: s n)
  case Nil
  then obtain m where "n = Suc m" by (cases n) auto
  then show ?case using readline_no_line [of rest s] Nil by (simp add: loop prog_simps)
next
  case (Cons l ls)
  then obtain m where n: "n = Suc m" "length ls < m" by (cases n) auto
  let ?more = "concat (map (\<lambda>l. l @ [13]) ls) @ rest"
  let ?t = "s\<lparr>con_in := ?more, console := console s @ turn (ksym s) l\<rparr>"
  have "run (readline_with report (Some ''K> '')) s
    = (Ret (Some (typed_line l)), s\<lparr>con_in := ?more, console := console s @ says ''K> '' @ take 1023 l @ [10]\<rparr>)"
    using Cons.prems by (intro readline_line) auto
  then have step: "run (loop n) s = run (loop m) ?t"
    by (simp add: n(1) loop prog_simps cmd turn_def)
  have "run (loop m) ?t = (Stop Spinning,
     ?t\<lparr>con_in := [], console := console ?t @ concat (map (turn (ksym ?t)) ls) @ says ''K> '' @ take 1023 rest\<rparr>)"
    using Cons.prems n(2) by (intro Cons.IH) auto
  then show ?case by (simp add: step)
qed

end

definition greeting :: "u32 list" where
  "greeting = says ''Welcome to the JOS kernel monitor!\<newline>'' @ says ''Type '' @ [0x27] @ says ''help'' @ [0x27]
     @ says '' for a list of commands.\<newline>''"

lemma greeting_run:
  "run (printP ''Welcome to the JOS kernel monitor!\<newline>'' []) s
    = (Ret (), s\<lparr>console := console s @ render ''Welcome to the JOS kernel monitor!\<newline>'' []\<rparr>)"
  "run (printP ''Type 'help' for a list of commands.\<newline>'' []) (s\<lparr>console := console s @ render ''Welcome to the JOS kernel monitor!\<newline>'' []\<rparr>)
    = (Ret (), s\<lparr>console := console s @ greeting\<rparr>)"
proof -
  have "render ''Welcome to the JOS kernel monitor!\<newline>'' [] @ render ''Type 'help' for a list of commands.\<newline>'' [] = greeting"
    by (simp add: render_def fmt_eval greeting_def says_def uchar_def)
  then show "run (printP ''Type 'help' for a list of commands.\<newline>'' []) (s\<lparr>console := console s @ render ''Welcome to the JOS kernel monitor!\<newline>'' []\<rparr>)
    = (Ret (), s\<lparr>console := console s @ greeting\<rparr>)"
    by (simp add: prog_simps run_cprintf [OF monitor_formats(2)])
qed (simp add: prog_simps run_cprintf [OF monitor_formats(1)])

lemma monitor_session:
  assumes "con_in s = concat (map (\<lambda>l. l @ [13]) ls) @ rest" and "\<forall>c \<in> set (concat ls @ rest). plain c"
  shows "\<exists>frame. (case p of None \<Rightarrow> frame = []
        | Some q \<Rightarrow> run (print_trapframe q) (s\<lparr>console := console s @ greeting\<rparr>) = (Ret (), s\<lparr>console := console s @ greeting @ frame\<rparr>))
    \<and> run (monitor p) s = (Stop Spinning, s\<lparr>con_in := [],
        console := console s @ greeting @ frame @ concat (map (turn (ksym s)) ls) @ says ''K> '' @ take 1023 rest\<rparr>)"
proof -
  let ?u = "s\<lparr>console := console s @ greeting\<rparr>"
  have "\<exists>frame. (case p of None \<Rightarrow> frame = [] | Some q \<Rightarrow> run (print_trapframe q) ?u = (Ret (), s\<lparr>console := console s @ greeting @ frame\<rparr>))"
  proof (cases p)
    case None
    then show ?thesis by simp
  next
    case (Some q)
    obtain v out where "run (print_trapframe q) ?u = (Ret v, ?u\<lparr>console := console ?u @ out\<rparr>)" by (rule printsE [OF prints_trapframe])
    then show ?thesis using Some by auto
  qed
  then obtain frame where f: "case p of None \<Rightarrow> frame = [] | Some q \<Rightarrow> run (print_trapframe q) ?u = (Ret (), s\<lparr>console := console s @ greeting @ frame\<rparr>)" ..
  let ?v = "s\<lparr>console := console s @ greeting @ frame\<rparr>"
  have "length ls \<le> length (concat (map (\<lambda>l. l @ [13 :: u32]) ls))" by (induction ls) simp_all
  then have l: "run (monitor_loop (Suc (length (con_in ?v)))) ?v = (Stop Spinning,
     ?v\<lparr>con_in := [], console := console ?v @ concat (map (turn (ksym ?v)) ls) @ says ''K> '' @ take 1023 rest\<rparr>)"
    using assms by (intro lab4_monitor.loop_answers runcmd_answers) simp_all
  have c: "run (case p of None \<Rightarrow> ret () | Some q \<Rightarrow> print_trapframe q) ?u = (Ret (), ?v)"
    using f by (cases p) (simp_all add: prog_simps)
  have "run (monitor p) s = run (monitor_loop (Suc (length (con_in ?v)))) ?v"
    unfolding monitor_def run_thenP_Ret [OF greeting_run(1)] run_thenP_Ret [OF greeting_run(2)] run_thenP_Ret [OF c]
    by (simp only: run_bindP run_gets prod.case outcome.case)
  then show ?thesis using f l by auto
qed

end
