(* ===== verification/Lab2Props.thy ===== *)
theory Lab2Props
  imports Lab2Kernel Lab3Props MonitorSpec
begin

text \<open>
  The properties of the kernel of \<^verbatim>\<open>Project2\<close>, which sets up memory and goes to the monitor, and of the
  monitor itself. The machine of the witnesses is that of \<open>Lab3Props\<close>, with a line typed in.
\<close>

text \<open>C7. The kernel of Project2 comes up. On a machine with 16 to 256 MB of memory whose kernel image ends
  below 3 MB, with cleared globals, \<open>mem_init\<close> passes all its self tests, and the kernel ends up at the
  monitor's prompt, where it has read everything typed and waits for more. It runs on its own page
  directory, which maps, apart from the slot of \<^verbatim>\<open>UVPT\<close>, exactly what \<^verbatim>\<open>inc/memlayout.h\<close> says; every usable
  page is free or a page table.\<close>

theorem lab2_reaches_prompt:
  assumes "machine_fits cmos (ksym (mc_kernel m))" and "bss_clear (mc_kernel m)" and "0x80000000 \<notin> set (con_in (mc_kernel m))"
  shows "\<exists>t k xs. run (i386_init_lab2 cmos) m = (Stop Spinning, t) \<and> mc_kernel t = k \<and> con_in k = []
    \<and> npages k = total_pages cmos \<and> cr3 k = page2pa (kern_pgdir k)
    \<and> free_pages k xs \<and> usable cmos (nextfree k) = set xs \<union> tables k (kern_pgdir k)
    \<and> (\<forall>va. unat (PDX va) \<noteq> unat (PDX UVPT) \<longrightarrow>
         entry k (kern_pgdir k) va = memory_map (pages_kva k - KERNBASE) None (sym_bootstack (ksym k) - KERNBASE) va)"
proof -
  obtain t where t: "run (i386_init_lab2 cmos) m = (Stop Spinning, t)" "at_prompt cmos (mc_kernel m) (mc_kernel t)"
    using machine_lab2_run [OF assms] by blast
  then obtain xs where "free_pages (mc_kernel t) xs" "usable cmos (nextfree (mc_kernel t)) = set xs \<union> tables (mc_kernel t) (kern_pgdir (mc_kernel t))"
    unfolding at_prompt_def by blast
  then show ?thesis
    using t unfolding UVPT_index at_prompt_def kernel_space_def
    by (intro exI [of _ t] exI [of _ "mc_kernel t"] exI [of _ xs]) simp
qed

text \<open>A machine on which \<^verbatim>\<open>help\<close> has been typed.\<close>

definition sample_typed :: kstate where
  "sample_typed = sample_boot\<lparr>con_in := [0x68, 0x65, 0x6C, 0x70, 13]\<rparr>"

lemma sample_typed_fits: "machine_fits sample_cmos (ksym sample_typed)" "bss_clear sample_typed"
  using sample_fits by (simp_all add: sample_typed_def bss_clear_def)

theorem lab2_reaches_prompt_witness:
  "\<forall>d. \<exists>t. run (i386_init_lab2 sample_cmos) \<lparr>mc_kernel = sample_typed, mc_devices = d, mpentry_kstack = 0\<rparr> = (Stop Spinning, t)
    \<and> npages (mc_kernel t) = 32768 \<and> entry (mc_kernel t) (kern_pgdir (mc_kernel t)) 0xF0123456 = 0x123003"
proof
  fix d
  let ?m = "\<lparr>mc_kernel = sample_typed, mc_devices = d, mpentry_kstack = 0\<rparr>"
  obtain t where t: "run (i386_init_lab2 sample_cmos) ?m = (Stop Spinning, t)" "npages (mc_kernel t) = total_pages sample_cmos"
    and e: "\<And>va. unat (PDX va) \<noteq> unat (PDX UVPT) \<Longrightarrow> entry (mc_kernel t) (kern_pgdir (mc_kernel t)) va
        = memory_map (pages_kva (mc_kernel t) - KERNBASE) None (sym_bootstack (ksym (mc_kernel t)) - KERNBASE) va"
    using lab2_reaches_prompt [of sample_cmos ?m] sample_typed_fits by (auto simp: sample_typed_def)
  have "entry (mc_kernel t) (kern_pgdir (mc_kernel t)) 0xF0123456 = 0x123003"
    using e [of "0xF0123456"] by (simp add: PDX_def memory_map_def unat_PGNUM region_entry_def)
  then show "\<exists>t. run (i386_init_lab2 sample_cmos) ?m = (Stop Spinning, t)
    \<and> npages (mc_kernel t) = 32768 \<and> entry (mc_kernel t) (kern_pgdir (mc_kernel t)) 0xF0123456 = 0x123003"
    using t sample_cmos_pages by auto
qed

text \<open>C8. The monitor answers every line. Called with or without a trap frame, which it prints after the greeting,
  and given any number of lines of any length, of plain characters and ended by a return, it prints for each
  the prompt, the echo of its first 1023 characters, which are all that reach the buffer, and the answer:
  nothing for a blank line, the list of commands for \<^verbatim>\<open>help\<close>, the symbols for \<^verbatim>\<open>kerninfo\<close>, a complaint that
  names the first word otherwise, and a complaint about the number of arguments when there are more than 15
  words. Then it prints the prompt again, echoes what has been typed of the next line, and waits; it changes
  nothing but the input it has read and what it has printed.\<close>

theorem monitor_answers:
  assumes "con_in s = concat (map (\<lambda>l. l @ [13]) ls) @ rest"
    and "\<forall>c \<in> set (concat ls @ rest). 0x20 \<le> c \<and> c < 0x100 \<and> c \<noteq> 0x7F"
  shows "\<exists>frame. (case p of None \<Rightarrow> frame = []
        | Some q \<Rightarrow> run (print_trapframe q) (s\<lparr>console := console s @ greeting\<rparr>) = (Ret (), s\<lparr>console := console s @ greeting @ frame\<rparr>))
    \<and> run (monitor p) s = (Stop Spinning, s\<lparr>con_in := [],
        console := console s @ greeting @ frame
          @ concat (map (\<lambda>l. says ''K> '' @ take 1023 l @ [10] @ answer (ksym s) (typed_line l)) ls)
          @ says ''K> '' @ take 1023 rest\<rparr>)"
  using monitor_session [OF assms, of p] unfolding turn_def .

theorem monitor_answers_witness:
  "run (monitor None) sample_typed = (Stop Spinning, sample_typed\<lparr>con_in := [], console := console sample_typed @ greeting
     @ says ''K> help\<newline>help - Display this list of commands\<newline>kerninfo - Display information about the kernel\<newline>K> ''\<rparr>)"
proof -
  have "typed_line [0x68, 0x65, 0x6C, 0x70] = ''help''" by (simp add: typed_line_def char_of_def bit_0)
  then have a: "answer k (typed_line [0x68, 0x65, 0x6C, 0x70])
      = says ''help - Display this list of commands\<newline>'' @ says ''kerninfo - Display information about the kernel\<newline>''" for k
    by (simp add: answer_def words_def is_space_def)
  have "con_in sample_typed = concat (map (\<lambda>l. l @ [13]) [[0x68, 0x65, 0x6C, 0x70]]) @ []" by (simp add: sample_typed_def)
  from monitor_answers [OF this, of None] show ?thesis
    by (simp add: a) (simp add: says_def uchar_def)
qed

end
