(* ===== verification/UserLib.thy ===== *)
theory UserLib
  imports Syscall
begin

text \<open>
  The user library: the system call stubs (\<^verbatim>\<open>lib/syscall.c\<close>, \<^verbatim>\<open>inc/lib.h\<close>), console and
  formatted output (\<^verbatim>\<open>lib/console.c\<close>, \<^verbatim>\<open>lib/printf.c\<close>), start and end of a program
  (\<^verbatim>\<open>lib/libmain.c\<close>, \<^verbatim>\<open>lib/exit.c\<close>, \<^verbatim>\<open>lib/panic.c\<close>), and the parts of the last assignment that
  are stubs in this tree (\<^verbatim>\<open>lib/fork.c\<close>, \<^verbatim>\<open>lib/ipc.c\<close>, \<^verbatim>\<open>lib/pgfault.c\<close>).

  A program enters the kernel through \<open>sys\<close>, the effect of \<^verbatim>\<open>int $T_SYSCALL\<close> with the number in
  \<^verbatim>\<open>eax\<close> and five arguments; the kernel's own handler is \<open>syscall\<close>. Objects on the user's stack
  are at addresses that are arguments; a store of user code is translated as the kernel's are
  (\<open>VMem\<close>), without a look at the user bit.
\<close>

type_synonym sysfun = "u32 \<Rightarrow> u32 \<Rightarrow> u32 \<Rightarrow> u32 \<Rightarrow> u32 \<Rightarrow> u32 \<Rightarrow> u32 km"

abbreviation (input) SYS_page_alloc :: u32 where "SYS_page_alloc \<equiv> 4"
abbreviation (input) SYS_page_map :: u32 where "SYS_page_map \<equiv> 5"
abbreviation (input) SYS_page_unmap :: u32 where "SYS_page_unmap \<equiv> 6"
abbreviation (input) SYS_exofork :: u32 where "SYS_exofork \<equiv> 7"
abbreviation (input) SYS_env_set_status :: u32 where "SYS_env_set_status \<equiv> 8"
abbreviation (input) SYS_env_set_pgfault_upcall :: u32 where "SYS_env_set_pgfault_upcall \<equiv> 9"
abbreviation (input) SYS_yield :: u32 where "SYS_yield \<equiv> 10"
abbreviation (input) SYS_ipc_try_send :: u32 where "SYS_ipc_try_send \<equiv> 11"
abbreviation (input) SYS_ipc_recv :: u32 where "SYS_ipc_recv \<equiv> 12"

section \<open>System call stubs\<close>

definition usyscall :: "sysfun \<Rightarrow> u32 \<Rightarrow> bool \<Rightarrow> u32 \<Rightarrow> u32 \<Rightarrow> u32 \<Rightarrow> u32 \<Rightarrow> u32 \<Rightarrow> u32 km" where
  "usyscall sys num check a1 a2 a3 a4 a5 =
     bindP (sys num a1 a2 a3 a4 a5) (\<lambda>r.
     if check \<and> 0 <s r then stop (Panic ''syscall %d returned %d (> 0)'') else ret r)"

definition usys_cputs :: "sysfun \<Rightarrow> u32 \<Rightarrow> u32 \<Rightarrow> unit km" where
  "usys_cputs sys str len = bindP (usyscall sys SYS_cputs False str len 0 0 0) (\<lambda>_. ret ())"

definition usys_cgetc :: "sysfun \<Rightarrow> u32 km" where
  "usys_cgetc sys = usyscall sys SYS_cgetc False 0 0 0 0 0"

definition usys_env_destroy :: "sysfun \<Rightarrow> u32 \<Rightarrow> u32 km" where
  "usys_env_destroy sys envid = usyscall sys SYS_env_destroy True envid 0 0 0 0"

definition usys_getenvid :: "sysfun \<Rightarrow> u32 km" where
  "usys_getenvid sys = usyscall sys SYS_getenvid False 0 0 0 0 0"

definition usys_yield :: "sysfun \<Rightarrow> unit km" where
  "usys_yield sys = bindP (usyscall sys SYS_yield False 0 0 0 0 0) (\<lambda>_. ret ())"

definition usys_page_alloc :: "sysfun \<Rightarrow> u32 \<Rightarrow> u32 \<Rightarrow> u32 \<Rightarrow> u32 km" where
  "usys_page_alloc sys envid va perm = usyscall sys SYS_page_alloc True envid va perm 0 0"

definition usys_page_map :: "sysfun \<Rightarrow> u32 \<Rightarrow> u32 \<Rightarrow> u32 \<Rightarrow> u32 \<Rightarrow> u32 \<Rightarrow> u32 km" where
  "usys_page_map sys srcenv srcva dstenv dstva perm =
     usyscall sys SYS_page_map True srcenv srcva dstenv dstva perm"

definition usys_page_unmap :: "sysfun \<Rightarrow> u32 \<Rightarrow> u32 \<Rightarrow> u32 km" where
  "usys_page_unmap sys envid va = usyscall sys SYS_page_unmap True envid va 0 0 0"

text \<open>Inlined in \<^verbatim>\<open>inc/lib.h\<close>, without the check.\<close>

definition usys_exofork :: "sysfun \<Rightarrow> u32 km" where
  "usys_exofork sys = sys SYS_exofork 0 0 0 0 0"

definition usys_env_set_status :: "sysfun \<Rightarrow> u32 \<Rightarrow> u32 \<Rightarrow> u32 km" where
  "usys_env_set_status sys envid status = usyscall sys SYS_env_set_status True envid status 0 0 0"

definition usys_env_set_pgfault_upcall :: "sysfun \<Rightarrow> u32 \<Rightarrow> u32 \<Rightarrow> u32 km" where
  "usys_env_set_pgfault_upcall sys envid upcall =
     usyscall sys SYS_env_set_pgfault_upcall True envid upcall 0 0 0"

definition usys_ipc_try_send :: "sysfun \<Rightarrow> u32 \<Rightarrow> u32 \<Rightarrow> u32 \<Rightarrow> u32 \<Rightarrow> u32 km" where
  "usys_ipc_try_send sys envid value srcva perm =
     usyscall sys SYS_ipc_try_send False envid value srcva perm 0"

definition usys_ipc_recv :: "sysfun \<Rightarrow> u32 \<Rightarrow> u32 km" where
  "usys_ipc_recv sys dstva = usyscall sys SYS_ipc_recv True dstva 0 0 0 0"

section \<open>Console\<close>

text \<open>The character is stored at \<open>cp\<close>, the address of the local \<^verbatim>\<open>char c\<close>.\<close>

definition ucputchar :: "sysfun \<Rightarrow> u32 \<Rightarrow> u32 \<Rightarrow> unit km" where
  "ucputchar sys cp ch = thenP (store8 cp (ucast ch)) (usys_cputs sys cp 1)"

primrec ugetchar :: "nat \<Rightarrow> sysfun \<Rightarrow> u32 km" where
  "ugetchar 0 sys = stop Spinning"
| "ugetchar (Suc fuel) sys =
     bindP (usys_cgetc sys) (\<lambda>r. if r = 0 then thenP (usys_yield sys) (ugetchar fuel sys) else ret r)"

text \<open>\<open>buf\<close> is the address of \<^verbatim>\<open>b.buf\<close>; every chunk is stored there and handed to the kernel.\<close>

definition put_chunk :: "sysfun \<Rightarrow> u32 \<Rightarrow> u32 list \<Rightarrow> unit km" where
  "put_chunk sys buf chs =
     thenP (forP [0..<length chs] (\<lambda>i. store8 (buf + of_nat i) (ucast (chs ! i))))
     (usys_cputs sys buf (of_nat (length chs)))"

definition ucprintf :: "sysfun \<Rightarrow> u32 \<Rightarrow> string \<Rightarrow> vararg list \<Rightarrow> nat km" where
  "ucprintf sys buf fmt ap =
     (case uvcprintf fmt ap of
        None \<Rightarrow> stop BadAccess
      | Some (n, chunks) \<Rightarrow> thenP (forP chunks (put_chunk sys buf)) (ret n))"

section \<open>Programs\<close>

definition uexit :: "sysfun \<Rightarrow> unit km" where
  "uexit sys = bindP (usys_env_destroy sys 0) (\<lambda>_. ret ())"

text \<open>\<^verbatim>\<open>umain\<close> is given \<^verbatim>\<open>thisenv\<close>, as an index of \<open>envs\<close>, and \<^verbatim>\<open>binaryname\<close>.\<close>

definition libmain :: "sysfun \<Rightarrow> (nat \<Rightarrow> string \<Rightarrow> unit km) \<Rightarrow> nat \<Rightarrow> string list \<Rightarrow> unit km" where
  "libmain sys umain argc argv =
     bindP (usys_getenvid sys) (\<lambda>current_env.
     let thisenv = ENVX current_env;
         binaryname = (if argc > 0 then argv ! 0 else ''<unknown>'')
     in thenP (umain thisenv binaryname) (uexit sys))"

text \<open>The message is printed, then the breakpoint trap is taken again and again.\<close>

definition upanic :: "sysfun \<Rightarrow> u32 \<Rightarrow> string \<Rightarrow> string \<Rightarrow> u32 \<Rightarrow> string \<Rightarrow> vararg list \<Rightarrow> unit km" where
  "upanic sys buf binaryname file line fmt ap =
     bindP (usys_getenvid sys) (\<lambda>i.
     bindP (ucprintf sys buf ''[%08x] user panic in %s at %s:%d: ''
              [VInt i, VStr (Some binaryname), VStr (Some file), VInt line]) (\<lambda>_.
     bindP (ucprintf sys buf fmt ap) (\<lambda>_.
     bindP (ucprintf sys buf ''\<newline>'' []) (\<lambda>_. stop (Panic fmt)))))"

text \<open>The first environment of a type, free slots included.\<close>

definition ipc_find_env :: "EnvType \<Rightarrow> kstate \<Rightarrow> u32" where
  "ipc_find_env type s =
     (case find (\<lambda>i. env_type (envs s i) = type) [0..<NENV] of None \<Rightarrow> 0 | Some i \<Rightarrow> env_id (envs s i))"

section \<open>Stubs of the last assignment\<close>

definition ipc_recv :: "u32 \<Rightarrow> u32 \<Rightarrow> u32 \<Rightarrow> u32 km" where
  "ipc_recv from_env_store pg perm_store = stop (Panic ''ipc_recv not implemented'')"

definition ipc_send :: "u32 \<Rightarrow> u32 \<Rightarrow> u32 \<Rightarrow> u32 \<Rightarrow> unit km" where
  "ipc_send to_env val pg perm = stop (Panic ''ipc_send not implemented'')"

definition pgfault :: "u32 \<Rightarrow> u32 \<Rightarrow> unit km" where
  "pgfault addr err = stop (Panic ''pgfault not implemented'')"

definition duppage :: "u32 \<Rightarrow> u32 \<Rightarrow> u32 km" where
  "duppage envid pn = stop (Panic ''duppage not implemented'')"

definition fork :: "u32 km" where
  "fork = stop (Panic ''fork not implemented'')"

definition sfork :: "u32 km" where
  "sfork = stop (Panic ''sfork not implemented'')"

text \<open>The handler registered before, zero when there is none, and the one registered now.\<close>

definition set_pgfault_handler :: "u32 \<Rightarrow> u32 \<Rightarrow> u32 km" where
  "set_pgfault_handler old handler =
     (if old = 0 then stop (Panic ''set_pgfault_handler not implemented'') else ret handler)"

end
