(* ===== verification/UserProgs.thy ===== *)
theory UserProgs
  imports UserLib "HOL-Library.Signed_Division"
begin

text \<open>
  The test programs of \<^verbatim>\<open>user/\<close>. Those of \<^verbatim>\<open>project3/user\<close> have the same text.

  What a program runs on is a record: \<open>u_sys\<close> is the entry to the kernel by \<^verbatim>\<open>int $T_SYSCALL\<close>,
  \<open>u_trap n va\<close> any other trap (number \<open>n\<close>; \<open>va\<close> is the address of a page fault, zero otherwise),
  \<open>u_buf\<close> the address of the print buffer on the stack, \<open>u_this\<close> the index of \<^verbatim>\<open>thisenv\<close>
  and \<open>u_name\<close> is \<^verbatim>\<open>binaryname\<close>. Addresses that the linker or the compiler chooses are arguments. Endless
  loops have fuel. A program whose access the hardware refuses takes the page fault and does not go on: no
  kernel of this tree returns from a page fault of a program.
\<close>

record runtime =
  u_sys :: sysfun
  u_trap :: "u32 \<Rightarrow> u32 \<Rightarrow> unit km"
  u_buf :: u32
  u_this :: nat
  u_name :: string

section \<open>Memory of a program\<close>

text \<open>In user mode both levels need the user bit, and for a write the writable bit whatever \<^verbatim>\<open>CR0\<close> says.\<close>

definition user_may :: "bool \<Rightarrow> u32 \<Rightarrow> kstate \<Rightarrow> bool" where
  "user_may write va s \<longleftrightarrow>
     (let pde = pmem s (unat (PGNUM (cr3 s))) (unat (PDX va));
          pte = pmem s (unat (PGNUM pde)) (unat (PTX va));
          need = PTE_P OR PTE_U OR (if write then PTE_W else 0)
      in pde AND need = need \<and> pte AND need = need)"

definition uaccess :: "runtime \<Rightarrow> bool \<Rightarrow> nat \<Rightarrow> u32 \<Rightarrow> unit km" where
  "uaccess u write n va =
     bindP (gets (\<lambda>s. find (\<lambda>i. \<not> user_may write (va + of_nat i) s) [0..<n])) (\<lambda>bad.
     case bad of None \<Rightarrow> ret ()
     | Some i \<Rightarrow> thenP (u_trap u 14 (va + of_nat i)) (stop BadAccess))"

definition uload8 :: "runtime \<Rightarrow> u32 \<Rightarrow> u8 km" where
  "uload8 u va = thenP (uaccess u False 1 va) (load8 va)"

definition uload32 :: "runtime \<Rightarrow> u32 \<Rightarrow> u32 km" where
  "uload32 u va = thenP (uaccess u False 4 va) (load32 va)"

definition ustore8 :: "runtime \<Rightarrow> u32 \<Rightarrow> u8 \<Rightarrow> unit km" where
  "ustore8 u va b = thenP (uaccess u True 1 va) (store8 va b)"

definition ustore32 :: "runtime \<Rightarrow> u32 \<Rightarrow> u32 \<Rightarrow> unit km" where
  "ustore32 u va w = thenP (uaccess u True 4 va) (store32 va w)"

definition ustore_bytes :: "runtime \<Rightarrow> u32 \<Rightarrow> u8 list \<Rightarrow> unit km" where
  "ustore_bytes u va bs = forP [0..<length bs] (\<lambda>i. ustore8 u (va + of_nat i) (bs ! i))"

definition ucopy :: "runtime \<Rightarrow> u32 \<Rightarrow> u32 \<Rightarrow> nat \<Rightarrow> unit km" where
  "ucopy u dst src n = forP [0..<n] (\<lambda>i. bindP (uload8 u (src + of_nat i)) (\<lambda>b. ustore8 u (dst + of_nat i) b))"

text \<open>The string at an address, up to its zero byte.\<close>

primrec uload_str :: "nat \<Rightarrow> runtime \<Rightarrow> u32 \<Rightarrow> string km" where
  "uload_str 0 u va = stop Spinning"
| "uload_str (Suc fuel) u va =
     bindP (uload8 u va) (\<lambda>c. if c = 0 then ret []
     else bindP (uload_str fuel u (va + 1)) (\<lambda>cs. ret (char_of (unat c) # cs)))"

text \<open>\<^verbatim>\<open>strncmp(va, str, strlen(str)) == 0\<close>: the loop ends at the first byte that differs.\<close>

primrec ustarts_with :: "runtime \<Rightarrow> u32 \<Rightarrow> string \<Rightarrow> bool km" where
  "ustarts_with u va [] = ret True"
| "ustarts_with u va (c # cs) =
     bindP (uload8 u va) (\<lambda>b. if b = of_nat (of_char c) then ustarts_with u (va + 1) cs else ret False)"

text \<open>The bytes of a string constant, with its zero.\<close>

definition cbytes :: "string \<Rightarrow> u8 list" where
  "cbytes str = map (\<lambda>c. of_nat (of_char c)) str @ [0]"

definition uprint :: "runtime \<Rightarrow> string \<Rightarrow> vararg list \<Rightarrow> unit km" where
  "uprint u fmt ap = bindP (ucprintf (u_sys u) (u_buf u) fmt ap) (\<lambda>_. ret ())"

definition upanic_at :: "runtime \<Rightarrow> string \<Rightarrow> u32 \<Rightarrow> string \<Rightarrow> vararg list \<Rightarrow> unit km" where
  "upanic_at u file line fmt ap = upanic (u_sys u) (u_buf u) (u_name u) file line fmt ap"

text \<open>Fields of \<^verbatim>\<open>*thisenv\<close>, which the program reads through the mapping of \<open>envs\<close> at \<^verbatim>\<open>UENVS\<close>.\<close>

definition this_id :: "runtime \<Rightarrow> u32 km" where
  "this_id u = gets (\<lambda>s. env_id (envs s (u_this u)))"

definition this_cpunum :: "runtime \<Rightarrow> u32 km" where
  "this_cpunum u = gets (\<lambda>s. env_cpunum (envs s (u_this u)))"

abbreviation (input) PTE_PUW :: u32 where "PTE_PUW \<equiv> PTE_P OR PTE_U OR PTE_W"

section \<open>Printing\<close>

definition hello :: "runtime \<Rightarrow> unit km" where
  "hello u =
     thenP (uprint u ''hello, world\<newline>'' [])
     (bindP (this_id u) (\<lambda>i. uprint u ''i am environment %08x\<newline>'' [VInt i]))"

definition yield_test :: "runtime \<Rightarrow> unit km" where
  "yield_test u =
     thenP (bindP (this_id u) (\<lambda>e. uprint u ''Hello, I am environment %08x.\<newline>'' [VInt e]))
     (thenP (forP [0..<5] (\<lambda>i.
        thenP (usys_yield (u_sys u))
        (bindP (this_id u) (\<lambda>e. uprint u ''Back in environment %08x, iteration %d.\<newline>'' [VInt e, VInt (of_nat i)]))))
     (bindP (this_id u) (\<lambda>e. uprint u ''All done in environment %08x.\<newline>'' [VInt e])))"

text \<open>The name it gives itself is only read by \<open>upanic\<close>, which it never calls.\<close>

primrec idle :: "nat \<Rightarrow> runtime \<Rightarrow> unit km" where
  "idle 0 u = stop Spinning"
| "idle (Suc fuel) u = thenP (usys_yield (u_sys u)) (idle fuel u)"

section \<open>Programs that do what they may not\<close>

definition buggyhello :: "runtime \<Rightarrow> unit km" where
  "buggyhello u = usys_cputs (u_sys u) 1 1"

text \<open>The argument is the value of the pointer \<^verbatim>\<open>hello\<close>.\<close>

definition buggyhello2 :: "runtime \<Rightarrow> u32 \<Rightarrow> unit km" where
  "buggyhello2 u str = usys_cputs (u_sys u) str (1024 * 1024)"

definition evilhello :: "runtime \<Rightarrow> unit km" where
  "evilhello u = usys_cputs (u_sys u) 0xf010000c 100"

definition faultread :: "runtime \<Rightarrow> unit km" where
  "faultread u = bindP (uload32 u 0) (\<lambda>w. uprint u ''I read %08x from location 0!\<newline>'' [VInt w])"

definition faultreadkernel :: "runtime \<Rightarrow> unit km" where
  "faultreadkernel u = bindP (uload32 u 0xf0100000) (\<lambda>w. uprint u ''I read %08x from location 0xf0100000!\<newline>'' [VInt w])"

definition faultwrite :: "runtime \<Rightarrow> unit km" where
  "faultwrite u = ustore32 u 0 0"

definition faultwritekernel :: "runtime \<Rightarrow> unit km" where
  "faultwritekernel u = ustore32 u 0xf0100000 0"

text \<open>
  A software interrupt needs a gate of privilege level 3; through any other it is a general
  protection fault. So is a load of the selector of the TSS into \<^verbatim>\<open>ds\<close>.
\<close>

definition user_int :: "runtime \<Rightarrow> nat \<Rightarrow> unit km" where
  "user_int u n = bindP (gets (\<lambda>s. gd_dpl (idt s n))) (\<lambda>dpl. u_trap u (if dpl = 3 then of_nat n else 13) 0)"

definition softint :: "runtime \<Rightarrow> unit km" where
  "softint u = user_int u 14"

definition breakpoint :: "runtime \<Rightarrow> unit km" where
  "breakpoint u = user_int u 3"

definition badsegment :: "runtime \<Rightarrow> unit km" where
  "badsegment u = u_trap u 13 0"

text \<open>\<open>zero\<close> is the address of the global of that name.\<close>

definition udiv :: "runtime \<Rightarrow> u32 \<Rightarrow> u32 \<Rightarrow> u32 km" where
  "udiv u a b =
     (if b = 0 \<or> a = 0x80000000 \<and> b = -1 then thenP (u_trap u 0 0) (stop BadAccess) else ret (word_of_int (sint a sdiv sint b)))"

definition umodulo :: "runtime \<Rightarrow> u32 \<Rightarrow> u32 \<Rightarrow> u32 km" where
  "umodulo u a b =
     (if b = 0 \<or> a = 0x80000000 \<and> b = -1 then thenP (u_trap u 0 0) (stop BadAccess) else ret (word_of_int (sint a smod sint b)))"

definition divzero :: "runtime \<Rightarrow> u32 \<Rightarrow> unit km" where
  "divzero u zero =
     thenP (ustore32 u zero 0)
     (bindP (uload32 u zero) (\<lambda>z. bindP (udiv u 1 z) (\<lambda>q. uprint u ''1/0 is %08x!\<newline>'' [VInt q])))"

abbreviation (input) ARRAYSIZE :: nat where "ARRAYSIZE \<equiv> 1024 * 1024"

definition testbss :: "runtime \<Rightarrow> u32 \<Rightarrow> unit km" where
  "testbss u bigarray =
     (let slot = (\<lambda>i. bigarray + 4 * of_nat i)
      in thenP (uprint u ''Making sure bss works right...\<newline>'' [])
         (thenP (forP [0..<ARRAYSIZE] (\<lambda>i. bindP (uload32 u (slot i)) (\<lambda>w.
            if w \<noteq> 0 then upanic_at u ''user/testbss.c'' 17 ''bigarray[%d] isn't cleared!\<newline>'' [VInt (of_nat i)] else ret ())))
         (thenP (forP [0..<ARRAYSIZE] (\<lambda>i. ustore32 u (slot i) (of_nat i)))
         (thenP (forP [0..<ARRAYSIZE] (\<lambda>i. bindP (uload32 u (slot i)) (\<lambda>w.
            if w \<noteq> of_nat i then upanic_at u ''user/testbss.c'' 22 ''bigarray[%d] didn't hold its value!\<newline>'' [VInt (of_nat i)] else ret ())))
         (thenP (uprint u ''Yes, good.  Now doing a wild write off the end...\<newline>'' [])
         (thenP (ustore32 u (slot (ARRAYSIZE + 1024)) 0)
         (upanic_at u ''user/testbss.c'' 26 ''SHOULD HAVE TRAPPED!!!'' [])))))))"

end
