(* ===== verification/UserForks.thy ===== *)
theory UserForks
  imports UserProgs
begin

text \<open>
  The test programs of \<^verbatim>\<open>user/\<close> that need \<open>fork\<close>, messages or page fault handlers. Those calls are stubs
  in this tree (\<open>UserLib\<close>), so that the programs run up to the first of them; they are written out in
  full. \<open>whop\<close> is the address of the local \<^verbatim>\<open>who\<close>, into which \<open>ipc_recv\<close> stores the sender.
\<close>

section \<open>Fork\<close>

abbreviation (input) DEPTH :: nat where "DEPTH \<equiv> 3"

text \<open>
  \<open>snprintf\<close> leaves at most \<open>DEPTH\<close> characters in \<open>nxt\<close>. The call of \<open>forktree\<close> in the child is written
  out, since the two functions call each other.
\<close>

definition announce :: "runtime \<Rightarrow> string \<Rightarrow> unit km" where
  "announce u cur =
     bindP (usys_getenvid (u_sys u)) (\<lambda>i. uprint u ''%04x: I am '%s'\<newline>'' [VInt i, VStr (Some cur)])"

function forkchild :: "runtime \<Rightarrow> string \<Rightarrow> char \<Rightarrow> unit km" where
  "forkchild u cur branch =
     (if length cur \<ge> DEPTH then ret ()
      else let nxt = take DEPTH (cur @ [branch])
           in bindP fork (\<lambda>r.
              if r = 0
              then thenP (thenP (announce u nxt) (thenP (forkchild u nxt (CHR ''0'')) (forkchild u nxt (CHR ''1''))))
                     (uexit (u_sys u))
              else ret ()))"
  by pat_completeness auto

termination
  by (relation "measure (\<lambda>(u, cur, branch). DEPTH - length cur)") auto

definition forktree :: "runtime \<Rightarrow> string \<Rightarrow> unit km" where
  "forktree u cur =
     thenP (announce u cur) (thenP (forkchild u cur (CHR ''0'')) (forkchild u cur (CHR ''1'')))"

lemma forkchild_forktree:
  "forkchild u cur branch =
     (if length cur \<ge> DEPTH then ret ()
      else bindP fork (\<lambda>r. if r = 0 then thenP (forktree u (take DEPTH (cur @ [branch]))) (uexit (u_sys u)) else ret ()))"
  unfolding forktree_def by (subst forkchild.simps) (simp only: Let_def)

definition forktree_main :: "runtime \<Rightarrow> unit km" where
  "forktree_main u = forktree u ''''"

text \<open>The child spins for ever.\<close>

definition spin_test :: "runtime \<Rightarrow> unit km" where
  "spin_test u =
     thenP (uprint u ''I am the parent.  Forking the child...\<newline>'' [])
     (bindP fork (\<lambda>env.
      if env = 0 then thenP (uprint u ''I am the child.  Spinning...\<newline>'' []) (stop Spinning)
      else thenP (uprint u ''I am the parent.  Running the child...\<newline>'' [])
           (thenP (forP [0..<8] (\<lambda>_. usys_yield (u_sys u)))
           (thenP (uprint u ''I am the parent.  Killing the child...\<newline>'' [])
           (bindP (usys_env_destroy (u_sys u) env) (\<lambda>_. ret ()))))))"

definition dumb_duppage :: "runtime \<Rightarrow> u32 \<Rightarrow> u32 \<Rightarrow> unit km" where
  "dumb_duppage u dstenv addr =
     bindP (usys_page_alloc (u_sys u) dstenv addr PTE_PUW) (\<lambda>r.
     thenP (whenP (r <s 0) (upanic_at u ''user/dumbfork.c'' 32 ''sys_page_alloc: %e'' [VInt r]))
     (bindP (usys_page_map (u_sys u) dstenv addr 0 UTEMP PTE_PUW) (\<lambda>r.
      thenP (whenP (r <s 0) (upanic_at u ''user/dumbfork.c'' 34 ''sys_page_map: %e'' [VInt r]))
      (thenP (ucopy u UTEMP addr 4096)
      (bindP (usys_page_unmap (u_sys u) 0 UTEMP) (\<lambda>r.
       whenP (r <s 0) (upanic_at u ''user/dumbfork.c'' 37 ''sys_page_unmap: %e'' [VInt r])))))))"

text \<open>
  \<open>uend\<close> is the end of the program (\<^verbatim>\<open>end\<close>), \<open>stk\<close> the address of the local \<^verbatim>\<open>addr\<close>. The result comes
  with \<^verbatim>\<open>thisenv\<close>, which the child sets.
\<close>

definition dumbfork :: "runtime \<Rightarrow> u32 \<Rightarrow> u32 \<Rightarrow> (u32 \<times> nat) km" where
  "dumbfork u uend stk =
     bindP (usys_exofork (u_sys u)) (\<lambda>envid.
     thenP (whenP (envid <s 0) (upanic_at u ''user/dumbfork.c'' 55 ''sys_exofork: %e'' [VInt envid]))
     (if envid = 0 then bindP (usys_getenvid (u_sys u)) (\<lambda>i. ret (0, ENVX i))
      else thenP (forP [0..<(unat uend - unat UTEXT + 4095) div 4096] (\<lambda>k. dumb_duppage u envid (UTEXT + of_nat k * PGSIZE)))
           (thenP (dumb_duppage u envid (ROUNDDOWN stk PGSIZE))
           (bindP (usys_env_set_status (u_sys u) envid 2) (\<lambda>r.
            thenP (whenP (r <s 0) (upanic_at u ''user/dumbfork.c'' 76 ''sys_env_set_status: %e'' [VInt r]))
            (ret (envid, u_this u)))))))"

definition dumbfork_main :: "runtime \<Rightarrow> u32 \<Rightarrow> u32 \<Rightarrow> unit km" where
  "dumbfork_main u uend stk =
     bindP (dumbfork u uend stk) (\<lambda>(who, this).
     forP [0..<(if who \<noteq> 0 then 10 else 20)] (\<lambda>i.
       thenP (uprint u ''%d: I am the %s!\<newline>'' [VInt (of_nat i), VStr (Some (if who \<noteq> 0 then ''parent'' else ''child''))])
       (usys_yield (u_sys u))))"

text \<open>The wait for the parent and the increments of the volatile counter, at address \<open>counter\<close>.\<close>

primrec wait_free :: "nat \<Rightarrow> u32 \<Rightarrow> unit km" where
  "wait_free 0 parent = stop Spinning"
| "wait_free (Suc fuel) parent =
     bindP (gets (\<lambda>s. env_status (envs s (ENVX parent)))) (\<lambda>st. if st \<noteq> ENV_FREE then wait_free fuel parent else ret ())"

definition stresssched :: "nat \<Rightarrow> runtime \<Rightarrow> u32 \<Rightarrow> unit km" where
  "stresssched fuel u counter =
     bindP (usys_getenvid (u_sys u)) (\<lambda>parent.
     bindP (searchP [0..<20] (\<lambda>i. bindP fork (\<lambda>r. ret (if r = 0 then Some () else None)))) (\<lambda>child.
     case child of
       None \<Rightarrow> usys_yield (u_sys u)
     | Some _ \<Rightarrow>
         thenP (wait_free fuel parent)
         (thenP (forP [0..<10] (\<lambda>i.
            thenP (usys_yield (u_sys u))
            (forP [0..<10000] (\<lambda>j. bindP (uload32 u counter) (\<lambda>c. ustore32 u counter (c + 1))))))
         (bindP (uload32 u counter) (\<lambda>c.
          thenP (if c \<noteq> 10 * 10000
                 then bindP (uload32 u counter) (\<lambda>d.
                      upanic_at u ''user/stresssched.c'' 33 ''ran on two CPUs at once (counter is %d)'' [VInt d])
                 else ret ())
          (bindP (this_id u) (\<lambda>i. bindP (this_cpunum u) (\<lambda>n.
           uprint u ''[%08x] stresssched on CPU %d\<newline>'' [VInt i, VInt n]))))))))"

section \<open>Messages\<close>

primrec pingpong_loop :: "nat \<Rightarrow> runtime \<Rightarrow> u32 \<Rightarrow> unit km" where
  "pingpong_loop 0 u whop = stop Spinning"
| "pingpong_loop (Suc fuel) u whop =
     bindP (ipc_recv whop 0 0) (\<lambda>i.
     bindP (usys_getenvid (u_sys u)) (\<lambda>me.
     bindP (uload32 u whop) (\<lambda>who.
     thenP (uprint u ''%x got %d from %x\<newline>'' [VInt me, VInt i, VInt who])
     (if i = 10 then ret ()
      else thenP (ipc_send who (i + 1) 0 0) (if i + 1 = 10 then ret () else pingpong_loop fuel u whop)))))"

definition pingpong :: "nat \<Rightarrow> runtime \<Rightarrow> u32 \<Rightarrow> unit km" where
  "pingpong fuel u whop =
     bindP fork (\<lambda>who.
     thenP (ustore32 u whop who)
     (thenP (if who \<noteq> 0
             then bindP (usys_getenvid (u_sys u)) (\<lambda>me.
                  thenP (uprint u ''send 0 from %x to %x\<newline>'' [VInt me, VInt who]) (ipc_send who 0 0 0))
             else ret ())
     (pingpong_loop fuel u whop)))"

text \<open>The address that \<^verbatim>\<open>thisenv\<close> holds; a \<^verbatim>\<open>struct Env\<close> has 124 bytes.\<close>

definition this_va :: "runtime \<Rightarrow> u32" where
  "this_va u = UENVS + 124 * of_nat (u_this u)"

text \<open>\<open>val\<close> is the address of the global of that name, which the two processes share.\<close>

primrec pingpongs_loop :: "nat \<Rightarrow> runtime \<Rightarrow> u32 \<Rightarrow> u32 \<Rightarrow> unit km" where
  "pingpongs_loop 0 u whop val = stop Spinning"
| "pingpongs_loop (Suc fuel) u whop val =
     bindP (ipc_recv whop 0 0) (\<lambda>_.
     bindP (usys_getenvid (u_sys u)) (\<lambda>me.
     bindP (uload32 u val) (\<lambda>v.
     bindP (uload32 u whop) (\<lambda>who.
     bindP (this_id u) (\<lambda>i.
     thenP (uprint u ''%x got %d from %x (thisenv is %p %x)\<newline>'' [VInt me, VInt v, VInt who, VInt (this_va u), VInt i])
     (bindP (uload32 u val) (\<lambda>v.
      if v = 10 then ret ()
      else bindP (uload32 u val) (\<lambda>v.
           thenP (ustore32 u val (v + 1))
           (thenP (ipc_send who 0 0 0)
           (bindP (uload32 u val) (\<lambda>v. if v = 10 then ret () else pingpongs_loop fuel u whop val)))))))))))"

definition pingpongs :: "nat \<Rightarrow> runtime \<Rightarrow> u32 \<Rightarrow> u32 \<Rightarrow> unit km" where
  "pingpongs fuel u whop val =
     bindP sfork (\<lambda>who.
     thenP (ustore32 u whop who)
     (thenP (if who \<noteq> 0
             then bindP (usys_getenvid (u_sys u)) (\<lambda>me.
                  thenP (uprint u ''i am %08x; thisenv is %p\<newline>'' [VInt me, VInt (this_va u)])
                  (bindP (usys_getenvid (u_sys u)) (\<lambda>me.
                   thenP (uprint u ''send 0 from %x to %x\<newline>'' [VInt me, VInt who]) (ipc_send who 0 0 0))))
             else ret ())
     (pingpongs_loop fuel u whop val)))"

text \<open>The sieve: every process keeps the first number it gets and passes on what it does not divide.\<close>

primrec prime_filter :: "nat \<Rightarrow> runtime \<Rightarrow> u32 \<Rightarrow> u32 \<Rightarrow> u32 \<Rightarrow> unit km" where
  "prime_filter 0 u envidp pid p = stop Spinning"
| "prime_filter (Suc fuel) u envidp pid p =
     bindP (ipc_recv envidp 0 0) (\<lambda>i.
     bindP (umodulo u i p) (\<lambda>m.
     thenP (whenP (m \<noteq> 0) (ipc_send pid i 0 0)) (prime_filter fuel u envidp pid p)))"

primrec primeproc :: "nat \<Rightarrow> runtime \<Rightarrow> u32 \<Rightarrow> unit km" where
  "primeproc 0 u envidp = stop Spinning"
| "primeproc (Suc fuel) u envidp =
     bindP (ipc_recv envidp 0 0) (\<lambda>p.
     bindP (this_cpunum u) (\<lambda>n.
     thenP (uprint u ''CPU %d: %d '' [VInt n, VInt p])
     (bindP fork (\<lambda>pid.
      thenP (whenP (pid <s 0) (upanic_at u ''user/primes.c'' 26 ''fork: %e'' [VInt pid]))
      (if pid = 0 then primeproc fuel u envidp else prime_filter fuel u envidp pid p)))))"

primrec prime_feed :: "nat \<Rightarrow> u32 \<Rightarrow> u32 \<Rightarrow> unit km" where
  "prime_feed 0 pid i = stop Spinning"
| "prime_feed (Suc fuel) pid i = thenP (ipc_send pid i 0 0) (prime_feed fuel pid (i + 1))"

definition primes :: "nat \<Rightarrow> runtime \<Rightarrow> u32 \<Rightarrow> unit km" where
  "primes fuel u envidp =
     bindP fork (\<lambda>pid.
     thenP (whenP (pid <s 0) (upanic_at u ''user/primes.c'' 45 ''fork: %e'' [VInt pid]))
     (thenP (whenP (pid = 0) (primeproc fuel u envidp))
     (prime_feed fuel pid 2)))"

primrec fairness_recv :: "nat \<Rightarrow> runtime \<Rightarrow> u32 \<Rightarrow> u32 \<Rightarrow> unit km" where
  "fairness_recv 0 u whop pid = stop Spinning"
| "fairness_recv (Suc fuel) u whop pid =
     bindP (ipc_recv whop 0 0) (\<lambda>_.
     bindP (uload32 u whop) (\<lambda>who.
     thenP (uprint u ''%x recv from %x\<newline>'' [VInt pid, VInt who]) (fairness_recv fuel u whop pid)))"

primrec fairness_send :: "nat \<Rightarrow> unit km" where
  "fairness_send 0 = stop Spinning"
| "fairness_send (Suc fuel) =
     bindP (gets (\<lambda>s. env_id (envs s 1))) (\<lambda>to. thenP (ipc_send to 0 0 0) (fairness_send fuel))"

definition fairness :: "nat \<Rightarrow> runtime \<Rightarrow> u32 \<Rightarrow> unit km" where
  "fairness fuel u whop =
     bindP (usys_getenvid (u_sys u)) (\<lambda>pid.
     if u_this u = 1 then fairness_recv fuel u whop pid
     else bindP (gets (\<lambda>s. env_id (envs s 1))) (\<lambda>to.
          thenP (uprint u ''%x loop sending to %x\<newline>'' [VInt pid, VInt to]) (fairness_send fuel)))"

abbreviation (input) str1 :: string where "str1 \<equiv> ''hello child environment! how are you?''"
abbreviation (input) str2 :: string where "str2 \<equiv> ''hello parent environment! I'm good.''"
abbreviation (input) TEMP_ADDR :: u32 where "TEMP_ADDR \<equiv> 0xa00000"
abbreviation (input) TEMP_ADDR_CHILD :: u32 where "TEMP_ADDR_CHILD \<equiv> 0xb00000"

text \<open>The fuel bounds the length of the message that is printed.\<close>

definition got_message :: "nat \<Rightarrow> runtime \<Rightarrow> u32 \<Rightarrow> u32 \<Rightarrow> string \<Rightarrow> string \<Rightarrow> unit km" where
  "got_message fuel u whop addr expected correct =
     bindP (uload32 u whop) (\<lambda>who.
     bindP (uload_str fuel u addr) (\<lambda>txt.
     thenP (uprint u ''%x got message: %s\<newline>'' [VInt who, VStr (Some txt)])
     (bindP (ustarts_with u addr expected) (\<lambda>same. if same then uprint u correct [] else ret ()))))"

definition sendpage :: "nat \<Rightarrow> runtime \<Rightarrow> u32 \<Rightarrow> unit km" where
  "sendpage fuel u whop =
     bindP fork (\<lambda>child.
     thenP (ustore32 u whop child)
     (if child = 0
      then bindP (ipc_recv whop TEMP_ADDR_CHILD 0) (\<lambda>_.
           thenP (got_message fuel u whop TEMP_ADDR_CHILD str1 ''child received correct message\<newline>'')
           (thenP (ustore_bytes u TEMP_ADDR_CHILD (cbytes str2))
           (bindP (uload32 u whop) (\<lambda>who. ipc_send who 0 TEMP_ADDR_CHILD PTE_PUW))))
      else bindP (this_id u) (\<lambda>i.
           bindP (usys_page_alloc (u_sys u) i TEMP_ADDR PTE_PUW) (\<lambda>_.
           thenP (ustore_bytes u TEMP_ADDR (cbytes str1))
           (bindP (uload32 u whop) (\<lambda>who.
            thenP (ipc_send who 0 TEMP_ADDR PTE_PUW)
            (bindP (ipc_recv whop TEMP_ADDR 0) (\<lambda>_.
             got_message fuel u whop TEMP_ADDR str2 ''parent received correct message\<newline>''))))))))"

section \<open>Page fault handlers\<close>

record UTrapframe =
  utf_fault_va :: u32
  utf_err :: u32
  utf_regs :: PushRegs
  utf_eip :: u32
  utf_eflags :: u32
  utf_esp :: u32

text \<open>The handlers of \<^verbatim>\<open>faultalloc\<close> and \<^verbatim>\<open>faultallocbad\<close>, which are the same but for \<^verbatim>\<open>__FILE__\<close>.\<close>

definition alloc_handler :: "string \<Rightarrow> runtime \<Rightarrow> UTrapframe \<Rightarrow> unit km" where
  "alloc_handler file u utf =
     (let addr = utf_fault_va utf
      in thenP (uprint u ''fault %x\<newline>'' [VInt addr])
         (bindP (usys_page_alloc (u_sys u) 0 (ROUNDDOWN addr PGSIZE) PTE_PUW) (\<lambda>r.
          thenP (whenP (r <s 0) (upanic_at u file 14 ''allocating at %x in page fault handler: %e'' [VInt addr, VInt r]))
          (case vsnprintf (addr = 0) 100 ''this string was faulted in at %x'' [VInt addr] of
             None \<Rightarrow> stop BadAccess
           | Some (n, bytes) \<Rightarrow> ustore_bytes u addr bytes))))"

text \<open>\<open>old\<close> and \<open>handler\<close> are the value of \<^verbatim>\<open>_pgfault_handler\<close> and the address of the handler.\<close>

definition faultalloc :: "nat \<Rightarrow> runtime \<Rightarrow> u32 \<Rightarrow> u32 \<Rightarrow> unit km" where
  "faultalloc fuel u old handler =
     bindP (set_pgfault_handler old handler) (\<lambda>_.
     thenP (bindP (uload_str fuel u 0xDeadBeef) (\<lambda>txt. uprint u ''%s\<newline>'' [VStr (Some txt)]))
     (bindP (uload_str fuel u 0xCafeBffe) (\<lambda>txt. uprint u ''%s\<newline>'' [VStr (Some txt)])))"

definition faultallocbad :: "runtime \<Rightarrow> u32 \<Rightarrow> u32 \<Rightarrow> unit km" where
  "faultallocbad u old handler =
     bindP (set_pgfault_handler old handler) (\<lambda>_. usys_cputs (u_sys u) 0xDEADBEEF 4)"

definition die_handler :: "runtime \<Rightarrow> UTrapframe \<Rightarrow> unit km" where
  "die_handler u utf =
     thenP (uprint u ''i faulted at va %x, err %x\<newline>'' [VInt (utf_fault_va utf), VInt (utf_err utf AND 7)])
     (bindP (usys_getenvid (u_sys u)) (\<lambda>i. bindP (usys_env_destroy (u_sys u) i) (\<lambda>_. ret ())))"

definition faultdie :: "runtime \<Rightarrow> u32 \<Rightarrow> u32 \<Rightarrow> unit km" where
  "faultdie u old handler = bindP (set_pgfault_handler old handler) (\<lambda>_. ustore32 u 0xDeadBeef 0)"

definition faultbadhandler :: "runtime \<Rightarrow> unit km" where
  "faultbadhandler u =
     bindP (usys_page_alloc (u_sys u) 0 (UXSTACKTOP - PGSIZE) PTE_PUW) (\<lambda>_.
     bindP (usys_env_set_pgfault_upcall (u_sys u) 0 0xDeadBeef) (\<lambda>_. ustore32 u 0 0))"

definition faultevilhandler :: "runtime \<Rightarrow> unit km" where
  "faultevilhandler u =
     bindP (usys_page_alloc (u_sys u) 0 (UXSTACKTOP - PGSIZE) PTE_PUW) (\<lambda>_.
     bindP (usys_env_set_pgfault_upcall (u_sys u) 0 0xF0100020) (\<lambda>_. ustore32 u 0 0))"

text \<open>\<open>upcall\<close> is the address of \<open>_pgfault_upcall\<close>, in assembly.\<close>

definition faultnostack :: "runtime \<Rightarrow> u32 \<Rightarrow> unit km" where
  "faultnostack u upcall =
     bindP (usys_env_set_pgfault_upcall (u_sys u) 0 upcall) (\<lambda>_. ustore32 u 0 0)"

text \<open>\<^verbatim>\<open>struct regs\<close> of \<^verbatim>\<open>faultregs\<close>, and the comparison. Its main program is assembly.\<close>

record uregs =
  r_regs :: PushRegs
  r_eip :: u32
  r_eflags :: u32
  r_esp :: u32

definition check_reg :: "runtime \<Rightarrow> string \<Rightarrow> u32 \<Rightarrow> u32 \<Rightarrow> bool \<Rightarrow> bool km" where
  "check_reg u name a b mismatch =
     thenP (uprint u ''%-6s %08x %08x '' [VStr (Some name), VInt a, VInt b])
     (if a = b then thenP (uprint u ''OK\<newline>'' []) (ret mismatch) else thenP (uprint u ''MISMATCH\<newline>'' []) (ret True))"

definition checked_fields :: "(string \<times> (uregs \<Rightarrow> u32)) list" where
  "checked_fields =
     [(''edi'', \<lambda>r. reg_edi (r_regs r)), (''esi'', \<lambda>r. reg_esi (r_regs r)), (''ebp'', \<lambda>r. reg_ebp (r_regs r)),
      (''ebx'', \<lambda>r. reg_ebx (r_regs r)), (''edx'', \<lambda>r. reg_edx (r_regs r)), (''ecx'', \<lambda>r. reg_ecx (r_regs r)),
      (''eax'', \<lambda>r. reg_eax (r_regs r)), (''eip'', r_eip), (''eflags'', r_eflags), (''esp'', r_esp)]"

definition check_regs :: "runtime \<Rightarrow> uregs \<Rightarrow> string \<Rightarrow> uregs \<Rightarrow> string \<Rightarrow> string \<Rightarrow> unit km" where
  "check_regs u a an b bn testname =
     thenP (uprint u ''%-6s %-8s %-8s\<newline>'' [VStr (Some ''''), VStr (Some an), VStr (Some bn)])
     (bindP (foldP checked_fields (\<lambda>(name, field) mismatch. check_reg u name (field a) (field b) mismatch) False) (\<lambda>mismatch.
      thenP (uprint u ''Registers %s '' [VStr (Some testname)])
      (if \<not> mismatch then uprint u ''OK\<newline>'' [] else uprint u ''MISMATCH\<newline>'' [])))"

abbreviation (input) FL_RF :: u32 where "FL_RF \<equiv> 0x00010000"

text \<open>The result is the global \<open>during\<close>.\<close>

definition regs_pgfault :: "runtime \<Rightarrow> uregs \<Rightarrow> UTrapframe \<Rightarrow> uregs km" where
  "regs_pgfault u before utf =
     thenP (whenP (utf_fault_va utf \<noteq> UTEMP)
              (upanic_at u ''user/faultregs.c'' 80 ''pgfault expected at UTEMP, got 0x%08x (eip %08x)''
                 [VInt (utf_fault_va utf), VInt (utf_eip utf)]))
     (let during = \<lparr>r_regs = utf_regs utf, r_eip = utf_eip utf, r_eflags = utf_eflags utf AND NOT FL_RF, r_esp = utf_esp utf\<rparr>
      in thenP (check_regs u before ''before'' during ''during'' ''in UTrapframe'')
         (bindP (usys_page_alloc (u_sys u) 0 UTEMP PTE_PUW) (\<lambda>r.
          thenP (whenP (r <s 0) (upanic_at u ''user/faultregs.c'' 92 ''sys_page_alloc: %e'' [VInt r]))
          (ret during))))"

end
