(* ===== verification/UserPrint.thy ===== *)
theory UserPrint
  imports UserLib Loader SyscallSpec Lab3Trap
begin

text \<open>
  What a user program prints. \<open>ucprintf\<close> formats on the user's side, stores chunks of at most 255
  characters in a buffer on the user's stack and hands each to the kernel, which checks the buffer, reads
  it through the page tables and prints it again with its own \<open>cprintf\<close>: in the end the console has
  the characters of the format.
\<close>

section \<open>The buffer\<close>

text \<open>
  The running program's buffer, not at address zero: 257 bytes (the kernel reads one more than it prints) inside one
  page below \<^verbatim>\<open>UTOP\<close> that the program may write.
\<close>

definition writable_buffer :: "kstate \<Rightarrow> nat \<Rightarrow> u32 \<Rightarrow> bool" where
  "writable_buffer s pd buf \<longleftrightarrow>
     buf \<noteq> 0 \<and> unat buf mod 4096 + 256 < 4096 \<and> user_va buf \<and>
     pde_at s pd buf AND 7 = 7 \<and> entry s pd buf AND 7 = 7"

abbreviation (input) user_bits_set :: "u32 \<Rightarrow> bool" where
  "user_bits_set w \<equiv> w AND 7 = 7"

lemma bits_of_seven:
  assumes "(w :: u32) AND 7 = 7"
  shows "w AND 1 = 1" "w AND 2 \<noteq> 0" "w AND 4 = 4"
proof -
  have "w AND 1 = w AND (7 AND 1)" "w AND 2 = w AND (7 AND 2)" "w AND 4 = w AND (7 AND 4)" by simp_all
  then show "w AND 1 = 1" "w AND 2 \<noteq> 0" "w AND 4 = 4" unfolding and.assoc [symmetric] assms by simp_all
qed

lemma buffer_address:
  assumes b: "unat buf mod 4096 + 256 < 4096" and i: "i \<le> 256"
  shows "unat (buf + of_nat i :: u32) = unat buf + i" "PGNUM (buf + of_nat i) = PGNUM buf"
    and "unat (PGOFF (buf + of_nat i)) = unat (PGOFF buf) + i"
    and "PDX (buf + of_nat i) = PDX buf" "PTX (buf + of_nat i) = PTX buf"
proof -
  have "unat buf < 4294967296" using unsigned_less [of buf] by simp
  then have "unat buf div 4096 < 1048576" by (simp add: less_mult_imp_div_less)
  moreover have "unat buf = unat buf div 4096 * 4096 + unat buf mod 4096" by simp
  ultimately have "unat buf + 256 < 4294967296" using b by linarith
  then show u: "unat (buf + of_nat i :: u32) = unat buf + i" using i by (subst unat_add_small32) (simp_all add: unat_of_nat32)
  have d: "(unat buf + i) div 4096 = unat buf div 4096" "(unat buf + i) mod 4096 = unat buf mod 4096 + i"
  proof -
    have "unat buf + i = unat buf div 4096 * 4096 + (unat buf mod 4096 + i)" by simp
    moreover have "unat buf mod 4096 + i < 4096" using b i by simp
    ultimately show "(unat buf + i) div 4096 = unat buf div 4096" "(unat buf + i) mod 4096 = unat buf mod 4096 + i"
      by (metis div_mult_self3 div_less add.right_neutral zero_neq_numeral, metis mod_mult_self3 mod_less)
  qed
  have "unat (PGNUM (buf + of_nat i)) = unat (PGNUM buf)" by (simp only: unat_PGNUM u d)
  then show p: "PGNUM (buf + of_nat i) = PGNUM buf" by (simp add: word_unat_eq_iff)
  show "unat (PGOFF (buf + of_nat i)) = unat (PGOFF buf) + i" by (simp only: unat_PGOFF u d)
  show "PDX (buf + of_nat i) = PDX buf" "PTX (buf + of_nat i) = PTX buf"
    using p unfolding PGNUM_page_index by (simp_all add: word_unat_eq_iff)
qed

text \<open>The program runs, and may write to the buffer.\<close>

definition may_print :: "kstate \<Rightarrow> nat list \<Rightarrow> nat list \<Rightarrow> nat \<Rightarrow> u32 \<Rightarrow> bool" where
  "may_print s xs es e buf \<longleftrightarrow>
     kernel_ok s xs es \<and> e \<in> live s \<and> curenv s = Some e \<and> frame_of (cr3 s) = dir s e \<and> writable_buffer s (dir s e) buf"

text \<open>The same machine with \<open>m\<close> in the page of the buffer and \<open>c\<close> on the console.\<close>

abbreviation (input) buffer_frame :: "kstate \<Rightarrow> nat \<Rightarrow> u32 \<Rightarrow> nat" where
  "buffer_frame s e buf \<equiv> frame_of (entry s (dir s e) buf)"

definition held :: "kstate \<Rightarrow> nat \<Rightarrow> (nat \<Rightarrow> u32) \<Rightarrow> u32 list \<Rightarrow> kstate" where
  "held s f m c = s\<lparr>pmem := (pmem s)(f := m), console := c\<rparr>"

lemma held_sel [simp]:
  "pmem (held s f m c) = (pmem s)(f := m)" "console (held s f m c) = c" "envs (held s f m c) = envs s" "cr3 (held s f m c) = cr3 s"
  "cr0 (held s f m c) = cr0 s" "cpus (held s f m c) = cpus s" "cpunum (held s f m c) = cpunum s" "con_in (held s f m c) = con_in s"
  "held (held s f m c) f m' c' = held s f m' c'" "live (held s f m c) = live s" "dir (held s f m c) = dir s"
  by (simp_all add: held_def live_def dir_def fun_eq_iff)

lemma held_self: "held s f (pmem s f) (console s) = s"
  by (simp add: held_def)

lemma held_ok:
  assumes p: "may_print s xs es e buf"
  shows "kernel_ok (held s (buffer_frame s e buf) m c) xs es" "pgdir_ok (held s (buffer_frame s e buf) m c) (dir s e) xs"
    and "i \<le> 256 \<Longrightarrow> entry (held s (buffer_frame s e buf) m c) (dir s e) (buf + of_nat i) = entry s (dir s e) buf"
      "i \<le> 256 \<Longrightarrow> pde_at (held s (buffer_frame s e buf) m c) (dir s e) (buf + of_nat i) = pde_at s (dir s e) buf"
    and "i \<le> 256 \<Longrightarrow> translate w (buf + of_nat i) (held s (buffer_frame s e buf) m c) = Some (buffer_frame s e buf)"
proof -
  let ?f = "buffer_frame s e buf" and ?pd = "dir s e"
  let ?t = "held s ?f m c"
  have ok: "kernel_ok s xs es" and e: "e \<in> live s" and cr3: "frame_of (cr3 s) = ?pd"
    and off: "unat buf mod 4096 + 256 < 4096" and ua: "user_va buf" and bits: "user_bits_set (pde_at s ?pd buf)" "user_bits_set (entry s ?pd buf)"
    using p by (simp_all add: may_print_def writable_buffer_def)
  note K = kernel_okD(6) [OF ok]
  have D: "?pd \<in> dir s ` live s" using e by simp
  have P: "present (entry s ?pd buf)" using bits_of_seven(1) [OF bits(2)] by simp
  have client: "client_page s (dir s ` live s) ?f" by (rule space_mapped(1) [OF K D ua P])
  have mem: "pmem ?t g = pmem s g" if "\<not> client_page s (dir s ` live s) g" for g using client that by auto
  have same: "pages ?t = pages s" "npages ?t = npages s" "page_free_list ?t = page_free_list s" "kern_pgdir ?t = kern_pgdir s"
    by (simp_all add: held_def)
  note F = spaces_ok_frames [OF K mem same]
  have "env_free_list ?t = env_free_list s" by (simp add: held_def)
  then show ko: "kernel_ok ?t xs es" using ok F(1) by (simp add: kernel_ok_def)
  show "pgdir_ok ?t ?pd xs" using kernel_ok_space(1) [OF ko, of e] e by simp
  note A = buffer_address [OF off]
  show en: "entry ?t ?pd (buf + of_nat i) = entry s ?pd buf" if i: "i \<le> 256" for i
  proof -
    have "entry ?t ?pd (buf + of_nat i) = entry s ?pd (buf + of_nat i)"
      using F(5) [where pd = ?pd and d = "unat (PDX buf)" and i = "unat (PTX buf)"] D ua A(4,5) [OF i] by (simp add: entry_slot)
    then show ?thesis using A(4,5) [OF i] by (simp add: entry_def pde_at_def)
  qed
  have fpd: "?f \<noteq> ?pd" using client D by (auto simp: client_page_def own_def)
  show pde: "pde_at ?t ?pd (buf + of_nat i) = pde_at s ?pd buf" if i: "i \<le> 256" for i
    using fpd A(4) [OF i] by (simp add: pde_at_def)
  show "translate w (buf + of_nat i) ?t = Some ?f" if i: "i \<le> 256"
  proof -
    note B = bits_of_seven [OF bits(1)] bits_of_seven [OF bits(2)]
    have "pmem ?t (unat (PGNUM (pde_at s ?pd buf))) (unat (PTX buf)) = entry s ?pd buf"
      using en [OF i] pde [OF i] A(5) [OF i] B(1) by (simp add: entry_def)
    then show ?thesis
      using B pde [OF i] A(4,5) [OF i] cr3 by (simp add: translate_def Let_def pde_at_def del: held_sel(1))
  qed
qed

section \<open>Writing the buffer and reading it back\<close>

abbreviation (input) frame_byte :: "(nat \<Rightarrow> u32) \<Rightarrow> nat \<Rightarrow> u8" where
  "frame_byte m k \<equiv> byte_of (m (k div 4)) (k mod 4)"

lemma frame_byte_upd:
  "frame_byte (m(k div 4 := with_byte (m (k div 4)) (k mod 4) b)) j = (if j = k then b else frame_byte m j)"
proof (cases "j div 4 = k div 4")
  case True
  then have "j = k \<longleftrightarrow> j mod 4 = k mod 4" using div_mult_mod_eq [of j 4] div_mult_mod_eq [of k 4] by metis
  then show ?thesis using True by (simp add: byte_with_byte)
qed auto

lemma store_buffer:
  assumes p: "may_print s xs es e buf" and i: "i \<le> 256"
  shows "\<exists>m'. run (store8 (buf + of_nat i) b) (held s (buffer_frame s e buf) m c) = (Ret (), held s (buffer_frame s e buf) m' c)
    \<and> (\<forall>k. frame_byte m' k = (if k = unat (PGOFF buf) + i then b else frame_byte m k))"
proof -
  let ?f = "buffer_frame s e buf" and ?k = "unat (PGOFF buf) + i"
  let ?m = "m(?k div 4 := with_byte (m (?k div 4)) (?k mod 4) b)"
  have "unat buf mod 4096 + 256 < 4096" using p by (simp add: may_print_def writable_buffer_def)
  note A = buffer_address(3) [OF this i]
  have "run (store8 (buf + of_nat i) b) (held s ?f m c) = (Ret (), held s ?f ?m c)"
    using held_ok(5) [OF p i, of True m c]
    by (simp add: store8_def prog_simps A) (simp add: held_def store_word_def)
  then show ?thesis using frame_byte_upd by blast
qed

lemma store_chunk:
  assumes p: "may_print s xs es e buf" and n: "n \<le> 256"
  shows "\<exists>m'. run (forP [0..<n] (\<lambda>i. store8 (buf + of_nat i) (g i))) (held s (buffer_frame s e buf) m c)
      = (Ret (), held s (buffer_frame s e buf) m' c) \<and> (\<forall>i < n. frame_byte m' (unat (PGOFF buf) + i) = g i)"
  using n
proof (induction n)
  case 0
  then show ?case by (auto simp: prog_simps)
next
  case (Suc n)
  then obtain m1 where m1: "run (forP [0..<n] (\<lambda>i. store8 (buf + of_nat i) (g i))) (held s (buffer_frame s e buf) m c)
      = (Ret (), held s (buffer_frame s e buf) m1 c)" "\<forall>i < n. frame_byte m1 (unat (PGOFF buf) + i) = g i" by auto
  obtain m2 where m2: "run (store8 (buf + of_nat n) (g n)) (held s (buffer_frame s e buf) m1 c) = (Ret (), held s (buffer_frame s e buf) m2 c)"
    "\<forall>k. frame_byte m2 k = (if k = unat (PGOFF buf) + n then g n else frame_byte m1 k)"
    using store_buffer [OF p, of n "g n" m1 c] Suc.prems by auto
  have "run (forP [0..<Suc n] (\<lambda>i. store8 (buf + of_nat i) (g i))) (held s (buffer_frame s e buf) m c) = (Ret (), held s (buffer_frame s e buf) m2 c)"
    using m1(1) m2(1) by (simp add: prog_simps)
  moreover have "\<forall>i < Suc n. frame_byte m2 (unat (PGOFF buf) + i) = g i" using m1(2) m2(2) by (auto simp: less_Suc_eq)
  ultimately show ?case by blast
qed

lemma buffer_readable:
  assumes p: "may_print s xs es e buf" and n: "length bs \<le> 255" and nz: "0 \<notin> set bs"
    and m: "\<forall>i < length bs. frame_byte m (unat (PGOFF buf) + i) = bs ! i"
  shows "bytes_ahead buf bs (held s (buffer_frame s e buf) m c)"
    and "run (user_mem_check (Some e) buf (of_nat (length bs)) PTE_U) (held s (buffer_frame s e buf) m c)
      = (Ret 0, held s (buffer_frame s e buf) m c)"
proof -
  let ?t = "held s (buffer_frame s e buf) m c"
  have off: "unat buf mod 4096 + 256 < 4096" and ua: "user_va buf" and bits: "user_bits_set (pde_at s (dir s e) buf)" "user_bits_set (entry s (dir s e) buf)"
    and e: "e \<in> live s"
    using p by (simp_all add: may_print_def writable_buffer_def)
  have peek: "peek8 (buf + of_nat i) ?t = Some (frame_byte m (unat (PGOFF buf) + i))" if "i \<le> 256" for i
    using held_ok(5) [OF p that, of False m c] buffer_address(3) [OF off that] by (simp add: peek8_def)
  then show "bytes_ahead buf bs ?t" using n nz m by (simp add: bytes_ahead_def)
  have pd: "env_pgdir (envs ?t e) = Some (dir s e)" using kernel_okD(3) [OF held_ok(1) [OF p], of e] e by simp
  have low: "buf + of_nat i < ULIM" if "i \<le> 256" for i
  proof -
    have "unat (PDX (buf + of_nat i)) < UTOP_index" using buffer_address(4) [OF off that] ua by simp
    then show ?thesis unfolding user_va_iff by (simp add: word_less_nat_alt)
  qed
  have uok: "user_ok ?t (dir s e) PTE_U (buf + of_nat i)" if "i \<le> 256" for i
    using low [OF that] held_ok(3,4) [OF p that, of m c] bits_of_seven [OF bits(1)] bits_of_seven [OF bits(2)] by (simp add: user_ok_def)
  have small: "unat buf + 256 < 4005560320 + 4096" using ua off unfolding user_va_iff by linarith
  have ulen: "unat (of_nat (length bs) :: u32) = length bs" using n by (simp add: unat_of_nat32)
  have all: "user_ok ?t (dir s e) PTE_U a" if a: "unat buf \<le> unat a" "unat a < unat buf + length bs" for a
  proof -
    have "a = buf + of_nat (unat a - unat buf)" using a by (simp add: of_nat_diff)
    then show ?thesis using uok [of "unat a - unat buf"] a n by simp
  qed
  have none: "find (\<lambda>i. \<not> user_ok ?t (dir s e) PTE_U (buf + of_nat i * PGSIZE)) [0..<pages_touched buf (of_nat (length bs))] = None"
  proof (cases "bs = []")
    case True
    have z: "i = 0" if "i < pages_touched buf 0" for i
    proof -
      have "ROUNDUP buf 4096 - ROUNDDOWN buf 4096 \<le> (4096 :: u32)"
      proof -
        have "unat (ROUNDUP buf 4096) = 4096 * ((unat buf + 4095) div 4096)" by (rule ROUNDUP_page) (use small in simp)
        moreover have "unat (ROUNDDOWN buf 4096) = 4096 * (unat buf div 4096)" by (rule unat_ROUNDDOWN)
        moreover have "(unat buf + 4095) div 4096 \<le> unat buf div 4096 + 1" "unat buf div 4096 \<le> (unat buf + 4095) div 4096" by simp_all
        ultimately have "unat (ROUNDUP buf 4096 - ROUNDDOWN buf 4096) \<le> 4096" by (simp add: unat_diff32)
        then show ?thesis by (simp add: word_le_nat_alt)
      qed
      then have "unat (ROUNDUP buf 4096 - ROUNDDOWN buf 4096) div 4096 \<le> 1" by (simp add: word_le_nat_alt)
      then show "i = 0" using that by (simp add: pages_touched_def unat_div)
    qed
    have "user_ok ?t (dir s e) PTE_U (buf + of_nat i * PGSIZE)" if "i < pages_touched buf 0" for i
      using z [OF that] uok [of 0] by simp
    then show ?thesis using True unfolding find_None_upt by simp
  next
    case False
    then have "(of_nat (length bs) :: u32) \<noteq> 0" using ulen by (metis length_0_conv unat_0)
    moreover have "unat buf + unat (of_nat (length bs) :: u32) + 4095 < 2 ^ 32" using small n ulen by simp
    ultimately have "\<forall>i < pages_touched buf (of_nat (length bs)). user_ok ?t (dir s e) PTE_U (buf + of_nat i * PGSIZE)"
      using visited_pages [of buf "of_nat (length bs)" ?t "dir s e" PTE_U] all ulen by simp
    then show ?thesis unfolding find_None_upt by simp
  qed
  then show "run (user_mem_check (Some e) buf (of_nat (length bs)) PTE_U) ?t = (Ret 0, ?t)"
    using user_mem_check_run [OF held_ok(2) [OF p] pd, of buf "of_nat (length bs)" PTE_U] by simp
qed

section \<open>What a system call may change\<close>

text \<open>A trap leaves its marks on the environment that traps: its saved frame and its run count.\<close>

definition sibling :: "nat \<Rightarrow> kstate \<Rightarrow> kstate \<Rightarrow> bool" where
  "sibling e s t \<longleftrightarrow> (\<exists>tf n l. t = (upd_env e (\<lambda>v. v\<lparr>env_tf := tf, env_runs := n\<rparr>) s)\<lparr>last_tf := l\<rparr>)"

lemma sibling_refl: "sibling e s s"
  unfolding sibling_def
  by (intro exI [of _ "env_tf (envs s e)"] exI [of _ "env_runs (envs s e)"] exI [of _ "last_tf s"]) (simp add: upd_env_def)

lemma sibling_trans:
  assumes "sibling e s t" and "sibling e t u"
  shows "sibling e s u"
proof -
  obtain tf n l where u: "u = (upd_env e (\<lambda>v. v\<lparr>env_tf := tf, env_runs := n\<rparr>) t)\<lparr>last_tf := l\<rparr>"
    using assms(2) unfolding sibling_def by blast
  then have "u = (upd_env e (\<lambda>v. v\<lparr>env_tf := tf, env_runs := n\<rparr>) s)\<lparr>last_tf := l\<rparr>"
    using assms(1) unfolding sibling_def by (auto simp: upd_env_def)
  then show ?thesis unfolding sibling_def by blast
qed

lemma sibling_held:
  assumes "sibling e (held s f m c) t"
  shows "\<exists>s'. sibling e s s' \<and> t = held s' f m c"
proof -
  obtain tf n l where t: "t = (upd_env e (\<lambda>v. v\<lparr>env_tf := tf, env_runs := n\<rparr>) (held s f m c))\<lparr>last_tf := l\<rparr>"
    using assms unfolding sibling_def by blast
  let ?s' = "(upd_env e (\<lambda>v. v\<lparr>env_tf := tf, env_runs := n\<rparr>) s)\<lparr>last_tf := l\<rparr>"
  have "sibling e s ?s'" unfolding sibling_def by blast
  moreover have "t = held ?s' f m c" unfolding t by (simp add: upd_env_def held_def)
  ultimately show ?thesis by blast
qed

lemma held_console: "(held s f m c)\<lparr>console := x\<rparr> = held s f m x"
  by (simp add: held_def)

lemma sibling_sel:
  assumes "sibling e s t"
  shows "pmem t = pmem s" "cr3 t = cr3 s" "console t = console s" "con_in t = con_in s" "eflags t = eflags s" "curenv t = curenv s"
    "live t = live s" "dir t = dir s" "env_id (envs t i) = env_id (envs s i)" "env_status (envs t i) = env_status (envs s i)"
    "env_pgdir (envs t i) = env_pgdir (envs s i)" "i \<noteq> e \<Longrightarrow> envs t i = envs s i" "kernel_ok t xs es = kernel_ok s xs es"
proof -
  obtain tf n l where t: "t = (upd_env e (\<lambda>v. v\<lparr>env_tf := tf, env_runs := n\<rparr>) s)\<lparr>last_tf := l\<rparr>"
    using assms unfolding sibling_def by blast
  show "pmem t = pmem s" "cr3 t = cr3 s" "console t = console s" "con_in t = con_in s" "eflags t = eflags s" "curenv t = curenv s"
    "env_id (envs t i) = env_id (envs s i)" "env_status (envs t i) = env_status (envs s i)"
    "env_pgdir (envs t i) = env_pgdir (envs s i)" "i \<noteq> e \<Longrightarrow> envs t i = envs s i"
    unfolding t by simp_all
  show "live t = live s" "dir t = dir s" "kernel_ok t xs es = kernel_ok s xs es" unfolding t by (intro kernel_ok_same; simp)+
qed

lemma sibling_may_print:
  assumes "sibling e s t"
  shows "may_print t xs es e buf = may_print s xs es e buf" "entry t pd va = entry s pd va"
proof -
  note S = sibling_sel [OF assms]
  have e: "entry t pd va = entry s pd va" "pde_at t pd va = pde_at s pd va" for pd va by (simp_all add: entry_def pde_at_def S(1))
  then show "entry t pd va = entry s pd va" by blast
  show "may_print t xs es e buf = may_print s xs es e buf"
    unfolding may_print_def writable_buffer_def e S(2,6-8,13) by (rule refl)
qed

lemma may_print_held:
  assumes "may_print s xs es e buf"
  shows "may_print (held s (buffer_frame s e buf) m c) xs es e buf"
    and "buffer_frame (held s (buffer_frame s e buf) m c) e buf = buffer_frame s e buf"
  using held_ok(1) [OF assms] held_ok(3,4) [OF assms, of 0] assms by (simp_all add: may_print_def writable_buffer_def)

section \<open>From the user's \<open>cprintf\<close> to the console\<close>

lemma ascii_byte:
  assumes "0 < c \<and> c < (128 :: u32)"
  shows "(ucast c :: u8) \<noteq> 0" and "scast (ucast c :: u8) = c"
proof -
  have n: "unat c < 128" "0 < unat c" using assms by (simp_all add: word_less_nat_alt)
  have u: "unat (ucast c :: u8) = unat c" unfolding unsigned_ucast_eq using n by (simp add: take_bit_nat_eq_self)
  then show "(ucast c :: u8) \<noteq> 0" using n(2) by force
  have "int (unat c) < 128" using n(1) by linarith
  then have b: "- (2 ^ 7) \<le> int (unat c)" "int (unat c) < 2 ^ 7" by (simp_all del: of_nat_unat)
  have "sint (ucast c :: u8) = signed_take_bit 7 (int (unat (ucast c :: u8)))" by (simp add: sint_uint)
  also have "\<dots> = int (unat c)" unfolding u using b by (rule signed_take_bit_int_eq_self)
  finally have "word_of_int (sint (ucast c :: u8)) = c" by simp
  then show "scast (ucast c :: u8) = c" by (simp only: scast_eq)
qed

text \<open>
  What the user's side needs of the kernel: \<open>SYS_cputs\<close> on a string in the buffer prints some \<open>noise\<close> of its
  own and then the bytes, sign-extended; it returns zero, and the state \<open>after\<close> it differs from the one before at most as
  after a trap. The kernel may ask that the machine is \<open>ready\<close> for a trap.
\<close>

locale console_kernel =
  fixes sys :: sysfun and noise :: "u32 list" and ready :: "nat \<Rightarrow> kstate \<Rightarrow> bool" and after :: "nat \<Rightarrow> kstate \<Rightarrow> kstate \<Rightarrow> bool"
  assumes after_refl: "after e s s"
    and after_trans: "after e s t \<Longrightarrow> after e t u \<Longrightarrow> after e s u"
    and after_held: "after e (held s f m c) t \<Longrightarrow> \<exists>s'. after e s s' \<and> t = held s' f m c"
    and after_sibling: "after e s t \<Longrightarrow> sibling e s t"
    and ready_after: "ready e s \<Longrightarrow> after e s t \<Longrightarrow> ready e t"
    and ready_held: "ready e s \<Longrightarrow> ready e (held s f m c)"
    and cputs: "may_print s xs es e buf \<Longrightarrow> ready e s \<Longrightarrow> length bs \<le> 255 \<Longrightarrow> 0 \<notin> set bs \<Longrightarrow>
      \<forall>i < length bs. frame_byte (pmem s (buffer_frame s e buf)) (unat (PGOFF buf) + i) = bs ! i \<Longrightarrow>
      \<exists>t. after e s t \<and> run (sys SYS_cputs buf (of_nat (length bs)) 0 0 0) s = (Ret 0, t\<lparr>console := console s @ noise @ map scast bs\<rparr>)"
begin

lemma put_chunk_run:
  assumes p: "may_print s xs es e buf" and ready: "ready e s"
    and n: "length chs \<le> 255" and nz: "\<forall>c \<in> set chs. (ucast c :: u8) \<noteq> 0"
  shows "\<exists>s' m'. after e s s' \<and> run (put_chunk sys buf chs) (held s (buffer_frame s e buf) m c)
    = (Ret (), held s' (buffer_frame s e buf) m' (c @ noise @ map (\<lambda>c. scast (ucast c :: u8)) chs))"
proof -
  let ?f = "buffer_frame s e buf" and ?bs = "map ucast chs :: u8 list"
  obtain m' where m': "run (forP [0..<length chs] (\<lambda>i. store8 (buf + of_nat i) (ucast (chs ! i)))) (held s ?f m c) = (Ret (), held s ?f m' c)"
    "\<forall>i < length chs. frame_byte m' (unat (PGOFF buf) + i) = ucast (chs ! i)"
    using store_chunk [OF p, of "length chs" "\<lambda>i. ucast (chs ! i)" m c] n by auto
  have bs: "length ?bs \<le> 255" "0 \<notin> set ?bs" "\<forall>i < length ?bs. frame_byte (pmem (held s ?f m' c) ?f) (unat (PGOFF buf) + i) = ?bs ! i"
    using n nz m'(2) by auto
  obtain t where t: "after e (held s ?f m' c) t" "run (sys SYS_cputs buf (of_nat (length chs)) 0 0 0) (held s ?f m' c)
      = (Ret 0, t\<lparr>console := c @ noise @ map scast ?bs\<rparr>)"
    using cputs [OF may_print_held(1) [OF p, of m' c] ready_held [OF ready, of ?f m' c] bs(1,2)] bs(3) unfolding may_print_held(2) [OF p] by auto
  obtain s' where s': "after e s s'" "t = held s' ?f m' c" using after_held [OF t(1)] by blast
  have "run (put_chunk sys buf chs) (held s ?f m c) = (Ret (), held s' ?f m' (c @ noise @ map (\<lambda>c. scast (ucast c :: u8)) chs))"
    using m'(1) t(2) by (simp add: put_chunk_def usys_cputs_def usyscall_def prog_simps comp_def s'(2) held_console)
  then show ?thesis using s'(1) by blast
qed

lemma put_chunks_run:
  assumes "may_print s xs es e buf" and "ready e s"
    and "\<forall>chs \<in> set chunks. length chs \<le> 255" "\<forall>chs \<in> set chunks. \<forall>c \<in> set chs. (ucast c :: u8) \<noteq> 0"
  shows "\<exists>s' m'. after e s s' \<and> run (forP chunks (put_chunk sys buf)) (held s (buffer_frame s e buf) m c)
    = (Ret (), held s' (buffer_frame s e buf) m' (c @ concat (map (\<lambda>chs. noise @ map (\<lambda>c. scast (ucast c :: u8)) chs) chunks)))"
  using assms
proof (induction chunks arbitrary: s m c)
  case Nil
  then show ?case using after_refl by (auto simp: prog_simps)
next
  case (Cons chs chunks)
  let ?f = "buffer_frame s e buf" and ?c = "c @ noise @ map (\<lambda>c. scast (ucast c :: u8)) chs"
  obtain s1 m1 where s1: "after e s s1" and m1: "run (put_chunk sys buf chs) (held s ?f m c) = (Ret (), held s1 ?f m1 ?c)"
    using put_chunk_run [OF Cons.prems(1,2), of chs m c] Cons.prems by auto
  have f: "buffer_frame s1 e buf = ?f" using sibling_may_print(2) [OF after_sibling [OF s1]] sibling_sel(8) [OF after_sibling [OF s1]] by simp
  have "may_print s1 xs es e buf" "ready e s1" using sibling_may_print(1) [OF after_sibling [OF s1]] ready_after [OF _ s1] Cons.prems(1,2) by blast+
  then obtain s2 m2 where s2: "after e s1 s2" "run (forP chunks (put_chunk sys buf)) (held s1 ?f m1 ?c)
      = (Ret (), held s2 ?f m2 (?c @ concat (map (\<lambda>chs. noise @ map (\<lambda>c. scast (ucast c :: u8)) chs) chunks)))"
    using Cons.IH [of s1 m1 ?c] Cons.prems f by auto
  then show ?case using m1 after_trans [OF s1 s2(1)] by (auto simp: prog_simps)
qed

text \<open>Every chunk comes with the kernel's noise. ASCII comes through unchanged.\<close>

lemma ucprintf_run:
  assumes p: "may_print s xs es e buf" and ready: "ready e s" and fmt: "vprintfmt fmt ap = Some out" and asc: "\<forall>c \<in> set out. 0 < c \<and> c < 128"
    and u: "uvcprintf fmt ap = Some (n, chunks)"
  shows "\<exists>s' m. after e s s' \<and> run (ucprintf sys buf fmt ap) (held s (buffer_frame s e buf) m0 c)
    = (Ret (length out), held s' (buffer_frame s e buf) m (c @ concat (map (\<lambda>chs. noise @ chs) chunks)))"
proof -
  note U = uvcprintf_eq [OF u]
  have out: "out = concat chunks" "n = length out" using U(1,2) fmt by simp_all
  have b: "(ucast c :: u8) \<noteq> 0" "scast (ucast c :: u8) = c" if "c \<in> set out" for c using ascii_byte asc that by blast+
  have nz: "\<forall>chs \<in> set chunks. \<forall>c \<in> set chs. (ucast c :: u8) \<noteq> 0" using b(1) out by auto
  have same: "map (\<lambda>chs. noise @ map (\<lambda>c. scast (ucast c :: u8)) chs) chunks = map (\<lambda>chs. noise @ chs) chunks"
    using b(2) out by (auto intro!: map_idI)
  from put_chunks_run [OF p ready U(3) nz, of m0 c] obtain s' m where
    "after e s s'" "run (forP chunks (put_chunk sys buf)) (held s (buffer_frame s e buf) m0 c)
      = (Ret (), held s' (buffer_frame s e buf) m (c @ concat (map (\<lambda>chs. noise @ chs) chunks)))" unfolding same by blast
  then show ?thesis using u out(2) by (auto simp: ucprintf_def prog_simps)
qed

lemma ucprintf_short:
  assumes p: "may_print s xs es e buf" and ready: "ready e s" and fmt: "vprintfmt fmt ap = Some out" and asc: "\<forall>c \<in> set out. 0 < c \<and> c < 128"
    and short: "length out < 255"
  shows "\<exists>s' m. after e s s' \<and> run (ucprintf sys buf fmt ap) (held s (buffer_frame s e buf) m0 c)
    = (Ret (length out), held s' (buffer_frame s e buf) m (c @ noise @ out))"
  using ucprintf_run [OF p ready fmt asc uvcprintf_short [OF fmt short], of m0 c] by simp

end

text \<open>Both kernels keep the promise, without noise, when their handlers are called.\<close>

interpretation lab4: console_kernel syscall "[]" "\<lambda>e s. True" "\<lambda>e s t. t = s"
proof (unfold_locales, goal_cases)
  case (7 s xs es e buf bs)
  note R = buffer_readable [OF 7(1,3,4), of "pmem s (buffer_frame s e buf)" "console s", unfolded held_self, OF 7(5)]
  have "unat (of_nat (length bs) :: u32) = length bs" using 7(3) by (simp add: unat_of_nat32)
  then have "run (sys_cputs buf (of_nat (length bs))) s = (Ret (), s\<lparr>console := console s @ map scast bs\<rparr>)"
    using sys_cputs_run [OF _ _ R(1), of "of_nat (length bs)"] R(2) 7(1,3) by (simp add: may_print_def writable_buffer_def)
  then show ?case by (intro exI [of _ s]) (simp add: syscall_def prog_simps)
qed (simp_all add: sibling_refl)

lemma sys_cputs_lab3_run:
  assumes check: "run (user_mem_check (curenv s) str len PTE_U) s = (Ret 0, s)"
    and "str \<noteq> 0" and bytes: "bytes_ahead str bs s" "length bs = unat len" and "unat len < 2147483648"
  shows "run (sys_cputs_lab3 str len) s = (Ret (), s\<lparr>console := console s @ map scast bs\<rparr>)"
proof -
  have "run (user_mem_assert_lab3 (curenv s) str len PTE_U) s = (Ret (), s)"
    using check by (simp add: user_mem_assert_lab3_def prog_simps)
  moreover have "run (user_mem_assert (curenv s) str len PTE_U) s = (Ret (), s)"
    using check by (simp add: user_mem_assert_def prog_simps)
  ultimately have "run (sys_cputs_lab3 str len) s = run (sys_cputs str len) s"
    unfolding sys_cputs_lab3_def sys_cputs_def by (simp add: run_bindP run_gets run_thenP_Ret)
  then show ?thesis using sys_cputs_run [OF assms] by simp
qed

interpretation lab3: console_kernel syscall_lab3 "[]" "\<lambda>e s. True" "\<lambda>e s t. t = s"
proof (unfold_locales, goal_cases)
  case (7 s xs es e buf bs)
  note R = buffer_readable [OF 7(1,3,4), of "pmem s (buffer_frame s e buf)" "console s", unfolded held_self, OF 7(5)]
  have "unat (of_nat (length bs) :: u32) = length bs" using 7(3) by (simp add: unat_of_nat32)
  then have "run (sys_cputs_lab3 buf (of_nat (length bs))) s = (Ret (), s\<lparr>console := console s @ map scast bs\<rparr>)"
    using sys_cputs_lab3_run [OF _ _ R(1), of "of_nat (length bs)"] R(2) 7(1,3) by (simp add: may_print_def writable_buffer_def)
  then show ?case by (intro exI [of _ s]) (simp add: syscall_lab3_def prog_simps)
qed (simp_all add: sibling_refl)

end
