(* ===== verification/UserRun.thy ===== *)
theory UserRun
  imports UserProgs UserPrint Lab3Kill
begin

text \<open>
  Programs on the kernel of \<^verbatim>\<open>project3\<close>. The processor saves the program's registers on the kernel stack
  and enters \<open>trap_lab3\<close>; when that goes to user mode the program continues. A program that does what it may
  not is gone at its first trap. A system call that returns leaves its result in \<^verbatim>\<open>eax\<close> and, of the rest of the
  machine, what its handler leaves. \<^verbatim>\<open>hello\<close> prints its lines and ends by its own system call.
\<close>

section \<open>Entering the kernel\<close>

definition resume :: "unit km \<Rightarrow> unit km" where
  "resume m s = (case m s of (Stop UserMode, t) \<Rightarrow> (Ret (), t) | r \<Rightarrow> r)"

lemma run_resume: "run (resume m) s = (case run m s of (Stop UserMode, t) \<Rightarrow> (Ret (), t) | r \<Rightarrow> r)"
  by (simp add: run_def resume_def)

text \<open>
  \<open>tf\<close> is the frame of the program but for what the trap puts there, \<open>addr\<close> its address on the kernel
  stack. A system call passes its number and arguments in registers and finds its result in \<^verbatim>\<open>eax\<close>.
\<close>

definition lab3_trap :: "u32 \<Rightarrow> Trapframe \<Rightarrow> u32 \<Rightarrow> u32 \<Rightarrow> unit km" where
  "lab3_trap addr tf n va =
     thenP (whenP (n = 14) (modify (\<lambda>s. s\<lparr>cr2 := va\<rparr>))) (resume (trap_lab3 addr (tf\<lparr>tf_trapno := n\<rparr>)))"

definition syscall_frame :: "Trapframe \<Rightarrow> u32 \<Rightarrow> u32 \<Rightarrow> u32 \<Rightarrow> u32 \<Rightarrow> u32 \<Rightarrow> u32 \<Rightarrow> Trapframe" where
  "syscall_frame tf num a1 a2 a3 a4 a5 =
     tf\<lparr>tf_trapno := 48, tf_regs := (tf_regs tf)\<lparr>reg_eax := num, reg_edx := a1, reg_ecx := a2, reg_ebx := a3, reg_edi := a4, reg_esi := a5\<rparr>\<rparr>"

definition lab3_int :: "u32 \<Rightarrow> Trapframe \<Rightarrow> sysfun" where
  "lab3_int addr tf num a1 a2 a3 a4 a5 =
     thenP (resume (trap_lab3 addr (syscall_frame tf num a1 a2 a3 a4 a5)))
     (bindP (gets curenv) (\<lambda>cur. bindP (deref cur) (\<lambda>c. gets (\<lambda>s. reg_eax (tf_regs (env_tf (envs s c)))))))"

definition lab3_runtime :: "u32 \<Rightarrow> Trapframe \<Rightarrow> u32 \<Rightarrow> nat \<Rightarrow> string \<Rightarrow> runtime" where
  "lab3_runtime addr tf buf this name =
     \<lparr>u_sys = lab3_int addr tf, u_trap = lab3_trap addr tf, u_buf = buf, u_this = this, u_name = name\<rparr>"

lemma lab3_runtime_sel [simp]:
  "u_sys (lab3_runtime addr tf buf this name) = lab3_int addr tf"
  "u_trap (lab3_runtime addr tf buf this name) = lab3_trap addr tf"
  by (simp_all add: lab3_runtime_def)

section \<open>Programs that do not survive\<close>

text \<open>Environment \<open>e\<close> runs in user mode and does not survive what it does next.\<close>

definition destroyed :: "kstate \<Rightarrow> nat \<Rightarrow> nat list \<Rightarrow> 'a km \<Rightarrow> bool" where
  "destroyed s e es m \<longleftrightarrow> (\<exists>t. run m s = (Stop Spinning, t) \<and> gone s e es t)"

lemma destroyed_first: "destroyed s e es m \<Longrightarrow> destroyed s e es (thenP m n)" "destroyed s e es m \<Longrightarrow> destroyed s e es (bindP m k)"
  by (auto simp: destroyed_def prog_simps)

lemma destroyed_after: "run m s = (Ret a, s) \<Longrightarrow> destroyed s e es (k a) \<Longrightarrow> destroyed s e es (bindP m k)"
  by (auto simp: destroyed_def prog_simps)

definition runs_user :: "kstate \<Rightarrow> nat list \<Rightarrow> nat list \<Rightarrow> nat \<Rightarrow> bool" where
  "runs_user s xs es e \<longleftrightarrow>
     kernel_ok s xs es \<and> e \<in> live s \<and> curenv s = Some e \<and> con_in s = [] \<and> eflags s AND FL_IF = 0 \<and> frame_of (cr3 s) = dir s e"

lemma lab3_trap_destroys:
  assumes s: "runs_user s xs es e" and cs: "tf_cs tf = GD_UT OR 3" and n: "n \<notin> {3, 48}"
  shows "destroyed s e es (lab3_trap addr tf n va)"
proof -
  let ?u = "if n = 14 then s\<lparr>cr2 := va\<rparr> else s" and ?tf = "tf\<lparr>tf_trapno := n\<rparr>"
  have K: "kernel_ok ?u xs es = kernel_ok s xs es" "live ?u = live s" by (intro kernel_ok_same; simp)+
  have sel: "curenv ?u = curenv s" "con_in ?u = con_in s" "eflags ?u = eflags s" by (cases "n = 14"; simp)+
  have off: "offends ?u e ?tf" using n by (simp add: offends_def)
  obtain t where t: "run (trap_lab3 addr ?tf) ?u = (Stop Spinning, t)" "gone ?u e es t"
    using trap_lab3_destroys [of ?u xs es e ?tf addr] off cs s unfolding runs_user_def K sel by auto
  have "gone s e es t" by (rule gone_same [OF t(2)]) simp_all
  moreover have "run (lab3_trap addr tf n va) s = (Stop Spinning, t)"
    using t(1) by (cases "n = 14") (simp_all add: lab3_trap_def prog_simps run_resume)
  ultimately show ?thesis unfolding destroyed_def by blast
qed

lemma uaccess_destroys:
  assumes s: "runs_user s xs es e" and cs: "tf_cs tf = GD_UT OR 3" and bad: "\<not> user_may write va s" and n: "0 < n"
  shows "destroyed s e es (uaccess (lab3_runtime addr tf buf this name) write n va)"
proof -
  have "find (\<lambda>i. \<not> user_may write (va + of_nat i) s) [0..<n] = Some 0"
    using n bad by (simp add: upt_conv_Cons)
  then show ?thesis
    using destroyed_first(1) [OF lab3_trap_destroys [OF s cs, of 14 addr va]]
    by (simp add: uaccess_def destroyed_def prog_simps)
qed

lemma cputs_destroys:
  assumes s: "runs_user s xs es e" and cs: "tf_cs tf = GD_UT OR 3"
    and len: "len \<noteq> 0" "unat str + unat len + 4095 < 2 ^ 32" and bad: "\<not> user_ok s (dir s e) PTE_U str"
  shows "destroyed s e es (usys_cputs (lab3_int addr tf) str len)"
proof -
  let ?tf = "syscall_frame tf SYS_cputs str len 0 0 0"
  have "unat len \<noteq> 0" using len(1) by (simp add: unat_eq_zero)
  then have off: "offends s e ?tf" using len bad by (auto simp: offends_def syscall_frame_def Let_def)
  obtain t where t: "run (trap_lab3 addr ?tf) s = (Stop Spinning, t)" "gone s e es t"
    using trap_lab3_destroys [of s xs es e ?tf addr] off cs s by (auto simp: runs_user_def syscall_frame_def)
  then have "destroyed s e es (lab3_int addr tf SYS_cputs str len 0 0 0)" by (simp add: destroyed_def lab3_int_def prog_simps run_resume)
  then show ?thesis unfolding usys_cputs_def usyscall_def by (intro destroyed_first)
qed

text \<open>What the page tables forbid.\<close>

lemma user_may_entry:
  assumes "frame_of (cr3 s) = pd" and "user_may write va s"
  shows "entry s pd va AND 4 = 4"
proof -
  let ?pde = "pde_at s pd va"
  have bits: "w AND 1 = 1" "w AND 4 = 4" if "w AND k = k" "k AND 1 = 1" "k AND 4 = 4" for w k :: u32
    using that by (metis and.assoc)+
  let ?k = "PTE_P OR PTE_U OR (if write then PTE_W else 0)"
  have need: "?pde AND ?k = ?k" "pmem s (frame_of ?pde) (unat (PTX va)) AND ?k = ?k"
    using assms by (simp_all add: user_may_def pde_at_def Let_def)
  have k: "?k AND 1 = 1" "?k AND 4 = 4" by (cases "write"; simp)+
  have "present ?pde" using bits(1) [OF need(1) k] by simp
  then show ?thesis using bits(2) [OF need(2) k] by (simp add: entry_def)
qed

text \<open>The programs of \<^verbatim>\<open>user/\<close> whose first act is one the hardware or the kernel refuses.\<close>

definition offending_programs :: "(runtime \<Rightarrow> unit km) list" where
  "offending_programs = [faultread, faultreadkernel, faultwrite, faultwritekernel, buggyhello, evilhello, softint, badsegment]"

lemma offending_destroyed:
  assumes s: "runs_user s xs es e" and cs: "tf_cs tf = GD_UT OR 3"
    and null: "entry s (dir s e) 0 = 0" and kern: "entry s (dir s e) 0xf0100000 AND PTE_U = 0" and gate: "gd_dpl (idt s 14) \<noteq> 3"
    and p: "p \<in> set offending_programs"
  shows "destroyed s e es (p (lab3_runtime addr tf buf this name))"
proof -
  let ?u = "lab3_runtime addr tf buf this name"
  have cr3: "frame_of (cr3 s) = dir s e" using s by (simp add: runs_user_def)
  have no: "\<not> user_may w 0 s" "\<not> user_may w 0xf0100000 s" for w
    using user_may_entry [OF cr3, of w 0] user_may_entry [OF cr3, of w "0xf0100000"] null kern by auto
  have "PDX 1 = PDX 0" "PTX 1 = PTX 0" by (simp_all add: PDX_def PTX_def)
  then have "entry s (dir s e) 1 = entry s (dir s e) 0" by (simp only: entry_def pde_at_def)
  then have "entry s (dir s e) 1 = 0" using null by simp
  then have cputs: "\<not> user_ok s (dir s e) PTE_U 1" "\<not> user_ok s (dir s e) PTE_U 0xf010000c" by (simp_all add: user_ok_def)
  have "destroyed s e es (uload32 ?u 0)" "destroyed s e es (uload32 ?u 0xf0100000)"
      "destroyed s e es (ustore32 ?u 0 0)" "destroyed s e es (ustore32 ?u 0xf0100000 0)"
    unfolding uload32_def ustore32_def by (intro destroyed_first uaccess_destroys [OF s cs] no; simp)+
  moreover have "destroyed s e es (usys_cputs (lab3_int addr tf) 1 1)" "destroyed s e es (usys_cputs (lab3_int addr tf) 0xf010000c 100)"
    by (rule cputs_destroys [OF s cs]; use cputs in simp)+
  moreover have "destroyed s e es (user_int ?u 14)"
    unfolding user_int_def by (rule destroyed_after [OF run_gets]) (use gate lab3_trap_destroys [OF s cs] in simp)
  moreover have "destroyed s e es (lab3_trap addr tf 13 0)" by (rule lab3_trap_destroys [OF s cs]) simp
  ultimately show ?thesis
    using p by (auto simp: offending_programs_def faultread_def faultreadkernel_def faultwrite_def faultwritekernel_def buggyhello_def
      evilhello_def softint_def badsegment_def intro: destroyed_first)
qed

section \<open>The console only grows\<close>

definition grows :: "'a km \<Rightarrow> bool" where
  "grows m \<longleftrightarrow> (\<forall>s. \<exists>out. console (snd (run m s)) = console s @ out)"

named_theorems grows_rules "computations that only add to the console"

lemma grows_keeps: "keeps console m \<Longrightarrow> grows m"
  by (auto simp: grows_def keeps_def)

lemma grows_pure [grows_rules]:
  "grows (ret a)" "grows (stop r)" "grows (gets f)" "grows (deref x)" "grows (assertP msg b)"
  by (intro grows_keeps keeps_rules)+

lemma grows_bindP [grows_rules]:
  assumes m: "grows m" and k: "\<And>a. grows (k a)"
  shows "grows (bindP m k)"
  unfolding grows_def
proof
  fix s
  obtain out where "console (snd (run m s)) = console s @ out" using m unfolding grows_def by blast
  moreover obtain out' where "console (snd (run (k a) t)) = console t @ out' a t" for a t using k unfolding grows_def by metis
  ultimately show "\<exists>out. console (snd (run (bindP m k) s)) = console s @ out"
    by (auto simp: prog_simps split: prod.splits outcome.splits)
qed

lemma grows_thenP [grows_rules]: "grows m \<Longrightarrow> grows n \<Longrightarrow> grows (thenP m n)"
  unfolding thenP_def by (rule grows_bindP)

lemma grows_cases [grows_rules]:
  "grows m \<Longrightarrow> grows n \<Longrightarrow> grows (if b then m else n)"
  "grows m \<Longrightarrow> (\<And>a. grows (k a)) \<Longrightarrow> grows (case x of None \<Rightarrow> m | Some a \<Rightarrow> k a)"
  "(\<And>a b. grows (q a b)) \<Longrightarrow> grows (case y of (a, b) \<Rightarrow> q a b)"
  by (simp_all split: option.splits prod.splits)

lemma grows_whenP [grows_rules]: "grows m \<Longrightarrow> grows (whenP b m)"
  by (simp add: whenP_def grows_rules)

lemma grows_forP [grows_rules]: "(\<And>i. grows (body i)) \<Longrightarrow> grows (forP is body)"
  by (induction "is") (auto intro: grows_rules)

lemma grows_cprintf [grows_rules]: "grows (cprintf fmt ap)"
  by (auto simp: grows_def cprintf_def run_def split: option.splits)

lemma console_beyond: "keeps beyond m \<Longrightarrow> keeps console m"
  unfolding keeps_def using beyond_sel(8) by blast

lemma grows_env_free_lab3: "grows (env_free_lab3 e)"
proof -
  have addr: "grows (PADDR kva)" "grows (KADDR pa)" "grows (pa2page pa)" for kva pa
    unfolding PADDR_def KADDR_def pa2page_def Let_def by (intro grows_keeps keeps_rules)+
  have cr3: "grows (lcr3 pa)" "grows (tlb_invalidate_lab3 pd va)" for pa pd va
    unfolding lcr3_def tlb_invalidate_lab3_def invlpg_def by (intro grows_keeps keeps_modify; simp)+
  have walk: "grows (page_lookup pd va)" "grows (page_decref pp)" "grows (store_pte q w)" "grows (modify (store_word f i w))" for pd va pp q f i w
    by (intro grows_keeps console_beyond keeps_rules)+
  have env: "grows (modify (upd_env e g))" "grows (modify (\<lambda>s. (upd_env e (h s) s)\<lparr>env_free_list := x\<rparr>))" for g h x
    by (intro grows_keeps keeps_modify; simp)+
  show ?thesis
    unfolding env_free_lab3_def env_free_pde_lab3_def env_free_pte_lab3_def page_remove_lab3_def Let_def
    by (intro grows_rules addr cr3 walk env)
qed

section \<open>A system call that returns\<close>

definition incoming :: "u32 \<Rightarrow> u32 list" where
  "incoming addr = render ''Incoming TRAP frame at %p\<newline>'' [VInt addr]"

definition lab3_ready :: "nat \<Rightarrow> kstate \<Rightarrow> bool" where
  "lab3_ready e s \<longleftrightarrow> eflags s AND FL_IF = 0 \<and> env_status (envs s e) = ENV_RUNNING \<and> cr3 s = page2pa (dir s e)"

text \<open>What the handler of the system call starts from.\<close>

definition entered :: "nat \<Rightarrow> Trapframe \<Rightarrow> kstate \<Rightarrow> kstate" where
  "entered e tf s = (upd_env e (\<lambda>v. v\<lparr>env_tf := tf\<rparr>) s)\<lparr>last_tf := tf_addr_lab3 (InEnv e) s\<rparr>"

lemma sibling_entered: "sibling e s (entered e tf s)"
  unfolding sibling_def entered_def
  by (intro exI [of _ tf] exI [of _ "env_runs (envs s e)"] exI [of _ "tf_addr_lab3 (InEnv e) s"]) (simp add: upd_env_def)

lemma sibling_marks:
  "sibling e s (upd_env e (\<lambda>v. v\<lparr>env_tf := tf\<rparr>) s)" "sibling e s (upd_env e (\<lambda>v. v\<lparr>env_runs := env_runs v + 1\<rparr>) s)"
proof -
  show "sibling e s (upd_env e (\<lambda>v. v\<lparr>env_tf := tf\<rparr>) s)" unfolding sibling_def
    by (intro exI [of _ tf] exI [of _ "env_runs (envs s e)"] exI [of _ "last_tf s"]) (simp add: upd_env_def)
  show "sibling e s (upd_env e (\<lambda>v. v\<lparr>env_runs := env_runs v + 1\<rparr>) s)" unfolding sibling_def
    by (intro exI [of _ "env_tf (envs s e)"] exI [of _ "env_runs (envs s e) + 1"] exI [of _ "last_tf s"]) (simp add: upd_env_def)
qed

lemma entered_held: "entered e tf (s\<lparr>console := c\<rparr>) = (entered e tf s)\<lparr>console := c\<rparr>"
  by (simp add: entered_def upd_env_def tf_addr_lab3_def)

lemma entered_tf: "env_tf (envs (entered e tf s) e) = tf"
  by (simp add: entered_def)

lemma trap_lab3_enters:
  assumes cur: "curenv s = Some e" and irq: "eflags s AND FL_IF = 0" and cs: "tf_cs tf AND 3 = 3"
  shows "run (trap_lab3 addr tf) s = run (thenP (trap_dispatch_lab3 (InEnv e))
    (bindP (gets (\<lambda>s. (curenv s, case curenv s of None \<Rightarrow> False | Some c \<Rightarrow> env_status (envs s c) = ENV_RUNNING))) (\<lambda>(cur, running).
       thenP (assertP ''curenv && curenv->env_status == ENV_RUNNING'' running) (bindP (deref cur) env_run_lab3))))
     ((entered e tf s)\<lparr>console := console s @ incoming addr\<rparr>)"
proof -
  have c: "s\<lparr>envs := x, last_tf := l, console := c\<rparr> = s\<lparr>console := c, envs := x, last_tf := l\<rparr>" for x l c by simp
  show ?thesis
    using assms unfolding trap_lab3_def
    by (simp add: prog_simps run_cprintf formats incoming_def entered_def tf_addr_lab3_def upd_env_def c)
qed

lemma set_curenv_same: "curenv s = x \<Longrightarrow> set_curenv x s = s"
  by (cases "cpus s (cpunum s)", cases s) (auto simp: set_curenv_def)

lemma upd_env_console: "upd_env e f (s\<lparr>console := c\<rparr>) = (upd_env e f s)\<lparr>console := c\<rparr>"
  by (simp add: upd_env_def)

lemma env_run_lab3_current:
  assumes "curenv s = Some e" and "env_status (envs s e) = ENV_RUNNING" and "env_pgdir (envs s e) = Some pd" "pd < 65536" "cr3 s = page2pa pd"
  shows "run (env_run_lab3 e) s = (Stop UserMode, upd_env e (\<lambda>v. v\<lparr>env_runs := env_runs v + 1\<rparr>) s)"
proof -
  have c: "set_curenv (Some e) (upd_env e f s) = upd_env e f s" for f by (rule set_curenv_same) (simp add: assms(1))
  have "(envs s e)\<lparr>env_status := ENV_RUNNING, env_runs := n\<rparr> = (envs s e)\<lparr>env_runs := n\<rparr>" for n
    using assms(2) by (cases "envs s e") simp
  then have u: "upd_env e (\<lambda>v. v\<lparr>env_status := ENV_RUNNING, env_runs := env_runs v + 1\<rparr>) (upd_env e (\<lambda>v. v\<lparr>env_status := ENV_RUNNABLE\<rparr>) s)
      = upd_env e (\<lambda>v. v\<lparr>env_runs := env_runs v + 1\<rparr>) s"
    by (simp add: upd_env_def)
  let ?t = "upd_env e (\<lambda>v. v\<lparr>env_runs := env_runs v + 1\<rparr>) s"
  have "?t\<lparr>cr3 := page2pa pd\<rparr> = ?t" using assms(5) by (cases s) (simp add: upd_env_def)
  then show ?thesis
    using assms(1,3,4) by (simp add: env_run_lab3_def env_pop_tf_lab3_def prog_simps PADDR_frame lcr3_def c u del: run_PADDR)
qed

lemma lab3_int_run:
  assumes ok: "kernel_ok s xs es" and e: "e \<in> live s" and cur: "curenv s = Some e" and ready: "lab3_ready e s"
    and cs: "tf_cs tf AND 3 = 3"
    and call: "run (syscall_lab3 num a1 a2 a3 a4 a5) ((entered e (syscall_frame tf num a1 a2 a3 a4 a5) s)\<lparr>console := console s @ incoming addr\<rparr>)
      = (Ret v, (entered e (syscall_frame tf num a1 a2 a3 a4 a5) s)\<lparr>console := console s @ incoming addr @ out\<rparr>)"
  shows "\<exists>t. sibling e s t \<and> run (lab3_int addr tf num a1 a2 a3 a4 a5) s = (Ret v, t\<lparr>console := console s @ incoming addr @ out\<rparr>)"
proof -
  let ?tf = "syscall_frame tf num a1 a2 a3 a4 a5"
  let ?u = "(entered e ?tf s)\<lparr>console := console s @ incoming addr\<rparr>"
  let ?v = "(entered e ?tf s)\<lparr>console := console s @ incoming addr @ out\<rparr>"
  note S = sibling_sel [OF sibling_entered [of e s ?tf]]
  have pd: "env_pgdir (envs s e) = Some (dir s e)" "dir s e < 65536" using kernel_ok_space [OF ok e] by simp_all
  have r: "read_tf (InEnv e) ?u = ?tf" by (simp add: read_tf_def entered_tf)
  have regs: "tf_trapno ?tf = 48" "reg_eax (tf_regs ?tf) = num" "reg_edx (tf_regs ?tf) = a1" "reg_ecx (tf_regs ?tf) = a2" "reg_ebx (tf_regs ?tf) = a3"
    "reg_edi (tf_regs ?tf) = a4" "reg_esi (tf_regs ?tf) = a5" "tf_cs ?tf = tf_cs tf"
    by (simp_all add: syscall_frame_def)
  have w: "upd_env e (\<lambda>w. w\<lparr>env_tf := (env_tf w)\<lparr>tf_regs := (tf_regs (env_tf w))\<lparr>reg_eax := v\<rparr>\<rparr>\<rparr>) ?v
      = upd_env e (\<lambda>w. w\<lparr>env_tf := ?tf\<lparr>tf_regs := (tf_regs ?tf)\<lparr>reg_eax := v\<rparr>\<rparr>\<rparr>) ?v"
    by (simp add: upd_env_def entered_def)
  have d: "run (trap_dispatch_lab3 (InEnv e)) ?u = (Ret (), upd_env e (\<lambda>w. w\<lparr>env_tf := ?tf\<lparr>tf_regs := (tf_regs ?tf)\<lparr>reg_eax := v\<rparr>\<rparr>\<rparr>) ?v)"
    using call cur S(6) unfolding trap_dispatch_lab3_def by (simp add: prog_simps r regs Let_def w)
  let ?w = "upd_env e (\<lambda>w. w\<lparr>env_tf := ?tf\<lparr>tf_regs := (tf_regs ?tf)\<lparr>reg_eax := v\<rparr>\<rparr>\<rparr>) ?v"
  have k: "curenv ?w = Some e" "env_status (envs ?w e) = ENV_RUNNING" "env_pgdir (envs ?w e) = Some (dir s e)" "cr3 ?w = page2pa (dir s e)"
    using S ready cur pd(1) by (simp_all add: lab3_ready_def)
  have "eflags s AND FL_IF = 0" "tf_cs ?tf AND 3 = 3" using ready cs regs(8) by (simp_all add: lab3_ready_def)
  note T = trap_lab3_enters [OF cur this, of addr, unfolded run_thenP d]
  define t where "t = upd_env e (\<lambda>v. v\<lparr>env_runs := env_runs v + 1\<rparr>) (upd_env e (\<lambda>w. w\<lparr>env_tf := ?tf\<lparr>tf_regs := (tf_regs ?tf)\<lparr>reg_eax := v\<rparr>\<rparr>\<rparr>) (entered e ?tf s))"
  define t' where "t' = t\<lparr>console := console s @ incoming addr @ out\<rparr>"
  have t': "upd_env e (\<lambda>v. v\<lparr>env_runs := env_runs v + 1\<rparr>) ?w = t'" unfolding t'_def t_def by (simp only: upd_env_console)
  have "run (trap_lab3 addr ?tf) s = (Stop UserMode, t')"
    unfolding T using k(1,2) env_run_lab3_current [OF k(1-3) pd(2) k(4), unfolded t'] by (simp add: prog_simps)
  then have r: "run (resume (trap_lab3 addr ?tf)) s = (Ret (), t')" by (simp add: run_resume)
  have "curenv t' = Some e" "reg_eax (tf_regs (env_tf (envs t' e))) = v" unfolding t'_def t_def using S(6) cur by simp_all
  then have "run (lab3_int addr tf num a1 a2 a3 a4 a5) s = (Ret v, t')"
    unfolding lab3_int_def by (simp add: run_thenP_Ret [OF r] run_bindP run_gets run_deref)
  moreover have "sibling e s t"
    unfolding t_def by (rule sibling_trans [OF sibling_trans [OF sibling_entered sibling_marks(1)] sibling_marks(2)])
  ultimately show ?thesis unfolding t'_def by blast
qed

text \<open>The trap keeps the promise of \<open>console_kernel\<close>, with the line about the trap as its noise.\<close>

lemma lab3_int_console:
  assumes cs: "tf_cs tf AND 3 = 3"
  shows "console_kernel (lab3_int addr tf) (incoming addr) lab3_ready sibling"
proof (unfold_locales, goal_cases)
  case (2 e s t u)
  then show ?case by (rule sibling_trans)
next
  case (5 e s t)
  then show ?case by (simp add: lab3_ready_def sibling_sel)
next
  case (6 e s f m c)
  then show ?case by (simp add: lab3_ready_def) (simp add: held_def)
next
  case (7 s xs es e buf bs)
  let ?tf = "syscall_frame tf SYS_cputs buf (of_nat (length bs)) 0 0 0" and ?c = "console s @ incoming addr"
  let ?s = "entered e ?tf s"
  note S = sibling_sel [OF sibling_entered [of e s ?tf]] sibling_may_print [OF sibling_entered [of e s ?tf]]
  have p: "may_print ?s xs es e buf" unfolding S(14) by (rule 7(1))
  have "\<forall>i < length bs. frame_byte (pmem s (buffer_frame ?s e buf)) (unat (PGOFF buf) + i) = bs ! i" using 7(5) S(8,15) by simp
  note R = buffer_readable [OF p 7(3,4) this, of ?c]
  have h: "held ?s (buffer_frame ?s e buf) (pmem s (buffer_frame ?s e buf)) ?c = ?s\<lparr>console := ?c\<rparr>"
    using S(1) by (simp add: held_def)
  have len: "unat (of_nat (length bs) :: u32) = length bs" using 7(3) by (simp add: unat_of_nat32)
  have cur: "curenv s = Some e" and ok: "kernel_ok s xs es" "e \<in> live s" using 7(1) by (simp_all add: may_print_def)
  have "run (sys_cputs_lab3 buf (of_nat (length bs))) (?s\<lparr>console := ?c\<rparr>) = (Ret (), ?s\<lparr>console := ?c @ map scast bs\<rparr>)"
    using sys_cputs_lab3_run [of "?s\<lparr>console := ?c\<rparr>" buf "of_nat (length bs)" bs] R len 7(1,3) S(6) cur unfolding h by (simp add: may_print_def writable_buffer_def)
  then have "run (syscall_lab3 SYS_cputs buf (of_nat (length bs)) 0 0 0) (?s\<lparr>console := ?c\<rparr>) = (Ret 0, ?s\<lparr>console := console s @ incoming addr @ map scast bs\<rparr>)"
    by (simp add: syscall_lab3_def prog_simps)
  from lab3_int_run [OF ok cur 7(2) cs this] show ?case .
qed (simp_all add: sibling_refl sibling_held)

section \<open>hello, world\<close>

lemma printnum_ascii: "c \<in> set (printnum num 16 width 48) \<Longrightarrow> 0 < c \<and> c < 128"
proof -
  assume "c \<in> set (printnum num 16 width 48)"
  then consider "c = 48" | d where "c = digit_char d" "d < 16"
    using digits_of_less [of 16] by (auto simp: printnum_eq)
  then show ?thesis
  proof cases
    case 2
    from \<open>d < 16\<close> have "d \<in> set [0..<16]" by simp
    then have "0 < digit_char d \<and> digit_char d < 128" by (auto simp: upt_conv_Cons digit_char_def uchar_def)
    then show ?thesis using 2(1) by simp
  qed simp
qed

lemma length_digits_of: "2 \<le> base \<Longrightarrow> n < base ^ Suc k \<Longrightarrow> length (digits_of base n) \<le> Suc k"
proof (induction k arbitrary: n)
  case 0
  then show ?case by (subst digits_of.simps) simp
next
  case (Suc k)
  have "n div base < base ^ Suc k" using Suc.prems by (simp add: less_mult_imp_div_less mult.commute)
  then have "length (digits_of base (n div base)) \<le> Suc k" using Suc by blast
  then show ?case by (subst digits_of.simps) simp
qed

lemma hex_length:
  assumes "w \<le> 8"
  shows "length (printnum (unat (ucast (i :: u32) :: u64)) 16 w 48) \<le> 8"
proof -
  have "unat i < 2 ^ 64" using unsigned_less [of i, where ?'a = nat] by simp
  then have "unat (ucast i :: u64) = unat i" unfolding unsigned_ucast_eq by (simp add: take_bit_nat_eq_self)
  moreover have "unat i < 16 ^ Suc 7" using unsigned_less [of i, where ?'a = nat] by simp
  ultimately have "length (digits_of 16 (unat (ucast i :: u64))) \<le> 8" using length_digits_of [of 16 "unat i" 7] by simp
  then show ?thesis using length_printnum [of "unat (ucast i :: u64)" 16 w 48] assms by linarith
qed

lemma hello_texts:
  "\<exists>out. vprintfmt ''hello, world\<newline>'' [] = Some out \<and> (\<forall>c \<in> set out. 0 < c \<and> c < 128) \<and> length out < 255"
  "\<exists>out. vprintfmt ''i am environment %08x\<newline>'' [VInt i] = Some out \<and> (\<forall>c \<in> set out. 0 < c \<and> c < 128) \<and> length out < 255"
proof -
  show "\<exists>out. vprintfmt ''hello, world\<newline>'' [] = Some out \<and> (\<forall>c \<in> set out. 0 < c \<and> c < 128) \<and> length out < 255"
    by (simp add: fmt_eval uchar_def)
  have "length (printnum (unat (ucast i :: u64)) 16 (width_digits CHR ''8'' ''x\<newline>'') 48) < 237"
    using hex_length [of "width_digits CHR ''8'' ''x\<newline>''" i] by (simp add: width_digits_def is_digit_char_def)
  then show "\<exists>out. vprintfmt ''i am environment %08x\<newline>'' [VInt i] = Some out \<and> (\<forall>c \<in> set out. 0 < c \<and> c < 128) \<and> length out < 255"
    using printnum_ascii by (simp add: fmt_eval uchar_def)
qed

text \<open>The two lines, on any kernel that keeps the promise.\<close>

context console_kernel
begin

lemma hello_prints:
  assumes p: "may_print s xs es e buf" and ready: "ready e s" and u: "u_sys u = sys" "u_buf u = buf" "u_this u = e"
  shows "\<exists>s' m. after e s s' \<and> run (hello u) s = (Ret (), held s' (buffer_frame s e buf) m
    (console s @ noise @ render ''hello, world\<newline>'' [] @ noise @ render ''i am environment %08x\<newline>'' [VInt (env_id (envs s e))]))"
proof -
  let ?f = "buffer_frame s e buf" and ?i = "env_id (envs s e)"
  obtain o1 where o1: "vprintfmt ''hello, world\<newline>'' [] = Some o1" "\<forall>c \<in> set o1. 0 < c \<and> c < 128" "length o1 < 255" using hello_texts(1) by blast
  obtain o2 where o2: "vprintfmt ''i am environment %08x\<newline>'' [VInt ?i] = Some o2" "\<forall>c \<in> set o2. 0 < c \<and> c < 128" "length o2 < 255"
    using hello_texts(2) by blast
  obtain s1 m1 where s1: "after e s s1"
    and m1: "run (ucprintf sys buf ''hello, world\<newline>'' []) s = (Ret (length o1), held s1 ?f m1 (console s @ noise @ o1))"
    using ucprintf_short [OF p ready o1, of "pmem s ?f" "console s"] unfolding held_self by blast
  note S = sibling_sel [OF after_sibling [OF s1]] sibling_may_print [OF after_sibling [OF s1]]
  have f: "buffer_frame s1 e buf = ?f" using S by simp
  have p1: "may_print s1 xs es e buf" unfolding S(14) by (rule p)
  obtain s2 m2 where s2: "after e s1 s2"
    and m2: "run (ucprintf sys buf ''i am environment %08x\<newline>'' [VInt ?i]) (held s1 ?f m1 (console s @ noise @ o1))
      = (Ret (length o2), held s2 ?f m2 ((console s @ noise @ o1) @ noise @ o2))"
    using ucprintf_short [OF p1 ready_after [OF ready s1] o2, of m1 "console s @ noise @ o1"] unfolding f by blast
  have "run (hello u) s = (Ret (), held s2 ?f m2 (console s @ noise @ o1 @ noise @ o2))"
    using m1 m2 S(9) by (simp add: hello_def uprint_def this_id_def u prog_simps)
  then show ?thesis using after_trans [OF s1 s2] by (auto simp: render_def o1(1) o2(1))
qed

end

section \<open>The end of a program\<close>

lemma env_destroy_lab3_console:
  assumes ok: "kernel_ok s xs es" and e: "e \<in> live s" and cur: "curenv s = Some e" and idle: "con_in s = []"
    and r: "run (env_destroy_lab3 e) s = (r, t)"
  shows "\<exists>out. console t = console s @ out"
proof -
  obtain u where u: "run (env_free e) s = (Ret (), u)" using kernel_free_env [OF ok e] by blast
  have f: "run (env_free_lab3 e) s = (Ret (), u)" using env_free_lab3_same [OF cur kernel_okD(3) [OF ok e]] u by simp
  obtain o1 where o1: "console u = console s @ o1" using grows_env_free_lab3 [of e] f unfolding grows_def by (metis snd_conv)
  have "con_in u = []" using keepsD [OF con_in_env_free u] idle by simp
  let ?v = "u\<lparr>console := console u @ render ''Destroyed the only environment - nothing more to do!\<newline>'' []\<rparr>"
  obtain out where "run (monitor_lab3 None) ?v = (Stop Spinning, ?v\<lparr>con_in := [], console := console ?v @ out\<rparr>)"
    using monitor_lab3_idle [of ?v] \<open>con_in u = []\<close> by auto
  then have "t = ?v\<lparr>con_in := [], console := console ?v @ out\<rparr>"
    using r f by (simp add: env_destroy_lab3_def prog_simps run_cprintf formats)
  then show ?thesis using o1 by simp
qed

lemma exit_format [formats]: "vprintfmt ''[%08x] exiting gracefully\<newline>'' [VInt w] \<noteq> None"
  by (simp add: fmt_eval)

lemma syscall_destroy_run:
  assumes ok: "kernel_ok s xs es" and e: "e \<in> live s" and cur: "curenv s = Some e" and idle: "con_in s = []"
  shows "\<exists>t out. run (syscall_lab3 SYS_env_destroy 0 0 0 0 0) s = (Stop Spinning, t) \<and> gone s e es t
    \<and> console t = console s @ render ''[%08x] exiting gracefully\<newline>'' [VInt (env_id (envs s e))] @ out"
proof -
  let ?u = "s\<lparr>console := console s @ render ''[%08x] exiting gracefully\<newline>'' [VInt (env_id (envs s e))]\<rparr>"
  have K: "kernel_ok ?u xs es = kernel_ok s xs es" "live ?u = live s" by (intro kernel_ok_same; simp)+
  obtain t where t: "run (env_destroy_lab3 e) ?u = (Stop Spinning, t)" "gone ?u e es t"
    using env_destroy_lab3_run [of ?u xs es e] ok e cur idle unfolding K by auto
  obtain out where "console t = console ?u @ out"
    using env_destroy_lab3_console [OF _ _ _ _ t(1), of xs es] ok e cur idle unfolding K by auto
  moreover have "gone s e es t" by (rule gone_same [OF t(2)]) simp_all
  moreover have "run (syscall_lab3 SYS_env_destroy 0 0 0 0 0) s = (Stop Spinning, t)"
    using t(1) cur envid2env_current [of True s]
    by (simp add: syscall_lab3_def sys_env_destroy_lab3_def prog_simps run_cprintf formats)
  ultimately show ?thesis by auto
qed

lemma exit_lab3_run:
  assumes ok: "kernel_ok s xs es" and e: "e \<in> live s" and cur: "curenv s = Some e" and idle: "con_in s = []"
    and ready: "lab3_ready e s" and cs: "tf_cs tf AND 3 = 3"
  shows "\<exists>t out. run (uexit (lab3_int addr tf)) s = (Stop Spinning, t) \<and> gone s e es t
    \<and> console t = console s @ incoming addr @ render ''[%08x] exiting gracefully\<newline>'' [VInt (env_id (envs s e))] @ out"
proof -
  let ?tf = "syscall_frame tf SYS_env_destroy 0 0 0 0 0"
  let ?s = "entered e ?tf s" and ?c = "console s @ incoming addr"
  note S = sibling_sel [OF sibling_entered [of e s ?tf]]
  have K: "kernel_ok (?s\<lparr>console := ?c\<rparr>) xs es = kernel_ok ?s xs es" "live (?s\<lparr>console := ?c\<rparr>) = live ?s" by (intro kernel_ok_same; simp)+
  obtain t out where t: "run (syscall_lab3 SYS_env_destroy 0 0 0 0 0) (?s\<lparr>console := ?c\<rparr>) = (Stop Spinning, t)" "gone (?s\<lparr>console := ?c\<rparr>) e es t"
    "console t = ?c @ render ''[%08x] exiting gracefully\<newline>'' [VInt (env_id (envs s e))] @ out"
    using syscall_destroy_run [of "?s\<lparr>console := ?c\<rparr>" xs es e] ok e cur idle S unfolding K by auto
  have "gone s e es t" by (rule gone_same [OF t(2)]) (use S in simp_all)
  moreover have d: "run (trap_dispatch_lab3 (InEnv e)) (?s\<lparr>console := ?c\<rparr>) = (Stop Spinning, t)"
    using t(1) unfolding trap_dispatch_lab3_def by (simp add: prog_simps read_tf_def entered_tf syscall_frame_def Let_def)
  then have "run (trap_lab3 addr ?tf) s = (Stop Spinning, t)"
    using trap_lab3_enters [OF cur, of ?tf addr] ready cs by (simp add: lab3_ready_def syscall_frame_def run_thenP)
  then have "run (uexit (lab3_int addr tf)) s = (Stop Spinning, t)"
    by (simp add: uexit_def usys_env_destroy_def usyscall_def lab3_int_def prog_simps run_resume)
  ultimately show ?thesis using t(3) by auto
qed

text \<open>What \<open>libmain\<close> gives the program: its runtime with \<^verbatim>\<open>thisenv\<close> and \<^verbatim>\<open>binaryname\<close>.\<close>

definition with_main :: "runtime \<Rightarrow> (runtime \<Rightarrow> unit km) \<Rightarrow> nat \<Rightarrow> string \<Rightarrow> unit km" where
  "with_main u p this name = p (u\<lparr>u_this := this, u_name := name\<rparr>)"


lemma getenvid_lab3_run:
  assumes ok: "kernel_ok s xs es" and e: "e \<in> live s" and cur: "curenv s = Some e" and ready: "lab3_ready e s" and cs: "tf_cs tf AND 3 = 3"
  shows "\<exists>t. sibling e s t \<and> run (usys_getenvid (lab3_int addr tf)) s = (Ret (env_id (envs s e)), t\<lparr>console := console s @ incoming addr\<rparr>)"
proof -
  let ?frame = "syscall_frame tf SYS_getenvid 0 0 0 0 0"
  note S = sibling_sel [OF sibling_entered [of e s ?frame]]
  have "run (syscall_lab3 SYS_getenvid 0 0 0 0 0) ((entered e ?frame s)\<lparr>console := console s @ incoming addr\<rparr>)
      = (Ret (env_id (envs s e)), (entered e ?frame s)\<lparr>console := console s @ incoming addr @ []\<rparr>)"
    using S(6,9) cur by (simp add: syscall_lab3_def sys_getenvid_def prog_simps)
  from lab3_int_run [OF ok e cur ready cs this] show ?thesis by (auto simp: usys_getenvid_def usyscall_def prog_simps)
qed

lemma may_print_says:
  assumes "sibling e s t" and "may_print s xs es e buf"
  shows "may_print (t\<lparr>console := c\<rparr>) xs es e buf"
proof -
  have "may_print t xs es e buf" using assms sibling_may_print(1) by blast
  from may_print_held(1) [OF this, of "pmem t (buffer_frame t e buf)" c] show ?thesis by (simp add: held_def)
qed

lemma lab3_ready_says: "sibling e s t \<Longrightarrow> lab3_ready e s \<Longrightarrow> lab3_ready e (t\<lparr>console := c\<rparr>)"
  using sibling_sel [of e s t] by (simp add: lab3_ready_def dir_def)

lemma hello_lab3_run:
  assumes p: "may_print s xs es e buf" and idle: "con_in s = []" and ready: "lab3_ready e s" and cs: "tf_cs tf AND 3 = 3"
  shows "\<exists>t zs out. run (libmain (lab3_int addr tf) (with_main (lab3_runtime addr tf buf this name) hello) argc argv) s = (Stop Spinning, t)
    \<and> console t = console s @ incoming addr
        @ incoming addr @ render ''hello, world\<newline>'' []
        @ incoming addr @ render ''i am environment %08x\<newline>'' [VInt (env_id (envs s e))]
        @ incoming addr @ render ''[%08x] exiting gracefully\<newline>'' [VInt (env_id (envs s e))] @ out
    \<and> kernel_ok t (dir s e # zs) (e # es) \<and> live t = live s - {e} \<and> (\<forall>i. i \<noteq> e \<longrightarrow> envs t i = envs s i)"
proof -
  let ?i = "env_id (envs s e)" and ?sys = "lab3_int addr tf" and ?name = "if 0 < argc then argv ! 0 else ''<unknown>''"
  let ?texts = "incoming addr @ render ''hello, world\<newline>'' [] @ incoming addr @ render ''i am environment %08x\<newline>'' [VInt ?i]"
  note trap = lab3_int_console [OF cs, of addr]
  have ok: "kernel_ok s xs es" and e: "e \<in> live s" and cur: "curenv s = Some e" using p by (simp_all add: may_print_def)
  have idx: "ENVX ?i = e" using kernel_okD(4) [OF ok e] by blast
  obtain s1 where s1: "sibling e s s1" and g: "run (usys_getenvid ?sys) s = (Ret ?i, s1\<lparr>console := console s @ incoming addr\<rparr>)"
    using getenvid_lab3_run [OF ok e cur ready cs] by blast
  let ?s1 = "s1\<lparr>console := console s @ incoming addr\<rparr>" and ?u = "(lab3_runtime addr tf buf this name)\<lparr>u_this := e, u_name := ?name\<rparr>"
  note S1 = sibling_sel [OF s1] and p1 = may_print_says [OF s1 p, of "console s @ incoming addr"]
  have u: "u_sys ?u = ?sys" "u_buf ?u = buf" "u_this ?u = e" by (simp_all add: lab3_runtime_def)
  obtain s2 m where s2: "sibling e ?s1 s2"
    and b: "run (hello ?u) ?s1 = (Ret (), held s2 (buffer_frame ?s1 e buf) m (console s @ incoming addr @ ?texts))"
    using console_kernel.hello_prints [OF trap p1 lab3_ready_says [OF s1 ready] u] S1(9) [of e] by auto
  note S2 = sibling_sel [OF s2] sibling_may_print [OF s2]
  have p2: "may_print s2 xs es e buf" unfolding S2(14) by (rule p1)
  have f: "buffer_frame ?s1 e buf = buffer_frame s2 e buf" using S2(8,15) by simp
  let ?s2 = "held s2 (buffer_frame s2 e buf) m (console s @ incoming addr @ ?texts)"
  have r2: "lab3_ready e ?s2"
    by (intro console_kernel.ready_held [OF trap] console_kernel.ready_after [OF trap lab3_ready_says [OF s1 ready] s2])
  have sel: "live ?s2 = live s" "curenv ?s2 = Some e" "con_in ?s2 = []" "dir ?s2 = dir s" "env_id (envs ?s2 e) = ?i" "i \<noteq> e \<Longrightarrow> envs ?s2 i = envs s i" for i
    using S1 S2 cur idle by (simp_all add: live_def dir_def fun_eq_iff)
  obtain t out where t: "run (uexit ?sys) ?s2 = (Stop Spinning, t)" "gone ?s2 e es t"
    "console t = (console s @ incoming addr @ ?texts) @ incoming addr @ render ''[%08x] exiting gracefully\<newline>'' [VInt ?i] @ out"
    using exit_lab3_run [OF held_ok(1) [OF p2] _ _ _ r2 cs, of addr] e sel by auto
  have "run (libmain ?sys (with_main (lab3_runtime addr tf buf this name) hello) argc argv) s = (Stop Spinning, t)"
    using g b t(1) idx by (simp add: libmain_def f Let_def prog_simps with_main_def)
  then show ?thesis using t(2,3) sel by (auto simp: gone_def)
qed

end
