(* ===== verification/UserProps.thy ===== *)
theory UserProps
  imports UserRun KernelProps
begin

text \<open>
  The properties of user programs: what they print, how they end, and what is left of the kernel. The
  machine of the witnesses is \<open>sample_user\<close>: environment 0 runs, with one page, at \<^verbatim>\<open>0x00800000\<close>.
\<close>

lemma sample_user_runs: "runs_user sample_user sample_free [1..<1024] 0"
proof -
  have "con_in sample_user = []" "eflags sample_user AND FL_IF = 0" by (simp_all add: sample_user_def sample_def)
  moreover have "frame_of (cr3 sample_user) = dir sample_user 0" by (simp add: dir_def sample_env_def PGNUM_def)
  ultimately show ?thesis using sample_user_ok sample_live by (simp add: runs_user_def)
qed

lemma sample_user_dir: "dir sample_user 0 = 14"
  by (simp add: dir_def sample_env_def)

lemma sample_may_print: "may_print sample_user sample_free [1..<1024] 0 0x00800000"
  using sample_user_runs sample_frames
  by (simp add: may_print_def runs_user_def writable_buffer_def sample_user_dir entry_def pde_at_def user_memory_frames PDX_def PTX_def)

text \<open>C6. The kernel of project3 does not let an offender go on. With no input waiting, when the running environment
  traps with an exception, or with a system call to print a string that it cannot read, the kernel frees the environment and
  goes to the monitor: it is no longer live, its slot is at the head of the free list and its page directory at the
  head of that of the pages, every other environment is untouched, memory outside its own page tables too, and
  the kernel's invariant holds.\<close>

theorem lab3_destroys_offender:
  assumes "runs_user s xs es e" and "tf_cs tf = GD_UT OR 3" and "offends s e tf"
  shows "\<exists>t zs. run (trap_lab3 addr tf) s = (Stop Spinning, t) \<and> kernel_ok t (dir s e # zs) (e # es) \<and> live t = live s - {e}
    \<and> (\<forall>i. i \<noteq> e \<longrightarrow> envs t i = envs s i) \<and> (\<forall>f. f \<notin> own s (dir s e) \<longrightarrow> pmem t f = pmem s f)"
  using trap_lab3_destroys [of s xs es e tf addr] assms unfolding runs_user_def gone_def by blast

theorem lab3_destroys_offender_witness:
  "\<exists>t zs. run (trap_lab3 0xefffffbc (new_env_tf\<lparr>tf_trapno := 14\<rparr>)) sample_user = (Stop Spinning, t)
    \<and> kernel_ok t (14 # zs) (0 # [1..<1024]) \<and> live t = {} \<and> pmem t 13 = pmem sample_user 13"
proof -
  let ?tf = "new_env_tf\<lparr>tf_trapno := 14\<rparr>"
  have "tf_cs ?tf = GD_UT OR 3" "offends sample_user 0 ?tf" by (simp_all add: offends_def new_env_tf_def)
  from lab3_destroys_offender [OF sample_user_runs this, of "0xefffffbc"] obtain t zs where
    t: "run (trap_lab3 0xefffffbc ?tf) sample_user = (Stop Spinning, t)" "kernel_ok t (14 # zs) (0 # [1..<1024])"
    "live t = {}" "\<forall>f. f \<notin> {12, 14} \<longrightarrow> pmem t f = pmem sample_user f"
    unfolding sample_user_dir sample_user_slots sample_live by auto
  then show ?thesis by (intro exI [of _ t] exI [of _ zs]) simp
qed

text \<open>C11. The buggy programs are destroyed. Each of faultread, faultreadkernel, faultwrite, faultwritekernel, buggyhello,
  evilhello, softint and badsegment, run on the kernel of project3 by an environment that has nothing mapped at
  address 0 and no access to the kernel's pages, is destroyed at its first act, through whatever trap or
  system call that is; the others keep what they have and the kernel's invariant holds.\<close>

theorem buggy_programs_destroyed:
  assumes "runs_user s xs es e" and "tf_cs tf = GD_UT OR 3"
    and "entry s (dir s e) 0 = 0" and "entry s (dir s e) 0xf0100000 AND PTE_U = 0" and "gd_dpl (idt s 14) \<noteq> 3"
    and "p \<in> set [faultread, faultreadkernel, faultwrite, faultwritekernel, buggyhello, evilhello, softint, badsegment]"
  shows "\<exists>t zs. run (p (lab3_runtime addr tf buf this name)) s = (Stop Spinning, t) \<and> kernel_ok t (dir s e # zs) (e # es)
    \<and> live t = live s - {e} \<and> (\<forall>i. i \<noteq> e \<longrightarrow> envs t i = envs s i) \<and> (\<forall>f. f \<notin> own s (dir s e) \<longrightarrow> pmem t f = pmem s f)"
  using offending_destroyed [OF assms(1-5), of p addr buf this name] assms(6)
  unfolding offending_programs_def destroyed_def gone_def by blast

theorem buggy_programs_destroyed_witness:
  "\<exists>t zs. run (faultwritekernel (lab3_runtime 0xefffffbc new_env_tf 0x00800000 0 ''faultwritekernel'')) sample_user = (Stop Spinning, t)
    \<and> kernel_ok t (14 # zs) (0 # [1..<1024]) \<and> live t = {}"
proof -
  have "entry sample_user (dir sample_user 0) 0 = 0" "entry sample_user (dir sample_user 0) 0xf0100000 AND PTE_U = 0"
    using kernel_sample_frames user_memory_frames(2) [of 256] by (simp_all add: entry_def pde_at_def sample_user_dir user_memory_frames PDX_def PTX_def)
  moreover have "gd_dpl (idt sample_user 14) \<noteq> 3" by (simp add: sample_user_def GATE_ZERO_def)
  ultimately show ?thesis
    using buggy_programs_destroyed [OF sample_user_runs, of new_env_tf faultwritekernel "0xefffffbc" "0x00800000" 0 "''faultwritekernel''"]
      sample_live sample_user_dir by (simp add: new_env_tf_def) blast
qed

text \<open>C10. What a program prints appears on the console. With a stack buffer, not at address zero, that the program may write to, a format whose
  arguments have the right shapes and whose output is ASCII, \<open>cprintf\<close> of the user library, on the
  system calls of lab4, returns the number of characters and adds to the console what the kernel's own \<open>cprintf\<close>
  adds, whatever the number of chunks it takes; only the page of the buffer changes, and the kernel's
  invariant holds.\<close>

theorem user_cprintf_prints:
  assumes "may_print s xs es e buf" and "vprintfmt fmt ap = Some out" and "\<forall>c \<in> set out. 0 < c \<and> c < 128"
  shows "\<exists>t. run (ucprintf syscall buf fmt ap) s = (Ret (length out), t)
    \<and> (\<exists>n. fst (run (cprintf fmt ap) s) = Ret n \<and> console t = console (snd (run (cprintf fmt ap) s)))
    \<and> kernel_ok t xs es \<and> envs t = envs s \<and> (\<forall>f. f \<noteq> frame_of (entry s (dir s e) buf) \<longrightarrow> pmem t f = pmem s f)"
proof -
  let ?f = "buffer_frame s e buf"
  obtain n chunks where u: "uvcprintf fmt ap = Some (n, chunks)"
    using assms(2) by (cases "uvcprintf fmt ap") (auto simp: uvcprintf_def)
  obtain m where "run (ucprintf syscall buf fmt ap) s = (Ret (length out), held s ?f m (console s @ out))"
    using lab4.ucprintf_run [OF assms(1) TrueI assms(2,3) u, of "pmem s ?f" "console s"] uvcprintf_eq(1) [OF u] assms(2)
    by (auto simp: held_self)
  moreover have "run (cprintf fmt ap) s = (Ret 0, s\<lparr>console := console s @ out\<rparr>)" using assms(2) by (simp add: run_cprintf render_def)
  ultimately show ?thesis using held_ok(1) [OF assms(1)] by auto
qed

theorem user_cprintf_prints_witness:
  "\<exists>t n. run (ucprintf syscall 0x00800000 ''%d cent'' [VInt 99]) sample_user = (Ret n, t)
    \<and> console t = console (snd (run (cprintf ''%d cent'' [VInt 99]) sample_user))"
proof -
  have "\<exists>out. vprintfmt ''%d cent'' [VInt 99] = Some out \<and> (\<forall>c \<in> set out. 0 < c \<and> c < 128)"
    by (simp add: fmt_eval fmt_signed_def printnum.simps digit_char_def uchar_def)
  then show ?thesis using user_cprintf_prints [OF sample_may_print] by blast
qed

text \<open>C5. hello runs to its end. Started by \<open>libmain\<close> on the kernel of project3, with a stack it may write to and
  no input waiting, it enters the kernel four times through the trap handler, which reports each trap on the
  console: to learn its number, to print each of its two lines, the second with that number, and to leave by
  \<open>sys_env_destroy\<close>. The first three return to it; after the last the environment is gone, the others are as
  they were, and the kernel waits in the monitor with its invariant intact.\<close>

theorem hello_runs_and_exits:
  assumes "may_print s xs es e buf" and "con_in s = []" and "lab3_ready e s" and "tf_cs tf AND 3 = 3"
  shows "\<exists>t zs out. run (libmain (lab3_int addr tf) (with_main (lab3_runtime addr tf buf this name) hello) argc argv) s = (Stop Spinning, t)
    \<and> console t = console s @ incoming addr
        @ incoming addr @ render ''hello, world\<newline>'' []
        @ incoming addr @ render ''i am environment %08x\<newline>'' [VInt (env_id (envs s e))]
        @ incoming addr @ render ''[%08x] exiting gracefully\<newline>'' [VInt (env_id (envs s e))] @ out
    \<and> kernel_ok t (dir s e # zs) (e # es) \<and> live t = live s - {e} \<and> (\<forall>i. i \<noteq> e \<longrightarrow> envs t i = envs s i)"
  by (rule hello_lab3_run [OF assms])

abbreviation (input) sample_trap :: string where "sample_trap \<equiv> ''Incoming TRAP frame at 0xefffffbc\<newline>''"

theorem hello_runs_and_exits_witness:
  "\<exists>t out. run (libmain (lab3_int 0xefffffbc new_env_tf) (with_main (lab3_runtime 0xefffffbc new_env_tf 0x00800000 0 ''hello'') hello) 0 []) sample_user
      = (Stop Spinning, t)
    \<and> console t = map uchar (sample_trap @ sample_trap @ ''hello, world\<newline>'' @ sample_trap @ ''i am environment 00001000\<newline>''
        @ sample_trap @ ''[00001000] exiting gracefully\<newline>'') @ out \<and> live t = {}"
proof -
  have id: "env_id (envs sample_user 0) = 0x1000" "console sample_user = []" "con_in sample_user = []"
    by (simp_all add: sample_env_def sample_user_def sample_def)
  have four: "replicate 4 w = [w, w, w, w]" for w :: u32 by (simp add: numeral_eq_Suc)
  have texts: "render ''hello, world\<newline>'' [] = map uchar ''hello, world\<newline>''"
    "render ''i am environment %08x\<newline>'' [VInt 0x1000] = map uchar ''i am environment 00001000\<newline>''"
    "render ''[%08x] exiting gracefully\<newline>'' [VInt 0x1000] = map uchar ''[00001000] exiting gracefully\<newline>''"
    "incoming 0xefffffbc = map uchar ''Incoming TRAP frame at 0xefffffbc\<newline>''"
    by (simp_all add: render_def incoming_def fmt_eval printnum.simps digit_char_def uchar_def width_digits_def four)
  have ready: "lab3_ready 0 sample_user"
    using sample_user_runs by (simp add: lab3_ready_def runs_user_def sample_user_dir sample_env_def page2pa_def)
  have "tf_cs new_env_tf AND 3 = 3" by (simp add: new_env_tf_def)
  from hello_runs_and_exits [OF sample_may_print id(3) ready this, of "0xefffffbc" 0 "''hello''" 0 "[]"] show ?thesis
    unfolding id texts sample_live unfolding map_append append.assoc append_Nil Diff_cancel by blast
qed

end
