(* ===== verification/Spec2Isabelle.thy ===== *)
theory Spec2Isabelle
  imports MemProps ProcProps KernelProps BootProps LibProps Lab2Props Lab3Props UserForks UserProps
begin

text \<open>
  A model of the JOS teaching kernel, as it stands in the directory \<^verbatim>\<open>lab4\<close>, with the
  theorems that make its parts correct.

  \<^bold>\<open>The program.\<close> The boot loader (\<^verbatim>\<open>boot/main.c\<close>) reads the kernel from the disk and jumps to
  it with the page tables of \<^verbatim>\<open>kern/entrypgdir.c\<close>. \<open>i386_init\<close> (\<^verbatim>\<open>kern/init.c\<close>) sets up the
  console (\<^verbatim>\<open>kern/console.c\<close>), memory (\<^verbatim>\<open>kern/pmap.c\<close>), the environment table
  (\<^verbatim>\<open>kern/env.c\<close>), the traps (\<^verbatim>\<open>kern/trap.c\<close>) and the other CPUs (\<^verbatim>\<open>kern/mpconfig.c\<close>,
  \<^verbatim>\<open>kern/lapic.c\<close>, \<^verbatim>\<open>kern/picirq.c\<close>), then creates an environment and runs it. A program enters
  the kernel through \<open>trap\<close>, which calls \<open>syscall\<close> (\<^verbatim>\<open>kern/syscall.c\<close>), the page fault handler
  or the monitor (\<^verbatim>\<open>kern/monitor.c\<close>, with \<^verbatim>\<open>kern/kdebug.c\<close> and \<^verbatim>\<open>lib/readline.c\<close>), and then
  goes back to an environment or to \<open>sched_yield\<close> (\<^verbatim>\<open>kern/sched.c\<close>). \<^verbatim>\<open>lib/\<close> is shared by
  the kernel (strings, printing) or is the programs' side of the system calls.

  \<^bold>\<open>The state.\<close> \<open>kstate\<close> (\<open>KState\<close>) is one record of the kernel's globals, physical memory, the
  registers the code reads and writes, and the characters printed. Memory is an array of frames
  of 1024 words; a pointer to a page table is a frame number, a pointer into \<^verbatim>\<open>pages\<close> or
  \<^verbatim>\<open>envs\<close> an index, the null pointer \<open>None\<close>. A C function is a computation in the state monad
  of \<open>Prelude\<close>: it returns a value or stops with a reason (a panic, \<^verbatim>\<open>iret\<close> to user mode, a
  halt, an endless loop, an access C leaves undefined), and the state is kept in every case.
  Machine integers are words. The drivers (\<open>Console\<close>) have a state of their own, \<open>io_state\<close>:
  what a port returns is a given stream, what is written to ports is logged. \<open>Init\<close> puts the
  two states together. Where kernel code reads or writes through virtual addresses, \<open>VMem\<close>
  translates them with the tables \<^verbatim>\<open>cr3\<close> points to.

  \<^bold>\<open>Theories and sources.\<close>
  \<^item> \<open>Prelude\<close>: word types, the monad, loops, triples, linked lists.
  \<^item> \<open>Layout\<close>: \<^verbatim>\<open>inc/mmu.h\<close>, \<^verbatim>\<open>inc/memlayout.h\<close>, \<^verbatim>\<open>inc/types.h\<close>, \<^verbatim>\<open>inc/error.h\<close>.
  \<^item> \<open>CString\<close>: \<^verbatim>\<open>lib/string.c\<close>. \<open>PrintFmt\<close>, \<open>Printf\<close>: \<^verbatim>\<open>lib/printfmt.c\<close>, \<^verbatim>\<open>kern/printf.c\<close>,
    \<^verbatim>\<open>lib/printf.c\<close>.
  \<^item> \<open>KState\<close>: the structs. \<open>VMem\<close>: address translation.
  \<^item> \<open>Pmap\<close>: \<^verbatim>\<open>kern/pmap.c\<close> and \<^verbatim>\<open>kern/pmap.h\<close>; \<open>PmapCheck\<close>: its self tests and \<open>mem_init\<close>.
    Lemmas: \<open>PmapAlloc\<close> (the free list), \<open>PmapInit\<close> (\<open>boot_alloc\<close>, \<open>page_init\<close>), \<open>PmapTables\<close>
    (walks, stores, removal), \<open>PmapSpace\<close> (insertion, regions), \<open>AddrSpace\<close> (a directory as a
    finite map), \<open>PmapUser\<close> (\<open>user_mem_check\<close>), \<open>PmapCheckSpec\<close> (\<open>check_page_free_list\<close>).
  \<^item> \<open>EntryPgdir\<close>: \<^verbatim>\<open>kern/entrypgdir.c\<close>. \<open>Boot\<close>: \<^verbatim>\<open>boot/main.c\<close>.
  \<^item> \<open>EnvC\<close>: \<^verbatim>\<open>kern/env.c\<close>; lemmas in \<open>EnvTable\<close>, \<open>EnvFree\<close> (\<open>env_free\<close>),
    \<open>KernelInv\<close> (all environments together), \<open>SpaceOps\<close> (mapping pages in one of several spaces),
    \<open>ElfImage\<close> (well-formed images) and \<open>Loader\<close> (\<open>load_icode\<close>, \<open>env_create\<close>). \<open>Sched\<close>: \<^verbatim>\<open>kern/sched.c\<close>, \<open>env_destroy\<close>,
    \<open>user_mem_assert\<close>.
  \<^item> \<open>Syscall\<close>, \<open>Trap\<close>: \<^verbatim>\<open>kern/syscall.c\<close>, \<^verbatim>\<open>kern/trap.c\<close>; lemmas in \<open>SyscallSpec\<close> and
    \<open>Isolation\<close> (a user program against the kernel). \<open>Failing\<close>: which computations can only fail.
    \<open>TrapKill\<close>: how an exception ends an environment of \<^verbatim>\<open>lab4\<close>, and the CPU.
  \<^item> \<open>Spinlock\<close>: \<^verbatim>\<open>kern/spinlock.c\<close>, and the lock as a system of several CPUs.
  \<^item> \<open>Kdebug\<close>, \<open>Monitor\<close>: \<^verbatim>\<open>kern/kdebug.c\<close>, \<^verbatim>\<open>kern/monitor.c\<close>, \<^verbatim>\<open>lib/readline.c\<close>.
    Lemmas: \<open>MonitorRun\<close> (the monitor prints and reads, and nothing else), \<open>MonitorSpec\<close> (what it answers, against
    reference definitions of the words of a line and of the text of each command).
  \<^item> \<open>Console\<close>: \<^verbatim>\<open>kern/console.c\<close>, \<^verbatim>\<open>kern/picirq.c\<close>, \<^verbatim>\<open>kern/kclock.c\<close>. \<open>MpConfig\<close>:
    \<^verbatim>\<open>kern/mpconfig.c\<close>, \<^verbatim>\<open>kern/lapic.c\<close>. \<open>Init\<close>: \<^verbatim>\<open>kern/init.c\<close>; \<open>BootSpec\<close>:
    why the start of this tree cannot succeed.
  \<^item> \<open>UserLib\<close>: the rest of \<^verbatim>\<open>lib/\<close>. \<open>UserProgs\<close>, \<open>UserForks\<close>: the programs under \<^verbatim>\<open>user/\<close>, the second those that
    need calls that are stubs in this tree. Lemmas: \<open>UserPrint\<close> (from \<open>ucprintf\<close> to the console), \<open>UserRun\<close> (programs on
    the kernel of \<^verbatim>\<open>project3\<close>, entered by its trap handler).
  \<^item> \<open>Lab3Mem\<close>, \<open>Lab3Env\<close>, \<open>Lab3Trap\<close>, \<open>Lab3Init\<close>: the kernel of \<^verbatim>\<open>project3\<close>, one assignment earlier and
    for one CPU. Functions whose text is the same in both trees have one definition; those that differ, or
    call one that does, have a version with the suffix \<open>_lab3\<close>. Lemmas: \<open>SelfTest\<close> (the self tests of the
    memory manager pass, on a state of three pages), \<open>KernelMap\<close> (a directory that grows by regions),
    \<open>Lab3Boot\<close> (\<open>mem_init\<close> up to the tests), \<open>Lab3Kernel\<close> (the kernel's mappings, the rest of \<open>mem_init\<close>),
    \<open>Lab3Start\<close> (\<open>env_create\<close> against that of \<^verbatim>\<open>lab4\<close>, the whole start), \<open>Lab3Kill\<close> (how the kernel ends a program).
  \<^item> \<open>Lab2\<close>: the kernel of \<^verbatim>\<open>Project2\<close>, before there were environments, in the same way with the suffix
    \<open>_lab2\<close>. Lemmas: \<open>Lab2Kernel\<close> (\<open>mem_init\<close> and the start, on the lemmas of \<open>Lab3Kernel\<close>). The two older trees share
    a shorter table of error messages for \<^verbatim>\<open>%e\<close>, which their kernels use only in \<open>readline\<close> (\<open>readline_lab3\<close>), and
    \<^verbatim>\<open>project3\<close> has a smaller \<^verbatim>\<open>struct Env\<close> (\<open>tf_addr_lab3\<close>); \<open>vprintfmt\<close> is otherwise the same in all three.
  \<^item> \<open>Sample\<close>: a small machine for the witnesses. \<open>MemProps\<close>, \<open>ProcProps\<close>, \<open>KernelProps\<close>,
    \<open>BootProps\<close>, \<open>LibProps\<close>, \<open>Lab3Props\<close>, \<open>Lab2Props\<close>, \<open>UserProps\<close>: the properties, each followed by a theorem that applies it to a concrete machine.

  \<^bold>\<open>Interfaces.\<close> \<open>page_pool\<close> is what the clients of the page allocator rely on, \<open>page_mapping\<close> what
  an address space promises (insert, remove and lookup are those of a finite map), \<open>byte_queue\<close> what
  the console's input buffer promises, \<open>command_loop\<close> what the monitor's loop needs of its commands, \<open>console_kernel\<close> what a printing program needs of the kernel's \<^verbatim>\<open>SYS_cputs\<close> (kept
  by \<open>syscall\<close>, by \<open>syscall_lab3\<close> and by the whole trap of \<^verbatim>\<open>project3\<close>), \<open>invariant_system\<close> the proof of invariants of step
  relations. Each is interpreted on the code's model.

  \<^bold>\<open>Invariants.\<close> \<open>free_pages s xs\<close> says that the free list is \<open>xs\<close>, has no duplicates and only
  unreferenced pages; \<open>pgdir_ok s pd xs\<close> that the directory \<open>pd\<close> has its own page tables, none
  of them free; \<open>space_inv pd H s xs k\<close> adds that every mapping and every page of \<open>H\<close> is counted in
  \<^verbatim>\<open>pp_ref\<close> and that \<open>k\<close> more insertions cannot overflow a count; \<open>space_ok\<close> is what \<open>env_free\<close> needs
  of the environment it takes apart. \<open>kernel_ok s xs es\<close> (\<open>KernelInv\<close>) is the invariant of the whole
  kernel: the free list of environments is \<open>es\<close>, every other environment has an id of its slot and an
  address space of its own, and no page has two owners; \<open>in_user\<close> (\<open>Isolation\<close>) adds that the machine
  runs an environment in user mode. Addresses under \<^verbatim>\<open>UVPT\<close>, where a directory maps itself, are left out of the
  statements on mappings.

  \<^bold>\<open>Bounds and fuel.\<close> Loops with a bound known in advance are folds over a list of indices.
  The walk along a free list of pages has fuel \<open>2 ^ 20\<close>, the number of pages a 32-bit machine
  can have; the one along the list of environments 1025. \<open>readseg\<close> has one step per sector of the
  address space. Polling loops (the disk, the serial port, the keyboard, the APIC) and loops
  that read input have fuel, as have the endless loops of user programs, and running out is the outcome \<open>Spinning\<close>: the properties that say
  a result is reached assume a device that becomes ready in time. String functions that may run
  off the end of memory are partial functions.

  \<^bold>\<open>Not modelled.\<close> The assembly files, which switch modes and build trap frames; their effect on
  the C code is an input (the frame \<open>trap\<close> gets, the addresses of the trap stubs). The inline
  assembly of \<^verbatim>\<open>user/faultregs.c\<close>. Timing, caches and the contents of the TLB (the operands of \<^verbatim>\<open>invlpg\<close> are logged).
\<close>

end
